(* ===== verification/Go_Prelude.thy ===== *)
theory Go_Prelude
  imports Main "HOL-Library.AList" "HOL-Library.Char_ord" "HOL-Library.List_Lexorder" "HOL-Library.Word"
begin

text \<open>
  Shared vocabulary of the development.

  Go strings are byte sequences and are modelled by \<^typ>\<open>string\<close>.  The functions of Go's
  \<open>strings\<close> package that the sources call are defined here (\<open>HasPrefix\<close>, \<open>TrimPrefix\<close>, \<open>HasSuffix\<close>,
  \<open>IndexByte\<close>, \<open>Split\<close> and \<open>SplitN\<close> on a one-byte separator, \<open>Join\<close>, \<open>ToLower\<close> and
  \<open>ToUpper\<close> on ASCII text).  A Go \<open>map\<close> is an association list with distinct keys
  (\<open>gomap\<close>), written by \<^const>\<open>AList.update\<close> and \<^const>\<open>AList.delete\<close>, read by \<^const>\<open>map_of\<close>; the
  order of the list carries no meaning, and code that ranges over a map receives the order of the
  visit as an argument.  Durations and instants are integers (nanoseconds).  Third-party code is a
  function argument of the definitions that use it.

  The locale \<open>step_system\<close> is the invariant principle that the stateful components share:
  it is interpreted on each component's operations.
\<close>

type_synonym duration = int
type_synonym instant = int
type_synonym ('k, 'v) gomap = "('k \<times> 'v) list"

text \<open>Facts that unfold the model's small wrappers; component proofs use this collection.\<close>

named_theorems go_simps

section \<open>Association lists as Go maps\<close>

abbreviation gomap_ok :: "('k, 'v) gomap \<Rightarrow> bool" where
  "gomap_ok m \<equiv> distinct (map fst m)"

definition gomap_has :: "('k, 'v) gomap \<Rightarrow> 'k \<Rightarrow> bool" where
  "gomap_has m k = (map_of m k \<noteq> None)"

lemma gomap_has_iff [simp]: "gomap_has m k \<longleftrightarrow> k \<in> fst ` set m"
  by (simp add: gomap_has_def map_of_eq_None_iff)

lemma gomap_ok_update [simp]: "gomap_ok m \<Longrightarrow> gomap_ok (AList.update k v m)"
  by (rule distinct_update)

lemma gomap_ok_delete [simp]: "gomap_ok m \<Longrightarrow> gomap_ok (AList.delete k m)"
  by (rule distinct_delete)

lemma map_of_alist_update [simp]: "map_of (AList.update k v m) = (map_of m)(k \<mapsto> v)"
  by (rule update_conv')

lemma map_of_alist_delete [simp]: "map_of (AList.delete k m) = (map_of m)(k := None)"
  by (rule AList.delete_conv')

lemma keys_update [simp]: "fst ` set (AList.update k v m) = insert k (fst ` set m)"
  by (simp add: dom_update)

lemma keys_delete [simp]: "fst ` set (AList.delete k m) = fst ` set m - {k}"
  by (simp add: AList.delete_keys [symmetric] dom_map_of_conv_image_fst [symmetric] Diff_eq dom_def
      AList.delete_conv' ) auto

lemma length_update_new:
  "k \<notin> fst ` set m \<Longrightarrow> length (AList.update k v m) = Suc (length m)"
  by (induction m) auto

lemma length_update_old:
  "k \<in> fst ` set m \<Longrightarrow> length (AList.update k v m) = length m"
  by (induction m) auto

lemma length_delete_in:
  "gomap_ok m \<Longrightarrow> k \<in> fst ` set m \<Longrightarrow> Suc (length (AList.delete k m)) = length m"
proof (induction m)
  case (Cons p m)
  then show ?case
  proof (cases "fst p = k")
    case True
    with Cons.prems(1) have "k \<notin> fst ` set m" by auto
    then have "AList.delete k m = m" by (simp add: AList.delete_eq filter_id_conv) force
    with True show ?thesis by (cases p) simp
  next
    case False
    with Cons show ?thesis by (cases p) auto
  qed
qed simp

lemma map_of_eq_Some_iff': "gomap_ok m \<Longrightarrow> map_of m k = Some v \<longleftrightarrow> (k, v) \<in> set m"
  by (rule map_of_eq_Some_iff)

section \<open>Lists\<close>

lemma filter_eq_single: "distinct xs \<Longrightarrow> x \<in> set xs \<Longrightarrow> filter (\<lambda>y. y = x) xs = [x]"
  by (induction xs) (auto simp: filter_empty_conv)

lemma filter_not_last:
  "distinct (map f xs) \<Longrightarrow> xs \<noteq> [] \<Longrightarrow> filter (\<lambda>x. f x \<noteq> f (last xs)) xs = butlast xs"
  by (cases xs rule: rev_cases) (auto simp: filter_id_conv image_iff)

section \<open>Strings\<close>

definition HasPrefix :: "string \<Rightarrow> string \<Rightarrow> bool" where
  "HasPrefix s p = (take (length p) s = p)"

definition TrimPrefix :: "string \<Rightarrow> string \<Rightarrow> string" where
  "TrimPrefix s p = (if HasPrefix s p then drop (length p) s else s)"

definition HasSuffix :: "string \<Rightarrow> string \<Rightarrow> bool" where
  "HasSuffix s p = (length p \<le> length s \<and> drop (length s - length p) s = p)"

lemma HasPrefix_iff [go_simps]: "HasPrefix s p \<longleftrightarrow> (\<exists>t. s = p @ t)"
proof
  assume "HasPrefix s p"
  then have "s = p @ drop (length p) s"
    by (metis HasPrefix_def append_take_drop_id)
  then show "\<exists>t. s = p @ t" ..
qed (auto simp: HasPrefix_def)

lemma HasSuffix_iff [go_simps]: "HasSuffix s p \<longleftrightarrow> (\<exists>t. s = t @ p)"
proof
  assume "HasSuffix s p"
  then have "s = take (length s - length p) s @ p"
    by (metis HasSuffix_def append_take_drop_id)
  then show "\<exists>t. s = t @ p" ..
qed (auto simp: HasSuffix_def)

text \<open>\<open>strings.IndexByte\<close>: the position of the first occurrence, \<open>None\<close> for Go's \<open>-1\<close>.\<close>

fun IndexByte :: "string \<Rightarrow> char \<Rightarrow> nat option" where
  "IndexByte [] c = None"
| "IndexByte (x # xs) c = (if x = c then Some 0 else map_option Suc (IndexByte xs c))"

lemma IndexByte_None [go_simps]: "IndexByte s c = None \<longleftrightarrow> c \<notin> set s"
  by (induction s) auto

lemma IndexByte_Some:
  "IndexByte s c = Some i \<Longrightarrow>
     i < length s \<and> s ! i = c \<and> c \<notin> set (take i s) \<and> s = take i s @ c # drop (Suc i) s"
proof (induction s arbitrary: i)
  case (Cons x s)
  then show ?case by (cases i) (auto split: if_splits)
qed simp

text \<open>\<open>strings.Split\<close> on a one-byte separator and \<open>strings.Join\<close>.\<close>

fun Split :: "string \<Rightarrow> char \<Rightarrow> string list" where
  "Split [] c = [[]]"
| "Split (x # xs) c =
     (if x = c then [] # Split xs c
      else (case Split xs c of [] \<Rightarrow> [[x]] | y # ys \<Rightarrow> (x # y) # ys))"

fun Join :: "string list \<Rightarrow> string \<Rightarrow> string" where
  "Join [] sep = []"
| "Join [x] sep = x"
| "Join (x # y # ys) sep = x @ sep @ Join (y # ys) sep"

lemma Split_not_Nil [simp]: "Split s c \<noteq> []"
  by (induction s) (auto split: list.splits)

lemma Split_no_sep: "p \<in> set (Split s c) \<Longrightarrow> c \<notin> set p"
proof (induction s arbitrary: p)
  case (Cons x s)
  then show ?case by (cases "Split s c") (auto split: if_splits)
qed simp

lemma Split_single: "c \<notin> set s \<Longrightarrow> Split s c = [s]"
  by (induction s) auto

lemma Split_append:
  "c \<notin> set p \<Longrightarrow> Split (p @ c # s) c = p # Split s c"
  by (induction p) auto

lemma Join_Cons: "ys \<noteq> [] \<Longrightarrow> Join (x # ys) sep = x @ sep @ Join ys sep"
  by (cases ys) auto

lemma Join_Split: "Join (Split s c) [c] = s"
proof (induction s)
  case (Cons x s)
  obtain y ys where sp: "Split s c = y # ys"
    by (meson Split_not_Nil neq_Nil_conv)
  show ?case
  proof (cases "x = c")
    case True
    with Cons sp show ?thesis by (simp add: Join_Cons)
  next
    case False
    with Cons sp show ?thesis by (cases ys) auto
  qed
qed simp

lemma Split_Join:
  "xs \<noteq> [] \<Longrightarrow> (\<And>x. x \<in> set xs \<Longrightarrow> c \<notin> set x) \<Longrightarrow> Split (Join xs [c]) c = xs"
proof (induction xs rule: induct_list012)
  case (3 x y zs)
  then show ?case by (auto simp: Split_append)
qed (auto simp: Split_single)

text \<open>Case conversion of ASCII text.\<close>

definition is_upper :: "char \<Rightarrow> bool" where
  "is_upper c = (CHR ''A'' \<le> c \<and> c \<le> CHR ''Z'')"

definition is_lower :: "char \<Rightarrow> bool" where
  "is_lower c = (CHR ''a'' \<le> c \<and> c \<le> CHR ''z'')"

definition is_digit :: "char \<Rightarrow> bool" where
  "is_digit c = (CHR ''0'' \<le> c \<and> c \<le> CHR ''9'')"

definition lower_char :: "char \<Rightarrow> char" where
  "lower_char c = (if is_upper c then char_of (of_char c + 32 :: nat) else c)"

definition upper_char :: "char \<Rightarrow> char" where
  "upper_char c = (if is_lower c then char_of (of_char c - 32 :: nat) else c)"

definition ToLower :: "string \<Rightarrow> string" where
  "ToLower s = map lower_char s"

definition ToUpper :: "string \<Rightarrow> string" where
  "ToUpper s = map upper_char s"

text \<open>\<open>strings.TrimSpace\<close> on ASCII text, \<open>strings.TrimRight\<close> of one byte, \<open>strings.TrimSuffix\<close>, \<open>strings.Contains\<close>.\<close>

definition is_space :: "char \<Rightarrow> bool" where
  "is_space c = (c \<in> {CHR '' '', CHR 0x09, CHR 0x0A, CHR 0x0B, CHR 0x0C, CHR 0x0D})"

definition TrimSpace :: "string \<Rightarrow> string" where
  "TrimSpace s = rev (dropWhile is_space (rev (dropWhile is_space s)))"

definition TrimRight :: "char \<Rightarrow> string \<Rightarrow> string" where
  "TrimRight c s = rev (dropWhile (\<lambda>x. x = c) (rev s))"

definition TrimSuffix :: "string \<Rightarrow> string \<Rightarrow> string" where
  "TrimSuffix s p = (if HasSuffix s p then take (length s - length p) s else s)"

fun Contains :: "string \<Rightarrow> string \<Rightarrow> bool" where
  "Contains [] sub = (sub = [])"
| "Contains (c # s) sub = (HasPrefix (c # s) sub \<or> Contains s sub)"

text \<open>\<open>strconv.Itoa\<close> and \<open>strconv.Atoi\<close> (the range check is that of a 64-bit \<open>int\<close>).\<close>

definition digit_char :: "nat \<Rightarrow> char" where
  "digit_char d = char_of (48 + d)"

definition digit_val :: "char \<Rightarrow> nat" where
  "digit_val c = of_char c - 48"

fun show_nat :: "nat \<Rightarrow> string" where
  "show_nat n = (if n < 10 then [digit_char n] else show_nat (n div 10) @ [digit_char (n mod 10)])"

declare show_nat.simps [simp del]

definition Itoa :: "int \<Rightarrow> string" where
  "Itoa i = (if i < 0 then CHR ''-'' # show_nat (nat (- i)) else show_nat (nat i))"

definition read_digits :: "string \<Rightarrow> nat option" where
  "read_digits s =
     (if s \<noteq> [] \<and> list_all is_digit s then Some (foldl (\<lambda>n c. 10 * n + digit_val c) 0 s) else None)"

definition Atoi :: "string \<Rightarrow> int option" where
  "Atoi s =
     (let r = (case s of
                 CHR ''-'' # ds \<Rightarrow> map_option (\<lambda>n. - int n) (read_digits ds)
               | CHR ''+'' # ds \<Rightarrow> map_option int (read_digits ds)
               | ds \<Rightarrow> map_option int (read_digits ds))
      in case r of
           None \<Rightarrow> None
         | Some i \<Rightarrow> if - (2 ^ 63) \<le> i \<and> i < 2 ^ 63 then Some i else None)"

lemma of_digit_char: "d < 10 \<Longrightarrow> of_char (digit_char d) = 48 + d"
  by (simp add: digit_char_def)

lemma is_digit_char: "d < 10 \<Longrightarrow> is_digit (digit_char d)"
  by (simp add: is_digit_def less_eq_char_def of_digit_char)

lemma digit_val_char: "d < 10 \<Longrightarrow> digit_val (digit_char d) = d"
  by (simp add: digit_val_def of_digit_char)

lemma show_nat_ne [simp]: "show_nat n \<noteq> []"
  by (subst show_nat.simps) simp

lemma show_nat_digits: "list_all is_digit (show_nat n)"
proof (induction n rule: show_nat.induct)
  case (1 n)
  then show ?case by (subst show_nat.simps) (auto simp: is_digit_char)
qed

lemma foldl_show_nat: "foldl (\<lambda>n c. 10 * n + digit_val c) 0 (show_nat n) = n"
proof (induction n rule: show_nat.induct)
  case (1 n)
  then show ?case by (subst show_nat.simps) (auto simp: digit_val_char)
qed

lemma read_digits_show_nat: "read_digits (show_nat n) = Some n"
  by (simp add: read_digits_def show_nat_digits foldl_show_nat)

lemma show_nat_hd: "show_nat n = c # cs \<Longrightarrow> is_digit c"
  using show_nat_digits [of n] by simp

lemma digit_not_punct: "is_digit c \<Longrightarrow> c \<notin> set ''.[]-+_/ ,''"
  by (auto simp: is_digit_def less_eq_char_def)

lemma Atoi_show_nat: "int n < 2 ^ 63 \<Longrightarrow> Atoi (show_nat n) = Some (int n)"
proof -
  assume "int n < 2 ^ 63"
  moreover obtain c cs where sn: "show_nat n = c # cs"
    by (meson neq_Nil_conv show_nat_ne)
  have "c \<noteq> CHR ''-''" and "c \<noteq> CHR ''+''"
    using digit_not_punct [OF show_nat_hd [OF sn]] by auto
  then have "(case c # cs of CHR ''-'' # ds \<Rightarrow> map_option (\<lambda>n. - int n) (read_digits ds)
      | CHR ''+'' # ds \<Rightarrow> map_option int (read_digits ds)
      | ds \<Rightarrow> map_option int (read_digits ds)) = map_option int (read_digits (c # cs))"
    by (auto split: list.splits char.splits bool.splits)
  ultimately show ?thesis
    by (simp add: Atoi_def sn read_digits_show_nat [of n, unfolded sn])
qed

text \<open>\<open>base64.StdEncoding\<close>: encoding of bytes, and decoding with \<open>None\<close> for malformed input.\<close>

definition b64_alphabet :: string where
  "b64_alphabet = ''ABCDEFGHIJKLMNOPQRSTUVWXYZabcdefghijklmnopqrstuvwxyz0123456789+/''"

definition b64_char :: "nat \<Rightarrow> char" where
  "b64_char n = b64_alphabet ! n"

fun b64_encode :: "string \<Rightarrow> string" where
  "b64_encode [] = []"
| "b64_encode [a] =
     (let n = of_char a :: nat in
      [b64_char (n div 4), b64_char (n mod 4 * 16), CHR ''='', CHR ''=''])"
| "b64_encode [a, b] =
     (let n = of_char a :: nat; m = of_char b :: nat in
      [b64_char (n div 4), b64_char (n mod 4 * 16 + m div 16), b64_char (m mod 16 * 4), CHR ''=''])"
| "b64_encode (a # b # c # rest) =
     (let n = of_char a :: nat; m = of_char b :: nat; l = of_char c :: nat in
      [b64_char (n div 4), b64_char (n mod 4 * 16 + m div 16), b64_char (m mod 16 * 4 + l div 64),
       b64_char (l mod 64)] @ b64_encode rest)"

fun index_of :: "'a list \<Rightarrow> 'a \<Rightarrow> nat option" where
  "index_of [] x = None"
| "index_of (y # ys) x = (if y = x then Some 0 else map_option Suc (index_of ys x))"

definition b64_index :: "char \<Rightarrow> nat option" where
  "b64_index c = index_of b64_alphabet c"

fun b64_decode :: "string \<Rightarrow> string option" where
  "b64_decode [] = Some []"
| "b64_decode (a # b # c # d # rest) =
     (if d = CHR ''='' \<and> rest = [] then
        (if c = CHR ''='' then
           (case (b64_index a, b64_index b) of
              (Some i, Some j) \<Rightarrow> Some [char_of (i * 4 + j div 16)]
            | _ \<Rightarrow> None)
         else
           (case (b64_index a, b64_index b, b64_index c) of
              (Some i, Some j, Some k) \<Rightarrow>
                Some [char_of (i * 4 + j div 16), char_of (j mod 16 * 16 + k div 4)]
            | _ \<Rightarrow> None))
      else
        (case (b64_index a, b64_index b, b64_index c, b64_index d) of
           (Some i, Some j, Some k, Some l) \<Rightarrow>
             map_option (\<lambda>r. [char_of (i * 4 + j div 16), char_of (j mod 16 * 16 + k div 4),
                char_of (k mod 4 * 64 + l)] @ r) (b64_decode rest)
         | _ \<Rightarrow> None))"
| "b64_decode xs = None"

lemma index_of_nth: "distinct xs \<Longrightarrow> n < length xs \<Longrightarrow> index_of xs (xs ! n) = Some n"
proof (induction xs arbitrary: n)
  case (Cons x xs)
  then show ?case by (cases n) (auto simp: nth_mem)
qed simp

lemma b64_alphabet_distinct: "distinct b64_alphabet" "length b64_alphabet = 64"
  by (simp_all add: b64_alphabet_def)

lemma b64_index_char: "n < 64 \<Longrightarrow> b64_index (b64_char n) = Some n"
  by (simp add: b64_index_def b64_char_def index_of_nth b64_alphabet_distinct)

lemma b64_char_ne: "n < 64 \<Longrightarrow> b64_char n \<noteq> CHR ''=''"
proof -
  assume "n < 64"
  then have "b64_char n \<in> set b64_alphabet" by (simp add: b64_char_def b64_alphabet_distinct)
  moreover have "CHR ''='' \<notin> set b64_alphabet" by (simp add: b64_alphabet_def)
  ultimately show ?thesis by metis
qed

lemma of_char_div [simp]: "(of_char c :: nat) div 4 < 64" "(of_char c :: nat) div 16 < 16" "(of_char c :: nat) div 64 < 4"
  using nat_of_char_less_256 [of c] by (simp_all add: div_less_iff_less_mult)

lemma b64_decode_encode: "b64_decode (b64_encode s) = Some s"
proof (induction s rule: b64_encode.induct)
  case (2 a)
  have "(of_char a :: nat) mod 4 * 16 < 64" by simp
  then show ?case by (simp add: Let_def b64_index_char)
next
  case (3 a b)
  let ?n = "of_char a :: nat" and ?m = "of_char b :: nat"
  have j: "?n mod 4 * 16 + ?m div 16 < 64" using mod_less_divisor [of 4 ?n] of_char_div(2) [of b] by linarith
  have k: "?m mod 16 * 4 < 64" by simp
  have e1: "?n div 4 * 4 + (?n mod 4 * 16 + ?m div 16) div 16 = ?n" using of_char_div(2) [of b] by simp
  have e2: "(?n mod 4 * 16 + ?m div 16) mod 16 * 16 + (?m mod 16 * 4) div 4 = ?m" using of_char_div(2) [of b] by simp
  show ?case using e1 e2 by (simp add: Let_def b64_index_char j k b64_char_ne)
next
  case (4 a b c rest)
  let ?n = "of_char a :: nat" and ?m = "of_char b :: nat" and ?l = "of_char c :: nat"
  have j: "?n mod 4 * 16 + ?m div 16 < 64" using mod_less_divisor [of 4 ?n] of_char_div(2) [of b] by linarith
  have k: "?m mod 16 * 4 + ?l div 64 < 64" using mod_less_divisor [of 16 ?m] of_char_div(3) [of c] by linarith
  have e1: "?n div 4 * 4 + (?n mod 4 * 16 + ?m div 16) div 16 = ?n" using of_char_div(2) [of b] by simp
  have e2: "(?n mod 4 * 16 + ?m div 16) mod 16 * 16 + (?m mod 16 * 4 + ?l div 64) div 4 = ?m"
    using of_char_div(2) [of b] of_char_div(3) [of c] by simp
  have e3: "(?m mod 16 * 4 + ?l div 64) mod 4 * 64 + ?l mod 64 = ?l" using of_char_div(3) [of c] by simp
  show ?case using "4.IH" e1 e2 e3 by (simp add: Let_def b64_index_char j k b64_char_ne)
qed simp

section \<open>Systems that keep an invariant\<close>

text \<open>
  A component is a state, a type of operations and a step function.  A run applies a list of
  operations; it is admissible when every operation's guard (the obligation of the caller or of the
  runtime, such as enumerating the keys of a map) holds in the state it meets.
\<close>

fun run_ops :: "('s \<Rightarrow> 'o \<Rightarrow> 's) \<Rightarrow> 's \<Rightarrow> 'o list \<Rightarrow> 's" where
  "run_ops step s [] = s"
| "run_ops step s (x # xs) = run_ops step (step s x) xs"

fun admissible :: "('s \<Rightarrow> 'o \<Rightarrow> bool) \<Rightarrow> ('s \<Rightarrow> 'o \<Rightarrow> 's) \<Rightarrow> 's \<Rightarrow> 'o list \<Rightarrow> bool" where
  "admissible guard step s [] = True"
| "admissible guard step s (x # xs) = (guard s x \<and> admissible guard step (step s x) xs)"

lemma admissible_trivial: "admissible (\<lambda>s x. True) step s xs"
  by (induction xs arbitrary: s) auto

lemma run_ops_append: "run_ops step s (xs @ ys) = run_ops step (run_ops step s xs) ys"
  by (induction xs arbitrary: s) auto

locale step_system =
  fixes step :: "'s \<Rightarrow> 'o \<Rightarrow> 's"
    and guard :: "'s \<Rightarrow> 'o \<Rightarrow> bool"
    and inv :: "'s \<Rightarrow> bool"
  assumes step_inv: "inv s \<Longrightarrow> guard s x \<Longrightarrow> inv (step s x)"
begin

lemma run_inv: "inv s \<Longrightarrow> admissible guard step s xs \<Longrightarrow> inv (run_ops step s xs)"
  by (induction xs arbitrary: s) (auto intro: step_inv)

end

end
