(* ===== verification/Ttl_Cache.thy ===== *)
theory Ttl_Cache
  imports Go_Prelude
begin

text \<open>
  \<open>cache/cache.go\<close>: the generic TTL cache with least-recently-used eviction.

  The state is the struct \<open>TTLCache\<close>: the map \<open>items\<close>, the doubly linked list \<open>order\<close>
  (front first; an element is its identity and the key it carries), the capacity and the state of
  the cleanup goroutine.  Every method is one definition; \<open>time.Now()\<close> is an argument, and a loop
  that ranges over \<open>items\<close> takes the sequence of visited keys with the clock reading of each
  visit.  The mutex makes every method atomic.

  Shown: the representation invariant of map and list is kept by every operation, the concrete cache
  refines an abstract recency list, and the contract \<open>ttl_store\<close> that the clients of the
  cache (\<open>kubeutil/plurals\<close>, \<open>kubeutil/rbac\<close>) rely on.
\<close>

section \<open>State and operations\<close>

record 'v item =
  item_value :: 'v
  item_expiry :: instant
  item_elem :: nat

definition isExpired :: "'v item \<Rightarrow> instant \<Rightarrow> bool" where
  "isExpired i now = (now > item_expiry i)"

record ttlCacheOptions =
  opt_cleanupInterval :: duration
  opt_maxEntries :: int

datatype ttl_option = WithCleanupInterval duration | WithMaxEntries int

fun apply_ttl_option :: "ttl_option \<Rightarrow> ttlCacheOptions \<Rightarrow> ttlCacheOptions" where
  "apply_ttl_option (WithCleanupInterval d) o' =
     (if d \<ge> 0 then o'\<lparr>opt_cleanupInterval := d\<rparr> else o')"
| "apply_ttl_option (WithMaxEntries n) o' =
     (if n \<ge> 0 then o'\<lparr>opt_maxEntries := n\<rparr> else o')"

record ('k, 'v) ttl_cache =
  items :: "('k, 'v item) gomap"
  order :: "(nat \<times> 'k) list"
  next_elem :: nat
  maxEntries :: int
  stopped :: bool
  cleaner :: bool

definition NewTTL :: "ttl_option list \<Rightarrow> ('k, 'v) ttl_cache" where
  "NewTTL opts =
     (let cfg = fold apply_ttl_option opts
                  \<lparr>opt_cleanupInterval = 5000000000, opt_maxEntries = 0\<rparr>
      in \<lparr>items = [], order = [], next_elem = 0, maxEntries = opt_maxEntries cfg,
          stopped = False, cleaner = (opt_cleanupInterval cfg > 0)\<rparr>)"

text \<open>\<open>container/list\<close>: \<open>MoveToFront\<close>, \<open>Remove\<close> and \<open>Back\<close>.\<close>

definition list_MoveToFront :: "nat \<Rightarrow> (nat \<times> 'k) list \<Rightarrow> (nat \<times> 'k) list" where
  "list_MoveToFront e l = filter (\<lambda>p. fst p = e) l @ filter (\<lambda>p. fst p \<noteq> e) l"

definition list_Remove :: "nat \<Rightarrow> (nat \<times> 'k) list \<Rightarrow> (nat \<times> 'k) list" where
  "list_Remove e l = filter (\<lambda>p. fst p \<noteq> e) l"

definition removeEntry :: "('k, 'v) ttl_cache \<Rightarrow> 'k \<Rightarrow> 'v item \<Rightarrow> ('k, 'v) ttl_cache" where
  "removeEntry c key entry =
     c\<lparr>items := AList.delete key (items c), order := list_Remove (item_elem entry) (order c)\<rparr>"

definition evictOldest :: "('k, 'v) ttl_cache \<Rightarrow> ('k, 'v) ttl_cache" where
  "evictOldest c =
     (if order c = [] then c
      else let key = snd (last (order c)) in
        case map_of (items c) key of None \<Rightarrow> c | Some entry \<Rightarrow> removeEntry c key entry)"

definition TTL_Set ::
  "('k, 'v) ttl_cache \<Rightarrow> 'k \<Rightarrow> 'v \<Rightarrow> duration \<Rightarrow> instant \<Rightarrow> ('k, 'v) ttl_cache" where
  "TTL_Set c key value ttl now =
     (case map_of (items c) key of
        Some current \<Rightarrow>
          c\<lparr>items := AList.update key
                       (current\<lparr>item_value := value, item_expiry := now + ttl\<rparr>) (items c),
            order := list_MoveToFront (item_elem current) (order c)\<rparr>
      | None \<Rightarrow>
          (let c' = c\<lparr>order := (next_elem c, key) # order c,
                      items := AList.update key
                        \<lparr>item_value = value, item_expiry = now + ttl, item_elem = next_elem c\<rparr>
                        (items c),
                      next_elem := Suc (next_elem c)\<rparr>
           in if maxEntries c' > 0 \<and> int (length (items c')) > maxEntries c'
              then evictOldest c' else c'))"

definition TTL_Get ::
  "('k, 'v) ttl_cache \<Rightarrow> 'k \<Rightarrow> instant \<Rightarrow> 'v \<Rightarrow> ('k, 'v) ttl_cache \<times> 'v \<times> bool" where
  "TTL_Get c key now zero =
     (case map_of (items c) key of
        None \<Rightarrow> (c, zero, False)
      | Some entry \<Rightarrow>
          if isExpired entry now then (removeEntry c key entry, item_value entry, False)
          else (c\<lparr>order := list_MoveToFront (item_elem entry) (order c)\<rparr>, item_value entry, True))"

definition TTL_Remove :: "('k, 'v) ttl_cache \<Rightarrow> 'k \<Rightarrow> ('k, 'v) ttl_cache" where
  "TTL_Remove c key =
     (case map_of (items c) key of None \<Rightarrow> c | Some entry \<Rightarrow> removeEntry c key entry)"

definition TTL_Pop ::
  "('k, 'v) ttl_cache \<Rightarrow> 'k \<Rightarrow> instant \<Rightarrow> 'v \<Rightarrow> ('k, 'v) ttl_cache \<times> 'v \<times> bool" where
  "TTL_Pop c key now zero =
     (case map_of (items c) key of
        None \<Rightarrow> (c, zero, False)
      | Some entry \<Rightarrow> (removeEntry c key entry, item_value entry, \<not> isExpired entry now))"

fun TTL_Keys ::
  "('k, 'v) ttl_cache \<Rightarrow> ('k \<times> instant) list \<Rightarrow> ('k, 'v) ttl_cache \<times> 'k list" where
  "TTL_Keys c [] = (c, [])"
| "TTL_Keys c ((key, now) # visits) =
     (case map_of (items c) key of
        None \<Rightarrow> TTL_Keys c visits
      | Some entry \<Rightarrow>
          if isExpired entry now then TTL_Keys (removeEntry c key entry) visits
          else (let (c', all) = TTL_Keys c visits in (c', key # all)))"

definition TTL_Clear :: "('k, 'v) ttl_cache \<Rightarrow> ('k, 'v) ttl_cache" where
  "TTL_Clear c = c\<lparr>items := [], order := []\<rparr>"

definition TTL_Close :: "('k, 'v) ttl_cache \<Rightarrow> ('k, 'v) ttl_cache" where
  "TTL_Close c = c\<lparr>stopped := True\<rparr>"

text \<open>One tick of the cleanup goroutine, and its exit once the stop channel is closed.\<close>

definition cleanup_tick ::
  "('k, 'v) ttl_cache \<Rightarrow> ('k \<times> instant) list \<Rightarrow> ('k, 'v) ttl_cache" where
  "cleanup_tick c visits = (if cleaner c then fst (TTL_Keys c visits) else c)"

definition cleanup_exit :: "('k, 'v) ttl_cache \<Rightarrow> ('k, 'v) ttl_cache" where
  "cleanup_exit c = (if cleaner c \<and> stopped c then c\<lparr>cleaner := False\<rparr> else c)"

datatype ('k, 'v) cache_op =
    OpSet 'k 'v duration instant
  | OpGet 'k instant
  | OpRemove 'k
  | OpPop 'k instant
  | OpKeys "('k \<times> instant) list"
  | OpClear
  | OpClose
  | OpTick "('k \<times> instant) list"
  | OpExit

fun cache_step :: "'v \<Rightarrow> ('k, 'v) ttl_cache \<Rightarrow> ('k, 'v) cache_op \<Rightarrow> ('k, 'v) ttl_cache" where
  "cache_step z c (OpSet k v ttl now) = TTL_Set c k v ttl now"
| "cache_step z c (OpGet k now) = fst (TTL_Get c k now z)"
| "cache_step z c (OpRemove k) = TTL_Remove c k"
| "cache_step z c (OpPop k now) = fst (TTL_Pop c k now z)"
| "cache_step z c (OpKeys vs) = fst (TTL_Keys c vs)"
| "cache_step z c OpClear = TTL_Clear c"
| "cache_step z c OpClose = TTL_Close c"
| "cache_step z c (OpTick vs) = cleanup_tick c vs"
| "cache_step z c OpExit = cleanup_exit c"

section \<open>The representation invariant\<close>

definition cache_inv :: "('k, 'v) ttl_cache \<Rightarrow> bool" where
  "cache_inv c \<longleftrightarrow>
     gomap_ok (items c) \<and> distinct (map fst (order c)) \<and>
     (\<forall>p \<in> set (order c). fst p < next_elem c) \<and>
     (\<forall>e k. (e, k) \<in> set (order c) \<longleftrightarrow>
        (\<exists>it. map_of (items c) k = Some it \<and> item_elem it = e)) \<and>
     (maxEntries c > 0 \<longrightarrow> int (length (items c)) \<le> maxEntries c)"

text \<open>The invariant without the capacity bound, which \<open>Set\<close> breaks before it evicts.\<close>

definition cache_rep :: "('k, 'v) ttl_cache \<Rightarrow> bool" where
  "cache_rep c \<longleftrightarrow>
     gomap_ok (items c) \<and> distinct (map fst (order c)) \<and>
     (\<forall>p \<in> set (order c). fst p < next_elem c) \<and>
     (\<forall>e k. (e, k) \<in> set (order c) \<longleftrightarrow>
        (\<exists>it. map_of (items c) k = Some it \<and> item_elem it = e))"

lemma cache_inv_iff:
  "cache_inv c \<longleftrightarrow>
     cache_rep c \<and> (maxEntries c > 0 \<longrightarrow> int (length (items c)) \<le> maxEntries c)"
  by (auto simp: cache_inv_def cache_rep_def)

lemma cache_repD:
  assumes "cache_rep c"
  shows rep_ok: "gomap_ok (items c)"
    and rep_distinct: "distinct (map fst (order c))"
    and rep_fresh: "p \<in> set (order c) \<Longrightarrow> fst p < next_elem c"
    and rep_elem: "(e, k) \<in> set (order c) \<longleftrightarrow>
          (\<exists>it. map_of (items c) k = Some it \<and> item_elem it = e)"
  using assms unfolding cache_rep_def by blast+

lemma in_order_iff: "cache_rep c \<Longrightarrow>
    map_of (items c) k = Some it \<Longrightarrow> (e, k) \<in> set (order c) \<longleftrightarrow> e = item_elem it"
  by (auto simp: rep_elem)

lemma order_key_iff: "cache_rep c \<Longrightarrow> k \<in> snd ` set (order c) \<longleftrightarrow> k \<in> fst ` set (items c)"
proof -
  assume rep: "cache_rep c"
  have "k \<in> snd ` set (order c) \<longleftrightarrow> (\<exists>e. (e, k) \<in> set (order c))" by force
  also have "\<dots> \<longleftrightarrow> map_of (items c) k \<noteq> None" by (auto simp: rep_elem [OF rep])
  also have "\<dots> \<longleftrightarrow> k \<in> fst ` set (items c)" by (simp add: map_of_eq_None_iff)
  finally show ?thesis .
qed

lemma elem_unique: "cache_rep c \<Longrightarrow> p \<in> set (order c) \<Longrightarrow> q \<in> set (order c) \<Longrightarrow>
    fst p = fst q \<longleftrightarrow> snd p = snd q"
proof -
  assume rep: "cache_rep c" and p: "p \<in> set (order c)" and q: "q \<in> set (order c)"
  have "fst p = fst q \<Longrightarrow> p = q"
    using rep_distinct [OF rep] p q by (auto simp: distinct_map inj_on_def)
  moreover have "snd p = snd q \<Longrightarrow> fst p = fst q"
    using rep_elem [OF rep] p q by (metis option.inject prod.collapse)
  ultimately show ?thesis by auto
qed

lemma order_keys_distinct: "cache_rep c \<Longrightarrow> distinct (map snd (order c))"
proof -
  assume rep: "cache_rep c"
  have "inj_on snd (set (order c))"
    using elem_unique [OF rep] by (metis inj_onI prod_eqI)
  with rep_distinct [OF rep] show ?thesis by (simp add: distinct_map)
qed

lemma length_order: "cache_rep c \<Longrightarrow> length (order c) = length (items c)"
proof -
  assume rep: "cache_rep c"
  have "length (order c) = card (snd ` set (order c))"
    using distinct_card [OF order_keys_distinct [OF rep]] by simp
  also have "snd ` set (order c) = fst ` set (items c)"
    using order_key_iff [OF rep] by blast
  also have "card (fst ` set (items c)) = length (items c)"
    using distinct_card [OF rep_ok [OF rep]] by simp
  finally show ?thesis .
qed

text \<open>The element of an entry, moved to the front or removed: selection by element is selection by key.\<close>

lemma filter_elem:
  assumes "cache_rep c" and "map_of (items c) k = Some it"
  shows "filter (\<lambda>p. fst p \<noteq> item_elem it) (order c) = filter (\<lambda>p. snd p \<noteq> k) (order c)"
    and "filter (\<lambda>p. fst p = item_elem it) (order c) = [(item_elem it, k)]"
proof -
  have mem: "(item_elem it, k) \<in> set (order c)"
    using assms by (simp add: in_order_iff)
  have eq: "fst p = item_elem it \<longleftrightarrow> p = (item_elem it, k)" if "p \<in> set (order c)" for p
    using elem_unique [OF assms(1) that mem] by (metis fst_conv snd_conv prod_eqI)
  show "filter (\<lambda>p. fst p \<noteq> item_elem it) (order c) = filter (\<lambda>p. snd p \<noteq> k) (order c)"
    using elem_unique [OF assms(1) _ mem] by (intro filter_cong) auto
  have "filter (\<lambda>p. fst p = item_elem it) (order c) = filter (\<lambda>p. p = (item_elem it, k)) (order c)"
    using eq by (intro filter_cong) auto
  also have "\<dots> = [(item_elem it, k)]"
    using mem rep_distinct [OF assms(1)] by (auto simp: distinct_map intro: filter_eq_single)
  finally show "filter (\<lambda>p. fst p = item_elem it) (order c) = [(item_elem it, k)]" .
qed

lemma order_removeEntry:
  "cache_rep c \<Longrightarrow> map_of (items c) k = Some it \<Longrightarrow>
     order (removeEntry c k it) = filter (\<lambda>p. snd p \<noteq> k) (order c)"
  by (simp add: removeEntry_def list_Remove_def filter_elem)

lemma order_MoveToFront:
  "cache_rep c \<Longrightarrow> map_of (items c) k = Some it \<Longrightarrow>
     list_MoveToFront (item_elem it) (order c) =
       (item_elem it, k) # filter (\<lambda>p. snd p \<noteq> k) (order c)"
  by (simp add: list_MoveToFront_def filter_elem)

lemma items_removeEntry [simp]: "items (removeEntry c k it) = AList.delete k (items c)"
  and fields_removeEntry [simp]: "next_elem (removeEntry c k it) = next_elem c"
    "maxEntries (removeEntry c k it) = maxEntries c" "cleaner (removeEntry c k it) = cleaner c"
    "stopped (removeEntry c k it) = stopped c"
  by (simp_all add: removeEntry_def)

lemma distinct_fst_filter: "distinct (map fst l) \<Longrightarrow> distinct (map fst (filter P l))"
  by (rule distinct_map_filter)

lemma rep_removeEntry:
  assumes "cache_rep c" and "map_of (items c) k = Some it"
  shows "cache_rep (removeEntry c k it)"
  unfolding cache_rep_def order_removeEntry [OF assms] items_removeEntry fields_removeEntry
  using rep_ok [OF assms(1)] rep_distinct [OF assms(1)] rep_fresh [OF assms(1)]
  by (auto simp: distinct_map_filter rep_elem [OF assms(1)])

lemma rep_move_update:
  assumes "cache_rep c" and "map_of (items c) k = Some it" and "item_elem it' = item_elem it"
  shows "cache_rep (c\<lparr>items := AList.update k it' (items c),
                      order := (item_elem it, k) # filter (\<lambda>p. snd p \<noteq> k) (order c)\<rparr>)"
proof -
  have "(item_elem it, k) \<in> set (order c)" using assms by (simp add: in_order_iff)
  then have "item_elem it < next_elem c" using rep_fresh [OF assms(1)] by force
  moreover have "item_elem it \<notin> fst ` set (filter (\<lambda>p. snd p \<noteq> k) (order c))"
    unfolding filter_elem(1) [OF assms(1,2), symmetric] by auto
  ultimately show ?thesis
    using rep_ok [OF assms(1)] rep_distinct [OF assms(1)] rep_fresh [OF assms(1)] assms(2,3)
    by (auto simp: cache_rep_def distinct_map_filter rep_elem [OF assms(1)])
qed

lemma rep_move:
  assumes "cache_rep c" and "map_of (items c) k = Some it"
  shows "cache_rep (c\<lparr>order := (item_elem it, k) # filter (\<lambda>p. snd p \<noteq> k) (order c)\<rparr>)"
proof -
  have "map_of (AList.update k it (items c)) = map_of (items c)"
    using assms(2) by (simp add: fun_upd_idem)
  then show ?thesis
    using rep_move_update [OF assms refl] rep_ok [OF assms(1)] by (simp add: cache_rep_def)
qed

lemma rep_insert:
  assumes "cache_rep c" and "map_of (items c) k = None" and "item_elem it = next_elem c"
  shows "cache_rep (c\<lparr>order := (next_elem c, k) # order c,
                      items := AList.update k it (items c), next_elem := Suc (next_elem c)\<rparr>)"
proof -
  have "next_elem c \<notin> fst ` set (order c)"
    using rep_fresh [OF assms(1)] by (metis imageE less_irrefl)
  then show ?thesis
    using rep_ok [OF assms(1)] rep_distinct [OF assms(1)] rep_fresh [OF assms(1)] assms(2,3)
    by (auto simp: cache_rep_def rep_elem [OF assms(1)] less_Suc_eq)
qed

text \<open>The oldest element always has an entry, so eviction removes exactly that entry.\<close>

lemma evictOldest_eq:
  assumes "cache_rep c" and "order c \<noteq> []"
  obtains it where "map_of (items c) (snd (last (order c))) = Some it"
    and "evictOldest c = removeEntry c (snd (last (order c))) it"
proof -
  have "(fst (last (order c)), snd (last (order c))) \<in> set (order c)" using assms(2) by simp
  then obtain it where "map_of (items c) (snd (last (order c))) = Some it"
    unfolding rep_elem [OF assms(1)] by blast
  with that show thesis by (simp add: evictOldest_def assms(2) Let_def)
qed

lemma rep_evictOldest: "cache_rep c \<Longrightarrow> cache_rep (evictOldest c)"
  by (auto simp: evictOldest_def Let_def intro: rep_removeEntry split: option.splits)

lemma length_evictOldest:
  assumes "cache_rep c" and "items c \<noteq> []"
  shows "Suc (length (items (evictOldest c))) = length (items c)"
proof -
  have ne: "order c \<noteq> []" using assms length_order by fastforce
  from evictOldest_eq [OF assms(1) ne] obtain it
    where it: "map_of (items c) (snd (last (order c))) = Some it"
      "evictOldest c = removeEntry c (snd (last (order c))) it" .
  then show ?thesis
    using length_delete_in [OF rep_ok [OF assms(1)]] map_of_SomeD [OF it(1)] by force
qed

section \<open>Every operation keeps the invariant\<close>

lemma inv_removeEntry:
  "cache_inv c \<Longrightarrow> map_of (items c) k = Some it \<Longrightarrow> cache_inv (removeEntry c k it)"
  using length_delete_le [of k "items c"] by (auto simp: cache_inv_iff rep_removeEntry)

lemma inv_move: "cache_inv c \<Longrightarrow> map_of (items c) k = Some it \<Longrightarrow>
    cache_inv (c\<lparr>order := list_MoveToFront (item_elem it) (order c)\<rparr>)"
  by (simp add: cache_inv_iff order_MoveToFront rep_move)

lemma inv_TTL_Set:
  assumes "cache_inv c"
  shows "cache_inv (TTL_Set c k v ttl now)"
proof (cases "map_of (items c) k")
  case None
  define c' where "c' = c\<lparr>order := (next_elem c, k) # order c,
    items := AList.update k \<lparr>item_value = v, item_expiry = now + ttl, item_elem = next_elem c\<rparr>
      (items c), next_elem := Suc (next_elem c)\<rparr>"
  have rep: "cache_rep c'"
    unfolding c'_def using assms None by (intro rep_insert) (auto simp: cache_inv_iff)
  have len: "length (items c') = Suc (length (items c))"
    using None by (simp add: c'_def length_update_new map_of_eq_None_iff)
  have ne: "items c' \<noteq> []" using len by auto
  have max: "maxEntries c' = maxEntries c" by (simp add: c'_def)
  have "cache_inv (if maxEntries c' > 0 \<and> int (length (items c')) > maxEntries c'
          then evictOldest c' else c')"
    using rep rep_evictOldest [OF rep] length_evictOldest [OF rep ne] len max assms
    by (auto simp: cache_inv_iff evictOldest_def Let_def split: option.splits)
  moreover have "TTL_Set c k v ttl now =
      (if maxEntries c' > 0 \<and> int (length (items c')) > maxEntries c' then evictOldest c' else c')"
    unfolding TTL_Set_def c'_def Let_def using None by simp
  ultimately show ?thesis by simp
next
  case (Some it)
  have rep: "cache_rep c" using assms by (simp add: cache_inv_iff)
  have "length (AList.update k it' (items c)) = length (items c)" for it'
    using Some by (intro length_update_old) (force dest: map_of_SomeD)
  then show ?thesis
    using assms rep_move_update [OF rep Some] Some
    by (simp add: TTL_Set_def order_MoveToFront [OF rep Some] cache_inv_iff)
qed

lemma inv_TTL_Get: "cache_inv c \<Longrightarrow> cache_inv (fst (TTL_Get c k now z))"
  by (auto simp: TTL_Get_def inv_removeEntry inv_move split: option.splits)

lemma inv_TTL_Pop: "cache_inv c \<Longrightarrow> cache_inv (fst (TTL_Pop c k now z))"
  by (auto simp: TTL_Pop_def inv_removeEntry split: option.splits)

lemma inv_TTL_Remove: "cache_inv c \<Longrightarrow> cache_inv (TTL_Remove c k)"
  by (auto simp: TTL_Remove_def inv_removeEntry split: option.splits)

lemma inv_TTL_Keys: "cache_inv c \<Longrightarrow> cache_inv (fst (TTL_Keys c vs))"
proof (induction c vs rule: TTL_Keys.induct)
  case (2 c key now visits)
  then show ?case by (auto simp: inv_removeEntry split: option.splits prod.splits)
qed simp

lemma inv_TTL_Clear: "cache_inv c \<Longrightarrow> cache_inv (TTL_Clear c)"
  by (auto simp: TTL_Clear_def cache_inv_def)

lemma cache_inv_flags [simp]:
  "cache_inv (c\<lparr>stopped := b\<rparr>) = cache_inv c" "cache_inv (c\<lparr>cleaner := b\<rparr>) = cache_inv c"
  by (simp_all add: cache_inv_def)

lemma inv_NewTTL: "cache_inv (NewTTL opts)"
  by (simp add: NewTTL_def Let_def cache_inv_def)

lemmas cache_inv_ops =
  inv_TTL_Set inv_TTL_Get inv_TTL_Pop inv_TTL_Remove inv_TTL_Keys inv_TTL_Clear inv_NewTTL

lemma inv_cache_step: "cache_inv c \<Longrightarrow> cache_inv (cache_step z c x)"
  by (cases x) (auto simp: cache_inv_ops TTL_Close_def cleanup_tick_def cleanup_exit_def)

interpretation ttl: step_system "cache_step z" "\<lambda>_ _. True" cache_inv
  for z
  by unfold_locales (rule inv_cache_step)

lemma cache_inv_run: "cache_inv c \<Longrightarrow> cache_inv (run_ops (cache_step z) c xs)"
  by (rule ttl.run_inv) (auto simp: admissible_trivial)

text \<open>
  C29: after any sequence of \<open>Set\<close>, \<open>Get\<close>, \<open>Remove\<close>, \<open>Pop\<close>, \<open>Keys\<close>, \<open>Clear\<close>, \<open>Close\<close>
  and cleanup ticks on a new cache, the map and the recency list describe the same entries (every
  list element is the element of exactly one map entry, elements and keys are unique) and a positive
  capacity is never exceeded.
\<close>

theorem ttl_cache_invariant:
  "cache_inv (run_ops (cache_step z) (NewTTL opts) xs)"
  by (intro cache_inv_run inv_NewTTL)

section \<open>Refinement: the cache is a recency list\<close>

text \<open>
  The abstract cache is the list of its entries, most recently used first.  It promises: \<open>Set\<close>
  puts the entry in front and, when a new key exceeds the capacity, drops the last one; \<open>Get\<close> of a
  live entry moves it to the front and of an expired entry drops it; a sweep drops the visited
  entries that are expired at their visit.
\<close>

type_synonym ('k, 'v) lru = "('k \<times> 'v \<times> instant) list"

definition lru_drop :: "'k \<Rightarrow> ('k, 'v) lru \<Rightarrow> ('k, 'v) lru" where
  "lru_drop k es = filter (\<lambda>x. fst x \<noteq> k) es"

definition lru_put :: "int \<Rightarrow> 'k \<Rightarrow> 'v \<Rightarrow> instant \<Rightarrow> ('k, 'v) lru \<Rightarrow> ('k, 'v) lru" where
  "lru_put cap k v t es =
     (let es' = (k, v, t) # lru_drop k es in
      if map_of es k = None \<and> cap > 0 \<and> int (length es') > cap then butlast es' else es')"

definition lru_get :: "'k \<Rightarrow> instant \<Rightarrow> ('k, 'v) lru \<Rightarrow> ('k, 'v) lru" where
  "lru_get k now es =
     (case map_of es k of
        None \<Rightarrow> es
      | Some (v, t) \<Rightarrow> if now > t then lru_drop k es else (k, v, t) # lru_drop k es)"

definition lru_sweep :: "('k \<times> instant) list \<Rightarrow> ('k, 'v) lru \<Rightarrow> ('k, 'v) lru" where
  "lru_sweep vs es = filter (\<lambda>(k, v, t). \<not> list_ex (\<lambda>(k', now). k' = k \<and> now > t) vs) es"

fun lru_step :: "int \<Rightarrow> bool \<Rightarrow> ('k, 'v) lru \<Rightarrow> ('k, 'v) cache_op \<Rightarrow> ('k, 'v) lru" where
  "lru_step cap running es (OpSet k v ttl now) = lru_put cap k v (now + ttl) es"
| "lru_step cap running es (OpGet k now) = lru_get k now es"
| "lru_step cap running es (OpRemove k) = lru_drop k es"
| "lru_step cap running es (OpPop k now) = lru_drop k es"
| "lru_step cap running es (OpKeys vs) = lru_sweep vs es"
| "lru_step cap running es OpClear = []"
| "lru_step cap running es OpClose = es"
| "lru_step cap running es (OpTick vs) = (if running then lru_sweep vs es else es)"
| "lru_step cap running es OpExit = es"

definition entry_of :: "('k, 'v item) gomap \<Rightarrow> 'k \<Rightarrow> 'k \<times> 'v \<times> instant" where
  "entry_of m k = (k, item_value (the (map_of m k)), item_expiry (the (map_of m k)))"

definition recency :: "('k, 'v) ttl_cache \<Rightarrow> ('k, 'v) lru" where
  "recency c = map (\<lambda>p. entry_of (items c) (snd p)) (order c)"

lemma fst_entry_of [simp]: "fst (entry_of m k) = k"
  by (simp add: entry_of_def)

lemma length_recency [simp]: "length (recency c) = length (order c)"
  by (simp add: recency_def)

lemma keys_recency: "map fst (recency c) = map snd (order c)"
  by (simp add: recency_def comp_def)

lemma keyset_recency: "fst ` set (recency c) = snd ` set (order c)"
  using arg_cong [OF keys_recency, of set] by simp

lemma map_of_recency:
  assumes "cache_rep c"
  shows "map_of (recency c) k =
    map_option (\<lambda>it. (item_value it, item_expiry it)) (map_of (items c) k)"
proof (cases "map_of (items c) k")
  case None
  then have "k \<notin> snd ` set (order c)"
    using order_key_iff [OF assms] by (simp add: map_of_eq_None_iff)
  then have "map_of (recency c) k = None"
    by (simp add: map_of_eq_None_iff keyset_recency)
  with None show ?thesis by simp
next
  case (Some it)
  then have "(item_elem it, k) \<in> set (order c)" using assms by (simp add: in_order_iff)
  then have "entry_of (items c) k \<in> set (recency c)" by (force simp: recency_def)
  moreover have "distinct (map fst (recency c))"
    using order_keys_distinct [OF assms] by (simp add: keys_recency)
  ultimately show ?thesis using Some by (simp add: entry_of_def)
qed

text \<open>The three shapes in which an operation changes the concrete state.\<close>

lemma recency_filter:
  assumes "\<And>k'. k' \<noteq> k \<Longrightarrow> map_of m k' = map_of (items c) k'"
  shows "map (\<lambda>p. entry_of m (snd p)) (filter (\<lambda>p. snd p \<noteq> k) (order c)) = lru_drop k (recency c)"
  using assms by (auto simp: recency_def lru_drop_def filter_map comp_def entry_of_def)

lemma recency_removeEntry:
  assumes "cache_rep c" and "map_of (items c) k = Some it"
  shows "recency (removeEntry c k it) = lru_drop k (recency c)"
  using recency_filter [of k "items (removeEntry c k it)" c]
  by (simp add: recency_def order_removeEntry [OF assms])

lemma recency_front:
  assumes "\<And>k'. k' \<noteq> k \<Longrightarrow> map_of m k' = map_of (items c) k'"
  shows "recency (c\<lparr>items := m, order := (e, k) # filter (\<lambda>p. snd p \<noteq> k) (order c)\<rparr>) =
    entry_of m k # lru_drop k (recency c)"
  using recency_filter [OF assms] by (simp add: recency_def)

lemma recency_evictOldest:
  assumes "cache_rep c" and "order c \<noteq> []"
  shows "recency (evictOldest c) = butlast (recency c)"
proof -
  let ?k = "snd (last (order c))"
  from evictOldest_eq [OF assms] obtain it
    where it: "map_of (items c) ?k = Some it" "evictOldest c = removeEntry c ?k it" .
  have "distinct (map fst (recency c))"
    using order_keys_distinct [OF assms(1)] by (simp add: keys_recency)
  moreover have "?k = fst (last (recency c))" and "recency c \<noteq> []"
    using assms(2) by (simp_all add: recency_def last_map)
  ultimately have "filter (\<lambda>x. fst x \<noteq> ?k) (recency c) = butlast (recency c)"
    using filter_not_last [of fst "recency c"] by simp
  with it show ?thesis by (simp add: recency_removeEntry [OF assms(1)] lru_drop_def)
qed

lemma recency_TTL_Set:
  assumes "cache_rep c"
  shows "recency (TTL_Set c k v ttl now) = lru_put (maxEntries c) k v (now + ttl) (recency c)"
proof (cases "map_of (items c) k")
  case (Some it)
  let ?m = "AList.update k (it\<lparr>item_value := v, item_expiry := now + ttl\<rparr>) (items c)"
  have "entry_of ?m k = (k, v, now + ttl)" by (simp add: entry_of_def)
  with Some show ?thesis
    by (simp add: TTL_Set_def order_MoveToFront [OF assms Some] recency_front lru_put_def
        map_of_recency [OF assms])
next
  case None
  define c' where "c' = c\<lparr>order := (next_elem c, k) # order c,
    items := AList.update k \<lparr>item_value = v, item_expiry = now + ttl, item_elem = next_elem c\<rparr>
      (items c), next_elem := Suc (next_elem c)\<rparr>"
  have rep: "cache_rep c'"
    unfolding c'_def using assms None by (intro rep_insert) auto
  have "k \<notin> snd ` set (order c)"
    using None order_key_iff [OF assms] by (simp add: map_of_eq_None_iff)
  then have flt: "filter (\<lambda>p. snd p \<noteq> k) (order c) = order c"
    by (auto simp: filter_id_conv)
  have front: "recency c' = (k, v, now + ttl) # lru_drop k (recency c)"
    using recency_filter [of k "items c'" c] flt
    by (simp add: c'_def recency_def entry_of_def)
  have "length (items c') = Suc (length (lru_drop k (recency c)))"
    using length_order [OF rep] front length_recency [of c'] by simp
  then have "recency (if maxEntries c' > 0 \<and> int (length (items c')) > maxEntries c'
               then evictOldest c' else c') = lru_put (maxEntries c) k v (now + ttl) (recency c)"
    using None front recency_evictOldest [OF rep]
    by (simp add: lru_put_def Let_def map_of_recency [OF assms] c'_def)
  moreover have "TTL_Set c k v ttl now =
      (if maxEntries c' > 0 \<and> int (length (items c')) > maxEntries c' then evictOldest c' else c')"
    unfolding TTL_Set_def c'_def Let_def using None by simp
  ultimately show ?thesis by simp
qed

lemma recency_TTL_Get:
  assumes "cache_rep c"
  shows "recency (fst (TTL_Get c k now z)) = lru_get k now (recency c)"
proof (cases "map_of (items c) k")
  case (Some it)
  then have "recency (c\<lparr>order := list_MoveToFront (item_elem it) (order c)\<rparr>) =
      (k, item_value it, item_expiry it) # lru_drop k (recency c)"
    using recency_front [of k "items c" c "item_elem it"]
    by (simp add: order_MoveToFront [OF assms] entry_of_def)
  with Some show ?thesis
    by (simp add: TTL_Get_def lru_get_def map_of_recency [OF assms] isExpired_def
        recency_removeEntry [OF assms])
qed (simp add: TTL_Get_def lru_get_def map_of_recency [OF assms])

lemma lru_sweep_Cons:
  "lru_sweep ((k, now) # vs) es = lru_sweep vs (filter (\<lambda>(k', v, t). \<not> (k' = k \<and> now > t)) es)"
  by (auto simp: lru_sweep_def intro: filter_cong)

lemma recency_live:
  assumes "cache_rep c" and "(k, v, t) \<in> set (recency c)"
  shows "map_option (\<lambda>it. (item_value it, item_expiry it)) (map_of (items c) k) = Some (v, t)"
proof -
  have "gomap_ok (recency c)"
    using order_keys_distinct [OF assms(1)] by (simp add: keys_recency)
  with assms(2) have "map_of (recency c) k = Some (v, t)" by simp
  then show ?thesis by (simp add: map_of_recency [OF assms(1)])
qed

lemma recency_TTL_Keys:
  "cache_rep c \<Longrightarrow> recency (fst (TTL_Keys c vs)) = lru_sweep vs (recency c)"
proof (induction c vs rule: TTL_Keys.induct)
  case (1 c)
  then show ?case by (simp add: lru_sweep_def)
next
  case (2 c key now visits)
  have live: "(key, v, t) \<in> set (recency c) \<Longrightarrow>
      \<exists>it. map_of (items c) key = Some it \<and> t = item_expiry it" for v t
    using recency_live [OF "2.prems"] by fastforce
  show ?case
  proof (cases "map_of (items c) key")
    case None
    then have "filter (\<lambda>(k', v, t). \<not> (k' = key \<and> now > t)) (recency c) = recency c"
      using live by (auto simp: filter_id_conv)
    with None 2 show ?thesis by (simp add: lru_sweep_Cons)
  next
    case (Some it)
    show ?thesis
    proof (cases "isExpired it now")
      case True
      then have "filter (\<lambda>(k', v, t). \<not> (k' = key \<and> now > t)) (recency c) = lru_drop key (recency c)"
        using live Some by (auto simp: lru_drop_def isExpired_def intro!: filter_cong)
      with True Some 2 show ?thesis
        by (simp add: lru_sweep_Cons recency_removeEntry rep_removeEntry)
    next
      case False
      then have "filter (\<lambda>(k', v, t). \<not> (k' = key \<and> now > t)) (recency c) = recency c"
        using live Some by (auto simp: filter_id_conv isExpired_def)
      with False Some 2 show ?thesis by (auto simp: lru_sweep_Cons split: prod.splits)
    qed
  qed
qed

lemma lru_drop_absent: "map_of (items c) k = None \<Longrightarrow> cache_rep c \<Longrightarrow>
    lru_drop k (recency c) = recency c"
  by (metis (mono_tags, lifting) filter_True keyset_recency lru_drop_def map_of_eq_None_iff
      order_key_iff rev_image_eqI)

lemma recency_flags [simp]:
  "recency (c\<lparr>stopped := b\<rparr>) = recency c" "recency (c\<lparr>cleaner := b\<rparr>) = recency c"
  by (simp_all add: recency_def)

lemma fst_TTL_Pop: "fst (TTL_Pop c k now z) = TTL_Remove c k"
  by (simp add: TTL_Pop_def TTL_Remove_def split: option.splits)

lemma recency_TTL_Remove: "cache_rep c \<Longrightarrow> recency (TTL_Remove c k) = lru_drop k (recency c)"
  by (auto simp: TTL_Remove_def recency_removeEntry lru_drop_absent split: option.splits)

text \<open>
  C12: in every state that satisfies the invariant, each operation of the TTL cache changes the
  entries exactly as the abstract recency list says (simulation step): \<open>Set\<close> of a new key over the
  capacity evicts exactly the least recently used entry, an expired entry is dropped by the read that
  finds it, a live one becomes the most recent, and a sweep drops exactly the expired visited entries.
\<close>

theorem ttl_cache_refines_lru:
  "cache_inv c \<Longrightarrow> recency (cache_step z c x) = lru_step (maxEntries c) (cleaner c) (recency c) x"
  by (cases x) (auto simp: cache_inv_iff recency_TTL_Set recency_TTL_Get recency_TTL_Remove
      fst_TTL_Pop recency_TTL_Keys TTL_Clear_def recency_def [of "_\<lparr>items := [], order := []\<rparr>"]
      TTL_Close_def cleanup_tick_def cleanup_exit_def)

theorem ttl_cache_refines_lru_witness:
  "recency (cache_step (0::nat) (run_ops (cache_step 0) (NewTTL [WithMaxEntries 2])
      [OpSet ''a'' 1 10 0, OpSet ''b'' 2 10 1, OpGet ''a'' 2]) (OpSet ''c'' 3 10 3))
    = [(''c'', 3, 13), (''a'', 1, 10)]"
proof -
  let ?c = "run_ops (cache_step (0::nat)) (NewTTL [WithMaxEntries 2])
      [OpSet ''a'' 1 10 0, OpSet ''b'' 2 10 1, OpGet ''a'' 2]"
  have "cache_inv ?c" by (intro cache_inv_run inv_NewTTL)
  from ttl_cache_refines_lru [OF this, of 0 "OpSet ''c'' 3 10 3"]
  have "recency (cache_step 0 ?c (OpSet ''c'' 3 10 3)) =
      lru_step (maxEntries ?c) (cleaner ?c) (recency ?c) (OpSet ''c'' 3 10 3)" .
  also have "\<dots> = [(''c'', 3, 13), (''a'', 1, 10)]" by code_simp
  finally show ?thesis .
qed

section \<open>The contract of the clients\<close>

text \<open>
  What a client may rely on: a hit returns the value stored under that key and only until its
  expiry, a stored value can be read back, and no operation ever invents or alters an entry of
  another key (it may only drop it).  \<open>stored\<close> is the view of the entries, expired or not.
\<close>

locale ttl_store =
  fixes sset :: "'c \<Rightarrow> 'k \<Rightarrow> 'v \<Rightarrow> duration \<Rightarrow> instant \<Rightarrow> 'c"
    and sget :: "'c \<Rightarrow> 'k \<Rightarrow> instant \<Rightarrow> 'c \<times> 'v option"
    and stored :: "'c \<Rightarrow> 'k \<Rightarrow> ('v \<times> instant) option"
    and sinv :: "'c \<Rightarrow> bool"
  assumes sinv_set: "sinv c \<Longrightarrow> sinv (sset c k v ttl now)"
    and sinv_get: "sinv c \<Longrightarrow> sinv (fst (sget c k now))"
    and get_result: "sinv c \<Longrightarrow> snd (sget c k now) =
      (case stored c k of None \<Rightarrow> None | Some (v, t) \<Rightarrow> if now \<le> t then Some v else None)"
    and stored_set: "sinv c \<Longrightarrow> stored (sset c k v ttl now) k = Some (v, now + ttl)"
    and stored_set_other: "sinv c \<Longrightarrow> k' \<noteq> k \<Longrightarrow>
      stored (sset c k v ttl now) k' \<in> {stored c k', None}"
    and stored_get: "sinv c \<Longrightarrow> stored (fst (sget c k now)) k' \<in> {stored c k', None}"
begin

definition all_stored :: "('k \<Rightarrow> 'v \<Rightarrow> instant \<Rightarrow> bool) \<Rightarrow> 'c \<Rightarrow> bool" where
  "all_stored P c \<longleftrightarrow> (\<forall>k v t. stored c k = Some (v, t) \<longrightarrow> P k v t)"

lemma all_stored_mono: "all_stored P c \<Longrightarrow> (\<And>k v t. P k v t \<Longrightarrow> Q k v t) \<Longrightarrow> all_stored Q c"
  unfolding all_stored_def by blast

lemma all_stored_set:
  assumes "sinv c" and "all_stored P c" and "P k v (now + ttl)"
  shows "all_stored P (sset c k v ttl now)"
  unfolding all_stored_def
proof (intro allI impI)
  fix k' v' t assume st: "stored (sset c k v ttl now) k' = Some (v', t)"
  show "P k' v' t"
  proof (cases "k' = k")
    case True
    with st assms(3) show ?thesis by (simp add: stored_set [OF assms(1)])
  next
    case False
    with st stored_set_other [OF assms(1) False, of v ttl now] have "stored c k' = Some (v', t)"
      by auto
    with assms(2) show ?thesis unfolding all_stored_def by blast
  qed
qed

lemma all_stored_get: "sinv c \<Longrightarrow> all_stored P c \<Longrightarrow> all_stored P (fst (sget c k now))"
  unfolding all_stored_def using stored_get [of c k now] by (metis insertE option.distinct(1) singletonD)

lemma hit_satisfies: "sinv c \<Longrightarrow> all_stored P c \<Longrightarrow> snd (sget c k now) = Some v \<Longrightarrow> \<exists>t. now \<le> t \<and> P k v t"
  by (auto simp: all_stored_def get_result split: option.splits if_splits)

lemma get_after_set:
  "sinv c \<Longrightarrow> now' \<le> now + ttl \<Longrightarrow> snd (sget (sset c k v ttl now) k now') = Some v"
  by (simp add: get_result sinv_set stored_set)

lemma miss_after_expiry:
  "sinv c \<Longrightarrow> now' > now + ttl \<Longrightarrow> snd (sget (sset c k v ttl now) k now') = None"
  by (simp add: get_result sinv_set stored_set)

end

definition TTL_lookup ::
  "'v \<Rightarrow> ('k, 'v) ttl_cache \<Rightarrow> 'k \<Rightarrow> instant \<Rightarrow> ('k, 'v) ttl_cache \<times> 'v option" where
  "TTL_lookup z c k now = (let (c', v, hit) = TTL_Get c k now z in (c', if hit then Some v else None))"

definition stored_entry :: "('k, 'v) ttl_cache \<Rightarrow> 'k \<Rightarrow> ('v \<times> instant) option" where
  "stored_entry c k = map_option (\<lambda>it. (item_value it, item_expiry it)) (map_of (items c) k)"

lemma stored_recency: "cache_inv c \<Longrightarrow> stored_entry c k = map_of (recency c) k"
  by (simp add: stored_entry_def map_of_recency cache_inv_iff)

lemma fst_TTL_lookup: "fst (TTL_lookup z c k now) = fst (TTL_Get c k now z)"
  by (simp add: TTL_lookup_def split: prod.splits)

lemma map_of_lru_drop: "map_of (lru_drop k es) k' = (if k' = k then None else map_of es k')"
  by (induction es) (auto simp: lru_drop_def)

lemma map_of_butlast: "gomap_ok es \<Longrightarrow> map_of (butlast es) k \<in> {map_of es k, None}"
  by (cases es rule: rev_cases) (auto simp: map_of_append map_add_def split: option.splits)

lemma gomap_ok_recency: "cache_inv c \<Longrightarrow> gomap_ok (recency c)"
  by (simp add: keys_recency order_keys_distinct cache_inv_iff)

lemma map_of_lru_put:
  assumes "gomap_ok es"
  shows "map_of (lru_put cap k v t es) k = Some (v, t)"
    and "k' \<noteq> k \<Longrightarrow> map_of (lru_put cap k v t es) k' \<in> {map_of es k', None}"
proof -
  have ok: "gomap_ok ((k, v, t) # lru_drop k es)"
    using assms by (auto simp: lru_drop_def distinct_map_filter)
  have "cap > 0 \<Longrightarrow> int (length ((k, v, t) # lru_drop k es)) > cap \<Longrightarrow> lru_drop k es \<noteq> []"
    by auto
  then show "map_of (lru_put cap k v t es) k = Some (v, t)"
    by (auto simp: lru_put_def Let_def)
  show "map_of (lru_put cap k v t es) k' \<in> {map_of es k', None}" if "k' \<noteq> k"
    using map_of_butlast [OF ok, of k'] that
    by (auto simp: lru_put_def Let_def map_of_lru_drop split: if_splits)
qed

lemma map_of_lru_get: "map_of (lru_get k now es) k' \<in> {map_of es k', None}"
  by (auto simp: lru_get_def map_of_lru_drop split: option.splits)

interpretation ttl: ttl_store TTL_Set "TTL_lookup z" stored_entry cache_inv
  for z
proof unfold_locales
  fix c :: "('a, 'b) ttl_cache" and k k' v ttl now
  assume inv: "cache_inv c"
  show "cache_inv (TTL_Set c k v ttl now)" by (rule inv_TTL_Set [OF inv])
  show "cache_inv (fst (TTL_lookup z c k now))"
    by (simp add: fst_TTL_lookup inv_TTL_Get [OF inv])
  show "snd (TTL_lookup z c k now) = (case stored_entry c k of None \<Rightarrow> None
      | Some (v, t) \<Rightarrow> if now \<le> t then Some v else None)"
    by (auto simp: TTL_lookup_def TTL_Get_def stored_entry_def isExpired_def split: option.splits)
  show "stored_entry (TTL_Set c k v ttl now) k = Some (v, now + ttl)"
    using map_of_lru_put(1) [OF gomap_ok_recency [OF inv]] inv
    by (simp add: stored_recency inv_TTL_Set recency_TTL_Set [of c] cache_inv_iff [of c])
  show "stored_entry (TTL_Set c k v ttl now) k' \<in> {stored_entry c k', None}" if "k' \<noteq> k"
    using map_of_lru_put(2) [OF gomap_ok_recency [OF inv] that] inv
    by (simp add: stored_recency inv_TTL_Set recency_TTL_Set [of c] cache_inv_iff [of c])
  show "stored_entry (fst (TTL_lookup z c k now)) k' \<in> {stored_entry c k', None}"
    using inv map_of_lru_get [of k now "recency c" k']
    by (simp add: stored_recency inv_TTL_Get fst_TTL_lookup recency_TTL_Get [of c]
        cache_inv_iff [of c])
qed

text \<open>
  A value stored with a time-to-live is returned by every \<open>Get\<close> of its key up to and
  including the expiry instant and by none after it, whatever else the cache holds and whatever its
  capacity.
\<close>

theorem ttl_cache_get_after_set:
  assumes "cache_inv c"
  shows "snd (TTL_Get (TTL_Set c k v ttl now) k now' z) =
    (if now' \<le> now + ttl then (v, True) else (v, False))"
proof -
  have "stored_entry (TTL_Set c k v ttl now) k = Some (v, now + ttl)"
    by (rule ttl.stored_set [OF assms])
  then show ?thesis
    by (auto simp: stored_entry_def TTL_Get_def isExpired_def)
qed

theorem ttl_cache_get_after_set_witness:
  "snd (TTL_Get (TTL_Set (NewTTL [WithMaxEntries 1]) ''a'' (7::nat) 10 0) ''a'' 10 0) = (7, True)"
  using ttl_cache_get_after_set [OF inv_NewTTL, of "[WithMaxEntries 1]" "''a''" "7::nat" 10 0 10 0]
  by simp

end
