(* ===== verification/Kube_Types.thy ===== *)
theory Kube_Types
  imports Go_Prelude
begin

text \<open>
  Kubernetes vocabulary that several components share: the group, version and kind of an object
  (\<open>schema.GroupVersionKind\<close>).
\<close>

record gvk =
  gvk_group :: string
  gvk_version :: string
  gvk_kind :: string

end
