(* ===== verification/Plurals.thy ===== *)
theory Plurals
  imports Ttl_Cache Kube_Types
begin

text \<open>
  \<open>kubeutil/plurals/plurals.go\<close>: resolving the plural name of a kind through an optional cache.

  \<open>plurals_Get\<close> is \<open>Get\<close>, \<open>ResolveAPINames\<close> is the default resolver over the answer of the
  discovery endpoint.  The printed form of a group-version-kind (\<open>gvk.String()\<close>, the cache key), the
  in-cluster configuration, the discovery client and its answer are third-party code, hence
  arguments.  The two clock readings are those of the cache's \<open>Get\<close> and \<open>Set\<close>.

  The proofs use the contract \<open>ttl_store\<close> of the cache only.
\<close>

record plural_info =
  plural :: string
  singular :: string
  shorts :: "string list"

definition zero_info :: plural_info where
  "zero_info = \<lparr>plural = [], singular = [], shorts = []\<rparr>"

record api_resource =
  res_name :: string
  res_singularName :: string
  res_kind :: string
  res_shortNames :: "string list"

fun find_kind :: "string \<Rightarrow> api_resource list \<Rightarrow> plural_info" where
  "find_kind k [] = zero_info"
| "find_kind k (el # els) =
     (if res_kind el \<noteq> k then find_kind k els
      else \<lparr>plural = res_name el, singular = res_singularName el, shorts = res_shortNames el\<rparr>)"

text \<open>A nil list and an empty list of resources both give the zero \<open>Info\<close> and no error.\<close>

definition ResolveAPINames ::
  "('e + 'rc) \<Rightarrow> ('rc \<Rightarrow> 'e + 'dc) \<Rightarrow> ('dc \<Rightarrow> gvk \<Rightarrow> 'e + api_resource list option) \<Rightarrow>
   gvk \<Rightarrow> 'e + plural_info" where
  "ResolveAPINames inClusterConfig newClient serverResources g =
     (case inClusterConfig of
        Inl err \<Rightarrow> Inl err
      | Inr rc \<Rightarrow>
          (case newClient rc of
             Inl err \<Rightarrow> Inl err
           | Inr dc \<Rightarrow>
               (case serverResources dc g of
                  Inl err \<Rightarrow> Inl err
                | Inr None \<Rightarrow> Inr zero_info
                | Inr (Some l) \<Rightarrow> if l = [] then Inr zero_info else Inr (find_kind (gvk_kind g) l))))"

datatype 'e plural_error = ResolverError 'e | NamesNotFound gvk

type_synonym plural_cache = "(string, plural_info) ttl_cache"

text \<open>
  \<open>Get\<close>.  The function returns a value and an error at the same time: a resolver error comes with
  the zero \<open>Info\<close>, an empty plural comes with the \<open>Info\<close> found.
\<close>

definition cache_probe ::
  "(gvk \<Rightarrow> string) \<Rightarrow> plural_cache option \<Rightarrow> gvk \<Rightarrow> instant \<Rightarrow>
   plural_cache option \<times> plural_info option" where
  "cache_probe gvkString cache g now =
     (case cache of
        None \<Rightarrow> (None, None)
      | Some c \<Rightarrow> (let (c', r) = TTL_lookup zero_info c (gvkString g) now in (Some c', r)))"

definition check_plural :: "gvk \<Rightarrow> plural_info \<Rightarrow> plural_info \<times> 'e plural_error option" where
  "check_plural g tmp = (tmp, if plural tmp = [] then Some (NamesNotFound g) else None)"

definition plurals_Get ::
  "(gvk \<Rightarrow> string) \<Rightarrow> (gvk \<Rightarrow> 'e + plural_info) \<Rightarrow> plural_cache option \<Rightarrow> gvk \<Rightarrow> instant \<Rightarrow> instant \<Rightarrow>
   plural_cache option \<times> plural_info \<times> 'e plural_error option" where
  "plurals_Get gvkString resolver cache g now now' =
     (let (cache1, hit) = cache_probe gvkString cache g now in
      case hit of
        Some tmp \<Rightarrow> (cache1, check_plural g tmp)
      | None \<Rightarrow>
          (case resolver g of
             Inl err \<Rightarrow> (cache1, zero_info, Some (ResolverError err))
           | Inr tmp \<Rightarrow>
               (map_option (\<lambda>c. TTL_Set c (gvkString g) tmp (48 * 3600 * 1000000000) now') cache1,
                check_plural g tmp)))"

text \<open>Every cached entry is an answer the resolver gives for a kind with that key.\<close>

definition faithful ::
  "(gvk \<Rightarrow> string) \<Rightarrow> (gvk \<Rightarrow> 'e + plural_info) \<Rightarrow> string \<Rightarrow> plural_info \<Rightarrow> bool" where
  "faithful gvkString resolver key i \<longleftrightarrow> (\<exists>g. gvkString g = key \<and> resolver g = Inr i)"

definition cache_faithful ::
  "(gvk \<Rightarrow> string) \<Rightarrow> (gvk \<Rightarrow> 'e + plural_info) \<Rightarrow> plural_cache option \<Rightarrow> bool" where
  "cache_faithful gvkString resolver cache =
     (case cache of None \<Rightarrow> True
      | Some c \<Rightarrow> cache_inv c \<and> ttl.all_stored (\<lambda>k v t. faithful gvkString resolver k v) c)"

lemma cache_probe_faithful:
  assumes "cache_faithful s r cache" and "cache_probe s cache g now = (cache1, hit)"
  shows "cache_faithful s r cache1"
    and "hit = Some tmp \<Longrightarrow> faithful s r (s g) tmp"
proof -
  show "cache_faithful s r cache1"
  proof (cases cache)
    case (Some c)
    then have "cache1 = Some (fst (TTL_lookup zero_info c (s g) now))"
      using assms(2) by (auto simp: cache_probe_def split: prod.splits)
    with Some assms(1) show ?thesis
      by (simp add: cache_faithful_def ttl.sinv_get ttl.all_stored_get)
  qed (use assms in \<open>simp add: cache_probe_def cache_faithful_def\<close>)
  show "faithful s r (s g) tmp" if "hit = Some tmp"
  proof (cases cache)
    case (Some c)
    then have "snd (TTL_lookup zero_info c (s g) now) = Some tmp"
      using assms(2) that by (simp add: cache_probe_def split: prod.splits)
    with Some assms(1) show ?thesis
      using ttl.hit_satisfies by (fastforce simp: cache_faithful_def)
  qed (use assms(2) that in \<open>simp add: cache_probe_def\<close>)
qed

lemma cache_faithful_set:
  assumes "cache_faithful s r cache" and "r g = Inr tmp"
  shows "cache_faithful s r (map_option (\<lambda>c. TTL_Set c (s g) tmp ttl now) cache)"
proof (cases cache)
  case (Some c)
  moreover have "faithful s r (s g) tmp" using assms(2) by (auto simp: faithful_def)
  ultimately show ?thesis
    using assms(1) ttl.all_stored_set [of c] ttl.sinv_set [of c]
    by (simp add: cache_faithful_def)
qed (simp add: cache_faithful_def)

text \<open>
  With a cache whose entries came from the resolver and a printed form that tells kinds apart,
  \<open>Get\<close> answers exactly what the resolver answers for the requested kind, hit or miss: the same
  names, \<open>NotFound\<close> exactly when they have no plural, and the resolver's error exactly when the
  entry is not cached and the resolver fails; and the cache it leaves is again such a cache.
\<close>

theorem plurals_Get_agrees_with_resolver:
  assumes "cache_faithful gvkString resolver cache" and "inj gvkString"
    and "plurals_Get gvkString resolver cache g now now' = (cache', i, err)"
  shows "cache_faithful gvkString resolver cache' \<and>
    (case resolver g of
       Inr j \<Rightarrow> i = j \<and> err = (if plural j = [] then Some (NamesNotFound g) else None)
     | Inl e \<Rightarrow> i = zero_info \<and> err = Some (ResolverError e))"
proof -
  obtain cache1 hit where probe: "cache_probe gvkString cache g now = (cache1, hit)"
    by (meson surj_pair)
  note f = cache_probe_faithful [OF assms(1) probe]
  show ?thesis
  proof (cases hit)
    case (Some tmp)
    then obtain g' where "gvkString g' = gvkString g" and "resolver g' = Inr tmp"
      using f(2) by (auto simp: faithful_def)
    moreover from this have "g' = g" using assms(2) by (simp add: inj_def)
    ultimately show ?thesis
      using assms(3) probe Some f(1) by (auto simp: plurals_Get_def check_plural_def)
  next
    case None
    then show ?thesis
      using assms(3) probe f(1) cache_faithful_set [OF f(1)]
      by (auto simp: plurals_Get_def check_plural_def split: sum.splits)
  qed
qed

definition example_resolver :: "gvk \<Rightarrow> string + plural_info" where
  "example_resolver g =
     (if gvk_kind g = ''Pod'' then Inr \<lparr>plural = ''pods'', singular = ''pod'', shorts = [''po'']\<rparr>
      else Inl ''no such kind'')"

text \<open>An injective printing of kinds, with every component preceded by its length in unary.\<close>

definition example_print :: "gvk \<Rightarrow> string" where
  "example_print g =
     (let pre = (\<lambda>s. replicate (length s) CHR ''1'' @ ''0'' @ s) in
      pre (gvk_group g) @ pre (gvk_version g) @ pre (gvk_kind g))"

lemma unary_inj: "replicate m CHR ''1'' @ CHR ''0'' # xs = replicate n CHR ''1'' @ CHR ''0'' # ys \<Longrightarrow>
    m = n \<and> xs = ys"
proof (induction m arbitrary: n)
  case 0
  then show ?case by (cases n) auto
next
  case (Suc m)
  then show ?case by (cases n) auto
qed

lemma example_print_inj: "inj example_print"
proof (rule injI)
  fix g h assume "example_print g = example_print h"
  then show "g = h"
    by (cases g; cases h) (auto simp: example_print_def Let_def dest!: unary_inj)
qed

theorem plurals_Get_agrees_with_resolver_witness:
  "fst (snd (plurals_Get example_print example_resolver (Some (NewTTL []))
      \<lparr>gvk_group = [], gvk_version = ''v1'', gvk_kind = ''Pod''\<rparr> 0 0)) =
    \<lparr>plural = ''pods'', singular = ''pod'', shorts = [''po'']\<rparr>"
proof -
  let ?g = "\<lparr>gvk_group = [], gvk_version = ''v1'', gvk_kind = ''Pod''\<rparr>"
  have f: "cache_faithful example_print example_resolver (Some (NewTTL []))"
    using inv_NewTTL [of "[]"]
    by (simp add: cache_faithful_def ttl.all_stored_def stored_entry_def NewTTL_def Let_def)
  obtain c i e where r: "plurals_Get example_print example_resolver (Some (NewTTL [])) ?g 0 0 = (c, i, e)"
    by (meson prod_cases3)
  from plurals_Get_agrees_with_resolver [OF f example_print_inj r] r show ?thesis
    by (simp add: example_resolver_def)
qed

end
