(* ===== verification/Json_Maps.thy ===== *)
theory Json_Maps
  imports Go_Prelude Complex_Main
begin

text \<open>
  \<open>maps/*.go\<close>: access to nested JSON-like values.

  \<open>any\<close> is a Go interface value as the package meets it: one constructor per dynamic type its type
  switches name, typed nil maps and slices, and \<open>AOther\<close> for every other type.  Floating point
  values are rationals (the finite values; the conversion of a \<open>float32\<close> to a \<open>float64\<close> is
  exact).  Updates in place return the updated root.  A run-time panic (a write to a nil map, a slice
  expression out of range, a type that cannot be copied) is the outcome \<open>Panic\<close>.

  Shown: what \<open>SetNestedField\<close> and \<open>SetNestedValue\<close> store is what the readers find, deep copies
  are canonical JSON and stable, the paths that \<open>LeafPaths\<close> prints lead \<open>ParsePath\<close> and
  \<open>NestedValue\<close> back to a leaf, and what \<open>Reorder\<close> loses.
\<close>

datatype any =
    ANil
  | ABool bool
  | AInt int
  | AInt32 int
  | AInt64 int
  | AFloat32 rat
  | AFloat64 rat
  | AString string
  | ANumber string
  | AMap "(string \<times> any) list"
  | ANilMap
  | ASlice "any list"
  | ANilSlice
  | AMapSlice "(string \<times> any) list option list"
  | ANilMapSlice
  | AOther string

type_synonym obj = "(string, any) gomap"

section \<open>Deep copies\<close>

text \<open>\<open>deepCopyJSONValue\<close>; \<open>None\<close> is the panic on a type that cannot be copied.\<close>

fun those_pairs :: "(string \<times> any option) list \<Rightarrow> (string \<times> any) list option" where
  "those_pairs [] = Some []"
| "those_pairs ((k, None) # ps) = None"
| "those_pairs ((k, Some v) # ps) = map_option (Cons (k, v)) (those_pairs ps)"

fun deepCopyJSONValue :: "any \<Rightarrow> any option" where
  "deepCopyJSONValue (AMap m) =
     map_option AMap (those_pairs (map (\<lambda>(k, v). (k, deepCopyJSONValue v)) m))"
| "deepCopyJSONValue ANilMap = Some ANilMap"
| "deepCopyJSONValue (ASlice xs) = map_option ASlice (those (map deepCopyJSONValue xs))"
| "deepCopyJSONValue ANilSlice = Some ANilSlice"
| "deepCopyJSONValue (AMapSlice ms) =
     map_option ASlice (those (map (\<lambda>m. case m of
         None \<Rightarrow> Some ANilMap
       | Some kvs \<Rightarrow> map_option AMap (those_pairs (map (\<lambda>(k, v). (k, deepCopyJSONValue v)) kvs))) ms))"
| "deepCopyJSONValue ANilMapSlice = Some ANilMapSlice"
| "deepCopyJSONValue (AString s) = Some (AString s)"
| "deepCopyJSONValue (AInt64 i) = Some (AInt64 i)"
| "deepCopyJSONValue (ABool b) = Some (ABool b)"
| "deepCopyJSONValue (AFloat64 r) = Some (AFloat64 r)"
| "deepCopyJSONValue ANil = Some ANil"
| "deepCopyJSONValue (ANumber n) = Some (ANumber n)"
| "deepCopyJSONValue (AInt i) = Some (AInt64 i)"
| "deepCopyJSONValue (AInt32 i) = Some (AInt64 i)"
| "deepCopyJSONValue (AFloat32 r) = Some (AFloat64 r)"
| "deepCopyJSONValue (AOther ty) = None"

definition DeepCopyJSON :: "obj \<Rightarrow> obj option" where
  "DeepCopyJSON m = those_pairs (map (\<lambda>(k, v). (k, deepCopyJSONValue v)) m)"

section \<open>Reading\<close>

text \<open>\<open>nestedFieldNoCopy\<close>: found, missing, or an error that names the path walked so far.\<close>

datatype nested = NFound any | NMissing | NError "string list"

fun nestedField :: "any \<Rightarrow> string list \<Rightarrow> string list \<Rightarrow> nested" where
  "nestedField val walked [] = NFound val"
| "nestedField val walked (field # fields) =
     (case val of
        ANil \<Rightarrow> NMissing
      | AMap m \<Rightarrow> (case map_of m field of
                     None \<Rightarrow> NMissing
                   | Some v \<Rightarrow> nestedField v (walked @ [field]) fields)
      | ANilMap \<Rightarrow> NMissing
      | _ \<Rightarrow> NError (walked @ [field]))"

definition nestedFieldNoCopy :: "obj \<Rightarrow> string list \<Rightarrow> nested" where
  "nestedFieldNoCopy obj fields = nestedField (AMap obj) [] fields"

text \<open>\<open>NestedFieldCopy\<close>, \<open>NestedMapNoCopy\<close>, \<open>NestedMap\<close>, \<open>NestedSliceNoCopy\<close>,
  \<open>NestedSlice\<close>; the outer option is the panic of the copy.\<close>

definition NestedFieldCopy :: "obj \<Rightarrow> string list \<Rightarrow> nested option" where
  "NestedFieldCopy obj fields =
     (case nestedFieldNoCopy obj fields of
        NFound v \<Rightarrow> map_option NFound (deepCopyJSONValue v)
      | r \<Rightarrow> Some r)"

definition NestedMapNoCopy :: "obj \<Rightarrow> string list \<Rightarrow> nested" where
  "NestedMapNoCopy obj fields =
     (case nestedFieldNoCopy obj fields of
        NFound (AMap m) \<Rightarrow> NFound (AMap m)
      | NFound ANilMap \<Rightarrow> NFound ANilMap
      | NFound v \<Rightarrow> NError fields
      | r \<Rightarrow> r)"

definition NestedMap :: "obj \<Rightarrow> string list \<Rightarrow> nested option" where
  "NestedMap obj fields =
     (case NestedMapNoCopy obj fields of
        NFound v \<Rightarrow> map_option NFound (deepCopyJSONValue v)
      | r \<Rightarrow> Some r)"

definition NestedSliceNoCopy :: "obj \<Rightarrow> string list \<Rightarrow> nested" where
  "NestedSliceNoCopy obj fields =
     (case nestedFieldNoCopy obj fields of
        NFound (ASlice xs) \<Rightarrow> NFound (ASlice xs)
      | NFound ANilSlice \<Rightarrow> NFound ANilSlice
      | NFound v \<Rightarrow> NError fields
      | r \<Rightarrow> r)"

definition NestedSlice :: "obj \<Rightarrow> string list \<Rightarrow> nested option" where
  "NestedSlice obj fields =
     (case nestedFieldNoCopy obj fields of
        NFound (ASlice xs) \<Rightarrow> map_option NFound (deepCopyJSONValue (ASlice xs))
      | NFound ANilSlice \<Rightarrow> Some (NFound ANilSlice)
      | NFound v \<Rightarrow> Some (NError fields)
      | r \<Rightarrow> Some r)"

text \<open>
  \<open>NestedValue\<close> also walks slices by index.  A key that a map lacks leaves \<open>nil\<close> as the current
  value: the result of \<open>nestedFieldNoCopy\<close> is used without its \<open>found\<close> flag.
\<close>

definition slice_index :: "string \<Rightarrow> any list \<Rightarrow> nat option" where
  "slice_index field xs =
     (case Atoi field of
        None \<Rightarrow> None
      | Some i \<Rightarrow> if i < 0 \<or> i \<ge> int (length xs) then None else Some (nat i))"

fun nestedValue :: "any \<Rightarrow> string list \<Rightarrow> any option" where
  "nestedValue current [] = Some current"
| "nestedValue current (field # fields) =
     (case current of
        AMap m \<Rightarrow> nestedValue (case map_of m field of None \<Rightarrow> ANil | Some v \<Rightarrow> v) fields
      | ANilMap \<Rightarrow> nestedValue ANil fields
      | ASlice xs \<Rightarrow> (case slice_index field xs of
                        None \<Rightarrow> None
                      | Some i \<Rightarrow> nestedValue (xs ! i) fields)
      | ANilSlice \<Rightarrow> None
      | _ \<Rightarrow> None)"

definition NestedValue :: "obj \<Rightarrow> string list \<Rightarrow> any option" where
  "NestedValue obj fields = nestedValue (AMap obj) fields"

definition NestedString :: "obj \<Rightarrow> string list \<Rightarrow> string list + string" where
  "NestedString obj fields =
     (case NestedValue obj fields of
        None \<Rightarrow> Inr []
      | Some (AString s) \<Rightarrow> Inr s
      | Some v \<Rightarrow> Inl fields)"

definition ToMapSlice :: "any list \<Rightarrow> nat + any list" where
  "ToMapSlice xs =
     (case find (\<lambda>i. case xs ! i of AMap m \<Rightarrow> False | ANilMap \<Rightarrow> False | _ \<Rightarrow> True) [0..<length xs] of
        Some i \<Rightarrow> Inl i
      | None \<Rightarrow> Inr xs)"

section \<open>Writing\<close>

datatype 'a outcome = Done 'a | Failed string | Panic

text \<open>
  \<open>setNestedFieldNoCopy\<close>: missing levels are created; a level that is not a map is an error and an
  empty path panics (\<open>fields[:len(fields)-1]\<close>).
\<close>

fun set_field :: "any \<Rightarrow> any \<Rightarrow> string list \<Rightarrow> any outcome" where
  "set_field cur value [] = Panic"
| "set_field (AMap m) value [field] = Done (AMap (AList.update field value m))"
| "set_field (AMap m) value (field # g # fields) =
     (case map_of m field of
        None \<Rightarrow> (case set_field (AMap []) value (g # fields) of
                   Done v \<Rightarrow> Done (AMap (AList.update field v m))
                 | r \<Rightarrow> r)
      | Some val \<Rightarrow>
          (case val of
             AMap m' \<Rightarrow> (case set_field (AMap m') value (g # fields) of
                           Done v \<Rightarrow> Done (AMap (AList.update field v m))
                         | r \<Rightarrow> r)
           | ANilMap \<Rightarrow> Panic
           | _ \<Rightarrow> Failed ''not a map[string]any''))"
| "set_field cur value (field # fields) = Panic"

definition setNestedFieldNoCopy :: "obj \<Rightarrow> any \<Rightarrow> string list \<Rightarrow> obj outcome" where
  "setNestedFieldNoCopy obj value fields =
     (case set_field (AMap obj) value fields of
        Done (AMap m) \<Rightarrow> Done m
      | Done _ \<Rightarrow> Panic
      | Failed e \<Rightarrow> Failed e
      | Panic \<Rightarrow> Panic)"

definition SetNestedField :: "obj \<Rightarrow> any \<Rightarrow> string list \<Rightarrow> obj outcome" where
  "SetNestedField obj value fields =
     (case deepCopyJSONValue value of
        None \<Rightarrow> Panic
      | Some v \<Rightarrow> setNestedFieldNoCopy obj v fields)"

text \<open>
  \<open>SetNestedValue\<close>.  The loop keeps the parent of the current value; when the last field meets a
  value that is neither map nor slice, the code writes the new value into the parent, in place of
  that value.  The recursion reports this as \<open>SVReplace\<close> to the level above.
\<close>

datatype set_result = SVDone any | SVReplace | SVError string | SVPanic

fun set_value :: "any \<Rightarrow> string list \<Rightarrow> any \<Rightarrow> set_result" where
  "set_value cur [] new = SVError ''unable to update path''"
| "set_value (AMap m) [field] new = SVDone (AMap (AList.update field new m))"
| "set_value (AMap m) (field # g # fs) new =
     (case set_value (case map_of m field of None \<Rightarrow> ANil | Some v \<Rightarrow> v) (g # fs) new of
        SVDone v \<Rightarrow> SVDone (AMap (AList.update field v m))
      | SVReplace \<Rightarrow> SVDone (AMap (AList.update field new m))
      | r \<Rightarrow> r)"
| "set_value ANilMap [field] new = SVPanic"
| "set_value ANilMap (field # g # fs) new =
     (case set_value ANil (g # fs) new of SVReplace \<Rightarrow> SVPanic | r \<Rightarrow> r)"
| "set_value (ASlice xs) [field] new =
     (case slice_index field xs of
        None \<Rightarrow> SVError ''invalid index''
      | Some i \<Rightarrow> SVDone (ASlice (xs[i := new])))"
| "set_value (ASlice xs) (field # g # fs) new =
     (case slice_index field xs of
        None \<Rightarrow> SVError ''invalid index''
      | Some i \<Rightarrow>
          (case set_value (xs ! i) (g # fs) new of
             SVDone v \<Rightarrow> SVDone (ASlice (xs[i := v]))
           | SVReplace \<Rightarrow> SVDone (ASlice (xs[i := new]))
           | r \<Rightarrow> r))"
| "set_value ANilSlice (field # fs) new = SVError ''invalid index''"
| "set_value cur [field] new = SVReplace"
| "set_value cur (field # g # fs) new = SVError ''data structure not navigable''"

definition SetNestedValue :: "obj \<Rightarrow> string list \<Rightarrow> any \<Rightarrow> obj outcome" where
  "SetNestedValue obj fields new =
     (case set_value (AMap obj) fields new of
        SVDone (AMap m) \<Rightarrow> Done m
      | SVDone _ \<Rightarrow> Panic
      | SVReplace \<Rightarrow> Failed ''data structure not navigable''
      | SVError e \<Rightarrow> Failed e
      | SVPanic \<Rightarrow> Panic)"

section \<open>Paths\<close>

definition child_path :: "string \<Rightarrow> string \<Rightarrow> string" where
  "child_path prefix key = (if prefix \<noteq> [] then prefix @ ''.'' @ key else key)"

definition item_path :: "string \<Rightarrow> nat \<Rightarrow> string" where
  "item_path p i = p @ ''['' @ show_nat i @ '']''"

text \<open>\<open>LeafPaths\<close>; the map is visited in the order of the list.\<close>

fun leaf_paths :: "any \<Rightarrow> string \<Rightarrow> string list"
  and item_paths :: "any list \<Rightarrow> string \<Rightarrow> nat \<Rightarrow> string list"
  and map_paths :: "(string \<times> any) list \<Rightarrow> string \<Rightarrow> string list" where
  "leaf_paths (AMap m) p = map_paths m p"
| "leaf_paths ANilMap p = []"
| "leaf_paths (ASlice xs) p = item_paths xs p 0"
| "leaf_paths ANilSlice p = []"
| "leaf_paths v p = [p]"
| "item_paths [] p i = []"
| "item_paths (x # xs) p i =
     (case x of
        AMap m \<Rightarrow> map_paths m (item_path p i)
      | ANilMap \<Rightarrow> []
      | _ \<Rightarrow> [item_path p i]) @ item_paths xs p (Suc i)"
| "map_paths [] p = []"
| "map_paths ((k, v) # kvs) p = leaf_paths v (child_path p k) @ map_paths kvs p"

definition LeafPaths :: "obj \<Rightarrow> string \<Rightarrow> string list" where
  "LeafPaths m prefix = map_paths m prefix"

definition ParsePath :: "string \<Rightarrow> string list" where
  "ParsePath path =
     (let modified = map (\<lambda>c. if c = CHR ''['' then CHR ''.'' else c) path;
          modified = filter (\<lambda>c. c \<noteq> CHR '']'') modified
      in filter (\<lambda>el. el \<noteq> []) (Split modified CHR ''.''))"

section \<open>Reorder\<close>

text \<open>\<open>Reorder\<close>: every error of the readers and writers is ignored; \<open>None\<close> is a panic.\<close>

definition copy_path :: "obj \<Rightarrow> string list \<Rightarrow> obj \<Rightarrow> (bool \<times> obj) option" where
  "copy_path input parsed output =
     (case NestedFieldCopy input parsed of
        None \<Rightarrow> None
      | Some (NFound v) \<Rightarrow>
          (case SetNestedField output v parsed of
             Done output' \<Rightarrow> Some (True, output')
           | Failed e \<Rightarrow> Some (True, output)
           | Panic \<Rightarrow> None)
      | Some _ \<Rightarrow> Some (False, output))"

fun reorder_ordered :: "obj \<Rightarrow> string list \<Rightarrow> obj \<times> string list \<Rightarrow> (obj \<times> string list) option" where
  "reorder_ordered input [] acc = Some acc"
| "reorder_ordered input (p # ps) (output, included) =
     (case copy_path input (ParsePath p) output of
        None \<Rightarrow> None
      | Some (added, output') \<Rightarrow>
          reorder_ordered input ps (output', if added then p # included else included))"

fun reorder_rest :: "obj \<Rightarrow> string list \<Rightarrow> obj \<times> string list \<Rightarrow> obj option" where
  "reorder_rest input [] (output, included) = Some output"
| "reorder_rest input (p # ps) (output, included) =
     (if p \<in> set included then reorder_rest input ps (output, included)
      else case copy_path input (ParsePath p) output of
             None \<Rightarrow> None
           | Some (added, output') \<Rightarrow> reorder_rest input ps (output', included))"

definition Reorder :: "obj \<Rightarrow> string list \<Rightarrow> obj option" where
  "Reorder input paths =
     (case reorder_ordered input paths ([], []) of
        None \<Rightarrow> None
      | Some acc \<Rightarrow> reorder_rest input (LeafPaths input []) acc)"

section \<open>Properties\<close>

text \<open>The values that \<open>json.Unmarshal\<close> produces, and \<open>int64\<close>.\<close>

fun canonical :: "any \<Rightarrow> bool" where
  "canonical (AMap m) = list_all (\<lambda>(k, v). canonical v) m"
| "canonical (ASlice xs) = list_all canonical xs"
| "canonical (AMapSlice ms) = False"
| "canonical (AInt i) = False"
| "canonical (AInt32 i) = False"
| "canonical (AFloat32 r) = False"
| "canonical (AOther t) = False"
| "canonical v = True"

lemma those_map_Some: "(\<And>x. x \<in> set xs \<Longrightarrow> f x = Some (g x)) \<Longrightarrow> those (map f xs) = Some (map g xs)"
  by (induction xs) auto

lemma those_pairs_map_Some:
  "(\<And>k v. (k, v) \<in> set m \<Longrightarrow> f v = Some (g v)) \<Longrightarrow>
     those_pairs (map (\<lambda>(k, v). (k, f v)) m) = Some (map (\<lambda>(k, v). (k, g v)) m)"
proof (induction m)
  case (Cons p m)
  obtain k v where p: "p = (k, v)" by (cases p)
  have "f v = Some (g v)" using Cons.prems p by auto
  moreover have "those_pairs (map (\<lambda>(k, v). (k, f v)) m) = Some (map (\<lambda>(k, v). (k, g v)) m)"
    using Cons by (meson list.set_intros(2))
  ultimately show ?case by (simp add: p)
qed simp

lemma those_Some_all: "those xs = Some ys \<Longrightarrow> y \<in> set ys \<Longrightarrow> Some y \<in> set xs"
  by (induction xs arbitrary: ys) (auto split: option.splits)

lemma those_pairs_Some_all:
  "those_pairs ps = Some m \<Longrightarrow> (k, v) \<in> set m \<Longrightarrow> (k, Some v) \<in> set ps"
  by (induction ps arbitrary: m rule: those_pairs.induct) auto

lemma copied_pairs_canonical:
  assumes "\<And>k v w. (k, v) \<in> set kvs \<Longrightarrow> deepCopyJSONValue v = Some w \<Longrightarrow> canonical w"
    and "those_pairs (map (\<lambda>(k, v). (k, deepCopyJSONValue v)) kvs) = Some m"
  shows "canonical (AMap m)"
proof -
  have "canonical w" if "(k, w) \<in> set m" for k w
    using those_pairs_Some_all [OF assms(2) that] assms(1) by auto
  then show ?thesis by (auto simp: list_all_iff)
qed

lemma deepCopy_canonical: "deepCopyJSONValue v = Some w \<Longrightarrow> canonical w"
proof (induction v arbitrary: w rule: deepCopyJSONValue.induct)
  case (1 m)
  then show ?case using copied_pairs_canonical [of m] by auto
next
  case (3 xs)
  then show ?case by (fastforce simp: list_all_iff dest: those_Some_all)
next
  case (5 ms)
  let ?f = "\<lambda>m. case m of None \<Rightarrow> Some ANilMap
       | Some kvs \<Rightarrow> map_option AMap (those_pairs (map (\<lambda>(k, v). (k, deepCopyJSONValue v)) kvs))"
  from "5.prems" obtain ws where w: "w = ASlice ws" and ws: "those (map ?f ms) = Some ws"
    by auto
  have "canonical x" if x: "x \<in> set ws" for x
  proof -
    obtain y where y: "y \<in> set ms" "?f y = Some x" using those_Some_all [OF ws x] by auto
    show ?thesis
    proof (cases y)
      case (Some kvs)
      with y "5.IH" copied_pairs_canonical [of kvs] show ?thesis by auto
    qed (use y in auto)
  qed
  with w show ?case by (simp add: list_all_iff)
qed auto

lemma deepCopy_id: "canonical v \<Longrightarrow> deepCopyJSONValue v = Some v"
proof (induction v rule: deepCopyJSONValue.induct)
  case (1 m)
  then have "\<And>k v. (k, v) \<in> set m \<Longrightarrow> deepCopyJSONValue v = Some (id v)"
    by (force simp: list_all_iff)
  then show ?case by (simp add: those_pairs_map_Some)
next
  case (3 xs)
  then have "\<And>v. v \<in> set xs \<Longrightarrow> deepCopyJSONValue v = Some (id v)"
    by (auto simp: list_all_iff)
  then show ?case by (simp add: those_map_Some)
qed auto

text \<open>
  A deep copy is canonical JSON (only the types \<open>json.Unmarshal\<close> produces, and
  \<open>int64\<close>), whatever the input's integer, float and slice types were, and copying it again changes
  nothing; canonical values are copied unchanged.
\<close>

theorem deep_copy_normalises:
  "(deepCopyJSONValue v = Some w \<longrightarrow> canonical w \<and> deepCopyJSONValue w = Some w) \<and>
   (canonical v \<longrightarrow> deepCopyJSONValue v = Some v)"
  using deepCopy_canonical deepCopy_id by blast

theorem deep_copy_normalises_witness:
  "canonical (AMap [(''a'', ASlice [AInt64 1, AFloat64 2])]) \<and>
   deepCopyJSONValue (AMap [(''a'', ASlice [AInt32 1, AFloat32 2])]) =
     Some (AMap [(''a'', ASlice [AInt64 1, AFloat64 2])])"
proof -
  have c: "deepCopyJSONValue (AMap [(''a'', ASlice [AInt32 1, AFloat32 2])]) =
     Some (AMap [(''a'', ASlice [AInt64 1, AFloat64 2])])"
    by simp
  with deep_copy_normalises [of "AMap [(''a'', ASlice [AInt32 1, AFloat32 2])]"
      "AMap [(''a'', ASlice [AInt64 1, AFloat64 2])]"]
  show ?thesis by blast
qed

subsection \<open>Fields written and read back\<close>

lemma set_field_map: "set_field cur nv fs = Done v \<Longrightarrow> \<exists>m. v = AMap m"
  by (induction cur nv fs arbitrary: v rule: set_field.induct)
    (auto split: option.splits any.splits outcome.splits)

lemma set_field_step:
  assumes "set_field cur nv (c # g # gs) = Done v"
  obtains m v' where "cur = AMap m" and "v = AMap (AList.update c v' m)"
    and "set_field (case map_of m c of None \<Rightarrow> AMap [] | Some x \<Rightarrow> x) nv (g # gs) = Done v'"
proof (cases cur)
  case (AMap m)
  with assms that show thesis by (auto split: option.splits any.splits outcome.splits)
qed (use assms in auto)

lemma set_field_found: "set_field cur nv fs = Done v \<Longrightarrow> nestedField v w fs = NFound nv"
proof (induction fs arbitrary: cur v w)
  case (Cons c fs)
  show ?case
  proof (cases fs)
    case Nil
    with Cons.prems show ?thesis by (cases cur) auto
  next
    case fs: (Cons g gs)
    from set_field_step [OF Cons.prems [unfolded fs]] obtain m v'
      where "v = AMap (AList.update c v' m)"
        and "set_field (case map_of m c of None \<Rightarrow> AMap [] | Some x \<Rightarrow> x) nv fs = Done v'"
      unfolding fs by blast
    then show ?thesis using Cons.IH by simp
  qed
qed simp

lemma set_field_frame:
  "set_field cur nv (common @ y # r) = Done v \<Longrightarrow> x \<noteq> y \<Longrightarrow>
     nestedField v w (common @ x # r') = nestedField cur w (common @ x # r')"
proof (induction common arbitrary: cur v w)
  case Nil
  then show ?case
    by (cases "(cur, nv, y # r)" rule: set_field.cases)
      (auto split: option.splits any.splits outcome.splits)
next
  case (Cons c cs)
  obtain g gs where tail: "cs @ y # r = g # gs" by (cases cs) auto
  from Cons.prems(1) tail have "set_field cur nv (c # g # gs) = Done v" by simp
  from set_field_step [OF this] obtain m v' where cur: "cur = AMap m"
    and v: "v = AMap (AList.update c v' m)"
    and v': "set_field (case map_of m c of None \<Rightarrow> AMap [] | Some x \<Rightarrow> x) nv (cs @ y # r) = Done v'"
    unfolding tail by blast
  let ?child = "case map_of m c of None \<Rightarrow> AMap [] | Some x \<Rightarrow> x"
  have step: "nestedField v' (w @ [c]) (cs @ x # r') = nestedField ?child (w @ [c]) (cs @ x # r')"
    by (rule Cons.IH [OF v' Cons.prems(2)])
  have "nestedField v w ((c # cs) @ x # r') = nestedField v' (w @ [c]) (cs @ x # r')"
    by (simp add: v)
  also have "\<dots> = nestedField cur w ((c # cs) @ x # r')"
    unfolding step using cur by (cases cs) (auto split: option.splits)
  finally show ?case .
qed

text \<open>
  After a successful \<open>SetNestedField\<close> the readers find a deep copy of the value
  at the path, missing levels having been created, and at every path that leaves the written one at
  some level they find exactly what they found before.
\<close>

theorem SetNestedField_get:
  assumes "SetNestedField obj nv fields = Done obj'"
  shows "(\<exists>v. deepCopyJSONValue nv = Some v \<and> nestedFieldNoCopy obj' fields = NFound v) \<and>
    (\<forall>common x y r r'. fields = common @ y # r \<and> x \<noteq> y \<longrightarrow>
       nestedFieldNoCopy obj' (common @ x # r') = nestedFieldNoCopy obj (common @ x # r'))"
proof -
  obtain v where v: "deepCopyJSONValue nv = Some v"
    and set: "set_field (AMap obj) v fields = Done (AMap obj')"
    using assms set_field_map
    by (auto simp: SetNestedField_def setNestedFieldNoCopy_def
        split: option.splits outcome.splits any.splits)
  show ?thesis
    using v set_field_found [OF set] set_field_frame [of "AMap obj" v _ _ _ "AMap obj'"] set
    unfolding nestedFieldNoCopy_def by blast
qed

theorem SetNestedField_get_witness:
  "nestedFieldNoCopy [(''a'', AMap [(''c'', ABool True), (''b'', AInt64 7)])] [''a'', ''b''] =
     NFound (AInt64 7)"
proof -
  have s: "SetNestedField [(''a'', AMap [(''c'', ABool True)])] (AInt 7) [''a'', ''b''] =
      Done [(''a'', AMap [(''c'', ABool True), (''b'', AInt64 7)])]"
    by (simp add: SetNestedField_def setNestedFieldNoCopy_def)
  from SetNestedField_get [OF s] show ?thesis by simp
qed

text \<open>Whether a path leads to a value that \<open>SetNestedValue\<close> can store into.\<close>

definition container_at :: "any \<Rightarrow> string list \<Rightarrow> bool" where
  "container_at cur p =
     (case nestedValue cur p of
        Some (AMap m) \<Rightarrow> True
      | Some (ASlice xs) \<Rightarrow> True
      | _ \<Rightarrow> False)"

lemma slice_index_update [simp]: "slice_index f (xs[i := v]) = slice_index f xs"
  by (simp add: slice_index_def split: option.split)

lemma set_value_nil [simp]: "set_value ANil fs new \<noteq> SVDone v"
  by (cases fs; cases "tl fs") auto

lemma slice_index_bound: "slice_index f xs = Some i \<Longrightarrow> i < length xs"
  by (auto simp: slice_index_def split: option.splits if_splits)

lemma set_value_replace: "set_value cur fs new = SVReplace \<Longrightarrow> \<exists>f. fs = [f] \<and> \<not> container_at cur []"
  by (induction cur fs new rule: set_value.induct)
    (auto simp: container_at_def split: option.splits set_result.splits)

lemma set_value_effect:
  "set_value cur fs new = SVDone cur' \<Longrightarrow>
     nestedValue cur' (if container_at cur (butlast fs) then fs else butlast fs) = Some new"
proof (induction cur fs new arbitrary: cur' rule: set_value.induct)
  case (3 m field g fs new)
  let ?child = "case map_of m field of None \<Rightarrow> ANil | Some v \<Rightarrow> v"
  have ca: "container_at (AMap m) (butlast (field # g # fs)) = container_at ?child (butlast (g # fs))"
    by (simp add: container_at_def)
  show ?case
  proof (cases "set_value ?child (g # fs) new")
    case (SVDone v)
    with "3.prems" "3.IH" [OF SVDone] show ?thesis unfolding ca by (auto split: if_splits)
  next
    case SVReplace
    with "3.prems" set_value_replace [OF SVReplace] show ?thesis unfolding ca by auto
  qed (use "3.prems" in auto)
next
  case (7 xs field g fs new)
  then obtain i where i: "slice_index field xs = Some i" by (auto split: option.splits)
  have ca: "container_at (ASlice xs) (butlast (field # g # fs)) = container_at (xs ! i) (butlast (g # fs))"
    by (simp add: container_at_def i)
  show ?case
  proof (cases "set_value (xs ! i) (g # fs) new")
    case (SVDone v)
    with "7.prems" "7.IH" [OF i SVDone] i slice_index_bound [OF i] show ?thesis
      unfolding ca by (auto split: if_splits)
  next
    case SVReplace
    with "7.prems" set_value_replace [OF SVReplace] i slice_index_bound [OF i] show ?thesis
      unfolding ca by auto
  qed (use "7.prems" i in auto)
qed (auto simp: container_at_def slice_index_bound split: option.splits set_result.splits)

text \<open>
  A successful \<open>SetNestedValue\<close> makes \<open>NestedValue\<close> return the new value: at the given path
  when its parent is a map or a slice, and at the parent's own path otherwise (the parent, a scalar
  or a missing key, is overwritten).
\<close>

theorem SetNestedValue_get:
  assumes "SetNestedValue obj fields new = Done obj'"
  shows "NestedValue obj'
    (if container_at (AMap obj) (butlast fields) then fields else butlast fields) = Some new"
proof -
  have "set_value (AMap obj) fields new = SVDone (AMap obj')"
    using assms by (auto simp: SetNestedValue_def split: set_result.splits any.splits)
  then show ?thesis using set_value_effect by (simp add: NestedValue_def)
qed

theorem SetNestedValue_get_witness:
  "NestedValue [(''a'', ASlice [AMap [(''b'', AInt 2)]])] [''a'', ''0'', ''b''] = Some (AInt 2) \<and>
   NestedValue [(''a'', ABool True)] [''a''] = Some (ABool True)"
proof
  have "slice_index ''0'' [AMap [(''b'', AInt 1)]] = Some 0" by code_simp
  then have s: "SetNestedValue [(''a'', ASlice [AMap [(''b'', AInt 1)]])] [''a'', ''0'', ''b''] (AInt 2) =
      Done [(''a'', ASlice [AMap [(''b'', AInt 2)]])]"
    and c: "container_at (AMap [(''a'', ASlice [AMap [(''b'', AInt 1)]])]) (butlast [''a'', ''0'', ''b''])"
    by (simp_all add: SetNestedValue_def container_at_def)
  show "NestedValue [(''a'', ASlice [AMap [(''b'', AInt 2)]])] [''a'', ''0'', ''b''] = Some (AInt 2)"
    using SetNestedValue_get [OF s] c by simp
  have "SetNestedValue [(''a'', AInt 5)] [''a'', ''b''] (ABool True) = Done [(''a'', ABool True)]"
    by (simp add: SetNestedValue_def)
  from SetNestedValue_get [OF this]
  show "NestedValue [(''a'', ABool True)] [''a''] = Some (ABool True)"
    by (simp add: container_at_def)
qed

subsection \<open>Printed paths lead back to their leaves\<close>

definition simple_key :: "string \<Rightarrow> bool" where
  "simple_key k = (k \<noteq> [] \<and> list_all (\<lambda>c. c \<notin> set ''.[]'') k)"

fun printable :: "any \<Rightarrow> bool" where
  "printable (AMap m) = (distinct (map fst m) \<and> list_all (\<lambda>(k, v). simple_key k \<and> printable v) m)"
| "printable (ASlice xs) = (int (length xs) < 2 ^ 63 \<and> list_all printable xs)"
| "printable v = True"

definition is_map :: "any \<Rightarrow> bool" where
  "is_map v = (case v of AMap m \<Rightarrow> True | ANilMap \<Rightarrow> True | _ \<Rightarrow> False)"

lemma Split_append_sep: "Split (a @ c # b) c = Split a c @ Split b c"
proof (induction a)
  case (Cons x a)
  then show ?case by (cases "Split a c") (auto split: list.splits)
qed simp

lemma ParsePath_sep:
  "c = CHR ''.'' \<or> c = CHR ''['' \<Longrightarrow> ParsePath (p @ c # q) = ParsePath p @ ParsePath q"
  by (auto simp: ParsePath_def Split_append_sep)

lemma ParsePath_plain:
  assumes "list_all (\<lambda>c. c \<notin> set ''.[]'') k" and "k \<noteq> []"
  shows "ParsePath k = [k]" and "ParsePath (k @ '']'') = [k]"
proof -
  have "map (\<lambda>c. if c = CHR ''['' then CHR ''.'' else c) k = k"
    using assms(1) by (induction k) auto
  moreover have "filter (\<lambda>c. c \<noteq> CHR '']'') k = k"
    using assms(1) by (induction k) auto
  moreover have "CHR ''.'' \<notin> set k" using assms(1) by (auto simp: list_all_iff)
  ultimately show "ParsePath k = [k]" and "ParsePath (k @ '']'') = [k]"
    using assms(2) by (simp_all add: ParsePath_def Split_single)
qed

lemma ParsePath_Nil [simp]: "ParsePath [] = []"
  by (simp add: ParsePath_def)

lemma ParsePath_child: "simple_key k \<Longrightarrow> ParsePath (child_path p k) = ParsePath p @ [k]"
  using ParsePath_plain(1) [of k] ParsePath_sep [of "CHR ''.''" p k]
  by (simp add: child_path_def simple_key_def)

lemma show_nat_plain: "list_all (\<lambda>c. c \<notin> set ''.[]'') (show_nat i)"
  using show_nat_digits [of i] digit_not_punct by (fastforce simp: list_all_iff)

lemma ParsePath_item: "ParsePath (item_path p i) = ParsePath p @ [show_nat i]"
  using ParsePath_plain(2) [OF show_nat_plain, of i] ParsePath_sep [of "CHR ''[''" p "show_nat i @ '']''"]
  by (simp add: item_path_def)

definition leads :: "any \<Rightarrow> string list \<Rightarrow> bool" where
  "leads v segs \<longleftrightarrow> (\<exists>u. nestedValue v segs = Some u \<and> \<not> is_map u)"

lemma leads_Nil: "\<not> is_map v \<Longrightarrow> leads v []"
  by (simp add: leads_def)

lemma paths_lead:
  shows "printable v \<Longrightarrow> q \<in> set (leaf_paths v p) \<Longrightarrow>
      \<exists>segs. ParsePath q = ParsePath p @ segs \<and> leads v segs"
    and "list_all printable xs \<Longrightarrow> q \<in> set (item_paths xs p i) \<Longrightarrow>
      \<exists>j segs. j < length xs \<and> ParsePath q = ParsePath p @ show_nat (i + j) # segs \<and> leads (xs ! j) segs"
    and "list_all (\<lambda>(k, v). simple_key k \<and> printable v) m \<Longrightarrow> q \<in> set (map_paths m p) \<Longrightarrow>
      \<exists>k w segs. (k, w) \<in> set m \<and> ParsePath q = ParsePath p @ k # segs \<and> leads w segs"
proof (induction v p and xs p i and m p rule: leaf_paths_item_paths_map_paths.induct)
  case (1 m p)
  then obtain k w segs where "(k, w) \<in> set m" "ParsePath q = ParsePath p @ k # segs" "leads w segs"
    by auto
  moreover have "map_of m k = Some w" using "1.prems" \<open>(k, w) \<in> set m\<close> by simp
  ultimately show ?case by (auto simp: leads_def intro!: exI [of _ "k # segs"])
next
  case (3 xs p)
  then obtain j segs where j: "j < length xs" "ParsePath q = ParsePath p @ show_nat j # segs"
      "leads (xs ! j) segs" by auto
  moreover have "slice_index (show_nat j) xs = Some j"
    using j(1) "3.prems"(1) by (simp add: slice_index_def Atoi_show_nat)
  ultimately show ?case by (auto simp: leads_def intro!: exI [of _ "show_nat j # segs"])
next
  case (7 x xs p i)
  have head: "\<exists>segs. ParsePath q = ParsePath p @ show_nat i # segs \<and> leads x segs"
    if q: "q \<in> set (case x of AMap m \<Rightarrow> map_paths m (item_path p i) | ANilMap \<Rightarrow> []
        | _ \<Rightarrow> [item_path p i])"
  proof (cases "is_map x")
    case True
    then obtain m where x: "x = AMap m" using q by (cases x) (auto simp: is_map_def)
    then obtain k w segs where "(k, w) \<in> set m"
        "ParsePath q = ParsePath (item_path p i) @ k # segs" "leads w segs"
      using "7.IH"(1) [OF x] "7.prems"(1) q by auto
    moreover have "map_of m k = Some w" using "7.prems" x \<open>(k, w) \<in> set m\<close> by simp
    ultimately show ?thesis by (auto simp: x leads_def ParsePath_item intro!: exI [of _ "k # segs"])
  next
    case False
    then have "q = item_path p i" using q by (cases x) (auto simp: is_map_def)
    then show ?thesis using leads_Nil [OF False] by (simp add: ParsePath_item)
  qed
  from "7.prems"(2) consider "q \<in> set (case x of AMap m \<Rightarrow> map_paths m (item_path p i)
      | ANilMap \<Rightarrow> [] | _ \<Rightarrow> [item_path p i])" | "q \<in> set (item_paths xs p (Suc i))" by auto
  then show ?case
  proof cases
    case 1
    with head show ?thesis by (metis add_0_right length_greater_0_conv list.discI nth_Cons_0)
  next
    case 2
    then obtain j segs where "j < length xs" "ParsePath q = ParsePath p @ show_nat (Suc i + j) # segs"
        "leads (xs ! j) segs" using "7.IH"(2) "7.prems"(1) by auto
    then show ?thesis by (intro exI [of _ "Suc j"]) auto
  qed
next
  case (9 k v kvs p)
  then show ?case
  proof (cases "q \<in> set (leaf_paths v (child_path p k))")
    case True
    then obtain segs where "ParsePath q = ParsePath (child_path p k) @ segs" "leads v segs"
      using "9.IH"(1) "9.prems"(1) by auto
    then show ?thesis using "9.prems"(1)
      by (intro exI [of _ k] exI [of _ v] exI [of _ segs]) (simp add: ParsePath_child)
  next
    case False
    then show ?thesis using "9.IH"(2) "9.prems" by fastforce
  qed
qed (auto simp: is_map_def intro: leads_Nil)

text \<open>
  When no key contains a dot or a bracket, every path that \<open>LeafPaths\<close> prints is turned back by
  \<open>ParsePath\<close> into fields along which \<open>NestedValue\<close> reaches a value that is not a map.
\<close>

theorem LeafPaths_ParsePath:
  assumes "printable (AMap m)" and "q \<in> set (LeafPaths m [])"
  shows "\<exists>u. NestedValue m (ParsePath q) = Some u \<and> \<not> is_map u"
proof -
  have "q \<in> set (leaf_paths (AMap m) [])" using assms(2) by (simp add: LeafPaths_def)
  from paths_lead(1) [OF assms(1) this] show ?thesis by (simp add: leads_def NestedValue_def)
qed

theorem LeafPaths_ParsePath_witness:
  "\<exists>u. NestedValue [(''spec'', ASlice [AInt64 1, AMap [(''a'', AInt64 2)]])]
      (ParsePath ''spec[1].a'') = Some u \<and> \<not> is_map u"
proof -
  let ?m = "[(''spec'', ASlice [AInt64 1, AMap [(''a'', AInt64 2)]])]"
  have "printable (AMap ?m)" by (simp add: simple_key_def)
  moreover have "''spec[1].a'' \<in> set (LeafPaths ?m [])" by code_simp
  ultimately show ?thesis by (rule LeafPaths_ParsePath)
qed

subsection \<open>What Reorder loses\<close>

lemma item_paths_parse:
  "list_all printable xs \<Longrightarrow> q \<in> set (item_paths xs p i) \<Longrightarrow>
     \<exists>j segs. ParsePath q = ParsePath p @ show_nat j # segs"
  using paths_lead(2) by blast

lemma reorder_rest_skip:
  "(\<And>q. q \<in> set ps \<Longrightarrow> copy_path input (ParsePath q) output = Some (False, output)) \<Longrightarrow>
     reorder_rest input ps (output, included) = Some output"
  by (induction ps) auto

text \<open>
  \<open>Reorder\<close> drops slices: its readers take no index, so the paths \<open>k[i]\<close> that \<open>LeafPaths\<close>
  prints for the elements of a slice are never found, and the object with a slice as its only field
  is reordered to the empty object.
\<close>

theorem Reorder_drops_slices:
  assumes "printable (AMap [(k, ASlice xs)])"
  shows "Reorder [(k, ASlice xs)] [] = Some []"
proof -
  have k: "simple_key k" and xs: "list_all printable xs" using assms by auto
  have "copy_path [(k, ASlice xs)] (ParsePath q) [] = Some (False, [])"
    if q: "q \<in> set (item_paths xs k 0)" for q
  proof -
    obtain j segs where "ParsePath q = ParsePath k @ show_nat j # segs"
      using item_paths_parse [OF xs q] by blast
    moreover have "ParsePath k = [k]" using k ParsePath_plain(1) by (simp add: simple_key_def)
    ultimately show ?thesis
      by (simp add: copy_path_def NestedFieldCopy_def nestedFieldNoCopy_def)
  qed
  then show ?thesis
    by (simp add: Reorder_def LeafPaths_def child_path_def reorder_rest_skip)
qed

theorem Reorder_drops_slices_witness:
  "Reorder [(''a'', ASlice [AInt64 1, AInt64 2])] [] = Some []"
  by (rule Reorder_drops_slices) (simp add: simple_key_def)

end
