(* ===== verification/Kube_Objects.thy ===== *)
theory Kube_Objects
  imports Json_Maps
begin

text \<open>
  Kubernetes objects as \<open>helm/v3/reconcile.go\<close> handles them, and its pure helpers:
  \<open>infoKey\<close>, \<open>annotationOf\<close>, \<open>setAnnotation\<close>, \<open>normalizeSecretStringData\<close>, \<open>strippedJSON\<close>,
  \<open>isEmptyPatch\<close>, \<open>semanticallyChanged\<close>.

  An object is its JSON tree.  The accessors of \<open>k8s.io/apimachinery\<close> are the fields of the record
  \<open>kube_api\<close>, which every definition that calls them takes as an argument; the locale
  \<open>kube_laws\<close> states what they document, and \<open>json_api\<close> is an implementation of them by the
  readers and writers of \<open>maps\<close>, on which the locale is interpreted.  \<open>kubeJSON\<close> is the tree that
  \<open>json.Marshal\<close> followed by \<open>json.Unmarshal\<close> gives for an object, \<open>createMergePatch\<close> is
  \<open>jsonpatch.CreateMergePatch\<close>.
\<close>

section \<open>Errors\<close>

text \<open>An error, an error wrapped by \<open>fmt.Errorf\<close> with \<open>%w\<close>, and a run-time panic.\<close>

datatype gerr = GErr string | GWrap string gerr | GPanic

text \<open>\<open>fmt.Errorf\<close> with \<open>%w\<close> on the outcome of a call that may have panicked: a panic is not caught.\<close>

fun errorf :: "string \<Rightarrow> gerr \<Rightarrow> gerr" where
  "errorf m GPanic = GPanic"
| "errorf m e = GWrap m e"

section \<open>Accessors\<close>

type_synonym smap = "(string, string) gomap"

record kube_api =
  groupVersionOf :: "obj \<Rightarrow> string"
  kindOf :: "obj \<Rightarrow> string"
  apiVersionOf :: "obj \<Rightarrow> string"
  hasMeta :: "obj \<Rightarrow> bool"
  getAnnotations :: "obj \<Rightarrow> smap option"
  setAnnotations :: "obj \<Rightarrow> smap \<Rightarrow> obj"
  nestedStringMap :: "obj \<Rightarrow> string \<Rightarrow> smap option"
  setNestedMap :: "obj \<Rightarrow> string \<Rightarrow> smap \<Rightarrow> obj"
  removeNestedField :: "obj \<Rightarrow> string \<Rightarrow> obj"
  kubeJSON :: "obj \<Rightarrow> gerr + obj"
  createMergePatch :: "obj option \<Rightarrow> obj option \<Rightarrow> gerr + string"

record info =
  info_Object :: obj
  info_Namespace :: string
  info_Name :: string

definition infoKey :: "kube_api \<Rightarrow> info \<Rightarrow> string" where
  "infoKey api i =
     groupVersionOf api (info_Object i) @ ''/'' @ kindOf api (info_Object i) @ ''/'' @
     info_Namespace i @ ''/'' @ info_Name i"

definition traceparentAnnotation :: string where
  "traceparentAnnotation = ''krateo.io/traceparent''"

definition annotationOf :: "kube_api \<Rightarrow> obj \<Rightarrow> string \<Rightarrow> string" where
  "annotationOf api o' key =
     (if \<not> hasMeta api o' then []
      else case getAnnotations api o' of
             None \<Rightarrow> []
           | Some ann \<Rightarrow> (case map_of ann key of None \<Rightarrow> [] | Some v \<Rightarrow> v))"

definition setAnnotation :: "kube_api \<Rightarrow> obj \<Rightarrow> string \<Rightarrow> string \<Rightarrow> obj" where
  "setAnnotation api o' key val =
     (if \<not> hasMeta api o' then o'
      else let ann = (case getAnnotations api o' of None \<Rightarrow> [] | Some a \<Rightarrow> a)
           in setAnnotations api o' (AList.update key val ann))"

text \<open>\<open>normalizeSecretStringData\<close>; the order in which \<open>stringData\<close> is visited does not matter,
  because its keys are distinct.\<close>

definition fold_string_data :: "smap \<Rightarrow> smap \<Rightarrow> smap" where
  "fold_string_data stringData data =
     fold (\<lambda>(k, v) d. AList.update k (b64_encode v) d) stringData data"

definition normalizeSecretStringData :: "kube_api \<Rightarrow> obj \<Rightarrow> obj" where
  "normalizeSecretStringData api u =
     (if kindOf api u \<noteq> ''Secret'' \<or> apiVersionOf api u \<noteq> ''v1'' then u
      else case nestedStringMap api u ''stringData'' of
             None \<Rightarrow> u
           | Some [] \<Rightarrow> u
           | Some stringData \<Rightarrow>
               (let data = (case nestedStringMap api u ''data'' of None \<Rightarrow> [] | Some d \<Rightarrow> d);
                    u' = setNestedMap api u ''data'' (fold_string_data stringData data)
                in removeNestedField api u' ''stringData''))"

section \<open>Semantic comparison\<close>

definition delete_keys :: "string list \<Rightarrow> obj \<Rightarrow> obj" where
  "delete_keys ks m = fold AList.delete ks m"

definition update_map :: "string \<Rightarrow> (obj \<Rightarrow> obj) \<Rightarrow> obj \<Rightarrow> obj" where
  "update_map k f m =
     (case map_of m k of
        Some (AMap sub) \<Rightarrow> AList.update k (AMap (f sub)) m
      | _ \<Rightarrow> m)"

definition volatile_metadata :: "string list" where
  "volatile_metadata =
     [''resourceVersion'', ''generation'', ''uid'', ''creationTimestamp'', ''managedFields'', ''selfLink'']"

definition helm_annotations :: "string list" where
  "helm_annotations =
     [''meta.helm.sh/release-name'', ''meta.helm.sh/release-namespace'',
      ''kubectl.kubernetes.io/last-applied-configuration'']"

definition strip_metadata :: "obj \<Rightarrow> obj" where
  "strip_metadata md =
     update_map ''labels'' (delete_keys [''app.kubernetes.io/managed-by''])
       (update_map ''annotations'' (delete_keys helm_annotations)
         (delete_keys volatile_metadata md))"

definition strip_obj :: "obj \<Rightarrow> obj" where
  "strip_obj m = update_map ''metadata'' strip_metadata (AList.delete ''status'' m)"

text \<open>\<open>strippedJSON\<close>; a nil object marshals to \<open>null\<close>, which decodes to the nil map.\<close>

definition strippedJSON :: "kube_api \<Rightarrow> obj option \<Rightarrow> gerr + obj option" where
  "strippedJSON api o' =
     (case o' of
        None \<Rightarrow> Inr None
      | Some x \<Rightarrow> (case kubeJSON api x of Inl e \<Rightarrow> Inl e | Inr m \<Rightarrow> Inr (Some (strip_obj m))))"

definition isEmptyPatch :: "string \<Rightarrow> bool" where
  "isEmptyPatch patch = (let s = TrimSpace patch in s = [] \<or> s = ''{}'')"

definition semanticallyChanged :: "kube_api \<Rightarrow> obj option \<Rightarrow> obj option \<Rightarrow> gerr + bool" where
  "semanticallyChanged api before after =
     (case strippedJSON api before of
        Inl e \<Rightarrow> Inl (GWrap ''strip before'' e)
      | Inr b \<Rightarrow>
          (case strippedJSON api after of
             Inl e \<Rightarrow> Inl (GWrap ''strip after'' e)
           | Inr a \<Rightarrow>
               (case createMergePatch api b a of
                  Inl e \<Rightarrow> Inl (GWrap ''compare'' e)
                | Inr patch \<Rightarrow> Inr (\<not> isEmptyPatch patch))))"

section \<open>Equality of JSON trees\<close>

text \<open>Maps are unordered: trees are compared after sorting the entries of every map by key.\<close>

fun sort_keys :: "any \<Rightarrow> any" where
  "sort_keys (AMap m) = AMap (sort_key fst (map (\<lambda>(k, v). (k, sort_keys v)) m))"
| "sort_keys (ASlice xs) = ASlice (map sort_keys xs)"
| "sort_keys v = v"

definition json_eq :: "obj \<Rightarrow> obj \<Rightarrow> bool" where
  "json_eq a b = (sort_keys (AMap a) = sort_keys (AMap b))"

lemma json_eq_refl [simp]: "json_eq a a"
  by (simp add: json_eq_def)

lemma isEmptyPatch_braces: "isEmptyPatch ''{}''"
  by (simp add: isEmptyPatch_def TrimSpace_def is_space_def)

section \<open>What the accessors document\<close>

locale kube_laws =
  fixes api :: kube_api
  assumes get_set_annotations: "hasMeta api o' \<Longrightarrow> getAnnotations api (setAnnotations api o' a) = Some a"
    and meta_set_annotations: "hasMeta api (setAnnotations api o' a) = hasMeta api o'"
    and ident_set_annotations:
      "groupVersionOf api (setAnnotations api o' a) = groupVersionOf api o'"
      "kindOf api (setAnnotations api o' a) = kindOf api o'"
      "apiVersionOf api (setAnnotations api o' a) = apiVersionOf api o'"
    and string_map_set: "nestedStringMap api (setNestedMap api o' k m) k = Some m"
    and string_map_remove: "nestedStringMap api (removeNestedField api o' k) k = None"
    and string_map_remove_other: "k \<noteq> k' \<Longrightarrow>
      nestedStringMap api (removeNestedField api o' k) k' = nestedStringMap api o' k'"
    and ident_set_map: "k \<in> {''data'', ''stringData''} \<Longrightarrow> kindOf api (setNestedMap api o' k m) = kindOf api o'"
      "k \<in> {''data'', ''stringData''} \<Longrightarrow> apiVersionOf api (setNestedMap api o' k m) = apiVersionOf api o'"
    and ident_remove: "k \<in> {''data'', ''stringData''} \<Longrightarrow> kindOf api (removeNestedField api o' k) = kindOf api o'"
      "k \<in> {''data'', ''stringData''} \<Longrightarrow> apiVersionOf api (removeNestedField api o' k) = apiVersionOf api o'"
    and meta_set_map: "k \<in> {''data'', ''stringData''} \<Longrightarrow> groupVersionOf api (setNestedMap api o' k m) = groupVersionOf api o'"
      "k \<in> {''data'', ''stringData''} \<Longrightarrow> hasMeta api (setNestedMap api o' k m) = hasMeta api o'"
      "k \<in> {''data'', ''stringData''} \<Longrightarrow> getAnnotations api (setNestedMap api o' k m) = getAnnotations api o'"
    and meta_remove: "k \<in> {''data'', ''stringData''} \<Longrightarrow> groupVersionOf api (removeNestedField api o' k) = groupVersionOf api o'"
      "k \<in> {''data'', ''stringData''} \<Longrightarrow> hasMeta api (removeNestedField api o' k) = hasMeta api o'"
      "k \<in> {''data'', ''stringData''} \<Longrightarrow> getAnnotations api (removeNestedField api o' k) = getAnnotations api o'"
    and patch_empty: "createMergePatch api (Some d) (Some d') = Inr p \<Longrightarrow> isEmptyPatch p \<longleftrightarrow> json_eq d d'"
begin

lemma annotation_of_set: "hasMeta api o' \<Longrightarrow> annotationOf api (setAnnotation api o' k v) k = v"
  by (simp add: annotationOf_def setAnnotation_def Let_def get_set_annotations meta_set_annotations)

lemma annotation_of_set_other:
  "k' \<noteq> k \<Longrightarrow> annotationOf api (setAnnotation api o' k v) k' = annotationOf api o' k'"
  by (auto simp: annotationOf_def setAnnotation_def Let_def get_set_annotations meta_set_annotations
      split: option.splits)

lemma ident_setAnnotation [simp]:
  "groupVersionOf api (setAnnotation api o' k v) = groupVersionOf api o'"
  "kindOf api (setAnnotation api o' k v) = kindOf api o'"
  "apiVersionOf api (setAnnotation api o' k v) = apiVersionOf api o'"
  by (simp_all add: setAnnotation_def Let_def ident_set_annotations)

lemma normalize_idem:
  "normalizeSecretStringData api (normalizeSecretStringData api u) = normalizeSecretStringData api u"
proof (cases "normalizeSecretStringData api u = u")
  case False
  then obtain d where n: "normalizeSecretStringData api u =
      removeNestedField api (setNestedMap api u ''data'' d) ''stringData''"
    by (auto simp: normalizeSecretStringData_def Let_def split: if_splits option.splits list.splits)
  show ?thesis
    unfolding n by (simp add: normalizeSecretStringData_def [of api "removeNestedField api _ _"]
        string_map_remove)
qed simp

lemma normalize_data:
  assumes "kindOf api u = ''Secret''" and "apiVersionOf api u = ''v1''"
    and "nestedStringMap api u ''stringData'' = Some sd" and "sd \<noteq> []"
  shows "nestedStringMap api (normalizeSecretStringData api u) ''data'' =
      Some (fold_string_data sd
        (case nestedStringMap api u ''data'' of None \<Rightarrow> [] | Some d \<Rightarrow> d))"
    and "nestedStringMap api (normalizeSecretStringData api u) ''stringData'' = None"
  using assms
  by (auto simp: normalizeSecretStringData_def Let_def string_map_remove_other string_map_set
      string_map_remove split: list.splits)

lemma normalize_meta [simp]:
  "groupVersionOf api (normalizeSecretStringData api u) = groupVersionOf api u"
  "kindOf api (normalizeSecretStringData api u) = kindOf api u"
  "annotationOf api (normalizeSecretStringData api u) k = annotationOf api u k"
  by (auto simp: normalizeSecretStringData_def annotationOf_def Let_def meta_set_map meta_remove ident_set_map
      ident_remove split: option.splits list.splits)

lemma unchanged_iff:
  assumes "kubeJSON api b = Inr bj" and "kubeJSON api a = Inr aj"
    and "createMergePatch api (Some (strip_obj bj)) (Some (strip_obj aj)) = Inr p"
  shows "semanticallyChanged api (Some b) (Some a) = Inr (\<not> json_eq (strip_obj bj) (strip_obj aj))"
  using assms patch_empty [OF assms(3)] by (simp add: semanticallyChanged_def strippedJSON_def)

end

text \<open>The accessors implemented by path readers and writers on the JSON tree.\<close>

definition string_field :: "string \<Rightarrow> obj \<Rightarrow> string" where
  "string_field k m = (case map_of m k of Some (AString s) \<Rightarrow> s | _ \<Rightarrow> [])"

fun all_strings :: "obj \<Rightarrow> smap option" where
  "all_strings [] = Some []"
| "all_strings ((k, AString s) # m) = map_option (Cons (k, s)) (all_strings m)"
| "all_strings ((k, v) # m) = None"

definition of_strings :: "smap \<Rightarrow> obj" where
  "of_strings a = map (\<lambda>(k, s). (k, AString s)) a"

lemma all_strings_of_strings [simp]: "all_strings (of_strings a) = Some a"
  by (induction a) (auto simp: of_strings_def)

definition metadata_of :: "obj \<Rightarrow> obj option" where
  "metadata_of m = (case map_of m ''metadata'' of None \<Rightarrow> Some [] | Some (AMap md) \<Rightarrow> Some md | _ \<Rightarrow> None)"

definition string_map_at :: "obj \<Rightarrow> string \<Rightarrow> smap option" where
  "string_map_at m k = (case map_of m k of Some (AMap x) \<Rightarrow> all_strings x | _ \<Rightarrow> None)"

definition json_api :: kube_api where
  "json_api = \<lparr>
     groupVersionOf = string_field ''apiVersion'',
     kindOf = string_field ''kind'',
     apiVersionOf = string_field ''apiVersion'',
     hasMeta = (\<lambda>m. metadata_of m \<noteq> None),
     getAnnotations = (\<lambda>m. Option.bind (metadata_of m) (\<lambda>md. string_map_at md ''annotations'')),
     setAnnotations = (\<lambda>m a. case metadata_of m of None \<Rightarrow> m
        | Some md \<Rightarrow> AList.update ''metadata'' (AMap (AList.update ''annotations'' (AMap (of_strings a)) md)) m),
     nestedStringMap = string_map_at,
     setNestedMap = (\<lambda>m k x. AList.update k (AMap (of_strings x)) m),
     removeNestedField = (\<lambda>m k. AList.delete k m),
     kubeJSON = Inr,
     createMergePatch = (\<lambda>b a. Inr (if map_option (sort_keys \<circ> AMap) b = map_option (sort_keys \<circ> AMap) a
        then ''{}'' else ''{\"changed\":true}''))\<rparr>"

lemma not_empty_patch: "\<not> isEmptyPatch ''{\"changed\":true}''"
  by (simp add: isEmptyPatch_def TrimSpace_def is_space_def)

interpretation json: kube_laws json_api
proof unfold_locales
  show "createMergePatch json_api (Some d) (Some d') = Inr p \<Longrightarrow> isEmptyPatch p \<longleftrightarrow> json_eq d d'"
    for d d' p
    by (auto simp: json_api_def json_eq_def isEmptyPatch_braces not_empty_patch split: if_splits)
qed (auto simp: json_api_def metadata_of_def string_map_at_def string_field_def
    split: option.splits any.splits)

section \<open>Properties\<close>

lemma delete_keys_filter: "delete_keys ks m = filter (\<lambda>p. fst p \<notin> set ks) m"
  by (induction ks arbitrary: m) (auto simp: delete_keys_def AList.delete_eq intro!: filter_cong)

lemma filter_update: "\<not> P k \<Longrightarrow> filter (\<lambda>p. P (fst p)) (AList.update k v m) = filter (\<lambda>p. P (fst p)) m"
  by (induction m) auto

lemma delete_keys_update: "k \<in> set ks \<Longrightarrow> delete_keys ks (AList.update k v m) = delete_keys ks m"
  using filter_update [of "\<lambda>k. k \<notin> set ks" k v m] by (simp add: delete_keys_filter)

lemma delete_update_same: "AList.delete k (AList.update k v m) = AList.delete k m"
  by (induction m) auto

lemma delete_update_other:
  "k \<noteq> k' \<Longrightarrow> AList.delete k (AList.update k' v m) = AList.update k' v (AList.delete k m)"
  by (induction m) auto

text \<open>
  What the comparison is about, stated on the objects themselves: two values agree as JSON, or, where both are maps, the
  entries agree key by key, each in its own way.  Nothing is asked of the entries that the API server or Helm own.
\<close>

definition same_json :: "any option \<Rightarrow> any option \<Rightarrow> bool" where
  "same_json x y \<longleftrightarrow> map_option sort_keys x = map_option sort_keys y"

definition agree_by :: "(string \<Rightarrow> any option \<Rightarrow> any option \<Rightarrow> bool) \<Rightarrow> any option \<Rightarrow> any option \<Rightarrow> bool" where
  "agree_by R x y =
     (case (x, y) of
        (Some (AMap m), Some (AMap n)) \<Rightarrow> (\<forall>k. R k (map_of m k) (map_of n k))
      | _ \<Rightarrow> same_json x y)"

definition agree_but :: "string set \<Rightarrow> any option \<Rightarrow> any option \<Rightarrow> bool" where
  "agree_but K = agree_by (\<lambda>k x y. k \<in> K \<or> same_json x y)"

definition metadata_agrees :: "any option \<Rightarrow> any option \<Rightarrow> bool" where
  "metadata_agrees = agree_by (\<lambda>k x y.
     if k \<in> {''resourceVersion'', ''generation'', ''uid'', ''creationTimestamp'', ''managedFields'', ''selfLink''} then True
     else if k = ''annotations''
     then agree_but {''meta.helm.sh/release-name'', ''meta.helm.sh/release-namespace'', ''kubectl.kubernetes.io/last-applied-configuration''} x y
     else if k = ''labels'' then agree_but {''app.kubernetes.io/managed-by''} x y
     else same_json x y)"

definition same_object :: "obj \<Rightarrow> obj \<Rightarrow> bool" where
  "same_object b a = agree_by (\<lambda>k x y.
     if k = ''status'' then True else if k = ''metadata'' then metadata_agrees x y else same_json x y) (Some (AMap b)) (Some (AMap a))"

fun distinct_keys :: "any \<Rightarrow> bool" where
  "distinct_keys (AMap m) = (gomap_ok m \<and> (\<forall>kv \<in> set m. distinct_keys (snd kv)))"
| "distinct_keys v = True"

lemma distinct_keys_entry: "distinct_keys (AMap m) \<Longrightarrow> map_of m k = Some v \<Longrightarrow> distinct_keys v"
  by (auto dest: map_of_SomeD)

lemma sort_keys_map_iff:
  assumes "gomap_ok m" "gomap_ok n"
  shows "sort_keys (AMap m) = sort_keys (AMap n) \<longleftrightarrow> (\<forall>k. same_json (map_of m k) (map_of n k))"
proof -
  let ?f = "\<lambda>xs. map (\<lambda>(k, v). (k, sort_keys v)) xs"
  have keys: "map fst (?f xs) = map fst xs" for xs by (induction xs) auto
  have ok: "distinct (map fst (?f m))" "distinct (map fst (?f n))" using assms by (simp_all only: keys)
  have sorted_ok: "distinct (map fst (sort_key fst xs))" if "distinct (map fst xs)" for xs :: "(string \<times> any) list"
    using that by (metis distinct_map distinct_sort inj_on_def set_sort)
  have "sort_key fst (?f m) = sort_key fst (?f n) \<longleftrightarrow> set (?f m) = set (?f n)"
  proof
    assume "sort_key fst (?f m) = sort_key fst (?f n)"
    then show "set (?f m) = set (?f n)" by (metis set_sort)
  next
    assume e: "set (?f m) = set (?f n)"
    show "sort_key fst (?f m) = sort_key fst (?f n)"
      by (rule map_sorted_distinct_set_unique [of fst])
        (use e ok sorted_ok [OF ok(1)] sorted_ok [OF ok(2)] in \<open>auto simp: distinct_map\<close>)
  qed
  also have "\<dots> \<longleftrightarrow> map_of (?f m) = map_of (?f n)" using ok by (simp add: map_of_inject_set)
  also have "\<dots> \<longleftrightarrow> (\<forall>k. same_json (map_of m k) (map_of n k))" by (simp add: map_of_map fun_eq_iff same_json_def)
  finally show ?thesis by simp
qed

text \<open>A change of the maps among the values.\<close>

definition on_map :: "(obj \<Rightarrow> obj) \<Rightarrow> any option \<Rightarrow> any option" where
  "on_map f x = (case x of Some (AMap m) \<Rightarrow> Some (AMap (f m)) | _ \<Rightarrow> x)"

lemma on_map_simps [simp]: "on_map f (Some (AMap m)) = Some (AMap (f m))" "on_map f None = None" "\<forall>m. x \<noteq> Some (AMap m) \<Longrightarrow> on_map f x = x"
  by (auto simp: on_map_def split: option.splits any.splits)

lemma map_not_json: "\<forall>n. y \<noteq> Some (AMap n) \<Longrightarrow> \<not> same_json (Some (AMap m)) y \<and> \<not> same_json y (Some (AMap m))"
proof (cases y)
  case (Some v)
  moreover assume "\<forall>n. y \<noteq> Some (AMap n)"
  ultimately show ?thesis by (cases v) (auto simp: same_json_def)
qed (simp add: same_json_def)

lemma agree_by_other: "\<not> (\<exists>m n. x = Some (AMap m) \<and> y = Some (AMap n)) \<Longrightarrow> agree_by R x y = same_json x y"
proof -
  have v: "agree_by R (Some v) y = same_json (Some v) y" if "\<forall>m. v \<noteq> AMap m" for v using that by (cases v) (auto simp: agree_by_def)
  have w: "agree_by R (Some (AMap m)) (Some v) = same_json (Some (AMap m)) (Some v)" if "\<forall>n. v \<noteq> AMap n" for v m
    using that by (cases v) (auto simp: agree_by_def)
  have "agree_by R None y = same_json None y" "agree_by R (Some (AMap m)) None = same_json (Some (AMap m)) None" for m
    by (simp_all add: agree_by_def)
  with v w show "\<not> (\<exists>m n. x = Some (AMap m) \<and> y = Some (AMap n)) \<Longrightarrow> ?thesis" by (metis option.exhaust)
qed

text \<open>Comparing after a change of the maps is comparing the changed entries.\<close>

lemma same_json_changed:
  assumes "\<And>m. x = Some (AMap m) \<Longrightarrow> gomap_ok (f m)" and "\<And>n. y = Some (AMap n) \<Longrightarrow> gomap_ok (f n)"
    and "\<And>m n k. x = Some (AMap m) \<Longrightarrow> y = Some (AMap n) \<Longrightarrow> same_json (map_of (f m) k) (map_of (f n) k) \<longleftrightarrow> R k (map_of m k) (map_of n k)"
  shows "same_json (on_map f x) (on_map f y) \<longleftrightarrow> agree_by R x y"
proof (cases "\<exists>m n. x = Some (AMap m) \<and> y = Some (AMap n)")
  case True
  then obtain m n where xy: "x = Some (AMap m)" "y = Some (AMap n)" by blast
  have "same_json (Some (AMap (f m))) (Some (AMap (f n))) \<longleftrightarrow> (\<forall>k. same_json (map_of (f m) k) (map_of (f n) k))"
    unfolding sort_keys_map_iff [OF assms(1) [OF xy(1)] assms(2) [OF xy(2)], symmetric]
    by (simp only: same_json_def option.map option.inject)
  with assms(3) xy show ?thesis by (simp add: agree_by_def)
next
  case False
  then consider (none) "\<forall>m. x \<noteq> Some (AMap m)" "\<forall>m. y \<noteq> Some (AMap m)"
    | (left) m where "x = Some (AMap m)" "\<forall>m. y \<noteq> Some (AMap m)" | (right) m where "y = Some (AMap m)" "\<forall>m. x \<noteq> Some (AMap m)" by blast
  then have "same_json (on_map f x) (on_map f y) \<longleftrightarrow> same_json x y" by cases (simp_all add: map_not_json)
  with agree_by_other [OF False] show ?thesis by simp
qed

lemma map_of_update_map:
  "map_of (update_map k f m) k' =
     (if k' = k then on_map f (map_of m k) else map_of m k')"
  by (auto simp: update_map_def on_map_def split: option.splits any.splits)

lemma gomap_ok_update_map: "gomap_ok m \<Longrightarrow> gomap_ok (update_map k f m)"
  by (auto simp: update_map_def split: option.splits any.splits)

lemma map_of_delete_keys: "map_of (delete_keys ks m) k = (if k \<in> set ks then None else map_of m k)"
  by (induction m) (auto simp: delete_keys_filter)

lemma gomap_ok_delete_keys: "gomap_ok m \<Longrightarrow> gomap_ok (delete_keys ks m)"
  by (simp add: delete_keys_filter distinct_map_filter)

lemma same_json_deleted:
  assumes "\<And>v. x = Some v \<Longrightarrow> distinct_keys v" "\<And>v. y = Some v \<Longrightarrow> distinct_keys v"
  shows "same_json (on_map (delete_keys ks) x) (on_map (delete_keys ks) y) \<longleftrightarrow> agree_but (set ks) x y"
  unfolding agree_but_def
  by (rule same_json_changed) (use assms in \<open>auto simp: map_of_delete_keys gomap_ok_delete_keys same_json_def\<close>)

lemma same_json_metadata:
  assumes "\<And>v. x = Some v \<Longrightarrow> distinct_keys v" "\<And>v. y = Some v \<Longrightarrow> distinct_keys v"
  shows "same_json (on_map strip_metadata x) (on_map strip_metadata y) \<longleftrightarrow> metadata_agrees x y"
  unfolding metadata_agrees_def
proof (rule same_json_changed)
  fix m n k
  assume xy: "x = Some (AMap m)" "y = Some (AMap n)"
  have entries: "map_of m k' = Some v \<Longrightarrow> distinct_keys v" "map_of n k' = Some v \<Longrightarrow> distinct_keys v" for k' v
    using assms xy distinct_keys_entry by blast+
  have sub: "same_json (on_map (delete_keys ks) (map_of m k')) (on_map (delete_keys ks) (map_of n k')) \<longleftrightarrow>
      agree_but (set ks) (map_of m k') (map_of n k')" for ks k'
    using same_json_deleted [of "map_of m k'" "map_of n k'"] entries by blast
  show "same_json (map_of (strip_metadata m) k) (map_of (strip_metadata n) k) \<longleftrightarrow>
    (if k \<in> {''resourceVersion'', ''generation'', ''uid'', ''creationTimestamp'', ''managedFields'', ''selfLink''} then True
     else if k = ''annotations''
     then agree_but {''meta.helm.sh/release-name'', ''meta.helm.sh/release-namespace'', ''kubectl.kubernetes.io/last-applied-configuration''}
       (map_of m k) (map_of n k)
     else if k = ''labels'' then agree_but {''app.kubernetes.io/managed-by''} (map_of m k) (map_of n k)
     else same_json (map_of m k) (map_of n k))"
    using sub [of "helm_annotations" "''annotations''"] sub [of "[''app.kubernetes.io/managed-by'']" "''labels''"]
    by (auto simp: strip_metadata_def map_of_update_map map_of_delete_keys volatile_metadata_def helm_annotations_def same_json_def [of None])
qed (use assms in \<open>auto simp: strip_metadata_def gomap_ok_update_map gomap_ok_delete_keys\<close>)

lemma strip_obj_agrees:
  assumes "distinct_keys (AMap b)" "distinct_keys (AMap a)"
  shows "json_eq (strip_obj b) (strip_obj a) \<longleftrightarrow> same_object b a"
proof -
  have "gomap_ok (strip_obj m)" if "gomap_ok m" for m using that by (simp add: strip_obj_def gomap_ok_update_map)
  then have "gomap_ok (strip_obj b)" "gomap_ok (strip_obj a)" using assms by simp_all
  from sort_keys_map_iff [OF this]
  have "json_eq (strip_obj b) (strip_obj a) \<longleftrightarrow> (\<forall>k. same_json (map_of (strip_obj b) k) (map_of (strip_obj a) k))"
    unfolding json_eq_def .
  moreover have "same_json (map_of (strip_obj b) k) (map_of (strip_obj a) k) \<longleftrightarrow>
      (if k = ''status'' then True else if k = ''metadata'' then metadata_agrees (map_of b k) (map_of a k) else same_json (map_of b k) (map_of a k))" for k
    using same_json_metadata [OF distinct_keys_entry [OF assms(1), of "''metadata''"] distinct_keys_entry [OF assms(2), of "''metadata''"]]
    by (auto simp: strip_obj_def map_of_update_map delete_conv same_json_def [of None])
  ultimately show ?thesis by (simp add: same_object_def agree_by_def)
qed

text \<open>
  C38: change detection ignores exactly what the server and Helm own.  When both snapshots can be decoded, with distinct
  keys in every map, and compared, \<open>semanticallyChanged\<close> reports no change exactly when the two objects agree in every
  field but these: \<open>status\<close>; in the metadata \<open>resourceVersion\<close>, \<open>generation\<close>, \<open>uid\<close>, \<open>creationTimestamp\<close>, \<open>managedFields\<close> and
  \<open>selfLink\<close>; the two release annotations of Helm and the last applied configuration; and the managed-by label.
\<close>

theorem semanticallyChanged_iff:
  assumes "kube_laws api" and "kubeJSON api b = Inr bj" and "kubeJSON api a = Inr aj"
    and "distinct_keys (AMap bj)" "distinct_keys (AMap aj)"
    and "createMergePatch api (Some (strip_obj bj)) (Some (strip_obj aj)) = Inr p"
  shows "semanticallyChanged api (Some b) (Some a) = Inr (\<not> same_object bj aj)"
  using kube_laws.unchanged_iff [OF assms(1-3,6)] strip_obj_agrees [OF assms(4,5)] by simp

theorem semanticallyChanged_iff_witness:
  "semanticallyChanged json_api
     (Some [(''metadata'', AMap [(''uid'', AString ''1'')])])
     (Some [(''metadata'', AMap [(''uid'', AString ''2'')]), (''status'', AMap [])])
   = Inr False"
proof -
  let ?b = "[(''metadata'', AMap [(''uid'', AString ''1'')])]" and ?a = "[(''metadata'', AMap [(''uid'', AString ''2'')]), (''status'', AMap [])]"
  obtain p where p: "createMergePatch json_api (Some (strip_obj ?b)) (Some (strip_obj ?a)) = Inr p" by (simp add: json_api_def)
  have "kubeJSON json_api x = Inr x" for x by (simp add: json_api_def)
  moreover have "same_object ?b ?a" by (simp add: same_object_def agree_by_def metadata_agrees_def agree_but_def same_json_def)
  ultimately show ?thesis using semanticallyChanged_iff [OF json.kube_laws_axioms _ _ _ _ p] by simp
qed

text \<open>
  Folding \<open>stringData\<close> mirrors what the API server stores.  On a core Secret with
  \<open>stringData\<close> the result carries, for every key, the base64 form of its \<open>stringData\<close> value if it
  has one and the former \<open>data\<close> value otherwise, and no \<open>stringData\<close>; doing it again changes nothing,
  so the rendered Secret equals its stored form on the next reconcile.
\<close>

theorem normalizeSecretStringData_fold:
  assumes "kube_laws api" and "kindOf api u = ''Secret''" and "apiVersionOf api u = ''v1''"
    and "nestedStringMap api u ''stringData'' = Some sd" and "sd \<noteq> []" and "gomap_ok sd"
  shows "\<exists>d. nestedStringMap api (normalizeSecretStringData api u) ''data'' = Some d \<and>
      (\<forall>k. map_of d k = (case map_of sd k of
          Some v \<Rightarrow> Some (b64_encode v)
        | None \<Rightarrow> Option.bind (nestedStringMap api u ''data'') (\<lambda>d0. map_of d0 k))) \<and>
      nestedStringMap api (normalizeSecretStringData api u) ''stringData'' = None \<and>
      normalizeSecretStringData api (normalizeSecretStringData api u) = normalizeSecretStringData api u"
proof -
  have fold: "map_of (fold_string_data sd d0) k =
      (case map_of sd k of Some v \<Rightarrow> Some (b64_encode v) | None \<Rightarrow> map_of d0 k)"
    if "gomap_ok sd" for sd d0 k
    using that
  proof (induction sd arbitrary: d0)
    case (Cons p sd)
    obtain k' v where p: "p = (k', v)" by (cases p)
    have "map_of sd k' = None" using Cons.prems p by (auto simp: map_of_eq_None_iff)
    with Cons p show ?case
      by (auto simp: fold_string_data_def split: option.splits)
  qed (simp add: fold_string_data_def)
  let ?d0 = "case nestedStringMap api u ''data'' of None \<Rightarrow> [] | Some d \<Rightarrow> d"
  show ?thesis
    using kube_laws.normalize_data [OF assms(1-5)] kube_laws.normalize_idem [OF assms(1), of u]
      fold [OF assms(6), of ?d0]
    by (intro exI [of _ "fold_string_data sd ?d0"]) (auto split: option.splits)
qed

theorem normalizeSecretStringData_fold_witness:
  "normalizeSecretStringData json_api (normalizeSecretStringData json_api
     [(''apiVersion'', AString ''v1''), (''kind'', AString ''Secret''),
      (''stringData'', AMap [(''k'', AString ''hi'')])]) =
   normalizeSecretStringData json_api
     [(''apiVersion'', AString ''v1''), (''kind'', AString ''Secret''),
      (''stringData'', AMap [(''k'', AString ''hi'')])]"
proof -
  let ?u = "[(''apiVersion'', AString ''v1''), (''kind'', AString ''Secret''),
      (''stringData'', AMap [(''k'', AString ''hi'')])]"
  have "kindOf json_api ?u = ''Secret''" and "apiVersionOf json_api ?u = ''v1''"
    and "nestedStringMap json_api ?u ''stringData'' = Some [(''k'', ''hi'')]"
    by (simp_all add: json_api_def string_field_def string_map_at_def)
  from normalizeSecretStringData_fold [OF json.kube_laws_axioms this] show ?thesis by auto
qed

end
