(* ===== verification/Post_Render.thy ===== *)
theory Post_Render
  imports Kube_Objects Kube_Types
begin

text \<open>
  Post-rendering of manifests and the values of a composition.

  \<open>helm/v3/postrender_validation.go\<close>: \<open>chain_Run\<close> (\<open>postRendererChain.Run\<close>), \<open>validator_Run\<close>
  (\<open>duplicateResourceValidator.Run\<close>), \<open>withDuplicateResourceValidation\<close>, \<open>renderedResourceKey\<close>.
  \<open>helm/utils/postrenderer.go\<close>: \<open>isKrateoAPIGroup\<close>, \<open>LabelPostRenderFromSpec\<close>, \<open>WithTraceparent\<close>,
  \<open>labels_Run\<close> (\<open>LabelsPostRender.Run\<close>).  \<open>helm/utils/values.go\<close>: \<open>ValuesFromSpec\<close>,
  \<open>InjectGlobalValues\<close>.

  A buffer is a string or nil; a post-renderer maps a buffer to a buffer and an error, as the Go
  interface does.  The YAML parser and printer, the accessors of a YAML node, the builder of resource
  lists and the pluralizer are third-party code and arguments.  The locale \<open>node_laws\<close> states what the
  node accessors document; it is interpreted on accessors over the JSON tree.
\<close>

section \<open>Validation of duplicates\<close>

type_synonym buffer = "string option"
type_synonym post_renderer = "buffer \<Rightarrow> buffer \<times> gerr option"

text \<open>A nil renderer is skipped; a failing one decides the result.\<close>

fun chain_Run :: "post_renderer option list \<Rightarrow> post_renderer" where
  "chain_Run [] cur = (cur, None)"
| "chain_Run (None # rs) cur = chain_Run rs cur"
| "chain_Run (Some r # rs) cur =
     (let (modified, err) = r cur in
      if err \<noteq> None then (modified, err)
      else if modified = None then (None, Some (GErr ''post renderer returned a nil manifest buffer''))
      else chain_Run rs modified)"

definition renderedResourceKey :: "kube_api \<Rightarrow> info \<Rightarrow> string" where
  "renderedResourceKey api i =
     groupVersionOf api (info_Object i) @ ''/'' @ kindOf api (info_Object i) @ ''/'' @
     info_Namespace i @ ''/'' @ info_Name i"

text \<open>The visit; an entry without an object is skipped.\<close>

fun visit_unique :: "kube_api \<Rightarrow> info option list \<Rightarrow> string list \<Rightarrow> gerr option" where
  "visit_unique api [] seen = None"
| "visit_unique api (None # is) seen = visit_unique api is seen"
| "visit_unique api (Some i # is) seen =
     (let key = renderedResourceKey api i in
      if key \<in> set seen then Some (GErr (''rendered manifest contains duplicate resource '' @ key))
      else visit_unique api is (key # seen))"

definition validator_Run ::
  "kube_api \<Rightarrow> (string \<Rightarrow> bool \<Rightarrow> gerr + info option list) option \<Rightarrow> post_renderer" where
  "validator_Run api kubeClient renderedManifests =
     (case (kubeClient, renderedManifests) of
        (Some build, Some m) \<Rightarrow>
          (case build m False of
             Inl e \<Rightarrow> (renderedManifests, Some (GWrap ''failed to build rendered manifests'' e))
           | Inr resources \<Rightarrow> (renderedManifests, visit_unique api resources []))
      | _ \<Rightarrow> (renderedManifests, None))"

definition withDuplicateResourceValidation ::
  "kube_api \<Rightarrow> post_renderer option \<Rightarrow> (string \<Rightarrow> bool \<Rightarrow> gerr + info option list) option \<Rightarrow> post_renderer" where
  "withDuplicateResourceValidation api renderer kubeClient =
     (case renderer of
        None \<Rightarrow> validator_Run api kubeClient
      | Some r \<Rightarrow> chain_Run [Some r, Some (validator_Run api kubeClient)])"

section \<open>Labels and the trace context\<close>

definition isKrateoAPIGroup :: "string \<Rightarrow> bool" where
  "isKrateoAPIGroup apiVersion =
     (let group' = (case IndexByte apiVersion (CHR ''/'') of Some i \<Rightarrow> take i apiVersion | None \<Rightarrow> apiVersion)
      in group' = ''krateo.io'' \<or> HasSuffix group' ''.krateo.io'')"

record gvr =
  gvr_group :: string
  gvr_version :: string
  gvr_resource :: string

record LabelsPostRender =
  lpr_UID :: string
  lpr_CompositionGVR :: gvr
  lpr_CompositionName :: string
  lpr_CompositionNamespace :: string
  lpr_CompositionGVK :: gvk
  lpr_KrateoNamespace :: string
  lpr_Traceparent :: string
  lpr_Tracestate :: string

text \<open>The composition object, as far as this package reads it.\<close>

record composition =
  comp_gvk :: gvk
  comp_apiVersion :: string
  comp_uid :: string
  comp_name :: string
  comp_namespace :: string
  comp_annotations :: smap
  comp_content :: obj

definition LabelPostRenderFromSpec ::
  "composition \<Rightarrow> (gvk \<Rightarrow> gerr + gvr) \<Rightarrow> string \<Rightarrow> gerr + LabelsPostRender" where
  "LabelPostRenderFromSpec mg pluralizer krateoNamespace =
     (case pluralizer (comp_gvk mg) of
        Inl e \<Rightarrow> Inl (GWrap ''failed to get GVR from GVK'' e)
      | Inr r \<Rightarrow> Inr \<lparr>lpr_UID = comp_uid mg, lpr_CompositionGVR = r, lpr_CompositionName = comp_name mg,
                      lpr_CompositionNamespace = comp_namespace mg, lpr_CompositionGVK = comp_gvk mg,
                      lpr_KrateoNamespace = krateoNamespace, lpr_Traceparent = [], lpr_Tracestate = []\<rparr>)"

definition WithTraceparent :: "LabelsPostRender \<Rightarrow> string \<Rightarrow> string \<Rightarrow> LabelsPostRender" where
  "WithTraceparent r traceparent tracestate = r\<lparr>lpr_Traceparent := traceparent, lpr_Tracestate := tracestate\<rparr>"

record node_api =
  node_labels :: "obj \<Rightarrow> smap option"
  set_node_labels :: "obj \<Rightarrow> smap \<Rightarrow> obj"
  node_annotations :: "obj \<Rightarrow> smap option"
  set_node_annotations :: "obj \<Rightarrow> smap \<Rightarrow> obj"
  node_apiVersion :: "obj \<Rightarrow> string"
  kio_FromBytes :: "string \<Rightarrow> gerr + obj list"
  kio_StringAll :: "obj list \<Rightarrow> gerr + string"

definition composition_labels :: "LabelsPostRender \<Rightarrow> smap" where
  "composition_labels r =
     [(''krateo.io/composition-id'', lpr_UID r),
      (''krateo.io/composition-group'', gvr_group (lpr_CompositionGVR r)),
      (''krateo.io/composition-installed-version'', gvr_version (lpr_CompositionGVR r)),
      (''krateo.io/composition-resource'', gvr_resource (lpr_CompositionGVR r)),
      (''krateo.io/composition-name'', lpr_CompositionName r),
      (''krateo.io/composition-namespace'', lpr_CompositionNamespace r),
      (''krateo.io/composition-kind'', gvk_kind (lpr_CompositionGVK r)),
      (''krateo.io/krateo-namespace'', lpr_KrateoNamespace r)]"

definition nil_empty :: "smap option \<Rightarrow> smap" where
  "nil_empty m = (case m of None \<Rightarrow> [] | Some x \<Rightarrow> x)"

definition put_all :: "smap \<Rightarrow> smap \<Rightarrow> smap" where
  "put_all new m = fold (\<lambda>(k, v). AList.update k v) new m"

definition trace_annotations :: "LabelsPostRender \<Rightarrow> smap" where
  "trace_annotations r =
     (''krateo.io/traceparent'', lpr_Traceparent r) #
     (if lpr_Tracestate r \<noteq> [] then [(''krateo.io/tracestate'', lpr_Tracestate r)] else [])"

definition stamp_node :: "node_api \<Rightarrow> LabelsPostRender \<Rightarrow> obj \<Rightarrow> obj" where
  "stamp_node api r v =
     (let v1 = set_node_labels api v (put_all (composition_labels r) (nil_empty (node_labels api v))) in
      if lpr_Traceparent r \<noteq> [] \<and> isKrateoAPIGroup (node_apiVersion api v1)
      then set_node_annotations api v1 (put_all (trace_annotations r) (nil_empty (node_annotations api v1)))
      else v1)"

text \<open>A nil buffer reads as the empty string.\<close>

definition labels_Run :: "node_api \<Rightarrow> LabelsPostRender \<Rightarrow> post_renderer" where
  "labels_Run api r renderedManifests =
     (case kio_FromBytes api (case renderedManifests of None \<Rightarrow> [] | Some m \<Rightarrow> m) of
        Inl e \<Rightarrow> (renderedManifests, Some (GWrap ''failed to parse rendered manifests'' e))
      | Inr nodes \<Rightarrow>
          (case kio_StringAll api (map (stamp_node api r) nodes) of
             Inl e \<Rightarrow> (renderedManifests, Some (GWrap ''failed to convert nodes to string'' e))
           | Inr str \<Rightarrow> (Some str, None)))"

section \<open>Values of a composition\<close>

text \<open>No values and no error for a nil object; the readers of \<open>maps\<close> may fail or panic.\<close>

definition ValuesFromSpec :: "composition option \<Rightarrow> gerr + obj option" where
  "ValuesFromSpec un =
     (case un of
        None \<Rightarrow> Inr None
      | Some u \<Rightarrow>
          (case NestedMap (comp_content u) [''spec''] of
             None \<Rightarrow> Inl GPanic
           | Some (NFound (AMap spec)) \<Rightarrow> Inr (Some spec)
           | Some (NFound v) \<Rightarrow> Inr None
           | Some NMissing \<Rightarrow> Inl (GErr ''spec field not found in unstructured object'')
           | Some (NError path) \<Rightarrow> Inl (GErr ''accessor error'')))"

definition gracefullyPaused :: "composition \<Rightarrow> string" where
  "gracefullyPaused mg =
     (if map_of (comp_annotations mg) ''krateo.io/gracefully-paused'' = Some ''true'' then ''true'' else ''false'')"

definition global_values :: "composition \<Rightarrow> gvr \<Rightarrow> string \<Rightarrow> obj" where
  "global_values mg r krateoNamespace =
     [(''compositionName'', AString (comp_name mg)),
      (''compositionNamespace'', AString (comp_namespace mg)),
      (''compositionId'', AString (comp_uid mg)),
      (''compositionApiVersion'', AString (comp_apiVersion mg)),
      (''compositionGroup'', AString (gvr_group r)),
      (''compositionKind'', AString (gvk_kind (comp_gvk mg))),
      (''compositionResource'', AString (gvr_resource r)),
      (''compositionInstalledVersion'', AString (gvr_version r)),
      (''gracefullyPaused'', AString (gracefullyPaused mg)),
      (''krateoNamespace'', AString krateoNamespace)]"

text \<open>Writing into nil values panics.\<close>

definition InjectGlobalValues ::
  "obj option \<Rightarrow> composition \<Rightarrow> (gvk \<Rightarrow> gerr + gvr) \<Rightarrow> string \<Rightarrow> gerr + obj" where
  "InjectGlobalValues values mg pluralizer krateoNamespace =
     (case pluralizer (comp_gvk mg) of
        Inl e \<Rightarrow> Inl e
      | Inr r \<Rightarrow>
          (case values of
             None \<Rightarrow> Inl GPanic
           | Some v \<Rightarrow>
               (case SetNestedField v (AMap (global_values mg r krateoNamespace)) [''global''] of
                  Done v' \<Rightarrow> Inr v'
                | Failed e \<Rightarrow> Inl (GWrap ''failed to set global values'' (GErr e))
                | Panic \<Rightarrow> Inl GPanic)))"

section \<open>Properties\<close>

lemma visit_unique_iff:
  "visit_unique api is seen = None \<longleftrightarrow>
     distinct (map (renderedResourceKey api) (List.map_filter id is)) \<and>
     set (map (renderedResourceKey api) (List.map_filter id is)) \<inter> set seen = {}"
  by (induction api "is" seen rule: visit_unique.induct) (auto simp: Let_def map_filter_simps)

text \<open>
  C39: the validation appended to a chart's post-renderer is exact.  The combined renderer succeeds if and
  only if the inner renderer succeeds with a non-nil manifest, that manifest can be built, and no two
  of its resources share group, version, kind, namespace and name; and then the manifest is the inner
  renderer's, unchanged.
\<close>

theorem duplicate_validation_exact:
  "withDuplicateResourceValidation api (Some r) (Some build) m = (out, None) \<longleftrightarrow>
     (\<exists>m' infos. r m = (Some m', None) \<and> out = Some m' \<and> build m' False = Inr infos \<and>
        distinct (map (renderedResourceKey api) (List.map_filter id infos)))"
  by (cases "r m") (auto simp: withDuplicateResourceValidation_def validator_Run_def visit_unique_iff Let_def
      split: option.splits sum.splits)

locale node_laws =
  fixes api :: node_api
  assumes labels_set: "node_labels api (set_node_labels api v l) = Some l"
    and labels_set_annotations: "node_labels api (set_node_annotations api v a) = node_labels api v"
    and annotations_set: "node_annotations api (set_node_annotations api v a) = Some a"
    and annotations_set_labels: "node_annotations api (set_node_labels api v l) = node_annotations api v"
    and apiVersion_set_labels: "node_apiVersion api (set_node_labels api v l) = node_apiVersion api v"
begin

lemma stamp_labels:
  "node_labels api (stamp_node api r v) = Some (put_all (composition_labels r) (nil_empty (node_labels api v)))"
  by (simp add: stamp_node_def Let_def labels_set labels_set_annotations)

lemma stamp_annotations:
  "node_annotations api (stamp_node api r v) =
     (if lpr_Traceparent r \<noteq> [] \<and> isKrateoAPIGroup (node_apiVersion api v)
      then Some (put_all (trace_annotations r) (nil_empty (node_annotations api v)))
      else node_annotations api v)"
  by (simp add: stamp_node_def Let_def annotations_set annotations_set_labels apiVersion_set_labels)

end

lemma put_all_lookup:
  "gomap_ok new \<Longrightarrow> map_of (put_all new m) k = (case map_of new k of Some v \<Rightarrow> Some v | None \<Rightarrow> map_of m k)"
proof (induction new arbitrary: m)
  case (Cons p new)
  obtain k' v where p: "p = (k', v)" by (cases p)
  have "map_of new k' = None" using Cons.prems p by (auto simp: map_of_eq_None_iff)
  with Cons p show ?case by (auto simp: put_all_def split: option.splits)
qed (simp add: put_all_def)

lemma composition_labels_ok: "gomap_ok (composition_labels r)"
  by (simp add: composition_labels_def)

lemma trace_annotations_ok: "gomap_ok (trace_annotations r)"
  by (simp add: trace_annotations_def)

text \<open>Accessors over the JSON tree; the printer and parser carry one node.\<close>

definition json_nodes :: node_api where
  "json_nodes = \<lparr>
     node_labels = (\<lambda>v. string_map_at v ''labels''),
     set_node_labels = (\<lambda>v l. AList.update ''labels'' (AMap (of_strings l)) v),
     node_annotations = (\<lambda>v. string_map_at v ''annotations''),
     set_node_annotations = (\<lambda>v a. AList.update ''annotations'' (AMap (of_strings a)) v),
     node_apiVersion = string_field ''apiVersion'',
     kio_FromBytes = (\<lambda>m. Inr [[(''apiVersion'', AString m)]]),
     kio_StringAll = (\<lambda>ns. Inr ''out'')\<rparr>"

interpretation jnodes: node_laws json_nodes
  by unfold_locales (auto simp: json_nodes_def string_map_at_def string_field_def split: option.splits any.splits)

text \<open>
  The label post-renderer.  Every rendered node gets the eight composition labels, its other labels
  are kept; the trace annotations are stamped exactly on nodes of a Krateo API group, and only when a
  traceparent is set; every other node keeps its annotations as they were.
\<close>

theorem labels_Run_stamps:
  assumes "node_laws api" and "kio_FromBytes api m = Inr nodes"
    and "labels_Run api r (Some m) = (Some out, None)"
  shows "\<exists>nodes'. kio_StringAll api nodes' = Inr out \<and> length nodes' = length nodes \<and>
    (\<forall>n<length nodes. \<forall>k.
       map_of (nil_empty (node_labels api (nodes' ! n))) k =
         (case map_of (composition_labels r) k of
            Some x \<Rightarrow> Some x | None \<Rightarrow> map_of (nil_empty (node_labels api (nodes ! n))) k) \<and>
       (if lpr_Traceparent r \<noteq> [] \<and> isKrateoAPIGroup (node_apiVersion api (nodes ! n))
        then map_of (nil_empty (node_annotations api (nodes' ! n))) k =
          (case map_of (trace_annotations r) k of
             Some x \<Rightarrow> Some x | None \<Rightarrow> map_of (nil_empty (node_annotations api (nodes ! n))) k)
        else node_annotations api (nodes' ! n) = node_annotations api (nodes ! n)))"
proof -
  let ?nodes = "map (stamp_node api r) nodes"
  have "kio_StringAll api ?nodes = Inr out"
    using assms(2,3) by (auto simp: labels_Run_def split: sum.splits)
  then show ?thesis
    by (intro exI [of _ ?nodes])
      (simp add: node_laws.stamp_labels [OF assms(1)] node_laws.stamp_annotations [OF assms(1)]
        nil_empty_def [of "Some _"] put_all_lookup [OF composition_labels_ok] put_all_lookup [OF trace_annotations_ok])
qed

definition example_labels :: LabelsPostRender where
  "example_labels = \<lparr>lpr_UID = ''u'', lpr_CompositionGVR = \<lparr>gvr_group = ''g'', gvr_version = ''v'', gvr_resource = ''r''\<rparr>,
     lpr_CompositionName = ''n'', lpr_CompositionNamespace = ''ns'',
     lpr_CompositionGVK = \<lparr>gvk_group = ''g'', gvk_version = ''v'', gvk_kind = ''K''\<rparr>,
     lpr_KrateoNamespace = ''krateo'', lpr_Traceparent = ''tp'', lpr_Tracestate = ''ts''\<rparr>"

theorem labels_Run_stamps_witness:
  "labels_Run json_nodes example_labels (Some ''core.krateo.io/v1'') = (Some ''out'', None) \<and>
   isKrateoAPIGroup ''core.krateo.io/v1'' \<and> \<not> isKrateoAPIGroup ''apps/v1''"
proof -
  have run: "kio_FromBytes json_nodes ''core.krateo.io/v1'' = Inr [[(''apiVersion'', AString ''core.krateo.io/v1'')]]"
    "labels_Run json_nodes example_labels (Some ''core.krateo.io/v1'') = (Some ''out'', None)"
    by (simp_all add: labels_Run_def json_nodes_def)
  from labels_Run_stamps [OF jnodes.node_laws_axioms run] run show ?thesis
    by (simp add: isKrateoAPIGroup_def HasSuffix_def)
qed

text \<open>
  Injecting the global values changes the key \<open>global\<close> only, to the ten values of the composition,
  and never fails on non-nil values once the resource name is resolved; the values of \<open>spec\<close> that
  \<open>ValuesFromSpec\<close> read stay as they were under every other key.
\<close>

theorem InjectGlobalValues_frame:
  assumes "pluralizer (comp_gvk mg) = Inr r"
  shows "\<exists>v'. InjectGlobalValues (Some v) mg pluralizer ns = Inr v' \<and>
    map_of v' ''global'' = Some (AMap (global_values mg r ns)) \<and>
    (\<forall>k. k \<noteq> ''global'' \<longrightarrow> map_of v' k = map_of v k)"
proof -
  have "deepCopyJSONValue (AMap (global_values mg r ns)) = Some (AMap (global_values mg r ns))"
    by (simp add: global_values_def)
  with assms show ?thesis
    by (simp add: InjectGlobalValues_def SetNestedField_def setNestedFieldNoCopy_def)
qed

theorem InjectGlobalValues_frame_witness:
  "\<exists>v'. InjectGlobalValues (Some [(''replicas'', AInt64 2)])
      \<lparr>comp_gvk = \<lparr>gvk_group = ''g'', gvk_version = ''v'', gvk_kind = ''K''\<rparr>, comp_apiVersion = ''g/v'', comp_uid = ''u'',
       comp_name = ''n'', comp_namespace = ''ns'', comp_annotations = [], comp_content = []\<rparr>
      (\<lambda>g. Inr \<lparr>gvr_group = gvk_group g, gvr_version = gvk_version g, gvr_resource = ''ks''\<rparr>) ''krateo'' = Inr v' \<and>
    map_of v' ''replicas'' = Some (AInt64 2)"
  using InjectGlobalValues_frame
    [of "\<lambda>g. Inr \<lparr>gvr_group = gvk_group g, gvr_version = gvk_version g, gvr_resource = ''ks''\<rparr>"
      "\<lparr>comp_gvk = \<lparr>gvk_group = ''g'', gvk_version = ''v'', gvk_kind = ''K''\<rparr>, comp_apiVersion = ''g/v'', comp_uid = ''u'',
       comp_name = ''n'', comp_namespace = ''ns'', comp_annotations = [], comp_content = []\<rparr>" _
      "[(''replicas'', AInt64 2)]" "''krateo''", OF refl]
  by auto

end
