(* ===== verification/Helm_Config.thy ===== *)
theory Helm_Config
  imports Post_Render
begin

text \<open>
  The configuration layer of the Helm client: the types of \<open>helm/helm.go\<close> and the functions of
  \<open>helm/v3/config.go\<close> that copy a configuration onto the action objects of the Helm SDK.

  The action objects (\<open>action.Install\<close>, \<open>action.Upgrade\<close>, ...) belong to the SDK; the records
  \<open>install_client\<close>, \<open>upgrade_client\<close>, ... hold the fields that \<open>config.go\<close> writes, with the three
  value-reuse flags of \<open>action.Upgrade\<close> that it does not write.  A REST configuration is an opaque handle.
\<close>

section \<open>helm.go\<close>

type_synonym rest_config = string

datatype dry_run = DryRunNone | DryRunClient | DryRunServer

record action_config =
  ac_ChartVersion :: string
  ac_ChartName :: string
  ac_Values :: "obj option"
  ac_Description :: string
  ac_Timeout :: duration
  ac_Wait :: bool
  ac_WaitForJobs :: bool
  ac_Atomic :: bool
  ac_PostRenderer :: "post_renderer option"
  ac_Labels :: "smap option"
  ac_Replace :: bool
  ac_Force :: bool
  ac_DryRun :: dry_run
  ac_TakeOwnership :: bool
  ac_SkipSchemaValidation :: bool
  ac_SkipCRDs :: bool
  ac_Verify :: bool
  ac_NoHooks :: bool
  ac_DependencyUpdate :: bool
  ac_Devel :: bool
  ac_IncludeCRDs :: bool
  ac_SubNotes :: bool
  ac_HideNotes :: bool
  ac_EnableDNS :: bool
  ac_InsecureSkipTLSverify :: bool
  ac_Username :: string
  ac_Password :: string
  ac_PassCredentialsAll :: bool
  ac_Verbose :: bool

text \<open>The zero value, which an operation uses when the caller passes none.\<close>

definition zero_action_config :: action_config where
  "zero_action_config = \<lparr>
     ac_ChartVersion = [], ac_ChartName = [], ac_Values = None, ac_Description = [], ac_Timeout = 0,
     ac_Wait = False, ac_WaitForJobs = False, ac_Atomic = False, ac_PostRenderer = None, ac_Labels = None,
     ac_Replace = False, ac_Force = False, ac_DryRun = DryRunNone, ac_TakeOwnership = False,
     ac_SkipSchemaValidation = False, ac_SkipCRDs = False, ac_Verify = False, ac_NoHooks = False,
     ac_DependencyUpdate = False, ac_Devel = False, ac_IncludeCRDs = False, ac_SubNotes = False,
     ac_HideNotes = False, ac_EnableDNS = False, ac_InsecureSkipTLSverify = False,
     ac_Username = [], ac_Password = [], ac_PassCredentialsAll = False, ac_Verbose = False\<rparr>"

record install_config =
  ic_ActionConfig :: "action_config option"
  ic_Namespace :: string
  ic_RestConfig :: "rest_config option"
  ic_GenerateName :: bool
  ic_CreateNamespace :: bool

record upgrade_config =
  uc_ActionConfig :: "action_config option"
  uc_Install :: bool
  uc_MaxHistory :: int
  uc_ResetValues :: bool
  uc_ReuseValues :: bool
  uc_ResetThenReuseValues :: bool

record rollback_config =
  rc_ReleaseVersion :: int
  rc_Timeout :: duration
  rc_Wait :: bool
  rc_WaitForJobs :: bool
  rc_DisableHooks :: bool
  rc_DryRun :: bool
  rc_Recreate :: bool
  rc_Force :: bool
  rc_CleanupOnFail :: bool
  rc_MaxHistory :: int

record uninstall_config =
  nc_DisableHooks :: bool
  nc_DryRun :: bool
  nc_IgnoreNotFound :: bool
  nc_KeepHistory :: bool
  nc_Wait :: bool
  nc_DeletionPropagation :: string
  nc_Timeout :: duration
  nc_Description :: string

record list_config =
  lc_All :: bool
  lc_AllNamespaces :: bool
  lc_Sort :: nat
  lc_ByDate :: bool
  lc_SortReverse :: bool
  lc_StateMask :: nat
  lc_Limit :: int
  lc_Offset :: int
  lc_Filter :: string
  lc_Short :: bool
  lc_NoHeaders :: bool
  lc_TimeFormat :: string
  lc_Uninstalled :: bool
  lc_Superseded :: bool
  lc_Uninstalling :: bool
  lc_Deployed :: bool
  lc_Failed :: bool
  lc_Pending :: bool
  lc_Selector :: string

text \<open>The release wrapper and the result of a reconcile.\<close>

record release =
  rel_Name :: string
  rel_Namespace :: string
  rel_Revision :: int
  rel_ChartVersion :: string
  rel_Status :: string
  rel_Values :: "obj option"
  rel_Manifest :: string
  rel_Updated :: instant

definition release_String :: "release \<Rightarrow> string" where
  "release_String r =
     ''Release{Name: '' @ rel_Name r @ '', Namespace: '' @ rel_Namespace r @ '', Revision: '' @
     Itoa (rel_Revision r) @ '', ChartVersion: '' @ rel_ChartVersion r @ '', Status: '' @ rel_Status r @ ''}''"

record reconcile_result =
  rr_Changed :: bool
  rr_Created :: nat
  rr_Deleted :: nat
  rr_PatchedUpdated :: nat
  rr_Release :: release

section \<open>config.go\<close>

text \<open>The options of the chart getter; the disk cache is a handle of the client.\<close>

datatype getter_option =
    WithVersion string
  | WithRepo string
  | WithCache "string option"
  | WithCredentials string string
  | WithPassCredentialsAll bool
  | WithInsecureSkipVerifyTLS bool

definition buildGetterOpts :: "string option \<Rightarrow> action_config \<Rightarrow> getter_option list" where
  "buildGetterOpts diskCache cfg =
     [WithVersion (ac_ChartVersion cfg), WithRepo (ac_ChartName cfg), WithCache diskCache,
      WithCredentials (ac_Username cfg) (ac_Password cfg), WithPassCredentialsAll (ac_PassCredentialsAll cfg),
      WithInsecureSkipVerifyTLS (ac_InsecureSkipTLSverify cfg)]"

text \<open>The fields common to the install and the upgrade action.\<close>

record action_client =
  cl_Namespace :: string
  cl_Version :: string
  cl_Timeout :: duration
  cl_Wait :: bool
  cl_Atomic :: bool
  cl_Force :: bool
  cl_TakeOwnership :: bool
  cl_Labels :: "smap option"
  cl_WaitForJobs :: bool
  cl_DisableOpenAPIValidation :: bool
  cl_PostRenderer :: "post_renderer option"
  cl_Description :: string
  cl_DependencyUpdate :: bool
  cl_Devel :: bool
  cl_SubNotes :: bool
  cl_HideNotes :: bool
  cl_EnableDNS :: bool
  cl_PassCredentialsAll :: bool
  cl_Username :: string
  cl_Password :: string
  cl_InsecureSkipTLSverify :: bool
  cl_DryRun :: bool
  cl_DryRunOption :: string

record install_client = action_client +
  icl_ReleaseName :: string
  icl_GenerateName :: bool
  icl_CreateNamespace :: bool
  icl_Replace :: bool
  icl_IncludeCRDs :: bool

record upgrade_client = action_client +
  ucl_Install :: bool
  ucl_MaxHistory :: int
  ucl_ResetValues :: bool
  ucl_ReuseValues :: bool
  ucl_ResetThenReuseValues :: bool

definition applyDryRun :: "bool \<times> string \<Rightarrow> dry_run \<Rightarrow> bool \<times> string" where
  "applyDryRun d mode =
     (case mode of
        DryRunClient \<Rightarrow> (True, ''client'')
      | DryRunServer \<Rightarrow> (True, ''server'')
      | DryRunNone \<Rightarrow> d)"

definition applyInstallConfig :: "install_client \<Rightarrow> string \<Rightarrow> string \<Rightarrow> install_config \<Rightarrow> action_config \<Rightarrow> install_client" where
  "applyInstallConfig client releaseName namespace cfg a =
     (let d = applyDryRun (cl_DryRun client, cl_DryRunOption client) (ac_DryRun a) in
      client\<lparr>icl_ReleaseName := releaseName, cl_Namespace := namespace, cl_Version := ac_ChartVersion a,
        cl_Timeout := ac_Timeout a, cl_Wait := ac_Wait a, cl_Atomic := ac_Atomic a, cl_Force := ac_Force a,
        icl_GenerateName := ic_GenerateName cfg, icl_CreateNamespace := ic_CreateNamespace cfg,
        cl_Labels := ac_Labels a, cl_WaitForJobs := ac_WaitForJobs a, cl_DisableOpenAPIValidation := True,
        icl_Replace := ac_Replace a, cl_TakeOwnership := ac_TakeOwnership a,
        cl_PostRenderer := ac_PostRenderer a, cl_Description := ac_Description a,
        cl_DependencyUpdate := ac_DependencyUpdate a, cl_Devel := ac_Devel a,
        icl_IncludeCRDs := ac_IncludeCRDs a, cl_SubNotes := ac_SubNotes a, cl_HideNotes := ac_HideNotes a,
        cl_EnableDNS := ac_EnableDNS a, cl_PassCredentialsAll := ac_PassCredentialsAll a,
        cl_Username := ac_Username a, cl_Password := ac_Password a,
        cl_InsecureSkipTLSverify := ac_InsecureSkipTLSverify a,
        cl_DryRun := fst d, cl_DryRunOption := snd d\<rparr>)"

definition applyUpgradeConfig :: "upgrade_client \<Rightarrow> string \<Rightarrow> upgrade_config \<Rightarrow> action_config \<Rightarrow> upgrade_client" where
  "applyUpgradeConfig client namespace cfg a =
     (let d = applyDryRun (cl_DryRun client, cl_DryRunOption client) (ac_DryRun a) in
      client\<lparr>cl_Namespace := namespace, cl_Version := ac_ChartVersion a,
        cl_Timeout := ac_Timeout a, cl_Wait := ac_Wait a, cl_Atomic := ac_Atomic a, cl_Force := ac_Force a,
        cl_TakeOwnership := ac_TakeOwnership a, ucl_Install := uc_Install cfg,
        ucl_MaxHistory := uc_MaxHistory cfg,
        cl_Labels := ac_Labels a, cl_WaitForJobs := ac_WaitForJobs a, cl_DisableOpenAPIValidation := True,
        cl_PostRenderer := ac_PostRenderer a, cl_Description := ac_Description a,
        cl_DependencyUpdate := ac_DependencyUpdate a, cl_Devel := ac_Devel a,
        cl_SubNotes := ac_SubNotes a, cl_HideNotes := ac_HideNotes a,
        cl_EnableDNS := ac_EnableDNS a, cl_PassCredentialsAll := ac_PassCredentialsAll a,
        cl_Username := ac_Username a, cl_Password := ac_Password a,
        cl_InsecureSkipTLSverify := ac_InsecureSkipTLSverify a,
        cl_DryRun := fst d, cl_DryRunOption := snd d\<rparr>)"

record rollback_client =
  rcl_Timeout :: duration
  rcl_Wait :: bool
  rcl_WaitForJobs :: bool
  rcl_Version :: int
  rcl_Force :: bool
  rcl_DisableHooks :: bool
  rcl_Recreate :: bool
  rcl_DryRun :: bool
  rcl_CleanupOnFail :: bool
  rcl_MaxHistory :: int

definition applyRollbackConfig :: "rollback_client \<Rightarrow> rollback_config \<Rightarrow> rollback_client" where
  "applyRollbackConfig client cfg =
     client\<lparr>rcl_Timeout := rc_Timeout cfg, rcl_Wait := rc_Wait cfg, rcl_WaitForJobs := rc_WaitForJobs cfg,
       rcl_Version := rc_ReleaseVersion cfg, rcl_Force := rc_Force cfg, rcl_DisableHooks := rc_DisableHooks cfg,
       rcl_Recreate := rc_Recreate cfg, rcl_DryRun := rc_DryRun cfg, rcl_CleanupOnFail := rc_CleanupOnFail cfg,
       rcl_MaxHistory := rc_MaxHistory cfg\<rparr>"

record uninstall_client =
  ncl_DisableHooks :: bool
  ncl_DryRun :: bool
  ncl_KeepHistory :: bool
  ncl_Wait :: bool
  ncl_Timeout :: duration
  ncl_IgnoreNotFound :: bool
  ncl_DeletionPropagation :: string
  ncl_Description :: string

definition applyUninstallConfig :: "uninstall_client \<Rightarrow> uninstall_config \<Rightarrow> uninstall_client" where
  "applyUninstallConfig client cfg =
     client\<lparr>ncl_DisableHooks := nc_DisableHooks cfg, ncl_DryRun := nc_DryRun cfg,
       ncl_KeepHistory := nc_KeepHistory cfg, ncl_Wait := nc_Wait cfg, ncl_Timeout := nc_Timeout cfg,
       ncl_IgnoreNotFound := nc_IgnoreNotFound cfg, ncl_DeletionPropagation := nc_DeletionPropagation cfg,
       ncl_Description := nc_Description cfg\<rparr>"

record list_client =
  lcl_All :: bool
  lcl_AllNamespaces :: bool
  lcl_Sort :: nat
  lcl_ByDate :: bool
  lcl_SortReverse :: bool
  lcl_StateMask :: nat
  lcl_Limit :: int
  lcl_Offset :: int
  lcl_Filter :: string
  lcl_Short :: bool
  lcl_NoHeaders :: bool
  lcl_TimeFormat :: string

definition applyListConfig :: "list_client \<Rightarrow> list_config \<Rightarrow> list_client" where
  "applyListConfig client cfg =
     client\<lparr>lcl_All := lc_All cfg, lcl_AllNamespaces := lc_AllNamespaces cfg, lcl_Sort := lc_Sort cfg,
       lcl_ByDate := lc_ByDate cfg, lcl_SortReverse := lc_SortReverse cfg, lcl_StateMask := lc_StateMask cfg,
       lcl_Limit := lc_Limit cfg, lcl_Offset := lc_Offset cfg, lcl_Filter := lc_Filter cfg,
       lcl_Short := lc_Short cfg, lcl_NoHeaders := lc_NoHeaders cfg, lcl_TimeFormat := lc_TimeFormat cfg\<rparr>"

section \<open>Properties\<close>

text \<open>
  An upgrade is configured as an install is.  From SDK defaults that agree, the same action
  configuration gives the same value to every field the two actions share, \<open>TakeOwnership\<close> included;
  and a dry-run mode is passed on as the flag together with its name.
\<close>

theorem upgrade_mirrors_install:
  assumes "action_client.truncate ci = action_client.truncate cu"
  shows "action_client.truncate (applyInstallConfig ci name ns icfg a) =
      action_client.truncate (applyUpgradeConfig cu ns ucfg a) \<and>
    cl_TakeOwnership (applyUpgradeConfig cu ns ucfg a) = ac_TakeOwnership a \<and>
    (ac_DryRun a = DryRunServer \<longrightarrow>
       cl_DryRun (applyUpgradeConfig cu ns ucfg a) \<and> cl_DryRunOption (applyUpgradeConfig cu ns ucfg a) = ''server'') \<and>
    (ac_DryRun a = DryRunNone \<longrightarrow> cl_DryRun (applyUpgradeConfig cu ns ucfg a) = cl_DryRun cu)"
  using assms
  by (simp add: applyInstallConfig_def applyUpgradeConfig_def action_client.truncate_def applyDryRun_def Let_def
      split: dry_run.splits)

definition sdk_defaults :: action_client where
  "sdk_defaults = \<lparr>cl_Namespace = [], cl_Version = [], cl_Timeout = 0, cl_Wait = False, cl_Atomic = False,
     cl_Force = False, cl_TakeOwnership = False, cl_Labels = None, cl_WaitForJobs = False,
     cl_DisableOpenAPIValidation = False, cl_PostRenderer = None, cl_Description = [], cl_DependencyUpdate = False,
     cl_Devel = False, cl_SubNotes = False, cl_HideNotes = False, cl_EnableDNS = False, cl_PassCredentialsAll = False,
     cl_Username = [], cl_Password = [], cl_InsecureSkipTLSverify = False, cl_DryRun = False, cl_DryRunOption = []\<rparr>"

definition zero_install_client :: install_client where
  "zero_install_client = action_client.extend sdk_defaults (install_client.fields [] False False False False)"

definition zero_upgrade_client :: upgrade_client where
  "zero_upgrade_client = action_client.extend sdk_defaults (upgrade_client.fields False 0 False False False)"

theorem upgrade_mirrors_install_witness:
  "cl_TakeOwnership (applyUpgradeConfig zero_upgrade_client ''ns''
      \<lparr>uc_ActionConfig = None, uc_Install = True, uc_MaxHistory = 10, uc_ResetValues = False, uc_ReuseValues = False,
       uc_ResetThenReuseValues = False\<rparr> (zero_action_config\<lparr>ac_TakeOwnership := True\<rparr>))"
proof -
  have "action_client.truncate zero_install_client = action_client.truncate zero_upgrade_client"
    by (simp add: zero_install_client_def zero_upgrade_client_def sdk_defaults_def action_client.defs
        install_client.defs upgrade_client.defs)
  from upgrade_mirrors_install [OF this, of undefined undefined undefined
      "zero_action_config\<lparr>ac_TakeOwnership := True\<rparr>"] upgrade_mirrors_install [OF this] show ?thesis by simp
qed

text \<open>
  The three value-reuse flags of an upgrade configuration have no effect: two configurations that
  differ only in \<open>ResetValues\<close>, \<open>ReuseValues\<close> and \<open>ResetThenReuseValues\<close> configure the same upgrade,
  and the SDK's flags keep the values they had.
\<close>

theorem upgrade_ignores_reuse_flags:
  "applyUpgradeConfig client ns (cfg\<lparr>uc_ResetValues := x, uc_ReuseValues := y, uc_ResetThenReuseValues := z\<rparr>) a =
     applyUpgradeConfig client ns cfg a \<and>
   ucl_ResetValues (applyUpgradeConfig client ns cfg a) = ucl_ResetValues client \<and>
   ucl_ReuseValues (applyUpgradeConfig client ns cfg a) = ucl_ReuseValues client \<and>
   ucl_ResetThenReuseValues (applyUpgradeConfig client ns cfg a) = ucl_ResetThenReuseValues client"
  by (simp add: applyUpgradeConfig_def Let_def)

end
