(* ===== verification/Helm_Client.thy ===== *)
theory Helm_Client
  imports Helm_Config
begin

text \<open>
  The Helm client: \<open>helm/v3/client.go\<close> (construction with options, \<open>Install\<close>, \<open>Upgrade\<close>,
  \<open>Uninstall\<close>, \<open>Rollback\<close>, \<open>GetRelease\<close>, \<open>ListReleases\<close>, \<open>Close\<close>, \<open>newActionConfig\<close>,
  \<open>isRESTMappingMiss\<close>), \<open>helm/v3/chart.go\<close> (\<open>loadChart\<close>, \<open>checkChartType\<close>, \<open>checkDependencies\<close>,
  \<open>toWrapperRelease\<close>), \<open>helm/v3/client_getter.go\<close> and the event handlers of \<open>helm/v3/crdinformer.go\<close>.

  The cluster, the release storage and the Helm SDK are not in the repository: they are the fields
  of the record \<open>helm_env\<close>, functions of an abstract world.  What only reads is a function of the
  world; what writes returns the next world and is recorded in the list \<open>calls\<close>, so that
  the order and number of writes can be stated.
\<close>

section \<open>REST client getter\<close>

text \<open>Whether the cached mapper and discovery client are there, the namespace and the configurations.\<close>

record rest_getter =
  rg_namespace :: string
  rg_kubeConfig :: string
  rg_restConfig :: "rest_config option"
  rg_cachedMapper :: bool
  rg_cachedDiscovery :: bool

definition NewRESTClientGetter :: "string \<Rightarrow> string \<Rightarrow> rest_config \<Rightarrow> rest_getter" where
  "NewRESTClientGetter namespace kubeConfig restConfig =
     \<lparr>rg_namespace = namespace, rg_kubeConfig = kubeConfig, rg_restConfig = Some restConfig,
      rg_cachedMapper = False, rg_cachedDiscovery = False\<rparr>"

definition NewRESTClientGetterWithCachedClients :: "string \<Rightarrow> string \<Rightarrow> rest_config \<Rightarrow> rest_getter" where
  "NewRESTClientGetterWithCachedClients namespace kubeConfig restConfig =
     \<lparr>rg_namespace = namespace, rg_kubeConfig = kubeConfig, rg_restConfig = Some restConfig,
      rg_cachedMapper = True, rg_cachedDiscovery = True\<rparr>"

definition ToRESTConfig :: "(string \<Rightarrow> gerr + rest_config) \<Rightarrow> rest_getter \<Rightarrow> gerr + rest_config" where
  "ToRESTConfig fromKubeConfig c =
     (case rg_restConfig c of Some r \<Rightarrow> Inr r | None \<Rightarrow> fromKubeConfig (rg_kubeConfig c))"

text \<open>A discovery client: the cached one, or a new one with the options applied to its configuration.\<close>

datatype discovery_client = CachedDiscovery | NewDiscovery rest_config

definition ToDiscoveryClient ::
  "(string \<Rightarrow> gerr + rest_config) \<Rightarrow> (rest_config \<Rightarrow> rest_config) list \<Rightarrow> rest_getter \<Rightarrow> gerr + discovery_client" where
  "ToDiscoveryClient fromKubeConfig opts c =
     (if rg_cachedDiscovery c then Inr CachedDiscovery
      else case ToRESTConfig fromKubeConfig c of
             Inl e \<Rightarrow> Inl e
           | Inr config \<Rightarrow> Inr (NewDiscovery (fold (\<lambda>fn r. fn r) opts config)))"

datatype rest_mapper = CachedMapper | MapperOver discovery_client

definition ToRESTMapper ::
  "(string \<Rightarrow> gerr + rest_config) \<Rightarrow> (rest_config \<Rightarrow> rest_config) list \<Rightarrow> rest_getter \<Rightarrow> gerr + rest_mapper" where
  "ToRESTMapper fromKubeConfig opts c =
     (if rg_cachedMapper c then Inr CachedMapper
      else case ToDiscoveryClient fromKubeConfig opts c of
             Inl e \<Rightarrow> Inl e
           | Inr d \<Rightarrow> Inr (MapperOver d))"

section \<open>Environment\<close>

text \<open>A release of Helm's storage; \<open>Info\<close> may be nil.\<close>

record hrelease =
  h_Name :: string
  h_Namespace :: string
  h_Version :: int
  h_ChartVersion :: string
  h_Info :: "(string \<times> instant) option"
  h_Manifest :: string

record merge_result =
  mr_Created :: nat
  mr_Deleted :: nat
  mr_Target :: "info list"

datatype get_error = ReleaseNotFound | GetFailed gerr

text \<open>The client of this package and the action configuration that every operation builds.\<close>

record helm_client =
  hc_namespace :: string
  hc_restConfig :: rest_config
  hc_cache :: "string option"
  hc_cachedClients :: bool
  hc_crdInformer :: bool

record action_configuration =
  acf_getter :: rest_getter
  acf_namespace :: string

record ('w, 'ch) helm_env =
  fromKubeConfig :: "string \<Rightarrow> gerr + rest_config"
  initRun :: "'w \<Rightarrow> rest_getter \<Rightarrow> string \<Rightarrow> gerr option"
  traced :: "rest_config \<Rightarrow> rest_config"
  getterGet :: "'w \<Rightarrow> string \<Rightarrow> getter_option list \<Rightarrow> gerr + string"
  loadArchive :: "string \<Rightarrow> gerr + 'ch"
  chartType :: "'ch \<Rightarrow> string"
  chartHasDeps :: "'ch \<Rightarrow> bool"
  missingDeps :: "'ch \<Rightarrow> gerr option"
  isNoMatchError :: "gerr \<Rightarrow> bool"
  sdkInstall :: install_client
  sdkUpgrade :: upgrade_client
  sdkRollback :: rollback_client
  sdkUninstall :: uninstall_client
  sdkList :: list_client
  installRun :: "action_configuration \<Rightarrow> 'w \<Rightarrow> install_client \<Rightarrow> 'ch \<Rightarrow> obj option \<Rightarrow> 'w \<times> (gerr + hrelease)"
  upgradeRun :: "action_configuration \<Rightarrow> 'w \<Rightarrow> upgrade_client \<Rightarrow> string \<Rightarrow> 'ch \<Rightarrow> obj option \<Rightarrow> 'w \<times> (gerr + hrelease)"
  rollbackRun :: "action_configuration \<Rightarrow> 'w \<Rightarrow> rollback_client \<Rightarrow> string \<Rightarrow> 'w \<times> gerr option"
  uninstallRun :: "action_configuration \<Rightarrow> 'w \<Rightarrow> uninstall_client \<Rightarrow> string \<Rightarrow> 'w \<times> gerr option"
  getRun :: "action_configuration \<Rightarrow> 'w \<Rightarrow> int \<Rightarrow> string \<Rightarrow> get_error + hrelease"
  listRun :: "action_configuration \<Rightarrow> 'w \<Rightarrow> list_client \<Rightarrow> gerr + hrelease list"
  mapperReset :: "'w \<Rightarrow> 'w"
  kubeBuild :: "action_configuration \<Rightarrow> 'w \<Rightarrow> string \<Rightarrow> bool \<Rightarrow> gerr + info list"
  kubeGet :: "action_configuration \<Rightarrow> 'w \<Rightarrow> info \<Rightarrow> obj option"
  isMatchingInfo :: "info \<Rightarrow> info \<Rightarrow> bool"
  hasThreeWay :: "action_configuration \<Rightarrow> bool"
  updateThreeWayMerge :: "action_configuration \<Rightarrow> 'w \<Rightarrow> info list \<Rightarrow> info list \<Rightarrow> bool \<Rightarrow> 'w \<times> (gerr + merge_result)"
  updateTwoWay :: "action_configuration \<Rightarrow> 'w \<Rightarrow> info list \<Rightarrow> info list \<Rightarrow> bool \<Rightarrow> 'w \<times> (gerr + merge_result)"
  splitManifests :: "string \<Rightarrow> string list"
  parseHead :: "string \<Rightarrow> (string \<times> string) option"
  parseGroupVersion :: "string \<Rightarrow> (string \<times> string) option"
  mapperServes :: "rest_mapper \<Rightarrow> 'w \<Rightarrow> gvk \<Rightarrow> bool"
  gvkText :: "gvk \<Rightarrow> string"
  releasesLast :: "action_configuration \<Rightarrow> 'w \<Rightarrow> string \<Rightarrow> gerr + hrelease option"
  releasesDeployed :: "action_configuration \<Rightarrow> 'w \<Rightarrow> string \<Rightarrow> gerr + hrelease option"
  releasesUpdate :: "action_configuration \<Rightarrow> 'w \<Rightarrow> hrelease \<Rightarrow> 'w \<times> gerr option"
  kapi :: kube_api

text \<open>
  The writes: an install (dry-run flag), an upgrade (dry-run flag and option, install flag), a rollback,
  an uninstall, a reset of the cached mapper, a merge (current list, target list, force), an update of
  a stored release, and the two effects of closing a client.
\<close>

datatype call =
    CallInstall bool
  | CallUpgrade bool string bool
  | CallRollback int
  | CallUninstall bool
  | CallReset
  | CallMerge "info list" "info list" bool
  | CallPersist hrelease
  | CallCancelInformer
  | CallStopCache

record 'w hstate =
  world :: 'w
  calls :: "call list"

definition perform :: "'w hstate \<Rightarrow> 'w \<Rightarrow> call \<Rightarrow> 'w hstate" where
  "perform s w x = \<lparr>world = w, calls = calls s @ [x]\<rparr>"

section \<open>Errors of the REST mapping\<close>

fun errText :: "gerr \<Rightarrow> string" where
  "errText (GErr m) = m"
| "errText (GWrap m e) = m @ '': '' @ errText e"
| "errText GPanic = ''panic''"

definition isRESTMappingMiss :: "('w, 'ch) helm_env \<Rightarrow> gerr option \<Rightarrow> bool" where
  "isRESTMappingMiss env err =
     (case err of
        None \<Rightarrow> False
      | Some e \<Rightarrow>
          isNoMatchError env e \<or>
          (let s = errText e in
           Contains s ''no matches for kind'' \<or> Contains s ''resource mapping not found'' \<or>
           Contains s ''ensure CRDs are installed first''))"

section \<open>Construction\<close>

definition newActionConfig ::
  "('w, 'ch) helm_env \<Rightarrow> helm_client \<Rightarrow> 'w \<Rightarrow> string \<Rightarrow> rest_config \<Rightarrow> action_config option \<Rightarrow>
   gerr + action_configuration" where
  "newActionConfig env c w namespace restCfg actionCfg =
     (let cfgToUse = (case actionCfg of
                        Some a \<Rightarrow> if ac_Verbose a then traced env restCfg else restCfg
                      | None \<Rightarrow> restCfg);
          clientGetter = (if hc_cachedClients c
                          then NewRESTClientGetterWithCachedClients namespace [] cfgToUse
                          else NewRESTClientGetter namespace [] cfgToUse)
      in case initRun env w clientGetter namespace of
           Some e \<Rightarrow> Inl (GWrap ''failed to init action config'' e)
         | None \<Rightarrow> Inr \<lparr>acf_getter = clientGetter, acf_namespace = namespace\<rparr>)"

text \<open>
  The options, with the outcome of the constructors they call: the disk cache, the cached clients and
  the API-extensions client.  \<open>Start\<close> of the informer never fails.
\<close>

datatype client_option =
    OptNamespace string
  | OptCache "gerr + string"
  | OptLogger
  | OptCRDInformer "gerr option" "gerr option"

definition apply_option :: "helm_client \<Rightarrow> client_option \<Rightarrow> gerr + helm_client" where
  "apply_option c opt =
     (case opt of
        OptNamespace ns \<Rightarrow> Inr (c\<lparr>hc_namespace := ns\<rparr>)
      | OptCache (Inl e) \<Rightarrow> Inl (GWrap ''failed to create cache'' e)
      | OptCache (Inr d) \<Rightarrow> Inr (c\<lparr>hc_cache := Some d\<rparr>)
      | OptLogger \<Rightarrow> Inr c
      | OptCRDInformer cachedErr apiErr \<Rightarrow>
          (if \<not> hc_cachedClients c \<and> cachedErr \<noteq> None
           then Inl (GWrap ''failed to create cached clients'' (the cachedErr))
           else case apiErr of
                  Some e \<Rightarrow> Inl (GWrap ''failed to create API extensions client'' e)
                | None \<Rightarrow> Inr (c\<lparr>hc_cachedClients := True, hc_crdInformer := True\<rparr>)))"

fun apply_options :: "helm_client \<Rightarrow> client_option list \<Rightarrow> gerr + helm_client" where
  "apply_options c [] = Inr c"
| "apply_options c (opt # opts) =
     (case apply_option c opt of Inl e \<Rightarrow> Inl e | Inr c' \<Rightarrow> apply_options c' opts)"

text \<open>The probe of \<open>NewClient\<close> is \<open>newActionConfig\<close> without an action configuration.\<close>

definition NewClient ::
  "('w, 'ch) helm_env \<Rightarrow> 'w \<Rightarrow> string \<Rightarrow> rest_config \<Rightarrow> client_option list \<Rightarrow> gerr + helm_client" where
  "NewClient env w settingsNamespace cfg opts =
     (case apply_options \<lparr>hc_namespace = settingsNamespace, hc_restConfig = cfg, hc_cache = None,
                          hc_cachedClients = False, hc_crdInformer = False\<rparr> opts of
        Inl e \<Rightarrow> Inl e
      | Inr c \<Rightarrow>
          (case newActionConfig env c w (hc_namespace c) (hc_restConfig c) None of
             Inl e \<Rightarrow> Inl e
           | Inr ac \<Rightarrow> Inr c))"

definition client_Close :: "helm_client \<Rightarrow> 'w hstate \<Rightarrow> 'w hstate" where
  "client_Close c s =
     (let s1 = (if hc_crdInformer c then perform s (world s) CallCancelInformer else s)
      in if hc_cache c \<noteq> None then perform s1 (world s1) CallStopCache else s1)"

section \<open>Charts and releases\<close>

definition toWrapperRelease :: "hrelease \<Rightarrow> gerr + release" where
  "toWrapperRelease r =
     (case h_Info r of
        None \<Rightarrow> Inl GPanic
      | Some (status, deployed) \<Rightarrow>
          Inr \<lparr>rel_Name = h_Name r, rel_Namespace = h_Namespace r, rel_Revision = h_Version r,
               rel_ChartVersion = h_ChartVersion r, rel_Status = status, rel_Values = None,
               rel_Manifest = h_Manifest r, rel_Updated = deployed\<rparr>)"

definition loadChart ::
  "('w, 'ch) helm_env \<Rightarrow> 'w \<Rightarrow> string \<Rightarrow> getter_option list \<Rightarrow> gerr + 'ch" where
  "loadChart env w chartRef opts =
     (case getterGet env w chartRef opts of
        Inl e \<Rightarrow> Inl (GWrap (''failed to get chart from '' @ chartRef) e)
      | Inr chartReader \<Rightarrow>
          (case loadArchive env chartReader of
             Inl e \<Rightarrow> Inl (GWrap ''failed to load chart'' e)
           | Inr ch \<Rightarrow> Inr ch))"

definition checkChartType :: "('w, 'ch) helm_env \<Rightarrow> 'ch \<Rightarrow> gerr option" where
  "checkChartType env ch =
     (if chartType env ch \<noteq> ''application'' \<and> chartType env ch \<noteq> []
      then Some (GErr (''chart type mismatch: expected application, got '' @ chartType env ch))
      else None)"

definition checkDependencies ::
  "('w, 'ch) helm_env \<Rightarrow> helm_client \<Rightarrow> 'w \<Rightarrow> 'ch \<Rightarrow> string \<Rightarrow> action_config \<Rightarrow> gerr + 'ch" where
  "checkDependencies env c w ch chartRef cfg =
     (if \<not> chartHasDeps env ch then Inr ch
      else case missingDeps env ch of
             None \<Rightarrow> Inr ch
           | Some e \<Rightarrow>
               if \<not> ac_DependencyUpdate cfg then Inl (GWrap ''missing dependencies'' e)
               else (case loadChart env w chartRef (buildGetterOpts (hc_cache c) cfg) of
                       Inl e \<Rightarrow> Inl (GWrap ''failed to reload chart after dependency update'' e)
                     | Inr ch' \<Rightarrow> Inr ch'))"

text \<open>Load, check the type, check the dependencies: the prefix that install and upgrade share.\<close>

definition prepare_chart ::
  "('w, 'ch) helm_env \<Rightarrow> helm_client \<Rightarrow> 'w \<Rightarrow> string \<Rightarrow> action_config \<Rightarrow> gerr + 'ch" where
  "prepare_chart env c w chartRef a =
     (case loadChart env w chartRef (buildGetterOpts (hc_cache c) a) of
        Inl e \<Rightarrow> Inl (GWrap ''failed to load chart'' e)
      | Inr ch \<Rightarrow>
          (case checkChartType env ch of
             Some e \<Rightarrow> Inl (GWrap ''chart type check failed'' e)
           | None \<Rightarrow>
               (case checkDependencies env c w ch chartRef a of
                  Inl e \<Rightarrow> Inl (GWrap ''failed to check dependencies'' e)
                | Inr ch' \<Rightarrow> Inr ch')))"

text \<open>The builder of the validator at a world.\<close>

definition validated_renderer ::
  "('w, 'ch) helm_env \<Rightarrow> action_configuration \<Rightarrow> 'w \<Rightarrow> post_renderer option \<Rightarrow> post_renderer" where
  "validated_renderer env ac w renderer =
     withDuplicateResourceValidation (kapi env) renderer
       (Some (\<lambda>m v. case kubeBuild env ac w m v of Inl e \<Rightarrow> Inl e | Inr is \<Rightarrow> Inr (map Some is)))"

section \<open>Operations\<close>

definition GetRelease ::
  "('w, 'ch) helm_env \<Rightarrow> helm_client \<Rightarrow> 'w \<Rightarrow> string \<Rightarrow> int \<Rightarrow> gerr + release option" where
  "GetRelease env c w name getVersion =
     (case newActionConfig env c w (hc_namespace c) (hc_restConfig c) None of
        Inl e \<Rightarrow> Inl e
      | Inr ac \<Rightarrow>
          (case getRun env ac w getVersion name of
             Inl ReleaseNotFound \<Rightarrow> Inr None
           | Inl (GetFailed e) \<Rightarrow> Inl (GWrap ''get release failed'' e)
           | Inr r \<Rightarrow> (case toWrapperRelease r of Inl e \<Rightarrow> Inl e | Inr rel \<Rightarrow> Inr (Some rel))))"

fun wrap_all :: "hrelease list \<Rightarrow> gerr + release list" where
  "wrap_all [] = Inr []"
| "wrap_all (r # rs) =
     (case toWrapperRelease r of
        Inl e \<Rightarrow> Inl e
      | Inr x \<Rightarrow> (case wrap_all rs of Inl e \<Rightarrow> Inl e | Inr xs \<Rightarrow> Inr (x # xs)))"

definition ListReleases ::
  "('w, 'ch) helm_env \<Rightarrow> helm_client \<Rightarrow> 'w \<Rightarrow> list_config \<Rightarrow> gerr + release list" where
  "ListReleases env c w cfg =
     (case newActionConfig env c w (hc_namespace c) (hc_restConfig c) None of
        Inl e \<Rightarrow> Inl e
      | Inr ac \<Rightarrow>
          (case listRun env ac w (applyListConfig (sdkList env) cfg) of
             Inl e \<Rightarrow> Inl (GWrap ''list releases failed'' e)
           | Inr rs \<Rightarrow> wrap_all rs))"

definition install ::
  "('w, 'ch) helm_env \<Rightarrow> helm_client \<Rightarrow> 'w hstate \<Rightarrow> string \<Rightarrow> string \<Rightarrow> string \<Rightarrow> install_config \<Rightarrow>
   action_config \<Rightarrow> action_configuration \<Rightarrow> 'w hstate \<times> (gerr + release)" where
  "install env c s namespace releaseName chartRef cfg a ac =
     (let client = (applyInstallConfig (sdkInstall env) releaseName namespace cfg a)
                     \<lparr>cl_PostRenderer := Some (validated_renderer env ac (world s) (ac_PostRenderer a))\<rparr>
      in case prepare_chart env c (world s) chartRef a of
           Inl e \<Rightarrow> (s, Inl e)
         | Inr ch \<Rightarrow>
             (let (w, r) = installRun env ac (world s) client ch (ac_Values a);
                  s' = perform s w (CallInstall (cl_DryRun client))
              in case r of
                   Inl e \<Rightarrow> (s', Inl (GWrap ''install failed'' e))
                 | Inr rel \<Rightarrow> (s', toWrapperRelease rel)))"

text \<open>A nil configuration, or one without an action configuration, is filled with zero values.\<close>

definition zero_install_config :: install_config where
  "zero_install_config = \<lparr>ic_ActionConfig = None, ic_Namespace = [], ic_RestConfig = None,
     ic_GenerateName = False, ic_CreateNamespace = False\<rparr>"

definition zero_upgrade_config :: upgrade_config where
  "zero_upgrade_config = \<lparr>uc_ActionConfig = None, uc_Install = False, uc_MaxHistory = 0,
     uc_ResetValues = False, uc_ReuseValues = False, uc_ResetThenReuseValues = False\<rparr>"

definition action_of :: "action_config option \<Rightarrow> action_config" where
  "action_of a = (case a of None \<Rightarrow> zero_action_config | Some x \<Rightarrow> x)"

definition upgrade_config_of :: "upgrade_config option \<Rightarrow> upgrade_config" where
  "upgrade_config_of cfg =
     (let u = (case cfg of None \<Rightarrow> zero_upgrade_config | Some u \<Rightarrow> u)
      in u\<lparr>uc_ActionConfig := Some (action_of (uc_ActionConfig u))\<rparr>)"

definition Install ::
  "('w, 'ch) helm_env \<Rightarrow> helm_client \<Rightarrow> 'w hstate \<Rightarrow> string \<Rightarrow> string \<Rightarrow> install_config option \<Rightarrow>
   'w hstate \<times> (gerr + release)" where
  "Install env c s releaseName chartRef cfg' =
     (let cfg = (case cfg' of None \<Rightarrow> zero_install_config | Some x \<Rightarrow> x);
          a = action_of (ic_ActionConfig cfg);
          namespace = (if ic_Namespace cfg \<noteq> [] then ic_Namespace cfg else hc_namespace c);
          restCfg = (case ic_RestConfig cfg of Some r \<Rightarrow> r | None \<Rightarrow> hc_restConfig c)
      in case newActionConfig env c (world s) namespace restCfg (Some a) of
           Inl e \<Rightarrow> (s, Inl e)
         | Inr ac \<Rightarrow>
             (let (s1, r) = install env c s namespace releaseName chartRef cfg a ac in
              case r of
                Inr rel \<Rightarrow> (s1, Inr rel)
              | Inl e \<Rightarrow>
                  if hc_cachedClients c \<and> e \<noteq> GPanic \<and> isRESTMappingMiss env (Some e)
                  then let s2 = perform s1 (mapperReset env (world s1)) CallReset in
                       (case newActionConfig env c (world s2) namespace restCfg (Some a) of
                          Inl e2 \<Rightarrow> (s2, Inl e)
                        | Inr ac2 \<Rightarrow> install env c s2 namespace releaseName chartRef cfg a ac2)
                  else (s1, Inl e)))"

definition Upgrade ::
  "('w, 'ch) helm_env \<Rightarrow> helm_client \<Rightarrow> 'w hstate \<Rightarrow> string \<Rightarrow> string \<Rightarrow> upgrade_config option \<Rightarrow>
   'w hstate \<times> (gerr + release)" where
  "Upgrade env c s releaseName chartRef cfg' =
     (let cfg = upgrade_config_of cfg';
          a = action_of (uc_ActionConfig cfg)
      in case newActionConfig env c (world s) (hc_namespace c) (hc_restConfig c) (Some a) of
           Inl e \<Rightarrow> (s, Inl e)
         | Inr ac \<Rightarrow>
             (let client = (applyUpgradeConfig (sdkUpgrade env) (hc_namespace c) cfg a)
                             \<lparr>cl_PostRenderer := Some (validated_renderer env ac (world s) (ac_PostRenderer a))\<rparr>
              in case prepare_chart env c (world s) chartRef a of
                   Inl e \<Rightarrow> (s, Inl e)
                 | Inr ch \<Rightarrow>
                     (let (w, r) = upgradeRun env ac (world s) client releaseName ch (ac_Values a);
                          s' = perform s w (CallUpgrade (cl_DryRun client) (cl_DryRunOption client) (ucl_Install client))
                      in case r of
                           Inl e \<Rightarrow> (s', Inl (GWrap ''upgrade failed'' e))
                         | Inr rel \<Rightarrow> (s', toWrapperRelease rel))))"

definition Uninstall ::
  "('w, 'ch) helm_env \<Rightarrow> helm_client \<Rightarrow> 'w hstate \<Rightarrow> string \<Rightarrow> uninstall_config \<Rightarrow> 'w hstate \<times> gerr option" where
  "Uninstall env c s releaseName cfg =
     (case newActionConfig env c (world s) (hc_namespace c) (hc_restConfig c) None of
        Inl e \<Rightarrow> (s, Some e)
      | Inr ac \<Rightarrow>
          (let cmd = applyUninstallConfig (sdkUninstall env) cfg;
               (w, r) = uninstallRun env ac (world s) cmd releaseName;
               s' = perform s w (CallUninstall (ncl_DryRun cmd))
           in (s', map_option (GWrap ''uninstall failed'') r)))"

definition Rollback ::
  "('w, 'ch) helm_env \<Rightarrow> helm_client \<Rightarrow> 'w hstate \<Rightarrow> string \<Rightarrow> rollback_config \<Rightarrow>
   'w hstate \<times> (gerr + release option)" where
  "Rollback env c s releaseName cfg =
     (case newActionConfig env c (world s) (hc_namespace c) (hc_restConfig c) None of
        Inl e \<Rightarrow> (s, Inl e)
      | Inr ac \<Rightarrow>
          (let cmd = applyRollbackConfig (sdkRollback env) cfg;
               (w, r) = rollbackRun env ac (world s) cmd releaseName;
               s' = perform s w (CallRollback (rcl_Version cmd))
           in case r of
                Some e \<Rightarrow> (s', Inl (GWrap ''rollback failed'' e))
              | None \<Rightarrow>
                  (case GetRelease env c w releaseName 0 of
                     Inl e \<Rightarrow> (s', Inl (errorf ''failed to get release after rollback'' e))
                   | Inr rel \<Rightarrow> (s', Inr rel))))"

section \<open>CRD informer\<close>

text \<open>
  The handlers of the informer: an event carries the specification of the definition, \<open>None\<close> when
  the object is not a \<open>CustomResourceDefinition\<close>; the result is the state after the reset, if any.
\<close>

datatype 'spec crd_event = CrdAdded "'spec option" | CrdUpdated "'spec option" "'spec option" | CrdDeleted "'spec option"

definition reset_mapper :: "('w, 'ch) helm_env \<Rightarrow> 'w hstate \<Rightarrow> 'w hstate" where
  "reset_mapper env s = perform s (mapperReset env (world s)) CallReset"

definition on_crd_event :: "('w, 'ch) helm_env \<Rightarrow> bool \<Rightarrow> 'w hstate \<Rightarrow> 'spec crd_event \<Rightarrow> 'w hstate" where
  "on_crd_event env invalidator s ev =
     (case ev of
        CrdAdded x \<Rightarrow> if invalidator then reset_mapper env s else s
      | CrdDeleted x \<Rightarrow> if invalidator then reset_mapper env s else s
      | CrdUpdated (Some old) (Some new) \<Rightarrow>
          if old = new then s else if invalidator then reset_mapper env s else s
      | CrdUpdated x y \<Rightarrow> s)"

section \<open>A concrete environment\<close>

text \<open>One ConfigMap, live, rendered as it is; the world counts the real upgrades.\<close>

definition example_object :: "string \<Rightarrow> obj" where
  "example_object tp =
     [(''apiVersion'', AString ''v1''), (''kind'', AString ''ConfigMap''),
      (''metadata'', AMap [(''name'', AString ''cm''),
         (''annotations'', AMap [(traceparentAnnotation, AString tp)])])]"

definition example_info :: "string \<Rightarrow> info" where
  "example_info tp = \<lparr>info_Object = example_object tp, info_Namespace = ''ns'', info_Name = ''cm''\<rparr>"

definition example_release :: "nat \<Rightarrow> hrelease" where
  "example_release n = \<lparr>h_Name = ''r'', h_Namespace = ''ns'', h_Version = int n, h_ChartVersion = ''1.0.0'',
     h_Info = Some (''deployed'', 0), h_Manifest = ''m''\<rparr>"

definition example_client :: helm_client where
  "example_client = \<lparr>hc_namespace = ''ns'', hc_restConfig = ''rest'', hc_cache = None, hc_cachedClients = True,
     hc_crdInformer = False\<rparr>"

definition example_env :: "(nat, unit) helm_env" where
  "example_env = \<lparr>
     fromKubeConfig = (\<lambda>k. Inr k),
     initRun = (\<lambda>w g ns. None),
     traced = (\<lambda>r. r),
     getterGet = (\<lambda>w ref opts. Inr ref),
     loadArchive = (\<lambda>d. Inr ()),
     chartType = (\<lambda>ch. ''application''),
     chartHasDeps = (\<lambda>ch. False),
     missingDeps = (\<lambda>ch. None),
     isNoMatchError = (\<lambda>e. False),
     sdkInstall = zero_install_client,
     sdkUpgrade = zero_upgrade_client,
     sdkRollback = undefined, sdkUninstall = undefined, sdkList = undefined,
     installRun = (\<lambda>ac w cl ch vs. (Suc w, if w = 0 then Inl (GErr ''no matches for kind'') else Inr (example_release w))),
     upgradeRun = (\<lambda>ac w cl name ch vs. if cl_DryRun cl then (w, Inr (example_release w))
                     else (Suc w, Inr (example_release (Suc w)))),
     rollbackRun = (\<lambda>ac w cl name. (w, None)),
     uninstallRun = (\<lambda>ac w cl name. (0, None)),
     getRun = (\<lambda>ac w v name. if w = 0 then Inl ReleaseNotFound else Inr (example_release w)),
     listRun = (\<lambda>ac w cl. Inr [example_release w]),
     mapperReset = (\<lambda>w. w),
     kubeBuild = (\<lambda>ac w m validate. Inr (if validate then [example_info ''fresh''] else [])),
     kubeGet = (\<lambda>ac w i. if info_Name i = ''cm'' then Some (example_object ''old'') else None),
     isMatchingInfo = (\<lambda>a b. info_Name a = info_Name b \<and> info_Namespace a = info_Namespace b),
     hasThreeWay = (\<lambda>ac. True),
     updateThreeWayMerge = (\<lambda>ac w cur t force. (w, Inr \<lparr>mr_Created = 0, mr_Deleted = 0, mr_Target = t\<rparr>)),
     updateTwoWay = (\<lambda>ac w cur t force. (w, Inl (GErr ''unused''))),
     splitManifests = (\<lambda>m. [m]),
     parseHead = (\<lambda>doc. Some (''v1'', ''ConfigMap'')),
     parseGroupVersion = (\<lambda>av. Some ([], av)),
     mapperServes = (\<lambda>m w g. True),
     gvkText = gvk_kind,
     releasesLast = (\<lambda>ac w name. Inr (Some (example_release w))),
     releasesDeployed = (\<lambda>ac w name. Inr (Some (example_release w))),
     releasesUpdate = (\<lambda>ac w rel. (w, None)),
     kapi = json_api\<rparr>"

section \<open>Properties\<close>

lemma calls_perform [simp]: "calls (perform s w x) = calls s @ [x]"
  by (simp add: perform_def)

lemma world_perform [simp]: "world (perform s w x) = w"
  by (simp add: perform_def)

text \<open>The call of an upgrade with a configuration.\<close>

definition upgrade_call :: "('w, 'ch) helm_env \<Rightarrow> upgrade_config \<Rightarrow> call" where
  "upgrade_call env cfg =
     (let d = applyDryRun (cl_DryRun (sdkUpgrade env), cl_DryRunOption (sdkUpgrade env))
                (ac_DryRun (action_of (uc_ActionConfig cfg)))
      in CallUpgrade (fst d) (snd d) (uc_Install cfg))"

lemma upgrade_config_of_filled [simp]:
  "upgrade_config_of (Some (upgrade_config_of cfg)) = upgrade_config_of cfg"
  by (simp add: upgrade_config_of_def Let_def action_of_def)

lemma upgrade_call_filled [simp]: "upgrade_call env (upgrade_config_of (Some cfg)) = upgrade_call env cfg"
  by (simp add: upgrade_call_def upgrade_config_of_def Let_def action_of_def)

lemma Upgrade_calls:
  assumes "Upgrade env c s name chartRef cfg = (s', r)"
  shows "(calls s' = calls s \<or> calls s' = calls s @ [upgrade_call env (upgrade_config_of cfg)]) \<and>
    (r = Inr rel \<longrightarrow> calls s' = calls s @ [upgrade_call env (upgrade_config_of cfg)])"
proof -
  let ?cfg = "upgrade_config_of cfg" and ?a = "action_of (uc_ActionConfig (upgrade_config_of cfg))"
  have flags: "CallUpgrade (cl_DryRun (applyUpgradeConfig (sdkUpgrade env) ns ?cfg ?a))
      (cl_DryRunOption (applyUpgradeConfig (sdkUpgrade env) ns ?cfg ?a))
      (ucl_Install (applyUpgradeConfig (sdkUpgrade env) ns ?cfg ?a)) = upgrade_call env ?cfg" for ns
    by (simp add: upgrade_call_def applyUpgradeConfig_def Let_def)
  show ?thesis
    using assms unfolding Upgrade_def Let_def
    by (auto simp: flags split: sum.splits option.splits prod.splits)
qed

lemmas Upgrade_ok_calls = Upgrade_calls [THEN conjunct2, THEN mp, OF _ refl]

lemma install_calls:
  assumes "install env c s ns name chartRef cfg a ac = (s', r)"
  shows "\<exists>n\<le>1. calls s' = calls s @
      replicate n (CallInstall (fst (applyDryRun (cl_DryRun (sdkInstall env), cl_DryRunOption (sdkInstall env)) (ac_DryRun a)))) \<and>
    (r = Inr rel \<longrightarrow> n = 1)"
proof -
  let ?d = "fst (applyDryRun (cl_DryRun (sdkInstall env), cl_DryRunOption (sdkInstall env)) (ac_DryRun a))"
  have flag: "cl_DryRun (applyInstallConfig (sdkInstall env) name ns cfg a) = ?d"
    by (simp add: applyInstallConfig_def Let_def)
  have "calls s' = calls s \<and> \<not> (r = Inr rel) \<or> calls s' = calls s @ [CallInstall ?d]"
    using assms unfolding install_def Let_def by (auto simp: flag split: sum.splits prod.splits)
  then show ?thesis
  proof
    assume "calls s' = calls s \<and> \<not> (r = Inr rel)"
    then show ?thesis by (intro exI [of _ 0]) simp
  next
    assume "calls s' = calls s @ [CallInstall ?d]"
    then show ?thesis by (intro exI [of _ 1]) simp
  qed
qed

text \<open>
  An install is retried at most once and only after a refresh of discovery.  The writes of one
  \<open>Install\<close> are at most one install, then possibly one reset of the cached mapper followed by at most
  one more install; there is no reset unless the client has cached discovery clients, no second install
  without the reset, and no success without an install.  Both attempts run in the same dry-run mode.
\<close>

theorem Install_retries_once:
  assumes "Install env c s name chartRef (Some cfg) = (s', r)"
    and "d = fst (applyDryRun (cl_DryRun (sdkInstall env), cl_DryRunOption (sdkInstall env))
                  (ac_DryRun (action_of (ic_ActionConfig cfg))))"
  shows "\<exists>n rs n'. n \<le> 1 \<and> n' \<le> 1 \<and> (rs = [] \<and> n' = 0 \<or> rs = [CallReset] \<and> hc_cachedClients c) \<and>
    calls s' = calls s @ replicate n (CallInstall d) @ rs @ replicate n' (CallInstall d) \<and>
    (r = Inr rel \<longrightarrow> n + n' > 0)"
proof -
  let ?a = "action_of (ic_ActionConfig cfg)"
  let ?ns = "if ic_Namespace cfg \<noteq> [] then ic_Namespace cfg else hc_namespace c"
  let ?rest = "case ic_RestConfig cfg of Some r \<Rightarrow> r | None \<Rightarrow> hc_restConfig c"
  note inst = install_calls [where a = ?a and env = env and rel = rel, folded assms(2)]
  show ?thesis
  proof (cases "newActionConfig env c (world s) ?ns ?rest (Some ?a)")
    case (Inl e)
    with assms(1) have "s' = s \<and> r = Inl e" by (simp add: Install_def Let_def)
    then show ?thesis by (intro exI [of _ 0] exI [of _ "[]"] exI [of _ 0]) simp
  next
    case (Inr ac)
    obtain s1 r1 where i1: "install env c s ?ns name chartRef cfg ?a ac = (s1, r1)" by (metis surj_pair)
    obtain n where n: "n \<le> 1" "calls s1 = calls s @ replicate n (CallInstall d)" "r1 = Inr rel \<longrightarrow> n = 1"
      using inst [OF i1] by blast
    let ?s2 = "perform s1 (mapperReset env (world s1)) CallReset"
    have eq: "(s', r) = (case r1 of Inr rel \<Rightarrow> (s1, Inr rel)
      | Inl e \<Rightarrow> if hc_cachedClients c \<and> e \<noteq> GPanic \<and> isRESTMappingMiss env (Some e)
          then case newActionConfig env c (world ?s2) ?ns ?rest (Some ?a) of Inl e2 \<Rightarrow> (?s2, Inl e)
               | Inr ac2 \<Rightarrow> install env c ?s2 ?ns name chartRef cfg ?a ac2
          else (s1, Inl e))"
      unfolding assms(1) [symmetric] Install_def Let_def option.case Inr sum.case i1 prod.case by (rule refl)
    consider (keep) "s' = s1" "r = r1"
      | (reset) e where "s' = ?s2" "r = Inl e" "hc_cachedClients c"
      | (retry) ac2 where "install env c ?s2 ?ns name chartRef cfg ?a ac2 = (s', r)" "hc_cachedClients c"
    proof (cases r1)
      case (Inl e)
      with eq that show ?thesis
        by (cases "newActionConfig env c (world ?s2) ?ns ?rest (Some ?a)")
          (simp_all only: sum.case split: if_splits, auto)
    qed (use eq that(1) in simp)
    then show ?thesis
    proof cases
      case keep
      with n show ?thesis by (intro exI [of _ n] exI [of _ "[]"] exI [of _ 0]) auto
    next
      case reset
      with n show ?thesis by (intro exI [of _ n] exI [of _ "[CallReset]"] exI [of _ 0]) auto
    next
      case retry
      obtain n' where "n' \<le> 1" "calls s' = calls ?s2 @ replicate n' (CallInstall d)" "r = Inr rel \<longrightarrow> n' = 1"
        using inst [OF retry(1)] by blast
      with n retry(2) show ?thesis by (intro exI [of _ n] exI [of _ "[CallReset]"] exI [of _ n']) auto
    qed
  qed
qed

lemma example_install:
  "Install example_env example_client \<lparr>world = 0, calls = []\<rparr> ''r'' ''c'' (Some zero_install_config) =
     (\<lparr>world = 2, calls = [CallInstall False, CallReset, CallInstall False]\<rparr>,
      toWrapperRelease (example_release 1))"
  by (simp add: Install_def install_def example_env_def example_client_def zero_install_config_def newActionConfig_def
      action_of_def zero_action_config_def prepare_chart_def loadChart_def checkChartType_def checkDependencies_def
      applyInstallConfig_def applyDryRun_def zero_install_client_def sdk_defaults_def action_client.defs install_client.defs isRESTMappingMiss_def perform_def Let_def
      HasPrefix_def)

theorem Install_retries_once_witness:
  "calls (fst (Install example_env example_client \<lparr>world = 0, calls = []\<rparr> ''r'' ''c'' (Some zero_install_config))) =
     [CallInstall False, CallReset, CallInstall False]"
  using Install_retries_once [OF example_install refl, of undefined] by (simp add: example_install)

definition crd_relevant :: "'spec crd_event \<Rightarrow> bool" where
  "crd_relevant ev = (case ev of CrdUpdated (Some old) (Some new) \<Rightarrow> old \<noteq> new | CrdUpdated x y \<Rightarrow> False | _ \<Rightarrow> True)"

text \<open>
  The informer invalidates discovery exactly when the served kinds may have changed: after any
  sequence of events the cached mapper was reset once for every added or deleted definition and for
  every update that changed a specification, and not at all for the others.
\<close>

theorem crd_informer_resets:
  "calls (fold (\<lambda>ev s. on_crd_event env True s ev) evs s) =
     calls s @ replicate (length (filter crd_relevant evs)) CallReset"
  by (induction evs arbitrary: s)
    (auto simp: on_crd_event_def crd_relevant_def reset_mapper_def replicate_app_Cons_same
      split: crd_event.splits option.splits)

end
