(* ===== verification/Helm_Reconcile.thy ===== *)
theory Helm_Reconcile
  imports Helm_Client
begin

text \<open>
  The apply-if-changed engine, \<open>helm/v3/reconcile.go\<close>: \<open>Reconcile\<close>,
  \<open>filterUnmappableManifestDocs\<close>, \<open>dropUnservedFromStoredManifest\<close>, \<open>selectCurrentForBuild\<close>, over the
  client and the environment of \<open>Helm_Client\<close>.

  The properties state the order and number of writes of one reconcile (\<open>Reconcile_trace\<close>,
  \<open>Reconcile_first_install\<close>, \<open>Reconcile_errors\<close>), what is handed to the merge
  (\<open>reconcile_merge_prepares\<close>), when the result is a change (\<open>reconcile_changed_iff\<close>) and the repair of
  the stored manifest (\<open>filterUnmappable_repairs\<close>, \<open>dropUnserved_repairs_built_revision\<close>).
\<close>

section \<open>Repair of the stored manifest\<close>

definition is_blank :: "string \<Rightarrow> bool" where
  "is_blank doc = (TrimSpace doc = [])"

text \<open>The verdict on one document: skipped, kept, or dropped with its printed kind.\<close>

datatype doc_verdict = DocSkip | DocKeep | DocDrop string

definition doc_verdict_of ::
  "('w, 'ch) helm_env \<Rightarrow> (gvk \<Rightarrow> bool) \<Rightarrow> string \<Rightarrow> doc_verdict" where
  "doc_verdict_of env mapper doc =
     (if is_blank doc then DocSkip
      else case parseHead env doc of
             None \<Rightarrow> DocKeep
           | Some (apiVersion, kind) \<Rightarrow>
               if kind = [] \<or> apiVersion = [] then DocKeep
               else case parseGroupVersion env apiVersion of
                      None \<Rightarrow> DocKeep
                    | Some (grp, ver) \<Rightarrow>
                        (let g = \<lparr>gvk_group = grp, gvk_version = ver, gvk_kind = kind\<rparr> in
                         if mapper g then DocKeep else DocDrop (gvkText env g)))"

fun split_docs ::
  "('w, 'ch) helm_env \<Rightarrow> (gvk \<Rightarrow> bool) \<Rightarrow> string list \<Rightarrow> string list \<times> string list" where
  "split_docs env mapper [] = ([], [])"
| "split_docs env mapper (doc # docs) =
     (let (kept, dropped) = split_docs env mapper docs in
      case doc_verdict_of env mapper doc of
        DocSkip \<Rightarrow> (kept, dropped)
      | DocKeep \<Rightarrow> (doc # kept, dropped)
      | DocDrop g \<Rightarrow> (kept, g # dropped))"

definition doc_separator :: string where
  "doc_separator = [CHR 0x0A] @ ''---'' @ [CHR 0x0A]"

definition filterUnmappableManifestDocs ::
  "('w, 'ch) helm_env \<Rightarrow> (gvk \<Rightarrow> bool) \<Rightarrow> string \<Rightarrow> string \<times> string list" where
  "filterUnmappableManifestDocs env mapper manifest =
     (let (kept, dropped) = split_docs env mapper (splitManifests env manifest) in
      if dropped = [] then (manifest, []) else (Join kept doc_separator, dropped))"

definition selectCurrentForBuild ::
  "hrelease option \<Rightarrow> gerr + hrelease option \<Rightarrow> hrelease option" where
  "selectCurrentForBuild lastRel deployed =
     (if (case lastRel of Some r \<Rightarrow> map_option fst (h_Info r) = Some ''deployed'' | None \<Rightarrow> False) then lastRel
      else case deployed of Inr (Some dep) \<Rightarrow> Some dep | _ \<Rightarrow> lastRel)"

text \<open>The manifest to go on with, the dropped kinds and the error, as the Go function returns them.\<close>

definition dropUnservedFromStoredManifest ::
  "('w, 'ch) helm_env \<Rightarrow> helm_client \<Rightarrow> 'w hstate \<Rightarrow> upgrade_config \<Rightarrow> string \<Rightarrow> string \<Rightarrow>
   'w hstate \<times> string \<times> string list \<times> gerr option" where
  "dropUnservedFromStoredManifest env c s cfg name manifest =
     (case newActionConfig env c (world s) (hc_namespace c) (hc_restConfig c) (uc_ActionConfig cfg) of
        Inl e \<Rightarrow> (s, manifest, [], Some (GWrap ''building action config'' e))
      | Inr ac \<Rightarrow>
          (case ToRESTMapper (fromKubeConfig env) [] (acf_getter ac) of
             Inl e \<Rightarrow> (s, manifest, [], Some (GWrap ''rest mapper'' e))
           | Inr mapper \<Rightarrow>
               (case releasesLast env ac (world s) name of
                  Inl e \<Rightarrow> (s, manifest, [], Some (GWrap ''load release for repair'' e))
                | Inr lastRel \<Rightarrow>
                    (case selectCurrentForBuild lastRel (releasesDeployed env ac (world s) name) of
                       None \<Rightarrow> (s, manifest, [], Some GPanic)
                     | Some rel \<Rightarrow>
                         (let (repaired, dropped) = filterUnmappableManifestDocs env (mapperServes env mapper (world s)) (h_Manifest rel) in
                          if dropped = [] then (s, manifest, [], None)
                          else let rel' = rel\<lparr>h_Manifest := repaired\<rparr>;
                                   (w, r) = releasesUpdate env ac (world s) rel';
                                   s' = perform s w (CallPersist rel')
                               in case r of
                                    Some e \<Rightarrow> (s', manifest, dropped, Some (GWrap ''persist repaired release'' e))
                                  | None \<Rightarrow> (s', repaired, dropped, None))))))"

section \<open>Reconcile\<close>

text \<open>Step 4: the live snapshot; an object that cannot be read counts as absent.\<close>

record snapshot =
  absent :: "string list"
  liveTraceparent :: smap
  liveObj :: "(string, obj) gomap"

fun take_snapshot :: "kube_api \<Rightarrow> (info \<Rightarrow> obj option) \<Rightarrow> info list \<Rightarrow> snapshot \<Rightarrow> snapshot" where
  "take_snapshot api live [] sn = sn"
| "take_snapshot api live (i # is) sn =
     (let key = infoKey api i in
      case live i of
        None \<Rightarrow> take_snapshot api live is (sn\<lparr>absent := key # absent sn\<rparr>)
      | Some o' \<Rightarrow>
          (let tp = annotationOf api o' traceparentAnnotation;
               sn' = sn\<lparr>liveObj := AList.update key o' (liveObj sn)\<rparr>
           in take_snapshot api live is
                (if tp \<noteq> [] then sn'\<lparr>liveTraceparent := AList.update key tp (liveTraceparent sn')\<rparr> else sn')))"

definition empty_snapshot :: snapshot where
  "empty_snapshot = \<lparr>absent = [], liveTraceparent = [], liveObj = []\<rparr>"

text \<open>Step 4.5, then step 4.6.\<close>

definition neutralize_traceparent :: "kube_api \<Rightarrow> snapshot \<Rightarrow> info \<Rightarrow> info" where
  "neutralize_traceparent api sn i =
     (let key = infoKey api i in
      if key \<in> set (absent sn) then i
      else case map_of (liveTraceparent sn) key of
             None \<Rightarrow> i
           | Some tp \<Rightarrow> i\<lparr>info_Object := setAnnotation api (info_Object i) traceparentAnnotation tp\<rparr>)"

definition normalize_secret :: "kube_api \<Rightarrow> info \<Rightarrow> info" where
  "normalize_secret api i = i\<lparr>info_Object := normalizeSecretStringData api (info_Object i)\<rparr>"

text \<open>Step 4.7: adoption of live targets that the current list lacks.\<close>

fun adopt_missing ::
  "('w, 'ch) helm_env \<Rightarrow> snapshot \<Rightarrow> info list \<Rightarrow> info list \<Rightarrow> info list" where
  "adopt_missing env sn [] current = current"
| "adopt_missing env sn (t # ts) current =
     (if infoKey (kapi env) t \<in> set (absent sn) then adopt_missing env sn ts current
      else if list_ex (\<lambda>c. isMatchingInfo env c t) current then adopt_missing env sn ts current
      else adopt_missing env sn ts (current @ [t]))"

text \<open>Step 6: the number of surviving targets whose content changed (undetermined counts).\<close>

definition child_changed :: "kube_api \<Rightarrow> snapshot \<Rightarrow> info \<Rightarrow> bool" where
  "child_changed api sn i =
     (let key = infoKey api i in
      if key \<in> set (absent sn) then False
      else case semanticallyChanged api (map_of (liveObj sn) key) (Some (info_Object i)) of
             Inl e \<Rightarrow> True
           | Inr c \<Rightarrow> c)"

definition count_patched :: "kube_api \<Rightarrow> snapshot \<Rightarrow> info list \<Rightarrow> nat" where
  "count_patched api sn target = length (filter (child_changed api sn) target)"

text \<open>Steps 6 to 8: decide, and upgrade once when something changed.\<close>

definition reconcile_decide ::
  "('w, 'ch) helm_env \<Rightarrow> helm_client \<Rightarrow> 'w hstate \<Rightarrow> string \<Rightarrow> string \<Rightarrow> upgrade_config \<Rightarrow> release \<Rightarrow>
   snapshot \<Rightarrow> merge_result \<Rightarrow> 'w hstate \<times> reconcile_result option \<times> gerr option" where
  "reconcile_decide env c s name chartRef cfg stored sn res =
     (let patched = count_patched (kapi env) sn (mr_Target res);
          changed = (mr_Created res > 0 \<or> mr_Deleted res > 0 \<or> patched > 0);
          result = \<lparr>rr_Changed = changed, rr_Created = mr_Created res, rr_Deleted = mr_Deleted res,
                    rr_PatchedUpdated = patched, rr_Release = stored\<rparr>
      in if \<not> changed then (s, Some result, None)
         else let (s', r) = Upgrade env c s name chartRef (Some cfg) in
              case r of
                Inl GPanic \<Rightarrow> (s', None, Some GPanic)
              | Inl e \<Rightarrow> (s', Some result, Some (GWrap ''reconcile: real upgrade after detected change'' e))
              | Inr rel \<Rightarrow> (s', Some (result\<lparr>rr_Release := rel\<rparr>), None))"

text \<open>Steps 3 to 5: build, snapshot, neutralise, adopt, merge.\<close>

definition merge_target :: "kube_api \<Rightarrow> snapshot \<Rightarrow> info list \<Rightarrow> info list" where
  "merge_target api sn target = map (normalize_secret api \<circ> neutralize_traceparent api sn) target"

definition reconcile_merge ::
  "('w, 'ch) helm_env \<Rightarrow> helm_client \<Rightarrow> 'w hstate \<Rightarrow> string \<Rightarrow> string \<Rightarrow> upgrade_config \<Rightarrow> release \<Rightarrow>
   string \<Rightarrow> string \<Rightarrow> 'w hstate \<times> reconcile_result option \<times> gerr option" where
  "reconcile_merge env c s name chartRef cfg stored currentManifest targetManifest =
     (case newActionConfig env c (world s) (hc_namespace c) (hc_restConfig c) (uc_ActionConfig cfg) of
        Inl e \<Rightarrow> (s, None, Some (GWrap ''reconcile: building action config'' e))
      | Inr ac \<Rightarrow>
          (case kubeBuild env ac (world s) currentManifest False of
             Inl e \<Rightarrow> (s, None, Some (GWrap ''reconcile: building current resource list'' e))
           | Inr current \<Rightarrow>
               (case kubeBuild env ac (world s) targetManifest True of
                  Inl e \<Rightarrow> (s, None, Some (GWrap ''reconcile: building target resource list'' e))
                | Inr target \<Rightarrow>
                    (let sn = take_snapshot (kapi env) (kubeGet env ac (world s)) target empty_snapshot;
                         target' = merge_target (kapi env) sn target;
                         current' = adopt_missing env sn target' current;
                         force = ac_Force (action_of (uc_ActionConfig cfg));
                         upd = (if hasThreeWay env ac then updateThreeWayMerge env else updateTwoWay env);
                         (w, r) = upd ac (world s) current' target' force;
                         s' = perform s w (CallMerge current' target' force)
                     in case r of
                          Inl e \<Rightarrow> (s', None, Some (GWrap ''reconcile: kube update (self-heal apply)'' e))
                        | Inr res \<Rightarrow> reconcile_decide env c s' name chartRef cfg stored sn res))))"

text \<open>The configuration of the render: the same, as a server-side dry run.\<close>

definition dry_config :: "upgrade_config \<Rightarrow> upgrade_config" where
  "dry_config cfg =
     cfg\<lparr>uc_ActionConfig := Some ((action_of (uc_ActionConfig cfg))\<lparr>ac_DryRun := DryRunServer\<rparr>)\<rparr>"

definition Reconcile ::
  "('w, 'ch) helm_env \<Rightarrow> helm_client \<Rightarrow> 'w hstate \<Rightarrow> string \<Rightarrow> string \<Rightarrow> upgrade_config option \<Rightarrow>
   'w hstate \<times> reconcile_result option \<times> gerr option" where
  "Reconcile env c s name chartRef cfg' =
     (let cfg = upgrade_config_of cfg' in
      case GetRelease env c (world s) name 0 of
        Inl e \<Rightarrow> (s, None, Some (errorf ''reconcile: getting stored release'' e))
      | Inr None \<Rightarrow>
          (let (s', r) = Upgrade env c s name chartRef (Some (cfg\<lparr>uc_Install := True\<rparr>)) in
           case r of
             Inl e \<Rightarrow> (s', None, Some (errorf ''reconcile: initial upgrade (no stored release)'' e))
           | Inr rel \<Rightarrow> (s', Some \<lparr>rr_Changed = True, rr_Created = 0, rr_Deleted = 0,
                                   rr_PatchedUpdated = 0, rr_Release = rel\<rparr>, None))
      | Inr (Some stored) \<Rightarrow>
          (let (s1, repaired, dropped, err) =
                 dropUnservedFromStoredManifest env c s cfg name (rel_Manifest stored) in
           case err of
             Some e \<Rightarrow> (s1, None, Some (errorf ''reconcile: repairing stored manifest'' e))
           | None \<Rightarrow>
               (let currentManifest = (if dropped \<noteq> [] then repaired else rel_Manifest stored);
                    (s2, r) = Upgrade env c s1 name chartRef (Some (dry_config cfg)) in
                case r of
                  Inl e \<Rightarrow> (s2, None, Some (errorf ''reconcile: rendering target (dry-run)'' e))
                | Inr rendered \<Rightarrow>
                    reconcile_merge env c s2 name chartRef cfg stored currentManifest (rel_Manifest rendered))))"

section \<open>The trace of writes of a reconcile\<close>

abbreviation force_of :: "upgrade_config \<Rightarrow> bool" where
  "force_of cfg \<equiv> ac_Force (action_of (uc_ActionConfig cfg))"

lemma upgrade_call_dry [simp]: "upgrade_call env (dry_config cfg) = CallUpgrade True ''server'' (uc_Install cfg)"
  by (simp add: upgrade_call_def dry_config_def action_of_def applyDryRun_def Let_def)

lemma dropUnserved_calls:
  assumes "dropUnservedFromStoredManifest env c s cfg name m = (s', m', dropped, err)"
  shows "calls s' = calls s \<or> (\<exists>rel. calls s' = calls s @ [CallPersist rel])"
    and "err = None \<Longrightarrow> dropped = [] \<Longrightarrow> s' = s \<and> m' = m"
  using assms
  by (auto simp: dropUnservedFromStoredManifest_def Let_def split: sum.splits option.splits prod.splits if_splits)

lemma reconcile_decide_cases:
  fixes env cfg sn res stored
  defines "patched \<equiv> count_patched (kapi env) sn (mr_Target res)"
  defines "changed \<equiv> mr_Created res > 0 \<or> mr_Deleted res > 0 \<or> patched > 0"
  defines "result \<equiv> \<lparr>rr_Changed = changed, rr_Created = mr_Created res, rr_Deleted = mr_Deleted res,
                     rr_PatchedUpdated = patched, rr_Release = stored\<rparr>"
  assumes "reconcile_decide env c s name chartRef cfg stored sn res = (s', r, e)"
  obtains (unchanged) "\<not> changed" "s' = s" "r = Some result" "e = None"
  | (panicked) "changed" "Upgrade env c s name chartRef (Some cfg) = (s', Inl GPanic)" "r = None" "e = Some GPanic"
  | (failed) err where "changed" "Upgrade env c s name chartRef (Some cfg) = (s', Inl err)" "err \<noteq> GPanic"
      "r = Some result"
      "e = Some (GWrap ''reconcile: real upgrade after detected change'' err)"
  | (upgraded) rel where "changed" "Upgrade env c s name chartRef (Some cfg) = (s', Inr rel)"
      "r = Some (result\<lparr>rr_Release := rel\<rparr>)" "e = None"
proof -
  obtain s1 u where up: "Upgrade env c s name chartRef (Some cfg) = (s1, u)" by (metis surj_pair)
  have "(s', r, e) = (if \<not> changed then (s, Some result, None)
      else case u of
                Inl GPanic \<Rightarrow> (s1, None, Some GPanic)
              | Inl e \<Rightarrow> (s1, Some result, Some (GWrap ''reconcile: real upgrade after detected change'' e))
              | Inr rel \<Rightarrow> (s1, Some (result\<lparr>rr_Release := rel\<rparr>), None))"
    unfolding assms(4) [symmetric] reconcile_decide_def Let_def up prod.case patched_def changed_def result_def
    by (rule refl)
  with up that show ?thesis by (cases changed; cases u) (auto split: gerr.splits)
qed

lemma reconcile_decide_ok:
  assumes "reconcile_decide env c s name chartRef cfg stored sn res = (s', Some r, None)"
  shows "calls s' = calls s @ (if rr_Changed r then [upgrade_call env cfg] else [])"
    and "rr_Changed r \<longleftrightarrow> rr_Created r > 0 \<or> rr_Deleted r > 0 \<or> rr_PatchedUpdated r > 0"
    and "rr_Created r = mr_Created res" and "rr_Deleted r = mr_Deleted res"
    and "rr_PatchedUpdated r = count_patched (kapi env) sn (mr_Target res)"
    and "\<not> rr_Changed r \<Longrightarrow> rr_Release r = stored \<and> s' = s"
  using assms
  by (cases rule: reconcile_decide_cases; simp add: Upgrade_ok_calls)+

lemma reconcile_decide_total:
  "reconcile_decide env c s name chartRef cfg stored sn res = (s', r, e) \<Longrightarrow>
   (\<exists>x. r = Some x \<and> (e \<noteq> None \<longrightarrow> rr_Changed x)) \<or> r = None \<and> e = Some GPanic"
  by (erule reconcile_decide_cases) simp_all

lemma reconcile_merge_cases:
  assumes "reconcile_merge env c s name chartRef cfg stored cm tm = (s', r, e)"
  obtains (early) err where "r = None" "e = Some err"
  | (decided) w cur t sn res where
      "reconcile_decide env c (perform s w (CallMerge cur t (force_of cfg))) name chartRef cfg stored sn res = (s', r, e)"
  using assms by (auto simp: reconcile_merge_def Let_def split: sum.splits prod.splits if_splits)

lemma reconcile_merge_ok:
  assumes "reconcile_merge env c s name chartRef cfg stored cm tm = (s', Some r, None)"
  shows "\<exists>cur t. calls s' = calls s @ CallMerge cur t (force_of cfg) #
                 (if rr_Changed r then [upgrade_call env cfg] else [])"
    and "rr_Changed r \<longleftrightarrow> rr_Created r > 0 \<or> rr_Deleted r > 0 \<or> rr_PatchedUpdated r > 0"
    and "\<not> rr_Changed r \<Longrightarrow> rr_Release r = stored"
  using assms by (cases rule: reconcile_merge_cases; force dest: reconcile_decide_ok)+

text \<open>A result, an error, or both; both only after the merge, with the change reported.\<close>

definition accounted :: "upgrade_config \<Rightarrow> 'w hstate \<Rightarrow> reconcile_result option \<Rightarrow> gerr option \<Rightarrow> bool" where
  "accounted cfg s r e \<longleftrightarrow>
     (r = None \<longrightarrow> e \<noteq> None) \<and>
     (\<forall>x err. r = Some x \<and> e = Some err \<longrightarrow> rr_Changed x \<and>
       (\<exists>e'. err = GWrap ''reconcile: real upgrade after detected change'' e') \<and>
       (\<exists>cur t. CallMerge cur t (force_of cfg) \<in> set (calls s)))"

lemma accounted_error [simp]: "accounted cfg s None (Some e)"
  by (simp add: accounted_def)

lemma accounted_result [simp]: "accounted cfg s (Some r) None"
  by (simp add: accounted_def)

lemma reconcile_merge_accounted:
  assumes "reconcile_merge env c s name chartRef cfg stored cm tm = (s', r, e)"
  shows "accounted cfg s' r e"
  using assms
proof (cases rule: reconcile_merge_cases)
  case (decided w cur t sn res)
  then show ?thesis
  proof (cases rule: reconcile_decide_cases)
    case (failed err)
    have "CallMerge cur t (force_of cfg) \<in> set (calls s')"
      using Upgrade_calls [OF failed(2)] by auto
    with failed show ?thesis by (auto simp: accounted_def)
  qed simp_all
qed simp

lemma Reconcile_stored_ok:
  assumes "GetRelease env c (world s) name 0 = Inr (Some stored)"
    and "Reconcile env c s name chartRef cfg' = (s', Some r, None)" and cfg: "cfg = upgrade_config_of cfg'"
  obtains pre s2 cm tm where "pre = [] \<or> (\<exists>rel. pre = [CallPersist rel])"
    and "calls s2 = calls s @ pre @ [CallUpgrade True ''server'' (uc_Install cfg)]"
    and "reconcile_merge env c s2 name chartRef cfg stored cm tm = (s', Some r, None)"
proof -
  obtain s1 m d err where drop: "dropUnservedFromStoredManifest env c s cfg name (rel_Manifest stored) = (s1, m, d, err)"
    by (metis prod_cases4)
  obtain s2 u where up: "Upgrade env c s1 name chartRef (Some (dry_config cfg)) = (s2, u)"
    by (metis surj_pair)
  from assms(1,2) drop up obtain rendered where "err = None" and u: "u = Inr rendered"
    and m: "reconcile_merge env c s2 name chartRef cfg stored
         (if d \<noteq> [] then m else rel_Manifest stored) (rel_Manifest rendered) = (s', Some r, None)"
    by (auto simp: Reconcile_def Let_def cfg [symmetric] split: option.splits sum.splits)
  have "calls s2 = calls s1 @ [CallUpgrade True ''server'' (uc_Install cfg)]"
    using Upgrade_ok_calls [OF up [unfolded u]] by simp
  moreover obtain pre where "calls s1 = calls s @ pre" and "pre = [] \<or> (\<exists>rel. pre = [CallPersist rel])"
    using dropUnserved_calls(1) [OF drop] by auto
  ultimately show ?thesis using that m by simp
qed

section \<open>A steady state\<close>

lemmas example_simps =
  example_env_def example_client_def example_release_def example_info_def example_object_def json_api_def
  zero_upgrade_client_def sdk_defaults_def action_client.defs upgrade_client.defs
  Reconcile_def GetRelease_def toWrapperRelease_def Upgrade_def prepare_chart_def loadChart_def checkChartType_def
  checkDependencies_def newActionConfig_def NewRESTClientGetterWithCachedClients_def
  upgrade_config_of_def zero_upgrade_config_def action_of_def zero_action_config_def dry_config_def
  applyUpgradeConfig_def applyDryRun_def ToRESTMapper_def
  dropUnservedFromStoredManifest_def selectCurrentForBuild_def filterUnmappableManifestDocs_def
  doc_verdict_of_def is_blank_def TrimSpace_def is_space_def
  reconcile_merge_def empty_snapshot_def infoKey_def annotationOf_def setAnnotation_def
  metadata_of_def string_map_at_def string_field_def merge_target_def neutralize_traceparent_def
  normalize_secret_def normalizeSecretStringData_def of_strings_def
  reconcile_decide_def count_patched_def child_changed_def semanticallyChanged_def strippedJSON_def
  traceparentAnnotation_def perform_def Let_def isEmptyPatch_def

lemma example_steady:
  "Reconcile example_env example_client \<lparr>world = 3, calls = []\<rparr> ''r'' ''c'' None =
     (\<lparr>world = 3, calls = [CallUpgrade True ''server'' False,
         CallMerge [example_info ''old''] [example_info ''old''] False]\<rparr>,
      Some \<lparr>rr_Changed = False, rr_Created = 0, rr_Deleted = 0, rr_PatchedUpdated = 0,
            rr_Release = \<lparr>rel_Name = ''r'', rel_Namespace = ''ns'', rel_Revision = 3, rel_ChartVersion = ''1.0.0'',
              rel_Status = ''deployed'', rel_Values = None, rel_Manifest = ''m'', rel_Updated = 0\<rparr>\<rparr>, None)"
  by (simp add: example_simps)

lemma example_stored:
  "GetRelease example_env example_client 3 ''r'' 0 =
     Inr (Some \<lparr>rel_Name = ''r'', rel_Namespace = ''ns'', rel_Revision = 3, rel_ChartVersion = ''1.0.0'',
              rel_Status = ''deployed'', rel_Values = None, rel_Manifest = ''m'', rel_Updated = 0\<rparr>)"
  by (simp add: example_simps)

section \<open>Properties of the trace\<close>

text \<open>
  C1: when a stored release exists and \<open>Reconcile\<close> returns a result without an error, its writes are, in
  this order: at most one update of the stored release (the repair), one server dry-run upgrade, one
  merge, and then one upgrade with the caller's configuration if and only if the result says changed.
  The result says changed if and only if an object was created, deleted or patched.  At steady state
  no revision is written: the stored release is returned as it was.
\<close>

theorem Reconcile_trace:
  assumes "GetRelease env c (world s) name 0 = Inr (Some stored)"
    and "Reconcile env c s name chartRef cfg' = (s', Some r, None)" and "cfg = upgrade_config_of cfg'"
  shows "\<exists>pre cur t. (pre = [] \<or> (\<exists>rel. pre = [CallPersist rel])) \<and>
      calls s' = calls s @ pre @ [CallUpgrade True ''server'' (uc_Install cfg), CallMerge cur t (force_of cfg)] @
        (if rr_Changed r then [upgrade_call env cfg] else []) \<and>
      (rr_Changed r \<longleftrightarrow> rr_Created r > 0 \<or> rr_Deleted r > 0 \<or> rr_PatchedUpdated r > 0) \<and>
      (\<not> rr_Changed r \<longrightarrow> rr_Release r = stored)"
proof -
  from assms obtain pre s2 cm tm where pre: "pre = [] \<or> (\<exists>rel. pre = [CallPersist rel])"
    and c2: "calls s2 = calls s @ pre @ [CallUpgrade True ''server'' (uc_Install cfg)]"
    and m: "reconcile_merge env c s2 name chartRef cfg stored cm tm = (s', Some r, None)"
    by (rule Reconcile_stored_ok)
  obtain cur t where "calls s' = calls s2 @ CallMerge cur t (force_of cfg) #
                 (if rr_Changed r then [upgrade_call env cfg] else [])"
    using reconcile_merge_ok(1) [OF m] by blast
  with pre c2 reconcile_merge_ok(2,3) [OF m] show ?thesis
    by (intro exI [of _ pre] exI [of _ cur] exI [of _ t]) simp
qed

theorem Reconcile_trace_witness:
  "fst (Reconcile example_env example_client \<lparr>world = 3, calls = []\<rparr> ''r'' ''c'' None) =
     \<lparr>world = 3, calls = [CallUpgrade True ''server'' False,
        CallMerge [example_info ''old''] [example_info ''old''] False]\<rparr>"
  using Reconcile_trace [of example_env example_client "\<lparr>world = 3, calls = []\<rparr>", simplified hstate.simps,
      OF example_stored example_steady refl]
  by (simp add: example_steady)

text \<open>
  When no release is stored, \<open>Reconcile\<close> writes at most once, an upgrade with \<open>Install\<close> set; if
  that succeeds the result says changed, carries the new release and no counts, and otherwise the
  result is nil and the error is the upgrade's, wrapped.
\<close>

theorem Reconcile_first_install:
  assumes "GetRelease env c (world s) name 0 = Inr None" and "cfg = (upgrade_config_of cfg')\<lparr>uc_Install := True\<rparr>"
  shows "case Upgrade env c s name chartRef (Some cfg) of
      (s', Inr rel) \<Rightarrow> calls s' = calls s @ [upgrade_call env cfg] \<and>
        Reconcile env c s name chartRef cfg' =
          (s', Some \<lparr>rr_Changed = True, rr_Created = 0, rr_Deleted = 0, rr_PatchedUpdated = 0, rr_Release = rel\<rparr>, None)
    | (s', Inl e) \<Rightarrow> calls s' \<in> {calls s, calls s @ [upgrade_call env cfg]} \<and>
        Reconcile env c s name chartRef cfg' =
          (s', None, Some (errorf ''reconcile: initial upgrade (no stored release)'' e))"
proof -
  obtain s' r where up: "Upgrade env c s name chartRef (Some cfg) = (s', r)" by (metis surj_pair)
  with assms Upgrade_calls [OF up] show ?thesis
    by (cases r) (auto simp: Reconcile_def)
qed

theorem Reconcile_first_install_witness:
  "calls (fst (Upgrade example_env example_client \<lparr>world = 0, calls = []\<rparr> ''r'' ''c''
      (Some ((upgrade_config_of None)\<lparr>uc_Install := True\<rparr>)))) = [CallUpgrade False [] True]"
proof -
  have "GetRelease example_env example_client (world \<lparr>world = 0, calls = []\<rparr>) ''r'' 0 = Inr None"
    by (simp add: example_simps)
  from Reconcile_first_install [OF this refl, of None "''c''"] show ?thesis
    by (simp add: example_simps upgrade_call_def)
qed

text \<open>
  C37: every outcome is accounted for.  \<open>Reconcile\<close> returns a result, an error, or both; both only
  when a change was detected, the merge was already made and the upgrade that should record it failed,
  and then the result still says changed, so that the caller cannot mistake a half-applied reconcile
  for a steady state.
\<close>

theorem Reconcile_errors:
  assumes "Reconcile env c s name chartRef cfg' = (s', r, e)" and "cfg = upgrade_config_of cfg'"
  shows "(r = None \<longrightarrow> e \<noteq> None) \<and>
    (\<forall>x err. r = Some x \<and> e = Some err \<longrightarrow> rr_Changed x \<and>
      (\<exists>e'. err = GWrap ''reconcile: real upgrade after detected change'' e') \<and>
      (\<exists>cur t. CallMerge cur t (force_of cfg) \<in> set (calls s')))"
proof -
  have "accounted cfg s' r e"
    using assms(1) unfolding Reconcile_def Let_def assms(2) [symmetric]
    by (auto dest: reconcile_merge_accounted
        split: prod.splits sum.splits option.splits if_splits)
  then show ?thesis unfolding accounted_def .
qed

theorem Reconcile_errors_witness:
  "fst (snd (Reconcile example_env example_client \<lparr>world = 3, calls = []\<rparr> ''r'' ''c'' None)) \<noteq> None"
  using Reconcile_errors [OF example_steady refl] by (simp add: example_steady)

section \<open>What is handed to the merge\<close>

lemma snapshot_absent:
  "set (absent (take_snapshot api live is sn)) = set (absent sn) \<union> {infoKey api i |i. i \<in> set is \<and> live i = None}"
  by (induction "is" arbitrary: sn) (auto simp: Let_def split: option.splits)

lemma snapshot_other:
  "key \<notin> infoKey api ` set is \<Longrightarrow>
   map_of (liveTraceparent (take_snapshot api live is sn)) key = map_of (liveTraceparent sn) key \<and>
   map_of (liveObj (take_snapshot api live is sn)) key = map_of (liveObj sn) key"
  by (induction "is" arbitrary: sn) (auto simp: Let_def split: option.splits)

lemma snapshot_live:
  assumes "distinct (map (infoKey api) is)" and "i \<in> set is" and "live i = Some x"
  shows "map_of (liveObj (take_snapshot api live is sn)) (infoKey api i) = Some x \<and>
    (annotationOf api x traceparentAnnotation \<noteq> [] \<longrightarrow>
     map_of (liveTraceparent (take_snapshot api live is sn)) (infoKey api i) =
       Some (annotationOf api x traceparentAnnotation))"
  using assms by (induction "is" arbitrary: sn) (auto simp: Let_def snapshot_other split: option.splits)

lemma snapshot_key_live:
  assumes "distinct (map (infoKey api) is)" and "i \<in> set is" and "live i = Some x"
  shows "infoKey api i \<notin> set (absent (take_snapshot api live is empty_snapshot))"
  using assms by (auto simp: snapshot_absent empty_snapshot_def distinct_map dest: inj_onD)

lemma adopt_missing_extends:
  "\<exists>ad. adopt_missing env sn ts current = current @ ad \<and> set ad \<subseteq> set ts \<and>
     (\<forall>a\<in>set ad. infoKey (kapi env) a \<notin> set (absent sn) \<and> \<not> (\<exists>c\<in>set current. isMatchingInfo env c a))"
proof (induction ts arbitrary: current)
  case (Cons t ts)
  show ?case
  proof (cases "infoKey (kapi env) t \<in> set (absent sn) \<or> list_ex (\<lambda>c. isMatchingInfo env c t) current")
    case True
    then have "adopt_missing env sn (t # ts) current = adopt_missing env sn ts current" by auto
    with Cons.IH [of current] show ?thesis by auto
  next
    case False
    then have "adopt_missing env sn (t # ts) current = adopt_missing env sn ts (current @ [t])" by simp
    moreover obtain ad where "adopt_missing env sn ts (current @ [t]) = (current @ [t]) @ ad" "set ad \<subseteq> set ts"
      "\<forall>a\<in>set ad. infoKey (kapi env) a \<notin> set (absent sn) \<and>
         \<not> (\<exists>c\<in>set (current @ [t]). isMatchingInfo env c a)"
      using Cons.IH by blast
    ultimately show ?thesis using False by (intro exI [of _ "t # ad"]) (auto simp: list_ex_iff)
  qed
qed simp

lemma adopt_missing_matches:
  assumes "\<forall>i. isMatchingInfo env i i" and "t \<in> set ts" and "infoKey (kapi env) t \<notin> set (absent sn)"
  shows "\<exists>c\<in>set (adopt_missing env sn ts current). isMatchingInfo env c t"
  using assms(2)
proof (induction ts arbitrary: current)
  case (Cons x xs)
  have keep: "c \<in> set cur \<Longrightarrow> c \<in> set (adopt_missing env sn xs cur)" for c cur
    using adopt_missing_extends [of env sn xs cur] by auto
  show ?case
  proof (cases "t = x")
    case True
    show ?thesis
    proof (cases "list_ex (\<lambda>c. isMatchingInfo env c t) current")
      case True
      then obtain c where "c \<in> set current" "isMatchingInfo env c t" by (auto simp: list_ex_iff)
      with keep show ?thesis using \<open>t = x\<close> by auto
    next
      case False
      with \<open>t = x\<close> assms(1,3) keep [of t "current @ [t]"] show ?thesis by auto
    qed
  qed (use Cons in auto)
qed simp

lemma reconcile_decide_extends:
  assumes "reconcile_decide env c s name chartRef cfg stored sn res = (s', r, e)"
  shows "\<exists>rest. calls s' = calls s @ rest"
  using assms by (cases rule: reconcile_decide_cases) (auto dest!: Upgrade_calls)

lemma reconcile_merge_calls:
  fixes env s cfg ac current target
  defines "sn \<equiv> take_snapshot (kapi env) (kubeGet env ac (world s)) target empty_snapshot"
  defines "target' \<equiv> merge_target (kapi env) sn target"
  assumes "newActionConfig env c (world s) (hc_namespace c) (hc_restConfig c) (uc_ActionConfig cfg) = Inr ac"
    and "kubeBuild env ac (world s) cm False = Inr current"
    and "kubeBuild env ac (world s) tm True = Inr target"
  shows "\<exists>rest. calls (fst (reconcile_merge env c s name chartRef cfg stored cm tm)) =
    calls s @ CallMerge (adopt_missing env sn target' current) target' (force_of cfg) # rest"
proof -
  let ?upd = "if hasThreeWay env ac then updateThreeWayMerge env else updateTwoWay env"
  let ?call = "CallMerge (adopt_missing env sn target' current) target' (force_of cfg)"
  obtain w r where u: "?upd ac (world s) (adopt_missing env sn target' current) target' (force_of cfg) = (w, r)"
    by (metis surj_pair)
  have "reconcile_merge env c s name chartRef cfg stored cm tm =
    (case r of Inl e \<Rightarrow> (perform s w ?call, None, Some (GWrap ''reconcile: kube update (self-heal apply)'' e))
     | Inr res \<Rightarrow> reconcile_decide env c (perform s w ?call) name chartRef cfg stored sn res)"
    unfolding reconcile_merge_def assms(3-5) sum.case Let_def sn_def [symmetric] target'_def [symmetric] u prod.case
    by (rule refl)
  moreover obtain s' x e where
    "reconcile_decide env c (perform s w ?call) name chartRef cfg stored sn (projr r) = (s', x, e)"
    by (metis prod_cases3)
  ultimately show ?thesis by (cases r) (auto dest: reconcile_decide_extends)
qed

text \<open>The JSON tree of an object, and whether two objects can be compared by a merge patch.\<close>

definition json_of :: "kube_api \<Rightarrow> obj \<Rightarrow> obj" where
  "json_of api x = (case kubeJSON api x of Inr m \<Rightarrow> m | Inl e \<Rightarrow> [])"

definition comparable :: "kube_api \<Rightarrow> obj \<Rightarrow> obj \<Rightarrow> bool" where
  "comparable api b a \<longleftrightarrow>
     (\<exists>bj aj p. kubeJSON api b = Inr bj \<and> kubeJSON api a = Inr aj \<and>
        createMergePatch api (Some (strip_obj bj)) (Some (strip_obj aj)) = Inr p)"

context kube_laws
begin

lemma key_neutralize [simp]: "infoKey api (neutralize_traceparent api sn i) = infoKey api i"
  by (simp add: neutralize_traceparent_def infoKey_def Let_def split: option.splits)

lemma key_normalize [simp]: "infoKey api (normalize_secret api i) = infoKey api i"
  by (simp add: normalize_secret_def infoKey_def)

lemma prepared_traceparent:
  assumes "hasMeta api (info_Object i)" and "infoKey api i \<notin> set (absent sn)"
    and "map_of (liveTraceparent sn) (infoKey api i) = Some tp"
  shows "annotationOf api (info_Object (normalize_secret api (neutralize_traceparent api sn i)))
           traceparentAnnotation = tp"
  using assms by (simp add: normalize_secret_def neutralize_traceparent_def annotation_of_set)

lemma child_changed_iff:
  assumes "map_of (liveObj sn) (infoKey api i) = Some b"
  shows "child_changed api sn i \<longleftrightarrow> infoKey api i \<notin> set (absent sn) \<and>
    (\<not> comparable api b (info_Object i) \<or> \<not> json_eq (strip_obj (json_of api b)) (strip_obj (json_of api (info_Object i))))"
  using assms patch_empty
  by (auto simp: child_changed_def comparable_def json_of_def semanticallyChanged_def strippedJSON_def Let_def
      split: sum.splits)

end

text \<open>
  C15: what the merge receives.  The current list is the list built from the stored manifest followed by
  adopted targets only, and afterwards every target that is live has a matching entry in it, so
  Helm's merge never meets a live object without an original.  The targets are the rendered objects in
  their order, with the same keys, and each live target that had a \<open>krateo.io/traceparent\<close> carries that
  live value, so that the stamp of this render contributes no difference.
\<close>

theorem reconcile_merge_prepares:
  assumes "kube_laws (kapi env)" and "\<forall>i. isMatchingInfo env i i"
    and "newActionConfig env c (world s) (hc_namespace c) (hc_restConfig c) (uc_ActionConfig cfg) = Inr ac"
    and "kubeBuild env ac (world s) cm False = Inr current"
    and "kubeBuild env ac (world s) tm True = Inr target"
    and "distinct (map (infoKey (kapi env)) target)"
  shows "\<exists>ad t rest. calls (fst (reconcile_merge env c s name chartRef cfg stored cm tm)) =
      calls s @ CallMerge (current @ ad) t (force_of cfg) # rest \<and> set ad \<subseteq> set t \<and>
      map (infoKey (kapi env)) t = map (infoKey (kapi env)) target \<and>
      (\<forall>n live. n < length target \<and> kubeGet env ac (world s) (target ! n) = Some live \<longrightarrow>
         (\<exists>x\<in>set (current @ ad). isMatchingInfo env x (t ! n)) \<and>
         (hasMeta (kapi env) (info_Object (target ! n)) \<and>
          annotationOf (kapi env) live traceparentAnnotation \<noteq> [] \<longrightarrow>
          annotationOf (kapi env) (info_Object (t ! n)) traceparentAnnotation =
            annotationOf (kapi env) live traceparentAnnotation))"
proof -
  let ?api = "kapi env" and ?get = "kubeGet env ac (world s)"
  define sn where "sn = take_snapshot ?api ?get target empty_snapshot"
  define t where "t = merge_target ?api sn target"
  note keys_kept = kube_laws.key_neutralize [OF assms(1)] kube_laws.key_normalize [OF assms(1)]
  obtain rest where rest: "calls (fst (reconcile_merge env c s name chartRef cfg stored cm tm)) =
    calls s @ CallMerge (adopt_missing env sn t current) t (force_of cfg) # rest"
    using reconcile_merge_calls [OF assms(3-5)] unfolding sn_def t_def by blast
  obtain ad where ad: "adopt_missing env sn t current = current @ ad" "set ad \<subseteq> set t"
    using adopt_missing_extends by blast
  have keys: "map (infoKey ?api) t = map (infoKey ?api) target" by (simp add: t_def merge_target_def keys_kept)
  have live: "(\<exists>x\<in>set (current @ ad). isMatchingInfo env x (t ! n)) \<and>
      (hasMeta ?api (info_Object (target ! n)) \<and> annotationOf ?api x traceparentAnnotation \<noteq> [] \<longrightarrow>
       annotationOf ?api (info_Object (t ! n)) traceparentAnnotation = annotationOf ?api x traceparentAnnotation)"
    if n: "n < length target" and x: "?get (target ! n) = Some x" for n x
  proof -
    have absent: "infoKey ?api (target ! n) \<notin> set (absent sn)"
      unfolding sn_def using snapshot_key_live [where live = ?get, OF assms(6) nth_mem [OF n] x] .
    have tn: "t ! n = normalize_secret ?api (neutralize_traceparent ?api sn (target ! n))"
      using n by (simp add: t_def merge_target_def)
    have "t ! n \<in> set t" using n by (simp add: t_def merge_target_def)
    with absent have "\<exists>x\<in>set (current @ ad). isMatchingInfo env x (t ! n)"
      using adopt_missing_matches [OF assms(2), of "t ! n" t sn current] ad(1) tn by (simp add: keys_kept)
    then show ?thesis
      using snapshot_live [where live = ?get, OF assms(6) nth_mem [OF n] x, of empty_snapshot]
        kube_laws.prepared_traceparent [OF assms(1) _ absent] tn
      unfolding sn_def by simp
  qed
  show ?thesis
    using rest ad keys live by (intro exI [of _ ad] exI [of _ t] exI [of _ rest]) simp
qed

definition example_ac :: action_configuration where
  "example_ac = \<lparr>acf_getter = NewRESTClientGetterWithCachedClients ''ns'' [] ''rest'', acf_namespace = ''ns''\<rparr>"

lemma example_merge_laws:
  "kube_laws (kapi example_env)" "\<forall>i. isMatchingInfo example_env i i"
  "newActionConfig example_env example_client (world \<lparr>world = 3, calls = []\<rparr>) (hc_namespace example_client)
     (hc_restConfig example_client) (uc_ActionConfig (upgrade_config_of None)) = Inr example_ac"
  "kubeBuild example_env example_ac (world \<lparr>world = 3, calls = []\<rparr>) ''m'' False = Inr []"
  "kubeBuild example_env example_ac (world \<lparr>world = 3, calls = []\<rparr>) ''m'' True = Inr [example_info ''fresh'']"
  "distinct (map (infoKey (kapi example_env)) [example_info ''fresh''])"
  by (simp_all add: example_env_def json.kube_laws_axioms newActionConfig_def example_ac_def example_client_def
      upgrade_config_of_def action_of_def zero_upgrade_config_def zero_action_config_def)

theorem reconcile_merge_prepares_witness:
  "\<exists>ad t rest. calls (fst (reconcile_merge example_env example_client \<lparr>world = 3, calls = []\<rparr> ''r'' ''c'' (upgrade_config_of None)
        undefined ''m'' ''m'')) = CallMerge ad t False # rest \<and>
      annotationOf json_api (info_Object (t ! 0)) traceparentAnnotation = ''old''"
proof -
  have "kubeGet example_env example_ac 3 (example_info ''fresh'') = Some (example_object ''old'')"
    and "kapi example_env = json_api" and "force_of (upgrade_config_of None) = False"
    and "annotationOf json_api (example_object ''old'') traceparentAnnotation = ''old''"
    and "hasMeta json_api (info_Object (example_info ''fresh''))"
    by (simp_all add: example_env_def upgrade_config_of_def action_of_def zero_upgrade_config_def
        zero_action_config_def example_info_def example_object_def annotationOf_def json_api_def
        metadata_of_def string_map_at_def)
  then show ?thesis
    using reconcile_merge_prepares [OF example_merge_laws, of "''r''" "''c''" undefined] by fastforce
qed

section \<open>When a reconcile is a change\<close>

text \<open>
  C5: the decision.  When the snapshot holds the live object of every target that was not absent,
  \<open>Reconcile\<close> reports a change exactly when the merge created or deleted an object, or some surviving
  target cannot be compared with its former state or differs from it as a JSON tree after the fields
  that never drift are removed.  Otherwise nothing more is written and the stored release is returned.
\<close>

theorem reconcile_changed_iff:
  assumes "kube_laws (kapi env)"
    and "reconcile_decide env c s name chartRef cfg stored sn res = (s', Some x, e)"
    and "\<forall>i\<in>set (mr_Target res). infoKey (kapi env) i \<notin> set (absent sn) \<longrightarrow>
      map_of (liveObj sn) (infoKey (kapi env) i) = Some (live i)"
  shows "(rr_Changed x \<longleftrightarrow> mr_Created res > 0 \<or> mr_Deleted res > 0 \<or>
       (\<exists>i\<in>set (mr_Target res). infoKey (kapi env) i \<notin> set (absent sn) \<and>
          (\<not> comparable (kapi env) (live i) (info_Object i) \<or>
           \<not> json_eq (strip_obj (json_of (kapi env) (live i))) (strip_obj (json_of (kapi env) (info_Object i)))))) \<and>
    (\<not> rr_Changed x \<longrightarrow> s' = s \<and> e = None \<and> rr_Release x = stored)"
proof -
  have child: "child_changed (kapi env) sn i \<longleftrightarrow> infoKey (kapi env) i \<notin> set (absent sn) \<and>
      (\<not> comparable (kapi env) (live i) (info_Object i) \<or>
       \<not> json_eq (strip_obj (json_of (kapi env) (live i))) (strip_obj (json_of (kapi env) (info_Object i))))"
    if "i \<in> set (mr_Target res)" for i
  proof (cases "infoKey (kapi env) i \<in> set (absent sn)")
    case True
    then show ?thesis by (simp add: child_changed_def Let_def)
  next
    case False
    with assms(3) that show ?thesis by (simp add: kube_laws.child_changed_iff [OF assms(1)])
  qed
  have "count_patched (kapi env) sn (mr_Target res) > 0 \<longleftrightarrow>
      (\<exists>i\<in>set (mr_Target res). child_changed (kapi env) sn i)"
    by (auto simp: count_patched_def filter_empty_conv)
  with child assms(2) show ?thesis
    by (auto elim!: reconcile_decide_cases)
qed

theorem reconcile_changed_iff_witness:
  "\<exists>x. fst (snd (reconcile_decide example_env example_client \<lparr>world = 3, calls = []\<rparr> ''r'' ''c'' (upgrade_config_of None) undefined
      \<lparr>absent = [], liveTraceparent = [],
       liveObj = [(infoKey json_api (example_info ''new''), example_object ''old'')]\<rparr>
      \<lparr>mr_Created = 0, mr_Deleted = 0, mr_Target = [example_info ''new'']\<rparr>)) = Some x \<and> rr_Changed x"
proof -
  let ?sn = "\<lparr>absent = [], liveTraceparent = [],
       liveObj = [(infoKey json_api (example_info ''new''), example_object ''old'')]\<rparr>"
    and ?res = "\<lparr>mr_Created = 0, mr_Deleted = 0, mr_Target = [example_info ''new'']\<rparr>"
  let ?d = "reconcile_decide example_env example_client \<lparr>world = 3, calls = []\<rparr> ''r'' ''c'' (upgrade_config_of None) undefined
      ?sn ?res"
  obtain s' u where "Upgrade example_env example_client \<lparr>world = 3, calls = []\<rparr> ''r'' ''c'' (Some (upgrade_config_of None)) =
      (s', u)" and "u \<noteq> Inl GPanic"
    by (simp add: example_simps)
  moreover obtain s1 r1 e where d1: "?d = (s1, r1, e)" by (metis prod_cases3)
  ultimately have "r1 \<noteq> None" by (elim reconcile_decide_cases) auto
  with d1 obtain x where d: "?d = (s1, Some x, e)" by auto
  have api: "kapi example_env = json_api" by (simp add: example_env_def)
  have json: "json_of json_api x = x" for x by (simp add: json_of_def json_api_def)
  have live: "\<forall>i\<in>set (mr_Target ?res). infoKey (kapi example_env) i \<notin> set (absent ?sn) \<longrightarrow>
      map_of (liveObj ?sn) (infoKey (kapi example_env) i) = Some (example_object ''old'')"
    by (simp add: api)
  have "\<not> json_eq (strip_obj (example_object ''old'')) (strip_obj (example_object ''new''))"
    by (simp add: json_eq_def strip_obj_def example_object_def update_map_def strip_metadata_def delete_keys_def
        volatile_metadata_def helm_annotations_def traceparentAnnotation_def)
  with reconcile_changed_iff [OF example_merge_laws(1) d live] show ?thesis
    by (simp add: d api json) (simp add: example_info_def)
qed

section \<open>Repair of the stored manifest\<close>

lemma split_docs_filter:
  "split_docs env mapper docs =
     (filter (\<lambda>d. doc_verdict_of env mapper d = DocKeep) docs,
      List.map_filter (\<lambda>d. case doc_verdict_of env mapper d of DocDrop g \<Rightarrow> Some g | _ \<Rightarrow> None) docs)"
  by (induction docs) (auto simp: map_filter_simps split: doc_verdict.splits)

lemma dropped_empty_iff:
  "snd (split_docs env mapper docs) = [] \<longleftrightarrow> (\<forall>d\<in>set docs. \<nexists>g. doc_verdict_of env mapper d = DocDrop g)"
  by (induction docs) (auto simp: split: doc_verdict.splits prod.splits)

text \<open>A document the mapper can build: its head is unreadable or its kind is served.\<close>

lemma verdict_drop_iff:
  "doc_verdict_of env mapper d = DocDrop t \<longleftrightarrow>
     \<not> is_blank d \<and> (\<exists>av k grp ver. parseHead env d = Some (av, k) \<and> k \<noteq> [] \<and> av \<noteq> [] \<and>
        parseGroupVersion env av = Some (grp, ver) \<and>
        \<not> mapper \<lparr>gvk_group = grp, gvk_version = ver, gvk_kind = k\<rparr> \<and>
        t = gvkText env \<lparr>gvk_group = grp, gvk_version = ver, gvk_kind = k\<rparr>)"
  by (auto simp: doc_verdict_of_def Let_def split: option.splits)

text \<open>
  C27: the repair drops exactly the documents whose kind the cluster no longer serves.  If none is
  dropped the manifest is returned unchanged.  Otherwise it is the kept documents joined again in
  order, and, when splitting undoes joining, filtering the repaired manifest drops nothing: one repair
  is enough and the next reconcile finds nothing to do.
\<close>

theorem filterUnmappable_repairs:
  assumes "filterUnmappableManifestDocs env mapper m = (m', dropped)"
    and "\<forall>ds. set ds \<subseteq> set (splitManifests env m) \<longrightarrow> set (splitManifests env (Join ds doc_separator)) = set ds"
  shows "(dropped = [] \<longleftrightarrow> (\<forall>d\<in>set (splitManifests env m). \<nexists>t. doc_verdict_of env mapper d = DocDrop t)) \<and>
    (dropped = [] \<longrightarrow> m' = m) \<and>
    (dropped \<noteq> [] \<longrightarrow> set (splitManifests env m') =
       {d \<in> set (splitManifests env m). doc_verdict_of env mapper d = DocKeep}) \<and>
    filterUnmappableManifestDocs env mapper m' = (m', [])"
proof -
  let ?docs = "splitManifests env m"
  let ?kept = "filter (\<lambda>d. doc_verdict_of env mapper d = DocKeep) ?docs"
  have again: "set (splitManifests env (Join ?kept doc_separator)) = set ?kept" using assms(2) by auto
  then have "snd (split_docs env mapper (splitManifests env (Join ?kept doc_separator))) = []"
    by (auto simp: dropped_empty_iff)
  then have idem: "filterUnmappableManifestDocs env mapper (Join ?kept doc_separator) = (Join ?kept doc_separator, [])"
    by (auto simp: filterUnmappableManifestDocs_def Let_def split: prod.splits)
  show ?thesis
    using assms(1) again idem dropped_empty_iff [of env mapper ?docs]
    by (auto simp: filterUnmappableManifestDocs_def Let_def split_docs_filter split: if_splits)
qed

text \<open>A splitter for one-line documents and an environment in which Widgets are no longer served.\<close>

definition line_split :: "string \<Rightarrow> string list" where
  "line_split m = filter (\<lambda>l. l \<noteq> [] \<and> l \<noteq> ''---'') (Split m (CHR 0x0A))"

definition pruned_env :: "(nat, unit) helm_env" where
  "pruned_env = example_env\<lparr>splitManifests := line_split, parseHead := (\<lambda>d. Some (''v1'', d)),
     mapperServes := (\<lambda>m w g. gvk_kind g \<noteq> ''Widget''),
     releasesLast := (\<lambda>ac w name. Inr (Some ((example_release w)\<lparr>h_Info := Some (''failed'', 0)\<rparr>))),
     releasesDeployed := (\<lambda>ac w name. Inr (Some ((example_release w)\<lparr>h_Manifest :=
        Join [''Widget'', ''Pod''] doc_separator\<rparr>)))\<rparr>"

lemma line_split_Join:
  "\<forall>d\<in>set ds. d \<noteq> [] \<and> d \<noteq> ''---'' \<and> CHR 0x0A \<notin> set d \<Longrightarrow> line_split (Join ds doc_separator) = ds"
proof (induction ds doc_separator rule: Join.induct)
  case (3 x y ys)
  have "Split (''---'' @ [CHR 0x0A] @ Join (y # ys) doc_separator) (CHR 0x0A) =
      ''---'' # Split (Join (y # ys) doc_separator) (CHR 0x0A)"
    using Split_append [of "CHR 0x0A" "''---''"] by simp
  with 3 show ?case
    by (simp add: line_split_def doc_separator_def Split_append)
qed (auto simp: line_split_def Split_single)

theorem filterUnmappable_repairs_witness:
  "snd (filterUnmappableManifestDocs pruned_env (\<lambda>g. gvk_kind g \<noteq> ''Widget'') (Join [''Widget'', ''Pod''] doc_separator))
     = [''Widget'']"
proof -
  let ?m = "Join [''Widget'', ''Pod''] doc_separator"
  have split: "splitManifests pruned_env = line_split" by (simp add: pruned_env_def)
  have docs: "line_split ?m = [''Widget'', ''Pod'']" by (rule line_split_Join) simp
  obtain m' d where f: "filterUnmappableManifestDocs pruned_env (\<lambda>g. gvk_kind g \<noteq> ''Widget'') ?m = (m', d)"
    by (metis surj_pair)
  have "\<forall>ds. set ds \<subseteq> set (splitManifests pruned_env ?m) \<longrightarrow>
      set (splitManifests pruned_env (Join ds doc_separator)) = set ds"
    unfolding split docs by (intro allI impI) (subst line_split_Join, auto)
  from filterUnmappable_repairs [OF f this] show ?thesis
    by (simp add: filterUnmappableManifestDocs_def split docs doc_verdict_of_def is_blank_def TrimSpace_def
        is_space_def pruned_env_def example_env_def del: Join.simps)
qed

text \<open>
  The repair touches the revision that Helm's upgrade builds its current state from: the last
  revision when that is deployed, else the last deployed one, else the last.  Without an error, either
  that revision has no unserved document and nothing is written, or exactly that revision is written
  back with the filtered manifest, which is also the manifest the reconcile continues with.
\<close>

theorem dropUnserved_repairs_built_revision:
  assumes "dropUnservedFromStoredManifest env c s cfg name manifest = (s', m', dropped, None)"
  shows "\<exists>ac mapper lastRel rel. newActionConfig env c (world s) (hc_namespace c) (hc_restConfig c) (uc_ActionConfig cfg) = Inr ac \<and>
    ToRESTMapper (fromKubeConfig env) [] (acf_getter ac) = Inr mapper \<and> releasesLast env ac (world s) name = Inr lastRel \<and>
    (if (\<exists>l d. lastRel = Some l \<and> h_Info l = Some (''deployed'', d)) then lastRel = Some rel
     else if (\<exists>x. releasesDeployed env ac (world s) name = Inr (Some x))
     then releasesDeployed env ac (world s) name = Inr (Some rel)
     else lastRel = Some rel) \<and>
    (if dropped = []
     then s' = s \<and> m' = manifest \<and>
       (\<forall>d\<in>set (splitManifests env (h_Manifest rel)). \<nexists>t. doc_verdict_of env (mapperServes env mapper (world s)) d = DocDrop t)
     else calls s' = calls s @ [CallPersist (rel\<lparr>h_Manifest := m'\<rparr>)] \<and>
       filterUnmappableManifestDocs env (mapperServes env mapper (world s)) (h_Manifest rel) = (m', dropped))"
proof -
  from assms obtain ac mapper lastRel rel where
    env: "newActionConfig env c (world s) (hc_namespace c) (hc_restConfig c) (uc_ActionConfig cfg) = Inr ac" "ToRESTMapper (fromKubeConfig env) [] (acf_getter ac) = Inr mapper"
      "releasesLast env ac (world s) name = Inr lastRel"
    and rel: "selectCurrentForBuild lastRel (releasesDeployed env ac (world s) name) = Some rel"
    by (auto simp: dropUnservedFromStoredManifest_def split: sum.splits option.splits)
  obtain rep dr where f: "filterUnmappableManifestDocs env (mapperServes env mapper (world s)) (h_Manifest rel) = (rep, dr)"
    by (metis surj_pair)
  have none: "dr = [] \<Longrightarrow> \<forall>d\<in>set (splitManifests env (h_Manifest rel)). \<nexists>t. doc_verdict_of env (mapperServes env mapper (world s)) d = DocDrop t"
    using f dropped_empty_iff [of env "mapperServes env mapper (world s)" "splitManifests env (h_Manifest rel)"]
    by (auto simp: filterUnmappableManifestDocs_def Let_def split: prod.splits if_splits)
  have "if dropped = []
     then s' = s \<and> m' = manifest \<and>
       (\<forall>d\<in>set (splitManifests env (h_Manifest rel)). \<nexists>t. doc_verdict_of env (mapperServes env mapper (world s)) d = DocDrop t)
     else calls s' = calls s @ [CallPersist (rel\<lparr>h_Manifest := m'\<rparr>)] \<and>
       filterUnmappableManifestDocs env (mapperServes env mapper (world s)) (h_Manifest rel) = (m', dropped)"
    using assms env rel f none
    by (auto simp: dropUnservedFromStoredManifest_def Let_def split: prod.splits option.splits if_splits)
  moreover have "if (\<exists>l d. lastRel = Some l \<and> h_Info l = Some (''deployed'', d)) then lastRel = Some rel
     else if (\<exists>x. releasesDeployed env ac (world s) name = Inr (Some x))
     then releasesDeployed env ac (world s) name = Inr (Some rel) else lastRel = Some rel"
    using rel by (auto simp: selectCurrentForBuild_def split: option.splits sum.splits if_splits)
  ultimately show ?thesis using env by blast
qed

lemma pruned_drop:
  "dropUnservedFromStoredManifest pruned_env example_client \<lparr>world = 3, calls = []\<rparr> (upgrade_config_of None) ''r'' ''m'' =
     (\<lparr>world = 3, calls = [CallPersist ((example_release 3)\<lparr>h_Manifest := ''Pod''\<rparr>)]\<rparr>, ''Pod'', [''Widget''], None)"
proof -
  have docs: "line_split (Join [''Widget'', ''Pod''] doc_separator) = [''Widget'', ''Pod'']"
    by (rule line_split_Join) simp
  show ?thesis
    by (simp add: dropUnservedFromStoredManifest_def pruned_env_def example_env_def selectCurrentForBuild_def
        newActionConfig_def example_client_def NewRESTClientGetterWithCachedClients_def ToRESTMapper_def
        upgrade_config_of_def action_of_def zero_upgrade_config_def zero_action_config_def
        filterUnmappableManifestDocs_def docs doc_verdict_of_def is_blank_def TrimSpace_def is_space_def
        perform_def Let_def del: Join.simps) (simp add: example_release_def)
qed

theorem dropUnserved_repairs_built_revision_witness:
  "fst (snd (dropUnservedFromStoredManifest pruned_env example_client \<lparr>world = 3, calls = []\<rparr> (upgrade_config_of None) ''r'' ''m'')) = ''Pod'' \<and>
   calls (fst (dropUnservedFromStoredManifest pruned_env example_client \<lparr>world = 3, calls = []\<rparr> (upgrade_config_of None) ''r'' ''m'')) \<noteq> []"
  using dropUnserved_repairs_built_revision [OF pruned_drop] by (simp add: pruned_drop)

section \<open>Neutralisation and the trace state\<close>

text \<open>
  Preparing a target for the merge changes no annotation but \<open>krateo.io/traceparent\<close>.  In particular
  \<open>krateo.io/tracestate\<close>, which the label post-renderer stamps beside it on every render, reaches the
  merge with the value of this render and not with the live one.
\<close>

theorem prepare_keeps_other_annotations:
  assumes "kube_laws api" and "k \<noteq> traceparentAnnotation"
  shows "annotationOf api (info_Object (normalize_secret api (neutralize_traceparent api sn i))) k =
    annotationOf api (info_Object i) k"
  using kube_laws.annotation_of_set_other [OF assms]
  by (simp add: normalize_secret_def neutralize_traceparent_def Let_def kube_laws.normalize_meta [OF assms(1)]
      split: option.splits)

theorem prepare_keeps_other_annotations_witness:
  "annotationOf json_api (info_Object (normalize_secret json_api (neutralize_traceparent json_api
      \<lparr>absent = [], liveTraceparent = [(infoKey json_api (example_info ''new''), ''old'')], liveObj = []\<rparr>
      (example_info ''new'')))) ''krateo.io/tracestate'' =
   annotationOf json_api (example_object ''new'') ''krateo.io/tracestate''"
  using prepare_keeps_other_annotations [OF json.kube_laws_axioms, of "''krateo.io/tracestate''"]
  by (simp add: traceparentAnnotation_def example_info_def)

end
