(* ===== verification/Dep_Graph.thy ===== *)
theory Dep_Graph
  imports Go_Prelude
begin

text \<open>
  \<open>deps/deps.go\<close>: a dependency graph that refuses cycles, and its topological order.

  \<open>nodeset\<close> is a Go set, a list of distinct strings here; \<open>depmap\<close> is a map of such sets.  Only the
  order in which \<open>Leaves\<close> ranges over the nodes can be observed; every round of the layering loop has
  its own ranking of the nodes, an arbitrary argument.  \<open>clone\<close> copies deeply, so the loop works on a
  graph that no one else sees, which is the value passed on.

  \<open>graph_ok\<close> is the invariant: the two edge maps mirror each other, hold no empty set, stay within
  the nodes, and the edges are acyclic.  It is preserved by \<open>DependOn\<close> and by removing a leaf; from
  it the topological order follows.
\<close>

section \<open>Model\<close>

type_synonym nodeset = "string list"
type_synonym depmap = "(string, nodeset) gomap"

record graph =
  g_nodes :: nodeset
  g_dependencies :: depmap
  g_dependents :: depmap

definition deps_New :: graph where
  "deps_New = \<lparr>g_nodes = [], g_dependencies = [], g_dependents = []\<rparr>"

text \<open>Reading a missing key gives the nil set.\<close>

definition nodes_at :: "depmap \<Rightarrow> string \<Rightarrow> nodeset" where
  "nodes_at dm key = (case map_of dm key of None \<Rightarrow> [] | Some ns \<Rightarrow> ns)"

definition addNodeToNodeset :: "depmap \<Rightarrow> string \<Rightarrow> string \<Rightarrow> depmap" where
  "addNodeToNodeset dm key node = AList.update key (List.insert node (nodes_at dm key)) dm"

definition removeFromDepmap :: "depmap \<Rightarrow> string \<Rightarrow> string \<Rightarrow> depmap" where
  "removeFromDepmap dm key node =
     (case map_of dm key of
        None \<Rightarrow> dm
      | Some ns \<Rightarrow>
          if length ns = 1 then AList.delete key dm
          else AList.update key (removeAll node ns) dm)"

text \<open>One discovery round of \<open>buildTransitive\<close>: the output and the newly discovered nodes.\<close>

fun discover_next :: "nodeset \<Rightarrow> nodeset \<times> string list \<Rightarrow> nodeset \<times> string list" where
  "discover_next [] st = st"
| "discover_next (x # xs) (out, discovered) =
     (if x \<in> set out then discover_next xs (out, discovered)
      else discover_next xs (out @ [x], discovered @ [x]))"

fun discover :: "depmap \<Rightarrow> string list \<Rightarrow> nodeset \<times> string list \<Rightarrow> nodeset \<times> string list" where
  "discover dm [] st = st"
| "discover dm (n # ns) st = discover dm ns (discover_next (nodes_at dm n) st)"

lemma discover_next_spec:
  "discover_next xs (out, d) = (out', d') \<Longrightarrow>
   \<exists>new. out' = out @ new \<and> d' = d @ new \<and> set new = set xs - set out"
  by (induction xs arbitrary: out d) (auto split: if_splits; force)+

definition depmap_values :: "depmap \<Rightarrow> string set" where
  "depmap_values dm = (\<Union>n. set (nodes_at dm n))"

lemma discover_spec:
  "discover dm ns (out, d) = (out', d') \<Longrightarrow>
   \<exists>new. out' = out @ new \<and> d' = d @ new \<and> set new = (\<Union>n\<in>set ns. set (nodes_at dm n)) - set out"
proof (induction ns arbitrary: out d)
  case (Cons n ns)
  obtain o1 d1 where s: "discover_next (nodes_at dm n) (out, d) = (o1, d1)" by (metis surj_pair)
  obtain new where "o1 = out @ new" "d1 = d @ new" "set new = set (nodes_at dm n) - set out"
    using discover_next_spec [OF s] by auto
  moreover obtain new' where "out' = o1 @ new'" "d' = d1 @ new'"
      "set new' = (\<Union>n\<in>set ns. set (nodes_at dm n)) - set o1"
    using Cons.IH [of o1 d1] Cons.prems s by auto
  ultimately show ?case by (intro exI [of _ "new @ new'"]) auto
qed simp

lemma depmap_values_finite: "finite (depmap_values dm)"
proof -
  have "set (nodes_at dm n) \<subseteq> (\<Union>ns\<in>snd ` set dm. set ns)" for n
    by (cases "map_of dm n") (auto simp: nodes_at_def dest!: map_of_SomeD intro: rev_bexI)
  then have "depmap_values dm \<subseteq> (\<Union>ns\<in>snd ` set dm. set ns)" by (auto simp: depmap_values_def)
  then show ?thesis by (rule finite_subset) auto
qed

text \<open>The outer loop of \<open>buildTransitive\<close>.\<close>

function search :: "depmap \<Rightarrow> string list \<Rightarrow> nodeset \<Rightarrow> nodeset" where
  "search dm searchNext out =
     (if searchNext = [] then out
      else let (out', discovered) = discover dm searchNext (out, []) in search dm discovered out')"
  by pat_completeness auto

termination
proof (relation "inv_image (less_than <*lex*> less_than)
    (\<lambda>(dm, next, out). (card (depmap_values dm - set out), if next = [] then 0 else 1))", goal_cases)
  case (2 dm nxt out x out' d)
  then obtain new where new: "out' = out @ new" "d = new"
      "set new = (\<Union>n\<in>set nxt. set (nodes_at dm n)) - set out"
    using discover_spec [of dm nxt out "[]" out' d] by auto
  show ?case
  proof (cases "new = []")
    case True
    with new 2 show ?thesis by simp
  next
    case False
    have "set new \<subseteq> depmap_values dm" using new(3) by (auto simp: depmap_values_def)
    moreover obtain y where "y \<in> set new" "y \<notin> set out" using False new(3) by (cases new) auto
    ultimately have "depmap_values dm - set out' \<subset> depmap_values dm - set out"
      using new(1) by auto
    then have "card (depmap_values dm - set out') < card (depmap_values dm - set out)"
      by (intro psubset_card_mono) (auto simp: depmap_values_finite)
    then show ?thesis by simp
  qed
qed auto

declare search.simps [simp del]

definition buildTransitive :: "graph \<Rightarrow> string \<Rightarrow> depmap \<Rightarrow> nodeset" where
  "buildTransitive g root dm = (if root \<in> set (g_nodes g) then search dm [root] [] else [])"

definition deps_of :: "graph \<Rightarrow> string \<Rightarrow> nodeset" where
  "deps_of g child = buildTransitive g child (g_dependencies g)"

definition Dependents :: "graph \<Rightarrow> string \<Rightarrow> nodeset" where
  "Dependents g parent = buildTransitive g parent (g_dependents g)"

definition dependsOn :: "graph \<Rightarrow> string \<Rightarrow> string \<Rightarrow> bool" where
  "dependsOn g child parent = (parent \<in> set (deps_of g child))"

definition hasDependent :: "graph \<Rightarrow> string \<Rightarrow> string \<Rightarrow> bool" where
  "hasDependent g parent child = (child \<in> set (Dependents g parent))"

definition DependOn :: "graph \<Rightarrow> string \<Rightarrow> string \<Rightarrow> string + graph" where
  "DependOn g child parent =
     (if child = parent then Inl ''self-referential dependencies not allowed''
      else if dependsOn g parent child then Inl ''circular dependencies not allowed''
      else Inr \<lparr>g_nodes = List.insert child (List.insert parent (g_nodes g)),
                g_dependencies = addNodeToNodeset (g_dependencies g) child parent,
                g_dependents = addNodeToNodeset (g_dependents g) parent child\<rparr>)"

definition deps_Leaves :: "(string \<Rightarrow> nat) \<Rightarrow> graph \<Rightarrow> string list" where
  "deps_Leaves rank g =
     filter (\<lambda>node. map_of (g_dependencies g) node = None) (sort_key rank (g_nodes g))"

definition deps_remove :: "string \<Rightarrow> graph \<Rightarrow> graph" where
  "deps_remove node g =
     (let dependencies1 = fold (\<lambda>dependent dm. removeFromDepmap dm dependent node)
                            (nodes_at (g_dependents g) node) (g_dependencies g);
          dependents1 = AList.delete node (g_dependents g);
          dependents2 = fold (\<lambda>dependency dm. removeFromDepmap dm dependency node)
                          (nodes_at dependencies1 node) dependents1
      in \<lparr>g_nodes = removeAll node (g_nodes g),
          g_dependencies = AList.delete node dependencies1,
          g_dependents = dependents2\<rparr>)"

lemma nodes_fold_remove: "g_nodes (fold deps_remove ls g) = filter (\<lambda>n. n \<notin> set ls) (g_nodes g)"
  by (induction ls arbitrary: g)
    (auto simp: deps_remove_def Let_def removeAll_filter_not_eq intro!: filter_cong)

text \<open>\<open>TopoSortedLayers\<close>; round \<open>n\<close> visits the nodes by \<open>rank n\<close>.\<close>

function layers :: "(nat \<Rightarrow> string \<Rightarrow> nat) \<Rightarrow> nat \<Rightarrow> graph \<Rightarrow> string list list" where
  "layers rank n g =
     (let leaves = deps_Leaves (rank n) g in
      if leaves = [] then [] else leaves # layers rank (Suc n) (fold deps_remove leaves g))"
  by pat_completeness auto

termination
proof (relation "measure (\<lambda>(rank, n, g). length (g_nodes g))", goal_cases)
  case (2 rank n g x)
  then obtain l where "l \<in> set x" "l \<in> set (g_nodes g)"
    by (auto simp: deps_Leaves_def neq_Nil_conv filter_eq_Cons_iff)
      (metis UnCI list.set_intros(1) set_append set_sort)
  then show ?case
    by (simp add: nodes_fold_remove) (rule length_filter_less [of l], auto)
qed simp

declare layers.simps [simp del]

definition TopoSortedLayers :: "(nat \<Rightarrow> string \<Rightarrow> nat) \<Rightarrow> graph \<Rightarrow> string list list" where
  "TopoSortedLayers rank g = layers rank 0 g"

definition TopoSorted :: "(nat \<Rightarrow> string \<Rightarrow> nat) \<Rightarrow> graph \<Rightarrow> string list" where
  "TopoSorted rank g = concat (TopoSortedLayers rank g)"

section \<open>Transitive search\<close>

definition dep_edges :: "depmap \<Rightarrow> (string \<times> string) set" where
  "dep_edges dm = {(c, p). p \<in> set (nodes_at dm c)}"

lemma dep_edges_iff: "(c, p) \<in> dep_edges dm \<longleftrightarrow> p \<in> set (nodes_at dm c)"
  by (simp add: dep_edges_def)

text \<open>The output of the loop holds what the frontier reaches; everything in it is reached.\<close>

lemma search_spec:
  assumes "set nxt \<subseteq> set out \<union> {root}" and "set out \<subseteq> (dep_edges dm)\<^sup>+ `` {root}"
    and "\<And>x y. x \<in> insert root (set out) \<Longrightarrow> (x, y) \<in> dep_edges dm \<Longrightarrow> y \<in> set out \<or> x \<in> set nxt"
  shows "set (search dm nxt out) = (dep_edges dm)\<^sup>+ `` {root}"
  using assms
proof (induction dm nxt out rule: search.induct)
  case (1 dm nxt out)
  show ?case
  proof (cases "nxt = []")
    case True
    have "(root, y) \<in> (dep_edges dm)\<^sup>+ \<Longrightarrow> y \<in> set out" for y
      by (induction rule: trancl_induct) (use 1(4) True in auto)
    with 1(3) True show ?thesis by (auto simp: search.simps)
  next
    case False
    obtain out' d where disc: "discover dm nxt (out, []) = (out', d)" by (metis surj_pair)
    then obtain new where new: "out' = out @ new" "d = new"
        "set new = (\<Union>n\<in>set nxt. set (nodes_at dm n)) - set out"
      using discover_spec [of dm nxt out "[]" out' d] by auto
    have reached: "y \<in> (dep_edges dm)\<^sup>+ `` {root}" if y: "y \<in> set new" for y
    proof -
      obtain n where n: "n \<in> set nxt" "(n, y) \<in> dep_edges dm"
        using y new(3) by (auto simp: dep_edges_iff)
      then show ?thesis using 1(2,3) by (auto intro: trancl_into_trancl)
    qed
    have "set (search dm d out') = (dep_edges dm)\<^sup>+ `` {root}"
    proof (rule 1(1) [OF False disc [symmetric] refl])
      show "set d \<subseteq> set out' \<union> {root}" using new by auto
      show "set out' \<subseteq> (dep_edges dm)\<^sup>+ `` {root}" using new 1(3) reached by auto
      show "y \<in> set out' \<or> x \<in> set d" if "x \<in> insert root (set out')" "(x, y) \<in> dep_edges dm" for x y
        using that 1(4) [of x y] new by (fastforce simp: dep_edges_iff)
    qed
    then show ?thesis using False disc by (simp add: search.simps)
  qed
qed

lemma buildTransitive_spec:
  "set (buildTransitive g root dm) = (if root \<in> set (g_nodes g) then (dep_edges dm)\<^sup>+ `` {root} else {})"
  using search_spec [of "[root]" "[]" root dm] by (auto simp: buildTransitive_def)

section \<open>Invariant\<close>

definition depmap_ok :: "depmap \<Rightarrow> bool" where
  "depmap_ok dm \<longleftrightarrow> gomap_ok dm \<and> (\<forall>k ns. map_of dm k = Some ns \<longrightarrow> ns \<noteq> [] \<and> distinct ns)"

definition graph_ok :: "graph \<Rightarrow> bool" where
  "graph_ok g \<longleftrightarrow>
     distinct (g_nodes g) \<and> depmap_ok (g_dependencies g) \<and> depmap_ok (g_dependents g) \<and>
     dep_edges (g_dependents g) = (dep_edges (g_dependencies g))\<inverse> \<and>
     dep_edges (g_dependencies g) \<subseteq> set (g_nodes g) \<times> set (g_nodes g) \<and>
     acyclic (dep_edges (g_dependencies g))"

lemma nodes_at_update [simp]:
  "nodes_at (AList.update k ns dm) x = (if x = k then ns else nodes_at dm x)"
  by (simp add: nodes_at_def)

lemma nodes_at_delete [simp]:
  "nodes_at (AList.delete k dm) x = (if x = k then [] else nodes_at dm x)"
  by (simp add: nodes_at_def)

lemma edges_add: "dep_edges (addNodeToNodeset dm c p) = insert (c, p) (dep_edges dm)"
  by (auto simp: dep_edges_def addNodeToNodeset_def split: if_splits)

lemma nodes_at_distinct: "depmap_ok dm \<Longrightarrow> distinct (nodes_at dm k)"
  unfolding depmap_ok_def nodes_at_def by (cases "map_of dm k") auto

lemma depmap_okI:
  "gomap_ok dm \<Longrightarrow> (\<And>k ns. map_of dm k = Some ns \<Longrightarrow> ns \<noteq> [] \<and> distinct ns) \<Longrightarrow> depmap_ok dm"
  unfolding depmap_ok_def by blast

lemma depmap_okD:
  "depmap_ok dm \<Longrightarrow> gomap_ok dm"
  "depmap_ok dm \<Longrightarrow> map_of dm k = Some ns \<Longrightarrow> ns \<noteq> [] \<and> distinct ns"
  unfolding depmap_ok_def by blast+

lemma depmap_ok_update:
  assumes "depmap_ok dm" and "ns \<noteq> []" and "distinct ns"
  shows "depmap_ok (AList.update k ns dm)"
proof (rule depmap_okI)
  fix k' ns' assume "map_of (AList.update k ns dm) k' = Some ns'"
  with assms depmap_okD(2) [OF assms(1), of k' ns'] show "ns' \<noteq> [] \<and> distinct ns'" by (cases "k' = k") simp_all
qed (simp add: depmap_okD(1) [OF assms(1)])

lemma depmap_ok_delete:
  assumes "depmap_ok dm"
  shows "depmap_ok (AList.delete k dm)"
proof (rule depmap_okI)
  fix k' ns' assume "map_of (AList.delete k dm) k' = Some ns'"
  with depmap_okD(2) [OF assms, of k' ns'] show "ns' \<noteq> [] \<and> distinct ns'" by (cases "k' = k") simp_all
qed (simp add: depmap_okD(1) [OF assms])

lemma depmap_ok_add: "depmap_ok dm \<Longrightarrow> depmap_ok (addNodeToNodeset dm c p)"
  unfolding addNodeToNodeset_def
  by (rule depmap_ok_update) (simp_all add: nodes_at_distinct List.insert_def, auto)

lemma removeFromDepmap_ok:
  assumes "depmap_ok dm" and "node \<in> set (nodes_at dm key)"
  shows "depmap_ok (removeFromDepmap dm key node)"
    and "nodes_at (removeFromDepmap dm key node) x = (if x = key then removeAll node (nodes_at dm x) else nodes_at dm x)"
proof -
  obtain ns where ns: "map_of dm key = Some ns" "node \<in> set ns"
    using assms(2) by (cases "map_of dm key") (auto simp: nodes_at_def)
  have d: "distinct ns" using depmap_okD(2) [OF assms(1) ns(1)] by simp
  have single: "length ns = 1 \<Longrightarrow> ns = [node]" using ns(2) by (cases ns) auto
  have more: "length ns \<noteq> 1 \<Longrightarrow> removeAll node ns \<noteq> []"
  proof
    assume l: "length ns \<noteq> 1" and "removeAll node ns = []"
    then have "set ns \<subseteq> {node}" by (metis Diff_eq_empty_iff set_empty set_removeAll)
    with d ns(2) have "length ns = 1" by (metis card_1_singleton_iff distinct_card subset_singletonD empty_iff One_nat_def)
    with l show False by simp
  qed
  show "depmap_ok (removeFromDepmap dm key node)"
    using ns(1) d more assms(1)
    by (simp add: removeFromDepmap_def depmap_ok_delete depmap_ok_update distinct_removeAll)
  show "nodes_at (removeFromDepmap dm key node) x =
      (if x = key then removeAll node (nodes_at dm x) else nodes_at dm x)"
    using ns single by (auto simp: removeFromDepmap_def nodes_at_def [of dm])
qed

lemma fold_remove_ok:
  assumes "depmap_ok dm" and "distinct keys" and "\<And>k. k \<in> set keys \<Longrightarrow> node \<in> set (nodes_at dm k)"
  shows "depmap_ok (fold (\<lambda>k dm. removeFromDepmap dm k node) keys dm) \<and>
    nodes_at (fold (\<lambda>k dm. removeFromDepmap dm k node) keys dm) x =
      (if x \<in> set keys then removeAll node (nodes_at dm x) else nodes_at dm x)"
  using assms
proof (induction keys arbitrary: dm)
  case (Cons k keys)
  note r = removeFromDepmap_ok [OF Cons.prems(1), of node k]
  have "node \<in> set (nodes_at dm k)" using Cons.prems(3) by simp
  with r have ok: "depmap_ok (removeFromDepmap dm k node)"
    and at: "nodes_at (removeFromDepmap dm k node) x = (if x = k then removeAll node (nodes_at dm x) else nodes_at dm x)" for x
    by auto
  have "node \<in> set (nodes_at (removeFromDepmap dm k node) k')" if "k' \<in> set keys" for k'
    using that Cons.prems(2,3) by (auto simp: at)
  from Cons.IH [OF ok _ this] Cons.prems(2) show ?case by (auto simp: at)
qed simp

lemma dependsOn_iff:
  "dependsOn g a b \<longleftrightarrow> a \<in> set (g_nodes g) \<and> (a, b) \<in> (dep_edges (g_dependencies g))\<^sup>+"
  by (auto simp: dependsOn_def deps_of_def buildTransitive_spec)

lemma graph_ok_New: "graph_ok deps_New"
  by (auto simp: graph_ok_def deps_New_def depmap_ok_def dep_edges_def nodes_at_def acyclic_def)

lemma path_from_node:
  assumes "graph_ok g" and "(a, b) \<in> (dep_edges (g_dependencies g))\<^sup>+"
  shows "a \<in> set (g_nodes g)"
  using assms unfolding graph_ok_def by (blast dest: tranclD)

lemma DependOn_rejects_iff:
  assumes "graph_ok g"
  shows "(\<exists>e. DependOn g child parent = Inl e) \<longleftrightarrow>
    child = parent \<or> (parent, child) \<in> (dep_edges (g_dependencies g))\<^sup>+"
  using path_from_node [OF assms] by (auto simp: DependOn_def dependsOn_iff)

lemma DependOn_accepts:
  assumes "graph_ok g" and "DependOn g child parent = Inr g'"
  shows "graph_ok g'"
    and "dep_edges (g_dependencies g') = insert (child, parent) (dep_edges (g_dependencies g))"
    and "set (g_nodes g') = set (g_nodes g) \<union> {child, parent}"
proof -
  have ne: "child \<noteq> parent" and nd: "\<not> dependsOn g parent child"
    and g': "g' = \<lparr>g_nodes = List.insert child (List.insert parent (g_nodes g)),
                g_dependencies = addNodeToNodeset (g_dependencies g) child parent,
                g_dependents = addNodeToNodeset (g_dependents g) parent child\<rparr>"
    using assms(2) by (auto simp: DependOn_def split: if_splits)
  have "(parent, child) \<notin> (dep_edges (g_dependencies g))\<^sup>*"
    using ne nd path_from_node [OF assms(1)] by (auto simp: dependsOn_iff rtrancl_eq_or_trancl)
  then have "acyclic (insert (child, parent) (dep_edges (g_dependencies g)))"
    using assms(1) by (simp add: graph_ok_def acyclic_insert)
  with assms(1) show "graph_ok g'"
    unfolding graph_ok_def g' by (auto simp: edges_add intro!: depmap_ok_add)
  show "dep_edges (g_dependencies g') = insert (child, parent) (dep_edges (g_dependencies g))"
    and "set (g_nodes g') = set (g_nodes g) \<union> {child, parent}"
    by (auto simp: g' edges_add)
qed

section \<open>Removal of leaves\<close>

definition is_leaf :: "graph \<Rightarrow> string \<Rightarrow> bool" where
  "is_leaf g n \<longleftrightarrow> n \<in> set (g_nodes g) \<and> map_of (g_dependencies g) n = None"

lemma leaf_no_edge: "map_of dm n = None \<Longrightarrow> (n, p) \<notin> dep_edges dm"
  by (simp add: dep_edges_iff nodes_at_def)

lemma no_edge_leaf:
  assumes "depmap_ok dm" and "\<And>p. (n, p) \<notin> dep_edges dm"
  shows "map_of dm n = None"
proof (rule ccontr)
  assume "map_of dm n \<noteq> None"
  then obtain ns where ns: "map_of dm n = Some ns" by blast
  then have "ns \<noteq> []" using depmap_okD(2) [OF assms(1)] by blast
  with ns assms(2) show False by (cases ns) (auto simp: dep_edges_iff nodes_at_def)
qed

lemma remove_leaf:
  assumes "graph_ok g" and "is_leaf g l"
  shows "graph_ok (deps_remove l g)"
    and "dep_edges (g_dependencies (deps_remove l g)) = {(c, p) \<in> dep_edges (g_dependencies g). p \<noteq> l}"
    and "set (g_nodes (deps_remove l g)) = set (g_nodes g) - {l}"
proof -
  let ?D = "g_dependencies g" and ?R = "g_dependents g"
  let ?D1 = "fold (\<lambda>k dm. removeFromDepmap dm k l) (nodes_at ?R l) ?D"
  note g = assms(1) [unfolded graph_ok_def]
  have mirror: "k \<in> set (nodes_at ?R l) \<longleftrightarrow> l \<in> set (nodes_at ?D k)" for k
    using g by (auto simp: dep_edges_def set_eq_iff)
  have ok1: "depmap_ok ?D1"
    and at1: "nodes_at ?D1 x = (if x \<in> set (nodes_at ?R l) then removeAll l (nodes_at ?D x) else nodes_at ?D x)" for x
    using fold_remove_ok [of ?D "nodes_at ?R l" l] g nodes_at_distinct [of ?R l] mirror by auto
  have noD: "nodes_at ?D l = []" using assms(2) by (simp add: is_leaf_def nodes_at_def)
  then have "nodes_at ?D1 l = []" by (simp add: at1)
  then have r: "deps_remove l g = \<lparr>g_nodes = removeAll l (g_nodes g), g_dependencies = AList.delete l ?D1,
      g_dependents = AList.delete l ?R\<rparr>"
    by (simp add: deps_remove_def)
  show edges: "dep_edges (g_dependencies (deps_remove l g)) = {(c, p) \<in> dep_edges ?D. p \<noteq> l}"
    unfolding r using noD mirror by (auto simp: dep_edges_def at1 split: if_splits)
  show nodes: "set (g_nodes (deps_remove l g)) = set (g_nodes g) - {l}" by (simp add: r)
  have edgesR: "dep_edges (AList.delete l ?R) = {(p, c) \<in> dep_edges ?R. p \<noteq> l}"
    by (auto simp: dep_edges_def split: if_splits)
  have sub: "{(c, p) \<in> dep_edges ?D. p \<noteq> l} \<subseteq> (set (g_nodes g) - {l}) \<times> (set (g_nodes g) - {l})"
  proof -
    have "c \<noteq> l" if "(c, p) \<in> dep_edges ?D" for c p using that noD by (auto simp: dep_edges_iff)
    with g show ?thesis by blast
  qed
  show "graph_ok (deps_remove l g)"
    unfolding graph_ok_def edges nodes using g sub ok1
    by (auto simp: r edgesR distinct_removeAll intro!: depmap_ok_delete elim: acyclic_subset)
qed

lemma remove_leaves:
  assumes "graph_ok g" and "distinct ls" and "\<And>l. l \<in> set ls \<Longrightarrow> is_leaf g l"
  shows "graph_ok (fold deps_remove ls g) \<and>
    dep_edges (g_dependencies (fold deps_remove ls g)) = {(c, p) \<in> dep_edges (g_dependencies g). p \<notin> set ls} \<and>
    set (g_nodes (fold deps_remove ls g)) = set (g_nodes g) - set ls"
  using assms
proof (induction ls arbitrary: g)
  case (Cons l ls)
  have l: "is_leaf g l" using Cons.prems(3) by simp
  note r = remove_leaf [OF Cons.prems(1) l]
  have "is_leaf (deps_remove l g) l'" if "l' \<in> set ls" for l'
  proof -
    have l': "is_leaf g l'" "l' \<noteq> l" using Cons.prems(2,3) that by auto
    have "depmap_ok (g_dependencies (deps_remove l g))" using r(1) by (simp add: graph_ok_def)
    then have "map_of (g_dependencies (deps_remove l g)) l' = None"
      using l'(1) leaf_no_edge [of "g_dependencies g" l'] by (intro no_edge_leaf) (auto simp: r(2) is_leaf_def)
    with l' r(3) show ?thesis by (simp add: is_leaf_def)
  qed
  from Cons.IH [OF r(1) _ this] Cons.prems(2) r(2,3) show ?case by auto
qed simp

text \<open>A finite acyclic graph that is not empty has a leaf.\<close>

lemma leaf_exists:
  assumes "graph_ok g" and "g_nodes g \<noteq> []"
  shows "\<exists>l. is_leaf g l"
proof -
  let ?E = "dep_edges (g_dependencies g)"
  note g = assms(1) [unfolded graph_ok_def]
  have "finite ?E" using g by (meson finite_SigmaI finite_set finite_subset)
  then have "wf (?E\<inverse>)" using g by (intro finite_acyclic_wf_converse) auto
  moreover obtain n where "n \<in> set (g_nodes g)" using assms(2) by (cases "g_nodes g") auto
  ultimately obtain l where l: "l \<in> set (g_nodes g)" "\<And>y. (y, l) \<in> ?E\<inverse> \<Longrightarrow> y \<notin> set (g_nodes g)"
    by (meson wfE_min)
  then have "(l, p) \<notin> ?E" for p using g by blast
  then have "map_of (g_dependencies g) l = None" using g no_edge_leaf by blast
  with l(1) show ?thesis by (auto simp: is_leaf_def)
qed

lemma Leaves_set: "set (deps_Leaves rank g) = {l. is_leaf g l}"
  by (auto simp: deps_Leaves_def is_leaf_def)

lemma Leaves_distinct: "graph_ok g \<Longrightarrow> distinct (deps_Leaves rank g)"
  by (simp add: deps_Leaves_def graph_ok_def)

section \<open>Topological order\<close>

text \<open>Every node after all its dependencies.\<close>

definition topological :: "(string \<times> string) set \<Rightarrow> string list \<Rightarrow> bool" where
  "topological E xs \<longleftrightarrow> (\<forall>i<length xs. \<forall>p. (xs ! i, p) \<in> E \<longrightarrow> p \<in> set (take i xs))"

lemma topological_append:
  assumes "\<And>x p. x \<in> set ls \<Longrightarrow> (x, p) \<notin> E" and "topological {(c, p) \<in> E. p \<notin> set ls} xs"
  shows "topological E (ls @ xs)"
  unfolding topological_def
proof (intro allI impI)
  fix i p assume i: "i < length (ls @ xs)" and e: "((ls @ xs) ! i, p) \<in> E"
  show "p \<in> set (take i (ls @ xs))"
  proof (cases "i < length ls")
    case True
    with e assms(1) [of "ls ! i" p] show ?thesis by (simp add: nth_append)
  next
    case False
    with e i have "(xs ! (i - length ls), p) \<in> E" and "i - length ls < length xs"
      by (auto simp: nth_append)
    with assms(2) have "p \<notin> set ls \<Longrightarrow> p \<in> set (take (i - length ls) xs)"
      unfolding topological_def by blast
    with False show ?thesis by (cases "p \<in> set ls") auto
  qed
qed

lemma layers_spec:
  assumes "graph_ok g"
  shows "distinct (concat (layers rank n g)) \<and> set (concat (layers rank n g)) = set (g_nodes g) \<and>
    topological (dep_edges (g_dependencies g)) (concat (layers rank n g))"
  using assms
proof (induction rank n g rule: layers.induct)
  case (1 rank n g)
  let ?L = "deps_Leaves (rank n) g" and ?g = "fold deps_remove (deps_Leaves (rank n) g) g"
  show ?case
  proof (cases "?L = []")
    case True
    then have "g_nodes g = []" using leaf_exists [OF 1(2)] Leaves_set [of "rank n" g] by auto
    with True show ?thesis by (simp add: layers.simps topological_def)
  next
    case False
    have r: "graph_ok ?g" "dep_edges (g_dependencies ?g) = {(c, p) \<in> dep_edges (g_dependencies g). p \<notin> set ?L}"
      "set (g_nodes ?g) = set (g_nodes g) - set ?L"
      using remove_leaves [OF 1(2) Leaves_distinct [OF 1(2)], of "rank n"] Leaves_set [of "rank n" g] by auto
    note ih = 1(1) [OF refl False r(1)]
    have leaf: "x \<in> set ?L \<Longrightarrow> (x, p) \<notin> dep_edges (g_dependencies g)" for x p
      using Leaves_set [of "rank n" g] by (simp add: is_leaf_def leaf_no_edge)
    have "set ?L \<subseteq> set (g_nodes g)" using Leaves_set [of "rank n" g] by (auto simp: is_leaf_def)
    with ih r Leaves_distinct [OF 1(2), of "rank n"] topological_append [of ?L, OF leaf] False
    show ?thesis by (subst (1 2 3) layers.simps) (auto simp: Let_def)
  qed
qed

section \<open>Properties\<close>

text \<open>The operations of a graph as steps from the empty graph.\<close>

definition depend_step :: "string \<times> string \<Rightarrow> graph \<Rightarrow> graph" where
  "depend_step cp g = (case DependOn g (fst cp) (snd cp) of Inr g' \<Rightarrow> g' | Inl e \<Rightarrow> g)"

definition depend_all :: "(string \<times> string) list \<Rightarrow> graph" where
  "depend_all es = fold depend_step es deps_New"

lemma depend_step_ok: "graph_ok g \<Longrightarrow> graph_ok (depend_step cp g)"
  by (auto simp: depend_step_def dest: DependOn_accepts(1) split: sum.splits)

lemma depend_all_ok: "graph_ok (depend_all es)"
proof -
  have "graph_ok g \<Longrightarrow> graph_ok (fold depend_step es g)" for g
    by (induction es arbitrary: g) (simp_all add: depend_step_ok)
  then show ?thesis by (simp add: depend_all_def graph_ok_New)
qed

text \<open>
  C11: whatever sequence of \<open>DependOn\<close> calls built the graph, and however Go's maps are iterated, the
  topological order lists every node of the graph exactly once, and every node after all the nodes it
  depends on.  In particular the layering loop ends.
\<close>

theorem TopoSorted_topological:
  "distinct (TopoSorted rank (depend_all es)) \<and>
   set (TopoSorted rank (depend_all es)) = set (g_nodes (depend_all es)) \<and>
   topological (dep_edges (g_dependencies (depend_all es))) (TopoSorted rank (depend_all es))"
  unfolding TopoSorted_def TopoSortedLayers_def by (rule layers_spec [OF depend_all_ok])

text \<open>
  C28: \<open>DependOn\<close> is exact.  On a graph built by \<open>DependOn\<close> calls it refuses an edge if and only if
  the edge is a self loop or its parent already depends, directly or transitively, on its child; an
  accepted edge is added and nothing else changes; the edges never form a cycle, and the map of
  dependents stays the mirror image of the map of dependencies.
\<close>

theorem DependOn_exact:
  "let g = depend_all es in
   ((\<exists>e. DependOn g child parent = Inl e) \<longleftrightarrow>
      child = parent \<or> (parent, child) \<in> (dep_edges (g_dependencies g))\<^sup>+) \<and>
   (\<forall>g'. DependOn g child parent = Inr g' \<longrightarrow>
      dep_edges (g_dependencies g') = insert (child, parent) (dep_edges (g_dependencies g)) \<and>
      set (g_nodes g') = set (g_nodes g) \<union> {child, parent} \<and>
      acyclic (dep_edges (g_dependencies g')) \<and>
      dep_edges (g_dependents g') = (dep_edges (g_dependencies g'))\<inverse>)"
proof -
  have ok: "graph_ok (depend_all es)" by (rule depend_all_ok)
  show ?thesis
    using DependOn_rejects_iff [OF ok] DependOn_accepts [OF ok, of child parent]
    unfolding graph_ok_def Let_def by blast
qed

theorem DependOn_exact_witness:
  "DependOn (depend_all [(''a'', ''b''), (''b'', ''c'')]) ''c'' ''a'' = Inl ''circular dependencies not allowed'' \<and>
   (''a'', ''c'') \<in> (dep_edges (g_dependencies (depend_all [(''a'', ''b''), (''b'', ''c'')])))\<^sup>+"
proof -
  have "DependOn (depend_all [(''a'', ''b''), (''b'', ''c'')]) ''c'' ''a'' = Inl ''circular dependencies not allowed''"
    by code_simp
  with DependOn_exact [of "[(''a'', ''b''), (''b'', ''c'')]" "''c''" "''a''"] show ?thesis
    unfolding Let_def by auto
qed

end
