(* ===== verification/Crd_Schema.thy ===== *)
theory Crd_Schema
  imports Json_Maps
begin

text \<open>
  The data of the CRD generator: the JSON-Schema node (\<open>Type\<close> of \<open>crdgen/schemas/model.go\<close>) with
  the keywords the transpiler reads, the structural schema it emits (\<open>JSONSchemaProps\<close>), the table of
  \<open>$defs\<close> (\<open>collectRefs\<close>, \<open>indexDefs\<close>, \<open>indexRefs\<close>, \<open>normalizeRefPointer\<close> of
  \<open>crdgen/transpile.go\<close>) and the version names of \<open>crdgen/version.go\<close>.

  A subschema pointer that the code tests against nil is an option; the members of the maps and lists
  of subschemas are never nil here, that is, the input has no \<open>null\<close> in place of a subschema there.
  \<open>additionalProperties\<close> is a Boolean or a schema, as its decoder produces it.  The result of
  \<open>json.Marshal\<close> is represented by the value it encodes.
\<close>

section \<open>Schemas\<close>

record validation_rule =
  vr_Rule :: string
  vr_Message :: string
  vr_MessageExpression :: string
  vr_Reason :: "string option"
  vr_FieldPath :: string
  vr_OptionalOldSelf :: "bool option"

record type_keywords =
  k_Ref :: string
  k_DynamicRef :: string
  k_RecursiveRef :: string
  k_Anchor :: string
  k_DynamicAnchor :: string
  k_Type :: "string list"
  k_Title :: string
  k_Description :: string
  k_Format :: string
  k_Pattern :: string
  k_Nullable :: bool
  k_MultipleOf :: "rat option"
  k_Minimum :: "rat option"
  k_Maximum :: "rat option"
  k_MinLength :: int
  k_MaxLength :: int
  k_MinItems :: int
  k_MaxItems :: int
  k_UniqueItems :: bool
  k_Required :: "string list"
  k_Enum :: "any list"
  k_Const :: "any option"
  k_Default :: "any option"
  k_Examples :: "any option"
  k_DependentRequired :: "(string, string list) gomap"
  k_XIntOrString :: bool
  k_XEmbeddedResource :: bool
  k_XListType :: "string option"
  k_XListMapKeys :: "string list"
  k_XMapType :: "string option"
  k_XValidations :: "validation_rule list"

datatype stype = SType
  (s_kw: type_keywords)
  (s_Properties: "(string \<times> stype) list")
  (s_PatternProperties: "(string \<times> stype) list")
  (s_AdditionalProperties: "(bool + stype) option")
  (s_Items: "stype option")
  (s_AdditionalItems: "stype option")
  (s_AllOf: "stype list")
  (s_AnyOf: "stype list")
  (s_OneOf: "stype list")
  (s_Not: "stype option")
  (s_Definitions: "(string \<times> stype) list")
  (s_DependentSchemas: "(string \<times> stype) list")
  (s_If: "stype option")
  (s_Then: "stype option")
  (s_Else: "stype option")
  (s_PrefixItems: "stype list")
  (s_UnevaluatedProperties: "(bool + stype) option")
  (s_UnevaluatedItems: "stype option")

definition zero_keywords :: type_keywords where
  "zero_keywords = \<lparr>k_Ref = [], k_DynamicRef = [], k_RecursiveRef = [], k_Anchor = [], k_DynamicAnchor = [],
     k_Type = [], k_Title = [], k_Description = [], k_Format = [], k_Pattern = [], k_Nullable = False,
     k_MultipleOf = None, k_Minimum = None, k_Maximum = None, k_MinLength = 0, k_MaxLength = 0, k_MinItems = 0,
     k_MaxItems = 0, k_UniqueItems = False, k_Required = [], k_Enum = [], k_Const = None, k_Default = None,
     k_Examples = None, k_DependentRequired = [], k_XIntOrString = False, k_XEmbeddedResource = False,
     k_XListType = None, k_XListMapKeys = [], k_XMapType = None, k_XValidations = []\<rparr>"

text \<open>A schema with keywords and properties only.\<close>

definition plain_schema :: "type_keywords \<Rightarrow> (string \<times> stype) list \<Rightarrow> stype" where
  "plain_schema k ps = SType k ps [] None None None [] [] [] None [] [] None None None [] None None"

definition without_allOf :: "stype \<Rightarrow> stype" where
  "without_allOf n =
     SType (s_kw n) (s_Properties n) (s_PatternProperties n) (s_AdditionalProperties n) (s_Items n)
       (s_AdditionalItems n) [] (s_AnyOf n) (s_OneOf n) (s_Not n) (s_Definitions n) (s_DependentSchemas n)
       (s_If n) (s_Then n) (s_Else n) (s_PrefixItems n) (s_UnevaluatedProperties n) (s_UnevaluatedItems n)"

text \<open>Subschemas are smaller.\<close>

lemma size_map_member: "(k, p) \<in> set xs \<Longrightarrow> size p \<le> size_list (size_prod (\<lambda>x. 0) size) xs"
  by (induction xs) auto

lemma size_list_member: "p \<in> set xs \<Longrightarrow> size p \<le> size_list size xs"
  by (induction xs) auto

lemma size_subschema [termination_simp]:
  "(k, p) \<in> set (s_Properties n) \<Longrightarrow> size p < size n"
  "(k, p) \<in> set (s_PatternProperties n) \<Longrightarrow> size p < size n"
  "(k, p) \<in> set (s_Definitions n) \<Longrightarrow> size p < size n"
  "s_AdditionalProperties n = Some (Inr p) \<Longrightarrow> size p < size n"
  "s_Items n = Some p \<Longrightarrow> size p < size n"
  "s_AdditionalItems n = Some p \<Longrightarrow> size p < size n"
  "s_Not n = Some p \<Longrightarrow> size p < size n"
  "p \<in> set (s_AllOf n) \<Longrightarrow> size p < size n"
  "p \<in> set (s_AnyOf n) \<Longrightarrow> size p < size n"
  "p \<in> set (s_OneOf n) \<Longrightarrow> size p < size n"
  by (cases n; auto dest: size_map_member size_list_member)+

lemma size_without_allOf [termination_simp]: "s_AllOf n \<noteq> [] \<Longrightarrow> size (without_allOf n) < size n"
  by (cases n) (auto simp: without_allOf_def neq_Nil_conv)

section \<open>The table of definitions\<close>

type_synonym ref_table = "(string, stype) gomap"

text \<open>An anchor is recorded unless its name is taken.\<close>

definition index_anchor :: "string \<Rightarrow> stype \<Rightarrow> ref_table \<Rightarrow> ref_table" where
  "index_anchor a n refs = (if a = [] \<or> gomap_has refs (''#'' @ a) then refs else AList.update (''#'' @ a) n refs)"

text \<open>
  The subschemas that \<open>indexRefs\<close> visits, in order, with their pointers; the flag marks an entry of
  \<open>$defs\<close>, which is recorded before it is visited and skipped when its pointer is taken.
\<close>

definition def_entries :: "(string \<times> stype) list \<Rightarrow> string \<Rightarrow> (bool \<times> string \<times> stype) list" where
  "def_entries defs base = map (\<lambda>(name, d). (True, base @ ''/$defs/'' @ name, d)) defs"

definition map_entries :: "string \<Rightarrow> (string \<times> stype) list \<Rightarrow> string \<Rightarrow> (bool \<times> string \<times> stype) list" where
  "map_entries kind m base = map (\<lambda>(k, p). (False, base @ kind @ k, p)) m"

definition list_entries :: "string \<Rightarrow> stype list \<Rightarrow> string \<Rightarrow> (bool \<times> string \<times> stype) list" where
  "list_entries kind ps base = map (\<lambda>(i, p). (False, base @ kind @ show_nat i, p)) (List.enumerate 0 ps)"

definition opt_entry :: "string \<Rightarrow> stype option \<Rightarrow> string \<Rightarrow> (bool \<times> string \<times> stype) list" where
  "opt_entry kind p base = (case p of None \<Rightarrow> [] | Some x \<Rightarrow> [(False, base @ kind, x)])"

definition ref_entries :: "stype \<Rightarrow> string \<Rightarrow> (bool \<times> string \<times> stype) list" where
  "ref_entries n base =
     def_entries (s_Definitions n) base @
     map_entries ''/properties/'' (s_Properties n) base @
     map_entries ''/patternProperties/'' (s_PatternProperties n) base @
     opt_entry ''/items'' (s_Items n) base @
     opt_entry ''/additionalItems'' (s_AdditionalItems n) base @
     opt_entry ''/additionalProperties'' (case s_AdditionalProperties n of Some (Inr p) \<Rightarrow> Some p | _ \<Rightarrow> None) base @
     list_entries ''/allOf/'' (s_AllOf n) base @
     list_entries ''/anyOf/'' (s_AnyOf n) base @
     list_entries ''/oneOf/'' (s_OneOf n) base @
     opt_entry ''/not'' (s_Not n) base"

lemma ref_entries_smaller: "(b, ptr, p) \<in> set (ref_entries n base) \<Longrightarrow> size p < size n"
  by (auto simp: ref_entries_def def_entries_def map_entries_def list_entries_def opt_entry_def in_set_enumerate_eq
      size_subschema split: option.splits sum.splits)

function indexRefs :: "stype \<Rightarrow> string \<Rightarrow> ref_table \<Rightarrow> ref_table" where
  "indexRefs n base refs =
     fold (\<lambda>(isDef, ptr, p) r.
         if isDef then (if gomap_has r ptr then r else indexRefs p ptr (AList.update ptr p r))
         else indexRefs p ptr r)
       (ref_entries n base)
       (index_anchor (k_DynamicAnchor (s_kw n)) n (index_anchor (k_Anchor (s_kw n)) n refs))"
  by pat_completeness auto

termination
  by (relation "measure (\<lambda>(n, b, r). size n)") (auto dest: ref_entries_smaller)

declare indexRefs.simps [simp del]

definition index_entry :: "bool \<times> string \<times> stype \<Rightarrow> ref_table \<Rightarrow> ref_table" where
  "index_entry e r =
     (case e of (isDef, ptr, p) \<Rightarrow>
        if isDef then (if gomap_has r ptr then r else indexRefs p ptr (AList.update ptr p r))
        else indexRefs p ptr r)"

definition indexDefs :: "(string \<times> stype) list \<Rightarrow> string \<Rightarrow> ref_table \<Rightarrow> ref_table" where
  "indexDefs defs base refs = fold index_entry (def_entries defs base) refs"

text \<open>The root: its definitions, then its tree (nil when the document is not an object).\<close>

record schema_doc =
  doc_Definitions :: "(string \<times> stype) list"
  doc_Root :: "stype option"

definition collectRefs :: "schema_doc \<Rightarrow> ref_table" where
  "collectRefs d =
     (let r = indexDefs (doc_Definitions d) ''#'' []
      in case doc_Root d of None \<Rightarrow> r | Some n \<Rightarrow> indexRefs n ''#'' r)"

text \<open>\<open>strings.ReplaceAll\<close> of \<open>/definitions/\<close>; matches do not overlap.\<close>

function replace_all :: "string \<Rightarrow> string \<Rightarrow> string \<Rightarrow> string" where
  "replace_all old new s =
     (if s = [] \<or> old = [] then s
      else if HasPrefix s old then new @ replace_all old new (drop (length old) s)
      else hd s # replace_all old new (tl s))"
  by pat_completeness auto

termination
  by (relation "measure (\<lambda>(old, new, s). length s)") (auto simp: HasPrefix_def)

declare replace_all.simps [simp del]

definition normalizeRefPointer :: "string \<Rightarrow> string" where
  "normalizeRefPointer ref = replace_all ''/definitions/'' ''/$defs/'' ref"

section \<open>Version names\<close>

definition is_version_char :: "char \<Rightarrow> bool" where
  "is_version_char c = (is_lower c \<or> is_digit c)"

text \<open>The regular expression \<open>[^a-z0-9]+\<close>: every maximal run of other bytes becomes one separator.\<close>

fun replace_runs :: "char \<Rightarrow> bool \<Rightarrow> string \<Rightarrow> string" where
  "replace_runs sep inrun [] = []"
| "replace_runs sep inrun (c # s) =
     (if is_version_char c then c # replace_runs sep False s
      else if inrun then replace_runs sep True s
      else sep # replace_runs sep True s)"

definition trim_char :: "char \<Rightarrow> string \<Rightarrow> string" where
  "trim_char sep s = rev (dropWhile (\<lambda>c. c = sep) (rev (dropWhile (\<lambda>c. c = sep) s)))"

definition normalizeVersion :: "string \<Rightarrow> char \<Rightarrow> string" where
  "normalizeVersion ver sep =
     (let v = trim_char sep (replace_runs sep False (ToLower ver))
      in if v \<noteq> [] \<and> is_digit (hd v) then CHR ''v'' # v else v)"

definition NormalizeVersionName :: "string \<Rightarrow> string" where
  "NormalizeVersionName ver = normalizeVersion ver (CHR ''-'')"

section \<open>The table has one entry per pointer\<close>

lemma index_anchor_ok: "gomap_ok r \<Longrightarrow> gomap_ok (index_anchor a n r)"
  by (simp add: index_anchor_def)

lemma fold_ok: "(\<And>e r. e \<in> set es \<Longrightarrow> P r \<Longrightarrow> P (f e r)) \<Longrightarrow> P r \<Longrightarrow> P (fold f es r)"
  by (induction es arbitrary: r) simp_all

lemma indexRefs_ok: "gomap_ok r \<Longrightarrow> gomap_ok (indexRefs n base r)"
proof (induction n base r rule: indexRefs.induct)
  case (1 n base refs)
  show ?case
    unfolding indexRefs.simps [of n]
    by (rule fold_ok) (auto simp: 1 index_anchor_ok split: prod.splits)
qed

lemma collectRefs_ok: "gomap_ok (collectRefs d)"
proof -
  have "gomap_ok (indexDefs (doc_Definitions d) ''#'' [])"
    unfolding indexDefs_def by (rule fold_ok) (auto simp: index_entry_def indexRefs_ok)
  then show ?thesis by (simp add: collectRefs_def Let_def indexRefs_ok split: option.splits)
qed

end
