(* ===== verification/Crd_Transpile.thy ===== *)
theory Crd_Transpile
  imports Crd_Schema
begin

text \<open>
  The direct transpiler of \<open>crdgen/transpile.go\<close> and \<open>crdgen/transpile_keywords.go\<close>: a JSON Schema
  becomes a structural OpenAPI v3 schema, references are inlined, cycles are cut at the recursion edge.

  \<open>transpile\<close> returns the schema and the warnings in the order they are appended.  The stack of
  pointers being resolved is the argument \<open>stack\<close>; the Go map is restored after every resolution, so
  passing the extended list down is the same.  The recursion ends because a resolution adds a new
  pointer of the finite table to the stack and everything else descends to a smaller schema.

  \<open>fmtFloat\<close> is \<open>strconv.FormatFloat\<close> in the shortest form, the only part of the standard
  library that is an argument.
\<close>

section \<open>Structural schemas\<close>

record props_kw =
  j_Description :: string
  j_Type :: string
  j_Format :: string
  j_Title :: string
  j_Nullable :: bool
  j_XIntOrString :: bool
  j_XEmbeddedResource :: bool
  j_XPreserveUnknownFields :: bool
  j_Pattern :: string
  j_Minimum :: "rat option"
  j_Maximum :: "rat option"
  j_MultipleOf :: "rat option"
  j_MinLength :: "int option"
  j_MaxLength :: "int option"
  j_MinItems :: "int option"
  j_MaxItems :: "int option"
  j_Required :: "string list"
  j_Enum :: "any list"
  j_Default :: "any option"
  j_Example :: "any option"
  j_XListType :: "string option"
  j_XListMapKeys :: "string list"
  j_XMapType :: "string option"
  j_XValidations :: "validation_rule list"

definition zero_kw :: props_kw where
  "zero_kw = \<lparr>j_Description = [], j_Type = [], j_Format = [], j_Title = [], j_Nullable = False,
     j_XIntOrString = False, j_XEmbeddedResource = False, j_XPreserveUnknownFields = False, j_Pattern = [],
     j_Minimum = None, j_Maximum = None, j_MultipleOf = None, j_MinLength = None, j_MaxLength = None,
     j_MinItems = None, j_MaxItems = None, j_Required = [], j_Enum = [], j_Default = None, j_Example = None,
     j_XListType = None, j_XListMapKeys = [], j_XMapType = None, j_XValidations = []\<rparr>"

datatype props = JProps
  (j_kw: props_kw)
  (j_Properties: "(string \<times> props) list")
  (j_AdditionalProperties: "props option")
  (j_Items: "props option")
  (j_OneOf: "props list")
  (j_AnyOf: "props list")

definition leaf_props :: "props_kw \<Rightarrow> props" where
  "leaf_props k = JProps k [] None None [] []"

fun upd_kw :: "(props_kw \<Rightarrow> props_kw) \<Rightarrow> props \<Rightarrow> props" where
  "upd_kw f (JProps k ps ap it oo ao) = JProps (f k) ps ap it oo ao"

definition openObject :: props where
  "openObject = leaf_props (zero_kw\<lparr>j_Type := ''object'', j_XPreserveUnknownFields := True\<rparr>)"

type_synonym warnings = "string list"

definition warn :: "string \<Rightarrow> string \<Rightarrow> string" where
  "warn path reason = path @ '': '' @ reason"

section \<open>Types and literals\<close>

fun json_marshalable :: "any \<Rightarrow> bool" where
  "json_marshalable (AMap m) = list_all (\<lambda>(k, v). json_marshalable v) m"
| "json_marshalable (ASlice xs) = list_all json_marshalable xs"
| "json_marshalable (AMapSlice ms) =
     list_all (\<lambda>m. case m of None \<Rightarrow> True | Some kvs \<Rightarrow> list_all (\<lambda>(k, v). json_marshalable v) kvs) ms"
| "json_marshalable (AOther t) = False"
| "json_marshalable v = True"

definition jsonKindType :: "any \<Rightarrow> string" where
  "jsonKindType v =
     (case v of
        AString s \<Rightarrow> ''string''
      | ABool b \<Rightarrow> ''boolean''
      | AFloat64 r \<Rightarrow> ''number''
      | ANumber n \<Rightarrow> ''number''
      | AInt i \<Rightarrow> ''number''
      | AInt64 i \<Rightarrow> ''number''
      | AMap m \<Rightarrow> ''object''
      | ANilMap \<Rightarrow> ''object''
      | ASlice xs \<Rightarrow> ''array''
      | ANilSlice \<Rightarrow> ''array''
      | _ \<Rightarrow> [])"

definition inferType :: "stype \<Rightarrow> string" where
  "inferType n =
     (let k = s_kw n in
      if k_Const k \<noteq> None then jsonKindType (the (k_Const k))
      else if k_Enum k \<noteq> [] then jsonKindType (hd (k_Enum k))
      else if s_Properties n \<noteq> [] \<or> s_AdditionalProperties n \<noteq> None \<or> s_PatternProperties n \<noteq> [] then ''object''
      else if s_Items n \<noteq> None \<or> s_PrefixItems n \<noteq> [] then ''array''
      else if k_DependentRequired k \<noteq> [] \<or> s_If n \<noteq> None \<or> s_DependentSchemas n \<noteq> [] \<or>
              s_UnevaluatedProperties n \<noteq> None then ''object''
      else [])"

text \<open>The first type that is not null, and whether null occurs.\<close>

fun primary_loop :: "string list \<Rightarrow> string \<Rightarrow> bool \<Rightarrow> string \<times> bool" where
  "primary_loop [] primary nullable = (primary, nullable)"
| "primary_loop (t # ts) primary nullable =
     (if t = ''null'' then primary_loop ts primary True
      else if primary = [] then primary_loop ts t nullable
      else primary_loop ts primary nullable)"

definition primaryType :: "string list \<Rightarrow> string \<times> bool" where
  "primaryType types = primary_loop types [] False"

definition is_ident_start :: "char \<Rightarrow> bool" where
  "is_ident_start c =
     (is_lower c \<or> is_upper c \<or> c = CHR ''_'')"

definition celIdent :: "string \<Rightarrow> bool" where
  "celIdent s = (case s of [] \<Rightarrow> False
     | c # cs \<Rightarrow> is_ident_start c \<and> list_all (\<lambda>d. is_ident_start d \<or> is_digit d) cs)"

definition celHas :: "string \<Rightarrow> string option" where
  "celHas field = (if celIdent field then Some (''has(self.'' @ field @ '')'') else None)"

definition celSelf :: "string \<Rightarrow> string option" where
  "celSelf field = (if celIdent field then Some (''self.'' @ field) else None)"

text \<open>\<open>json.Marshal\<close> of a string: quotes, backslashes, control bytes and the HTML bytes are escaped.\<close>

definition hex_digit :: "nat \<Rightarrow> char" where
  "hex_digit n = (if n < 10 then char_of (48 + n) else char_of (87 + n))"

definition json_escape :: "char \<Rightarrow> string" where
  "json_escape c =
     (if c = CHR 0x22 then [CHR 0x5C, CHR 0x22]
      else if c = CHR 0x5C then [CHR 0x5C, CHR 0x5C]
      else if c = CHR 0x08 then [CHR 0x5C, CHR ''b'']
      else if c = CHR 0x0C then [CHR 0x5C, CHR ''f'']
      else if c = CHR 0x0A then [CHR 0x5C, CHR ''n'']
      else if c = CHR 0x0D then [CHR 0x5C, CHR ''r'']
      else if c = CHR 0x09 then [CHR 0x5C, CHR ''t'']
      else if of_char c < (32 :: nat) \<or> c \<in> set ''<>&''
      then [CHR 0x5C, CHR ''u'', CHR ''0'', CHR ''0'', hex_digit (of_char c div 16), hex_digit (of_char c mod 16)]
      else [c])"

definition json_string :: "string \<Rightarrow> string" where
  "json_string s = [CHR 0x22] @ concat (map json_escape s) @ [CHR 0x22]"

definition celLiteral :: "(rat \<Rightarrow> string) \<Rightarrow> any \<Rightarrow> string option" where
  "celLiteral fmtFloat v =
     (case v of
        AString s \<Rightarrow> Some (json_string s)
      | ABool b \<Rightarrow> Some (if b then ''true'' else ''false'')
      | AFloat64 r \<Rightarrow> Some (fmtFloat r)
      | ANumber n \<Rightarrow> Some n
      | AInt i \<Rightarrow> Some (Itoa i)
      | AInt64 i \<Rightarrow> Some (Itoa i)
      | ANil \<Rightarrow> Some ''null''
      | _ \<Rightarrow> None)"

definition celLiteralList :: "(rat \<Rightarrow> string) \<Rightarrow> any list \<Rightarrow> string list option" where
  "celLiteralList fmtFloat vs = those (map (celLiteral fmtFloat) vs)"

definition fieldAllowed :: "props \<Rightarrow> string \<Rightarrow> bool" where
  "fieldAllowed out name =
     (j_XPreserveUnknownFields (j_kw out) \<or> j_AdditionalProperties out \<noteq> None \<or> gomap_has (j_Properties out) name)"

definition sortedStrings :: "string list \<Rightarrow> string list" where
  "sortedStrings s = sort s"

section \<open>Validation keywords\<close>

definition positive :: "int \<Rightarrow> int option" where
  "positive i = (if i > 0 then Some i else None)"

definition copyScalarValidation :: "type_keywords \<Rightarrow> props_kw \<Rightarrow> props_kw" where
  "copyScalarValidation k out =
     out\<lparr>j_Pattern := k_Pattern k, j_Minimum := k_Minimum k, j_Maximum := k_Maximum k,
        j_MultipleOf := k_MultipleOf k,
        j_MinLength := (case positive (k_MinLength k) of None \<Rightarrow> j_MinLength out | v \<Rightarrow> v),
        j_MaxLength := (case positive (k_MaxLength k) of None \<Rightarrow> j_MaxLength out | v \<Rightarrow> v)\<rparr>"

definition isScalarItems :: "props \<Rightarrow> bool" where
  "isScalarItems out =
     (case j_Items out of
        None \<Rightarrow> False
      | Some i \<Rightarrow> j_Type (j_kw i) \<in> {''string'', ''integer'', ''number'', ''boolean''})"

definition simple_rule :: "string \<Rightarrow> string \<Rightarrow> validation_rule" where
  "simple_rule rule message = \<lparr>vr_Rule = rule, vr_Message = message, vr_MessageExpression = [], vr_Reason = None,
     vr_FieldPath = [], vr_OptionalOldSelf = None\<rparr>"

definition addRule :: "string \<Rightarrow> string \<Rightarrow> props \<Rightarrow> props" where
  "addRule rule message = upd_kw (\<lambda>k. k\<lparr>j_XValidations := j_XValidations k @ [simple_rule rule message]\<rparr>)"

definition applyUniqueItems :: "type_keywords \<Rightarrow> props \<Rightarrow> props" where
  "applyUniqueItems k out =
     (if \<not> k_UniqueItems k \<or> k_XListType k \<noteq> None then out
      else if isScalarItems out then upd_kw (\<lambda>j. j\<lparr>j_XListType := Some ''set''\<rparr>) out
      else if j_MaxItems (j_kw out) \<noteq> None
      then addRule ''self.all(x, self.exists_one(y, y == x))'' ''Items must be unique'' out
      else out)"

definition copyArrayValidation :: "type_keywords \<Rightarrow> props \<Rightarrow> props" where
  "copyArrayValidation k out =
     applyUniqueItems k (upd_kw (\<lambda>j. j\<lparr>
        j_MinItems := (case positive (k_MinItems k) of None \<Rightarrow> j_MinItems j | v \<Rightarrow> v),
        j_MaxItems := (case positive (k_MaxItems k) of None \<Rightarrow> j_MaxItems j | v \<Rightarrow> v)\<rparr>) out)"

definition copyEnum :: "type_keywords \<Rightarrow> string \<Rightarrow> props \<times> warnings \<Rightarrow> props \<times> warnings" where
  "copyEnum k path ow =
     (let (out, w) = ow in
      if k_Enum k = [] \<or> j_Type (j_kw out) = [] \<or> j_Type (j_kw out) = ''object'' then ow
      else (upd_kw (\<lambda>j. j\<lparr>j_Enum := j_Enum j @ filter json_marshalable (k_Enum k)\<rparr>) out,
            w @ map (\<lambda>e. warn path ''undmarshalable enum value dropped'') (filter (\<lambda>e. \<not> json_marshalable e) (k_Enum k))))"

definition copyDefault :: "type_keywords \<Rightarrow> string \<Rightarrow> props \<times> warnings \<Rightarrow> props \<times> warnings" where
  "copyDefault k path ow =
     (let (out, w) = ow in
      case k_Default k of
        None \<Rightarrow> ow
      | Some v \<Rightarrow>
          if json_marshalable v then (upd_kw (\<lambda>j. j\<lparr>j_Default := Some v\<rparr>) out, w)
          else (out, w @ [warn path ''unmarshalable default dropped'']))"

definition copyConst :: "type_keywords \<Rightarrow> string \<Rightarrow> props \<times> warnings \<Rightarrow> props \<times> warnings" where
  "copyConst k path ow =
     (let (out, w) = ow in
      case k_Const k of
        None \<Rightarrow> ow
      | Some v \<Rightarrow>
          if json_marshalable v then (upd_kw (\<lambda>j. j\<lparr>j_Enum := [v]\<rparr>) out, w)
          else (out, w @ [warn path ''unmarshalable const dropped'']))"

definition copyTitle :: "type_keywords \<Rightarrow> props \<Rightarrow> props" where
  "copyTitle k out = (if k_Title k \<noteq> [] then upd_kw (\<lambda>j. j\<lparr>j_Title := k_Title k\<rparr>) out else out)"

definition copyExample :: "type_keywords \<Rightarrow> props \<Rightarrow> props" where
  "copyExample k out =
     (case k_Examples k of
        None \<Rightarrow> out
      | Some v \<Rightarrow>
          (case (case v of ASlice xs \<Rightarrow> (if xs = [] then None else Some (hd xs)) | ANilSlice \<Rightarrow> None | _ \<Rightarrow> Some v) of
             None \<Rightarrow> out
           | Some x \<Rightarrow> if json_marshalable x then upd_kw (\<lambda>j. j\<lparr>j_Example := Some x\<rparr>) out else out))"

text \<open>The rule type of the input has the same fields as the rule type of the output.\<close>

definition toValidationRule :: "validation_rule \<Rightarrow> validation_rule" where
  "toValidationRule r = \<lparr>vr_Rule = vr_Rule r, vr_Message = vr_Message r, vr_MessageExpression = vr_MessageExpression r,
     vr_Reason = vr_Reason r, vr_FieldPath = vr_FieldPath r, vr_OptionalOldSelf = vr_OptionalOldSelf r\<rparr>"

definition passthroughExtensions :: "type_keywords \<Rightarrow> props \<Rightarrow> props" where
  "passthroughExtensions k = upd_kw (\<lambda>j. j\<lparr>
     j_XEmbeddedResource := (j_XEmbeddedResource j \<or> k_XEmbeddedResource k),
     j_XListType := (if k_XListType k \<noteq> None then k_XListType k else j_XListType j),
     j_XListMapKeys := (if k_XListMapKeys k \<noteq> [] then k_XListMapKeys k else j_XListMapKeys j),
     j_XMapType := (if k_XMapType k \<noteq> None then k_XMapType k else j_XMapType j),
     j_XValidations := j_XValidations j @ map toValidationRule (k_XValidations k)\<rparr>)"

section \<open>Conditions in CEL\<close>

text \<open>One dependency group: the rule, or the warning that it is dropped.\<close>

definition dependent_rule :: "string \<Rightarrow> props \<times> warnings \<Rightarrow> string \<times> string list \<Rightarrow> props \<times> warnings" where
  "dependent_rule path ow g =
     (let (out, w) = ow; (p, deps) = g in
      if deps = [] then ow
      else case celHas p of
             None \<Rightarrow> (out, w @ [warn path (''dependentRequired key not a usable CEL field -> dropped: '' @ p)])
           | Some trigger \<Rightarrow>
               if \<not> fieldAllowed out p
               then (out, w @ [warn path (''dependentRequired key not a usable CEL field -> dropped: '' @ p)])
               else if list_all (\<lambda>d. celIdent d \<and> fieldAllowed out d) deps
               then (addRule (''!'' @ trigger @ '' || ('' @ Join (map (\<lambda>d. ''has(self.'' @ d @ '')'') deps) '' && '' @ '')'')
                       (''when '' @ p @ '' is set, these must also be set: '' @ Join deps '', '') out, w)
               else (out, w @ [warn path (''dependentRequired dependency not a usable CEL field -> dropped for '' @ p)]))"

definition emitDependentRequired :: "type_keywords \<Rightarrow> string \<Rightarrow> props \<times> warnings \<Rightarrow> props \<times> warnings" where
  "emitDependentRequired k path ow =
     (if k_DependentRequired k = [] then ow
      else if j_Type (j_kw (fst ow)) \<noteq> ''object''
      then (fst ow, snd ow @ [warn path ''dependentRequired on non-object -> dropped''])
      else fold (\<lambda>g ow. dependent_rule path ow g) (sort_key fst (k_DependentRequired k)) ow)"

definition isScalarOnly :: "stype \<Rightarrow> bool" where
  "isScalarOnly n =
     (s_Properties n = [] \<and> s_Items n = None \<and> s_AllOf n = [] \<and> s_AnyOf n = [] \<and> s_OneOf n = [] \<and>
      k_Ref (s_kw n) = [] \<and> s_AdditionalProperties n = None \<and> s_If n = None \<and> s_Not n = None)"

definition emitNot :: "(rat \<Rightarrow> string) \<Rightarrow> stype \<Rightarrow> string \<Rightarrow> props \<times> warnings \<Rightarrow> props \<times> warnings" where
  "emitNot fmtFloat node path ow =
     (let (out, w) = ow in
      case s_Not node of
        None \<Rightarrow> ow
      | Some n \<Rightarrow>
          if j_Type (j_kw out) = [] \<or> j_Type (j_kw out) = ''object'' \<or> j_Type (j_kw out) = ''array''
          then (out, w @ [warn path ''not on non-scalar node unsupported -> dropped''])
          else if \<not> isScalarOnly n then (out, w @ [warn path ''not (non-trivial subschema) unsupported -> dropped''])
          else case Option.bind (k_Const (s_kw n)) (celLiteral fmtFloat) of
                 Some lit \<Rightarrow> (addRule (''self != '' @ lit) (''must not equal '' @ lit) out, w)
               | None \<Rightarrow>
                   (case (if k_Enum (s_kw n) = [] then None else celLiteralList fmtFloat (k_Enum (s_kw n))) of
                      Some lits \<Rightarrow> (addRule (''!(self in ['' @ Join lits '', '' @ ''])'')
                                      ''must not be one of the forbidden values'' out, w)
                    | None \<Rightarrow> (out, w @ [warn path ''not (non-trivial) unsupported -> dropped''])))"

text \<open>The conjuncts of a condition: a whole-object constant, required fields, constrained properties.\<close>

definition cond_required :: "props \<Rightarrow> string \<Rightarrow> string option" where
  "cond_required out r = (if fieldAllowed out r then celHas r else None)"

definition cond_property :: "(rat \<Rightarrow> string) \<Rightarrow> props \<Rightarrow> string \<times> stype \<Rightarrow> string option" where
  "cond_property fmtFloat out kp =
     (let (key, p) = kp in
      case (celHas key, celSelf key) of
        (Some has, Some sel) \<Rightarrow>
          if \<not> fieldAllowed out key then None
          else (case k_Const (s_kw p) of
                  Some c \<Rightarrow> map_option (\<lambda>lit. has @ '' && '' @ sel @ '' == '' @ lit) (celLiteral fmtFloat c)
                | None \<Rightarrow>
                    if k_Enum (s_kw p) \<noteq> []
                    then map_option (\<lambda>lits. has @ '' && ('' @ sel @ '' in ['' @ Join lits '', '' @ ''])'')
                           (celLiteralList fmtFloat (k_Enum (s_kw p)))
                    else Some has)
      | _ \<Rightarrow> None)"

definition celCond :: "(rat \<Rightarrow> string) \<Rightarrow> props \<Rightarrow> stype \<Rightarrow> string option" where
  "celCond fmtFloat out s =
     (let k = s_kw s in
      if k_Type k \<noteq> [] \<and> k_Type k \<noteq> [''object''] then None
      else if s_Items s \<noteq> None \<or> s_AllOf s \<noteq> [] \<or> s_AnyOf s \<noteq> [] \<or> s_OneOf s \<noteq> [] \<or> k_Ref k \<noteq> [] \<or>
              s_AdditionalProperties s \<noteq> None \<or> s_Not s \<noteq> None \<or> s_If s \<noteq> None then None
      else case those ((case k_Const k of None \<Rightarrow> [] | Some c \<Rightarrow> [map_option (\<lambda>l. ''self == '' @ l) (celLiteral fmtFloat c)]) @
                       map (cond_required out) (sortedStrings (k_Required k)) @
                       map (cond_property fmtFloat out) (sort_key fst (s_Properties s))) of
             None \<Rightarrow> None
           | Some cs \<Rightarrow> if cs = [] then None else Some (Join cs '' && ''))"

definition emit_branch ::
  "(rat \<Rightarrow> string) \<Rightarrow> stype option \<Rightarrow> (string \<Rightarrow> string) \<Rightarrow> string \<Rightarrow> string \<Rightarrow> string \<Rightarrow>
   props \<times> warnings \<Rightarrow> props \<times> warnings" where
  "emit_branch fmtFloat branch rule message missing path ow =
     (let (out, w) = ow in
      case branch of
        None \<Rightarrow> ow
      | Some s \<Rightarrow>
          (case celCond fmtFloat out s of
             Some cons \<Rightarrow> (addRule (rule cons) message out, w)
           | None \<Rightarrow> (out, w @ [warn path missing])))"

definition emitIfThenElse :: "(rat \<Rightarrow> string) \<Rightarrow> stype \<Rightarrow> string \<Rightarrow> props \<times> warnings \<Rightarrow> props \<times> warnings" where
  "emitIfThenElse fmtFloat node path ow =
     (let (out, w) = ow in
      case s_If node of
        None \<Rightarrow> ow
      | Some c \<Rightarrow>
          if j_Type (j_kw out) \<noteq> ''object'' then (out, w @ [warn path ''if/then/else on non-object -> dropped''])
          else (case celCond fmtFloat out c of
                  None \<Rightarrow> (out, w @ [warn path ''if condition not expressible in CEL -> if/then/else dropped''])
                | Some cond \<Rightarrow>
                    emit_branch fmtFloat (s_Else node) (\<lambda>e. ''('' @ cond @ '') || ('' @ e @ '')'')
                      ''conditional constraint (else)'' ''else not expressible in CEL -> dropped'' path
                      (emit_branch fmtFloat (s_Then node) (\<lambda>t. ''!('' @ cond @ '') || ('' @ t @ '')'')
                        ''conditional constraint (then)'' ''then not expressible in CEL -> dropped'' path ow)))"

section \<open>Unsupported keywords\<close>

definition widen :: "props \<Rightarrow> props" where
  "widen out =
     (if j_Type (j_kw out) = ''object'' \<and> j_AdditionalProperties out = None
      then upd_kw (\<lambda>j. j\<lparr>j_XPreserveUnknownFields := True\<rparr>) out else out)"

fun set_items :: "props \<Rightarrow> props \<Rightarrow> props" where
  "set_items (JProps k ps ap it oo ao) i = JProps k ps ap (Some i) oo ao"

text \<open>The five checks, in order; a closed \<open>unevaluatedProperties: false\<close> needs no widening.\<close>

definition note_if :: "bool \<Rightarrow> (props \<Rightarrow> props) \<Rightarrow> string \<Rightarrow> props \<times> warnings \<Rightarrow> props \<times> warnings" where
  "note_if present change message ow = (if present then (change (fst ow), snd ow @ [message]) else ow)"

definition tuple_items :: "props \<Rightarrow> props" where
  "tuple_items out =
     (if j_Type (j_kw out) = ''array'' \<and> j_Items out = None then set_items out openObject else out)"

definition handleUnsupported :: "stype \<Rightarrow> string \<Rightarrow> props \<times> warnings \<Rightarrow> props \<times> warnings" where
  "handleUnsupported n path ow =
     note_if (s_UnevaluatedItems n \<noteq> None) (\<lambda>p. p) (warn path ''unevaluatedItems unsupported -> ignored'')
       (note_if (s_UnevaluatedProperties n \<noteq> None \<and> s_UnevaluatedProperties n \<noteq> Some (Inl False)) widen
          (warn path ''unevaluatedProperties (schema/true) -> preserve-unknown'')
       (note_if (s_PrefixItems n \<noteq> []) tuple_items
          (warn path ''prefixItems (tuple positional typing) not representable -> items accepted as-is'')
       (note_if (s_DependentSchemas n \<noteq> []) (\<lambda>p. p) (warn path ''dependentSchemas unsupported -> dropped'')
       (note_if (s_PatternProperties n \<noteq> []) widen
          (warn path ''patternProperties unsupported -> preserve-unknown'') ow))))"

section \<open>Unions\<close>

definition union_members :: "stype \<Rightarrow> stype list" where
  "union_members n = (if s_AnyOf n \<noteq> [] then s_AnyOf n else s_OneOf n)"

definition union_kind :: "stype \<Rightarrow> string" where
  "union_kind n = (if s_AnyOf n \<noteq> [] then ''anyOf'' else ''oneOf'')"

definition has_union :: "stype \<Rightarrow> bool" where
  "has_union n = (s_OneOf n \<noteq> [] \<or> s_AnyOf n \<noteq> [])"

definition constraint_only :: "stype \<Rightarrow> bool" where
  "constraint_only m =
     (k_Type (s_kw m) = [] \<and> s_Properties m = [] \<and> s_Items m = None \<and> k_Ref (s_kw m) = [] \<and> s_AllOf m = [] \<and>
      s_AnyOf m = [] \<and> s_OneOf m = [] \<and> s_AdditionalProperties m = None)"

fun set_union :: "bool \<Rightarrow> props list \<Rightarrow> props \<Rightarrow> props" where
  "set_union isAny v (JProps k ps ap it oo ao) =
     (if isAny then JProps k ps ap it oo v else JProps k ps ap it v ao)"

text \<open>
  \<open>attachUnion\<close>; \<open>subs\<close> are the transpiled members, used only when every member is constraint-only.
  The flag says that the node became a widened object.
\<close>

definition attachUnion ::
  "stype \<Rightarrow> string \<Rightarrow> (props \<times> warnings) list \<Rightarrow> props \<times> warnings \<Rightarrow> bool \<times> props \<times> warnings" where
  "attachUnion n path subs ow =
     (let (out, w) = ow in
      if list_all constraint_only (union_members n)
      then (False, set_union (s_AnyOf n \<noteq> []) (map fst subs) out, w @ concat (map snd subs))
      else let w' = w @ [warn path (union_kind n @ '' of divergent shapes -> degraded to preserve-unknown'')] in
           if j_Type (j_kw out) = []
           then (True, upd_kw (\<lambda>j. j\<lparr>j_Type := ''object'', j_XPreserveUnknownFields := True\<rparr>) out, w')
           else if j_Type (j_kw out) = ''object''
           then (False, upd_kw (\<lambda>j. j\<lparr>j_XPreserveUnknownFields := True\<rparr>) out, w')
           else (False, out, w'))"

section \<open>Objects and allOf\<close>

text \<open>
  \<open>fillObject\<close>; \<open>children\<close> are the transpiled properties in key order, \<open>extra\<close> is the transpiled
  schema of \<open>additionalProperties\<close> when the node has no properties.
\<close>

definition fillObject ::
  "stype \<Rightarrow> string \<Rightarrow> props_kw \<Rightarrow> (string \<times> props \<times> warnings) list \<Rightarrow> (props \<times> warnings) option \<Rightarrow> props \<times> warnings" where
  "fillObject n path k children extra =
     (let ps = map (\<lambda>(key, p, w). (key, p)) children;
          w = concat (map (\<lambda>(key, p, w). w) children);
          k1 = (if k_Required (s_kw n) \<noteq> [] then k\<lparr>j_Required := sort (k_Required (s_kw n))\<rparr> else k)
      in case s_AdditionalProperties n of
           None \<Rightarrow> (JProps k1 ps None None [] [], w)
         | Some (Inl b) \<Rightarrow>
             (JProps (if b then k1\<lparr>j_XPreserveUnknownFields := True\<rparr> else k1) ps None None [] [], w)
         | Some (Inr t) \<Rightarrow>
             (if ps \<noteq> []
              then (JProps (k1\<lparr>j_XPreserveUnknownFields := True\<rparr>) ps None None [] [],
                    w @ [warn path ''properties + additionalProperties schema -> keep properties + preserve-unknown''])
              else case extra of
                     Some (p, we) \<Rightarrow> (JProps k1 ps (Some p) None [] [], w @ we)
                   | None \<Rightarrow> (JProps k1 ps None None [] [], w)))"

text \<open>The accumulator of \<open>transpileAllOf\<close>: properties, required set, preserve flag, description.\<close>

record all_of =
  ao_Properties :: "(string \<times> props) list"
  ao_Required :: "string list"
  ao_Preserve :: bool
  ao_Description :: string

definition absorb :: "props \<Rightarrow> all_of \<Rightarrow> all_of" where
  "absorb sub m =
     (if j_Type (j_kw sub) \<noteq> [] \<and> j_Type (j_kw sub) \<noteq> ''object'' then m\<lparr>ao_Preserve := True\<rparr>
      else \<lparr>ao_Properties = fold (\<lambda>(k, v) ps. AList.update k v ps) (j_Properties sub) (ao_Properties m),
            ao_Required = fold List.insert (j_Required (j_kw sub)) (ao_Required m),
            ao_Preserve = (ao_Preserve m \<or> j_XPreserveUnknownFields (j_kw sub)),
            ao_Description = (if ao_Description m = [] then j_Description (j_kw sub) else ao_Description m)\<rparr>)"

definition mergeAllOf :: "stype \<Rightarrow> (props \<times> warnings) list \<Rightarrow> props \<times> warnings" where
  "mergeAllOf n subs =
     (let m = fold absorb (map fst subs) \<lparr>ao_Properties = [], ao_Required = [], ao_Preserve = False, ao_Description = []\<rparr>;
          k = zero_kw\<lparr>j_Type := ''object'',
                j_XPreserveUnknownFields := (ao_Preserve m \<or> ao_Properties m = []),
                j_Required := sort (ao_Required m),
                j_Description := (if k_Description (s_kw n) \<noteq> [] then k_Description (s_kw n) else ao_Description m)\<rparr>
      in (JProps k (ao_Properties m) None None [] [], concat (map snd subs)))"

section \<open>transpile\<close>

definition ref_of :: "stype \<Rightarrow> string" where
  "ref_of n =
     (let k = s_kw n in
      if k_Ref k \<noteq> [] then k_Ref k else if k_DynamicRef k \<noteq> [] then k_DynamicRef k else k_RecursiveRef k)"

definition describe :: "stype \<Rightarrow> props \<Rightarrow> props" where
  "describe n out =
     (if k_Description (s_kw n) \<noteq> [] then upd_kw (\<lambda>j. j\<lparr>j_Description := k_Description (s_kw n)\<rparr>) out else out)"

definition int_or_string :: "stype \<Rightarrow> props" where
  "int_or_string n =
     leaf_props (zero_kw\<lparr>j_Description := k_Description (s_kw n), j_XIntOrString := True, j_Title := k_Title (s_kw n)\<rparr>)"

definition node_type :: "stype \<Rightarrow> string" where
  "node_type n = (let t = fst (primaryType (k_Type (s_kw n))) in if t = [] then inferType n else t)"

definition base_kw :: "stype \<Rightarrow> props_kw" where
  "base_kw n = zero_kw\<lparr>j_Description := k_Description (s_kw n),
     j_Nullable := (snd (primaryType (k_Type (s_kw n))) \<or> k_Nullable (s_kw n))\<rparr>"

definition object_like :: "stype \<Rightarrow> bool" where
  "object_like n =
     (s_Properties n \<noteq> [] \<or> (case s_AdditionalProperties n of Some (Inr t) \<Rightarrow> True | _ \<Rightarrow> False))"

definition typed_object :: "stype \<Rightarrow> props" where
  "typed_object n =
     leaf_props ((base_kw n)\<lparr>j_Type := ''object'',
       j_XPreserveUnknownFields := (s_AdditionalProperties n = None \<or> s_AdditionalProperties n = Some (Inl True))\<rparr>)"

definition typed_array :: "stype \<Rightarrow> props \<Rightarrow> props" where
  "typed_array n items =
     copyArrayValidation (s_kw n) (JProps ((base_kw n)\<lparr>j_Type := ''array''\<rparr>) [] None (Some items) [] [])"

definition typed_scalar :: "stype \<Rightarrow> props" where
  "typed_scalar n =
     leaf_props (copyScalarValidation (s_kw n)
       ((base_kw n)\<lparr>j_Type := node_type n, j_Format := k_Format (s_kw n)\<rparr>))"

definition is_scalar_type :: "string \<Rightarrow> bool" where
  "is_scalar_type t = (t \<in> {''string'', ''integer'', ''number'', ''boolean''})"

text \<open>The keywords common to every typed node, then the union and the conditional keywords.\<close>

definition finish ::
  "(rat \<Rightarrow> string) \<Rightarrow> stype \<Rightarrow> string \<Rightarrow> (props \<times> warnings) list \<Rightarrow> props \<times> warnings \<Rightarrow> props \<times> warnings" where
  "finish fmtFloat n path subs ow =
     (let k = s_kw n;
          (o1, w1) = copyConst k path (copyDefault k path (copyEnum k path ow));
          o2 = passthroughExtensions k (copyExample k (copyTitle k o1));
          ow3 = (if has_union n then snd (attachUnion n path subs (o2, w1)) else (o2, w1))
      in handleUnsupported n path
           (emitIfThenElse fmtFloat n path (emitNot fmtFloat n path (emitDependentRequired k path ow3))))"

text \<open>The default branch of the switch: a widened union, or the open object.\<close>

definition untyped ::
  "(rat \<Rightarrow> string) \<Rightarrow> stype \<Rightarrow> string \<Rightarrow> (props \<times> warnings) list \<Rightarrow> props \<times> warnings" where
  "untyped fmtFloat n path subs =
     (let (became, out, w) = (if has_union n then attachUnion n path subs (leaf_props (base_kw n), [])
                              else (False, leaf_props (base_kw n), []))
      in if became then finish fmtFloat n path subs (out, w)
         else (openObject, w @ (if s_Not n \<noteq> None
                                then [warn path ''not without a typed node -> open object (constraint dropped)'']
                                else [])))"

text \<open>Resolving a reference shrinks the set of pointers not on the stack; all else shrinks the schema.\<close>

definition unresolved :: "ref_table \<Rightarrow> string list \<Rightarrow> nat" where
  "unresolved refs stack = card (fst ` set refs - set stack)"

lemma unresolved_push:
  assumes "map_of refs key = Some t" and "key \<notin> set stack"
  shows "unresolved refs (key # stack) < unresolved refs stack"
proof -
  have "key \<in> fst ` set refs" using assms(1) by (force dest: map_of_SomeD)
  then have "fst ` set refs - set (key # stack) \<subset> fst ` set refs - set stack" using assms(2) by auto
  then show ?thesis unfolding unresolved_def by (intro psubset_card_mono) auto
qed

lemma union_members_smaller: "p \<in> set (union_members n) \<Longrightarrow> size p < size n"
  by (auto simp: union_members_def size_subschema split: if_splits)

function transpile ::
  "(rat \<Rightarrow> string) \<Rightarrow> ref_table \<Rightarrow> string list \<Rightarrow> stype \<Rightarrow> string \<Rightarrow> props \<times> warnings" where
  "transpile fmtFloat refs stack n path =
     (if ref_of n \<noteq> []
      then (case map_of refs (normalizeRefPointer (ref_of n)) of
              None \<Rightarrow> (openObject, [warn path (''unresolved $ref '' @ ref_of n @ '' -> open object'')])
            | Some target \<Rightarrow>
                if normalizeRefPointer (ref_of n) \<in> set stack
                then (openObject, [warn path (''cycle at '' @ ref_of n @ '' -> preserve-unknown'')])
                else apfst (describe n)
                       (transpile fmtFloat refs (normalizeRefPointer (ref_of n) # stack) target path))
      else if s_AllOf n \<noteq> []
      then mergeAllOf n (map (\<lambda>m. transpile fmtFloat refs stack m path) (without_allOf n # s_AllOf n))
      else if k_XIntOrString (s_kw n) then (int_or_string n, [])
      else let subs = (if has_union n \<and> list_all constraint_only (union_members n)
                       then map (\<lambda>m. transpile fmtFloat refs stack m (path @ ''/'' @ union_kind n)) (union_members n)
                       else [])
           in if object_like n
              then finish fmtFloat n path subs
                     (fillObject n path ((base_kw n)\<lparr>j_Type := ''object''\<rparr>)
                        (map (\<lambda>(k, p). (k, transpile fmtFloat refs stack p (path @ ''.'' @ k)))
                           (sort_key fst (s_Properties n)))
                        (case s_AdditionalProperties n of
                           Some (Inr t) \<Rightarrow>
                             if s_Properties n = [] then Some (transpile fmtFloat refs stack t (path @ ''{}'')) else None
                         | _ \<Rightarrow> None))
              else if node_type n = ''object'' then finish fmtFloat n path subs (typed_object n, [])
              else if node_type n = ''array''
              then finish fmtFloat n path subs
                     (case s_Items n of
                        Some i \<Rightarrow> apfst (typed_array n) (transpile fmtFloat refs stack i (path @ ''[]''))
                      | None \<Rightarrow> (typed_array n openObject, []))
              else if is_scalar_type (node_type n) then finish fmtFloat n path subs (typed_scalar n, [])
              else untyped fmtFloat n path subs)"
  by pat_completeness auto

termination
  by (relation "inv_image (less_than <*lex*> less_than) (\<lambda>(f, refs, stack, n, path). (unresolved refs stack, size n))")
    (auto simp: unresolved_push size_subschema size_without_allOf union_members_smaller)

declare transpile.simps [simp del]

section \<open>Structural output\<close>

definition json_types :: "string set" where
  "json_types = {''object'', ''array'', ''string'', ''integer'', ''number'', ''boolean''}"

text \<open>
  What the API server requires of a structural schema at every node outside the unions: a type, or int-or-string and no
  type; properties and additional properties on objects only and never both; items exactly on arrays;
  unknown fields preserved on objects only.
\<close>

definition node_ok :: "props \<Rightarrow> bool" where
  "node_ok p \<longleftrightarrow>
     (if j_XIntOrString (j_kw p) then j_Type (j_kw p) = [] else j_Type (j_kw p) \<in> json_types) \<and>
     (j_Properties p \<noteq> [] \<or> j_AdditionalProperties p \<noteq> None \<longrightarrow> j_Type (j_kw p) = ''object'') \<and>
     \<not> (j_Properties p \<noteq> [] \<and> j_AdditionalProperties p \<noteq> None) \<and>
     (j_Items p \<noteq> None \<longleftrightarrow> j_Type (j_kw p) = ''array'') \<and>
     (j_XPreserveUnknownFields (j_kw p) \<longrightarrow> j_Type (j_kw p) = ''object'')"

text \<open>
  Structural schemas.  The rule above holds at every node outside the unions, and the members of a
  \<open>oneOf\<close> or \<open>anyOf\<close> are constraint-only: they set no type, no int-or-string, no properties and no items.
\<close>

fun structural_nodes :: "props \<Rightarrow> bool" where
  "structural_nodes (JProps k ps ap it oo ao) \<longleftrightarrow>
     node_ok (JProps k ps ap it oo ao) \<and> (\<forall>kp\<in>set ps. structural_nodes (snd kp)) \<and>
     (\<forall>p\<in>set_option ap. structural_nodes p) \<and> (\<forall>p\<in>set_option it. structural_nodes p)"

definition bare_member :: "props \<Rightarrow> bool" where
  "bare_member m \<longleftrightarrow> j_Type (j_kw m) = [] \<and> \<not> j_XIntOrString (j_kw m) \<and> j_Properties m = [] \<and>
     j_AdditionalProperties m = None \<and> j_Items m = None"

fun bare_unions :: "props \<Rightarrow> bool" where
  "bare_unions (JProps k ps ap it oo ao) \<longleftrightarrow>
     (\<forall>m\<in>set oo \<union> set ao. bare_member m) \<and> (\<forall>kp\<in>set ps. bare_unions (snd kp)) \<and>
     (\<forall>p\<in>set_option ap. bare_unions p) \<and> (\<forall>p\<in>set_option it. bare_unions p)"

definition structural :: "props \<Rightarrow> bool" where
  "structural p \<longleftrightarrow> structural_nodes p \<and> bare_unions p"

fun union_free :: "props \<Rightarrow> bool" where
  "union_free (JProps k ps ap it oo ao) \<longleftrightarrow>
     oo = [] \<and> ao = [] \<and> (\<forall>kp\<in>set ps. union_free (snd kp)) \<and>
     (\<forall>p\<in>set_option ap. union_free p) \<and> (\<forall>p\<in>set_option it. union_free p)"

text \<open>The transpiler follows the rule for nodes everywhere, in the members of unions too.\<close>

fun nodes_ok :: "props \<Rightarrow> bool" where
  "nodes_ok (JProps k ps ap it oo ao) \<longleftrightarrow>
     node_ok (JProps k ps ap it oo ao) \<and> (\<forall>kp\<in>set ps. nodes_ok (snd kp)) \<and>
     (\<forall>p\<in>set_option ap. nodes_ok p) \<and> (\<forall>p\<in>set_option it. nodes_ok p) \<and>
     (\<forall>p\<in>set oo. nodes_ok p) \<and> (\<forall>p\<in>set ao. nodes_ok p)"

lemma nodes_ok_structural_nodes: "nodes_ok p \<Longrightarrow> structural_nodes p"
  by (induction p rule: structural_nodes.induct) auto

lemma node_not_bare: "node_ok m \<Longrightarrow> \<not> bare_member m"
  by (auto simp: node_ok_def bare_member_def json_types_def split: if_splits)

lemma nodes_ok_bare_iff: "nodes_ok p \<Longrightarrow> bare_unions p \<longleftrightarrow> union_free p"
proof (induction p rule: bare_unions.induct)
  case (1 k ps ap it oo ao)
  have "\<not> bare_member m" if "m \<in> set oo \<union> set ao" for m
    using 1(4) that node_not_bare by (cases m) auto
  then have "(\<forall>m\<in>set oo \<union> set ao. bare_member m) \<longleftrightarrow> oo = [] \<and> ao = []" by (cases oo; cases ao) auto
  with 1 show ?case by auto
qed

lemma nodes_ok_structural_iff: "nodes_ok p \<Longrightarrow> structural p \<longleftrightarrow> union_free p"
  by (simp add: structural_def nodes_ok_structural_nodes nodes_ok_bare_iff)

lemma nodes_ok_node: "nodes_ok p \<Longrightarrow> node_ok p"
  by (cases p) simp

definition shape_kept :: "(props_kw \<Rightarrow> props_kw) \<Rightarrow> bool" where
  "shape_kept f \<longleftrightarrow> (\<forall>k. j_Type (f k) = j_Type k \<and> j_XIntOrString (f k) = j_XIntOrString k \<and>
     (j_XPreserveUnknownFields (f k) \<longrightarrow> j_XPreserveUnknownFields k \<or> j_Type k = ''object''))"

lemma nodes_ok_upd: "shape_kept f \<Longrightarrow> nodes_ok p \<Longrightarrow> nodes_ok (upd_kw f p)"
  by (cases p) (auto simp: node_ok_def shape_kept_def)

lemma upd_kw_simps [simp]:
  "j_kw (upd_kw f p) = f (j_kw p)" "j_Properties (upd_kw f p) = j_Properties p"
  "j_AdditionalProperties (upd_kw f p) = j_AdditionalProperties p" "j_Items (upd_kw f p) = j_Items p"
  by (cases p; simp)+

lemma nodes_ok_open [simp]: "nodes_ok openObject"
  by (simp add: openObject_def leaf_props_def node_ok_def zero_kw_def json_types_def)

text \<open>A structural node with a type: what every branch hands to the common keywords.\<close>

definition typed :: "props \<Rightarrow> bool" where
  "typed p \<longleftrightarrow> nodes_ok p \<and> j_Type (j_kw p) \<noteq> []"

lemma typed_upd: "shape_kept f \<Longrightarrow> typed p \<Longrightarrow> typed (upd_kw f p)"
  by (simp add: typed_def nodes_ok_upd) (simp add: shape_kept_def)

lemma typed_addRule [simp]: "typed p \<Longrightarrow> typed (addRule r m p)"
  unfolding addRule_def by (erule typed_upd [rotated]) (simp add: shape_kept_def)

lemma typed_preserve:
  "typed p \<Longrightarrow> j_Type (j_kw p) = ''object'' \<Longrightarrow> typed (upd_kw (\<lambda>j. j\<lparr>j_XPreserveUnknownFields := True\<rparr>) p)"
  by (cases p) (auto simp: node_ok_def typed_def)

lemma typed_widen [simp]: "typed p \<Longrightarrow> typed (widen p)"
  by (simp add: widen_def typed_preserve)

lemma typed_set_union:
  "typed p \<Longrightarrow> (\<And>x. x \<in> set v \<Longrightarrow> nodes_ok x) \<Longrightarrow> typed (set_union a v p)"
  by (cases p) (auto simp: node_ok_def typed_def)

lemma typed_copies:
  "typed (fst ow) \<Longrightarrow> typed (fst (copyEnum k path ow))"
  "typed (fst ow) \<Longrightarrow> typed (fst (copyDefault k path ow))"
  "typed (fst ow) \<Longrightarrow> typed (fst (copyConst k path ow))"
  "typed p \<Longrightarrow> typed (copyTitle k p)"
  "typed p \<Longrightarrow> typed (copyExample k p)"
  "typed p \<Longrightarrow> typed (passthroughExtensions k p)"
  unfolding copyEnum_def copyDefault_def copyConst_def copyTitle_def copyExample_def passthroughExtensions_def
  by (auto simp: Let_def shape_kept_def split: prod.splits option.splits any.splits intro!: typed_upd)

lemma typed_attach:
  assumes "typed (fst ow)" and "\<And>x. x \<in> set subs \<Longrightarrow> nodes_ok (fst x)"
  shows "typed (fst (snd (attachUnion n path subs ow)))"
proof -
  obtain out w where ow: "ow = (out, w)" by (cases ow)
  have out: "typed out" "j_Type (j_kw out) \<noteq> []" using assms(1) by (simp_all add: ow typed_def)
  have "typed (set_union (s_AnyOf n \<noteq> []) (map fst subs) out)"
    by (rule typed_set_union [OF out(1)]) (use assms(2) in auto)
  with out typed_preserve [OF out(1)] show ?thesis by (simp add: attachUnion_def ow Let_def)
qed

lemma typed_dependent:
  assumes "typed (fst ow)"
  shows "typed (fst (emitDependentRequired k path ow))"
proof -
  have step: "typed (fst (dependent_rule path ow g))" if "typed (fst ow)" for ow g
    using that by (auto simp: dependent_rule_def Let_def split: prod.splits option.splits)
  have "typed (fst ow) \<Longrightarrow> typed (fst (fold (\<lambda>g ow. dependent_rule path ow g) gs ow))" for gs ow
    by (induction gs arbitrary: ow) (simp_all add: step)
  with assms show ?thesis by (simp add: emitDependentRequired_def)
qed

lemma typed_not: "typed (fst ow) \<Longrightarrow> typed (fst (emitNot f n path ow))"
  by (auto simp: emitNot_def Let_def split: prod.splits option.splits)

lemma typed_branch: "typed (fst ow) \<Longrightarrow> typed (fst (emit_branch f b r m x path ow))"
  by (auto simp: emit_branch_def Let_def split: prod.splits option.splits)

lemma typed_conditional: "typed (fst ow) \<Longrightarrow> typed (fst (emitIfThenElse f n path ow))"
  by (auto simp: emitIfThenElse_def Let_def typed_branch split: prod.splits option.splits)

lemma typed_note_if: "typed (fst ow) \<Longrightarrow> (\<And>p. typed p \<Longrightarrow> typed (f p)) \<Longrightarrow> typed (fst (note_if b f m ow))"
  by (simp add: note_if_def)

lemma typed_tuple_items: "typed p \<Longrightarrow> typed (tuple_items p)"
  using nodes_ok_node [of p] by (auto simp: tuple_items_def typed_def node_ok_def)

lemma typed_unsupported: "typed (fst ow) \<Longrightarrow> typed (fst (handleUnsupported n path ow))"
  unfolding handleUnsupported_def by (intro typed_note_if typed_widen typed_tuple_items)

lemma typed_finish:
  assumes "typed (fst ow)" and "\<And>x. x \<in> set subs \<Longrightarrow> nodes_ok (fst x)"
  shows "typed (fst (finish f n path subs ow))"
proof -
  obtain o1 w1 where c: "copyConst (s_kw n) path (copyDefault (s_kw n) path (copyEnum (s_kw n) path ow)) = (o1, w1)"
    by (metis surj_pair)
  then have "typed o1" using typed_copies(1-3) assms(1) by (metis fst_conv)
  then have o2: "typed (passthroughExtensions (s_kw n) (copyExample (s_kw n) (copyTitle (s_kw n) o1)))"
    by (intro typed_copies)
  then have "typed (fst (if has_union n then snd (attachUnion n path subs
      (passthroughExtensions (s_kw n) (copyExample (s_kw n) (copyTitle (s_kw n) o1)), w1))
      else (passthroughExtensions (s_kw n) (copyExample (s_kw n) (copyTitle (s_kw n) o1)), w1)))"
    using typed_attach [of "(_, w1)" subs] assms(2) by simp
  then show ?thesis
    unfolding finish_def Let_def c prod.case
    by (intro typed_unsupported typed_conditional typed_not typed_dependent)
qed

lemma nodes_ok_finish:
  "typed (fst ow) \<Longrightarrow> (\<And>x. x \<in> set subs \<Longrightarrow> nodes_ok (fst x)) \<Longrightarrow> nodes_ok (fst (finish f n path subs ow))"
  using typed_finish typed_def by blast

lemma typed_leaf:
  "j_Type k \<in> json_types \<Longrightarrow> j_Type k \<noteq> ''array'' \<Longrightarrow> \<not> j_XIntOrString k \<Longrightarrow>
   (j_XPreserveUnknownFields k \<longrightarrow> j_Type k = ''object'') \<Longrightarrow> typed (leaf_props k)"
  by (auto simp: typed_def leaf_props_def node_ok_def json_types_def)

lemma typed_unique: "typed p \<Longrightarrow> typed (applyUniqueItems k p)"
  by (auto simp: applyUniqueItems_def shape_kept_def intro!: typed_upd)

lemma typed_bases:
  "typed (typed_object n)"
  "nodes_ok i \<Longrightarrow> typed (typed_array n i)"
  "is_scalar_type (node_type n) \<Longrightarrow> typed (typed_scalar n)"
proof -
  show "typed (typed_object n)"
    unfolding typed_object_def by (rule typed_leaf) (auto simp: base_kw_def zero_kw_def json_types_def)
  show "is_scalar_type (node_type n) \<Longrightarrow> typed (typed_scalar n)"
    unfolding typed_scalar_def
    by (rule typed_leaf) (auto simp: base_kw_def zero_kw_def json_types_def is_scalar_type_def copyScalarValidation_def)
  assume "nodes_ok i"
  then have "typed (JProps ((base_kw n)\<lparr>j_Type := ''array''\<rparr>) [] None (Some i) [] [])"
    by (simp add: typed_def node_ok_def base_kw_def zero_kw_def json_types_def)
  then have "typed (upd_kw f (JProps ((base_kw n)\<lparr>j_Type := ''array''\<rparr>) [] None (Some i) [] []))"
    if "shape_kept f" for f using that typed_upd by blast
  then show "typed (typed_array n i)"
    unfolding typed_array_def copyArrayValidation_def
    by (intro typed_unique) (simp add: shape_kept_def del: upd_kw.simps)
qed

lemma typed_fillObject:
  assumes "\<And>k p w. (k, p, w) \<in> set children \<Longrightarrow> nodes_ok p" and "\<And>p w. extra = Some (p, w) \<Longrightarrow> nodes_ok p"
  shows "typed (fst (fillObject n path ((base_kw n)\<lparr>j_Type := ''object''\<rparr>) children extra))"
  using assms
  by (fastforce simp: fillObject_def Let_def typed_def node_ok_def base_kw_def zero_kw_def json_types_def
      split: option.splits sum.splits)

lemma typed_untyped:
  assumes "\<And>x. x \<in> set subs \<Longrightarrow> nodes_ok (fst x)"
  shows "nodes_ok (fst (untyped f n path subs))"
proof -
  have *: "typed (upd_kw (\<lambda>j. j\<lparr>j_Type := ''object'', j_XPreserveUnknownFields := True\<rparr>) (leaf_props (base_kw n)))"
    by (simp add: leaf_props_def typed_def node_ok_def base_kw_def zero_kw_def json_types_def)
  show ?thesis
    unfolding untyped_def attachUnion_def Let_def
    by (auto simp: assms * split: prod.splits intro!: nodes_ok_finish)
      (auto simp: leaf_props_def base_kw_def zero_kw_def dest: assms)
qed

lemma nodes_ok_update:
  assumes "\<forall>kp\<in>set ps. nodes_ok (snd kp)" and "nodes_ok v"
  shows "\<forall>kp\<in>set (AList.update k v ps). nodes_ok (snd kp)"
  using assms by (induction ps) auto

lemma nodes_ok_update_all:
  "\<forall>kp\<in>set new. nodes_ok (snd kp) \<Longrightarrow> \<forall>kp\<in>set ps. nodes_ok (snd kp) \<Longrightarrow>
   \<forall>kp\<in>set (fold (\<lambda>(k, v) ps. AList.update k v ps) new ps). nodes_ok (snd kp)"
proof (induction new arbitrary: ps)
  case (Cons kv new)
  obtain k v where kv: "kv = (k, v)" by (cases kv)
  have "\<forall>kp\<in>set (AList.update k v ps). nodes_ok (snd kp)"
    using Cons.prems kv by (intro nodes_ok_update) auto
  with Cons kv show ?case by simp
qed simp

lemma nodes_ok_absorb:
  assumes "nodes_ok sub" and "\<forall>kp\<in>set (ao_Properties m). nodes_ok (snd kp)"
  shows "\<forall>kp\<in>set (ao_Properties (absorb sub m)). nodes_ok (snd kp)"
proof -
  have "\<forall>kp\<in>set (j_Properties sub). nodes_ok (snd kp)" using assms(1) by (cases sub) auto
  from nodes_ok_update_all [OF this assms(2)] assms(2) show ?thesis by (simp add: absorb_def)
qed

lemma nodes_ok_absorb_all:
  "\<forall>p\<in>set ps. nodes_ok p \<Longrightarrow> \<forall>kp\<in>set (ao_Properties m). nodes_ok (snd kp) \<Longrightarrow>
   \<forall>kp\<in>set (ao_Properties (fold absorb ps m)). nodes_ok (snd kp)"
proof (induction ps arbitrary: m)
  case (Cons p ps)
  then have "\<forall>kp\<in>set (ao_Properties (absorb p m)). nodes_ok (snd kp)" by (intro nodes_ok_absorb) auto
  with Cons show ?case by simp
qed simp

lemma nodes_ok_mergeAllOf:
  assumes "\<And>x. x \<in> set subs \<Longrightarrow> nodes_ok (fst x)"
  shows "nodes_ok (fst (mergeAllOf n subs))"
proof -
  let ?m = "\<lparr>ao_Properties = [], ao_Required = [], ao_Preserve = False, ao_Description = []\<rparr>"
  have "\<forall>kp\<in>set (ao_Properties (fold absorb (map fst subs) ?m)). nodes_ok (snd kp)"
    by (rule nodes_ok_absorb_all) (use assms in force)+
  then show ?thesis by (simp add: mergeAllOf_def Let_def node_ok_def zero_kw_def json_types_def)
qed

lemma nodes_ok_describe: "nodes_ok p \<Longrightarrow> nodes_ok (describe n p)"
  by (auto simp: describe_def shape_kept_def intro!: nodes_ok_upd)

lemma nodes_ok_int_or_string: "nodes_ok (int_or_string n)"
  by (simp add: int_or_string_def leaf_props_def node_ok_def zero_kw_def)

text \<open>The members of a union, transpiled, and the properties, as \<open>transpile\<close> computes them.\<close>

definition union_subs where
  "union_subs f refs stack n path =
     (if has_union n \<and> list_all constraint_only (union_members n)
      then map (\<lambda>m. transpile f refs stack m (path @ ''/'' @ union_kind n)) (union_members n) else [])"

definition object_children where
  "object_children f refs stack n path =
     map (\<lambda>(k, p). (k, transpile f refs stack p (path @ ''.'' @ k))) (sort_key fst (s_Properties n))"

definition object_extra where
  "object_extra f refs stack n path =
     (case s_AdditionalProperties n of
        Some (Inr t) \<Rightarrow> if s_Properties n = [] then Some (transpile f refs stack t (path @ ''{}'')) else None
      | _ \<Rightarrow> None)"

definition array_base where
  "array_base f refs stack n path =
     (case s_Items n of
        Some i \<Rightarrow> apfst (typed_array n) (transpile f refs stack i (path @ ''[]''))
      | None \<Rightarrow> (typed_array n openObject, []))"

lemma transpile_eqs:
  "ref_of n \<noteq> [] \<Longrightarrow> map_of refs (normalizeRefPointer (ref_of n)) = Some t \<Longrightarrow>
   normalizeRefPointer (ref_of n) \<notin> set stack \<Longrightarrow>
   transpile f refs stack n path =
     apfst (describe n) (transpile f refs (normalizeRefPointer (ref_of n) # stack) t path)"
  "ref_of n = [] \<Longrightarrow> s_AllOf n \<noteq> [] \<Longrightarrow>
   transpile f refs stack n path =
     mergeAllOf n (map (\<lambda>m. transpile f refs stack m path) (without_allOf n # s_AllOf n))"
  "ref_of n = [] \<Longrightarrow> s_AllOf n = [] \<Longrightarrow> k_XIntOrString (s_kw n) \<Longrightarrow>
   transpile f refs stack n path = (int_or_string n, [])"
  "ref_of n = [] \<Longrightarrow> s_AllOf n = [] \<Longrightarrow> \<not> k_XIntOrString (s_kw n) \<Longrightarrow>
   transpile f refs stack n path =
     (let subs = union_subs f refs stack n path in
      if object_like n
      then finish f n path subs (fillObject n path ((base_kw n)\<lparr>j_Type := ''object''\<rparr>)
             (object_children f refs stack n path) (object_extra f refs stack n path))
      else if node_type n = ''object'' then finish f n path subs (typed_object n, [])
      else if node_type n = ''array'' then finish f n path subs (array_base f refs stack n path)
      else if is_scalar_type (node_type n) then finish f n path subs (typed_scalar n, [])
      else untyped f n path subs)"
  unfolding transpile.simps [of f refs stack n] Let_def union_subs_def object_children_def object_extra_def
    array_base_def
  by simp_all

lemma transpile_stuck:
  "ref_of n \<noteq> [] \<Longrightarrow> map_of refs (normalizeRefPointer (ref_of n)) = None \<or> normalizeRefPointer (ref_of n) \<in> set stack \<Longrightarrow>
   fst (transpile f refs stack n path) = openObject"
  unfolding transpile.simps [of f refs stack n] by (auto split: option.splits)

text \<open>The members named above come from the recursive calls.\<close>

lemma subs_cases:
  "x \<in> set (union_subs f refs stack n path) \<Longrightarrow>
   has_union n \<and> list_all constraint_only (union_members n) \<and>
   (\<exists>m\<in>set (union_members n). x = transpile f refs stack m (path @ ''/'' @ union_kind n))"
  by (auto simp: union_subs_def split: if_splits)

lemma children_cases:
  "(k, x) \<in> set (object_children f refs stack n path) \<Longrightarrow>
   \<exists>p. (k, p) \<in> set (s_Properties n) \<and> x = transpile f refs stack p (path @ ''.'' @ k)"
  by (auto simp: object_children_def)

lemma extra_cases:
  "object_extra f refs stack n path = Some x \<Longrightarrow>
   \<exists>t. s_AdditionalProperties n = Some (Inr t) \<and> s_Properties n = [] \<and> x = transpile f refs stack t (path @ ''{}'')"
  by (auto simp: object_extra_def split: option.splits sum.splits if_splits)

text \<open>
  Induction over \<open>transpile\<close> for a property of its result: one case for each way a result is built
  from the results of the recursive calls.
\<close>

lemma transpile_property:
  fixes P :: "ref_table \<Rightarrow> string list \<Rightarrow> stype \<Rightarrow> props \<Rightarrow> bool"
  assumes stuck: "\<And>refs stack n. P refs stack n openObject"
    and ref: "\<And>refs stack n t p. ref_of n \<noteq> [] \<Longrightarrow> map_of refs (normalizeRefPointer (ref_of n)) = Some t \<Longrightarrow>
      normalizeRefPointer (ref_of n) \<notin> set stack \<Longrightarrow> P refs (normalizeRefPointer (ref_of n) # stack) t p \<Longrightarrow>
      P refs stack n (describe n p)"
    and allOf: "\<And>refs stack n xs. s_AllOf n \<noteq> [] \<Longrightarrow>
      list_all2 (\<lambda>m x. P refs stack m (fst x)) (without_allOf n # s_AllOf n) xs \<Longrightarrow>
      P refs stack n (fst (mergeAllOf n xs))"
    and ios: "\<And>refs stack n. P refs stack n (int_or_string n)"
    and object: "\<And>f refs stack n path subs cs ex.
      (\<And>x. x \<in> set subs \<Longrightarrow> \<exists>m\<in>set (union_members n). P refs stack m (fst x)) \<Longrightarrow>
      (\<And>k x. (k, x) \<in> set cs \<Longrightarrow> \<exists>p. (k, p) \<in> set (s_Properties n) \<and> P refs stack p (fst x)) \<Longrightarrow>
      (\<And>x. ex = Some x \<Longrightarrow> \<exists>t. s_AdditionalProperties n = Some (Inr t) \<and> P refs stack t (fst x)) \<Longrightarrow>
      P refs stack n (fst (finish f n path subs (fillObject n path ((base_kw n)\<lparr>j_Type := ''object''\<rparr>) cs ex)))"
    and array: "\<And>f refs stack n path subs i w.
      (\<And>x. x \<in> set subs \<Longrightarrow> \<exists>m\<in>set (union_members n). P refs stack m (fst x)) \<Longrightarrow>
      i = openObject \<or> (\<exists>t. s_Items n = Some t \<and> P refs stack t i) \<Longrightarrow>
      P refs stack n (fst (finish f n path subs (typed_array n i, w)))"
    and simple: "\<And>f refs stack n path subs b.
      (\<And>x. x \<in> set subs \<Longrightarrow> \<exists>m\<in>set (union_members n). P refs stack m (fst x)) \<Longrightarrow>
      b = typed_object n \<or> b = typed_scalar n \<and> is_scalar_type (node_type n) \<Longrightarrow>
      P refs stack n (fst (finish f n path subs (b, [])))"
    and untyped: "\<And>f refs stack n path subs.
      (\<And>x. x \<in> set subs \<Longrightarrow> \<exists>m\<in>set (union_members n). P refs stack m (fst x)) \<Longrightarrow>
      P refs stack n (fst (untyped f n path subs))"
  shows "P refs stack n (fst (transpile f refs stack n path))"
proof (induction f refs stack n path rule: transpile.induct)
  case (1 f refs stack n path)
  let ?key = "normalizeRefPointer (ref_of n)"
  show ?case
  proof (cases "ref_of n = []")
    case False
    show ?thesis
    proof (cases "map_of refs ?key = None \<or> ?key \<in> set stack")
      case True
      then show ?thesis using transpile_stuck [OF False True] stuck by simp
    next
      case stk: False
      then obtain t where t: "map_of refs ?key = Some t" and ns: "?key \<notin> set stack" by auto
      show ?thesis
        using ref [OF False t ns 1(1) [OF False t ns]] by (simp add: transpile_eqs(1) [OF False t ns])
    qed
  next
    case noref: True
    show ?thesis
    proof (cases "s_AllOf n = []")
      case False
      have "list_all2 (\<lambda>m x. P refs stack m (fst x)) (without_allOf n # s_AllOf n)
          (map (\<lambda>m. transpile f refs stack m path) (without_allOf n # s_AllOf n))"
        using 1(2) noref False by (auto simp: list_all2_map2 list.rel_map intro!: list.rel_refl_strong)
      from allOf [OF False this] show ?thesis by (simp add: transpile_eqs(2) [OF noref False])
    next
      case noall: True
      show ?thesis
      proof (cases "k_XIntOrString (s_kw n)")
        case True
        then show ?thesis using ios by (simp add: transpile_eqs(3) [OF noref noall])
      next
        case noios: False
        have pre: "\<not> ref_of n \<noteq> []" "\<not> s_AllOf n \<noteq> []" using noref noall by auto
        let ?subs = "union_subs f refs stack n path"
        have subs: "\<exists>m\<in>set (union_members n). P refs stack m (fst x)" if "x \<in> set ?subs" for x
          using subs_cases [OF that] 1(3) [OF pre noios] by blast
        have kids: "\<exists>p. (k, p) \<in> set (s_Properties n) \<and> P refs stack p (fst x)"
          if "object_like n" "(k, x) \<in> set (object_children f refs stack n path)" for k x
          using children_cases [OF that(2)] 1(4) [OF pre noios refl that(1)] by (metis set_sort)
        have extra: "\<exists>t. s_AdditionalProperties n = Some (Inr t) \<and> P refs stack t (fst x)"
          if "object_like n" "object_extra f refs stack n path = Some x" for x
          using extra_cases [OF that(2)] 1(5) [OF pre noios refl that(1)] by blast
        have base: "\<exists>i w. array_base f refs stack n path = (typed_array n i, w) \<and>
            (i = openObject \<or> (\<exists>t. s_Items n = Some t \<and> P refs stack t i))"
          if "\<not> object_like n" "node_type n \<noteq> ''object''" "node_type n = ''array''"
          using 1(6) [OF pre noios refl that]
          by (cases "s_Items n") (auto simp: array_base_def apfst_def map_prod_def split: prod.splits)
        show ?thesis
          unfolding transpile_eqs(4) [OF noref noall noios] Let_def
          using object [OF subs kids extra] simple [OF subs] untyped [OF subs] array [OF subs] base
          by (cases "object_like n"; cases "node_type n = ''object''"; cases "node_type n = ''array''";
              cases "is_scalar_type (node_type n)") auto
      qed
    qed
  qed
qed

lemma transpile_nodes_ok_all: "nodes_ok (fst (transpile f refs stack n path))"
proof (rule transpile_property [where P = "\<lambda>refs stack n. nodes_ok"])
  show "nodes_ok (fst (mergeAllOf n xs))"
    if "list_all2 (\<lambda>m x. nodes_ok (fst x)) (without_allOf n # s_AllOf n) xs" for n xs
    using that by (intro nodes_ok_mergeAllOf) (auto simp: list_all2_conv_all_nth in_set_conv_nth)
qed (auto simp: nodes_ok_describe nodes_ok_int_or_string typed_bases intro!: nodes_ok_finish typed_fillObject
    typed_untyped)

section \<open>Bounded inlining\<close>

definition kids :: "props \<Rightarrow> props list" where
  "kids p = map snd (j_Properties p) @ (case j_AdditionalProperties p of None \<Rightarrow> [] | Some x \<Rightarrow> [x]) @
     (case j_Items p of None \<Rightarrow> [] | Some x \<Rightarrow> [x]) @ j_OneOf p @ j_AnyOf p"

lemma kids_smaller: "c \<in> set (kids p) \<Longrightarrow> size c < size p"
proof -
  have props: "(k, q) \<in> set ps \<Longrightarrow> size q \<le> size_list (size_prod (\<lambda>x. 0) size) ps" for k and q :: props and ps
    by (induction ps) auto
  have list: "q \<in> set ps \<Longrightarrow> size q \<le> size_list size ps" for q :: props and ps
    by (induction ps) auto
  show "c \<in> set (kids p) \<Longrightarrow> size c < size p"
    by (cases p) (auto simp: kids_def split: option.splits dest: props list)
qed

function depth :: "props \<Rightarrow> nat" where
  "depth p = Suc (foldr max (map depth (kids p)) 0)"
  by pat_completeness auto

termination
  by (relation "measure size") (auto intro: kids_smaller)

declare depth.simps [simp del]

lemma depth_le_iff: "depth p \<le> Suc d \<longleftrightarrow> (\<forall>c\<in>set (kids p). depth c \<le> d)"
proof -
  have "foldr max (map depth cs) 0 \<le> d \<longleftrightarrow> (\<forall>c\<in>set cs. depth c \<le> d)" for cs
    by (induction cs) auto
  then show ?thesis by (simp add: depth.simps [of p])
qed

lemma kids_upd [simp]: "kids (upd_kw f p) = kids p"
  by (cases p) (simp add: kids_def)

lemma kids_leaf [simp]: "kids (leaf_props k) = []" "kids openObject = []"
  by (simp_all add: kids_def leaf_props_def openObject_def)

lemma kids_copies [simp]:
  "kids (addRule r m p) = kids p" "kids (copyTitle k p) = kids p" "kids (copyExample k p) = kids p"
  "kids (passthroughExtensions k p) = kids p" "kids (widen p) = kids p" "kids (describe n p) = kids p"
  "kids (fst (copyEnum k path ow)) = kids (fst ow)" "kids (fst (copyDefault k path ow)) = kids (fst ow)"
  "kids (fst (copyConst k path ow)) = kids (fst ow)" "kids (applyUniqueItems k p) = kids p"
  by (auto simp: addRule_def copyTitle_def copyExample_def passthroughExtensions_def widen_def describe_def
      copyEnum_def copyDefault_def copyConst_def applyUniqueItems_def Let_def
      split: prod.splits option.splits any.splits)

lemma kids_conditions [simp]:
  "kids (fst (emitNot f n path ow)) = kids (fst ow)"
  "kids (fst (emit_branch f b r m x path ow)) = kids (fst ow)"
  "kids (fst (emitIfThenElse f n path ow)) = kids (fst ow)"
  "kids (fst (dependent_rule path ow g)) = kids (fst ow)"
proof -
  show branch: "kids (fst (emit_branch f b r m x path ow)) = kids (fst ow)" for b r m x ow
    by (auto simp: emit_branch_def Let_def split: prod.splits option.splits)
  show "kids (fst (emitNot f n path ow)) = kids (fst ow)"
    by (auto simp: emitNot_def Let_def split: prod.splits option.splits)
  show "kids (fst (emitIfThenElse f n path ow)) = kids (fst ow)"
    by (auto simp: emitIfThenElse_def Let_def branch split: prod.splits option.splits)
  show "kids (fst (dependent_rule path ow g)) = kids (fst ow)"
    by (auto simp: dependent_rule_def Let_def split: prod.splits option.splits)
qed

lemma kids_dependent [simp]: "kids (fst (emitDependentRequired k path ow)) = kids (fst ow)"
proof -
  have "kids (fst (fold (\<lambda>g ow. dependent_rule path ow g) gs ow)) = kids (fst ow)" for gs ow
    by (induction gs arbitrary: ow) simp_all
  then show ?thesis by (simp add: emitDependentRequired_def)
qed

lemma kids_tuple_items: "x \<in> set (kids (tuple_items p)) \<Longrightarrow> x = openObject \<or> x \<in> set (kids p)"
  by (cases p) (auto simp: tuple_items_def kids_def split: if_splits)

lemma kids_unsupported: "x \<in> set (kids (fst (handleUnsupported n path ow))) \<Longrightarrow> x = openObject \<or> x \<in> set (kids (fst ow))"
  by (auto simp: handleUnsupported_def note_if_def split: if_splits dest!: kids_tuple_items)

lemma kids_set_union: "x \<in> set (kids (set_union a v p)) \<Longrightarrow> x \<in> set (kids p) \<or> x \<in> set v"
  by (cases p) (auto simp: kids_def split: if_splits)

lemma kids_attach:
  "x \<in> set (kids (fst (snd (attachUnion n path subs ow)))) \<Longrightarrow> x \<in> set (kids (fst ow)) \<or> x \<in> fst ` set subs"
  by (auto simp: attachUnion_def Let_def split: prod.splits if_splits dest!: kids_set_union)

lemma kids_finish:
  assumes "x \<in> set (kids (fst (finish f n path subs ow)))"
  shows "x = openObject \<or> x \<in> set (kids (fst ow)) \<or> x \<in> fst ` set subs"
proof -
  obtain o1 w1 where c: "copyConst (s_kw n) path (copyDefault (s_kw n) path (copyEnum (s_kw n) path ow)) = (o1, w1)"
    by (metis surj_pair)
  then have o1: "kids o1 = kids (fst ow)" by (metis fst_conv kids_copies(7-9))
  let ?o2 = "passthroughExtensions (s_kw n) (copyExample (s_kw n) (copyTitle (s_kw n) o1))"
  from assms have "x = openObject \<or>
      x \<in> set (kids (fst (if has_union n then snd (attachUnion n path subs (?o2, w1)) else (?o2, w1))))"
    unfolding finish_def Let_def c prod.case by (auto dest!: kids_unsupported)
  then show ?thesis using kids_attach [of x n path subs "(?o2, w1)"] o1 by (auto split: if_splits)
qed

lemma kids_fillObject:
  "x \<in> set (kids (fst (fillObject n path k children extra))) \<Longrightarrow>
   (\<exists>key w. (key, x, w) \<in> set children) \<or> (\<exists>w. extra = Some (x, w))"
  by (fastforce simp: fillObject_def Let_def kids_def split: option.splits sum.splits if_splits)

lemma kids_typed_array: "kids (typed_array n i) = [i]"
  by (simp add: typed_array_def copyArrayValidation_def) (simp add: kids_def)

lemma kids_simple: "kids (typed_object n) = []" "kids (typed_scalar n) = []" "kids (int_or_string n) = []"
  by (simp_all add: typed_object_def typed_scalar_def int_or_string_def)

lemma kids_untyped:
  assumes "x \<in> set (kids (fst (untyped f n path subs)))"
  shows "x = openObject \<or> x \<in> fst ` set subs"
proof -
  have "fst (untyped f n path subs) = openObject \<or> (\<exists>w. fst (untyped f n path subs) = fst (finish f n path subs
      (upd_kw (\<lambda>j. j\<lparr>j_Type := ''object'', j_XPreserveUnknownFields := True\<rparr>) (leaf_props (base_kw n)), w)))"
    by (auto simp: untyped_def attachUnion_def Let_def simp del: upd_kw.simps)
  with assms show ?thesis by (auto dest!: kids_finish)
qed

lemma snd_update: "x \<in> snd ` set (AList.update k v ps) \<Longrightarrow> x = v \<or> x \<in> snd ` set ps"
  by (induction ps) (auto split: if_splits)

lemma snd_update_all:
  "x \<in> snd ` set (fold (\<lambda>(k, v) ps. AList.update k v ps) new ps) \<Longrightarrow> x \<in> snd ` set new \<or> x \<in> snd ` set ps"
proof (induction new arbitrary: ps)
  case (Cons kv new)
  obtain k v where kv: "kv = (k, v)" by (cases kv)
  from Cons.IH [of "AList.update k v ps"] Cons.prems snd_update [of x k v ps] show ?case by (auto simp: kv)
qed simp

lemma kids_mergeAllOf:
  assumes "x \<in> set (kids (fst (mergeAllOf n subs)))"
  shows "\<exists>s\<in>set subs. x \<in> set (kids (fst s))"
proof -
  have absorb: "x \<in> snd ` set (ao_Properties (fold absorb ps m)) \<Longrightarrow>
      (\<exists>p\<in>set ps. x \<in> set (kids p)) \<or> x \<in> snd ` set (ao_Properties m)" for ps m
  proof (induction ps arbitrary: m)
    case (Cons p ps)
    have "x \<in> snd ` set (ao_Properties (absorb p m)) \<Longrightarrow> x \<in> set (kids p) \<or> x \<in> snd ` set (ao_Properties m)"
      using snd_update_all [of x "j_Properties p" "ao_Properties m"]
      by (auto simp: absorb_def kids_def split: if_splits)
    with Cons.IH [of "absorb p m"] Cons.prems show ?case by auto
  qed simp
  let ?m = "\<lparr>ao_Properties = [], ao_Required = [], ao_Preserve = False, ao_Description = []\<rparr>"
  have "x \<in> snd ` set (ao_Properties (fold absorb (map fst subs) ?m))"
    using assms by (simp add: mergeAllOf_def Let_def kids_def)
  from absorb [OF this] show ?thesis by simp
qed

text \<open>The schema plus everything that can still be inlined into it.\<close>

definition inline_bound :: "ref_table \<Rightarrow> string list \<Rightarrow> stype \<Rightarrow> nat" where
  "inline_bound refs stack n = size n + (\<Sum>k\<in>fst ` set refs - set stack. size (the (map_of refs k)))"

lemma inline_bound_push:
  assumes "map_of refs key = Some t" and "key \<notin> set stack"
  shows "inline_bound refs (key # stack) t \<le> inline_bound refs stack n"
proof -
  let ?S = "fst ` set refs - set stack"
  have "key \<in> ?S" using assms by (force dest: map_of_SomeD)
  then have "(\<Sum>k\<in>?S. size (the (map_of refs k))) = size t + (\<Sum>k\<in>?S - {key}. size (the (map_of refs k)))"
    using assms(1) by (subst sum.remove [of _ key]) auto
  moreover have "?S - {key} = fst ` set refs - set (key # stack)" by auto
  ultimately show ?thesis by (simp add: inline_bound_def)
qed

lemma inline_bound_sub: "size m < size n \<Longrightarrow> inline_bound refs stack m < inline_bound refs stack n"
  by (simp add: inline_bound_def)

lemma inline_bound_pos: "0 < inline_bound refs stack n"
  by (cases n) (simp add: inline_bound_def)

lemma depth_open: "depth openObject = 1"
  by (simp add: depth.simps)

lemma transpile_depth_all:
  "depth (fst (transpile f refs stack n path)) \<le> Suc (inline_bound refs stack n)"
proof (rule transpile_property [where P = "\<lambda>refs stack n p. depth p \<le> Suc (inline_bound refs stack n)"])
  fix refs stack n
  show "depth openObject \<le> Suc (inline_bound refs stack n)" by (simp add: depth_open)
  show "depth (int_or_string n) \<le> Suc (inline_bound refs stack n)" by (simp add: depth_le_iff kids_simple)
next
  fix refs stack n t p
  assume "map_of refs (normalizeRefPointer (ref_of n)) = Some t" "normalizeRefPointer (ref_of n) \<notin> set stack"
    and "depth p \<le> Suc (inline_bound refs (normalizeRefPointer (ref_of n) # stack) t)"
  with inline_bound_push [of refs _ t stack n] have "depth p \<le> Suc (inline_bound refs stack n)" by fastforce
  then show "depth (describe n p) \<le> Suc (inline_bound refs stack n)" by (simp add: depth_le_iff)
next
  fix refs stack n and xs :: "(props \<times> warnings) list"
  assume all: "s_AllOf n \<noteq> []"
    and subs: "list_all2 (\<lambda>m x. depth (fst x) \<le> Suc (inline_bound refs stack m)) (without_allOf n # s_AllOf n) xs"
  have "depth (fst s) \<le> Suc (inline_bound refs stack n)" if s: "s \<in> set xs" for s
  proof -
    obtain m where "m \<in> set (without_allOf n # s_AllOf n)" "depth (fst s) \<le> Suc (inline_bound refs stack m)"
      using subs s by (metis list_all2_conv_all_nth in_set_conv_nth)
    moreover from this(1) have "size m < size n" using all by (auto simp: size_subschema size_without_allOf)
    ultimately show ?thesis using inline_bound_sub [of m n refs stack] by simp
  qed
  then show "depth (fst (mergeAllOf n xs)) \<le> Suc (inline_bound refs stack n)"
    by (auto simp: depth_le_iff dest!: kids_mergeAllOf)
next
  fix f refs stack n path and cs :: "(string \<times> props \<times> warnings) list" and subs :: "(props \<times> warnings) list"
    and ex :: "(props \<times> warnings) option"
  assume subs: "\<And>x. x \<in> set subs \<Longrightarrow> \<exists>m\<in>set (union_members n). depth (fst x) \<le> Suc (inline_bound refs stack m)"
  have sub: "depth x \<le> inline_bound refs stack n" if "x \<in> fst ` set subs" for x
    using that subs union_members_smaller inline_bound_sub [of _ n refs stack] by fastforce
  have opn: "depth openObject \<le> inline_bound refs stack n"
    using inline_bound_pos [of refs stack n] by (simp add: depth_open)
  have fin: "depth (fst (finish f n path subs ow)) \<le> Suc (inline_bound refs stack n)"
    if "\<And>c. c \<in> set (kids (fst ow)) \<Longrightarrow> depth c \<le> inline_bound refs stack n" for ow
    using that sub opn by (auto simp: depth_le_iff dest!: kids_finish)
  show "depth (fst (untyped f n path subs)) \<le> Suc (inline_bound refs stack n)"
    using sub opn by (auto simp: depth_le_iff dest!: kids_untyped)
  show "depth (fst (finish f n path subs (b, []))) \<le> Suc (inline_bound refs stack n)"
    if "b = typed_object n \<or> b = typed_scalar n \<and> is_scalar_type (node_type n)" for b
    using that by (intro fin) (auto simp: kids_simple)
  show "depth (fst (finish f n path subs (typed_array n i, w))) \<le> Suc (inline_bound refs stack n)"
    if "i = openObject \<or> (\<exists>t. s_Items n = Some t \<and> depth i \<le> Suc (inline_bound refs stack t))" for i w
    using that opn inline_bound_sub [of _ n refs stack] size_subschema(5)
    by (intro fin) (fastforce simp: kids_typed_array)
  assume cs: "\<And>k x. (k, x) \<in> set cs \<Longrightarrow>
      \<exists>p. (k, p) \<in> set (s_Properties n) \<and> depth (fst x) \<le> Suc (inline_bound refs stack p)"
    and ex: "\<And>x. ex = Some x \<Longrightarrow>
      \<exists>t. s_AdditionalProperties n = Some (Inr t) \<and> depth (fst x) \<le> Suc (inline_bound refs stack t)"
  show "depth (fst (finish f n path subs (fillObject n path ((base_kw n)\<lparr>j_Type := ''object''\<rparr>) cs ex)))
      \<le> Suc (inline_bound refs stack n)"
  proof (rule fin)
    fix c assume "c \<in> set (kids (fst (fillObject n path ((base_kw n)\<lparr>j_Type := ''object''\<rparr>) cs ex)))"
    then consider k w where "(k, c, w) \<in> set cs" | w where "ex = Some (c, w)" using kids_fillObject by blast
    then show "depth c \<le> inline_bound refs stack n"
    proof cases
      case 1
      with cs [OF 1] inline_bound_sub [of _ n refs stack] size_subschema(1) show ?thesis by fastforce
    next
      case 2
      with ex [OF 2] inline_bound_sub [of _ n refs stack] size_subschema(4) show ?thesis by fastforce
    qed
  qed
qed

end
