(* ===== verification/Crd_Generate.thy ===== *)
theory Crd_Generate
  imports Crd_Transpile
begin

text \<open>
  The generator around the transpiler: \<open>generateDirect\<close>, \<open>mergeConditionedStatus\<close>, \<open>assembleCRD\<close> and
  \<open>validateCRD\<close> of \<open>crdgen/transpile.go\<close>, \<open>Options\<close> and \<open>Generate\<close> of \<open>crdgen/crdgen.go\<close>.

  The JSON decoder of schema documents, the pluralizer of the library \<open>flect\<close>, the API server's
  validation and the YAML printer are arguments.  An error is its message.
\<close>

section \<open>Model\<close>

record crd_options =
  opt_Group :: string
  opt_Version :: string
  opt_Kind :: string
  opt_Categories :: "string list"
  opt_SpecSchema :: string
  opt_StatusSchema :: string
  opt_Managed :: bool

record crd =
  crd_Name :: string
  crd_Group :: string
  crd_Plural :: string
  crd_Singular :: string
  crd_Kind :: string
  crd_ListKind :: string
  crd_Categories :: "string list"
  crd_Scope :: string
  crd_Version :: string
  crd_Served :: bool
  crd_Storage :: bool
  crd_Schema :: props

definition string_prop :: "string \<Rightarrow> string \<Rightarrow> props" where
  "string_prop fmt desc = leaf_props (zero_kw\<lparr>j_Type := ''string'', j_Format := fmt, j_Description := desc\<rparr>)"

definition condition_item :: props where
  "condition_item =
     JProps (zero_kw\<lparr>j_Type := ''object'', j_Required := [''lastTransitionTime'', ''reason'', ''status'', ''type'']\<rparr>)
       [(''lastTransitionTime'', string_prop ''date-time''
           ''LastTransitionTime is the last time this condition transitioned from one status to another.''),
        (''message'', string_prop []
           ''A Message containing details about this condition's last transition from one status to another, if any.''),
        (''reason'', string_prop [] ''A Reason for this condition's last transition from one status to another.''),
        (''status'', string_prop [] ''Status of this condition; is it currently True, False, or Unknown?''),
        (''type'', string_prop []
           ''Type of this condition. At most one of each condition type may apply to a resource at any point in time.'')]
       None None [] []"

definition conditions_prop :: props where
  "conditions_prop = JProps (zero_kw\<lparr>j_Type := ''array'', j_Description := ''Conditions of the resource.''\<rparr>)
     [] None (Some condition_item) [] []"

fun set_property :: "string \<Rightarrow> props \<Rightarrow> props \<Rightarrow> props" where
  "set_property key v (JProps k ps ap it oo ao) = JProps k (AList.update key v ps) ap it oo ao"

definition mergeConditionedStatus :: "props \<Rightarrow> props" where
  "mergeConditionedStatus status =
     (if j_Type (j_kw status) \<noteq> ''object'' then status else set_property ''conditions'' conditions_prop status)"

definition apiVersionDesc :: string where
  "apiVersionDesc = ''APIVersion defines the versioned schema of this representation of an object. '' @
     ''Servers should convert recognized schemas to the latest internal value, and may reject '' @
     ''unrecognized values. More info: '' @
     ''https://git.k8s.io/community/contributors/devel/sig-architecture/api-conventions.md#resources''"

definition kindDesc :: string where
  "kindDesc = ''Kind is a string value representing the REST resource this object represents. '' @
     ''Servers may infer this from the endpoint the client submits requests to. Cannot be updated. '' @
     ''In CamelCase. More info: '' @
     ''https://git.k8s.io/community/contributors/devel/sig-architecture/api-conventions.md#types-kinds''"

definition assembleCRD :: "(string \<Rightarrow> string) \<Rightarrow> crd_options \<Rightarrow> props \<Rightarrow> props \<Rightarrow> crd" where
  "assembleCRD pluralize opts specProps statusProps =
     (let plural = ToLower (pluralize (opt_Kind opts));
          root = JProps (zero_kw\<lparr>j_Type := ''object''\<rparr>)
            [(''apiVersion'', string_prop [] apiVersionDesc), (''kind'', string_prop [] kindDesc),
             (''metadata'', leaf_props (zero_kw\<lparr>j_Type := ''object''\<rparr>)),
             (''spec'', specProps), (''status'', statusProps)] None None [] []
      in \<lparr>crd_Name = plural @ ''.'' @ opt_Group opts, crd_Group = opt_Group opts, crd_Plural = plural,
          crd_Singular = ToLower (opt_Kind opts), crd_Kind = opt_Kind opts, crd_ListKind = opt_Kind opts @ ''List'',
          crd_Categories = opt_Categories opts, crd_Scope = ''Namespaced'',
          crd_Version = NormalizeVersionName (opt_Version opts), crd_Served = True, crd_Storage = True,
          crd_Schema = root\<rparr>)"

text \<open>The validation sees the definition together with its stored versions.\<close>

definition validateCRD :: "(crd \<Rightarrow> string list \<Rightarrow> string list) \<Rightarrow> crd \<Rightarrow> string option" where
  "validateCRD validate c =
     (let errs = validate c (if crd_Storage c then [crd_Version c] else [])
      in if errs = [] then None
         else Some (show_nat (length errs) @ '' structural error(s): '' @ Join errs ''; ''))"

definition transpile_doc :: "(rat \<Rightarrow> string) \<Rightarrow> schema_doc \<Rightarrow> string \<Rightarrow> props" where
  "transpile_doc fmtFloat d path =
     (case doc_Root d of
        None \<Rightarrow> openObject
      | Some n \<Rightarrow> fst (transpile fmtFloat (collectRefs d) [] n path))"

definition generateDirect ::
  "(rat \<Rightarrow> string) \<Rightarrow> (string \<Rightarrow> string + schema_doc) \<Rightarrow> (string \<Rightarrow> string) \<Rightarrow>
   (crd \<Rightarrow> string list \<Rightarrow> string list) \<Rightarrow> (crd \<Rightarrow> string + string) \<Rightarrow> crd_options \<Rightarrow> string + string" where
  "generateDirect fmtFloat parse pluralize validate marshal opts =
     (case parse (opt_SpecSchema opts) of
        Inl e \<Rightarrow> Inl (''parsing spec schema: '' @ e)
      | Inr spec \<Rightarrow>
          (case (if opt_StatusSchema opts \<noteq> [] then map_sum (\<lambda>e. e) (\<lambda>st. transpile_doc fmtFloat st ''status'')
                    (parse (opt_StatusSchema opts))
                 else Inr openObject) of
             Inl e \<Rightarrow> Inl (''parsing status schema: '' @ e)
           | Inr status \<Rightarrow>
               (let status' = (if opt_Managed opts then mergeConditionedStatus status else status);
                    c = assembleCRD pluralize opts (transpile_doc fmtFloat spec ''spec'') status'
                in case validateCRD validate c of
                     Some e \<Rightarrow>
                       Inl (''generated CRD failed the apiserver's own validation (this is a crdgen bug, not a config error): '' @ e)
                   | None \<Rightarrow>
                       (case marshal c of
                          Inl e \<Rightarrow> Inl (''marshalling CRD: '' @ e)
                        | Inr out \<Rightarrow> Inr (''---'' @ [CHR 0x0A] @ out)))))"

section \<open>Version names\<close>

lemma replace_runs_chars: "x \<in> set (replace_runs sep b s) \<Longrightarrow> x = sep \<or> is_version_char x"
  by (induction sep b s rule: replace_runs.induct) (auto split: if_splits)

lemma dropWhile_hd: "dropWhile P s = c # cs \<Longrightarrow> \<not> P c"
  by (induction s) (auto split: if_splits)

lemma trim_char_ends:
  assumes "trim_char sep s \<noteq> []"
  shows "hd (trim_char sep s) \<noteq> sep" and "last (trim_char sep s) \<noteq> sep" and "set (trim_char sep s) \<subseteq> set s"
proof -
  let ?m = "dropWhile (\<lambda>c. c = sep) s" and ?r = "dropWhile (\<lambda>c. c = sep) (rev (dropWhile (\<lambda>c. c = sep) s))"
  have r: "?r \<noteq> []" and t: "trim_char sep s = rev ?r" using assms by (simp_all add: trim_char_def)
  obtain c cs where rc: "?r = c # cs" using r by (cases ?r) auto
  show "last (trim_char sep s) \<noteq> sep" using dropWhile_hd [OF rc] by (simp add: t rc)
  obtain xs where xs: "rev ?m = xs @ ?r" by (metis takeWhile_dropWhile_id)
  then have m: "?m = rev ?r @ rev xs" by (metis rev_append rev_rev_ident)
  then have "hd ?m = hd (rev ?r)" using r by (metis hd_append2 rev_is_Nil_conv)
  moreover obtain d ds where "?m = d # ds" using m r by (cases ?m) auto
  ultimately show "hd (trim_char sep s) \<noteq> sep" using dropWhile_hd [of _ s d ds] by (simp add: t)
  show "set (trim_char sep s) \<subseteq> set s"
    unfolding trim_char_def by (auto dest!: set_dropWhileD)
qed

text \<open>
  The name of a generated version is legal.  Whatever the input, \<open>NormalizeVersionName\<close> returns the
  empty string or a name that starts with a lower-case letter, ends with a letter or a digit and
  otherwise consists of letters, digits and dashes.
\<close>

theorem NormalizeVersionName_legal:
  "let v = NormalizeVersionName ver in
   v = [] \<or> is_lower (hd v) \<and> is_version_char (last v) \<and>
     (\<forall>c\<in>set v. c = CHR ''-'' \<or> is_version_char c)"
proof -
  let ?t = "trim_char (CHR ''-'') (replace_runs (CHR ''-'') False (ToLower ver))"
  have chars: "c = CHR ''-'' \<or> is_version_char c" if "c \<in> set ?t" for c
    using that trim_char_ends(3) [of "CHR ''-''" "replace_runs (CHR ''-'') False (ToLower ver)"] replace_runs_chars
    by (cases "?t = []") fastforce+
  show ?thesis
  proof (cases "?t = []")
    case True
    then show ?thesis by (simp add: NormalizeVersionName_def normalizeVersion_def)
  next
    case False
    have hd: "is_version_char (hd ?t)" and last: "is_version_char (last ?t)"
      using trim_char_ends(1,2) [OF False] chars [of "hd ?t"] chars [of "last ?t"] False by auto
    show ?thesis
    proof (cases "is_digit (hd ?t)")
      case True
      then show ?thesis
        using False last chars
        by (auto simp: NormalizeVersionName_def normalizeVersion_def Let_def is_version_char_def is_lower_def is_digit_def less_eq_char_def)
    next
      case nd: False
      then show ?thesis
        using False hd last chars
        by (auto simp: NormalizeVersionName_def normalizeVersion_def Let_def is_version_char_def is_digit_def)
    qed
  qed
qed

theorem NormalizeVersionName_legal_witness:
  "NormalizeVersionName ''1.2..3-RC_1'' = ''v1-2-3-rc-1''"
proof -
  have "NormalizeVersionName ''1.2..3-RC_1'' = ''v1-2-3-rc-1''" by code_simp
  with NormalizeVersionName_legal [of "''1.2..3-RC_1''"] show ?thesis by simp
qed

section \<open>Properties of the generated schema\<close>

lemma transpile_doc_nodes_ok: "nodes_ok (transpile_doc f d path)"
  by (simp add: transpile_doc_def transpile_nodes_ok_all split: option.splits)

lemma nodes_ok_string_prop [simp]: "nodes_ok (string_prop f d)"
  by (simp add: string_prop_def leaf_props_def node_ok_def zero_kw_def json_types_def)

lemma nodes_ok_conditions: "nodes_ok conditions_prop"
  by (simp add: conditions_prop_def condition_item_def node_ok_def zero_kw_def json_types_def)

lemma merge_nodes_ok_iff:
  assumes "nodes_ok status"
  shows "nodes_ok (mergeConditionedStatus status) \<longleftrightarrow>
    j_Type (j_kw status) \<noteq> ''object'' \<or> j_AdditionalProperties status = None"
proof (cases status)
  case (JProps k ps ap it oo ao)
  have upd: "\<forall>kp\<in>set (AList.update ''conditions'' conditions_prop ps). nodes_ok (snd kp)"
    using assms JProps by (intro nodes_ok_update) (auto simp: nodes_ok_conditions)
  have "AList.update ''conditions'' conditions_prop ps \<noteq> []" by (cases ps) auto
  with assms JProps upd show ?thesis
    by (auto simp: mergeConditionedStatus_def node_ok_def)
qed

text \<open>A definition that refers to itself.\<close>

definition cyclic_doc :: schema_doc where
  "cyclic_doc = (let node = plain_schema zero_keywords
       [(''next'', plain_schema (zero_keywords\<lparr>k_Ref := ''#/definitions/Node''\<rparr>) [])]
     in \<lparr>doc_Definitions = [(''Node'', node)], doc_Root = Some node\<rparr>)"

lemma structural_nodes_root:
  "structural_nodes (crd_Schema (assembleCRD pluralize opts (transpile_doc f spec ''spec'') x)) \<longleftrightarrow> structural_nodes x"
  by (simp add: assembleCRD_def Let_def nodes_ok_structural_nodes [OF transpile_doc_nodes_ok]
      nodes_ok_structural_nodes [OF nodes_ok_string_prop] leaf_props_def node_ok_def zero_kw_def json_types_def)

lemma nodes_ok_root:
  "nodes_ok (crd_Schema (assembleCRD pluralize opts (transpile_doc f spec ''spec'') x)) \<longleftrightarrow> nodes_ok x"
  by (simp add: assembleCRD_def Let_def transpile_doc_nodes_ok leaf_props_def node_ok_def zero_kw_def json_types_def)

text \<open>
  Adding the conditions to a status schema that is a map (an object with \<open>additionalProperties\<close> and no properties) puts
  properties and additional properties on one node, which no structural schema may have.
\<close>

lemma managed_map_node:
  assumes "j_Type (j_kw status) = ''object''" and "j_AdditionalProperties status = Some v"
  shows "\<not> node_ok (mergeConditionedStatus status) \<and>
    j_Properties (mergeConditionedStatus status) \<noteq> [] \<and> j_AdditionalProperties (mergeConditionedStatus status) = Some v"
proof (cases status)
  case (JProps k ps ap it oo ao)
  have ne: "AList.update ''conditions'' conditions_prop ps \<noteq> []" by (cases ps) auto
  have m: "mergeConditionedStatus status = JProps k (AList.update ''conditions'' conditions_prop ps) ap it oo ao"
    using assms(1) by (simp add: mergeConditionedStatus_def JProps)
  have "ap = Some v" using assms(2) by (simp add: JProps)
  with ne show ?thesis by (simp add: m node_ok_def)
qed

lemma structural_nodes_node: "structural_nodes p \<Longrightarrow> node_ok p"
  by (cases p) simp


definition example_crd_options :: crd_options where
  "example_crd_options = \<lparr>opt_Group = ''g.io'', opt_Version = ''v1'', opt_Kind = ''Node'', opt_Categories = [], opt_SpecSchema = [],
     opt_StatusSchema = [], opt_Managed = False\<rparr>"


text \<open>
  Adding conditions to a managed status that is a map gives a node with both properties and additional properties,
  which no structural schema has.
\<close>

theorem managed_map_not_structural:
  assumes "j_Type (j_kw status) = ''object''" and "j_AdditionalProperties status = Some v"
  shows "\<not> structural (mergeConditionedStatus status) \<and>
    j_Properties (mergeConditionedStatus status) \<noteq> [] \<and> j_AdditionalProperties (mergeConditionedStatus status) = Some v"
  using managed_map_node [OF assms] structural_nodes_node by (auto simp: structural_def)

definition map_status :: schema_doc where
  "map_status = \<lparr>doc_Definitions = [],
     doc_Root = Some (SType zero_keywords [] [] (Some (Inr (plain_schema (zero_keywords\<lparr>k_Type := [''string'']\<rparr>) [])))
       None None [] [] [] None [] [] None None None [] None None)\<rparr>"

theorem managed_map_not_structural_witness:
  "\<not> structural (mergeConditionedStatus (transpile_doc (\<lambda>r. []) map_status ''status''))"
proof -
  have "j_Type (j_kw (transpile_doc (\<lambda>r. []) map_status ''status'')) = ''object''" by code_simp
  moreover have "j_AdditionalProperties (transpile_doc (\<lambda>r. []) map_status ''status'') \<noteq> None" by code_simp
  ultimately show ?thesis
    using managed_map_not_structural by blast
qed

text \<open>
  C34: inlining is bounded.  References are inlined, and yet the generated schema is never deeper than
  the size of the document's tree plus the sizes of all its definitions, plus one: every definition is
  opened at most once on a path, and a cycle is cut at its first repetition.
\<close>

theorem transpile_depth_bounded:
  assumes "doc_Root d = Some n"
  shows "depth (transpile_doc f d path) \<le> Suc (size n + sum_list (map (\<lambda>r. size (snd r)) (collectRefs d)))"
proof -
  let ?refs = "collectRefs d"
  have "(\<Sum>k\<in>fst ` set ?refs. size (the (map_of ?refs k))) = (\<Sum>r\<in>set ?refs. size (snd r))"
    using collectRefs_ok [of d] by (subst sum.reindex) (auto simp: distinct_map intro!: sum.cong)
  also have "\<dots> = sum_list (map (\<lambda>r. size (snd r)) ?refs)"
    using collectRefs_ok [of d] by (simp add: distinct_map sum_list_distinct_conv_sum_set)
  finally have "inline_bound ?refs [] n = size n + sum_list (map (\<lambda>r. size (snd r)) ?refs)"
    by (simp add: inline_bound_def)
  then show ?thesis
    using transpile_depth_all [of f ?refs "[]" n path] assms by (simp add: transpile_doc_def)
qed

theorem transpile_depth_bounded_witness:
  "depth (transpile_doc (\<lambda>r. []) cyclic_doc ''spec'') \<le> Suc (size (the (doc_Root cyclic_doc)) +
     sum_list (map (\<lambda>r. size (snd r)) (collectRefs cyclic_doc))) \<and>
   map_of (j_Properties (the (map_of (j_Properties (transpile_doc (\<lambda>r. []) cyclic_doc ''spec'')) ''next''))) ''next'' =
     Some openObject"
proof -
  have cut: "map_of (j_Properties (the (map_of (j_Properties (transpile_doc (\<lambda>r. []) cyclic_doc ''spec'')) ''next''))) ''next'' =
     Some openObject" by code_simp
  have "doc_Root cyclic_doc = Some (the (doc_Root cyclic_doc))" by (simp add: cyclic_doc_def Let_def)
  from transpile_depth_bounded [OF this, of "\<lambda>r. []" "''spec''"] cut show ?thesis by simp
qed

text \<open>
  The members of a union are never the constraint-only schemas they should be.  Whenever a node
  comes out with \<open>oneOf\<close> or \<open>anyOf\<close>, every member carries a type of its own or int-or-string, although
  a structural schema may not set either inside a union.
\<close>

theorem union_members_typed:
  assumes "p = fst (transpile f refs stack n path)" and "m \<in> set (j_OneOf p) \<union> set (j_AnyOf p)"
  shows "j_Type (j_kw m) \<noteq> [] \<or> j_XIntOrString (j_kw m)"
proof -
  have "nodes_ok p" unfolding assms(1) by (rule transpile_nodes_ok_all)
  then have "nodes_ok m" using assms(2) by (cases p) auto
  from nodes_ok_node [OF this] show ?thesis by (auto simp: node_ok_def json_types_def split: if_splits)
qed

definition union_schema :: stype where
  "union_schema = SType (zero_keywords\<lparr>k_Type := [''object'']\<rparr>) [(''a'', plain_schema (zero_keywords\<lparr>k_Type := [''string'']\<rparr>) [])]
     [] None None None [] [plain_schema (zero_keywords\<lparr>k_Required := [''a'']\<rparr>) []] [] None [] [] None None None [] None None"

theorem union_members_typed_witness:
  "j_AnyOf (fst (transpile (\<lambda>r. []) [] [] union_schema ''spec'')) = [openObject] \<and> j_Type (j_kw openObject) \<noteq> []"
proof -
  have "j_AnyOf (fst (transpile (\<lambda>r. []) [] [] union_schema ''spec'')) = [openObject]" by code_simp
  with union_members_typed [OF refl, of openObject "\<lambda>r. []" "[]" "[]" union_schema "''spec''"] show ?thesis
    by (simp add: openObject_def leaf_props_def zero_kw_def)
qed

end
