(* ===== verification/Go_Encoding.thy ===== *)
theory Go_Encoding
  imports Go_Prelude
begin

text \<open>
  The encodings of Go's standard library that tokens and identifiers use: \<open>base64.RawURLEncoding\<close> and
  the big-endian bytes of \<open>big.Int\<close>.

  The decoder is Go's: line breaks are skipped, a final group of two or three characters stands for one or
  two bytes, its unused bits are ignored, a single left-over character or any other byte is an error.
\<close>

section \<open>Unpadded base64url\<close>

definition url_alphabet :: string where
  "url_alphabet = ''ABCDEFGHIJKLMNOPQRSTUVWXYZabcdefghijklmnopqrstuvwxyz0123456789-_''"

definition url_char :: "nat \<Rightarrow> char" where
  "url_char n = url_alphabet ! n"

definition url_index :: "char \<Rightarrow> nat option" where
  "url_index c = index_of url_alphabet c"

fun url_encode :: "string \<Rightarrow> string" where
  "url_encode [] = []"
| "url_encode [a] = (let n = of_char a :: nat in [url_char (n div 4), url_char (n mod 4 * 16)])"
| "url_encode [a, b] =
     (let n = of_char a :: nat; m = of_char b :: nat in
      [url_char (n div 4), url_char (n mod 4 * 16 + m div 16), url_char (m mod 16 * 4)])"
| "url_encode (a # b # c # rest) =
     (let n = of_char a :: nat; m = of_char b :: nat; l = of_char c :: nat in
      url_char (n div 4) # url_char (n mod 4 * 16 + m div 16) # url_char (m mod 16 * 4 + l div 64) #
      url_char (l mod 64) # url_encode rest)"

text \<open>The bytes of one group of sextets.\<close>

fun sextets :: "nat list \<Rightarrow> string option" where
  "sextets [] = Some []"
| "sextets [i] = None"
| "sextets [i, j] = Some [char_of (i * 4 + j div 16)]"
| "sextets [i, j, k] = Some [char_of (i * 4 + j div 16), char_of (j mod 16 * 16 + k div 4)]"
| "sextets (i # j # k # l # rest) =
     map_option (\<lambda>r. char_of (i * 4 + j div 16) # char_of (j mod 16 * 16 + k div 4) # char_of (k mod 4 * 64 + l) # r)
       (sextets rest)"

definition raw_url_decode :: "string \<Rightarrow> string option" where
  "raw_url_decode s =
     Option.bind (those (map url_index (filter (\<lambda>c. c \<noteq> CHR 0x0A \<and> c \<noteq> CHR 0x0D) s))) sextets"

lemma url_alphabet_distinct: "distinct url_alphabet" "length url_alphabet = 64"
  by (simp_all add: url_alphabet_def)

lemma url_index_char: "n < 64 \<Longrightarrow> url_index (url_char n) = Some n"
  by (simp add: url_index_def url_char_def index_of_nth url_alphabet_distinct)

lemma url_char_ne: "n < 64 \<Longrightarrow> url_char n \<notin> {CHR ''='', CHR ''.'', CHR 0x0A, CHR 0x0D}"
proof -
  assume "n < 64"
  then have "url_char n \<in> set url_alphabet" by (simp add: url_char_def url_alphabet_distinct)
  moreover have "set url_alphabet \<inter> {CHR ''='', CHR ''.'', CHR 0x0A, CHR 0x0D} = {}"
    by (simp add: url_alphabet_def)
  ultimately show ?thesis by blast
qed

fun url_sextets :: "string \<Rightarrow> nat list" where
  "url_sextets [] = []"
| "url_sextets [a] = (let n = of_char a :: nat in [n div 4, n mod 4 * 16])"
| "url_sextets [a, b] =
     (let n = of_char a :: nat; m = of_char b :: nat in [n div 4, n mod 4 * 16 + m div 16, m mod 16 * 4])"
| "url_sextets (a # b # c # rest) =
     (let n = of_char a :: nat; m = of_char b :: nat; l = of_char c :: nat in
      [n div 4, n mod 4 * 16 + m div 16, m mod 16 * 4 + l div 64, l mod 64] @ url_sextets rest)"

lemma url_encode_sextets: "url_encode s = map url_char (url_sextets s)"
  by (induction s rule: url_encode.induct) (simp_all add: Let_def)

lemma url_sextets_bound: "n \<in> set (url_sextets s) \<Longrightarrow> n < 64"
proof (induction s rule: url_sextets.induct)
  case (3 a b)
  have "(of_char a :: nat) mod 4 * 16 + of_char b div 16 < 64"
    using mod_less_divisor [of 4 "of_char a :: nat"] of_char_div(2) [of b] by linarith
  with 3 show ?case by (auto simp: Let_def)
next
  case (4 a b c rest)
  have "(of_char a :: nat) mod 4 * 16 + of_char b div 16 < 64"
    using mod_less_divisor [of 4 "of_char a :: nat"] of_char_div(2) [of b] by linarith
  moreover have "(of_char b :: nat) mod 16 * 4 + of_char c div 64 < 64"
    using mod_less_divisor [of 16 "of_char b :: nat"] of_char_div(3) [of c] by linarith
  ultimately show ?case using 4 by (auto simp: Let_def)
qed (auto simp: Let_def)

lemma sextets_url: "sextets (url_sextets s) = Some s"
proof (induction s rule: url_sextets.induct)
  case (3 a b)
  let ?n = "of_char a :: nat" and ?m = "of_char b :: nat"
  have e1: "?n div 4 * 4 + (?n mod 4 * 16 + ?m div 16) div 16 = ?n" using of_char_div(2) [of b] by simp
  have e2: "(?n mod 4 * 16 + ?m div 16) mod 16 * 16 + (?m mod 16 * 4) div 4 = ?m" using of_char_div(2) [of b] by simp
  show ?case using e1 e2 by (simp add: Let_def)
next
  case (4 a b c rest)
  let ?n = "of_char a :: nat" and ?m = "of_char b :: nat" and ?l = "of_char c :: nat"
  have e1: "?n div 4 * 4 + (?n mod 4 * 16 + ?m div 16) div 16 = ?n" using of_char_div(2) [of b] by simp
  have e2: "(?n mod 4 * 16 + ?m div 16) mod 16 * 16 + (?m mod 16 * 4 + ?l div 64) div 4 = ?m"
    using of_char_div(2) [of b] of_char_div(3) [of c] by simp
  have e3: "(?m mod 16 * 4 + ?l div 64) mod 4 * 64 + ?l mod 64 = ?l" using of_char_div(3) [of c] by simp
  show ?case using "4.IH" e1 e2 e3 by (simp add: Let_def)
qed (simp_all add: Let_def)

lemma url_encode_chars: "c \<in> set (url_encode s) \<Longrightarrow> c \<notin> {CHR ''='', CHR ''.'', CHR 0x0A, CHR 0x0D}"
proof -
  assume "c \<in> set (url_encode s)"
  then obtain n where "n \<in> set (url_sextets s)" "c = url_char n" by (auto simp: url_encode_sextets)
  with url_char_ne [OF url_sextets_bound [OF this(1)]] show ?thesis by simp
qed

lemma those_index_char: "list_all (\<lambda>n. n < 64) ns \<Longrightarrow> those (map (url_index \<circ> url_char) ns) = Some ns"
  by (induction ns) (simp_all add: url_index_char)

theorem raw_url_decode_encode: "raw_url_decode (url_encode s) = Some s"
proof -
  have "filter (\<lambda>c. c \<noteq> CHR 0x0A \<and> c \<noteq> CHR 0x0D) (url_encode s) = url_encode s"
    using url_encode_chars by (intro filter_True) blast
  moreover have "list_all (\<lambda>n. n < 64) (url_sextets s)" by (simp add: list_all_iff url_sextets_bound)
  ultimately show ?thesis
    by (simp add: raw_url_decode_def url_encode_sextets those_index_char sextets_url)
qed

lemma TrimRight_padding:
  assumes "c \<notin> set s"
  shows "TrimRight c (s @ replicate n c) = s"
proof -
  have "dropWhile (\<lambda>x. x = c) (replicate n c @ rev s) = dropWhile (\<lambda>x. x = c) (rev s)" by (induction n) auto
  moreover have "dropWhile (\<lambda>x. x = c) (rev s) = rev s"
    using assms by (intro dropWhile_eq_self_iff [THEN iffD2]) (metis hd_in_set set_rev)
  ultimately show ?thesis by (simp add: TrimRight_def)
qed

section \<open>Big-endian integers\<close>

definition set_bytes :: "string \<Rightarrow> nat" where
  "set_bytes bs = foldl (\<lambda>n b. n * 256 + of_char b) 0 bs"

fun big_bytes :: "nat \<Rightarrow> string" where
  "big_bytes n = (if n = 0 then [] else big_bytes (n div 256) @ [char_of (n mod 256)])"

declare big_bytes.simps [simp del]

lemma set_bytes_big_bytes: "set_bytes (big_bytes n) = n"
proof (induction n rule: big_bytes.induct)
  case (1 n)
  then show ?case by (subst big_bytes.simps) (auto simp: set_bytes_def)
qed

lemma big_bytes_ne: "n \<noteq> 0 \<Longrightarrow> big_bytes n \<noteq> []"
  by (subst big_bytes.simps) simp

end
