(* ===== verification/Jwt_Keys.thy ===== *)
theory Jwt_Keys
  imports Go_Encoding
begin

text \<open>
  \<open>jwtutil/jwks.go\<close>: the sources of RSA verification keys.

  \<open>jwks_source\<close> is \<open>JWKSKeySource\<close>; a zero \<open>time.Time\<close> is \<open>None\<close>.  \<open>jwks_PublicKey\<close> is the whole method,
  with the readings of \<open>now()\<close> in program order as the function \<open>now\<close> (0: freshness, 1: refresh floor,
  2: \<open>lastAttempt\<close>, 3: \<open>fetchedAt\<close>).  The mutex makes a call one step.  The HTTP transport and the JSON
  decoder are arguments; everything else of a fetch (status, size limit, selection of keys, base64url,
  exponent bounds) is defined here.  \<open>keyUnavailable\<close> errors carry what the format string prints.

  Shown: the interface law of a key source (every failure is \<open>ErrKeyUnavailable\<close>), the exact outcome of
  a call, the spacing of fetch attempts and the resulting bound on their number, and the round trip of
  published keys.
\<close>

section \<open>Errors\<close>

datatype key_fault =
    NoPublicKey
  | NoKeySource
  | NoURL
  | NoKidToSelect string nat
  | NoKeyForKid string string
  | FetchFailed string
  | UnexpectedStatus string string
  | ReadFailed string
  | DecodeFailed string
  | NoUsableKeys string

text \<open>
  \<open>KeyUnavailable\<close> is \<open>errKeyUnavailable\<close> with its cause, an error text that may wrap a further error;
  \<open>LibExpired\<close> is the sentinel \<open>jwt.ErrTokenExpired\<close> and \<open>LibError\<close> any other error of a library, with
  the errors it wraps.
\<close>

datatype jerr =
    KeyUnavailable key_fault "jerr list"
  | ErrTokenExpired
  | ErrTokenInvalid
  | Errorf string
  | LibExpired
  | LibError string "jerr list"

text \<open>\<open>errors.Is\<close>: the error or one that it wraps, at any depth, matches.\<close>

fun errors_Is :: "(jerr \<Rightarrow> bool) \<Rightarrow> jerr \<Rightarrow> bool" where
  "errors_Is p (KeyUnavailable f es) = (p (KeyUnavailable f es) \<or> list_ex (errors_Is p) es)"
| "errors_Is p (LibError m es) = (p (LibError m es) \<or> list_ex (errors_Is p) es)"
| "errors_Is p e = p e"

definition is_key_unavailable :: "jerr \<Rightarrow> bool" where
  "is_key_unavailable e = (case e of KeyUnavailable f es \<Rightarrow> True | _ \<Rightarrow> False)"

definition is_expired :: "jerr \<Rightarrow> bool" where
  "is_expired e = (e = LibExpired)"

lemma is_key_unavailable_simps [simp]:
  "is_key_unavailable (KeyUnavailable f es)" "\<not> is_key_unavailable ErrTokenExpired"
  "\<not> is_key_unavailable ErrTokenInvalid" "\<not> is_key_unavailable (Errorf m)"
  "\<not> is_key_unavailable LibExpired" "\<not> is_key_unavailable (LibError m es)"
  by (simp_all add: is_key_unavailable_def)

section \<open>Keys\<close>

record rsa_key =
  rsa_N :: nat
  rsa_E :: int

record jwksKey =
  jwk_Kty :: string
  jwk_Use :: string
  jwk_Alg :: string
  jwk_Kid :: string
  jwk_N :: string
  jwk_E :: string

definition decodeBase64URL :: "string \<Rightarrow> string option" where
  "decodeBase64URL s = raw_url_decode (TrimRight (CHR ''='') s)"

definition rsaPublicKey :: "jwksKey \<Rightarrow> rsa_key option" where
  "rsaPublicKey k =
     (if jwk_Kty k \<noteq> ''RSA'' then None
      else if jwk_Use k \<noteq> [] \<and> jwk_Use k \<noteq> ''sig'' then None
      else if jwk_Alg k \<noteq> [] \<and> jwk_Alg k \<noteq> ''RS256'' then None
      else case decodeBase64URL (jwk_N k) of
             None \<Rightarrow> None
           | Some nBytes \<Rightarrow>
               if nBytes = [] then None
               else (case decodeBase64URL (jwk_E k) of
                       None \<Rightarrow> None
                     | Some eBytes \<Rightarrow>
                         if eBytes = [] then None
                         else let e = int (set_bytes eBytes) in
                              if \<not> e < 2 ^ 63 \<or> e \<le> 0 \<or> e > 2 ^ 31 - 1 then None
                              else Some \<lparr>rsa_N = set_bytes nBytes, rsa_E = e\<rparr>))"

section \<open>Static source\<close>

definition static_PublicKey :: "rsa_key option option \<Rightarrow> string \<Rightarrow> rsa_key option option \<times> (jerr + rsa_key)" where
  "static_PublicKey s kid =
     (s, case s of
           Some (Some key) \<Rightarrow> Inr key
         | _ \<Rightarrow> Inl (KeyUnavailable NoPublicKey []))"

section \<open>JWKS source\<close>

record http_client =
  client_id :: nat
  client_Timeout :: duration

record jwks_source =
  jk_url :: string
  jk_httpClient :: http_client
  jk_ttl :: duration
  jk_minRefreshInterval :: duration
  jk_keys :: "(string, rsa_key) gomap"
  jk_fetchedAt :: "instant option"
  jk_lastAttempt :: "instant option"

datatype JWKSOption =
    WithJWKSCacheTTL duration
  | WithJWKSMinRefreshInterval duration
  | WithJWKSHTTPClient "http_client option"
  | WithJWKSRequestTimeout duration

fun apply_jwks_option :: "JWKSOption \<Rightarrow> jwks_source \<Rightarrow> jwks_source" where
  "apply_jwks_option (WithJWKSCacheTTL ttl) s = (if ttl > 0 then s\<lparr>jk_ttl := ttl\<rparr> else s)"
| "apply_jwks_option (WithJWKSMinRefreshInterval d) s =
     (if d > 0 then s\<lparr>jk_minRefreshInterval := d\<rparr> else s)"
| "apply_jwks_option (WithJWKSHTTPClient c) s =
     (case c of None \<Rightarrow> s | Some client \<Rightarrow> s\<lparr>jk_httpClient := client\<rparr>)"
| "apply_jwks_option (WithJWKSRequestTimeout d) s =
     (if d > 0 then s\<lparr>jk_httpClient := (jk_httpClient s)\<lparr>client_Timeout := d\<rparr>\<rparr> else s)"

text \<open>The client made by the constructor has identity 0.\<close>

definition NewJWKSKeySource :: "string \<Rightarrow> JWKSOption list \<Rightarrow> jwks_source" where
  "NewJWKSKeySource url opts =
     fold apply_jwks_option opts
       \<lparr>jk_url = url, jk_httpClient = \<lparr>client_id = 0, client_Timeout = 5 * 1000000000\<rparr>,
        jk_ttl = 5 * 60 * 1000000000, jk_minRefreshInterval = 30 * 1000000000,
        jk_keys = [], jk_fetchedAt = None, jk_lastAttempt = None\<rparr>"

definition JWKSURL :: "string \<Rightarrow> string" where
  "JWKSURL base' =
     (let base = TrimSpace base' in
      if base = [] then []
      else if HasSuffix base ''.json'' then base
      else TrimSuffix base ''/'' @ ''/.well-known/jwks.json'')"

definition lookupLocked :: "jwks_source \<Rightarrow> string \<Rightarrow> rsa_key option" where
  "lookupLocked s kid =
     (if kid \<noteq> [] then map_of (jk_keys s) kid
      else case jk_keys s of [(k, key)] \<Rightarrow> Some key | _ \<Rightarrow> None)"

text \<open>A response: its status, the bytes of its body, and the error after them, if the stream breaks.\<close>

record http_response =
  res_StatusCode :: int
  res_Status :: string
  res_Body :: string
  res_BodyError :: "jerr option"

definition read_limited :: "nat \<Rightarrow> http_response \<Rightarrow> jerr + string" where
  "read_limited limit res =
     (if length (res_Body res) \<ge> limit then Inr (take limit (res_Body res))
      else case res_BodyError res of Some e \<Rightarrow> Inl e | None \<Rightarrow> Inr (res_Body res))"

fun usable_keys :: "jwksKey list \<Rightarrow> (string, rsa_key) gomap \<Rightarrow> (string, rsa_key) gomap" where
  "usable_keys [] keys = keys"
| "usable_keys (k # ks) keys =
     (case rsaPublicKey k of
        None \<Rightarrow> usable_keys ks keys
      | Some key \<Rightarrow> usable_keys ks (AList.update (jwk_Kid k) key keys))"

definition jwks_fetch ::
  "(string \<Rightarrow> jerr + jwksKey list) \<Rightarrow> (string \<Rightarrow> jerr + http_response) \<Rightarrow> string \<Rightarrow>
   jerr + (string, rsa_key) gomap" where
  "jwks_fetch decode get url =
     (case get url of
        Inl err \<Rightarrow> Inl (KeyUnavailable (FetchFailed url) [err])
      | Inr res \<Rightarrow>
          if res_StatusCode res \<noteq> 200 then Inl (KeyUnavailable (UnexpectedStatus url (res_Status res)) [])
          else (case read_limited (2 ^ 20) res of
                  Inl err \<Rightarrow> Inl (KeyUnavailable (ReadFailed url) [err])
                | Inr body \<Rightarrow>
                    (case decode body of
                       Inl err \<Rightarrow> Inl (KeyUnavailable (DecodeFailed url) [err])
                     | Inr doc \<Rightarrow>
                         (let keys = usable_keys doc [] in
                          if keys = [] then Inl (KeyUnavailable (NoUsableKeys url) []) else Inr keys))))"

definition refreshLocked ::
  "(string \<Rightarrow> jerr + jwksKey list) \<Rightarrow> (string \<Rightarrow> jerr + http_response) \<Rightarrow> (nat \<Rightarrow> instant) \<Rightarrow>
   jwks_source \<Rightarrow> jwks_source \<times> jerr option" where
  "refreshLocked decode get now s =
     (let s1 = s\<lparr>jk_lastAttempt := Some (now 2)\<rparr> in
      case jwks_fetch decode get (jk_url s) of
        Inl err \<Rightarrow> (s1, Some err)
      | Inr keys \<Rightarrow> (s1\<lparr>jk_keys := keys, jk_fetchedAt := Some (now 3)\<rparr>, None))"

definition no_key_error :: "jwks_source \<Rightarrow> string \<Rightarrow> jerr" where
  "no_key_error s kid =
     KeyUnavailable (if kid = [] then NoKidToSelect (jk_url s) (length (jk_keys s))
                     else NoKeyForKid (jk_url s) kid) []"

definition fresh :: "jwks_source \<Rightarrow> instant \<Rightarrow> bool" where
  "fresh s t = (case jk_fetchedAt s of None \<Rightarrow> False | Some f \<Rightarrow> t - f < jk_ttl s)"

definition may_refresh :: "jwks_source \<Rightarrow> instant \<Rightarrow> bool" where
  "may_refresh s t = (case jk_lastAttempt s of None \<Rightarrow> True | Some a \<Rightarrow> t - a \<ge> jk_minRefreshInterval s)"

definition jwks_PublicKey ::
  "(string \<Rightarrow> jerr + jwksKey list) \<Rightarrow> (string \<Rightarrow> jerr + http_response) \<Rightarrow> (nat \<Rightarrow> instant) \<Rightarrow>
   jwks_source option \<Rightarrow> string \<Rightarrow> jwks_source option \<times> (jerr + rsa_key)" where
  "jwks_PublicKey decode get now src kid =
     (case src of
        None \<Rightarrow> (None, Inl (KeyUnavailable NoKeySource []))
      | Some s \<Rightarrow>
          if jk_url s = [] then (Some s, Inl (KeyUnavailable NoURL []))
          else (case lookupLocked s kid of
                  Some cached \<Rightarrow>
                    if fresh s (now 0) then (Some s, Inr cached)
                    else if may_refresh s (now 1)
                    then (case refreshLocked decode get now s of
                            (s', Some err) \<Rightarrow> (Some s', Inr cached)
                          | (s', None) \<Rightarrow>
                              (case lookupLocked s' kid of
                                 Some key \<Rightarrow> (Some s', Inr key)
                               | None \<Rightarrow> (Some s', Inl (no_key_error s' kid))))
                    else (Some s, Inr cached)
                | None \<Rightarrow>
                    if may_refresh s (now 1)
                    then (case refreshLocked decode get now s of
                            (s', Some err) \<Rightarrow> (Some s', Inl err)
                          | (s', None) \<Rightarrow>
                              (case lookupLocked s' kid of
                                 Some key \<Rightarrow> (Some s', Inr key)
                               | None \<Rightarrow> (Some s', Inl (no_key_error s' kid))))
                    else (Some s, Inl (no_key_error s kid))))"

section \<open>The interface of a key source\<close>

text \<open>\<open>KeySource\<close>: a failure to resolve a key is reported as such, and never as a fault of the token.\<close>

locale key_source =
  fixes publicKey :: "'s \<Rightarrow> string \<Rightarrow> 's \<times> (jerr + rsa_key)"
  assumes unavailable: "publicKey s kid = (s', Inl e) \<Longrightarrow> is_key_unavailable e"
begin

lemma failure_is: "snd (publicKey s kid) = Inl e \<Longrightarrow> errors_Is is_key_unavailable e"
  using unavailable [of s kid "fst (publicKey s kid)" e] by (cases e) (auto simp: prod_eq_iff)

end

lemma fetch_unavailable: "jwks_fetch decode get url = Inl e \<Longrightarrow> is_key_unavailable e"
  by (auto simp: jwks_fetch_def Let_def split: sum.splits if_splits)

interpretation static: key_source static_PublicKey
  by unfold_locales (auto simp: static_PublicKey_def split: option.splits)

interpretation jwks: key_source "jwks_PublicKey decode get now"
  by unfold_locales
    (auto simp: jwks_PublicKey_def refreshLocked_def Let_def no_key_error_def
      split: option.splits if_splits sum.splits dest: fetch_unavailable)

section \<open>One call\<close>

text \<open>Whether a call goes to the network.\<close>

definition goes_out :: "(nat \<Rightarrow> instant) \<Rightarrow> jwks_source option \<Rightarrow> string \<Rightarrow> bool" where
  "goes_out now src kid =
     (case src of
        None \<Rightarrow> False
      | Some s \<Rightarrow> jk_url s \<noteq> [] \<and> \<not> (lookupLocked s kid \<noteq> None \<and> fresh s (now 0)) \<and> may_refresh s (now 1))"

definition answer :: "jwks_source \<Rightarrow> string \<Rightarrow> jerr + rsa_key" where
  "answer s kid = (case lookupLocked s kid of Some key \<Rightarrow> Inr key | None \<Rightarrow> Inl (no_key_error s kid))"

lemma PublicKey_cached:
  assumes "jk_url s \<noteq> []" and "\<not> goes_out now (Some s) kid"
  shows "jwks_PublicKey decode get now (Some s) kid = (Some s, answer s kid)"
  using assms by (auto simp: jwks_PublicKey_def goes_out_def answer_def split: option.splits)

lemma PublicKey_failed:
  assumes "goes_out now (Some s) kid" and "jwks_fetch decode get (jk_url s) = Inl e"
  shows "jwks_PublicKey decode get now (Some s) kid =
    (Some (s\<lparr>jk_lastAttempt := Some (now 2)\<rparr>), case lookupLocked s kid of Some key \<Rightarrow> Inr key | None \<Rightarrow> Inl e)"
  using assms by (auto simp: jwks_PublicKey_def goes_out_def refreshLocked_def split: option.splits)

lemma PublicKey_refreshed:
  assumes "goes_out now (Some s) kid" and "jwks_fetch decode get (jk_url s) = Inr keys"
  shows "jwks_PublicKey decode get now (Some s) kid =
    (let s' = s\<lparr>jk_lastAttempt := Some (now 2), jk_keys := keys, jk_fetchedAt := Some (now 3)\<rparr> in (Some s', answer s' kid))"
  using assms by (auto simp: jwks_PublicKey_def goes_out_def refreshLocked_def answer_def Let_def split: option.splits)

lemma PublicKey_no_url: "jk_url s = [] \<Longrightarrow> jwks_PublicKey decode get now (Some s) kid = (Some s, Inl (KeyUnavailable NoURL []))"
  by (simp add: jwks_PublicKey_def)

lemma PublicKey_cases:
  obtains (unconfigured) "jk_url s = []" "jwks_PublicKey decode get now (Some s) kid = (Some s, Inl (KeyUnavailable NoURL []))"
      "\<not> goes_out now (Some s) kid"
  | (cached) "jk_url s \<noteq> []" "\<not> goes_out now (Some s) kid"
      "jwks_PublicKey decode get now (Some s) kid = (Some s, answer s kid)"
  | (failed) e where "jk_url s \<noteq> []" "goes_out now (Some s) kid" "jwks_fetch decode get (jk_url s) = Inl e"
      "jwks_PublicKey decode get now (Some s) kid =
        (Some (s\<lparr>jk_lastAttempt := Some (now 2)\<rparr>), case lookupLocked s kid of Some key \<Rightarrow> Inr key | None \<Rightarrow> Inl e)"
  | (refreshed) keys where "jk_url s \<noteq> []" "goes_out now (Some s) kid" "jwks_fetch decode get (jk_url s) = Inr keys"
      "jwks_PublicKey decode get now (Some s) kid =
        (Some (s\<lparr>jk_lastAttempt := Some (now 2), jk_keys := keys, jk_fetchedAt := Some (now 3)\<rparr>),
         answer (s\<lparr>jk_lastAttempt := Some (now 2), jk_keys := keys, jk_fetchedAt := Some (now 3)\<rparr>) kid)"
proof (cases "jk_url s = []")
  case True
  then show ?thesis using that(1) PublicKey_no_url by (simp add: goes_out_def)
next
  case url: False
  show ?thesis
  proof (cases "goes_out now (Some s) kid")
    case True
    then show ?thesis
      using that(3,4) url PublicKey_failed PublicKey_refreshed
      by (cases "jwks_fetch decode get (jk_url s)") (auto simp: Let_def)
  qed (use that(2) url PublicKey_cached in blast)
qed

section \<open>Runs\<close>

record jwks_call =
  call_get :: "string \<Rightarrow> jerr + http_response"
  call_now :: "nat \<Rightarrow> instant"
  call_kid :: string

definition do_call :: "(string \<Rightarrow> jerr + jwksKey list) \<Rightarrow> jwks_source option \<Rightarrow> jwks_call \<Rightarrow> jwks_source option" where
  "do_call decode src c = fst (jwks_PublicKey decode (call_get c) (call_now c) src (call_kid c))"

text \<open>The instants of the fetch attempts of a run, and clocks that never go back.\<close>

fun attempts :: "(string \<Rightarrow> jerr + jwksKey list) \<Rightarrow> jwks_source option \<Rightarrow> jwks_call list \<Rightarrow> instant list" where
  "attempts decode src [] = []"
| "attempts decode src (c # cs) =
     (if goes_out (call_now c) src (call_kid c) then [call_now c 2] else []) @
     attempts decode (do_call decode src c) cs"

fun clock_ok :: "instant \<Rightarrow> jwks_call list \<Rightarrow> bool" where
  "clock_ok t [] = True"
| "clock_ok t (c # cs) =
     (t \<le> call_now c 0 \<and> call_now c 0 \<le> call_now c 1 \<and> call_now c 1 \<le> call_now c 2 \<and>
      call_now c 2 \<le> call_now c 3 \<and> clock_ok (call_now c 3) cs)"

definition spaced :: "duration \<Rightarrow> instant list \<Rightarrow> bool" where
  "spaced d ts = (\<forall>i. Suc i < length ts \<longrightarrow> ts ! Suc i - ts ! i \<ge> d)"

lemma spaced_Cons: "spaced d (t # ts) \<longleftrightarrow> (ts \<noteq> [] \<longrightarrow> hd ts - t \<ge> d) \<and> spaced d ts"
proof (cases ts)
  case (Cons u us)
  then show ?thesis
    by (auto simp: spaced_def nth_Cons split: nat.splits)
qed (simp add: spaced_def)

lemma spaced_bound:
  "spaced d ts \<Longrightarrow> ts \<noteq> [] \<Longrightarrow> int (length ts - 1) * d \<le> last ts - hd ts"
proof (induction ts)
  case (Cons t ts)
  then show ?case
  proof (cases ts)
    case (Cons u us)
    with Cons.IH Cons.prems show ?thesis by (auto simp: spaced_Cons algebra_simps)
  qed simp
qed simp

lemma do_call_same:
  assumes "do_call decode (Some s) c = src'"
  obtains s' where "src' = Some s'" "jk_minRefreshInterval s' = jk_minRefreshInterval s" "jk_url s' = jk_url s"
    "jk_lastAttempt s' = (if goes_out (call_now c) (Some s) (call_kid c) then Some (call_now c 2) else jk_lastAttempt s)"
  using assms unfolding do_call_def
  by (cases rule: PublicKey_cases [of s decode "call_get c" "call_now c" "call_kid c"]) auto

lemma goes_out_gap:
  "goes_out now (Some s) kid \<Longrightarrow> jk_lastAttempt s = Some a \<Longrightarrow> now 1 - a \<ge> jk_minRefreshInterval s"
  by (simp add: goes_out_def may_refresh_def)

lemma attempts_spaced_from:
  assumes "clock_ok t cs"
  shows "spaced (jk_minRefreshInterval s) (attempts decode (Some s) cs) \<and>
    (\<forall>a. jk_lastAttempt s = Some a \<longrightarrow> attempts decode (Some s) cs \<noteq> [] \<longrightarrow>
       hd (attempts decode (Some s) cs) - a \<ge> jk_minRefreshInterval s)"
  using assms
proof (induction cs arbitrary: s t)
  case (Cons c cs)
  obtain s' where s': "do_call decode (Some s) c = Some s'" "jk_minRefreshInterval s' = jk_minRefreshInterval s"
    "jk_lastAttempt s' = (if goes_out (call_now c) (Some s) (call_kid c) then Some (call_now c 2) else jk_lastAttempt s)"
    by (rule do_call_same [OF refl]) blast
  note IH = Cons.IH [of "call_now c 3" s']
  show ?case
  proof (cases "goes_out (call_now c) (Some s) (call_kid c)")
    case True
    with IH Cons.prems s' goes_out_gap [OF True] show ?thesis by (fastforce simp: spaced_Cons)
  next
    case False
    with IH Cons.prems s' show ?thesis by simp
  qed
qed (simp add: spaced_def)

lemma option_min_positive:
  "0 < jk_minRefreshInterval s \<Longrightarrow> 0 < jk_minRefreshInterval (fold apply_jwks_option opts s)"
proof (induction opts arbitrary: s)
  case (Cons x opts)
  have "0 < jk_minRefreshInterval (apply_jwks_option x s)"
    using Cons.prems by (cases x) (auto split: option.splits)
  with Cons.IH show ?case by simp
qed simp

lemma New_min_positive: "0 < jk_minRefreshInterval (NewJWKSKeySource url opts)"
  unfolding NewJWKSKeySource_def by (rule option_min_positive) simp

section \<open>Properties\<close>

text \<open>
  C35: refreshes are rate limited.  Over any sequence of calls on a source made by \<open>NewJWKSKeySource\<close>, with
  any options, any answers of the network, any requested key identifiers and a clock that does not go
  back, two fetch attempts are at least the refresh interval apart, the interval is positive, and so the
  number of attempts is bounded by the elapsed time.  A call that makes no attempt does not depend on the
  network.
\<close>

theorem jwks_fetches_bounded:
  fixes url opts
  defines "s \<equiv> NewJWKSKeySource url opts"
  assumes "clock_ok t cs" and "ats = attempts decode (Some s) cs"
  shows "0 < jk_minRefreshInterval s \<and>
    (\<forall>i. Suc i < length ats \<longrightarrow> ats ! Suc i - ats ! i \<ge> jk_minRefreshInterval s) \<and>
    (ats \<noteq> [] \<longrightarrow> int (length ats - 1) * jk_minRefreshInterval s \<le> last ats - hd ats) \<and>
    (\<forall>now src kid get get'. \<not> goes_out now src kid \<longrightarrow>
      jwks_PublicKey decode get now src kid = jwks_PublicKey decode get' now src kid)"
proof (intro conjI allI impI)
  have sp: "spaced (jk_minRefreshInterval s) ats"
    unfolding assms(3) using attempts_spaced_from [OF assms(2)] by blast
  show "0 < jk_minRefreshInterval s" unfolding s_def by (rule New_min_positive)
  show "ats ! Suc i - ats ! i \<ge> jk_minRefreshInterval s" if "Suc i < length ats" for i
    using sp that by (simp add: spaced_def)
  show "int (length ats - 1) * jk_minRefreshInterval s \<le> last ats - hd ats" if "ats \<noteq> []"
    by (rule spaced_bound [OF sp that])
  show "jwks_PublicKey decode get now src kid = jwks_PublicKey decode get' now src kid" if "\<not> goes_out now src kid"
    for now src kid get get'
    using that by (cases src) (auto simp: jwks_PublicKey_def goes_out_def split: option.splits)
qed

definition example_down :: "instant \<Rightarrow> jwks_call" where
  "example_down t = \<lparr>call_get = (\<lambda>_. Inl (Errorf ''refused'')), call_now = (\<lambda>_. t * 1000000000), call_kid = ''a''\<rparr>"

theorem jwks_fetches_bounded_witness:
  "let s = NewJWKSKeySource ''u'' [] ; ats = attempts (\<lambda>_. Inr []) (Some s) (map example_down [100, 110, 129, 130, 140, 161]) in
   ats = [100 * 1000000000, 130 * 1000000000, 161 * 1000000000] \<and>
   int (length ats - 1) * jk_minRefreshInterval s \<le> last ats - hd ats"
proof -
  let ?s = "NewJWKSKeySource ''u'' []" and ?cs = "map example_down [100, 110, 129, 130, 140, 161]"
  have ats: "attempts (\<lambda>_. Inr []) (Some ?s) ?cs = [100 * 1000000000, 130 * 1000000000, 161 * 1000000000]"
    by (simp add: NewJWKSKeySource_def example_down_def goes_out_def may_refresh_def lookupLocked_def do_call_def
        jwks_PublicKey_def refreshLocked_def jwks_fetch_def Let_def)
  have "clock_ok 0 ?cs" by (simp add: example_down_def)
  from jwks_fetches_bounded [OF this ats [symmetric]] ats show ?thesis by (simp only: Let_def) simp
qed

lemma lookup_kept:
  assumes "kid \<noteq> []" and "lookupLocked s kid = Some key"
    and "\<forall>keys. jwks_fetch decode (call_get c) (jk_url s) = Inr keys \<longrightarrow> map_of keys kid = Some key"
    and "do_call decode (Some s) c = Some s'"
  shows "lookupLocked s' kid = Some key \<and> jk_url s' = jk_url s"
  using assms(4) unfolding do_call_def
  by (cases rule: PublicKey_cases [of s decode "call_get c" "call_now c" "call_kid c"])
    (use assms(1-3) in \<open>auto simp: lookupLocked_def\<close>)

text \<open>
  A known key survives an outage.  While the key set holds a key for \<open>kid\<close> and every fetch fails
  or returns a set with the same key for \<open>kid\<close>, each later call for \<open>kid\<close> returns that key, whatever
  other identifiers are asked for and however the clock moves.
\<close>

theorem jwks_known_key_served:
  assumes "kid \<noteq> []" and "jk_url s \<noteq> []" and "lookupLocked s kid = Some key"
    and "\<forall>c\<in>set cs. \<forall>keys. jwks_fetch decode (call_get c) (jk_url s) = Inr keys \<longrightarrow> map_of keys kid = Some key"
    and "c \<in> set cs" and "call_kid c = kid" and "cs = before @ c # after"
  shows "snd (jwks_PublicKey decode (call_get c) (call_now c) (foldl (do_call decode) (Some s) before) kid) = Inr key"
  using assms
proof (induction before arbitrary: s cs)
  case Nil
  then show ?case
    by (cases rule: PublicKey_cases [of s decode "call_get c" "call_now c" kid]) (auto simp: answer_def lookupLocked_def)
next
  case (Cons b before)
  obtain s' where s': "do_call decode (Some s) b = Some s'" by (rule do_call_same [OF refl])
  have "lookupLocked s' kid = Some key \<and> jk_url s' = jk_url s"
    using Cons.prems by (intro lookup_kept [OF _ _ _ s']) auto
  with Cons.IH [of s' "before @ c # after"] Cons.prems s' show ?case by simp
qed

theorem jwks_known_key_served_witness:
  "snd (jwks_PublicKey (\<lambda>_. Inr []) (call_get (example_down 7)) (call_now (example_down 7))
     (foldl (do_call (\<lambda>_. Inr []))
       (Some ((NewJWKSKeySource ''u'' [])\<lparr>jk_keys := [(''a'', \<lparr>rsa_N = 33, rsa_E = 3\<rparr>)]\<rparr>)) [example_down 5]) ''a'') =
   Inr \<lparr>rsa_N = 33, rsa_E = 3\<rparr>"
  by (rule jwks_known_key_served [where cs = "[example_down 5, example_down 7]" and after = "[]"])
    (auto simp: NewJWKSKeySource_def lookupLocked_def example_down_def jwks_fetch_def)

lemma decode_published: "decodeBase64URL (url_encode (big_bytes n) @ replicate p (CHR ''='')) = Some (big_bytes n)"
proof -
  have "CHR ''='' \<notin> set (url_encode (big_bytes n))" using url_encode_chars [of "CHR ''=''"] by blast
  then show ?thesis by (simp add: decodeBase64URL_def TrimRight_padding raw_url_decode_encode)
qed

text \<open>
  Published keys are read back.  A JWK that encodes a modulus and a public exponent in base64url, with or
  without padding, and does not contradict the use for RS256 signatures, is decoded to exactly that
  key, and every key that is accepted has an exponent between 1 and the largest 32-bit integer.
\<close>

theorem rsaPublicKey_published:
  "(0 < n \<and> 0 < e \<and> e < 2 ^ 31 \<and> jwk_Kty k = ''RSA'' \<and> jwk_Use k \<in> {[], ''sig''} \<and> jwk_Alg k \<in> {[], ''RS256''} \<and>
    jwk_N k = url_encode (big_bytes n) @ replicate p (CHR ''='') \<and>
    jwk_E k = url_encode (big_bytes e) @ replicate q (CHR ''='') \<longrightarrow>
    rsaPublicKey k = Some \<lparr>rsa_N = n, rsa_E = int e\<rparr>) \<and>
   (\<forall>key. rsaPublicKey k = Some key \<longrightarrow> jwk_Kty k = ''RSA'' \<and> 1 \<le> rsa_E key \<and> rsa_E key \<le> 2 ^ 31 - 1)"
  by (auto simp: rsaPublicKey_def decode_published set_bytes_big_bytes big_bytes_ne Let_def split: option.splits if_splits)

theorem rsaPublicKey_published_witness:
  "rsaPublicKey \<lparr>jwk_Kty = ''RSA'', jwk_Use = ''sig'', jwk_Alg = [], jwk_Kid = ''a'',
     jwk_N = url_encode (big_bytes 3233) @ ''=='', jwk_E = url_encode (big_bytes 65537)\<rparr> = Some \<lparr>rsa_N = 3233, rsa_E = 65537\<rparr> \<and>
   url_encode (big_bytes 65537) = ''AQAB''"
proof -
  have "url_encode (big_bytes 65537) = ''AQAB''"
    by (simp add: big_bytes.simps url_char_def url_alphabet_def Let_def)
  then show ?thesis
    using rsaPublicKey_published [of 3233 65537 "\<lparr>jwk_Kty = ''RSA'', jwk_Use = ''sig'', jwk_Alg = [], jwk_Kid = ''a'',
      jwk_N = url_encode (big_bytes 3233) @ ''=='', jwk_E = url_encode (big_bytes 65537)\<rparr>" "Suc (Suc 0)" 0]
    by simp
qed

text \<open>
  The timeout option changes the client it finds: given after \<open>WithJWKSHTTPClient\<close>, it sets the timeout of the
  caller's own client.
\<close>

theorem request_timeout_changes_given_client:
  "d > 0 \<Longrightarrow> jk_httpClient (NewJWKSKeySource url [WithJWKSHTTPClient (Some c), WithJWKSRequestTimeout d]) = c\<lparr>client_Timeout := d\<rparr>"
  by (simp add: NewJWKSKeySource_def)

end
