(* ===== verification/Jwt_Token.thy ===== *)
theory Jwt_Token
  imports Jwt_Keys Json_Maps
begin

text \<open>
  \<open>jwtutil/create.go\<close>, \<open>jwtutil/validate.go\<close> and \<open>jwtutil/userinfo.go\<close>: issuing a token, validating it with
  a key source, and reading the user of a token without validation.

  The JWT library is an argument: \<open>parse\<close> is \<open>jwt.ParseWithClaims\<close>, which calls the key function with the
  state of the key source, \<open>sign\<close> is \<open>SignedString\<close> and \<open>numericDate\<close> is \<open>jwt.NewNumericDate\<close>.  The locales
  \<open>jwt_parser\<close> and \<open>jwt_library\<close> state what the library documents: the order of its checks, which errors
  wrap which, the leeway of five seconds, the precision of dates.  They are interpreted on an executable
  implementation, \<open>ref_parse\<close> and \<open>ref_sign\<close>.
\<close>

section \<open>Model\<close>

record UserInfo =
  ui_Username :: string
  ui_Groups :: "string list"

record KrateoClaims =
  kc_UserInfo :: UserInfo
  kc_Issuer :: string
  kc_Subject :: string
  kc_ExpiresAt :: "instant option"
  kc_IssuedAt :: "instant option"
  kc_NotBefore :: "instant option"

datatype signing_method =
    SigningMethodRSA string
  | SigningMethodRSAPSS string
  | SigningMethodECDSA string
  | SigningMethodEd25519
  | SigningMethodHMAC string
  | SigningMethodNone

text \<open>The parsed header: the method and the value of \<open>kid\<close>, if there is one.\<close>

record jwt_token =
  tok_Method :: signing_method
  tok_kid :: "any option"

record 'p CreateTokenOptions =
  cto_Username :: string
  cto_Groups :: "string list"
  cto_Duration :: duration
  cto_KeyID :: string
  cto_PrivateKey :: "'p option"

definition krateo_claims :: "(instant \<Rightarrow> instant) \<Rightarrow> 'p CreateTokenOptions \<Rightarrow> instant \<Rightarrow> KrateoClaims" where
  "krateo_claims numericDate opts now =
     \<lparr>kc_UserInfo = \<lparr>ui_Username = cto_Username opts, ui_Groups = cto_Groups opts\<rparr>,
      kc_Issuer = ''krateo.io'', kc_Subject = cto_Username opts,
      kc_ExpiresAt = Some (numericDate (now + cto_Duration opts)),
      kc_IssuedAt = Some (numericDate now), kc_NotBefore = Some (numericDate now)\<rparr>"

definition CreateToken ::
  "(signing_method \<Rightarrow> string \<Rightarrow> KrateoClaims \<Rightarrow> 'p \<Rightarrow> jerr + string) \<Rightarrow> (instant \<Rightarrow> instant) \<Rightarrow>
   'p CreateTokenOptions \<Rightarrow> instant \<Rightarrow> jerr + string" where
  "CreateToken sign numericDate opts now =
     (case cto_PrivateKey opts of
        None \<Rightarrow> Inl (Errorf ''private key cannot be nil'')
      | Some key \<Rightarrow>
          if cto_KeyID opts = [] then Inl (Errorf ''key ID cannot be empty'')
          else if cto_Username opts = [] then Inl (Errorf ''username cannot be empty'')
          else sign (SigningMethodRSA ''RS256'') (cto_KeyID opts) (krateo_claims numericDate opts now) key)"

type_synonym 's keyfunc = "jwt_token \<Rightarrow> 's \<Rightarrow> 's \<times> (jerr + rsa_key)"

text \<open>The library returns the claims object; \<open>None\<close> stands for claims of another dynamic type.\<close>

type_synonym 's parse_with_claims =
  "string \<Rightarrow> 's keyfunc \<Rightarrow> duration \<Rightarrow> instant \<Rightarrow> 's \<Rightarrow> 's \<times> (jerr + KrateoClaims option)"

definition is_rsa :: "signing_method \<Rightarrow> bool" where
  "is_rsa m = (case m of SigningMethodRSA alg \<Rightarrow> True | _ \<Rightarrow> False)"

definition kid_of :: "jwt_token \<Rightarrow> string" where
  "kid_of tok = (case tok_kid tok of Some (AString kid) \<Rightarrow> kid | _ \<Rightarrow> [])"

definition validate_keyfunc :: "('s \<Rightarrow> string \<Rightarrow> 's \<times> (jerr + rsa_key)) \<Rightarrow> 's keyfunc" where
  "validate_keyfunc publicKey tok s =
     (if is_rsa (tok_Method tok) then publicKey s (kid_of tok)
      else (s, Inl (Errorf ''unexpected signing method'')))"

definition ValidateWithKeySource ::
  "'s parse_with_claims \<Rightarrow> ('s \<Rightarrow> string \<Rightarrow> 's \<times> (jerr + rsa_key)) option \<Rightarrow> instant \<Rightarrow> 's \<Rightarrow> string \<Rightarrow>
   's \<times> (jerr + UserInfo)" where
  "ValidateWithKeySource parse keys now s bearer =
     (case keys of
        None \<Rightarrow> (s, Inl (Errorf ''key source cannot be nil''))
      | Some publicKey \<Rightarrow>
          (case parse bearer (validate_keyfunc publicKey) (5 * 1000000000) now s of
             (s', Inl err) \<Rightarrow>
               (s', Inl (if errors_Is is_key_unavailable err then err
                         else if \<not> errors_Is is_expired err then ErrTokenInvalid
                         else ErrTokenExpired))
           | (s', Inr None) \<Rightarrow> (s', Inl ErrTokenInvalid)
           | (s', Inr (Some claims)) \<Rightarrow> (s', Inr (kc_UserInfo claims))))"

definition Validate ::
  "rsa_key option option parse_with_claims \<Rightarrow> rsa_key option \<Rightarrow> instant \<Rightarrow> string \<Rightarrow> jerr + UserInfo" where
  "Validate parse publicKey now bearer =
     (case publicKey of
        None \<Rightarrow> Inl (Errorf ''public key cannot be nil'')
      | Some key \<Rightarrow> snd (ValidateWithKeySource parse (Some static_PublicKey) now (Some (Some key)) bearer))"

text \<open>\<open>ExtractUserInfo\<close>; the JSON decoder yields the members of an object.\<close>

fun string_elements :: "any list \<Rightarrow> string list" where
  "string_elements [] = []"
| "string_elements (AString s # xs) = s # string_elements xs"
| "string_elements (_ # xs) = string_elements xs"

definition ExtractUserInfo :: "(string \<Rightarrow> jerr + obj) \<Rightarrow> string \<Rightarrow> jerr + UserInfo" where
  "ExtractUserInfo unmarshal token =
     (case Split token (CHR ''.'') of
        [header, payload, signature] \<Rightarrow>
          (case raw_url_decode payload of
             None \<Rightarrow> Inl (LibError ''failed to decode payload'' [])
           | Some payloadBytes \<Rightarrow>
               (case unmarshal payloadBytes of
                  Inl err \<Rightarrow> Inl (LibError ''invalid payload JSON'' [err])
                | Inr claims \<Rightarrow>
                    (case map_of claims ''sub'' of
                       Some (AString sub) \<Rightarrow>
                         Inr \<lparr>ui_Username = sub,
                              ui_Groups = (case map_of claims ''groups'' of
                                 Some (ASlice rawGroups) \<Rightarrow> string_elements rawGroups | _ \<Rightarrow> [])\<rparr>
                     | _ \<Rightarrow> Inl (Errorf ''subject (sub) claim not found''))))
      | _ \<Rightarrow> Inl (Errorf ''invalid JWT format''))"

section \<open>What the library documents\<close>

definition expired :: "duration \<Rightarrow> instant \<Rightarrow> KrateoClaims \<Rightarrow> bool" where
  "expired leeway now c = (case kc_ExpiresAt c of None \<Rightarrow> False | Some x \<Rightarrow> \<not> now < x + leeway)"

definition too_early :: "duration \<Rightarrow> instant \<Rightarrow> KrateoClaims \<Rightarrow> bool" where
  "too_early leeway now c = (case kc_NotBefore c of None \<Rightarrow> False | Some x \<Rightarrow> now < x - leeway)"

definition token_fault :: "jerr \<Rightarrow> bool" where
  "token_fault e = (\<not> errors_Is is_key_unavailable e \<and> \<not> errors_Is is_expired e)"

locale jwt_parser =
  fixes parse :: "'s parse_with_claims"
    and decoded :: "string \<Rightarrow> (jwt_token \<times> KrateoClaims) option"
    and verifies :: "string \<Rightarrow> rsa_key \<Rightarrow> bool"
  assumes malformed: "decoded b = None \<Longrightarrow> \<exists>e. parse b kf leeway now s = (s, Inl e) \<and> token_fault e"
    and no_key: "decoded b = Some (tok, c) \<Longrightarrow> kf tok s = (s', Inl e) \<Longrightarrow>
      \<exists>e'. parse b kf leeway now s = (s', Inl e') \<and>
        errors_Is is_key_unavailable e' = errors_Is is_key_unavailable e \<and>
        errors_Is is_expired e' = errors_Is is_expired e"
    and bad_signature: "decoded b = Some (tok, c) \<Longrightarrow> kf tok s = (s', Inr k) \<Longrightarrow> \<not> verifies b k \<Longrightarrow>
      \<exists>e. parse b kf leeway now s = (s', Inl e) \<and> token_fault e"
    and bad_claims: "decoded b = Some (tok, c) \<Longrightarrow> kf tok s = (s', Inr k) \<Longrightarrow> verifies b k \<Longrightarrow>
      expired leeway now c \<or> too_early leeway now c \<Longrightarrow>
      \<exists>e. parse b kf leeway now s = (s', Inl e) \<and> \<not> errors_Is is_key_unavailable e \<and>
        errors_Is is_expired e = expired leeway now c"
    and accepted: "decoded b = Some (tok, c) \<Longrightarrow> kf tok s = (s', Inr k) \<Longrightarrow> verifies b k \<Longrightarrow>
      \<not> expired leeway now c \<Longrightarrow> \<not> too_early leeway now c \<Longrightarrow>
      parse b kf leeway now s = (s', Inr (Some c))"

locale jwt_library = jwt_parser +
  fixes sign :: "signing_method \<Rightarrow> string \<Rightarrow> KrateoClaims \<Rightarrow> 'p \<Rightarrow> jerr + string"
    and publicOf :: "'p \<Rightarrow> rsa_key"
    and encodable :: "KrateoClaims \<Rightarrow> bool"
    and numericDate :: "instant \<Rightarrow> instant"
  assumes decode_signed: "sign m kid c p = Inr b \<Longrightarrow> encodable c \<Longrightarrow>
      decoded b = Some (\<lparr>tok_Method = m, tok_kid = Some (AString kid)\<rparr>, c)"
    and verify_signed: "sign m kid c p = Inr b \<Longrightarrow> verifies b (publicOf p)"
    and date_precision: "numericDate t \<le> t" "t - 1000000000 < numericDate t"

section \<open>Validation against its specification\<close>

text \<open>What a caller learns: who the user is, or whose fault it is that nobody can be named.\<close>

datatype validity = Accepted UserInfo | TokenExpired | TokenInvalid | Unavailable | Misuse

definition outcome_of :: "jerr + UserInfo \<Rightarrow> validity" where
  "outcome_of r =
     (case r of
        Inr u \<Rightarrow> Accepted u
      | Inl e \<Rightarrow> if errors_Is is_key_unavailable e then Unavailable
                 else if e = ErrTokenExpired then TokenExpired
                 else if e = ErrTokenInvalid then TokenInvalid
                 else Misuse)"

text \<open>Validation when the tokens of the given signing methods are considered.\<close>

definition token_validation ::
  "(signing_method \<Rightarrow> bool) \<Rightarrow> (string \<Rightarrow> (jwt_token \<times> KrateoClaims) option) \<Rightarrow> (string \<Rightarrow> rsa_key \<Rightarrow> bool) \<Rightarrow>
   ('s \<Rightarrow> string \<Rightarrow> 's \<times> (jerr + rsa_key)) \<Rightarrow> instant \<Rightarrow> 's \<Rightarrow> string \<Rightarrow> 's \<times> validity" where
  "token_validation considered decoded verifies publicKey now s b =
     (case decoded b of
        None \<Rightarrow> (s, TokenInvalid)
      | Some (tok, c) \<Rightarrow>
          if \<not> considered (tok_Method tok) then (s, TokenInvalid)
          else (case publicKey s (kid_of tok) of
                  (s', Inl e) \<Rightarrow> (s', Unavailable)
                | (s', Inr k) \<Rightarrow>
                    (s', if \<not> verifies b k then TokenInvalid
                         else if expired (5 * 1000000000) now c then TokenExpired
                         else if too_early (5 * 1000000000) now c then TokenInvalid
                         else Accepted (kc_UserInfo c))))"

text \<open>The documentation of \<open>Validate\<close>: RS256 only, a token with any other algorithm is rejected before the key is consulted.\<close>

definition validation_spec ::
  "(string \<Rightarrow> (jwt_token \<times> KrateoClaims) option) \<Rightarrow> (string \<Rightarrow> rsa_key \<Rightarrow> bool) \<Rightarrow>
   ('s \<Rightarrow> string \<Rightarrow> 's \<times> (jerr + rsa_key)) \<Rightarrow> instant \<Rightarrow> 's \<Rightarrow> string \<Rightarrow> 's \<times> validity" where
  "validation_spec = token_validation (\<lambda>m. m = SigningMethodRSA ''RS256'')"

text \<open>A token of an RSA method other than RS256, that is of RS384 or RS512.\<close>

definition other_rsa :: "(string \<Rightarrow> (jwt_token \<times> KrateoClaims) option) \<Rightarrow> string \<Rightarrow> bool" where
  "other_rsa decoded b =
     (case decoded b of
        None \<Rightarrow> False
      | Some (tok, c) \<Rightarrow> (case tok_Method tok of SigningMethodRSA alg \<Rightarrow> alg \<noteq> ''RS256'' | _ \<Rightarrow> False))"

lemma token_validation_documented:
  "\<not> other_rsa decoded b \<Longrightarrow> token_validation is_rsa decoded verifies pk now s b = validation_spec decoded verifies pk now s b"
  by (auto simp: token_validation_def validation_spec_def other_rsa_def is_rsa_def split: option.splits signing_method.splits)

lemma outcome_simps [simp]:
  "outcome_of (Inr u) = Accepted u" "outcome_of (Inl ErrTokenExpired) = TokenExpired"
  "outcome_of (Inl ErrTokenInvalid) = TokenInvalid"
  "errors_Is is_key_unavailable e \<Longrightarrow> outcome_of (Inl e) = Unavailable"
  by (simp_all add: outcome_of_def)

lemma validate_parse_error:
  assumes "parse b (validate_keyfunc pk) (5 * 1000000000) now s = (s', Inl e)"
  shows "apsnd outcome_of (ValidateWithKeySource parse (Some pk) now s b) =
    (s', if errors_Is is_key_unavailable e then Unavailable
         else if errors_Is is_expired e then TokenExpired else TokenInvalid)"
  using assms by (simp add: ValidateWithKeySource_def)

lemma validate_parse_ok:
  assumes "parse b (validate_keyfunc pk) (5 * 1000000000) now s = (s', Inr (Some c))"
  shows "ValidateWithKeySource parse (Some pk) now s b = (s', Inr (kc_UserInfo c))"
  using assms by (simp add: ValidateWithKeySource_def)

context jwt_parser
begin

lemma validate_keyed:
  assumes dec: "decoded b = Some (tok, c)" and kf: "validate_keyfunc pk tok s = (s', Inr k)"
  shows "apsnd outcome_of (ValidateWithKeySource parse (Some pk) now s b) =
    (s', if \<not> verifies b k then TokenInvalid
         else if expired (5 * 1000000000) now c then TokenExpired
         else if too_early (5 * 1000000000) now c then TokenInvalid
         else Accepted (kc_UserInfo c))"
proof (cases "verifies b k \<and> (expired (5 * 1000000000) now c \<or> too_early (5 * 1000000000) now c)")
  case True
  then obtain e where "parse b (validate_keyfunc pk) (5 * 1000000000) now s = (s', Inl e)"
    "\<not> errors_Is is_key_unavailable e" "errors_Is is_expired e = expired (5 * 1000000000) now c"
    using bad_claims [where kf = "validate_keyfunc pk", OF dec kf] by blast
  with True show ?thesis by (auto simp: validate_parse_error)
next
  case False
  show ?thesis
  proof (cases "verifies b k")
    case True
    with False accepted [where kf = "validate_keyfunc pk", OF dec kf] show ?thesis by (simp add: validate_parse_ok)
  next
    case bad: False
    then obtain e where "parse b (validate_keyfunc pk) (5 * 1000000000) now s = (s', Inl e)" "token_fault e"
      using bad_signature [where kf = "validate_keyfunc pk", OF dec kf] by blast
    with bad show ?thesis by (simp add: validate_parse_error token_fault_def)
  qed
qed

lemma validate_keyless:
  assumes dec: "decoded b = Some (tok, c)" and kf: "validate_keyfunc pk tok s = (s', Inl e)"
  shows "apsnd outcome_of (ValidateWithKeySource parse (Some pk) now s b) =
    (s', if errors_Is is_key_unavailable e then Unavailable
         else if errors_Is is_expired e then TokenExpired else TokenInvalid)"
proof -
  obtain e' where "parse b (validate_keyfunc pk) (5 * 1000000000) now s = (s', Inl e')"
    "errors_Is is_key_unavailable e' = errors_Is is_key_unavailable e"
    "errors_Is is_expired e' = errors_Is is_expired e"
    using no_key [where kf = "validate_keyfunc pk", OF dec kf] by blast
  then show ?thesis by (simp add: validate_parse_error)
qed

lemma validate_malformed:
  assumes "decoded b = None"
  shows "apsnd outcome_of (ValidateWithKeySource parse (Some pk) now s b) = (s, TokenInvalid)"
proof -
  obtain e where "parse b (validate_keyfunc pk) (5 * 1000000000) now s = (s, Inl e)" "token_fault e"
    using malformed [OF assms] by blast
  then show ?thesis by (simp add: validate_parse_error token_fault_def)
qed

end

lemma validate_outcome:
  assumes "jwt_parser parse decoded verifies" and "key_source pk"
  shows "apsnd outcome_of (ValidateWithKeySource parse (Some pk) now s b) =
    token_validation is_rsa decoded verifies pk now s b"
proof (cases "decoded b")
  case None
  then show ?thesis by (simp add: token_validation_def jwt_parser.validate_malformed [OF assms(1)])
next
  case (Some tc)
  obtain tok c where tc: "tc = (tok, c)" by (cases tc)
  show ?thesis
  proof (cases "is_rsa (tok_Method tok)")
    case False
    then have "validate_keyfunc pk tok s = (s, Inl (Errorf ''unexpected signing method''))"
      by (simp add: validate_keyfunc_def)
    from jwt_parser.validate_keyless [OF assms(1) Some [unfolded tc] this] Some False tc show ?thesis
      by (simp add: token_validation_def is_expired_def)
  next
    case True
    obtain s' r where pk: "pk s (kid_of tok) = (s', r)" by (metis surj_pair)
    with True have kf: "validate_keyfunc pk tok s = (s', r)" by (simp add: validate_keyfunc_def)
    show ?thesis
    proof (cases r)
      case (Inl e)
      moreover have "errors_Is is_key_unavailable e"
        using key_source.failure_is [OF assms(2), of s "kid_of tok" e] pk Inl by simp
      ultimately show ?thesis
        using jwt_parser.validate_keyless [OF assms(1) Some [unfolded tc], of pk s s' e] kf Some tc True pk
        by (simp add: token_validation_def)
    next
      case (Inr k)
      with jwt_parser.validate_keyed [OF assms(1) Some [unfolded tc], of pk s s' k] kf Some tc True pk show ?thesis
        by (simp add: token_validation_def)
    qed
  qed
qed

text \<open>
  C8: validation decides exactly as documented, for every token that is not of another RSA method than RS256.  With any
  JWT library that keeps its documentation and any key source that reports its failures as such: a token is accepted
  only if it decodes, names RS256, its key was resolved for the \<open>kid\<close> of its header, its signature verifies
  and it is in time with five seconds of leeway; a key that cannot be resolved is reported as unavailable and
  never as an invalid token; a token with another method is rejected without asking the key source.  Tokens of RS384 and
  RS512 are left out, because the code takes them where the documentation rejects them (\<open>other_rsa_accepted\<close>).
\<close>

theorem validate_refines_spec:
  assumes "jwt_parser parse decoded verifies" and "key_source pk" and "\<not> other_rsa decoded b"
  shows "apsnd outcome_of (ValidateWithKeySource parse (Some pk) now s b) =
    validation_spec decoded verifies pk now s b"
  using validate_outcome [OF assms(1,2)] token_validation_documented [OF assms(3)] by simp

text \<open>
  A token of RS384 or RS512 with a good signature and in time is accepted, although the documentation says that every
  algorithm but RS256 is rejected.
\<close>

theorem other_rsa_accepted:
  assumes "jwt_parser parse decoded verifies" and "key_source pk" and "decoded b = Some (tok, c)" and "other_rsa decoded b"
    and "pk s (kid_of tok) = (s', Inr k)" and "verifies b k"
    and "\<not> expired (5 * 1000000000) now c" and "\<not> too_early (5 * 1000000000) now c"
  shows "snd (ValidateWithKeySource parse (Some pk) now s b) = Inr (kc_UserInfo c) \<and>
    snd (validation_spec decoded verifies pk now s b) = TokenInvalid"
proof
  obtain alg where alg: "tok_Method tok = SigningMethodRSA alg" "alg \<noteq> ''RS256''"
    using assms(3,4) by (auto simp: other_rsa_def split: signing_method.splits)
  have "outcome_of (snd (ValidateWithKeySource parse (Some pk) now s b)) = Accepted (kc_UserInfo c)"
    using arg_cong [OF validate_outcome [OF assms(1,2), of now s b], of snd] assms alg by (simp add: token_validation_def is_rsa_def)
  then show "snd (ValidateWithKeySource parse (Some pk) now s b) = Inr (kc_UserInfo c)"
    by (auto simp: outcome_of_def split: sum.splits if_splits)
  show "snd (validation_spec decoded verifies pk now s b) = TokenInvalid"
    using assms(3) alg by (simp add: validation_spec_def token_validation_def)
qed

section \<open>A reference implementation of the library\<close>

text \<open>
  Tokens are sequences of length-prefixed fields; the signature is the key itself.  This carries no
  security, it shows that the laws can hold together and lets examples be evaluated.
\<close>

definition put_field :: "string \<Rightarrow> string" where
  "put_field x = replicate (length x) CHR ''1'' @ CHR ''0'' # x"

fun get_fields :: "string \<Rightarrow> string list" where
  "get_fields t =
     (if t = [] then []
      else let n = length (takeWhile (\<lambda>c. c = CHR ''1'') t)
           in take n (drop (Suc n) t) # get_fields (drop (Suc (n + n)) t))"

declare get_fields.simps [simp del]

lemma takeWhile_replicate: "takeWhile (\<lambda>c. c = CHR ''1'') (replicate n CHR ''1'' @ CHR ''0'' # r) = replicate n CHR ''1''"
  by (induction n) simp_all

lemma get_fields_put: "get_fields (put_field x @ rest) = x # get_fields rest"
  by (subst get_fields.simps) (simp add: put_field_def takeWhile_replicate)

lemma get_fields_all: "get_fields (concat (map put_field xs)) = xs"
  by (induction xs) (simp_all add: get_fields_put, simp add: get_fields.simps)

definition read_int :: "string \<Rightarrow> int" where
  "read_int s = (case s of
     [] \<Rightarrow> 0
   | c # ds \<Rightarrow> if c = CHR ''-'' then - int (the (read_digits ds)) else int (the (read_digits s)))"

lemma read_int_Itoa: "read_int (Itoa i) = i"
proof (cases "i < 0")
  case True
  then show ?thesis by (simp add: Itoa_def read_int_def read_digits_show_nat)
next
  case False
  obtain c cs where sn: "show_nat (nat i) = c # cs" by (meson neq_Nil_conv show_nat_ne)
  then have "c \<noteq> CHR ''-''" using digit_not_punct [OF show_nat_hd [OF sn]] by auto
  with False sn read_digits_show_nat [of "nat i"] show ?thesis by (simp add: Itoa_def read_int_def)
qed

lemma Itoa_ne [simp]: "Itoa i \<noteq> []"
  by (simp add: Itoa_def)

definition put_date :: "instant option \<Rightarrow> string" where
  "put_date d = (case d of None \<Rightarrow> [] | Some t \<Rightarrow> Itoa t)"

definition get_date :: "string \<Rightarrow> instant option" where
  "get_date s = (if s = [] then None else Some (read_int s))"

lemma get_date_put [simp]: "get_date (put_date d) = d"
  by (cases d) (simp_all add: get_date_def put_date_def read_int_Itoa)

definition ref_sign :: "signing_method \<Rightarrow> string \<Rightarrow> KrateoClaims \<Rightarrow> rsa_key \<Rightarrow> jerr + string" where
  "ref_sign m kid c p =
     (case m of
        SigningMethodRSA alg \<Rightarrow>
          Inr (concat (map put_field ([alg, kid, Itoa (int (rsa_N p)), Itoa (rsa_E p), kc_Issuer c, kc_Subject c,
            put_date (kc_ExpiresAt c), put_date (kc_IssuedAt c), put_date (kc_NotBefore c),
            ui_Username (kc_UserInfo c)] @ ui_Groups (kc_UserInfo c))))
      | _ \<Rightarrow> Inl (LibError ''key type'' []))"

definition ref_decoded :: "string \<Rightarrow> (jwt_token \<times> KrateoClaims) option" where
  "ref_decoded b =
     (case get_fields b of
        alg # kid # n # e # iss # sub # expiry # iat # nbf # user # groups \<Rightarrow>
          Some (\<lparr>tok_Method = SigningMethodRSA alg, tok_kid = Some (AString kid)\<rparr>,
                \<lparr>kc_UserInfo = \<lparr>ui_Username = user, ui_Groups = groups\<rparr>, kc_Issuer = iss, kc_Subject = sub,
                 kc_ExpiresAt = get_date expiry, kc_IssuedAt = get_date iat, kc_NotBefore = get_date nbf\<rparr>)
      | _ \<Rightarrow> None)"

definition ref_verifies :: "string \<Rightarrow> rsa_key \<Rightarrow> bool" where
  "ref_verifies b k = (case get_fields b of _ # _ # n # e # _ \<Rightarrow> k = \<lparr>rsa_N = nat (read_int n), rsa_E = read_int e\<rparr> | _ \<Rightarrow> False)"

definition ref_parse :: "'s parse_with_claims" where
  "ref_parse b kf leeway now s =
     (case ref_decoded b of
        None \<Rightarrow> (s, Inl (LibError ''malformed'' []))
      | Some (tok, c) \<Rightarrow>
          (case kf tok s of
             (s', Inl e) \<Rightarrow> (s', Inl (LibError ''unverifiable'' [e]))
           | (s', Inr k) \<Rightarrow>
               (s', if \<not> ref_verifies b k then Inl (LibError ''signature'' [])
                    else if expired leeway now c \<or> too_early leeway now c
                    then Inl (LibError ''claims'' (if expired leeway now c then [LibExpired] else []))
                    else Inr (Some c))))"

definition ref_date :: "instant \<Rightarrow> instant" where
  "ref_date t = t - t mod 1000000000"

lemma ref_decode_signed:
  "ref_sign m kid c p = Inr b \<Longrightarrow> ref_decoded b = Some (\<lparr>tok_Method = m, tok_kid = Some (AString kid)\<rparr>, c)"
  by (cases m) (auto simp: ref_sign_def ref_decoded_def get_fields_all [simplified] get_fields_put)

interpretation ref: jwt_library "ref_parse :: 's parse_with_claims" ref_decoded ref_verifies ref_sign "\<lambda>p. p" "\<lambda>c. True" ref_date
proof
  show "ref_sign m kid c p = Inr b \<Longrightarrow> ref_decoded b = Some (\<lparr>tok_Method = m, tok_kid = Some (AString kid)\<rparr>, c)"
    for m kid c p b by (rule ref_decode_signed)
  show "ref_sign m kid c p = Inr b \<Longrightarrow> ref_verifies b p" for m kid c p b
    by (cases m) (auto simp: ref_sign_def ref_verifies_def get_fields_put read_int_Itoa)
  show "t - 1000000000 < ref_date t" for t
    using pos_mod_bound [of 1000000000 t] by (simp add: ref_date_def)
qed (auto simp: ref_parse_def token_fault_def is_expired_def ref_date_def)

section \<open>Issued tokens validate\<close>

context jwt_library
begin

lemma created_token:
  assumes "CreateToken sign numericDate opts t0 = Inr b" and "encodable (krateo_claims numericDate opts t0)"
  obtains p where "cto_PrivateKey opts = Some p" "cto_KeyID opts \<noteq> []" "verifies b (publicOf p)"
    "decoded b = Some (\<lparr>tok_Method = SigningMethodRSA ''RS256'', tok_kid = Some (AString (cto_KeyID opts))\<rparr>,
       krateo_claims numericDate opts t0)"
  using assms decode_signed verify_signed
  by (auto simp: CreateToken_def split: option.splits if_splits)

lemma created_expired:
  "now \<ge> t0 + cto_Duration opts + 5000000000 \<Longrightarrow> expired 5000000000 now (krateo_claims numericDate opts t0)"
  using date_precision(1) [of "t0 + cto_Duration opts"] by (simp add: expired_def krateo_claims_def)

lemma created_in_time:
  "t0 - 5000000000 \<le> now \<Longrightarrow> now \<le> t0 + cto_Duration opts + 4000000000 \<Longrightarrow>
   \<not> expired 5000000000 now (krateo_claims numericDate opts t0) \<and> \<not> too_early 5000000000 now (krateo_claims numericDate opts t0)"
  using date_precision(2) [of "t0 + cto_Duration opts"] date_precision(1) [of t0]
  by (simp add: expired_def too_early_def krateo_claims_def)

lemma created_validates:
  assumes "CreateToken sign numericDate opts t0 = Inr b" and "encodable (krateo_claims numericDate opts t0)"
    and "cto_PrivateKey opts = Some p" and "pk s (cto_KeyID opts) = (s', Inr (publicOf p))"
  shows "apsnd outcome_of (ValidateWithKeySource parse (Some pk) now s b) =
    (s', if expired 5000000000 now (krateo_claims numericDate opts t0) then TokenExpired
         else if too_early 5000000000 now (krateo_claims numericDate opts t0) then TokenInvalid
         else Accepted \<lparr>ui_Username = cto_Username opts, ui_Groups = cto_Groups opts\<rparr>)"
proof -
  obtain p' where p': "cto_PrivateKey opts = Some p'" "verifies b (publicOf p')"
    and dec: "decoded b = Some (\<lparr>tok_Method = SigningMethodRSA ''RS256'', tok_kid = Some (AString (cto_KeyID opts))\<rparr>,
       krateo_claims numericDate opts t0)"
    using created_token [OF assms(1,2)] by blast
  have "validate_keyfunc pk \<lparr>tok_Method = SigningMethodRSA ''RS256'', tok_kid = Some (AString (cto_KeyID opts))\<rparr> s =
      (s', Inr (publicOf p))"
    by (simp add: validate_keyfunc_def is_rsa_def kid_of_def assms(4))
  from validate_keyed [OF dec this] p' assms(3) show ?thesis by (simp add: krateo_claims_def)
qed

end

text \<open>
  C22: an issued token identifies its user.  A token made by \<open>CreateToken\<close> at time \<open>t0\<close> with a lifetime \<open>d\<close>,
  validated with a key source that resolves its key identifier to the public half of the signing key, gives
  exactly the user and the groups it was issued for, from five seconds before \<open>t0\<close> until four
  seconds after its lifetime; five seconds after its lifetime it is expired.  The second of
  difference is the precision of the dates in a token.
\<close>

theorem issued_token_validates:
  assumes "jwt_library parse decoded verifies sign publicOf encodable numericDate"
    and "CreateToken sign numericDate opts t0 = Inr b" and "encodable (krateo_claims numericDate opts t0)"
    and "cto_PrivateKey opts = Some p" and "pk s (cto_KeyID opts) = (s', Inr (publicOf p))"
  shows "(t0 - 5000000000 \<le> now \<and> now \<le> t0 + cto_Duration opts + 4000000000 \<longrightarrow>
      ValidateWithKeySource parse (Some pk) now s b =
        (s', Inr \<lparr>ui_Username = cto_Username opts, ui_Groups = cto_Groups opts\<rparr>)) \<and>
    (now \<ge> t0 + cto_Duration opts + 5000000000 \<longrightarrow>
      ValidateWithKeySource parse (Some pk) now s b = (s', Inl ErrTokenExpired))"
proof -
  let ?v = "ValidateWithKeySource parse (Some pk) now s b"
  note v = jwt_library.created_validates [where pk = pk, OF assms, of now]
  have acc: "apsnd outcome_of ?v = (s', Accepted u) \<Longrightarrow> ?v = (s', Inr u)" for u
    by (cases ?v) (auto simp: outcome_of_def split: sum.splits if_splits)
  have exp: "apsnd outcome_of ?v = (s', TokenExpired) \<Longrightarrow> ?v = (s', Inl ErrTokenExpired)"
    by (cases ?v) (auto simp: outcome_of_def split: sum.splits if_splits)
  show ?thesis
    using acc exp v jwt_library.created_in_time [OF assms(1), of t0 now opts]
      jwt_library.created_expired [OF assms(1), of t0 opts now] by (intro conjI impI) simp_all
qed

definition example_options :: "rsa_key CreateTokenOptions" where
  "example_options = \<lparr>cto_Username = ''u'', cto_Groups = [''g''], cto_Duration = 3600000000000, cto_KeyID = ''a'',
     cto_PrivateKey = Some \<lparr>rsa_N = 33, rsa_E = 3\<rparr>\<rparr>"

definition example_token :: string where
  "example_token = projr (CreateToken ref_sign ref_date example_options 7500000000)"

lemma example_created: "CreateToken ref_sign ref_date example_options 7500000000 = Inr example_token"
  by (simp add: example_token_def CreateToken_def example_options_def ref_sign_def)

theorem issued_token_validates_witness:
  "snd (ValidateWithKeySource ref_parse (Some static_PublicKey) 3610000000000 (Some (Some \<lparr>rsa_N = 33, rsa_E = 3\<rparr>)) example_token) =
     Inr \<lparr>ui_Username = ''u'', ui_Groups = [''g'']\<rparr> \<and>
   snd (ValidateWithKeySource ref_parse (Some static_PublicKey) 3613000000000 (Some (Some \<lparr>rsa_N = 33, rsa_E = 3\<rparr>)) example_token) =
     Inl ErrTokenExpired"
proof -
  let ?s = "Some (Some \<lparr>rsa_N = 33, rsa_E = 3\<rparr>)"
  have key: "static_PublicKey ?s (cto_KeyID example_options) = (?s, Inr \<lparr>rsa_N = 33, rsa_E = 3\<rparr>)"
    and priv: "cto_PrivateKey example_options = Some \<lparr>rsa_N = 33, rsa_E = 3\<rparr>"
    by (simp_all add: static_PublicKey_def example_options_def)
  note t = issued_token_validates [where pk = static_PublicKey, OF ref.jwt_library_axioms example_created TrueI priv key]
  show ?thesis
    using t [of 3610000000000] t [of 3613000000000] by (simp add: example_options_def)
qed

theorem validate_refines_spec_witness:
  "snd (ValidateWithKeySource ref_parse (Some (jwks_PublicKey (\<lambda>_. Inr []) (\<lambda>_. Inl (Errorf ''refused'')) (\<lambda>_. 5)))
     9000000000 (Some (NewJWKSKeySource ''u'' [])) example_token) \<noteq> Inl ErrTokenInvalid"
proof -
  let ?pk = "jwks_PublicKey (\<lambda>_. Inr []) (\<lambda>_. Inl (Errorf ''refused'')) (\<lambda>_. 5)" and ?s = "Some (NewJWKSKeySource ''u'' [])"
  have dec: "ref_decoded example_token =
      Some (\<lparr>tok_Method = SigningMethodRSA ''RS256'', tok_kid = Some (AString ''a'')\<rparr>,
            krateo_claims ref_date example_options 7500000000)"
    using ref.created_token [OF example_created] by (auto simp: example_options_def)
  have "snd (?pk ?s ''a'') = Inl (KeyUnavailable (FetchFailed ''u'') [Errorf ''refused''])"
    by (simp add: NewJWKSKeySource_def jwks_PublicKey_def lookupLocked_def may_refresh_def refreshLocked_def jwks_fetch_def Let_def)
  then obtain s' where "?pk ?s ''a'' = (s', Inl (KeyUnavailable (FetchFailed ''u'') [Errorf ''refused'']))"
    by (metis prod.collapse)
  then have "snd (validation_spec ref_decoded ref_verifies ?pk 9000000000 ?s example_token) = Unavailable"
    by (simp add: validation_spec_def token_validation_def dec kid_of_def)
  moreover have "\<not> other_rsa ref_decoded example_token" by (simp add: other_rsa_def dec)
  ultimately have "outcome_of (snd (ValidateWithKeySource ref_parse (Some ?pk) 9000000000 ?s example_token)) = Unavailable"
    using validate_refines_spec [where pk = ?pk and now = 9000000000 and s = ?s and b = example_token,
      OF ref.jwt_parser_axioms jwks.key_source_axioms]
    by (metis snd_apsnd)
  then show ?thesis by auto
qed

text \<open>A token of RS384 in the reference implementation.\<close>

theorem other_rsa_accepted_witness:
  "\<exists>b. snd (ValidateWithKeySource ref_parse (Some static_PublicKey) 9000000000 (Some (Some \<lparr>rsa_N = 33, rsa_E = 3\<rparr>)) b) =
     Inr \<lparr>ui_Username = ''u'', ui_Groups = [''g'']\<rparr>"
proof -
  let ?c = "krateo_claims ref_date example_options 7500000000" and ?k = "\<lparr>rsa_N = 33, rsa_E = 3\<rparr>"
  obtain b where b: "ref_sign (SigningMethodRSA ''RS384'') ''a'' ?c ?k = Inr b" by (simp add: ref_sign_def)
  have dec: "ref_decoded b = Some (\<lparr>tok_Method = SigningMethodRSA ''RS384'', tok_kid = Some (AString ''a'')\<rparr>, ?c)"
    using ref_decode_signed [OF b] by simp
  have "static_PublicKey (Some (Some ?k)) (kid_of \<lparr>tok_Method = SigningMethodRSA ''RS384'', tok_kid = Some (AString ''a'')\<rparr>) =
      (Some (Some ?k), Inr ?k)" by (simp add: static_PublicKey_def)
  moreover have "ref_verifies b ?k" using ref.verify_signed [OF b] by simp
  moreover have "\<not> expired (5 * 1000000000) 9000000000 ?c" "\<not> too_early (5 * 1000000000) 9000000000 ?c"
    by (simp_all add: expired_def too_early_def krateo_claims_def example_options_def ref_date_def)
  moreover have "other_rsa ref_decoded b" by (simp add: other_rsa_def dec)
  ultimately have "snd (ValidateWithKeySource ref_parse (Some static_PublicKey) 9000000000 (Some (Some ?k)) b) = Inr (kc_UserInfo ?c)"
    using other_rsa_accepted [where pk = static_PublicKey, OF ref.jwt_parser_axioms static.key_source_axioms dec] by blast
  then show ?thesis by (auto simp: krateo_claims_def example_options_def)
qed

end
