(* ===== verification/Short_Id.thy ===== *)
theory Short_Id
  imports Go_Prelude "HOL-Library.Word" "HOL-Library.Multiset"
begin

unbundle bit_operations_syntax

text \<open>
  \<open>shortid/shortid.go\<close>: short identifiers from a millisecond, a worker number and a counter.

  Go's \<open>uint\<close> and \<open>uint64\<close> are 64-bit words, so that the counter, the seed and the conversion of a
  negative time difference wrap as they do in the program.  The type of runes is a parameter.  The
  random bytes of a call are arguments.  \<open>log2u\<close> is the truncated \<open>math.Log2\<close> of a positive integer, a
  floating point computation; what is used of it is that it is exact below \<open>2 ^ 48\<close>, where the rounding
  of the logarithm cannot reach the next integer.

  Shown: shuffling permutes the alphabet, encoding can be undone whatever the random bits, identifiers
  are generated without error for more than 34 years and are pairwise different as long as the clock
  does not go back; and what happens when it does.
\<close>

section \<open>Alphabet\<close>

type_synonym uint = "64 word"

definition next_seed :: "uint \<Rightarrow> uint" where
  "next_seed seed = (seed * 9301 + 49297) mod 233280"

text \<open>
  \<open>shuffle\<close>: the alphabet drawn from \<open>source\<close>.  An index out of range would be a run-time panic; the branch is
  not reached for alphabets of any practical size (\<open>shuffle_index\<close>).
\<close>

function shuffle_from :: "'r list \<Rightarrow> uint \<Rightarrow> 'r list" where
  "shuffle_from source seed =
     (if length source > 1
      then let seed' = next_seed seed;
               i = unat (seed' * of_nat (length source) div 233280)
           in if i < length source
              then source ! i # shuffle_from (take i source @ drop (Suc i) source) seed'
              else []
      else [source ! 0])"
  by pat_completeness auto
termination
  by (relation "measure (\<lambda>(source, seed). length source)") auto

declare shuffle_from.simps [simp del]

definition DefaultABC :: string where
  "DefaultABC = ''0123456789abcdefghijklmnopqrstuvwxyzABCDEFGHIJKLMNOPQRSTUVWXYZ_-''"

definition nonUnique :: "'r list \<Rightarrow> bool" where
  "nonUnique runes = (card (set runes) < length runes)"

datatype abc_error = WrongLength | NotUnique | WorkerRange | DigitsRange uint | TooSmall uint uint

definition NewAbc :: "'r list \<Rightarrow> uint \<Rightarrow> abc_error + 'r list" where
  "NewAbc runes seed =
     (if length runes \<noteq> length DefaultABC then Inl WrongLength
      else if nonUnique runes then Inl NotUnique
      else Inr (shuffle_from runes seed))"

section \<open>Encoding\<close>

text \<open>The random bytes of a call are a function of their position; the fallback source is masked alike.\<close>

definition maskedRandomInts :: "(nat \<Rightarrow> nat) \<Rightarrow> nat \<Rightarrow> nat \<Rightarrow> nat list" where
  "maskedRandomInts bytes n m = map (\<lambda>i. bytes i AND m) [0..<n]"

definition computed_size :: "(nat \<Rightarrow> nat) \<Rightarrow> uint \<Rightarrow> uint \<Rightarrow> uint" where
  "computed_size log2u val digits = (if val \<ge> 1 then of_nat (log2u (unat val)) div digits + 1 else 1)"

definition symbol_index :: "uint \<Rightarrow> nat \<Rightarrow> nat \<Rightarrow> nat \<Rightarrow> nat" where
  "symbol_index val digits r i = (unat (drop_bit (digits * i) val) AND (2 ^ digits - 1)) OR r"

definition abc_Encode ::
  "(nat \<Rightarrow> nat) \<Rightarrow> (nat \<Rightarrow> nat) \<Rightarrow> 'r list \<Rightarrow> uint \<Rightarrow> uint \<Rightarrow> uint \<Rightarrow> abc_error + 'r list" where
  "abc_Encode log2u bytes alphabet val nsymbols digits =
     (if digits < 4 \<or> 6 < digits then Inl (DigitsRange digits)
      else let computedSize = computed_size log2u val digits;
               n = (if nsymbols = 0 then computedSize else nsymbols)
           in if nsymbols \<noteq> 0 \<and> nsymbols < computedSize then Inl (TooSmall computedSize nsymbols)
              else let sz = unat n; d = unat digits; m = 2 ^ d - 1 :: nat;
                       random = (if digits < 6 then maskedRandomInts bytes sz (0x3f - m) else replicate sz 0)
                   in Inr (map (\<lambda>i. alphabet ! symbol_index val d (random ! i) i) [0..<sz]))"

section \<open>Generator\<close>

record 'r shortid =
  sid_abc :: "'r list"
  sid_worker :: uint
  sid_epoch :: instant
  sid_ms :: uint
  sid_count :: uint

text \<open>\<open>epoch2016\<close> is the instant \<open>2016-01-01 00:00:00 UTC\<close> in nanoseconds of Unix time.\<close>

definition epoch2016 :: instant where
  "epoch2016 = 1451606400 * 1000000000"

definition shortid_New :: "8 word \<Rightarrow> 'r list \<Rightarrow> uint \<Rightarrow> abc_error + 'r shortid" where
  "shortid_New worker alphabet seed =
     (if worker > 31 then Inl WorkerRange
      else case NewAbc alphabet seed of
             Inl err \<Rightarrow> Inl err
           | Inr abc \<Rightarrow> Inr \<lparr>sid_abc = abc, sid_worker = ucast worker, sid_epoch = epoch2016, sid_ms = 0, sid_count = 0\<rparr>)"

text \<open>Go's integer division truncates towards zero.\<close>

definition since_ms :: "instant \<Rightarrow> instant \<Rightarrow> uint" where
  "since_ms tm epoch =
     of_int (if tm \<ge> epoch then (tm - epoch) div 1000000 else - ((epoch - tm) div 1000000))"

definition getMsAndCounter :: "instant \<Rightarrow> instant \<Rightarrow> 'r shortid \<Rightarrow> 'r shortid \<times> uint \<times> uint" where
  "getMsAndCounter tm epoch sid =
     (let ms = since_ms tm epoch;
          sid' = (if ms = sid_ms sid then sid\<lparr>sid_count := sid_count sid + 1\<rparr>
                  else sid\<lparr>sid_count := 0, sid_ms := ms\<rparr>)
      in (sid', sid_ms sid', sid_count sid'))"

text \<open>\<open>rnd1\<close>, \<open>rnd2\<close> and \<open>rnd3\<close> are the random bytes that the three encodings draw.\<close>

definition GenerateInternal ::
  "(nat \<Rightarrow> nat) \<Rightarrow> (nat \<Rightarrow> nat) \<Rightarrow> (nat \<Rightarrow> nat) \<Rightarrow> (nat \<Rightarrow> nat) \<Rightarrow> instant \<Rightarrow> instant \<Rightarrow> 'r shortid \<Rightarrow>
   'r shortid \<times> (abc_error + 'r list)" where
  "GenerateInternal log2u rnd1 rnd2 rnd3 tm epoch sid =
     (let (sid', ms, count) = getMsAndCounter tm epoch sid in
      (sid', case abc_Encode log2u rnd1 (sid_abc sid) ms 8 5 of
               Inl err \<Rightarrow> Inl err
             | Inr tmp \<Rightarrow>
                 (case abc_Encode log2u rnd2 (sid_abc sid) (sid_worker sid) 1 5 of
                    Inl err \<Rightarrow> Inl err
                  | Inr tmp2 \<Rightarrow>
                      let idrunes = tmp @ [tmp2 ! 0] in
                      if count > 0
                      then (case abc_Encode log2u rnd3 (sid_abc sid) count 0 6 of
                              Inl err \<Rightarrow> Inl err
                            | Inr countrunes \<Rightarrow> Inr (idrunes @ countrunes))
                      else Inr idrunes)))"

definition shortid_Generate ::
  "(nat \<Rightarrow> nat) \<Rightarrow> (nat \<Rightarrow> nat) \<Rightarrow> (nat \<Rightarrow> nat) \<Rightarrow> (nat \<Rightarrow> nat) \<Rightarrow> instant \<Rightarrow> 'r shortid \<Rightarrow>
   'r shortid \<times> (abc_error + 'r list)" where
  "shortid_Generate log2u rnd1 rnd2 rnd3 now sid =
     GenerateInternal log2u rnd1 rnd2 rnd3 now (sid_epoch sid) sid"

text \<open>The variants that panic on an error; \<open>None\<close> is the panic.\<close>

definition must :: "abc_error + 'a \<Rightarrow> 'a option" where
  "must r = (case r of Inl err \<Rightarrow> None | Inr x \<Rightarrow> Some x)"

definition shortid_MustNew :: "8 word \<Rightarrow> 'r list \<Rightarrow> uint \<Rightarrow> 'r shortid option" where
  "shortid_MustNew worker alphabet seed = must (shortid_New worker alphabet seed)"

definition shortid_MustGenerate ::
  "(nat \<Rightarrow> nat) \<Rightarrow> (nat \<Rightarrow> nat) \<Rightarrow> (nat \<Rightarrow> nat) \<Rightarrow> (nat \<Rightarrow> nat) \<Rightarrow> instant \<Rightarrow> 'r shortid \<Rightarrow> 'r shortid \<times> 'r list option" where
  "shortid_MustGenerate log2u rnd1 rnd2 rnd3 now sid = apsnd must (shortid_Generate log2u rnd1 rnd2 rnd3 now sid)"

definition MustNewAbc :: "'r list \<Rightarrow> uint \<Rightarrow> 'r list option" where
  "MustNewAbc alphabet seed = must (NewAbc alphabet seed)"

definition MustEncode :: "(nat \<Rightarrow> nat) \<Rightarrow> (nat \<Rightarrow> nat) \<Rightarrow> 'r list \<Rightarrow> uint \<Rightarrow> uint \<Rightarrow> uint \<Rightarrow> 'r list option" where
  "MustEncode log2u bytes alphabet val nsymbols digits = must (abc_Encode log2u bytes alphabet val nsymbols digits)"

text \<open>
  The default generator of the package: the value of its variable.  \<open>SetDefault\<close> replaces it, \<open>Generate\<close> uses it.
\<close>

definition initial_default :: "char shortid option" where
  "initial_default = shortid_MustNew 0 DefaultABC 1"

definition SetDefault :: "'r shortid \<Rightarrow> 'r shortid \<Rightarrow> 'r shortid" where
  "SetDefault sid old = sid"

definition package_Generate ::
  "(nat \<Rightarrow> nat) \<Rightarrow> (nat \<Rightarrow> nat) \<Rightarrow> (nat \<Rightarrow> nat) \<Rightarrow> (nat \<Rightarrow> nat) \<Rightarrow> instant \<Rightarrow> 'r shortid \<Rightarrow>
   'r shortid \<times> (abc_error + 'r list)" where
  "package_Generate log2u rnd1 rnd2 rnd3 now dflt = shortid_Generate log2u rnd1 rnd2 rnd3 now dflt"

definition package_MustGenerate ::
  "(nat \<Rightarrow> nat) \<Rightarrow> (nat \<Rightarrow> nat) \<Rightarrow> (nat \<Rightarrow> nat) \<Rightarrow> (nat \<Rightarrow> nat) \<Rightarrow> instant \<Rightarrow> 'r shortid \<Rightarrow> 'r shortid \<times> 'r list option" where
  "package_MustGenerate log2u rnd1 rnd2 rnd3 now dflt = apsnd must (package_Generate log2u rnd1 rnd2 rnd3 now dflt)"

section \<open>Shuffling permutes\<close>

lemma next_seed_bound: "unat (next_seed seed) < 233280"
proof -
  have "next_seed seed < 233280" unfolding next_seed_def by (rule word_mod_less_divisor) simp
  then show ?thesis by (simp add: word_less_nat_alt)
qed

lemma shuffle_index:
  assumes "0 < n" and "n \<le> 2 ^ 32"
  shows "unat (next_seed seed * of_nat n div 233280) < n"
proof -
  let ?s = "unat (next_seed seed)"
  have "?s * n < 2 ^ 64"
    using mult_strict_mono' [OF next_seed_bound, of n "2 ^ 32 + 1" seed] assms by simp
  moreover have "unat (of_nat n :: uint) = n" using assms(2) by (simp add: unat_of_nat)
  ultimately have "unat (next_seed seed * of_nat n) = ?s * n" by (simp add: unat_word_ariths)
  then have "unat (next_seed seed * of_nat n div 233280) = ?s * n div 233280" by (simp add: unat_div)
  also have "\<dots> < n" using next_seed_bound [of seed] assms(1) by (simp add: less_mult_imp_div_less mult.commute)
  finally show ?thesis .
qed

lemma mset_without_nth: "i < length xs \<Longrightarrow> add_mset (xs ! i) (mset (take i xs @ drop (Suc i) xs)) = mset xs"
  by (metis append_take_drop_id Cons_nth_drop_Suc mset.simps(2) mset_append union_mset_add_mset_right)

lemma shuffle_mset:
  "source \<noteq> [] \<Longrightarrow> length source \<le> 2 ^ 32 \<Longrightarrow> mset (shuffle_from source seed) = mset source"
proof (induction source seed rule: shuffle_from.induct)
  case (1 source seed)
  show ?case
  proof (cases "length source > 1")
    case True
    let ?i = "unat (next_seed seed * of_nat (length source) div 233280)"
    have i: "?i < length source" using True "1.prems"(2) by (intro shuffle_index) auto
    have "mset (shuffle_from (take ?i source @ drop (Suc ?i) source) (next_seed seed)) =
        mset (take ?i source @ drop (Suc ?i) source)"
      using True i "1.prems"(2) by (intro "1.IH" [OF True refl refl i]) auto
    then show ?thesis
      using True i mset_without_nth [OF i] by (simp add: shuffle_from.simps [of source seed] Let_def)
  next
    case False
    with "1.prems" show ?thesis by (cases source) (auto simp: shuffle_from.simps)
  qed
qed

lemma NewAbc_ok:
  assumes "NewAbc runes seed = Inr abc"
  shows "distinct abc \<and> length abc = 64 \<and> set abc = set runes"
proof -
  have default: "length DefaultABC = 64" by (simp add: DefaultABC_def)
  have n: "length runes = 64" and "\<not> nonUnique runes" and abc: "abc = shuffle_from runes seed"
    using assms by (simp_all add: NewAbc_def default split: if_splits)
  then have d: "distinct runes" using card_length [of runes] by (simp add: nonUnique_def card_distinct)
  have m: "mset abc = mset runes" using n unfolding abc by (intro shuffle_mset) auto
  then have "set abc = set runes" "length abc = 64" using n by (metis set_mset_mset, metis size_mset)
  moreover have "distinct abc" using m d by (metis mset_eq_imp_distinct_iff)
  ultimately show ?thesis by simp
qed

section \<open>Encoding can be undone\<close>

definition digit_of :: "'r list \<Rightarrow> nat \<Rightarrow> 'r \<Rightarrow> nat" where
  "digit_of alphabet d c = (case index_of alphabet c of None \<Rightarrow> 0 | Some i \<Rightarrow> take_bit d i)"

definition abc_decode :: "'r list \<Rightarrow> nat \<Rightarrow> 'r list \<Rightarrow> nat" where
  "abc_decode alphabet d ids = foldr (\<lambda>c acc. digit_of alphabet d c + 2 ^ d * acc) ids 0"

lemma digits_value:
  "foldr (\<lambda>i acc. take_bit d (drop_bit (d * i) v) + 2 ^ d * acc) [0..<n] 0 = take_bit (d * n) (v :: nat)"
proof (induction n arbitrary: v)
  case (Suc n)
  have upt: "[0..<Suc n] = 0 # map Suc [0..<n]" by (simp add: map_Suc_upt upt_conv_Cons del: upt_Suc)
  have "foldr (\<lambda>i acc. take_bit d (drop_bit (d * i) v) + 2 ^ d * acc) [0..<Suc n] 0 =
      take_bit d v + 2 ^ d * foldr (\<lambda>i acc. take_bit d (drop_bit (d * i) (drop_bit d v)) + 2 ^ d * acc) [0..<n] 0"
    unfolding upt by (simp add: foldr_map comp_def drop_bit_drop_bit add.commute del: upt_Suc)
  also have "\<dots> = take_bit (d * Suc n) v"
    unfolding Suc by (simp add: take_bit_eq_mod drop_bit_eq_div power_add mod_mult2_eq)
  finally show ?case .
qed simp

text \<open>The random bits are outside the digits, and the index is in range.\<close>

definition random_ok :: "nat \<Rightarrow> nat \<Rightarrow> bool" where
  "random_ok d r = (take_bit d r = 0 \<and> r < 64)"

lemma random_masked:
  assumes "d \<in> {4, 5, 6}"
  shows "random_ok d (b AND (63 - (2 ^ d - 1)))"
proof -
  have self: "take_bit 6 c = c" if "c \<in> {48, 32, 0 :: nat}" for c using that by auto
  have bound: "b AND c < 2 ^ 6" if "c \<in> {48, 32, 0 :: nat}" for c
  proof -
    have "b AND c = take_bit 6 (b AND c)"
      by (rule bit_eqI) (metis bit_and_iff bit_take_bit_iff self [OF that])
    then show ?thesis using take_bit_nat_less_exp [of 6 "b AND c"] by simp
  qed
  have "take_bit d (b AND c) = take_bit d b AND take_bit d c" for c by simp
  with assms bound [of 48] bound [of 32] bound [of 0] show ?thesis by (auto simp: random_ok_def)
qed

lemma symbol_index_ok:
  assumes "d \<le> 6" and "random_ok d r"
  shows "symbol_index val d r i < 64" and "take_bit d (symbol_index val d r i) = take_bit d (drop_bit (d * i) (unat val))"
proof -
  let ?x = "take_bit d (unat (drop_bit (d * i) val))"
  have ix: "symbol_index val d r i = ?x OR r"
    by (simp add: symbol_index_def take_bit_eq_mask mask_eq_exp_minus_1)
  have "?x < 2 ^ d" by simp
  also have "(2 :: nat) ^ d \<le> 2 ^ 6" using assms(1) by (intro power_increasing) auto
  finally have "?x < 2 ^ 6" .
  then have "take_bit 6 ?x = ?x" by (rule take_bit_nat_eq_self)
  moreover have "take_bit 6 r = r" using assms(2) by (intro take_bit_nat_eq_self) (simp add: random_ok_def)
  ultimately have "take_bit 6 (?x OR r) = ?x OR r" by simp
  then show "symbol_index val d r i < 64"
    unfolding ix using take_bit_nat_less_exp [of 6 "?x OR r"] by simp
  show "take_bit d (symbol_index val d r i) = take_bit d (drop_bit (d * i) (unat val))"
    unfolding ix using assms(2) by (simp add: random_ok_def unat_drop_bit_eq)
qed

lemma decode_symbols:
  assumes "distinct alphabet" and "length alphabet = 64" and "d \<le> 6" and "\<And>i. i < n \<Longrightarrow> random_ok d (r i)"
  shows "abc_decode alphabet d (map (\<lambda>i. alphabet ! symbol_index val d (r i) i) [0..<n]) = take_bit (d * n) (unat val)"
proof -
  have "digit_of alphabet d (alphabet ! symbol_index val d (r i) i) = take_bit d (drop_bit (d * i) (unat val))" if "i < n" for i
    using symbol_index_ok [OF assms(3) assms(4) [OF that], of val i] assms(1,2)
    by (simp add: digit_of_def index_of_nth)
  then have "foldr (\<lambda>i acc. digit_of alphabet d (alphabet ! symbol_index val d (r i) i) + 2 ^ d * acc) [0..<n] 0 =
      foldr (\<lambda>i acc. take_bit d (drop_bit (d * i) (unat val)) + 2 ^ d * acc) [0..<n] 0"
    by (intro foldr_cong) auto
  then show ?thesis by (simp add: abc_decode_def foldr_map comp_def digits_value)
qed

section \<open>Sizes\<close>

text \<open>What is used of the truncated logarithm, and an integer function that has it.\<close>

definition log2_exact :: "(nat \<Rightarrow> nat) \<Rightarrow> bool" where
  "log2_exact log2u \<longleftrightarrow> (\<forall>v. 1 \<le> v \<and> v < 2 ^ 48 \<longrightarrow> 2 ^ log2u v \<le> v \<and> v < 2 ^ Suc (log2u v))"

fun ilog2 :: "nat \<Rightarrow> nat" where
  "ilog2 n = (if n < 2 then 0 else Suc (ilog2 (n div 2)))"

declare ilog2.simps [simp del]

lemma ilog2_bounds: "1 \<le> n \<Longrightarrow> 2 ^ ilog2 n \<le> n \<and> n < 2 ^ Suc (ilog2 n)"
proof (induction n rule: ilog2.induct)
  case (1 n)
  show ?case
  proof (cases "n < 2")
    case True
    with "1.prems" show ?thesis by (simp add: ilog2.simps)
  next
    case False
    then have "2 ^ ilog2 (n div 2) \<le> n div 2 \<and> n div 2 < 2 ^ Suc (ilog2 (n div 2))" by (intro "1.IH") auto
    with False show ?thesis by (auto simp: ilog2.simps [of n])
  qed
qed

lemma log2_exact_ilog2: "log2_exact ilog2"
  by (simp add: log2_exact_def ilog2_bounds del: power_Suc)

lemma computed_size_unat:
  assumes "log2_exact log2u" and "unat val < 2 ^ 48" and "digits \<in> {4, 5, 6}"
  shows "unat (computed_size log2u val digits) = (if val = 0 then 1 else log2u (unat val) div unat digits + 1)"
proof (cases "val = 0")
  case True
  then show ?thesis by (simp add: computed_size_def)
next
  case False
  then have "1 \<le> unat val" by (simp add: unat_gt_0 Suc_le_eq)
  then have "(2 :: nat) ^ log2u (unat val) < 2 ^ 48"
    using assms(1,2) unfolding log2_exact_def by (meson le_less_trans)
  then have l: "log2u (unat val) < 48" by (rule power_less_imp_less_exp [rotated]) simp
  then have u: "unat (of_nat (log2u (unat val)) :: uint) = log2u (unat val)" by (simp add: unat_of_nat)
  have "log2u (unat val) div unat digits < 48" using l by (meson div_le_dividend le_less_trans)
  moreover from this have "unat (of_nat (log2u (unat val)) div digits + 1) = log2u (unat val) div unat digits + 1"
    by (simp add: unat_word_ariths unat_div u)
  ultimately show ?thesis
    using False by (simp add: computed_size_def word_le_nat_alt Suc_le_eq unat_gt_0)
qed

lemma size_fits:
  assumes "log2_exact log2u" and "v < 2 ^ 48" and "1 \<le> v" and "0 < d"
  shows "log2u v div d + 1 \<le> n \<longleftrightarrow> v < 2 ^ (d * n)"
proof -
  have b: "2 ^ log2u v \<le> v" "v < 2 ^ Suc (log2u v)" using assms(1-3) by (auto simp: log2_exact_def)
  have "log2u v div d + 1 \<le> n \<longleftrightarrow> log2u v < d * n"
    using assms(4) by (simp add: Suc_le_eq div_less_iff_less_mult mult.commute)
  also have "\<dots> \<longleftrightarrow> v < 2 ^ (d * n)"
  proof
    assume "log2u v < d * n"
    then have "(2 :: nat) ^ Suc (log2u v) \<le> 2 ^ (d * n)" by (intro power_increasing) auto
    with b(2) show "v < 2 ^ (d * n)" by linarith
  next
    assume "v < 2 ^ (d * n)"
    with b(1) have "(2 :: nat) ^ log2u v < 2 ^ (d * n)" by linarith
    then show "log2u v < d * n" by simp
  qed
  finally show ?thesis .
qed

lemma encoded:
  assumes "log2_exact log2u" and "distinct alphabet" and "length alphabet = 64" and "unat val < 2 ^ 48"
    and digits: "digits \<in> {4, 5, 6}" and n: "n = (if nsymbols = 0 then computed_size log2u val digits else nsymbols)"
    and fits: "nsymbols \<noteq> 0 \<Longrightarrow> unat val < 2 ^ (unat digits * unat nsymbols)"
  shows "\<exists>ids. abc_Encode log2u bytes alphabet val nsymbols digits = Inr ids \<and> length ids = unat n \<and>
    abc_decode alphabet (unat digits) ids = unat val"
proof -
  let ?d = "unat digits" and ?n = "unat n"
  define r where "r = (\<lambda>i. if digits < 6 then bytes i AND (63 - (2 ^ ?d - 1)) else 0)"
  have d: "?d \<in> {4, 5, 6}" and r6: "\<not> digits < 6 \<Longrightarrow> ?d = 6" and range: "\<not> (digits < 4 \<or> 6 < digits)"
    using digits by auto
  have ok: "random_ok ?d (r i)" for i
    using random_masked [OF d, of "bytes i"] r6 by (auto simp: r_def random_ok_def)
  have val: "val \<noteq> 0 \<Longrightarrow> 1 \<le> unat val" by (simp add: Suc_le_eq unat_gt_0)
  have sz: "unat (computed_size log2u val digits) = (if val = 0 then 1 else log2u (unat val) div ?d + 1)"
    by (rule computed_size_unat [OF assms(1,4) digits])
  have dpos: "0 < ?d" using d by auto
  have "computed_size log2u val digits \<le> nsymbols" if "nsymbols \<noteq> 0"
  proof (cases "val = 0")
    case True
    then have "unat (computed_size log2u val digits) = 1" using sz by simp
    with that show ?thesis by (simp add: word_le_nat_alt Suc_le_eq unat_gt_0)
  next
    case False
    with fits [OF that] size_fits [OF assms(1,4) val dpos] show ?thesis by (simp add: word_le_nat_alt sz)
  qed
  then have "\<not> (nsymbols \<noteq> 0 \<and> nsymbols < computed_size log2u val digits)" by (meson leD)
  then have enc: "abc_Encode log2u bytes alphabet val nsymbols digits =
      Inr (map (\<lambda>i. alphabet ! symbol_index val ?d (r i) i) [0..<?n])"
    using range by (auto simp: abc_Encode_def Let_def n maskedRandomInts_def r_def intro!: map_cong)
  have "unat val < 2 ^ (?d * ?n)"
  proof (cases "nsymbols = 0")
    case True
    then have "?n = (if val = 0 then 1 else log2u (unat val) div ?d + 1)" using n sz by simp
    then show ?thesis using size_fits [OF assms(1,4), of ?d ?n] val d by (cases "val = 0") auto
  next
    case False
    with fits n show ?thesis by simp
  qed
  then have "abc_decode alphabet ?d (map (\<lambda>i. alphabet ! symbol_index val ?d (r i) i) [0..<?n]) = unat val"
    using decode_symbols [OF assms(2,3), of ?d ?n r val] ok d by (auto simp: take_bit_nat_eq_self)
  with enc show ?thesis by simp
qed

lemma not_encoded:
  assumes "log2_exact log2u" and "unat val < 2 ^ 48" and "digits \<in> {4, 5, 6}" and "nsymbols \<noteq> 0"
    and "unat val \<ge> 2 ^ (unat digits * unat nsymbols)"
  shows "abc_Encode log2u bytes alphabet val nsymbols digits = Inl (TooSmall (computed_size log2u val digits) nsymbols)"
proof -
  have "val \<noteq> 0" using assms(5) by auto
  then have v: "1 \<le> unat val" by (simp add: Suc_le_eq unat_gt_0)
  have "0 < unat digits" using assms(3) by auto
  then have "\<not> log2u (unat val) div unat digits + 1 \<le> unat nsymbols"
    using size_fits [OF assms(1,2) v, of "unat digits" "unat nsymbols"] assms(5) by simp
  then have "nsymbols < computed_size log2u val digits"
    using computed_size_unat [OF assms(1-3)] \<open>val \<noteq> 0\<close> by (simp add: word_less_nat_alt)
  then show ?thesis using assms(3,4) by (auto simp: abc_Encode_def Let_def)
qed

section \<open>Generated identifiers\<close>

text \<open>A generator that \<open>New\<close> returned, possibly after use, and the parts that an identifier carries.\<close>

definition sid_ok :: "'r shortid \<Rightarrow> bool" where
  "sid_ok sid \<longleftrightarrow> distinct (sid_abc sid) \<and> length (sid_abc sid) = 64 \<and> unat (sid_worker sid) < 32"

definition id_parts :: "'r list \<Rightarrow> 'r list \<Rightarrow> nat \<times> nat \<times> nat" where
  "id_parts abc i = (abc_decode abc 5 (take 8 i), abc_decode abc 5 (take 1 (drop 8 i)), abc_decode abc 6 (drop 9 i))"

lemma New_sid_ok: "shortid_New worker alphabet seed = Inr sid \<Longrightarrow> sid_ok sid"
proof -
  assume n: "shortid_New worker alphabet seed = Inr sid"
  then have "worker \<le> 31" by (auto simp: shortid_New_def not_less split: if_splits)
  then have "unat worker < 32" by (simp add: word_le_nat_alt)
  then have "unat (ucast worker :: uint) < 32" by (simp add: unsigned_ucast_eq take_bit_nat_eq_self)
  with n NewAbc_ok show ?thesis
    by (fastforce simp: shortid_New_def sid_ok_def split: if_splits sum.splits)
qed

lemma generated:
  assumes "log2_exact log2u" and "sid_ok sid" and "getMsAndCounter tm epoch sid = (sid', ms, cnt)"
    and "unat ms < 2 ^ 40" and "unat cnt < 2 ^ 48"
  shows "\<exists>i. GenerateInternal log2u rnd1 rnd2 rnd3 tm epoch sid = (sid', Inr i) \<and>
    id_parts (sid_abc sid) i = (unat ms, unat (sid_worker sid), unat cnt) \<and>
    (cnt = 0 \<longrightarrow> length i = 9) \<and> 9 \<le> length i"
proof -
  have abc: "distinct (sid_abc sid)" "length (sid_abc sid) = 64" and w: "unat (sid_worker sid) < 32"
    using assms(2) by (auto simp: sid_ok_def)
  note enc = encoded [OF assms(1) abc]
  obtain a where a: "abc_Encode log2u rnd1 (sid_abc sid) ms 8 5 = Inr a" "length a = 8" "abc_decode (sid_abc sid) 5 a = unat ms"
    using enc [of ms 5 8 8 rnd1] assms(4) by auto
  obtain b where b: "abc_Encode log2u rnd2 (sid_abc sid) (sid_worker sid) 1 5 = Inr b" "length b = 1"
      "abc_decode (sid_abc sid) 5 b = unat (sid_worker sid)"
    using enc [of "sid_worker sid" 5 1 1 rnd2] w by auto
  obtain c where c: "abc_Encode log2u rnd3 (sid_abc sid) cnt 0 6 = Inr c" "abc_decode (sid_abc sid) 6 c = unat cnt"
    using enc [of cnt 6 _ 0 rnd3] assms(5) by auto
  have b1: "[b ! 0] = b" using b(2) by (cases b) auto
  show ?thesis
  proof (cases "cnt = 0")
    case True
    with a b b1 assms(3) show ?thesis by (simp add: GenerateInternal_def id_parts_def abc_decode_def)
  next
    case False
    then have "cnt > 0" by (simp add: word_gt_0)
    with False a b c b1 assms(3) show ?thesis by (simp add: GenerateInternal_def id_parts_def)
  qed
qed

text \<open>The position of a generator in the sequence of all its identifiers.\<close>

definition position :: "'r shortid \<Rightarrow> nat" where
  "position sid = unat (sid_ms sid) * 2 ^ 48 + unat (sid_count sid)"

record sid_call =
  sc_now :: instant
  sc_rnd :: "nat \<Rightarrow> nat \<Rightarrow> nat"

definition sid_step :: "(nat \<Rightarrow> nat) \<Rightarrow> 'r shortid \<Rightarrow> sid_call \<Rightarrow> 'r shortid \<times> (abc_error + 'r list)" where
  "sid_step log2u sid c = shortid_Generate log2u (sc_rnd c 0) (sc_rnd c 1) (sc_rnd c 2) (sc_now c) sid"

fun sid_run :: "(nat \<Rightarrow> nat) \<Rightarrow> 'r shortid \<Rightarrow> sid_call list \<Rightarrow> (abc_error + 'r list) list" where
  "sid_run log2u sid [] = []"
| "sid_run log2u sid (c # cs) =
     (let (sid', r) = sid_step log2u sid c in r # sid_run log2u sid' cs)"

lemma int_div_less: "0 < b \<Longrightarrow> a < n * b \<Longrightarrow> a div b < (n :: int)"
proof -
  assume b: "0 < b" and "a < n * b"
  moreover have "a div b * b + a mod b = a" "0 \<le> a mod b" using b by simp_all
  ultimately have "a div b * b < n * b" by linarith
  with b show ?thesis by simp
qed

lemma since_ms_unat:
  assumes "epoch \<le> tm" and "tm < epoch + 2 ^ 40 * 1000000"
  shows "unat (since_ms tm epoch) = nat ((tm - epoch) div 1000000)" and "unat (since_ms tm epoch) < 2 ^ 40"
proof -
  let ?q = "(tm - epoch) div 1000000"
  have "tm - epoch < 1099511627776 * 1000000" using assms(2) by simp
  then have "?q < 1099511627776" by (rule int_div_less [rotated]) simp
  moreover have "0 \<le> ?q" using assms(1) by (simp add: pos_imp_zdiv_nonneg_iff)
  ultimately have q: "0 \<le> ?q" "?q < 2 ^ 40" by simp_all
  then show "unat (since_ms tm epoch) = nat ?q"
    using assms(1) by (simp add: since_ms_def unat_eq_nat_uint uint_word_of_int)
  with q show "unat (since_ms tm epoch) < 2 ^ 40" by (simp add: nat_less_iff)
qed

lemma step_position:
  assumes "sid_epoch sid \<le> tm" and "tm < sid_epoch sid + 2 ^ 40 * 1000000"
    and "unat (sid_ms sid) \<le> unat (since_ms tm (sid_epoch sid))" and "Suc (unat (sid_count sid)) < 2 ^ 48"
    and "getMsAndCounter tm (sid_epoch sid) sid = (sid', ms, cnt)"
  shows "position sid < position sid'" and "ms = sid_ms sid'" and "cnt = sid_count sid'"
    and "sid_ms sid' = since_ms tm (sid_epoch sid)" and "unat (sid_count sid') \<le> Suc (unat (sid_count sid))"
    and "sid_abc sid' = sid_abc sid" and "sid_worker sid' = sid_worker sid" and "sid_epoch sid' = sid_epoch sid"
proof -
  have suc: "unat (sid_count sid + 1) = Suc (unat (sid_count sid))"
    using assms(4) by (simp add: unat_word_ariths)
  show "ms = sid_ms sid'" "cnt = sid_count sid'" "sid_ms sid' = since_ms tm (sid_epoch sid)"
    "unat (sid_count sid') \<le> Suc (unat (sid_count sid))" "sid_abc sid' = sid_abc sid"
    "sid_worker sid' = sid_worker sid" "sid_epoch sid' = sid_epoch sid"
    using assms(5) suc by (auto simp: getMsAndCounter_def Let_def split: if_splits)
  show "position sid < position sid'"
  proof (cases "since_ms tm (sid_epoch sid) = sid_ms sid")
    case True
    with assms(5) suc show ?thesis by (auto simp: getMsAndCounter_def Let_def position_def)
  next
    case False
    then have "unat (since_ms tm (sid_epoch sid)) \<noteq> unat (sid_ms sid)" by (metis unsigned_word_eqI)
    with assms(3) have "Suc (unat (sid_ms sid)) \<le> unat (since_ms tm (sid_epoch sid))" by simp
    then have "Suc (unat (sid_ms sid)) * 2 ^ 48 \<le> unat (since_ms tm (sid_epoch sid)) * 2 ^ 48"
      by (rule mult_le_mono1)
    with False assms(4,5) show ?thesis by (auto simp: getMsAndCounter_def Let_def position_def)
  qed
qed

text \<open>Calls at non-decreasing instants within the life span of the epoch.\<close>

definition in_life :: "'r shortid \<Rightarrow> sid_call list \<Rightarrow> bool" where
  "in_life sid cs \<longleftrightarrow> sorted (map sc_now cs) \<and>
     (\<forall>c\<in>set cs. sid_epoch sid \<le> sc_now c \<and> sc_now c < sid_epoch sid + 2 ^ 40 * 1000000 \<and>
        unat (sid_ms sid) \<le> unat (since_ms (sc_now c) (sid_epoch sid)))"

lemma since_ms_mono:
  assumes "epoch \<le> t" and "t \<le> u" and "u < epoch + 2 ^ 40 * 1000000"
  shows "unat (since_ms t epoch) \<le> unat (since_ms u epoch)"
  using assms since_ms_unat(1) [of epoch t] since_ms_unat(1) [of epoch u]
  by (simp add: nat_mono zdiv_mono1)

definition id_position :: "'r list \<Rightarrow> 'r list \<Rightarrow> nat" where
  "id_position abc i = (case id_parts abc i of (ms, w, n) \<Rightarrow> ms * 2 ^ 48 + n)"

lemma run_positions:
  assumes "log2_exact log2u" and "sid_ok sid" and "in_life sid cs" and "unat (sid_count sid) + length cs < 2 ^ 48"
  shows "\<exists>ids. sid_run log2u sid cs = map Inr ids \<and> sorted_wrt (<) (position sid # map (id_position (sid_abc sid)) ids) \<and>
    (\<forall>i\<in>set ids. 9 \<le> length i \<and> fst (snd (id_parts (sid_abc sid) i)) = unat (sid_worker sid))"
  using assms(2-4)
proof (induction cs arbitrary: sid)
  case (Cons c cs)
  obtain sid' ms cnt where g: "getMsAndCounter (sc_now c) (sid_epoch sid) sid = (sid', ms, cnt)" by (metis prod_cases3)
  have c: "sid_epoch sid \<le> sc_now c" "sc_now c < sid_epoch sid + 2 ^ 40 * 1000000"
    "unat (sid_ms sid) \<le> unat (since_ms (sc_now c) (sid_epoch sid))"
    using Cons.prems(2) by (auto simp: in_life_def)
  have n: "Suc (unat (sid_count sid)) < 2 ^ 48" using Cons.prems(3) by simp
  note st = step_position [OF c n g]
  have cnt: "unat cnt < 2 ^ 48" unfolding st(3) using st(5) n by (rule le_less_trans)
  have ms: "unat ms < 2 ^ 40" using st(2,4) since_ms_unat(2) [OF c(1,2)] by simp
  obtain i where i: "sid_step log2u sid c = (sid', Inr i)"
    "id_parts (sid_abc sid) i = (unat ms, unat (sid_worker sid), unat cnt)" "9 \<le> length i"
    using generated [OF assms(1) Cons.prems(1) g ms cnt, of "sc_rnd c 0" "sc_rnd c 1" "sc_rnd c 2"]
    by (auto simp: sid_step_def shortid_Generate_def)
  have pos: "id_position (sid_abc sid) i = position sid'" using i(2) st(2,3) by (simp add: id_position_def position_def)
  have life: "in_life sid' cs"
    using Cons.prems(2) st(4,8) since_ms_mono [OF c(1)] by (auto simp: in_life_def)
  have "sid_ok sid'" using Cons.prems(1) st(6,7) by (simp add: sid_ok_def)
  moreover have "unat (sid_count sid') + length cs < 2 ^ 48" using st(5) Cons.prems(3) by simp
  ultimately obtain ids where ids: "sid_run log2u sid' cs = map Inr ids"
    "sorted_wrt (<) (position sid' # map (id_position (sid_abc sid)) ids)"
    "\<forall>i\<in>set ids. 9 \<le> length i \<and> fst (snd (id_parts (sid_abc sid) i)) = unat (sid_worker sid)"
    using Cons.IH [of sid'] life st(6,7) by auto
  have "sid_run log2u sid (c # cs) = map Inr (i # ids)" using i(1) ids(1) by simp
  moreover have "sorted_wrt (<) (position sid # map (id_position (sid_abc sid)) (i # ids))"
    using ids(2) st(1) pos by auto
  ultimately show ?case using ids(3) i(2,3) by (intro exI [of _ "i # ids"]) simp
qed simp

text \<open>
  C21: identifiers are unique.  A generator made by \<open>New\<close> produces an identifier for every call within
  the \<open>2 ^ 40\<close> milliseconds (more than 34 years) after its epoch, whatever the random bytes, and for a clock
  that does not go back all identifiers of a run of fewer than \<open>2 ^ 48\<close> calls are different.  Their
  symbols determine the millisecond, the worker and the counter, so that generators of different
  workers over the same alphabet never collide either.
\<close>

theorem shortid_unique:
  assumes "log2_exact log2u" and "shortid_New worker alphabet seed = Inr sid"
    and "in_life sid cs" and "length cs < 2 ^ 48"
  shows "\<exists>ids. sid_run log2u sid cs = map Inr ids \<and> length ids = length cs \<and> distinct ids \<and>
    (\<forall>i\<in>set ids. 9 \<le> length i \<and> fst (snd (id_parts (sid_abc sid) i)) = unat worker)"
proof -
  have zero: "unat (sid_count sid) = 0" and w: "unat (sid_worker sid) = unat worker"
    using assms(2) by (auto simp: shortid_New_def unsigned_ucast_eq take_bit_nat_eq_self order.strict_trans [OF unsigned_less]
        split: if_splits sum.splits)
  obtain ids where ids: "sid_run log2u sid cs = map Inr ids"
    "sorted_wrt (<) (position sid # map (id_position (sid_abc sid)) ids)"
    "\<forall>i\<in>set ids. 9 \<le> length i \<and> fst (snd (id_parts (sid_abc sid) i)) = unat (sid_worker sid)"
    using run_positions [OF assms(1) New_sid_ok [OF assms(2)] assms(3)] zero assms(4) by auto
  have "length (sid_run log2u s cs) = length cs" for s
    by (induction cs arbitrary: s) (simp_all split: prod.splits)
  moreover have "distinct ids"
    using ids(2) by (auto simp: strict_sorted_iff distinct_map)
  ultimately show ?thesis using ids(1,3) w by (metis length_map)
qed

lemma default_generator: "\<exists>sid. shortid_New 0 DefaultABC 1 = Inr sid \<and> sid_epoch sid = epoch2016 \<and> sid_ms sid = 0"
proof -
  have "\<not> nonUnique DefaultABC" by (simp add: nonUnique_def DefaultABC_def)
  then show ?thesis by (simp add: shortid_New_def NewAbc_def)
qed

theorem shortid_unique_witness:
  "\<exists>sid ids. shortid_New 0 DefaultABC 1 = Inr sid \<and> length ids = 3 \<and> distinct ids \<and>
    sid_run ilog2 sid (map (\<lambda>t. \<lparr>sc_now = epoch2016 + t * 1000000, sc_rnd = (\<lambda>_ _. 7)\<rparr>) [9, 9, 10]) = map Inr ids"
proof -
  obtain sid where sid: "shortid_New 0 DefaultABC 1 = Inr sid" "sid_epoch sid = epoch2016" "sid_ms sid = 0"
    using default_generator by blast
  let ?cs = "map (\<lambda>t. \<lparr>sc_now = epoch2016 + t * 1000000, sc_rnd = (\<lambda>_ _. 7 :: nat)\<rparr>) [9, 9, 10]"
  have "in_life sid ?cs" by (simp add: in_life_def sid)
  moreover have "length ?cs < 2 ^ 48" by simp
  ultimately obtain ids where "sid_run ilog2 sid ?cs = map Inr ids" "length ids = length ?cs" "distinct ids"
    using shortid_unique [OF log2_exact_ilog2 sid(1)] by blast
  moreover have "length ?cs = 3" by simp
  ultimately show ?thesis using sid(1) by metis
qed

text \<open>
  Encoding is exact.  Over a shuffled alphabet, with 4, 5 or 6 bits per symbol, any random bytes and a
  value below \<open>2 ^ 48\<close>, \<open>Encode\<close> fails exactly when the requested number of symbols is too small for the value,
  and otherwise returns that many symbols (as many as needed when the number is 0), from
  which the value can be read back.
\<close>

theorem Encode_exact:
  assumes "log2_exact log2u" and "NewAbc alphabet seed = Inr abc" and "unat val < 2 ^ 48" and "digits \<in> {4, 5, 6}"
  shows "if nsymbols \<noteq> 0 \<and> unat val \<ge> 2 ^ (unat digits * unat nsymbols)
    then \<exists>e. abc_Encode log2u bytes abc val nsymbols digits = Inl e
    else \<exists>ids. abc_Encode log2u bytes abc val nsymbols digits = Inr ids \<and> ids \<noteq> [] \<and>
      (nsymbols \<noteq> 0 \<longrightarrow> length ids = unat nsymbols) \<and> abc_decode abc (unat digits) ids = unat val"
proof (cases "nsymbols \<noteq> 0 \<and> unat val \<ge> 2 ^ (unat digits * unat nsymbols)")
  case True
  with not_encoded [OF assms(1,3,4)] show ?thesis by auto
next
  case False
  have abc: "distinct abc" "length abc = 64" using NewAbc_ok [OF assms(2)] by auto
  obtain ids where ids: "abc_Encode log2u bytes abc val nsymbols digits = Inr ids"
    "length ids = unat (if nsymbols = 0 then computed_size log2u val digits else nsymbols)"
    "abc_decode abc (unat digits) ids = unat val"
    using encoded [OF assms(1) abc assms(3,4) refl, of nsymbols bytes] False by auto
  have "length ids > 0"
    using ids(2) computed_size_unat [OF assms(1,3,4)] by (cases "val = 0"; cases "nsymbols = 0") (simp_all add: unat_gt_0)
  with ids show ?thesis using False by auto
qed

theorem Encode_exact_witness:
  "\<exists>abc ids. NewAbc DefaultABC 1 = Inr abc \<and> abc_Encode ilog2 (\<lambda>_. 255) abc 1000 0 4 = Inr ids \<and>
     abc_decode abc 4 ids = 1000"
proof -
  have "\<not> nonUnique DefaultABC" by (simp add: nonUnique_def DefaultABC_def)
  then obtain abc where abc: "NewAbc DefaultABC 1 = Inr abc" by (simp add: NewAbc_def)
  from Encode_exact [OF log2_exact_ilog2 this, of 1000 4 0 "\<lambda>_. 255"] abc show ?thesis by auto
qed

text \<open>
  When the clock goes back to an earlier millisecond the counter starts again, so that only the random bits
  keep identifiers apart: with the same bytes the same identifier is produced twice.
\<close>

lemma step_new_ms:
  assumes "since_ms (sc_now c) (sid_epoch sid) \<noteq> sid_ms sid"
  shows "fst (sid_step log2u sid c) = sid\<lparr>sid_count := 0, sid_ms := since_ms (sc_now c) (sid_epoch sid)\<rparr>"
    and "sid_abc sid' = sid_abc sid \<Longrightarrow> sid_worker sid' = sid_worker sid \<Longrightarrow> sid_epoch sid' = sid_epoch sid \<Longrightarrow>
      since_ms (sc_now c) (sid_epoch sid) \<noteq> sid_ms sid' \<Longrightarrow> snd (sid_step log2u sid' c) = snd (sid_step log2u sid c)"
  using assms by (simp_all add: sid_step_def shortid_Generate_def GenerateInternal_def getMsAndCounter_def Let_def
      cong: sum.case_cong)

theorem clock_back_repeats:
  assumes "since_ms t (sid_epoch sid) \<noteq> sid_ms sid" and "since_ms u (sid_epoch sid) \<noteq> since_ms t (sid_epoch sid)"
  shows "let r = sid_run log2u sid [\<lparr>sc_now = t, sc_rnd = b\<rparr>, \<lparr>sc_now = u, sc_rnd = b'\<rparr>, \<lparr>sc_now = t, sc_rnd = b\<rparr>]
    in r ! 0 = r ! 2"
proof -
  let ?c = "\<lparr>sc_now = t, sc_rnd = b\<rparr>" and ?d = "\<lparr>sc_now = u, sc_rnd = b'\<rparr>"
  let ?s1 = "fst (sid_step log2u sid ?c)" and ?s2 = "fst (sid_step log2u (fst (sid_step log2u sid ?c)) ?d)"
  have s1: "?s1 = sid\<lparr>sid_count := 0, sid_ms := since_ms t (sid_epoch sid)\<rparr>"
    using step_new_ms(1) [of ?c sid log2u] assms(1) by simp
  have s2: "?s2 = ?s1\<lparr>sid_count := 0, sid_ms := since_ms u (sid_epoch sid)\<rparr>"
    using step_new_ms(1) [of ?d ?s1 log2u] assms(2) s1 by simp
  have "snd (sid_step log2u ?s2 ?c) = snd (sid_step log2u sid ?c)"
    using assms s1 s2 by (intro step_new_ms(2)) auto
  then show ?thesis by (simp add: Let_def split_beta numeral_2_eq_2)
qed

text \<open>Loading the package does not panic.\<close>

theorem initial_default_exists: "initial_default \<noteq> None"
proof -
  have "\<not> nonUnique DefaultABC" by (simp add: nonUnique_def DefaultABC_def)
  then show ?thesis by (simp add: initial_default_def shortid_MustNew_def must_def shortid_New_def NewAbc_def)
qed

end
