(* ===== verification/Kube_Names.thy ===== *)
theory Kube_Names
  imports Json_Maps "HOL-Library.Word"
begin

unbundle bit_operations_syntax

text \<open>
  Small helpers of \<open>kubeutil\<close>: \<open>dns1123.go\<close> (\<open>MakeDNS1123Compatible\<close>), \<open>detect_cluster.go\<close>, \<open>kubeutil.go\<close>,
  \<open>hasher/hasher.go\<close> (the cumulative hash) and \<open>secretref/secretref.go\<close> (one value of a Secret).

  Names are ASCII text.  Files, the environment, the Kubernetes clients, the accessor \<open>NestedMap\<close> and
  \<open>json.Marshal\<close> are arguments.  An error is its message, with the wrapped error behind it.
\<close>

section \<open>DNS labels\<close>

definition is_label_char :: "char \<Rightarrow> bool" where
  "is_label_char c = (is_lower c \<or> is_digit c)"

definition MakeDNS1123Compatible :: "string \<Rightarrow> string" where
  "MakeDNS1123Compatible name' =
     (let name = ToLower name';
          name1 = filter (\<lambda>c. c = CHR ''-'' \<or> is_label_char c) name;
          name2 = dropWhile (\<lambda>c. \<not> is_label_char c) name1
      in if length name2 > 63 then take 63 name2 else name2)"

lemma lower_char_label: "c = CHR ''-'' \<or> is_label_char c \<Longrightarrow> lower_char c = c"
  by (auto simp: lower_char_def is_label_char_def is_upper_def is_lower_def is_digit_def less_eq_char_def)

lemma dropWhile_head: "dropWhile P xs \<noteq> [] \<Longrightarrow> \<not> P (hd (dropWhile P xs))"
  by (rule hd_dropWhile)

definition dns_label :: "string \<Rightarrow> bool" where
  "dns_label s \<longleftrightarrow> length s \<le> 63 \<and> (\<forall>c\<in>set s. c = CHR ''-'' \<or> is_label_char c) \<and> (s \<noteq> [] \<longrightarrow> is_label_char (hd s))"

lemma dns_label_fixed: "dns_label s \<Longrightarrow> MakeDNS1123Compatible s = s"
proof -
  assume s: "dns_label s"
  have "ToLower s = s"
    using s unfolding ToLower_def by (intro map_idI lower_char_label) (auto simp: dns_label_def)
  moreover have "filter (\<lambda>c. c = CHR ''-'' \<or> is_label_char c) s = s"
    using s by (simp add: dns_label_def filter_id_conv)
  moreover have "dropWhile (\<lambda>c. \<not> is_label_char c) s = s"
    using s by (simp add: dns_label_def dropWhile_eq_self_iff) blast
  ultimately show ?thesis using s by (simp add: MakeDNS1123Compatible_def Let_def dns_label_def)
qed

text \<open>
  The result is a name of at most 63 characters out of lower-case letters, digits and dashes that starts with
  a letter or a digit or is empty; such names are left alone, so a second application changes nothing.
\<close>

theorem MakeDNS1123_label:
  "dns_label (MakeDNS1123Compatible name) \<and>
   MakeDNS1123Compatible (MakeDNS1123Compatible name) = MakeDNS1123Compatible name"
proof -
  let ?f = "filter (\<lambda>c. c = CHR ''-'' \<or> is_label_char c) (ToLower name)"
  let ?d = "dropWhile (\<lambda>c. \<not> is_label_char c) ?f"
  have set: "c = CHR ''-'' \<or> is_label_char c" if "c \<in> set ?d" for c
    using set_dropWhileD [OF that] by simp
  have hd: "?d \<noteq> [] \<Longrightarrow> is_label_char (hd ?d)" using hd_dropWhile [of "\<lambda>c. \<not> is_label_char c" ?f] by simp
  have "MakeDNS1123Compatible name = take 63 ?d" by (simp add: MakeDNS1123Compatible_def Let_def)
  moreover have "dns_label (take 63 d)" if d: "\<And>c. c \<in> set d \<Longrightarrow> c = CHR ''-'' \<or> is_label_char c"
      "d \<noteq> [] \<Longrightarrow> is_label_char (hd d)" for d
    unfolding dns_label_def using d by (cases d) (fastforce dest: in_set_takeD)+
  then have "dns_label (take 63 ?d)" using set hd by blast
  ultimately show ?thesis by (simp add: dns_label_fixed)
qed

text \<open>Different names can have the same label, and a label may end with a dash, which RFC 1123 forbids.\<close>

theorem MakeDNS1123_not_injective:
  "MakeDNS1123Compatible ''john.doe'' = MakeDNS1123Compatible ''JohnDoe'' \<and> MakeDNS1123Compatible ''ann-'' = ''ann-''"
  by code_simp

section \<open>Environment\<close>

definition DetectClusterName :: "string \<Rightarrow> string option \<Rightarrow> string option \<Rightarrow> string" where
  "DetectClusterName getenv restHost hostname =
     (if getenv \<noteq> [] then getenv
      else case restHost of
             Some h \<Rightarrow>
               if h \<noteq> [] then hd (Split (TrimPrefix (TrimPrefix h ''https://'') ''http://'') (CHR '':''))
               else (case hostname of None \<Rightarrow> ''unknown-cluster'' | Some n \<Rightarrow> n)
           | None \<Rightarrow> (case hostname of None \<Rightarrow> ''unknown-cluster'' | Some n \<Rightarrow> n))"

datatype kerr = KErr string | KNotFound string | KWrap string kerr

definition kube_is_not_found :: "kerr \<Rightarrow> bool" where
  "kube_is_not_found e = (case e of KNotFound m \<Rightarrow> True | _ \<Rightarrow> False)"

text \<open>Reading the namespace file: the outcome is its text, or an error that may say that there is no file.\<close>

definition ServiceAccountNamespace :: "kerr + string \<Rightarrow> kerr + string" where
  "ServiceAccountNamespace readFile =
     (case readFile of
        Inl err \<Rightarrow> if kube_is_not_found err then Inl (KErr ''namespace not found for current environment'') else Inl err
      | Inr ns \<Rightarrow> Inr (TrimSpace ns))"

definition ConfigMapData ::
  "kerr + (string \<Rightarrow> string \<Rightarrow> kerr + (string, string) gomap) \<Rightarrow> string \<Rightarrow> string \<Rightarrow> kerr + (string, string) gomap" where
  "ConfigMapData newForConfig name namespace =
     (case newForConfig of
        Inl err \<Rightarrow> Inl err
      | Inr get \<Rightarrow>
          (case get namespace name of
             Inl err \<Rightarrow>
               if kube_is_not_found err then Inl (KErr (''configmaps '' @ name @ '' not found '' @ namespace)) else Inl err
           | Inr data \<Rightarrow> Inr data))"

definition CACrt ::
  "kerr + string \<Rightarrow> kerr + (string \<Rightarrow> string \<Rightarrow> kerr + (string, string) gomap) \<Rightarrow> kerr + string" where
  "CACrt readFile newForConfig =
     (case ServiceAccountNamespace readFile of
        Inl err \<Rightarrow> Inl err
      | Inr namespace \<Rightarrow>
          (case ConfigMapData newForConfig ''kube-root-ca.crt'' namespace of
             Inl err \<Rightarrow> Inl err
           | Inr data \<Rightarrow>
               (case map_of data ''ca.crt'' of
                  None \<Rightarrow> Inl (KErr ''ca.crt key not found'')
                | Some crt \<Rightarrow> Inr (b64_encode crt))))"

section \<open>Cumulative hash\<close>

definition fnv_step :: "64 word \<Rightarrow> char \<Rightarrow> 64 word" where
  "fnv_step h c = (h * 1099511628211) XOR of_nat (of_char c)"

definition NewFNVObjectHash :: "64 word" where
  "NewFNVObjectHash = 14695981039346656037"

definition hash_Write :: "64 word \<Rightarrow> string \<Rightarrow> 64 word" where
  "hash_Write h bs = foldl fnv_step h bs"

fun SumHash :: "('a \<Rightarrow> kerr + string) \<Rightarrow> 64 word \<Rightarrow> 'a list \<Rightarrow> 64 word \<times> kerr option" where
  "SumHash marshal h [] = (h, None)"
| "SumHash marshal h (v # vs) =
     (case marshal v of
        Inl err \<Rightarrow> (h, Some err)
      | Inr b \<Rightarrow> SumHash marshal (hash_Write h b) vs)"

definition hash_Reset :: "64 word \<Rightarrow> 64 word" where
  "hash_Reset h = NewFNVObjectHash"

fun hex_nat :: "nat \<Rightarrow> string" where
  "hex_nat n = (if n < 16 then [''0123456789abcdef'' ! n] else hex_nat (n div 16) @ [''0123456789abcdef'' ! (n mod 16)])"

declare hex_nat.simps [simp del]

definition GetHash :: "64 word \<Rightarrow> string" where
  "GetHash h = hex_nat (unat h)"

lemma hash_Write_append: "hash_Write h (a @ b) = hash_Write (hash_Write h a) b"
  by (simp add: hash_Write_def)

lemma SumHash_append:
  "SumHash marshal h (a @ b) =
     (case SumHash marshal h a of (h', Some e) \<Rightarrow> (h', Some e) | (h', None) \<Rightarrow> SumHash marshal h' b)"
  by (induction a arbitrary: h) (simp_all split: sum.splits)

lemma SumHash_ok:
  "SumHash marshal h vs = (h', None) \<longleftrightarrow> (\<exists>bs. map marshal vs = map Inr bs \<and> h' = hash_Write h (concat bs))"
proof (induction vs arbitrary: h)
  case Nil
  then show ?case by (auto simp: hash_Write_def)
next
  case (Cons v vs)
  show ?case
  proof (cases "marshal v")
    case (Inl e)
    then show ?thesis by (auto simp: map_eq_Cons_conv)
  next
    case (Inr b)
    have "(\<exists>bs. map marshal (v # vs) = map Inr bs \<and> h' = hash_Write h (concat bs)) \<longleftrightarrow>
        (\<exists>bs. map marshal vs = map Inr bs \<and> h' = hash_Write (hash_Write h b) (concat bs))"
      by (auto simp: Inr Cons_eq_map_conv hash_Write_append [symmetric])
    with Inr Cons show ?thesis by simp
  qed
qed

text \<open>
  The hash is cumulative.  Hashing values in one call or in several calls is the same; it succeeds exactly when
  every value can be marshalled, and is then the hash of the concatenated encodings.  A value that cannot be
  marshalled stops the call and leaves the hash of the values before it.
\<close>

theorem SumHash_cumulative:
  "SumHash marshal h (a @ b) =
     (case SumHash marshal h a of (h', Some e) \<Rightarrow> (h', Some e) | (h', None) \<Rightarrow> SumHash marshal h' b) \<and>
   (SumHash marshal h a = (h', None) \<longleftrightarrow> (\<exists>bs. map marshal a = map Inr bs \<and> h' = hash_Write h (concat bs))) \<and>
   (SumHash marshal h a = (h', Some e) \<longleftrightarrow>
     (\<exists>vs v ws bs. a = vs @ v # ws \<and> map marshal vs = map Inr bs \<and> marshal v = Inl e \<and> h' = hash_Write h (concat bs)))"
proof (intro conjI)
  show "SumHash marshal h a = (h', Some e) \<longleftrightarrow>
     (\<exists>vs v ws bs. a = vs @ v # ws \<and> map marshal vs = map Inr bs \<and> marshal v = Inl e \<and> h' = hash_Write h (concat bs))"
    (is "?l a h \<longleftrightarrow> ?r a h")
  proof
    show "?l a h \<Longrightarrow> ?r a h"
    proof (induction a arbitrary: h)
      case (Cons x a)
      show ?case
      proof (cases "marshal x")
        case (Inl e')
        with Cons.prems have "e' = e" "h' = h" by auto
        with Inl show ?thesis by (intro exI [of _ "[]"] exI [of _ x] exI [of _ a]) (simp add: hash_Write_def)
      next
        case (Inr b)
        with Cons.IH [of "hash_Write h b"] Cons.prems obtain vs v ws bs where
          "a = vs @ v # ws" "map marshal vs = map Inr bs" "marshal v = Inl e" "h' = hash_Write (hash_Write h b) (concat bs)"
          by auto
        with Inr show ?thesis
          by (intro exI [of _ "x # vs"] exI [of _ v] exI [of _ ws] exI [of _ "b # bs"]) (simp add: hash_Write_append)
      qed
    qed simp
    show "?r a h \<Longrightarrow> ?l a h"
      by (auto simp: SumHash_append dest: SumHash_ok [THEN iffD2, OF exI, OF conjI])
  qed
qed (rule SumHash_append SumHash_ok)+

text \<open>The boundaries between values are not part of the hash, and the hash is FNV-1, not FNV-1a.\<close>

theorem SumHash_forgets_boundaries:
  "SumHash (\<lambda>n. Inr (show_nat n)) NewFNVObjectHash [1, 23] = SumHash (\<lambda>n. Inr (show_nat n)) NewFNVObjectHash [12, 3]"
  by (simp add: hash_Write_def show_nat.simps)

theorem hash_is_not_FNV1a:
  "fst (SumHash (\<lambda>v. Inr v) NewFNVObjectHash [''a'']) \<noteq> (NewFNVObjectHash XOR of_nat (of_char CHR ''a'')) * 1099511628211"
  by (simp add: hash_Write_def fnv_step_def NewFNVObjectHash_def)

section \<open>A value of a Secret\<close>

text \<open>\<open>base64.StdEncoding.DecodeString\<close> skips line breaks.\<close>

definition std_decode :: "string \<Rightarrow> string option" where
  "std_decode s = b64_decode (filter (\<lambda>c. c \<noteq> CHR 0x0A \<and> c \<noteq> CHR 0x0D) s)"

definition GetSecretValue ::
  "(string \<Rightarrow> string \<Rightarrow> kerr + obj) \<Rightarrow> (obj \<Rightarrow> string \<Rightarrow> kerr + obj) \<Rightarrow> string \<Rightarrow> string \<Rightarrow> string \<Rightarrow> kerr + string" where
  "GetSecretValue get nestedMap ns name key =
     (case get ns name of
        Inl err \<Rightarrow> Inl err
      | Inr sec \<Rightarrow>
          (case nestedMap sec ''data'' of
             Inl err \<Rightarrow> Inl (KWrap (''reading data of secret '' @ ns @ ''/'' @ name) err)
           | Inr data \<Rightarrow>
               (case map_of data key of
                  None \<Rightarrow> Inl (KErr (''key '' @ key @ '' not found in secret '' @ ns @ ''/'' @ name))
                | Some (AString encoded) \<Rightarrow>
                    (case std_decode encoded of
                       None \<Rightarrow> Inl (KErr (''decoding key '' @ key @ '' in secret '' @ ns @ ''/'' @ name))
                     | Some decoded \<Rightarrow> Inr decoded)
                | Some _ \<Rightarrow> Inl (KErr (''value for key '' @ key @ '' in secret '' @ ns @ ''/'' @ name @ '' is not a string'')))))"

lemma b64_encode_chars: "c \<in> set (b64_encode s) \<Longrightarrow> c \<noteq> CHR 0x0A \<and> c \<noteq> CHR 0x0D"
proof -
  have alpha: "CHR 0x0A \<notin> set b64_alphabet" "CHR 0x0D \<notin> set b64_alphabet" by (simp_all add: b64_alphabet_def)
  have ne: "b64_char n \<noteq> CHR 0x0A \<and> b64_char n \<noteq> CHR 0x0D" if "n < 64" for n
    using alpha that unfolding b64_char_def by (metis b64_alphabet_distinct(2) nth_mem)
  have m1: "(of_char a :: nat) mod 4 * 16 + of_char b div 16 < 64" for a b
    using mod_less_divisor [of 4 "of_char a :: nat"] of_char_div(2) [of b] by linarith
  have m2: "(of_char b :: nat) mod 16 * 4 + of_char c div 64 < 64" for b c
    using mod_less_divisor [of 16 "of_char b :: nat"] of_char_div(3) [of c] by linarith
  show "c \<in> set (b64_encode s) \<Longrightarrow> c \<noteq> CHR 0x0A \<and> c \<noteq> CHR 0x0D"
  proof (induction s rule: b64_encode.induct)
    case (2 a)
    have "(of_char a :: nat) mod 4 * 16 < 64" by simp
    with 2 ne show ?case by (auto simp: Let_def)
  next
    case (3 a b)
    have "(of_char b :: nat) mod 16 * 4 < 64" by simp
    with 3 ne m1 show ?case by (auto simp: Let_def)
  next
    case (4 a b c rest)
    have "(of_char c :: nat) mod 64 < 64" by simp
    with 4 ne m1 m2 show ?case by (auto simp: Let_def)
  qed simp
qed

lemma std_decode_encode: "std_decode (b64_encode s) = Some s"
proof -
  have "filter (\<lambda>c. c \<noteq> CHR 0x0A \<and> c \<noteq> CHR 0x0D) (b64_encode s) = b64_encode s"
    using b64_encode_chars by (intro filter_True) blast
  then show ?thesis by (simp add: std_decode_def b64_decode_encode)
qed

theorem GetSecretValue_stored:
  assumes "get ns name = Inr sec" and "nestedMap sec ''data'' = Inr data" and "map_of data key = Some (AString (b64_encode v))"
  shows "GetSecretValue get nestedMap ns name key = Inr v"
  using assms by (simp add: GetSecretValue_def std_decode_encode)

end
