(* ===== verification/Endpoints.thy ===== *)
theory Endpoints
  imports Kube_Names
begin

text \<open>
  \<open>endpoints/types.go\<close>, \<open>endpoints/endpoints.go\<close> and \<open>endpoints/secrets.go\<close>: an endpoint with its credentials,
  stored as a Secret and read back.

  The REST client is the record \<open>secrets_api\<close> over an abstract state of the cluster; the locale \<open>secrets_laws\<close>
  states what the API server documents of Secrets, in particular that \<open>stringData\<close> is readable as
  \<open>data\<close>, and is interpreted on a store of Secrets.
\<close>

section \<open>Model\<close>

record endpoint =
  ep_ServerURL :: string
  ep_ProxyURL :: string
  ep_CertificateAuthorityData :: string
  ep_ClientCertificateData :: string
  ep_ClientKeyData :: string
  ep_Token :: string
  ep_Username :: string
  ep_Password :: string
  ep_Debug :: bool
  ep_Insecure :: bool
  ep_AwsAccessKey :: string
  ep_AwsSecretKey :: string
  ep_AwsRegion :: string
  ep_AwsService :: string
  ep_AwsTime :: string

definition zero_endpoint :: endpoint where
  "zero_endpoint = \<lparr>ep_ServerURL = [], ep_ProxyURL = [], ep_CertificateAuthorityData = [], ep_ClientCertificateData = [],
     ep_ClientKeyData = [], ep_Token = [], ep_Username = [], ep_Password = [], ep_Debug = False, ep_Insecure = False,
     ep_AwsAccessKey = [], ep_AwsSecretKey = [], ep_AwsRegion = [], ep_AwsService = [], ep_AwsTime = []\<rparr>"

definition HasCA :: "endpoint \<Rightarrow> bool" where
  "HasCA ep = (ep_CertificateAuthorityData ep \<noteq> [])"

definition HasBasicAuth :: "endpoint \<Rightarrow> bool" where
  "HasBasicAuth ep = (ep_Password ep \<noteq> [])"

definition HasTokenAuth :: "endpoint \<Rightarrow> bool" where
  "HasTokenAuth ep = (ep_Token ep \<noteq> [])"

definition HasCertAuth :: "endpoint \<Rightarrow> bool" where
  "HasCertAuth ep = (ep_ClientCertificateData ep \<noteq> [] \<and> ep_ClientKeyData ep \<noteq> [])"

definition HasAwsAuth :: "endpoint \<Rightarrow> bool" where
  "HasAwsAuth ep =
     (ep_AwsAccessKey ep \<noteq> [] \<and> ep_AwsSecretKey ep \<noteq> [] \<and> ep_AwsRegion ep \<noteq> [] \<and> ep_AwsSecretKey ep \<noteq> [])"

type_synonym smap' = "(string, string) gomap"

record 'w secrets_api =
  restClientFor :: "'w \<Rightarrow> kerr option"
  getSecret :: "'w \<Rightarrow> string \<Rightarrow> string \<Rightarrow> kerr + smap'"
  createSecret :: "'w \<Rightarrow> string \<Rightarrow> string \<Rightarrow> smap' \<Rightarrow> 'w \<times> kerr option"
  updateSecret :: "'w \<Rightarrow> string \<Rightarrow> string \<Rightarrow> smap' \<Rightarrow> 'w \<times> kerr option"
  isAlreadyExists :: "kerr \<Rightarrow> bool"

text \<open>\<open>strconv.ParseBool\<close> gives false on an error, which the code ignores.\<close>

definition parse_bool :: "string \<Rightarrow> bool" where
  "parse_bool s = (s \<in> {''1'', ''t'', ''T'', ''TRUE'', ''true'', ''True''})"

definition format_bool :: "bool \<Rightarrow> string" where
  "format_bool b = (if b then ''true'' else ''false'')"

definition at_label :: "smap' \<Rightarrow> string \<Rightarrow> string" where
  "at_label data k = (case map_of data k of None \<Rightarrow> [] | Some v \<Rightarrow> v)"

definition endpoint_of_data :: "smap' \<Rightarrow> kerr + endpoint" where
  "endpoint_of_data data =
     (if map_of data ''server-url'' = None
      then Inl (KErr ''missed required attribute for endpoint: server-url'')
      else Inr (zero_endpoint\<lparr>
        ep_ServerURL := at_label data ''server-url'', ep_ProxyURL := at_label data ''proxy-url'',
        ep_Token := at_label data ''token'', ep_Username := at_label data ''username'',
        ep_Password := at_label data ''password'',
        ep_CertificateAuthorityData := at_label data ''certificate-authority-data'',
        ep_ClientKeyData := at_label data ''client-key-data'',
        ep_ClientCertificateData := at_label data ''client-certificate-data'',
        ep_Debug := parse_bool (at_label data ''debug''), ep_Insecure := parse_bool (at_label data ''insecure''),
        ep_AwsAccessKey := at_label data ''aws-access-key'', ep_AwsSecretKey := at_label data ''aws-secret-key'',
        ep_AwsRegion := at_label data ''aws-region'', ep_AwsService := at_label data ''aws-service''\<rparr>))"

definition FromSecret :: "'w secrets_api \<Rightarrow> 'w \<Rightarrow> string \<Rightarrow> string \<Rightarrow> kerr + endpoint" where
  "FromSecret api w name namespace =
     (case restClientFor api w of
        Some err \<Rightarrow> Inl err
      | None \<Rightarrow>
          (case getSecret api w name namespace of
             Inl err \<Rightarrow> Inl err
           | Inr data \<Rightarrow> endpoint_of_data data))"

definition clientconfig_name :: "string \<Rightarrow> string" where
  "clientconfig_name user = MakeDNS1123Compatible user @ ''-clientconfig''"

definition string_data :: "endpoint \<Rightarrow> smap'" where
  "string_data ep =
     [(''username'', ep_Username ep), (''password'', ep_Password ep), (''token'', ep_Token ep),
      (''certificate-authority-data'', ep_CertificateAuthorityData ep),
      (''client-certificate-data'', ep_ClientCertificateData ep), (''client-key-data'', ep_ClientKeyData ep),
      (''server-url'', ep_ServerURL ep), (''proxy-url'', ep_ProxyURL ep),
      (''debug'', format_bool (ep_Debug ep)), (''insecure'', format_bool (ep_Insecure ep))]"

definition Store :: "'w secrets_api \<Rightarrow> 'w \<Rightarrow> string \<Rightarrow> endpoint \<Rightarrow> 'w \<times> kerr option" where
  "Store api w ns ep =
     (let name = clientconfig_name (ep_Username ep); sd = string_data ep in
      case restClientFor api w of
        Some err \<Rightarrow> (w, Some err)
      | None \<Rightarrow>
          (case createSecret api w name ns sd of
             (w1, None) \<Rightarrow> (w1, None)
           | (w1, Some err) \<Rightarrow>
               if \<not> isAlreadyExists api err then (w1, Some err)
               else updateSecret api w1 name ns sd))"

section \<open>What the API server documents\<close>

locale secrets_laws =
  fixes api :: "'w secrets_api"
  assumes get_created: "createSecret api w name ns sd = (w', None) \<Longrightarrow> getSecret api w' name ns = Inr sd"
    and get_updated: "updateSecret api w name ns sd = (w', None) \<Longrightarrow> getSecret api w' name ns = Inr sd"
    and create_failed: "createSecret api w name ns sd = (w', Some e) \<Longrightarrow> w' = w"
    and client_stable: "createSecret api w name ns sd = (w', r) \<Longrightarrow> restClientFor api w' = restClientFor api w"
      "updateSecret api w name ns sd = (w', r) \<Longrightarrow> restClientFor api w' = restClientFor api w"
begin

lemma stored:
  assumes "Store api w ns ep = (w', None)"
  shows "getSecret api w' (clientconfig_name (ep_Username ep)) ns = Inr (string_data ep) \<and> restClientFor api w' = None"
proof -
  have client: "restClientFor api w = None" using assms by (auto simp: Store_def Let_def split: option.splits)
  obtain w1 r where c: "createSecret api w (clientconfig_name (ep_Username ep)) ns (string_data ep) = (w1, r)" by fastforce
  show ?thesis
  proof (cases r)
    case None
    with c client assms have "w' = w1" by (simp add: Store_def)
    with c None client get_created client_stable(1) show ?thesis by metis
  next
    case (Some e)
    with c client assms have u: "updateSecret api w1 (clientconfig_name (ep_Username ep)) ns (string_data ep) = (w', None)"
      by (simp add: Store_def split: if_splits)
    moreover have "w1 = w" using c Some create_failed by blast
    ultimately show ?thesis using get_updated client_stable(2) client by metis
  qed
qed

end

text \<open>A store of Secrets, keyed by namespace and name.\<close>

type_synonym secret_store = "(string \<times> string, smap') gomap"

definition store_api :: "secret_store secrets_api" where
  "store_api = \<lparr>
     restClientFor = (\<lambda>w. None),
     getSecret = (\<lambda>w name ns. case map_of w (ns, name) of None \<Rightarrow> Inl (KNotFound name) | Some d \<Rightarrow> Inr d),
     createSecret = (\<lambda>w name ns sd. case map_of w (ns, name) of
        None \<Rightarrow> (AList.update (ns, name) sd w, None) | Some d \<Rightarrow> (w, Some (KErr ''already exists''))),
     updateSecret = (\<lambda>w name ns sd. case map_of w (ns, name) of
        None \<Rightarrow> (w, Some (KNotFound name)) | Some d \<Rightarrow> (AList.update (ns, name) sd w, None)),
     isAlreadyExists = (\<lambda>e. e = KErr ''already exists'')\<rparr>"

interpretation store: secrets_laws store_api
  by unfold_locales (auto simp: store_api_def split: option.splits)

section \<open>Properties\<close>

lemma parse_format_bool [simp]: "parse_bool (format_bool b) = b"
  by (simp add: parse_bool_def format_bool_def)

lemma endpoint_of_string_data:
  "endpoint_of_data (string_data ep) =
     Inr (ep\<lparr>ep_AwsAccessKey := [], ep_AwsSecretKey := [], ep_AwsRegion := [], ep_AwsService := [], ep_AwsTime := []\<rparr>)"
  by (simp add: endpoint_of_data_def string_data_def at_label_def zero_endpoint_def)

text \<open>
  An endpoint can be read back.  After \<open>Store\<close> succeeded, by creating the Secret or by updating one that
  existed, \<open>FromSecret\<close> with the name derived from the user returns the endpoint, with every credential,
  the URLs and the flags; only the AWS fields are empty, because \<open>Store\<close> does not write them.
\<close>

theorem Store_FromSecret:
  assumes "secrets_laws api" and "Store api w ns ep = (w', None)"
  shows "FromSecret api w' (clientconfig_name (ep_Username ep)) ns =
    Inr (ep\<lparr>ep_AwsAccessKey := [], ep_AwsSecretKey := [], ep_AwsRegion := [], ep_AwsService := [], ep_AwsTime := []\<rparr>)"
  using secrets_laws.stored [OF assms] by (simp add: FromSecret_def endpoint_of_string_data)

definition example_endpoint :: "string \<Rightarrow> endpoint" where
  "example_endpoint user = zero_endpoint\<lparr>ep_ServerURL := ''https://k'', ep_Token := ''t'', ep_Username := user, ep_Debug := True\<rparr>"

theorem Store_FromSecret_witness:
  "FromSecret store_api (fst (Store store_api [((''ns'', ''joe-clientconfig''), [])] ''ns'' (example_endpoint ''Joe''))) ''joe-clientconfig'' ''ns'' =
     Inr (example_endpoint ''Joe'')"
proof -
  have n: "clientconfig_name (ep_Username (example_endpoint ''Joe'')) = ''joe-clientconfig''"
    by (simp add: example_endpoint_def) code_simp
  then obtain w' where "Store store_api [((''ns'', ''joe-clientconfig''), [])] ''ns'' (example_endpoint ''Joe'') = (w', None)"
    by (simp add: Store_def store_api_def)
  from Store_FromSecret [OF store.secrets_laws_axioms this] this n show ?thesis
    by (simp add: example_endpoint_def zero_endpoint_def)
qed

text \<open>An endpoint without the AWS service counts as having AWS credentials: the secret key is tested twice.\<close>

theorem HasAwsAuth_without_service:
  "HasAwsAuth (zero_endpoint\<lparr>ep_AwsAccessKey := ''a'', ep_AwsSecretKey := ''s'', ep_AwsRegion := ''r''\<rparr>)"
  by (simp add: HasAwsAuth_def zero_endpoint_def)

end
