(* ===== verification/Http_Types.thy ===== *)
theory Http_Types
  imports Jwt_Token Endpoints
begin

text \<open>
  HTTP as the server packages use it: headers, requests with their context, responses and handlers of
  \<open>net/http\<close>; the context values of \<open>context/context.go\<close>; and \<open>http/response\<close> (\<open>Status\<close>, \<open>New\<close>, \<open>Encode\<close>, \<open>AsMap\<close> and
  the shortcuts per status code).

  A handler transforms the state of a server: the response under construction, the log, and a world that holds
  whatever the handlers share.  The first \<open>WriteHeader\<close> fixes the status and the headers that are sent.
  Errors stay structured in \<open>Status\<close>; \<open>errText\<close> is the text that \<open>Error()\<close> prints.
\<close>

section \<open>Headers\<close>

type_synonym header = "(string, string list) gomap"

definition is_token_char :: "char \<Rightarrow> bool" where
  "is_token_char c = (is_lower c \<or> is_upper c \<or> is_digit c \<or> c \<in> set ''!#$%&*+-.^_|~'' \<or> c = CHR 0x27 \<or> c = CHR 0x60)"

fun canonical_from :: "bool \<Rightarrow> string \<Rightarrow> string" where
  "canonical_from upper [] = []"
| "canonical_from upper (c # cs) =
     (if upper then upper_char c else lower_char c) # canonical_from (c = CHR ''-'') cs"

definition CanonicalHeaderKey :: "string \<Rightarrow> string" where
  "CanonicalHeaderKey s = (if list_all is_token_char s then canonical_from True s else s)"

definition header_Get :: "header \<Rightarrow> string \<Rightarrow> string" where
  "header_Get h k = (case map_of h (CanonicalHeaderKey k) of Some (v # vs) \<Rightarrow> v | _ \<Rightarrow> [])"

definition header_Set :: "header \<Rightarrow> string \<Rightarrow> string \<Rightarrow> header" where
  "header_Set h k v = AList.update (CanonicalHeaderKey k) [v] h"

definition header_Add :: "header \<Rightarrow> string \<Rightarrow> string \<Rightarrow> header" where
  "header_Add h k v =
     AList.update (CanonicalHeaderKey k) ((case map_of h (CanonicalHeaderKey k) of None \<Rightarrow> [] | Some vs \<Rightarrow> vs) @ [v]) h"

definition header_values :: "header \<Rightarrow> string \<Rightarrow> string list" where
  "header_values h k = (case map_of h (CanonicalHeaderKey k) of None \<Rightarrow> [] | Some vs \<Rightarrow> vs)"

lemma header_values_Set:
  "header_values (header_Set h k v) k' = (if CanonicalHeaderKey k' = CanonicalHeaderKey k then [v] else header_values h k')"
  by (simp add: header_values_def header_Set_def)

lemma header_values_Add:
  "header_values (header_Add h k v) k' = header_values h k' @ (if CanonicalHeaderKey k' = CanonicalHeaderKey k then [v] else [])"
  by (simp add: header_values_def header_Add_def)

lemma header_Get_values: "header_Get h k = (case header_values h k of [] \<Rightarrow> [] | v # vs \<Rightarrow> v)"
  by (simp add: header_Get_def header_values_def split: option.splits list.splits)

section \<open>Context\<close>

datatype log_attr = Attr string string | Group string "log_attr list"

type_synonym logger = "log_attr list"

record ctx =
  cx_traceId :: "string option"
  cx_logger :: "logger option"
  cx_userConfig :: "endpoint option"
  cx_userInfo :: "UserInfo option"
  cx_accessToken :: "string option"

definition background :: ctx where
  "background = \<lparr>cx_traceId = None, cx_logger = None, cx_userConfig = None, cx_userInfo = None, cx_accessToken = None\<rparr>"

type_synonym WithContextFunc = "ctx \<Rightarrow> ctx"

definition WithTraceId :: "string \<Rightarrow> WithContextFunc" where
  "WithTraceId traceId cx = cx\<lparr>cx_traceId := Some traceId\<rparr>"

text \<open>\<open>TraceId\<close>; with \<open>generate\<close> a missing identifier is drawn from the generator, \<open>None\<close> is its panic.\<close>

definition context_TraceId :: "('x \<Rightarrow> 'x \<times> string option) \<Rightarrow> bool \<Rightarrow> ctx \<Rightarrow> 'x \<Rightarrow> 'x \<times> string option" where
  "context_TraceId mustGenerate generate cx w =
     (case cx_traceId cx of
        Some t \<Rightarrow> (w, Some t)
      | None \<Rightarrow> if generate then mustGenerate w else (w, Some []))"

text \<open>\<open>TraceId\<close> without generation, as the loggers call it.\<close>

definition ctx_TraceId :: "ctx \<Rightarrow> string" where
  "ctx_TraceId cx = (case cx_traceId cx of None \<Rightarrow> [] | Some t \<Rightarrow> t)"

definition WithLogger :: "logger \<Rightarrow> logger option \<Rightarrow> WithContextFunc" where
  "WithLogger fallback root' cx =
     cx\<lparr>cx_logger := Some ((case root' of None \<Rightarrow> fallback | Some l \<Rightarrow> l) @ [Attr ''traceId'' (ctx_TraceId cx)])\<rparr>"

definition WithUserConfig :: "endpoint \<Rightarrow> WithContextFunc" where
  "WithUserConfig ep cx = cx\<lparr>cx_userConfig := Some ep\<rparr>"

definition WithUserInfo :: "UserInfo \<Rightarrow> WithContextFunc" where
  "WithUserInfo ui cx = cx\<lparr>cx_userInfo := Some ui\<rparr>"

definition WithAccessToken :: "string \<Rightarrow> WithContextFunc" where
  "WithAccessToken tok cx = cx\<lparr>cx_accessToken := Some tok\<rparr>"

definition BuildContext :: "ctx \<Rightarrow> WithContextFunc list \<Rightarrow> ctx" where
  "BuildContext cx opts = foldl (\<lambda>c f. f c) cx opts"

text \<open>The readers of the context; outside test mode the server address of the endpoint is the cluster's.\<close>

definition ctx_UserConfig :: "bool \<Rightarrow> ctx \<Rightarrow> kerr + endpoint" where
  "ctx_UserConfig testMode cx =
     (case cx_userConfig cx of
        None \<Rightarrow> Inl (KErr ''user *Endpoint not found in context'')
      | Some ep \<Rightarrow> Inr (if testMode then ep else ep\<lparr>ep_ServerURL := ''https://kubernetes.default.svc''\<rparr>))"

definition ctx_UserInfo :: "ctx \<Rightarrow> kerr + UserInfo" where
  "ctx_UserInfo cx = (case cx_userInfo cx of None \<Rightarrow> Inl (KErr ''user info not found in context'') | Some ui \<Rightarrow> Inr ui)"

definition ctx_AccessToken :: "ctx \<Rightarrow> string \<times> bool" where
  "ctx_AccessToken cx = (case cx_accessToken cx of None \<Rightarrow> ([], False) | Some t \<Rightarrow> (t, True))"

definition ctx_Logger :: "ctx \<Rightarrow> logger" where
  "ctx_Logger cx = (case cx_logger cx of None \<Rightarrow> [Attr ''traceId'' (ctx_TraceId cx)] | Some l \<Rightarrow> l)"

lemma context_TraceId_plain: "context_TraceId g False cx w = (w, Some (ctx_TraceId cx))"
  by (simp add: context_TraceId_def ctx_TraceId_def split: option.split)

section \<open>Requests, responses, handlers\<close>

record request =
  rq_Method :: string
  rq_URL :: string
  rq_RemoteAddr :: string
  rq_Header :: header
  rq_ctx :: ctx

record response =
  rw_Header :: header
  rw_Status :: "int option"
  rw_Sent :: header
  rw_Body :: string

record 'x server =
  sv_resp :: response
  sv_log :: "logger list"
  sv_aborted :: bool
  sv_world :: 'x

type_synonym 'x handler = "request \<Rightarrow> 'x server \<Rightarrow> 'x server"

definition WriteHeader :: "int \<Rightarrow> response \<Rightarrow> response" where
  "WriteHeader code w =
     (case rw_Status w of None \<Rightarrow> w\<lparr>rw_Status := Some code, rw_Sent := rw_Header w\<rparr> | Some c \<Rightarrow> w)"

definition write_body :: "string \<Rightarrow> response \<Rightarrow> response" where
  "write_body b w = (let w' = WriteHeader 200 w in w'\<lparr>rw_Body := rw_Body w' @ b\<rparr>)"

definition on_resp :: "(response \<Rightarrow> response) \<Rightarrow> 'x server \<Rightarrow> 'x server" where
  "on_resp f st = st\<lparr>sv_resp := f (sv_resp st)\<rparr>"

section \<open>Status responses\<close>

datatype herr = HText string | HJwt jerr | HKube kerr | HWrap string herr

record status =
  st_Kind :: string
  st_APIVersion :: string
  st_Status :: string
  st_Message :: "herr option"
  st_Reason :: string
  st_Code :: int

definition status_reason :: "int \<Rightarrow> string option" where
  "status_reason code =
     (if code = 422 then Some ''UnprocessableEntity''
      else if code = 401 then Some ''Unauthorized''
      else if code = 403 then Some ''Forbidden''
      else if code = 404 then Some ''NotFound''
      else if code = 409 then Some ''Conflict''
      else if code = 410 then Some ''Gone''
      else if code = 501 then Some ''Invalid''
      else if code = 400 then Some ''BadRequest''
      else if code = 503 then Some ''ServiceUnavailable''
      else if code = 406 then Some ''NotAcceptable''
      else if code = 405 then Some ''MethodNotAllowed''
      else if code = 500 then Some ''InternalError''
      else if code = 413 then Some ''RequestEntityTooLarge''
      else if code = 415 then Some ''UnsupportedMediaType''
      else None)"

definition status_New :: "int \<Rightarrow> herr option \<Rightarrow> status" where
  "status_New code err =
     \<lparr>st_Kind = ''Status'', st_APIVersion = ''v1'',
      st_Status = (if status_reason code = None then ''Success'' else ''Failure''),
      st_Message = err, st_Reason = (case status_reason code of None \<Rightarrow> [] | Some r \<Rightarrow> r), st_Code = code\<rparr>"

text \<open>The JSON members of a status, the empty ones left out.\<close>

definition AsMap :: "(herr \<Rightarrow> string) \<Rightarrow> status \<Rightarrow> obj" where
  "AsMap errText s =
     filter (\<lambda>(k, v). v \<noteq> AString [] \<and> v \<noteq> AFloat64 0)
       [(''kind'', AString (st_Kind s)), (''apiVersion'', AString (st_APIVersion s)), (''status'', AString (st_Status s)),
        (''message'', AString (case st_Message s of None \<Rightarrow> [] | Some e \<Rightarrow> errText e)),
        (''reason'', AString (st_Reason s)), (''code'', AFloat64 (of_int (st_Code s)))]"

definition response_Encode :: "(status \<Rightarrow> string) \<Rightarrow> status \<Rightarrow> response \<Rightarrow> response" where
  "response_Encode toJSON s w =
     write_body (toJSON s) (WriteHeader (st_Code s) (w\<lparr>rw_Header := header_Set (rw_Header w) ''Content-Type'' ''application/json''\<rparr>))"

definition reply :: "(status \<Rightarrow> string) \<Rightarrow> int \<Rightarrow> herr \<Rightarrow> response \<Rightarrow> response" where
  "reply toJSON code err = response_Encode toJSON (status_New code (Some err))"

definition Unauthorized :: "(status \<Rightarrow> string) \<Rightarrow> herr \<Rightarrow> response \<Rightarrow> response" where
  "Unauthorized toJSON = reply toJSON 401"

definition InternalError :: "(status \<Rightarrow> string) \<Rightarrow> herr \<Rightarrow> response \<Rightarrow> response" where
  "InternalError toJSON = reply toJSON 500"

definition ServiceUnavailable :: "(status \<Rightarrow> string) \<Rightarrow> herr \<Rightarrow> response \<Rightarrow> response" where
  "ServiceUnavailable toJSON = reply toJSON 503"

definition BadRequest :: "(status \<Rightarrow> string) \<Rightarrow> herr \<Rightarrow> response \<Rightarrow> response" where
  "BadRequest toJSON = reply toJSON 400"

definition NotAcceptable :: "(status \<Rightarrow> string) \<Rightarrow> herr \<Rightarrow> response \<Rightarrow> response" where
  "NotAcceptable toJSON = reply toJSON 406"

definition MethodNotAllowed :: "(status \<Rightarrow> string) \<Rightarrow> herr \<Rightarrow> response \<Rightarrow> response" where
  "MethodNotAllowed toJSON = reply toJSON 405"

definition response_NotFound :: "(status \<Rightarrow> string) \<Rightarrow> herr \<Rightarrow> response \<Rightarrow> response" where
  "response_NotFound toJSON = reply toJSON 404"

definition Forbidden :: "(status \<Rightarrow> string) \<Rightarrow> herr \<Rightarrow> response \<Rightarrow> response" where
  "Forbidden toJSON = reply toJSON 403"

lemma reply_status: "rw_Status w = None \<Longrightarrow> rw_Status (reply toJSON code err w) = Some code"
  by (simp add: reply_def response_Encode_def write_body_def WriteHeader_def status_New_def Let_def)

text \<open>
  A failure whose code is not in the table is reported as a success: 429 and 504 have reasons of their own
  (\<open>TooManyRequests\<close>, \<open>Timeout\<close>) that \<open>New\<close> never uses.
\<close>

theorem status_New_reports_success:
  "st_Status (status_New 429 (Some e)) = ''Success'' \<and> st_Status (status_New 504 (Some e)) = ''Success''"
  by (simp add: status_New_def status_reason_def)

end
