(* ===== verification/Server_Cors.thy ===== *)
theory Server_Cors
  imports Http_Types
begin

text \<open>
  \<open>server/use/cors\<close> and \<open>server/use/cors.go\<close>: the CORS middleware.

  \<open>cors_New\<close> normalises the options, \<open>handlePreflight\<close> and \<open>handleActualRequest\<close> are the decisions on the
  response headers, \<open>cors_Handler\<close> the middleware.  The debug log is left out.  Origins, methods and header names
  are ASCII text.

  Shown: the headers of a response are exactly those that the options ask for, for the requests that the options
  admit, where the admission is specified on the options themselves; lists of header names are parsed
  back; preflight requests stop at the middleware.  Two cases in which the code departs from the documentation of the
  options are left out of the specification and shown on their own.
\<close>

section \<open>Wildcards and header lists\<close>

record wildcard =
  wc_prefix :: string
  wc_suffix :: string

definition wildcard_match :: "wildcard \<Rightarrow> string \<Rightarrow> bool" where
  "wildcard_match w s =
     (length s \<ge> length (wc_prefix w @ wc_suffix w) \<and> HasPrefix s (wc_prefix w) \<and> HasSuffix s (wc_suffix w))"

definition convert :: "string list \<Rightarrow> (string \<Rightarrow> string) \<Rightarrow> string list" where
  "convert s c = map c s"

text \<open>The bytes that a header name collects, converted to the case its position asks for.\<close>

definition header_byte :: "bool \<Rightarrow> char \<Rightarrow> string" where
  "header_byte upper b =
     (if is_lower b then [if upper then upper_char b else b]
      else if is_upper b then [if upper then b else lower_char b]
      else if b = CHR ''-'' \<or> b = CHR ''_'' \<or> b = CHR ''.'' \<or> is_digit b then [b]
      else [])"

text \<open>The scan: the rest of the input, the name under construction and whether the next letter is a capital.\<close>

fun parse_headers :: "string \<Rightarrow> string \<Rightarrow> bool \<Rightarrow> string list" where
  "parse_headers [] h upper = []"
| "parse_headers (b # bs) h upper =
     (let h' = h @ header_byte upper b in
      if b = CHR '' '' \<or> b = CHR '','' \<or> bs = []
      then (if h' \<noteq> [] then h' # parse_headers bs [] True else parse_headers bs h' upper)
      else parse_headers bs h' (b = CHR ''-''))"

definition parseHeaderList :: "string \<Rightarrow> string list" where
  "parseHeaderList headerList = parse_headers headerList [] True"

section \<open>Configuration\<close>

record cors_options =
  co_AllowedOrigins :: "string list"
  co_AllowOriginFunc :: "(request \<Rightarrow> string \<Rightarrow> bool) option"
  co_AllowedMethods :: "string list"
  co_AllowedHeaders :: "string list"
  co_ExposedHeaders :: "string list"
  co_AllowCredentials :: bool
  co_MaxAge :: int
  co_OptionsPassthrough :: bool

record cors =
  cs_allowedOrigins :: "string list"
  cs_allowedWOrigins :: "wildcard list"
  cs_allowOriginFunc :: "(request \<Rightarrow> string \<Rightarrow> bool) option"
  cs_allowedHeaders :: "string list"
  cs_allowedMethods :: "string list"
  cs_exposedHeaders :: "string list"
  cs_maxAge :: int
  cs_allowedOriginsAll :: bool
  cs_allowedHeadersAll :: bool
  cs_allowCredentials :: bool
  cs_optionPassthrough :: bool

text \<open>The loop over the allowed origins: all of them, or the plain ones and the wildcards.\<close>

fun split_origins :: "string list \<Rightarrow> string list \<Rightarrow> wildcard list \<Rightarrow> bool \<times> string list \<times> wildcard list" where
  "split_origins [] plain wild = (False, plain, wild)"
| "split_origins (o' # os) plain wild =
     (let origin = ToLower o' in
      if origin = ''*'' then (True, [], [])
      else case IndexByte origin (CHR ''*'') of
             Some i \<Rightarrow> split_origins os plain (wild @ [\<lparr>wc_prefix = take i origin, wc_suffix = drop (Suc i) origin\<rparr>])
           | None \<Rightarrow> split_origins os (plain @ [origin]) wild)"

definition cors_New :: "cors_options \<Rightarrow> cors" where
  "cors_New options =
     (let (all, plain, wild) =
            (if co_AllowedOrigins options = [] then (co_AllowOriginFunc options = None, [], [])
             else split_origins (co_AllowedOrigins options) [] []);
          headersAll = (''*'' \<in> set (co_AllowedHeaders options))
      in \<lparr>cs_allowedOrigins = plain, cs_allowedWOrigins = wild, cs_allowOriginFunc = co_AllowOriginFunc options,
          cs_allowedHeaders =
            (if co_AllowedHeaders options = [] then [''Origin'', ''Accept'', ''Content-Type'']
             else if headersAll then []
             else convert (co_AllowedHeaders options @ [''Origin'']) CanonicalHeaderKey),
          cs_allowedMethods =
            (if co_AllowedMethods options = [] then [''GET'', ''POST'', ''HEAD'']
             else convert (co_AllowedMethods options) ToUpper),
          cs_exposedHeaders = convert (co_ExposedHeaders options) CanonicalHeaderKey,
          cs_maxAge = co_MaxAge options, cs_allowedOriginsAll = all, cs_allowedHeadersAll = headersAll,
          cs_allowCredentials = co_AllowCredentials options,
          cs_optionPassthrough = co_OptionsPassthrough options\<rparr>)"

definition AllowAll :: cors where
  "AllowAll = cors_New \<lparr>co_AllowedOrigins = [''*''], co_AllowOriginFunc = None,
     co_AllowedMethods = [''HEAD'', ''GET'', ''POST'', ''PUT'', ''PATCH'', ''DELETE''], co_AllowedHeaders = [''*''],
     co_ExposedHeaders = [], co_AllowCredentials = False, co_MaxAge = 0, co_OptionsPassthrough = False\<rparr>"

section \<open>Decisions\<close>

definition isOriginAllowed :: "cors \<Rightarrow> request \<Rightarrow> string \<Rightarrow> bool" where
  "isOriginAllowed c r origin =
     (case cs_allowOriginFunc c of
        Some f \<Rightarrow> f r origin
      | None \<Rightarrow>
          if cs_allowedOriginsAll c then True
          else let low = ToLower origin in
               low \<in> set (cs_allowedOrigins c) \<or> list_ex (\<lambda>w. wildcard_match w low) (cs_allowedWOrigins c))"

definition isMethodAllowed :: "cors \<Rightarrow> string \<Rightarrow> bool" where
  "isMethodAllowed c meth =
     (if cs_allowedMethods c = [] then False
      else if ToUpper meth = ''OPTIONS'' then True
      else ToUpper meth \<in> set (cs_allowedMethods c))"

definition areHeadersAllowed :: "cors \<Rightarrow> string list \<Rightarrow> bool" where
  "areHeadersAllowed c requestedHeaders =
     (if cs_allowedHeadersAll c \<or> requestedHeaders = [] then True
      else list_all (\<lambda>h. CanonicalHeaderKey h \<in> set (cs_allowedHeaders c)) requestedHeaders)"

definition allow_origin_value :: "cors \<Rightarrow> string \<Rightarrow> string" where
  "allow_origin_value c origin = (if cs_allowedOriginsAll c then ''*'' else origin)"

definition handlePreflight :: "cors \<Rightarrow> request \<Rightarrow> header \<Rightarrow> header" where
  "handlePreflight c r headers =
     (let origin = header_Get (rq_Header r) ''Origin'' in
      if rq_Method r \<noteq> ''OPTIONS'' then headers
      else let h1 = header_Add (header_Add (header_Add headers ''Vary'' ''Origin'') ''Vary'' ''Access-Control-Request-Method'')
                      ''Vary'' ''Access-Control-Request-Headers'' in
           if origin = [] then h1
           else if \<not> isOriginAllowed c r origin then h1
           else let reqMethod = header_Get (rq_Header r) ''Access-Control-Request-Method'' in
                if \<not> isMethodAllowed c reqMethod then h1
                else let reqHeaders = parseHeaderList (header_Get (rq_Header r) ''Access-Control-Request-Headers'') in
                     if \<not> areHeadersAllowed c reqHeaders then h1
                     else let h2 = header_Set h1 ''Access-Control-Allow-Origin'' (allow_origin_value c origin);
                              h3 = header_Set h2 ''Access-Control-Allow-Methods'' (ToUpper reqMethod);
                              h4 = (if reqHeaders \<noteq> [] then header_Set h3 ''Access-Control-Allow-Headers'' (Join reqHeaders '', '') else h3);
                              h5 = (if cs_allowCredentials c then header_Set h4 ''Access-Control-Allow-Credentials'' ''true'' else h4)
                          in if cs_maxAge c > 0 then header_Set h5 ''Access-Control-Max-Age'' (Itoa (cs_maxAge c)) else h5)"

definition handleActualRequest :: "cors \<Rightarrow> request \<Rightarrow> header \<Rightarrow> header" where
  "handleActualRequest c r headers =
     (let origin = header_Get (rq_Header r) ''Origin''; h1 = header_Add headers ''Vary'' ''Origin'' in
      if origin = [] then h1
      else if \<not> isOriginAllowed c r origin then h1
      else if \<not> isMethodAllowed c (rq_Method r) then h1
      else let h2 = header_Set h1 ''Access-Control-Allow-Origin'' (allow_origin_value c origin);
               h3 = (if cs_exposedHeaders c \<noteq> [] then header_Set h2 ''Access-Control-Expose-Headers'' (Join (cs_exposedHeaders c) '', '') else h2)
           in if cs_allowCredentials c then header_Set h3 ''Access-Control-Allow-Credentials'' ''true'' else h3)"

definition is_preflight :: "request \<Rightarrow> bool" where
  "is_preflight r = (rq_Method r = ''OPTIONS'' \<and> header_Get (rq_Header r) ''Access-Control-Request-Method'' \<noteq> [])"

definition on_header :: "(header \<Rightarrow> header) \<Rightarrow> 'x server \<Rightarrow> 'x server" where
  "on_header f = on_resp (\<lambda>w. w\<lparr>rw_Header := f (rw_Header w)\<rparr>)"

definition cors_Handler :: "cors \<Rightarrow> 'x handler \<Rightarrow> 'x handler" where
  "cors_Handler c next r st =
     (if is_preflight r
      then let st' = on_header (handlePreflight c r) st in
           if cs_optionPassthrough c then next r st' else on_resp (WriteHeader 200) st'
      else next r (on_header (handleActualRequest c r) st))"

definition use_CORS :: "cors_options \<Rightarrow> 'x handler \<Rightarrow> 'x handler" where
  "use_CORS opts = cors_Handler (cors_New opts)"

section \<open>Lists of header names\<close>

definition is_name_byte :: "char \<Rightarrow> bool" where
  "is_name_byte b = (is_lower b \<or> is_upper b \<or> is_digit b \<or> b \<in> {CHR ''-'', CHR ''_'', CHR ''.''})"

definition canonical_name :: "string \<Rightarrow> bool" where
  "canonical_name h = (h \<noteq> [] \<and> list_all is_name_byte h \<and> canonical_from True h = h)"

lemma header_byte_canonical:
  "is_name_byte b \<Longrightarrow> (if upper then upper_char b else lower_char b) = b \<Longrightarrow> header_byte upper b = [b]"
  by (auto simp: header_byte_def is_name_byte_def upper_char_def lower_char_def is_lower_def is_upper_def less_eq_char_def
      split: if_splits)

lemma name_byte_sep: "is_name_byte b \<Longrightarrow> b \<noteq> CHR '' '' \<and> b \<noteq> CHR '',''"
  by (auto simp: is_name_byte_def is_lower_def is_upper_def is_digit_def less_eq_char_def)

lemma parse_last_name:
  "h \<noteq> [] \<Longrightarrow> list_all is_name_byte h \<Longrightarrow> canonical_from upper h = h \<Longrightarrow> parse_headers h acc upper = [acc @ h]"
proof (induction h arbitrary: acc upper)
  case (Cons b h)
  then have hb: "header_byte upper b = [b]" by (intro header_byte_canonical) auto
  show ?case
  proof (cases "h = []")
    case True
    with hb show ?thesis by simp
  next
    case False
    with Cons.IH [of "b = CHR ''-''" "acc @ [b]"] Cons.prems hb name_byte_sep [of b] show ?thesis by (simp add: Let_def)
  qed
qed simp

lemma parse_next_name:
  "acc @ h \<noteq> [] \<Longrightarrow> list_all is_name_byte h \<Longrightarrow> canonical_from upper h = h \<Longrightarrow>
   parse_headers (h @ CHR '','' # CHR '' '' # rest) acc upper = (acc @ h) # parse_headers rest [] True"
proof (induction h arbitrary: acc upper)
  case Nil
  have "header_byte u (CHR '','') = []" "header_byte u (CHR '' '') = []" for u
    by (simp_all add: header_byte_def is_lower_def is_upper_def is_digit_def less_eq_char_def)
  with Nil show ?case by simp
next
  case (Cons b h)
  then have hb: "header_byte upper b = [b]" by (intro header_byte_canonical) auto
  with Cons.IH [of "acc @ [b]" "b = CHR ''-''"] Cons.prems name_byte_sep [of b] show ?case by (simp add: Let_def)
qed

text \<open>
  Header lists are read back.  A list of header names in canonical form, printed with commas and spaces, as
  the middleware itself prints it into \<open>Access-Control-Allow-Headers\<close>, is parsed to the same names.
\<close>

theorem parseHeaderList_Join:
  assumes "\<forall>h\<in>set hs. canonical_name h"
  shows "parseHeaderList (Join hs '', '') = hs"
  unfolding parseHeaderList_def using assms
proof (induction hs rule: induct_list012)
  case (2 h)
  then show ?case using parse_last_name [of h True "[]"] by (simp add: canonical_name_def)
next
  case (3 h h' hs)
  then show ?case using parse_next_name [of "[]" h True "Join (h' # hs) '', ''"] by (simp add: canonical_name_def)
qed simp

theorem parseHeaderList_Join_witness:
  "parseHeaderList ''X-Request-Id, Accept'' = [''X-Request-Id'', ''Accept''] \<and>
   parseHeaderList ''x-request-id,accept'' = [''X-Request-Id'', ''Accept'']"
proof -
  have "\<forall>h\<in>set [''X-Request-Id'', ''Accept'']. canonical_name h" by code_simp
  from parseHeaderList_Join [OF this] have "parseHeaderList ''X-Request-Id, Accept'' = [''X-Request-Id'', ''Accept'']" by simp
  moreover have "parseHeaderList ''x-request-id,accept'' = [''X-Request-Id'', ''Accept'']" by code_simp
  ultimately show ?thesis by simp
qed

section \<open>Origins\<close>

lemma wildcard_match_iff: "wildcard_match w s \<longleftrightarrow> (\<exists>m. s = wc_prefix w @ m @ wc_suffix w)"
proof
  assume w: "wildcard_match w s"
  have "\<exists>t. s = wc_prefix w @ t" and "\<exists>u. s = u @ wc_suffix w"
    using w by (simp_all add: wildcard_match_def HasPrefix_iff HasSuffix_iff)
  then obtain t u where t: "s = wc_prefix w @ t" and u: "s = u @ wc_suffix w" by blast
  have "length (wc_prefix w) \<le> length u" using w u by (simp add: wildcard_match_def)
  then obtain m where "u = wc_prefix w @ m"
    using t u by (metis append_eq_append_conv_if append_eq_conv_conj append_take_drop_id)
  with u show "\<exists>m. s = wc_prefix w @ m @ wc_suffix w" by auto
qed (auto simp: wildcard_match_def HasPrefix_iff HasSuffix_iff)

text \<open>
  What a configured origin admits, ignoring case: itself, or, split at its first asterisk, everything that
  starts and ends like it without overlap.
\<close>

definition origin_matches :: "string \<Rightarrow> string \<Rightarrow> bool" where
  "origin_matches pat origin =
     (if CHR ''*'' \<in> set (ToLower pat)
      then \<exists>a m b. ToLower pat = a @ CHR ''*'' # b \<and> CHR ''*'' \<notin> set a \<and> ToLower origin = a @ m @ b
      else ToLower origin = ToLower pat)"

lemma split_at_unique: "a @ c # b = a' @ c # b' \<Longrightarrow> c \<notin> set a \<Longrightarrow> c \<notin> set a' \<Longrightarrow> a = a' \<and> b = b'"
proof (induction a arbitrary: a')
  case Nil
  then show ?case by (cases a') auto
next
  case (Cons x a)
  then show ?case by (cases a') auto
qed

lemma origin_matches_wild:
  assumes "IndexByte (ToLower pat) (CHR ''*'') = Some i"
  shows "origin_matches pat origin \<longleftrightarrow>
    wildcard_match \<lparr>wc_prefix = take i (ToLower pat), wc_suffix = drop (Suc i) (ToLower pat)\<rparr> (ToLower origin)"
proof -
  have i: "CHR ''*'' \<notin> set (take i (ToLower pat))" "ToLower pat = take i (ToLower pat) @ CHR ''*'' # drop (Suc i) (ToLower pat)"
    using IndexByte_Some [OF assms] by auto
  then have star: "CHR ''*'' \<in> set (ToLower pat)" by (metis in_set_conv_decomp)
  have "(ToLower pat = a @ CHR ''*'' # b \<and> CHR ''*'' \<notin> set a) \<longleftrightarrow> a = take i (ToLower pat) \<and> b = drop (Suc i) (ToLower pat)" for a b
    using i split_at_unique by metis
  then have "(\<exists>a m b. ToLower pat = a @ CHR ''*'' # b \<and> CHR ''*'' \<notin> set a \<and> ToLower origin = a @ m @ b) \<longleftrightarrow>
      (\<exists>m. ToLower origin = take i (ToLower pat) @ m @ drop (Suc i) (ToLower pat))" by metis
  with star show ?thesis unfolding origin_matches_def wildcard_match_iff by simp
qed

lemma split_origins_match:
  "split_origins os plain wild = (all, p, w) \<Longrightarrow>
   (all \<or> ToLower origin \<in> set p \<or> list_ex (\<lambda>x. wildcard_match x (ToLower origin)) w) \<longleftrightarrow>
   (ToLower origin \<in> set plain \<or> list_ex (\<lambda>x. wildcard_match x (ToLower origin)) wild \<or> (\<exists>pat\<in>set os. origin_matches pat origin))
   \<or> all"
proof (induction os plain wild rule: split_origins.induct)
  case (2 o' os plain wild)
  show ?case
  proof (cases "ToLower o' = ''*''")
    case True
    with 2 show ?thesis by simp
  next
    case ne: False
    show ?thesis
    proof (cases "IndexByte (ToLower o') (CHR ''*'')")
      case None
      then have "origin_matches o' origin \<longleftrightarrow> ToLower origin = ToLower o'"
        by (simp add: origin_matches_def IndexByte_None)
      with None ne 2 show ?thesis by (auto simp: Let_def)
    next
      case (Some i)
      with ne 2 origin_matches_wild [OF Some, of origin] show ?thesis by (auto simp: Let_def)
    qed
  qed
qed auto

lemma split_origins_all: "fst (split_origins os plain wild) \<Longrightarrow> \<exists>pat\<in>set os. origin_matches pat origin"
proof (induction os plain wild rule: split_origins.induct)
  case (2 o' os plain wild)
  have "origin_matches o' origin" if "ToLower o' = ''*''"
    using that unfolding origin_matches_def
    by (simp, intro exI [of _ "[]"] exI [of _ "ToLower origin"]) simp
  with 2 show ?case by (cases "ToLower o' = ''*''") (auto simp: Let_def split: option.splits)
qed simp

lemma cors_New_origins:
  "cs_allowOriginFunc (cors_New opts) = co_AllowOriginFunc opts"
  "(cs_allowedOriginsAll (cors_New opts), cs_allowedOrigins (cors_New opts), cs_allowedWOrigins (cors_New opts)) =
     (if co_AllowedOrigins opts = [] then (co_AllowOriginFunc opts = None, [], [])
      else split_origins (co_AllowedOrigins opts) [] [])"
  by (simp_all add: cors_New_def Let_def split_beta)

text \<open>
  Origins are matched against the configured patterns.  Without a function of the application's own, an
  origin is allowed exactly when no origins are configured or one of the configured patterns matches it:
  equal up to case, or around the first asterisk of the pattern.
\<close>

theorem origin_allowed_iff:
  assumes "co_AllowOriginFunc opts = None"
  shows "isOriginAllowed (cors_New opts) r origin \<longleftrightarrow>
    co_AllowedOrigins opts = [] \<or> (\<exists>pat\<in>set (co_AllowedOrigins opts). origin_matches pat origin)"
proof (cases "co_AllowedOrigins opts = []")
  case True
  with assms show ?thesis using cors_New_origins [of opts] by (simp add: isOriginAllowed_def)
next
  case False
  obtain all p w where s: "split_origins (co_AllowedOrigins opts) [] [] = (all, p, w)" by (metis prod_cases3)
  have "isOriginAllowed (cors_New opts) r origin \<longleftrightarrow>
      all \<or> ToLower origin \<in> set p \<or> list_ex (\<lambda>x. wildcard_match x (ToLower origin)) w"
    using False assms s cors_New_origins [of opts] by (simp add: isOriginAllowed_def Let_def)
  also have "\<dots> \<longleftrightarrow> (\<exists>pat\<in>set (co_AllowedOrigins opts). origin_matches pat origin)"
    using split_origins_match [OF s, of origin] split_origins_all [of "co_AllowedOrigins opts" "[]" "[]" origin] s by auto
  finally show ?thesis using False by simp
qed

definition example_cors :: cors_options where
  "example_cors = \<lparr>co_AllowedOrigins = [''https://*.krateo.io'', ''http://a''], co_AllowOriginFunc = None, co_AllowedMethods = [],
     co_AllowedHeaders = [], co_ExposedHeaders = [], co_AllowCredentials = True, co_MaxAge = 0, co_OptionsPassthrough = False\<rparr>"

definition example_request :: "string \<Rightarrow> header \<Rightarrow> request" where
  "example_request meth h = \<lparr>rq_Method = meth, rq_URL = ''/'', rq_RemoteAddr = [], rq_Header = h, rq_ctx = background\<rparr>"

theorem origin_allowed_iff_witness:
  "isOriginAllowed (cors_New example_cors) (example_request ''GET'' []) ''https://App.Krateo.io'' \<and>
   \<not> isOriginAllowed (cors_New example_cors) (example_request ''GET'' []) ''https://krateo.io''"
proof -
  have e: "co_AllowOriginFunc example_cors = None" by (simp add: example_cors_def)
  have "(\<exists>pat\<in>set (co_AllowedOrigins example_cors). origin_matches pat o') \<longleftrightarrow>
      isOriginAllowed (cors_New example_cors) (example_request ''GET'' []) o'" for o'
    using origin_allowed_iff [OF e] by (simp add: example_cors_def)
  moreover have "isOriginAllowed (cors_New example_cors) (example_request ''GET'' []) ''https://App.Krateo.io''"
    "\<not> isOriginAllowed (cors_New example_cors) (example_request ''GET'' []) ''https://krateo.io''"
    by code_simp+
  ultimately show ?thesis by blast
qed

section \<open>Response headers\<close>

lemma canonical_names [simp]:
  "CanonicalHeaderKey ''Origin'' = ''Origin''" "CanonicalHeaderKey ''Vary'' = ''Vary''"
  "CanonicalHeaderKey ''Access-Control-Allow-Origin'' = ''Access-Control-Allow-Origin''"
  "CanonicalHeaderKey ''Access-Control-Allow-Methods'' = ''Access-Control-Allow-Methods''"
  "CanonicalHeaderKey ''Access-Control-Allow-Headers'' = ''Access-Control-Allow-Headers''"
  "CanonicalHeaderKey ''Access-Control-Allow-Credentials'' = ''Access-Control-Allow-Credentials''"
  "CanonicalHeaderKey ''Access-Control-Max-Age'' = ''Access-Control-Max-Age''"
  "CanonicalHeaderKey ''Access-Control-Expose-Headers'' = ''Access-Control-Expose-Headers''"
  by code_simp+

definition code_admits :: "cors \<Rightarrow> request \<Rightarrow> bool" where
  "code_admits c r =
     (header_Get (rq_Header r) ''Origin'' \<noteq> [] \<and> isOriginAllowed c r (header_Get (rq_Header r) ''Origin'') \<and>
      (if is_preflight r
       then isMethodAllowed c (header_Get (rq_Header r) ''Access-Control-Request-Method'') \<and>
            areHeadersAllowed c (parseHeaderList (header_Get (rq_Header r) ''Access-Control-Request-Headers''))
       else isMethodAllowed c (rq_Method r)))"

definition cors_headers :: "cors \<Rightarrow> request \<Rightarrow> header \<Rightarrow> header" where
  "cors_headers c r = (if is_preflight r then handlePreflight c r else handleActualRequest c r)"

lemma cors_Handler_headers:
  "cors_Handler c next r st =
     (if is_preflight r \<and> \<not> cs_optionPassthrough c then on_resp (WriteHeader 200) (on_header (cors_headers c r) st)
      else next r (on_header (cors_headers c r) st))"
  by (simp add: cors_Handler_def cors_headers_def Let_def)

lemmas header_simps = header_values_Set header_values_Add

definition set_if :: "bool \<Rightarrow> string \<Rightarrow> string \<Rightarrow> header \<Rightarrow> header" where
  "set_if b k v h = (if b then header_Set h k v else h)"

lemma preflight_admitted:
  assumes "is_preflight r" and "code_admits c r"
  shows "handlePreflight c r h =
    (let names = parseHeaderList (header_Get (rq_Header r) ''Access-Control-Request-Headers'')
     in set_if (cs_maxAge c > 0) ''Access-Control-Max-Age'' (Itoa (cs_maxAge c))
       (set_if (cs_allowCredentials c) ''Access-Control-Allow-Credentials'' ''true''
       (set_if (names \<noteq> []) ''Access-Control-Allow-Headers'' (Join names '', '')
       (header_Set (header_Set (header_Add (header_Add (header_Add h ''Vary'' ''Origin'') ''Vary'' ''Access-Control-Request-Method'')
          ''Vary'' ''Access-Control-Request-Headers'') ''Access-Control-Allow-Origin'' (allow_origin_value c (header_Get (rq_Header r) ''Origin'')))
          ''Access-Control-Allow-Methods'' (ToUpper (header_Get (rq_Header r) ''Access-Control-Request-Method''))))))"
proof -
  have "rq_Method r = ''OPTIONS''" "header_Get (rq_Header r) ''Origin'' \<noteq> []" "isOriginAllowed c r (header_Get (rq_Header r) ''Origin'')"
    "isMethodAllowed c (header_Get (rq_Header r) ''Access-Control-Request-Method'')"
    "areHeadersAllowed c (parseHeaderList (header_Get (rq_Header r) ''Access-Control-Request-Headers''))"
    using assms by (simp_all add: code_admits_def is_preflight_def)
  then show ?thesis by (simp add: handlePreflight_def Let_def set_if_def)
qed

lemma preflight_refused:
  "is_preflight r \<Longrightarrow> \<not> code_admits c r \<Longrightarrow> handlePreflight c r h =
     header_Add (header_Add (header_Add h ''Vary'' ''Origin'') ''Vary'' ''Access-Control-Request-Method'') ''Vary'' ''Access-Control-Request-Headers''"
  by (auto simp: handlePreflight_def code_admits_def is_preflight_def Let_def)

lemma actual_admitted:
  "\<not> is_preflight r \<Longrightarrow> code_admits c r \<Longrightarrow> handleActualRequest c r h =
     set_if (cs_allowCredentials c) ''Access-Control-Allow-Credentials'' ''true''
       (set_if (cs_exposedHeaders c \<noteq> []) ''Access-Control-Expose-Headers'' (Join (cs_exposedHeaders c) '', '')
       (header_Set (header_Add h ''Vary'' ''Origin'') ''Access-Control-Allow-Origin'' (allow_origin_value c (header_Get (rq_Header r) ''Origin''))))"
  by (simp add: handleActualRequest_def code_admits_def Let_def set_if_def)

lemma actual_refused:
  "\<not> is_preflight r \<Longrightarrow> \<not> code_admits c r \<Longrightarrow> handleActualRequest c r h = header_Add h ''Vary'' ''Origin''"
  by (auto simp: handleActualRequest_def code_admits_def Let_def)

lemma cors_headers_cases:
  "cors_headers c r h =
     (let origin = header_Get (rq_Header r) ''Origin'';
          names = parseHeaderList (header_Get (rq_Header r) ''Access-Control-Request-Headers'');
          h1 = header_Add h ''Vary'' ''Origin'';
          h2 = header_Add (header_Add h1 ''Vary'' ''Access-Control-Request-Method'') ''Vary'' ''Access-Control-Request-Headers''
      in if is_preflight r
         then set_if (code_admits c r \<and> cs_maxAge c > 0) ''Access-Control-Max-Age'' (Itoa (cs_maxAge c))
           (set_if (code_admits c r \<and> cs_allowCredentials c) ''Access-Control-Allow-Credentials'' ''true''
           (set_if (code_admits c r \<and> names \<noteq> []) ''Access-Control-Allow-Headers'' (Join names '', '')
           (set_if (code_admits c r) ''Access-Control-Allow-Methods'' (ToUpper (header_Get (rq_Header r) ''Access-Control-Request-Method''))
           (set_if (code_admits c r) ''Access-Control-Allow-Origin'' (allow_origin_value c origin) h2))))
         else set_if (code_admits c r \<and> cs_allowCredentials c) ''Access-Control-Allow-Credentials'' ''true''
           (set_if (code_admits c r \<and> cs_exposedHeaders c \<noteq> []) ''Access-Control-Expose-Headers'' (Join (cs_exposedHeaders c) '', '')
           (set_if (code_admits c r) ''Access-Control-Allow-Origin'' (allow_origin_value c origin) h1)))"
  using preflight_admitted [of r c h] preflight_refused [of r c h] actual_admitted [of r c h] actual_refused [of r c h]
  by (cases "is_preflight r"; cases "code_admits c r") (simp_all add: cors_headers_def set_if_def Let_def)

lemma header_values_set_if:
  "header_values (set_if b k v h) k' = (if b \<and> CanonicalHeaderKey k' = CanonicalHeaderKey k then [v] else header_values h k')"
  by (simp add: set_if_def header_values_Set)

lemma cors_headers_values:
  "header_values (cors_headers c r h) ''Access-Control-Allow-Origin'' =
     (if code_admits c r then [allow_origin_value c (header_Get (rq_Header r) ''Origin'')] else header_values h ''Access-Control-Allow-Origin'')"
  "header_values (cors_headers c r h) ''Access-Control-Allow-Credentials'' =
     (if code_admits c r \<and> cs_allowCredentials c then [''true''] else header_values h ''Access-Control-Allow-Credentials'')"
  "header_values (cors_headers c r h) ''Access-Control-Allow-Methods'' =
     (if code_admits c r \<and> is_preflight r then [ToUpper (header_Get (rq_Header r) ''Access-Control-Request-Method'')]
      else header_values h ''Access-Control-Allow-Methods'')"
  "header_values (cors_headers c r h) ''Access-Control-Allow-Headers'' =
     (let names = parseHeaderList (header_Get (rq_Header r) ''Access-Control-Request-Headers'') in
      if code_admits c r \<and> is_preflight r \<and> names \<noteq> [] then [Join names '', ''] else header_values h ''Access-Control-Allow-Headers'')"
  "header_values (cors_headers c r h) ''Access-Control-Max-Age'' =
     (if code_admits c r \<and> is_preflight r \<and> cs_maxAge c > 0 then [Itoa (cs_maxAge c)] else header_values h ''Access-Control-Max-Age'')"
  "header_values (cors_headers c r h) ''Access-Control-Expose-Headers'' =
     (if code_admits c r \<and> \<not> is_preflight r \<and> cs_exposedHeaders c \<noteq> [] then [Join (cs_exposedHeaders c) '', '']
      else header_values h ''Access-Control-Expose-Headers'')"
  "header_values (cors_headers c r h) ''Vary'' = header_values h ''Vary'' @
     (if is_preflight r then [''Origin'', ''Access-Control-Request-Method'', ''Access-Control-Request-Headers''] else [''Origin''])"
  by (simp_all add: cors_headers_cases header_values_set_if header_values_Add Let_def)

section \<open>Names of headers, up to case\<close>

lemma of_lower_char: "of_char (lower_char c) = (if 65 \<le> (of_char c :: nat) \<and> of_char c \<le> (90 :: nat) then of_char c + 32 else of_char c :: nat)"
  by (simp add: lower_char_def is_upper_def less_eq_char_def)

lemma of_upper_char: "of_char (upper_char c) = (if 97 \<le> (of_char c :: nat) \<and> of_char c \<le> (122 :: nat) then of_char c - 32 else of_char c :: nat)"
  by (auto simp: upper_char_def is_lower_def less_eq_char_def)

lemma char_eq_code: "c = d \<longleftrightarrow> of_char c = (of_char d :: nat)"
  by simp

lemma lower_upper: "lower_char (upper_char c) = lower_char c"
  by (subst char_eq_code) (auto simp: of_lower_char of_upper_char)

lemma lower_lower: "lower_char (lower_char c) = lower_char c"
  by (subst char_eq_code) (auto simp: of_lower_char)

lemma upper_lower: "upper_char (lower_char c) = upper_char c"
  by (subst char_eq_code) (auto simp: of_lower_char of_upper_char)

lemma lower_fixed: "lower_char c = CHR ''-'' \<longleftrightarrow> c = CHR ''-''" "lower_char c = CHR ''*'' \<longleftrightarrow> c = CHR ''*''"
  by (auto simp: char_eq_code of_lower_char simp del: of_char_eq_iff split: if_splits)

lemma other_case: "is_upper c \<Longrightarrow> is_lower (lower_char c)" "is_lower c \<Longrightarrow> is_upper (upper_char c)"
  by (auto simp: is_upper_def is_lower_def less_eq_char_def of_lower_char of_upper_char)

lemma same_case: "\<not> is_upper c \<Longrightarrow> lower_char c = c" "\<not> is_lower c \<Longrightarrow> upper_char c = c" "is_lower c \<Longrightarrow> \<not> is_upper c"
  by (auto simp: lower_char_def upper_char_def is_lower_def is_upper_def less_eq_char_def)

lemma token_case: "is_token_char (lower_char c) = is_token_char c" "is_token_char (upper_char c) = is_token_char c"
proof -
  show "is_token_char (lower_char c) = is_token_char c"
    using other_case(1) [of c] same_case(1) [of c] by (cases "is_upper c") (simp_all add: is_token_char_def)
  show "is_token_char (upper_char c) = is_token_char c"
    using other_case(2) [of c] same_case(2) [of c] by (cases "is_lower c") (simp_all add: is_token_char_def)
qed

lemma name_byte_token: "is_name_byte c \<Longrightarrow> is_token_char c"
  by (auto simp: is_name_byte_def is_token_char_def)

lemma header_byte_case:
  "list_all is_name_byte (header_byte u c)" "map lower_char (header_byte u c) = (if is_name_byte c then [lower_char c] else [])"
  using other_case [of c] same_case [of c] lower_upper [of c] lower_lower [of c] by (auto simp: header_byte_def is_name_byte_def)

lemma lower_canonical: "ToLower (canonical_from u h) = ToLower h" and canonical_lower: "canonical_from u (ToLower h) = canonical_from u h"
  and canonical_token: "list_all is_token_char (canonical_from u h) = list_all is_token_char h"
  by (induction h arbitrary: u) (simp_all add: ToLower_def lower_upper lower_lower upper_lower lower_fixed token_case)

lemma token_lower: "list_all is_token_char (ToLower h) = list_all is_token_char h"
  by (induction h) (simp_all add: ToLower_def token_case)

text \<open>Canonical names are names up to case.\<close>

lemma canonical_eq_iff:
  assumes "list_all is_name_byte h"
  shows "CanonicalHeaderKey h = CanonicalHeaderKey h' \<longleftrightarrow> ToLower h = ToLower h'"
proof -
  have tok: "list_all is_token_char h" using assms name_byte_token by (auto simp: list_all_iff)
  have eq: "canonical_from True h = canonical_from True h' \<longleftrightarrow> ToLower h = ToLower h'"
    using lower_canonical canonical_lower by metis
  show ?thesis
  proof (cases "list_all is_token_char h'")
    case True
    with tok eq show ?thesis by (simp add: CanonicalHeaderKey_def)
  next
    case False
    with tok canonical_token [of True h] token_lower [of h] token_lower [of h'] show ?thesis by (auto simp: CanonicalHeaderKey_def)
  qed
qed

text \<open>
  What a preflight asks for: the names between commas and spaces, where bytes that cannot occur in a name are passed over.
\<close>

fun pieces :: "string \<Rightarrow> string list" where
  "pieces [] = [[]]"
| "pieces (b # bs) =
     (if b = CHR '' '' \<or> b = CHR '','' then [] # pieces bs else (b # hd (pieces bs)) # tl (pieces bs))"

definition requested_names :: "string \<Rightarrow> string list" where
  "requested_names line = filter (\<lambda>h. h \<noteq> []) (map (ToLower \<circ> filter is_name_byte) (pieces line))"

lemma pieces_ne: "pieces s \<noteq> []"
  by (cases s) auto

lemma parse_headers_names: "list_all is_name_byte h \<Longrightarrow> list_all (list_all is_name_byte) (parse_headers s h u)"
  by (induction s h u rule: parse_headers.induct) (auto simp: Let_def header_byte_case)

lemma parse_headers_pieces:
  "s \<noteq> [] \<Longrightarrow> map ToLower (parse_headers s h u) =
     filter (\<lambda>h. h \<noteq> []) ((ToLower h @ ToLower (filter is_name_byte (hd (pieces s)))) # map (ToLower \<circ> filter is_name_byte) (tl (pieces s)))"
proof (induction s arbitrary: h u)
  case (Cons b bs)
  have hb: "ToLower (header_byte u b) = (if is_name_byte b then [lower_char b] else [])"
    by (simp add: ToLower_def header_byte_case)
  have app: "ToLower (x @ y) = ToLower x @ ToLower y" "ToLower x = [] \<longleftrightarrow> x = []" for x y by (simp_all add: ToLower_def)
  have all: "map (ToLower \<circ> filter is_name_byte) (pieces bs) =
      ToLower (filter is_name_byte (hd (pieces bs))) # map (ToLower \<circ> filter is_name_byte) (tl (pieces bs))"
    using pieces_ne [of bs] by (cases "pieces bs") auto
  show ?case
  proof (cases "b = CHR '' '' \<or> b = CHR '',''")
    case True
    then have "\<not> is_name_byte b" using name_byte_sep by blast
    with hb have "header_byte u b = []" using app(2) by metis
    with True Cons.IH [of "[]"] Cons.IH [of h] all show ?thesis
      by (cases "bs = []") (auto simp: Let_def app ToLower_def)
  next
    case False
    show ?thesis
    proof (cases "bs = []")
      case True
      with False hb show ?thesis by (auto simp: Let_def app ToLower_def)
    next
      case ne: False
      with False Cons.IH [of "h @ header_byte u b"] hb show ?thesis by (auto simp: Let_def app ToLower_def)
    qed
  qed
qed simp

lemma parseHeaderList_names:
  "map ToLower (parseHeaderList line) = requested_names line" "list_all (list_all is_name_byte) (parseHeaderList line)"
proof -
  show "list_all (list_all is_name_byte) (parseHeaderList line)" unfolding parseHeaderList_def by (rule parse_headers_names) simp
  have "map (ToLower \<circ> filter is_name_byte) (pieces line) =
      ToLower (filter is_name_byte (hd (pieces line))) # map (ToLower \<circ> filter is_name_byte) (tl (pieces line))"
    using pieces_ne [of line] by (cases "pieces line") auto
  then show "map ToLower (parseHeaderList line) = requested_names line"
    using parse_headers_pieces [of line "[]" True] by (cases "line = []") (auto simp: parseHeaderList_def requested_names_def ToLower_def)
qed

section \<open>Admission, from the options\<close>

text \<open>
  The origins, methods and headers that the options admit, as their documentation says: origins by the function of the
  application if there is one, else by the patterns, all when there are none; the method OPTIONS and the methods of the
  list, by default the simple ones, up to case; the headers of the list and \<open>Origin\<close>, up to case, or all for a star.
\<close>

definition allowed_origin :: "cors_options \<Rightarrow> request \<Rightarrow> string \<Rightarrow> bool" where
  "allowed_origin opts r origin =
     (case co_AllowOriginFunc opts of
        Some f \<Rightarrow> f r origin
      | None \<Rightarrow> co_AllowedOrigins opts = [] \<or> (\<exists>pat \<in> set (co_AllowedOrigins opts). origin_matches pat origin))"

definition allowed_method :: "cors_options \<Rightarrow> string \<Rightarrow> bool" where
  "allowed_method opts m \<longleftrightarrow> ToUpper m \<in> {''OPTIONS''} \<union>
     (if co_AllowedMethods opts = [] then {''HEAD'', ''GET'', ''POST''} else ToUpper ` set (co_AllowedMethods opts))"

definition allowed_header :: "cors_options \<Rightarrow> string \<Rightarrow> bool" where
  "allowed_header opts name \<longleftrightarrow> ''*'' \<in> set (co_AllowedHeaders opts) \<or> name = ''origin'' \<or> name \<in> ToLower ` set (co_AllowedHeaders opts)"

definition asked_names :: "request \<Rightarrow> string list" where
  "asked_names r = requested_names (header_Get (rq_Header r) ''Access-Control-Request-Headers'')"

definition admitted :: "cors_options \<Rightarrow> request \<Rightarrow> bool" where
  "admitted opts r \<longleftrightarrow>
     header_Get (rq_Header r) ''Origin'' \<noteq> [] \<and> allowed_origin opts r (header_Get (rq_Header r) ''Origin'') \<and>
     (if is_preflight r
      then allowed_method opts (header_Get (rq_Header r) ''Access-Control-Request-Method'') \<and> (\<forall>name \<in> set (asked_names r). allowed_header opts name)
      else allowed_method opts (rq_Method r))"

definition all_origins :: "cors_options \<Rightarrow> bool" where
  "all_origins opts \<longleftrightarrow> co_AllowOriginFunc opts = None \<and> (co_AllowedOrigins opts = [] \<or> ''*'' \<in> set (co_AllowedOrigins opts))"

text \<open>
  Where code and documentation agree: with a function the list of origins has no star, and with the default list of headers a
  preflight asks neither for \<open>Accept\<close> nor for \<open>Content-Type\<close>.
\<close>

definition documented_use :: "cors_options \<Rightarrow> request \<Rightarrow> bool" where
  "documented_use opts r \<longleftrightarrow>
     (co_AllowOriginFunc opts = None \<or> ''*'' \<notin> set (co_AllowedOrigins opts)) \<and>
     (co_AllowedHeaders opts = [] \<longrightarrow> set (asked_names r) \<inter> {''accept'', ''content-type''} = {})"

lemma lower_star: "ToLower s = ''*'' \<longleftrightarrow> s = ''*''"
  by (auto simp: ToLower_def lower_fixed)

lemma split_origins_star: "fst (split_origins os plain wild) \<longleftrightarrow> ''*'' \<in> set os"
  by (induction os plain wild rule: split_origins.induct) (auto simp: Let_def lower_star split: option.splits)

lemma all_origins_iff:
  assumes "co_AllowOriginFunc opts = None \<or> ''*'' \<notin> set (co_AllowedOrigins opts)"
  shows "cs_allowedOriginsAll (cors_New opts) \<longleftrightarrow> all_origins opts"
  using arg_cong [OF cors_New_origins(2) [of opts], of fst] assms split_origins_star [of "co_AllowedOrigins opts" "[]" "[]"]
  by (auto simp: all_origins_def)

lemma isOriginAllowed_options: "isOriginAllowed (cors_New opts) r origin \<longleftrightarrow> allowed_origin opts r origin"
proof (cases "co_AllowOriginFunc opts")
  case None
  with origin_allowed_iff [OF None, of r origin] show ?thesis by (simp add: allowed_origin_def)
next
  case (Some f)
  then show ?thesis by (simp add: allowed_origin_def isOriginAllowed_def cors_New_origins(1))
qed

lemma isMethodAllowed_options: "isMethodAllowed (cors_New opts) m \<longleftrightarrow> allowed_method opts m"
  by (auto simp: isMethodAllowed_def allowed_method_def cors_New_def Let_def split_beta convert_def)

lemma areHeadersAllowed_options:
  assumes "co_AllowedHeaders opts = [] \<longrightarrow> set (requested_names line) \<inter> {''accept'', ''content-type''} = {}"
  shows "areHeadersAllowed (cors_New opts) (parseHeaderList line) \<longleftrightarrow> (\<forall>name \<in> set (requested_names line). allowed_header opts name)"
proof -
  have low: "ToLower ''Origin'' = ''origin''" "ToLower ''Accept'' = ''accept''" "ToLower ''Content-Type'' = ''content-type''"
    "CanonicalHeaderKey ''Accept'' = ''Accept''" "CanonicalHeaderKey ''Content-Type'' = ''Content-Type''" by code_simp+
  have names: "requested_names line = map ToLower (parseHeaderList line)" by (simp add: parseHeaderList_names)
  have canon: "CanonicalHeaderKey h = CanonicalHeaderKey h' \<longleftrightarrow> ToLower h = ToLower h'" if "h \<in> set (parseHeaderList line)" for h h'
    using that parseHeaderList_names(2) [of line] canonical_eq_iff by (auto simp: list_all_iff)
  have key: "CanonicalHeaderKey h \<in> set (cs_allowedHeaders (cors_New opts)) \<longleftrightarrow> allowed_header opts (ToLower h)"
    if h: "h \<in> set (parseHeaderList line)" and no: "''*'' \<notin> set (co_AllowedHeaders opts)" for h
  proof (cases "co_AllowedHeaders opts = []")
    case True
    moreover have "ToLower h \<in> set (requested_names line)" using h by (simp add: names)
    ultimately have "ToLower h \<noteq> ''accept''" "ToLower h \<noteq> ''content-type''" using assms by auto
    then show ?thesis
      using True canon [OF h, of "''Origin''"] canon [OF h, of "''Accept''"] canon [OF h, of "''Content-Type''"] low
      by (auto simp: allowed_header_def cors_New_def Let_def split_beta)
  next
    case False
    then show ?thesis
      using no canon [OF h] canon [OF h, of "''Origin''"] low(1)
      by (auto simp: allowed_header_def cors_New_def Let_def split_beta convert_def)
  qed
  have all: "cs_allowedHeadersAll (cors_New opts) \<longleftrightarrow> ''*'' \<in> set (co_AllowedHeaders opts)"
    by (simp add: cors_New_def Let_def split_beta)
  show ?thesis
  proof (cases "''*'' \<in> set (co_AllowedHeaders opts)")
    case True
    then show ?thesis by (simp add: areHeadersAllowed_def all allowed_header_def)
  next
    case False
    with key show ?thesis by (auto simp: areHeadersAllowed_def all names list_all_iff)
  qed
qed

lemma code_admits_options: "documented_use opts r \<Longrightarrow> code_admits (cors_New opts) r \<longleftrightarrow> admitted opts r"
  unfolding code_admits_def admitted_def documented_use_def asked_names_def
  by (simp add: isOriginAllowed_options isMethodAllowed_options areHeadersAllowed_options)

lemma cors_New_options:
  "cs_allowCredentials (cors_New opts) = co_AllowCredentials opts" "cs_maxAge (cors_New opts) = co_MaxAge opts"
  "cs_optionPassthrough (cors_New opts) = co_OptionsPassthrough opts"
  "cs_exposedHeaders (cors_New opts) = map CanonicalHeaderKey (co_ExposedHeaders opts)"
  by (simp_all add: cors_New_def Let_def split_beta convert_def)

text \<open>The headers of a response that the options ask for; \<open>names\<close> are the names that a preflight asks for.\<close>

definition cors_reply :: "cors_options \<Rightarrow> request \<Rightarrow> string list \<Rightarrow> string \<Rightarrow> string list" where
  "cors_reply opts r names k =
     (if \<not> admitted opts r then []
      else if k = ''Access-Control-Allow-Origin'' then [if all_origins opts then ''*'' else header_Get (rq_Header r) ''Origin'']
      else if k = ''Access-Control-Allow-Credentials'' then (if co_AllowCredentials opts then [''true''] else [])
      else if k = ''Access-Control-Expose-Headers''
      then (if \<not> is_preflight r \<and> co_ExposedHeaders opts \<noteq> [] then [Join (map CanonicalHeaderKey (co_ExposedHeaders opts)) '', ''] else [])
      else if \<not> is_preflight r then []
      else if k = ''Access-Control-Allow-Methods'' then [ToUpper (header_Get (rq_Header r) ''Access-Control-Request-Method'')]
      else if k = ''Access-Control-Allow-Headers'' then (if names \<noteq> [] then [Join names '', ''] else [])
      else if k = ''Access-Control-Max-Age'' then (if co_MaxAge opts > 0 then [Itoa (co_MaxAge opts)] else [])
      else [])"

definition cors_response_names :: "string list" where
  "cors_response_names = [''Access-Control-Allow-Origin'', ''Access-Control-Allow-Credentials'', ''Access-Control-Expose-Headers'',
     ''Access-Control-Allow-Methods'', ''Access-Control-Allow-Headers'', ''Access-Control-Max-Age'']"

lemma cors_headers_reply:
  assumes "documented_use opts r" and "\<forall>k \<in> set cors_response_names. header_values h k = []" and "k \<in> set cors_response_names"
  shows "header_values (cors_headers (cors_New opts) r h) k =
    cors_reply opts r (parseHeaderList (header_Get (rq_Header r) ''Access-Control-Request-Headers'')) k"
proof -
  have all: "cs_allowedOriginsAll (cors_New opts) = all_origins opts" using assms(1) by (intro all_origins_iff) (simp add: documented_use_def)
  show ?thesis
    using assms(2,3) unfolding cors_response_names_def
    by (auto simp: cors_headers_values cors_reply_def code_admits_options [OF assms(1)] cors_New_options allow_origin_value_def all Let_def)
qed

text \<open>
  C23: the middleware gives exactly the headers that the options ask for, to exactly the requests that the options admit.  A
  response that does not yet carry such headers gets, when the origin and the method of the request (for preflights:
  the requested method and headers) are admitted by the options, \<open>Access-Control-Allow-Origin\<close> with a star or the origin,
  the credentials flag, the exposed headers, and for a preflight the requested method, the requested header names and the maximum age,
  each as the options say, and none of them otherwise; every response varies by origin.  A preflight request never reaches
  the next handler unless passthrough is on, and is answered with status 200.  Two uses of the options in which the code departs
  from their documentation are left out (\<open>documented_use\<close>): a function together with a star in the list of origins, and
  preflights for \<open>Accept\<close> or \<open>Content-Type\<close> with the default list of headers.
\<close>

theorem cors_admits_exactly:
  assumes "documented_use opts r" and "\<forall>k \<in> set cors_response_names. header_values (rw_Header (sv_resp st)) k = []"
    and "rw_Status (sv_resp st) = None"
  shows "\<exists>h names. map ToLower names = asked_names r \<and>
      (\<forall>k \<in> set cors_response_names. header_values h k = cors_reply opts r names k) \<and>
      header_values h ''Vary'' = header_values (rw_Header (sv_resp st)) ''Vary'' @
        (if is_preflight r then [''Origin'', ''Access-Control-Request-Method'', ''Access-Control-Request-Headers''] else [''Origin'']) \<and>
      (if is_preflight r \<and> \<not> co_OptionsPassthrough opts
       then rw_Status (sv_resp (use_CORS opts nxt r st)) = Some 200 \<and> rw_Sent (sv_resp (use_CORS opts nxt r st)) = h
       else use_CORS opts nxt r st = nxt r (on_header (\<lambda>_. h) st))"
proof (intro exI conjI)
  let ?h = "cors_headers (cors_New opts) r (rw_Header (sv_resp st))"
    and ?names = "parseHeaderList (header_Get (rq_Header r) ''Access-Control-Request-Headers'')"
  show "map ToLower ?names = asked_names r" by (simp add: asked_names_def parseHeaderList_names)
  show "\<forall>k \<in> set cors_response_names. header_values ?h k = cors_reply opts r ?names k"
    using cors_headers_reply [OF assms(1,2)] by blast
  show "header_values ?h ''Vary'' = header_values (rw_Header (sv_resp st)) ''Vary'' @
        (if is_preflight r then [''Origin'', ''Access-Control-Request-Method'', ''Access-Control-Request-Headers''] else [''Origin''])"
    by (rule cors_headers_values(7))
  show "if is_preflight r \<and> \<not> co_OptionsPassthrough opts
       then rw_Status (sv_resp (use_CORS opts nxt r st)) = Some 200 \<and> rw_Sent (sv_resp (use_CORS opts nxt r st)) = ?h
       else use_CORS opts nxt r st = nxt r (on_header (\<lambda>_. ?h) st)"
    using assms(3) by (simp add: use_CORS_def cors_Handler_headers cors_New_options on_header_def on_resp_def WriteHeader_def)
qed

definition empty_server :: "unit server" where
  "empty_server = \<lparr>sv_resp = \<lparr>rw_Header = [], rw_Status = None, rw_Sent = [], rw_Body = []\<rparr>, sv_log = [], sv_aborted = False, sv_world = ()\<rparr>"

theorem cors_admits_exactly_witness:
  "header_values (rw_Sent (sv_resp (use_CORS example_cors (\<lambda>r st. st)
     (example_request ''OPTIONS'' [(''Origin'', [''http://A'']), (''Access-Control-Request-Method'', [''get''])]) empty_server)))
     ''Access-Control-Allow-Methods'' = [''GET'']"
proof -
  let ?r = "example_request ''OPTIONS'' [(''Origin'', [''http://A'']), (''Access-Control-Request-Method'', [''get''])]"
  have ori: "header_Get (rq_Header ?r) ''Origin'' = ''http://A''" "header_Get (rq_Header ?r) ''Access-Control-Request-Method'' = ''get''"
    "asked_names ?r = []" "is_preflight ?r" "ToUpper ''get'' = ''GET''" "ToLower ''http://A'' = ToLower ''http://a''"
    "CHR ''*'' \<notin> set (ToLower ''http://a'')" by code_simp+
  have "origin_matches ''http://a'' ''http://A''" unfolding origin_matches_def using ori(6,7) by simp
  then have adm: "admitted example_cors ?r"
    by (simp add: admitted_def ori allowed_origin_def allowed_method_def) (simp add: example_cors_def)
  have doc: "documented_use example_cors ?r" by (simp add: documented_use_def ori) (simp add: example_cors_def)
  have empty: "\<forall>k \<in> set cors_response_names. header_values (rw_Header (sv_resp empty_server)) k = []"
    "rw_Status (sv_resp empty_server) = None" by (simp_all add: header_values_def empty_server_def)
  have pass: "\<not> co_OptionsPassthrough example_cors" by (simp add: example_cors_def)
  have mem: "''Access-Control-Allow-Methods'' \<in> set cors_response_names" by (simp add: cors_response_names_def)
  obtain h names where "header_values h ''Access-Control-Allow-Methods'' = cors_reply example_cors ?r names ''Access-Control-Allow-Methods''"
    "rw_Sent (sv_resp (use_CORS example_cors (\<lambda>r st. st) ?r empty_server)) = h"
    using cors_admits_exactly [OF doc empty, of "\<lambda>r st. st"] mem ori(4) pass by auto
  then show ?thesis using adm ori by (simp add: cors_reply_def)
qed

section \<open>Departures from the documentation\<close>

text \<open>
  With a function the list of origins is documented to be ignored; a star in it still makes the response carry a star in
  place of the origin that the function accepted.
\<close>

theorem star_beside_function:
  assumes "co_AllowOriginFunc opts = Some f" and "''*'' \<in> set (co_AllowedOrigins opts)"
    and "header_Get (rq_Header r) ''Origin'' = origin" "origin \<noteq> []" "f r origin" "allowed_method opts (rq_Method r)" "\<not> is_preflight r"
  shows "header_values (cors_headers (cors_New opts) r h) ''Access-Control-Allow-Origin'' = [''*'']"
proof -
  have "co_AllowedOrigins opts \<noteq> []" using assms(2) by auto
  then have "cs_allowedOriginsAll (cors_New opts)"
    using arg_cong [OF cors_New_origins(2) [of opts], of fst] assms(2) split_origins_star [of "co_AllowedOrigins opts" "[]" "[]"] by simp
  moreover have "code_admits (cors_New opts) r"
    using assms by (simp add: code_admits_def isOriginAllowed_options isMethodAllowed_options allowed_origin_def)
  ultimately show ?thesis by (simp add: cors_headers_values allow_origin_value_def)
qed

text \<open>The default list of headers is documented to be empty but for \<open>Origin\<close>; the code lets \<open>Accept\<close> and \<open>Content-Type\<close> pass too.\<close>

theorem default_headers_wider:
  "co_AllowedHeaders opts = [] \<Longrightarrow> areHeadersAllowed (cors_New opts) [''Accept'', ''Content-Type''] \<and> \<not> allowed_header opts ''accept''"
proof -
  have "CanonicalHeaderKey ''Accept'' = ''Accept''" "CanonicalHeaderKey ''Content-Type'' = ''Content-Type''" by code_simp+
  then show "co_AllowedHeaders opts = [] \<Longrightarrow> ?thesis"
    by (simp add: areHeadersAllowed_def allowed_header_def cors_New_def Let_def split_beta)
qed

end
