(* ===== verification/Server_Use.thy ===== *)
theory Server_Use
  imports Server_Cors Short_Id
begin

text \<open>
  \<open>server/use\<close>: the chain of middlewares (\<open>chain.go\<close>), the access log (\<open>access.go\<close>), the request logger (\<open>logger.go\<close>), the trace
  identifier (\<open>traceid.go\<close>) and the authentication by bearer token (\<open>userconfig.go\<close>); and the probes of
  \<open>server/probes/probes.go\<close>.

  \<open>mustGenerate\<close> is the default generator of \<open>Short_Id\<close> on the shared world; \<open>None\<close> is its panic, which aborts the
  request.  The record \<open>auth_env\<close> holds what authentication uses of other code: the JWT parser, the clock,
  the in-cluster configuration and the client for Secrets.
\<close>

section \<open>Chain\<close>

type_synonym 'x middleware = "'x handler \<Rightarrow> 'x handler"

record 'x chain =
  ch_constructors :: "'x middleware list"

definition NewChain :: "'x middleware list \<Rightarrow> 'x chain" where
  "NewChain constructors = \<lparr>ch_constructors = constructors\<rparr>"

text \<open>The loop applies the constructors from the last to the first; \<open>defaultMux\<close> replaces a nil handler.\<close>

fun apply_from_last :: "'x middleware list \<Rightarrow> nat \<Rightarrow> 'x handler \<Rightarrow> 'x handler" where
  "apply_from_last cs 0 h = h"
| "apply_from_last cs (Suc n) h = apply_from_last cs n ((cs ! n) h)"

definition chain_Then :: "'x handler \<Rightarrow> 'x chain \<Rightarrow> 'x handler option \<Rightarrow> 'x handler" where
  "chain_Then defaultMux c h =
     apply_from_last (ch_constructors c) (length (ch_constructors c)) (case h of None \<Rightarrow> defaultMux | Some f \<Rightarrow> f)"

definition chain_ThenFunc :: "'x handler \<Rightarrow> 'x chain \<Rightarrow> 'x handler option \<Rightarrow> 'x handler" where
  "chain_ThenFunc defaultMux c fn = (case fn of None \<Rightarrow> chain_Then defaultMux c None | Some f \<Rightarrow> chain_Then defaultMux c (Some f))"

definition chain_Append :: "'x chain \<Rightarrow> 'x middleware list \<Rightarrow> 'x chain" where
  "chain_Append c constructors = \<lparr>ch_constructors = ch_constructors c @ constructors\<rparr>"

definition chain_Extend :: "'x chain \<Rightarrow> 'x chain \<Rightarrow> 'x chain" where
  "chain_Extend c chain = chain_Append c (ch_constructors chain)"

section \<open>Middlewares\<close>

text \<open>The latency is a reading of the clock that only the log shows; it is left out.\<close>

definition Access :: "'x middleware" where
  "Access next r st =
     (let forwarded = header_Get (rq_Header r) ''X-Forwarded-For'';
          ip = (if forwarded \<noteq> [] then forwarded else rq_RemoteAddr r);
          st' = next r st
      in st'\<lparr>sv_log := sv_log st' @ [[Attr ''ip'' ip, Attr ''method'' (rq_Method r), Attr ''url'' (rq_URL r),
           Attr ''user_agent'' (header_Get (rq_Header r) ''User-Agent'')]]\<rparr>)"

definition ensure_trace :: "('x \<Rightarrow> 'x \<times> string option) \<Rightarrow> request \<Rightarrow> 'x \<Rightarrow> 'x \<times> string option" where
  "ensure_trace mustGenerate r w =
     (let t = header_Get (rq_Header r) ''X-Krateo-TraceId'' in if t = [] then mustGenerate w else (w, Some t))"

definition TraceId :: "('x \<Rightarrow> 'x \<times> string option) \<Rightarrow> 'x middleware" where
  "TraceId mustGenerate next r st =
     (case ensure_trace mustGenerate r (sv_world st) of
        (w, None) \<Rightarrow> st\<lparr>sv_world := w, sv_aborted := True\<rparr>
      | (w, Some traceId) \<Rightarrow>
          next (r\<lparr>rq_Header := header_Set (rq_Header r) ''X-Krateo-TraceId'' traceId,
                  rq_ctx := BuildContext (rq_ctx r) [WithTraceId traceId]\<rparr>) (st\<lparr>sv_world := w\<rparr>))"

text \<open>\<open>strings.SplitN\<close> with two parts on a space.\<close>

definition split2 :: "string \<Rightarrow> string list" where
  "split2 s = (case IndexByte s (CHR '' '') of None \<Rightarrow> [s] | Some i \<Rightarrow> [take i s, drop (Suc i) s])"

definition log_user :: "(string \<Rightarrow> jerr + obj) \<Rightarrow> request \<Rightarrow> string \<times> string" where
  "log_user unmarshal r =
     (case split2 (header_Get (rq_Header r) ''Authorization'') of
        [scheme, tok] \<Rightarrow>
          (case ExtractUserInfo unmarshal tok of
             Inl e \<Rightarrow> ([], []) | Inr ui \<Rightarrow> (ui_Username ui, Join (ui_Groups ui) '',''))
      | _ \<Rightarrow> ([], []))"

definition use_Logger ::
  "('x \<Rightarrow> 'x \<times> string option) \<Rightarrow> (string \<Rightarrow> jerr + obj) \<Rightarrow> logger \<Rightarrow> 'x middleware" where
  "use_Logger mustGenerate unmarshal rootLog next r st =
     (case ensure_trace mustGenerate r (sv_world st) of
        (w, None) \<Rightarrow> st\<lparr>sv_world := w, sv_aborted := True\<rparr>
      | (w, Some traceId) \<Rightarrow>
          (let (sub, orgs) = log_user unmarshal r;
               log = (if sub \<noteq> []
                      then rootLog @ [Attr ''traceId'' traceId, Group ''user'' [Attr ''name'' sub, Attr ''groups'' orgs]]
                      else rootLog)
           in next (r\<lparr>rq_ctx := BuildContext (rq_ctx r) [WithTraceId traceId, WithLogger [] (Some log)]\<rparr>)
                (st\<lparr>sv_world := w\<rparr>)))"

record 'x auth_env =
  au_parse :: "'x parse_with_claims"
  au_now :: instant
  au_inCluster :: "'x \<Rightarrow> kerr option"
  au_secrets :: "'x secrets_api"
  au_toJSON :: "status \<Rightarrow> string"

definition UserConfig ::
  "'x auth_env \<Rightarrow> ('x \<Rightarrow> string \<Rightarrow> 'x \<times> (jerr + rsa_key)) option \<Rightarrow> string \<Rightarrow> 'x middleware" where
  "UserConfig env keys authnNS next r st =
     (if keys = None then on_resp (InternalError (au_toJSON env) (HText ''no JWT key source configured'')) st
      else let authHeader = header_Get (rq_Header r) ''Authorization'' in
           if authHeader = [] then on_resp (Unauthorized (au_toJSON env) (HText ''missing authorization header'')) st
           else case split2 authHeader of
                  [scheme, tok] \<Rightarrow>
                    if ToLower scheme \<noteq> ''bearer''
                    then on_resp (Unauthorized (au_toJSON env) (HText ''invalid authorization header format'')) st
                    else (case ValidateWithKeySource (au_parse env) keys (au_now env) (sv_world st) tok of
                            (w, Inl err) \<Rightarrow>
                              (let st' = st\<lparr>sv_world := w\<rparr> in
                               if errors_Is is_key_unavailable err
                               then on_resp (ServiceUnavailable (au_toJSON env) (HJwt err)) st'
                               else on_resp (Unauthorized (au_toJSON env) (HJwt err)) st')
                          | (w, Inr userInfo) \<Rightarrow>
                              (let st' = st\<lparr>sv_world := w\<rparr> in
                               case au_inCluster env w of
                                 Some err \<Rightarrow> on_resp (InternalError (au_toJSON env) (HWrap ''unable to create in cluster config'' (HKube err))) st'
                               | None \<Rightarrow>
                                   (case FromSecret (au_secrets env) w (clientconfig_name (ui_Username userInfo)) authnNS of
                                      Inl err \<Rightarrow>
                                        if kube_is_not_found err then on_resp (Unauthorized (au_toJSON env) (HKube err)) st'
                                        else on_resp (InternalError (au_toJSON env) (HKube err)) st'
                                    | Inr ep \<Rightarrow>
                                        next (r\<lparr>rq_ctx := BuildContext (rq_ctx r)
                                          [WithAccessToken tok, WithUserInfo userInfo, WithUserConfig ep]\<rparr>) st')))
                | _ \<Rightarrow> on_resp (Unauthorized (au_toJSON env) (HText ''invalid authorization header format'')) st)"

section \<open>Probes\<close>

definition LivezHandler :: "'x handler" where
  "LivezHandler r st = on_resp (WriteHeader 200) st"

text \<open>\<open>http.Error\<close> writes the text with its status; \<open>ping\<close> is the dependency, called with the timeout.\<close>

definition http_Error :: "string \<Rightarrow> int \<Rightarrow> response \<Rightarrow> response" where
  "http_Error msg code w =
     write_body (msg @ [CHR 0x0A]) (WriteHeader code
       (w\<lparr>rw_Header := header_Set (header_Set (AList.delete ''Content-Length'' (rw_Header w)) ''Content-Type'' ''text/plain; charset=utf-8'')
                         ''X-Content-Type-Options'' ''nosniff''\<rparr>))"

definition ReadyzHandler :: "(duration \<Rightarrow> 'x \<Rightarrow> 'x \<times> kerr option) option \<Rightarrow> duration \<Rightarrow> 'x handler" where
  "ReadyzHandler pinger timeout' r st =
     (let timeout = (if timeout' \<le> 0 then 1000000000 else timeout') in
      case pinger of
        None \<Rightarrow> on_resp (http_Error ''unreachable'' 503) (st\<lparr>sv_log := sv_log st @ [[Attr ''msg'' ''readiness: pinger is nil'']]\<rparr>)
      | Some ping \<Rightarrow>
          (case ping timeout (sv_world st) of
             (w, Some err) \<Rightarrow>
               on_resp (http_Error ''unreachable'' 503)
                 (st\<lparr>sv_world := w, sv_log := sv_log st @ [[Attr ''msg'' ''readiness: unreachable'']]\<rparr>)
           | (w, None) \<Rightarrow> on_resp (WriteHeader 200) (st\<lparr>sv_world := w\<rparr>)))"

text \<open>
  The mux of the library for patterns without a trailing slash or wildcards: a second registration of a pattern panics
  (\<open>None\<close>), a path that is not registered is not found.
\<close>

type_synonym 'x serve_mux = "(string, 'x handler) gomap"

definition mux_HandleFunc :: "string \<Rightarrow> 'x handler \<Rightarrow> 'x serve_mux \<Rightarrow> 'x serve_mux option" where
  "mux_HandleFunc pattern h m = (if gomap_has m pattern then None else Some (AList.update pattern h m))"

definition mux_serve :: "'x serve_mux \<Rightarrow> string \<Rightarrow> 'x handler" where
  "mux_serve m path r st =
     (case map_of m path of Some h \<Rightarrow> h r st | None \<Rightarrow> on_resp (http_Error ''404 page not found'' 404) st)"

definition probes_Register ::
    "(duration \<Rightarrow> 'x \<Rightarrow> 'x \<times> kerr option) option \<Rightarrow> duration \<Rightarrow> 'x serve_mux \<Rightarrow> 'x serve_mux option" where
  "probes_Register pinger timeout m =
     Option.bind (mux_HandleFunc ''/livez'' LivezHandler m) (mux_HandleFunc ''/readyz'' (ReadyzHandler pinger timeout))"

record 'x health_server =
  hs_Addr :: string
  hs_Handler :: "'x serve_mux"
  hs_ReadTimeout :: duration
  hs_WriteTimeout :: duration
  hs_IdleTimeout :: duration

definition probes_New :: "(duration \<Rightarrow> 'x \<Rightarrow> 'x \<times> kerr option) option \<Rightarrow> int \<Rightarrow> 'x health_server option" where
  "probes_New pinger port =
     map_option (\<lambda>m. \<lparr>hs_Addr = '':'' @ Itoa port, hs_Handler = m, hs_ReadTimeout = 5 * 1000000000, hs_WriteTimeout = 25 * 1000000000,
                      hs_IdleTimeout = 15 * 1000000000\<rparr>)
       (probes_Register pinger 1000000000 [])"

text \<open>The health server: what each path answers.\<close>

theorem probes_New_serves:
  "\<exists>hs. probes_New pinger port = Some hs \<and> mux_serve (hs_Handler hs) ''/livez'' r st = on_resp (WriteHeader 200) st \<and>
     mux_serve (hs_Handler hs) ''/readyz'' r st = ReadyzHandler pinger 1000000000 r st \<and>
     (path \<notin> {''/livez'', ''/readyz''} \<longrightarrow> mux_serve (hs_Handler hs) path r st = on_resp (http_Error ''404 page not found'' 404) st)"
  by (auto simp: probes_New_def probes_Register_def mux_HandleFunc_def mux_serve_def LivezHandler_def)

section \<open>The chain composes its middlewares\<close>

lemma apply_from_last_prefix: "n \<le> length cs \<Longrightarrow> apply_from_last (cs @ ds) n h = apply_from_last cs n h"
  by (induction n arbitrary: h) (simp_all add: nth_append)

lemma apply_from_last_append: "apply_from_last (cs @ ds) (length cs + n) h = apply_from_last cs (length cs) (apply_from_last ds n h)"
  by (induction n arbitrary: h) (simp_all add: nth_append apply_from_last_prefix)

lemma apply_from_last_foldr: "apply_from_last cs (length cs) h = foldr (\<lambda>m. m) cs h"
proof (induction cs)
  case (Cons m cs)
  then show ?case using apply_from_last_append [of "[m]" cs "length cs" h] by simp
qed simp

lemma chain_Then_foldr:
  "chain_Then mux c h = foldr (\<lambda>m. m) (ch_constructors c) (case h of None \<Rightarrow> mux | Some f \<Rightarrow> f)"
  by (simp add: chain_Then_def apply_from_last_foldr)

text \<open>A request passes the constructors in the order of the list, and extending a chain appends to the inside.\<close>

theorem chain_Extend_Then:
  "chain_Then mux (chain_Extend c d) h = chain_Then mux c (Some (chain_Then mux d h)) \<and>
   chain_Then mux (NewChain [m1, m2, m3]) (Some f) = m1 (m2 (m3 f)) \<and>
   chain_ThenFunc mux c fn = chain_Then mux c fn"
  by (simp add: chain_Then_foldr chain_Extend_def chain_Append_def NewChain_def chain_ThenFunc_def split: option.split)

section \<open>Authentication\<close>

text \<open>The bearer token of a header: the text after the scheme, which is compared without regard to case.\<close>

definition bearer_spec :: "string \<Rightarrow> string option" where
  "bearer_spec h = (if 6 < length h \<and> ToLower (take 6 h) = ''bearer'' \<and> h ! 6 = CHR '' '' then Some (drop 7 h) else None)"

lemma space_lower [simp]: "lower_char (CHR '' '') = CHR '' ''"
  by (simp add: lower_char_def is_upper_def)

lemma ToLower_space: "CHR '' '' \<in> set s \<Longrightarrow> CHR '' '' \<in> set (ToLower s)"
  by (force simp: ToLower_def)

lemma IndexByte_take: "IndexByte s c = Some i \<longleftrightarrow> i < length s \<and> s ! i = c \<and> c \<notin> set (take i s)"
proof (induction s arbitrary: i)
  case (Cons x s)
  then show ?case by (cases i) auto
qed simp

lemma bearer_split:
  "bearer_spec h = (case split2 h of [scheme, tok] \<Rightarrow> if ToLower scheme = ''bearer'' then Some tok else None | _ \<Rightarrow> None)"
proof (cases "IndexByte h (CHR '' '')")
  case None
  then have "CHR '' '' \<notin> set h" by (simp add: IndexByte_None)
  then show ?thesis using None by (auto simp: bearer_spec_def split2_def dest: nth_mem)
next
  case (Some i)
  then have i: "i < length h" "h ! i = CHR '' ''" by (simp_all add: IndexByte_take)
  have six: "i = 6" if "ToLower (take i h) = ''bearer''"
    using arg_cong [OF that, of length] i by (simp add: ToLower_def)
  have "i = 6" if "6 < length h" "ToLower (take 6 h) = ''bearer''" "h ! 6 = CHR '' ''"
  proof -
    have "CHR '' '' \<notin> set (take 6 h)" using ToLower_space [of "take 6 h"] that(2) by auto
    then have "IndexByte h (CHR '' '') = Some 6" using that by (simp add: IndexByte_take)
    with Some show ?thesis by simp
  qed
  with i have "bearer_spec h = (if i = 6 \<and> ToLower (take 6 h) = ''bearer'' then Some (drop 7 h) else None)"
    by (cases "i = 6") (auto simp: bearer_spec_def)
  moreover have "split2 h = [take i h, drop (Suc i) h]" using Some by (simp add: split2_def)
  ultimately show ?thesis using six by (cases "i = 6") (auto simp: eval_nat_numeral)
qed

text \<open>What authentication decides: the user and the endpoint the request goes on with, or a status code.\<close>

datatype verdict = Admit string UserInfo endpoint | Deny int

definition auth_spec ::
  "(string \<Rightarrow> (jwt_token \<times> KrateoClaims) option) \<Rightarrow> (string \<Rightarrow> rsa_key \<Rightarrow> bool) \<Rightarrow>
   ('x \<Rightarrow> string \<Rightarrow> 'x \<times> (jerr + rsa_key)) \<Rightarrow> 'x auth_env \<Rightarrow> string \<Rightarrow> string \<Rightarrow> 'x \<Rightarrow> 'x \<times> verdict" where
  "auth_spec decoded verifies pk env ns authorization w =
     (case bearer_spec authorization of
        None \<Rightarrow> (w, Deny 401)
      | Some tok \<Rightarrow>
          (case token_validation is_rsa decoded verifies pk (au_now env) w tok of
             (w', Accepted u) \<Rightarrow>
               (w', if au_inCluster env w' \<noteq> None then Deny 500
                    else case FromSecret (au_secrets env) w' (clientconfig_name (ui_Username u)) ns of
                           Inr ep \<Rightarrow> Admit tok u ep
                         | Inl e \<Rightarrow> Deny (if kube_is_not_found e then 401 else 500))
           | (w', Unavailable) \<Rightarrow> (w', Deny 503)
           | (w', _) \<Rightarrow> (w', Deny 401)))"

text \<open>A server that refused a request: the world and the code of the verdict, and no other effect.\<close>

definition refused :: "'x server \<Rightarrow> 'x \<Rightarrow> int \<Rightarrow> 'x server \<Rightarrow> bool" where
  "refused st w code st' \<longleftrightarrow>
     sv_world st' = w \<and> rw_Status (sv_resp st') = Some code \<and> sv_log st' = sv_log st \<and> sv_aborted st' = sv_aborted st"

lemma refused_reply:
  "rw_Status (sv_resp st) = None \<Longrightarrow> refused st w code (on_resp (reply toJSON code err) (st\<lparr>sv_world := w\<rparr>))"
  by (simp add: refused_def on_resp_def reply_status)

lemmas reply_defs = Unauthorized_def InternalError_def ServiceUnavailable_def

locale authenticator = jwt_parser parse decoded verifies + key_source pk
  for parse :: "'x parse_with_claims" and decoded verifies and pk :: "'x \<Rightarrow> string \<Rightarrow> 'x \<times> (jerr + rsa_key)"
begin

lemma authenticate:
  assumes "au_parse env = parse" and "rw_Status (sv_resp st) = None"
  shows "case auth_spec decoded verifies pk env ns (header_Get (rq_Header r) ''Authorization'') (sv_world st) of
      (w, Admit tok u ep) \<Rightarrow> UserConfig env (Some pk) ns next r st =
        next (r\<lparr>rq_ctx := BuildContext (rq_ctx r) [WithAccessToken tok, WithUserInfo u, WithUserConfig ep]\<rparr>) (st\<lparr>sv_world := w\<rparr>)
    | (w, Deny code) \<Rightarrow> refused st w code (UserConfig env (Some pk) ns next r st)"
proof -
  let ?h = "header_Get (rq_Header r) ''Authorization''"
  have world: "st\<lparr>sv_world := sv_world st\<rparr> = st" by simp
  note no_token = refused_reply [OF assms(2), of "sv_world st" 401 "au_toJSON env", unfolded world]
  show ?thesis
  proof (cases "bearer_spec ?h")
    case None
    then show ?thesis using no_token bearer_split [of ?h]
      by (auto simp: auth_spec_def UserConfig_def reply_defs Let_def split: list.split if_splits)
  next
    case (Some tok)
    then obtain scheme where h: "split2 ?h = [scheme, tok]" "ToLower scheme = ''bearer''"
      using bearer_split [of ?h] by (auto split: list.splits if_splits)
    have ne: "?h \<noteq> []" using Some by (auto simp: bearer_spec_def)
    obtain w res where v: "ValidateWithKeySource parse (Some pk) (au_now env) (sv_world st) tok = (w, res)"
      by (metis surj_pair)
    note spec = validate_outcome [OF jwt_parser_axioms key_source_axioms, of "au_now env" "sv_world st" tok, symmetric, unfolded v]
    show ?thesis
    proof (cases res)
      case (Inl e)
      then show ?thesis using refused_reply [OF assms(2), of w] spec Some h ne v assms(1)
        by (simp add: auth_spec_def UserConfig_def reply_defs outcome_of_def Let_def)
    next
      case (Inr u)
      then show ?thesis using refused_reply [OF assms(2), of w] spec Some h ne v assms(1)
        by (simp add: auth_spec_def UserConfig_def reply_defs Let_def split: option.split sum.split)
    qed
  qed
qed

end

interpretation static_auth: authenticator ref_parse ref_decoded ref_verifies static_PublicKey
  by (intro authenticator.intro ref.jwt_parser_axioms static.key_source_axioms)

interpretation jwks_auth: authenticator ref_parse ref_decoded ref_verifies "jwks_PublicKey decode get clock"
  by (intro authenticator.intro ref.jwt_parser_axioms jwks.key_source_axioms)

text \<open>
  C2: nobody passes authentication without a valid token.  For every request, \<open>UserConfig\<close> does what
  the specification decides from the \<open>Authorization\<close> header alone: the next handler runs exactly when the header
  carries a bearer token that validates and the cluster stores a client configuration for its user, and then it
  sees that token, that user and that configuration in its context; in every other case it does not run and the
  client gets a status code: 503 exactly when the keys cannot be obtained, 401 when the token or the stored
  configuration is missing or wrong, 500 when the cluster cannot be asked.
\<close>

theorem UserConfig_refines_spec:
  assumes "authenticator (au_parse env) decoded verifies pk" and "rw_Status (sv_resp st) = None"
  shows "case auth_spec decoded verifies pk env ns (header_Get (rq_Header r) ''Authorization'') (sv_world st) of
      (w, Admit tok u ep) \<Rightarrow> UserConfig env (Some pk) ns nxt r st =
        nxt (r\<lparr>rq_ctx := BuildContext (rq_ctx r) [WithAccessToken tok, WithUserInfo u, WithUserConfig ep]\<rparr>) (st\<lparr>sv_world := w\<rparr>)
    | (w, Deny code) \<Rightarrow> refused st w code (UserConfig env (Some pk) ns nxt r st)"
  by (rule authenticator.authenticate [OF assms(1) refl assms(2)])

definition auth_example_env :: "rsa_key option option auth_env" where
  "auth_example_env = \<lparr>au_parse = ref_parse, au_now = 9000000000, au_inCluster = (\<lambda>w. None),
     au_secrets = \<lparr>restClientFor = (\<lambda>w. None),
       getSecret = (\<lambda>w. getSecret store_api [((''ns'', ''u-clientconfig''), string_data (example_endpoint ''U''))]),
       createSecret = (\<lambda>w n ns d. (w, None)), updateSecret = (\<lambda>w n ns d. (w, None)), isAlreadyExists = (\<lambda>e. False)\<rparr>,
     au_toJSON = (\<lambda>s. [])\<rparr>"

definition fresh_server :: "'x \<Rightarrow> 'x server" where
  "fresh_server w = \<lparr>sv_resp = \<lparr>rw_Header = [], rw_Status = None, rw_Sent = [], rw_Body = []\<rparr>, sv_log = [], sv_aborted = False, sv_world = w\<rparr>"

definition auth_request :: "string \<Rightarrow> request" where
  "auth_request a = \<lparr>rq_Method = ''GET'', rq_URL = ''/'', rq_RemoteAddr = [], rq_Header = [(''Authorization'', [a])], rq_ctx = background\<rparr>"

definition greet :: "'x handler" where
  "greet r st = on_resp (write_body (case ctx_UserInfo (rq_ctx r) of Inl e \<Rightarrow> ''?'' | Inr u \<Rightarrow> ui_Username u)) st"

lemma example_decoded:
  "ref_decoded example_token = Some (\<lparr>tok_Method = SigningMethodRSA ''RS256'', tok_kid = Some (AString ''a'')\<rparr>,
     krateo_claims ref_date example_options 7500000000)"
  "ref_verifies example_token \<lparr>rsa_N = 33, rsa_E = 3\<rparr>"
  using ref.created_token [OF example_created] by (auto simp: example_options_def)

lemma example_admitted:
  "auth_spec ref_decoded ref_verifies static_PublicKey auth_example_env ''ns'' (''Bearer '' @ example_token)
     (Some (Some \<lparr>rsa_N = 33, rsa_E = 3\<rparr>)) =
   (Some (Some \<lparr>rsa_N = 33, rsa_E = 3\<rparr>), Admit example_token \<lparr>ui_Username = ''u'', ui_Groups = [''g'']\<rparr> (example_endpoint ''U''))"
proof -
  have "ToLower ''Bearer'' = ''bearer''" by code_simp
  then have b: "bearer_spec (''Bearer '' @ example_token) = Some example_token" by (simp add: bearer_spec_def)
  have n: "clientconfig_name ''u'' = ''u-clientconfig''" by code_simp
  have "FromSecret (au_secrets auth_example_env) w ''u-clientconfig'' ''ns'' = Inr (example_endpoint ''U'')" for w
    by (simp add: FromSecret_def auth_example_env_def store_api_def endpoint_of_string_data) (simp add: example_endpoint_def zero_endpoint_def)
  with b n show ?thesis
    by (simp add: auth_spec_def token_validation_def example_decoded static_PublicKey_def is_rsa_def expired_def too_early_def
        krateo_claims_def example_options_def ref_date_def) (simp add: auth_example_env_def)
qed

theorem UserConfig_refines_spec_witness:
  "rw_Body (sv_resp (UserConfig auth_example_env (Some static_PublicKey) ''ns'' greet
     (auth_request (''Bearer '' @ example_token)) (fresh_server (Some (Some \<lparr>rsa_N = 33, rsa_E = 3\<rparr>))))) = ''u'' \<and>
   rw_Status (sv_resp (UserConfig auth_example_env (Some static_PublicKey) ''ns'' greet
     (auth_request ''Basic dTpw'') (fresh_server None))) = Some 401"
proof -
  let ?k = "Some (Some \<lparr>rsa_N = 33, rsa_E = 3\<rparr>)"
  have env: "au_parse auth_example_env = ref_parse" by (simp add: auth_example_env_def)
  have resp: "rw_Status (sv_resp (fresh_server w)) = None" for w by (simp add: fresh_server_def)
  have hdr: "header_Get (rq_Header (auth_request a)) ''Authorization'' = a" for a
    by (simp add: auth_request_def header_Get_def CanonicalHeaderKey_def) code_simp
  have basic: "auth_spec ref_decoded ref_verifies static_PublicKey auth_example_env ''ns'' ''Basic dTpw'' None = (None, Deny 401)"
    by (simp add: auth_spec_def bearer_spec_def)
  note spec = UserConfig_refines_spec [where pk = static_PublicKey and env = auth_example_env, unfolded env,
      OF static_auth.authenticator_axioms resp, where ns = "''ns''" and nxt = greet]
  have world: "sv_world (fresh_server w) = w" for w by (simp add: fresh_server_def)
  have greeted: "rw_Body (sv_resp (greet (r\<lparr>rq_ctx := BuildContext c [WithAccessToken t, WithUserInfo u, WithUserConfig ep]\<rparr>)
      ((fresh_server v)\<lparr>sv_world := w\<rparr>))) = ui_Username u" for r c t u ep v w
    by (simp add: greet_def on_resp_def write_body_def WriteHeader_def fresh_server_def BuildContext_def ctx_UserInfo_def
        WithAccessToken_def WithUserInfo_def WithUserConfig_def Let_def)
  have "rw_Body (sv_resp (UserConfig auth_example_env (Some static_PublicKey) ''ns'' greet
      (auth_request (''Bearer '' @ example_token)) (fresh_server ?k))) = ''u''"
    using spec [of "auth_request (''Bearer '' @ example_token)" ?k, unfolded hdr world example_admitted] by (simp add: greeted)
  moreover have "refused (fresh_server None) None 401
      (UserConfig auth_example_env (Some static_PublicKey) ''ns'' greet (auth_request ''Basic dTpw'') (fresh_server None))"
    using spec [of "auth_request ''Basic dTpw''" None, unfolded hdr world basic] by simp
  ultimately show ?thesis by (simp add: refused_def)
qed

text \<open>
  The configuration is stored under the DNS label of the user's name, and different users can have the same
  label: what \<open>JohnDoe\<close> stored is what the middleware loads for \<open>john.doe\<close>.
\<close>

theorem config_of_another_user:
  assumes "secrets_laws api" and "Store api w ns ep = (w', None)" and "ep_Username ep = ''JohnDoe''"
  shows "FromSecret api w' (clientconfig_name ''john.doe'') ns =
    Inr (ep\<lparr>ep_AwsAccessKey := [], ep_AwsSecretKey := [], ep_AwsRegion := [], ep_AwsService := [], ep_AwsTime := []\<rparr>)"
proof -
  have "clientconfig_name ''john.doe'' = clientconfig_name ''JohnDoe''" by code_simp
  with secrets_laws.stored [OF assms(1,2)] assms(3) show ?thesis by (simp add: FromSecret_def endpoint_of_string_data)
qed

end
