(* ===== verification/Env_Vars.thy ===== *)
theory Env_Vars
  imports Endpoints
begin

text \<open>
  \<open>env/env.go\<close>: typed readers of environment variables.  The environment is a map from names to texts;
  \<open>time.ParseDuration\<close>, whose fractions are computed in floating point, is an argument of \<open>env_Duration\<close>.
\<close>

text \<open>\<open>time.Time.Sub\<close>, also behind \<open>time.Until\<close>, saturates at the bounds of a duration.\<close>

definition time_Sub :: "instant \<Rightarrow> instant \<Rightarrow> duration" where
  "time_Sub a b = max (- (2 ^ 63)) (min (2 ^ 63 - 1) (a - b))"

type_synonym environ = "(string, string) gomap"

definition env_String :: "environ \<Rightarrow> string \<Rightarrow> string \<Rightarrow> string" where
  "env_String e key defaultValue = (case map_of e key of None \<Rightarrow> defaultValue | Some val \<Rightarrow> val)"

definition env_Int :: "environ \<Rightarrow> string \<Rightarrow> int \<Rightarrow> int" where
  "env_Int e key defaultValue =
     (case map_of e key of
        None \<Rightarrow> defaultValue
      | Some val \<Rightarrow>
          let n = TrimSpace val in
          if n = [] then defaultValue
          else case Atoi n of None \<Rightarrow> defaultValue | Some res \<Rightarrow> res)"

definition ParseBool :: "string \<Rightarrow> bool option" where
  "ParseBool s =
     (if parse_bool s then Some True
      else if s \<in> {''0'', ''f'', ''F'', ''FALSE'', ''false'', ''False''} then Some False
      else None)"

definition env_True :: "environ \<Rightarrow> string \<Rightarrow> bool" where
  "env_True e key =
     (case map_of e key of
        None \<Rightarrow> False
      | Some val \<Rightarrow> (case ParseBool (TrimSpace val) of None \<Rightarrow> False | Some res \<Rightarrow> res))"

definition TestMode :: "environ \<Rightarrow> bool" where
  "TestMode e = env_True e ''TEST_MODE''"

definition SetTestMode :: "bool \<Rightarrow> environ \<Rightarrow> environ" where
  "SetTestMode val e = AList.update ''TEST_MODE'' (format_bool val) e"

definition env_Bool :: "environ \<Rightarrow> string \<Rightarrow> bool \<Rightarrow> bool" where
  "env_Bool e key defaultValue =
     (case map_of e key of
        None \<Rightarrow> defaultValue
      | Some val \<Rightarrow> (case ParseBool (TrimSpace val) of None \<Rightarrow> defaultValue | Some res \<Rightarrow> res))"

definition env_Duration :: "(string \<Rightarrow> duration option) \<Rightarrow> environ \<Rightarrow> string \<Rightarrow> duration \<Rightarrow> duration" where
  "env_Duration parseDuration e key defaultValue =
     (case map_of e key of
        None \<Rightarrow> defaultValue
      | Some val \<Rightarrow> (case parseDuration (TrimSpace val) of None \<Rightarrow> defaultValue | Some res \<Rightarrow> res))"

text \<open>\<open>Float64\<close> with \<open>strconv.ParseFloat\<close> as an argument.\<close>

definition env_Float64 :: "(string \<Rightarrow> 'f option) \<Rightarrow> environ \<Rightarrow> string \<Rightarrow> 'f \<Rightarrow> 'f" where
  "env_Float64 parseFloat e key defaultValue =
     (case map_of e key of
        None \<Rightarrow> defaultValue
      | Some val \<Rightarrow> (case parseFloat (TrimSpace val) of None \<Rightarrow> defaultValue | Some res \<Rightarrow> res))"

text \<open>\<open>strings.LastIndexByte\<close>, \<open>None\<close> for \<open>-1\<close>.\<close>

definition LastIndexByte :: "string \<Rightarrow> char \<Rightarrow> nat option" where
  "LastIndexByte s c = map_option (\<lambda>i. length s - Suc i) (IndexByte (rev s) c)"

text \<open>A service variable may be a bare port or \<open>tcp://host:port\<close>; the last colon starts the port.\<close>

definition ServicePort :: "environ \<Rightarrow> string \<Rightarrow> int \<Rightarrow> int" where
  "ServicePort e key defaultValue =
     (case map_of e key of
        None \<Rightarrow> defaultValue
      | Some val \<Rightarrow>
          let n = TrimSpace val in
          if n = [] then defaultValue
          else let port = (\<lambda>p. case Atoi p of None \<Rightarrow> defaultValue | Some res \<Rightarrow> res) in
               if HasPrefix n ''tcp://''
               then case LastIndexByte n (CHR '':'') of
                      None \<Rightarrow> defaultValue
                    | Some idx \<Rightarrow> if idx = length n - 1 then defaultValue else port (drop (idx + 1) n)
               else port n)"

lemma TestMode_Set: "TestMode (SetTestMode b e) = b"
proof -
  have "TrimSpace (format_bool True) = format_bool True \<and> TrimSpace (format_bool False) = format_bool False" by code_simp
  then have "TrimSpace (format_bool b) = format_bool b" by (cases b) simp_all
  moreover have "ParseBool (format_bool b) = Some b" by (simp add: ParseBool_def parse_bool_def format_bool_def)
  ultimately show ?thesis by (simp add: TestMode_def SetTestMode_def env_True_def)
qed

lemma IndexByte_first: "c \<notin> set t \<Longrightarrow> IndexByte (t @ c # u) c = Some (length t)"
  by (induction t) auto

lemma LastIndexByte_append: "c \<notin> set t \<Longrightarrow> LastIndexByte (s @ c # t) c = Some (length s)"
  using IndexByte_first [of c "rev t" "rev s"] by (simp add: LastIndexByte_def)

text \<open>The port of a service is read from both forms of its variable.\<close>

theorem ServicePort_reads_port:
  assumes "int n < 2 ^ 63" and "TrimSpace v = v"
    and "v = show_nat n \<or> v = ''tcp://'' @ host @ CHR '':'' # show_nat n"
  shows "ServicePort [(k, v)] k d = int n"
proof -
  obtain x xs where sn: "show_nat n = x # xs" by (meson neq_Nil_conv show_nat_ne)
  have digits: "c \<in> set (show_nat n) \<Longrightarrow> is_digit c" for c using show_nat_digits [of n] by (simp add: list_all_iff)
  have colon: "CHR '':'' \<notin> set (show_nat n)" using digits [of "CHR '':''"] by (auto simp: is_digit_def less_eq_char_def)
  have t: "x \<noteq> CHR ''t''" using digits [of x] sn by (auto simp: is_digit_def less_eq_char_def)
  show ?thesis
  proof (cases "v = show_nat n")
    case True
    with t sn assms(2) Atoi_show_nat [OF assms(1)] show ?thesis by (simp add: ServicePort_def HasPrefix_def)
  next
    case False
    with assms(3) have v: "v = ''tcp://'' @ host @ CHR '':'' # show_nat n" by blast
    then have "LastIndexByte v (CHR '':'') = Some (length (''tcp://'' @ host))"
      using LastIndexByte_append [OF colon, of "''tcp://'' @ host"] by simp
    with v assms(2) Atoi_show_nat [OF assms(1)] show ?thesis
      by (simp add: ServicePort_def HasPrefix_def Let_def)
  qed
qed

end
