(* ===== verification/Rbac_Authorizer.thy ===== *)
theory Rbac_Authorizer
  imports Ttl_Cache Http_Types Env_Vars
begin

text \<open>
  \<open>kubeutil/rbac/rbac.go\<close>: the cached authorizer, \<open>UserCan\<close> with its rules reviews, access reviews and cache.

  The API server is the record \<open>review_api\<close>: building the client of a user, the review of the rules
  of a namespace and the review of one access.  The state of a call holds the cache, the position in the
  sequence of clock readings and the reviews requested so far.  \<open>grouped\<close> is a Go map: the order in which its
  namespaces are visited is an argument.  The slice \<open>fallback\<close> shares the array of \<open>items\<close>; \<open>review_items\<close>
  writes into that array.  Log lines are left out.  The reviews of one call see the API server in one state; from call
  to call it may change.

  Shown: in every sequence of calls of an authorizer, an answer is a decision that the API server gave to this user
  in this call or in one that ended at most a time-to-live before.  The locale \<open>answering\<close> carries the loops of one call.
\<close>

section \<open>Model\<close>

record UserCanTarget =
  tg_Verb :: string
  tg_Group :: string
  tg_Resource :: string
  tg_Namespace :: string

record userCanCacheKey =
  ck_Endpoint :: endpoint
  ck_Verb :: string
  ck_Group :: string
  ck_Resource :: string
  ck_Namespace :: string

record authorizerConfig =
  cf_cacheTTL :: duration
  cf_maxEntries :: int

record Authorizer =
  az_cache :: "(userCanCacheKey, bool) ttl_cache option"
  az_cacheTTL :: duration

record resource_rule =
  rr_Verbs :: "string list"
  rr_APIGroups :: "string list"
  rr_Resources :: "string list"
  rr_ResourceNames :: "string list"

record review_api =
  newUserClientset :: "endpoint \<Rightarrow> kerr option"
  rulesReview :: "endpoint \<Rightarrow> string \<Rightarrow> kerr + (resource_rule list \<times> bool)"
  accessReview :: "endpoint \<Rightarrow> UserCanTarget \<Rightarrow> kerr + bool"

definition WithCacheTTL :: "duration \<Rightarrow> authorizerConfig \<Rightarrow> authorizerConfig" where
  "WithCacheTTL d cfg = cfg\<lparr>cf_cacheTTL := d\<rparr>"

definition WithCacheMaxEntries :: "int \<Rightarrow> authorizerConfig \<Rightarrow> authorizerConfig" where
  "WithCacheMaxEntries n cfg = cfg\<lparr>cf_maxEntries := n\<rparr>"

definition NewAuthorizer ::
  "(string \<Rightarrow> duration option) \<Rightarrow> environ \<Rightarrow> (authorizerConfig \<Rightarrow> authorizerConfig) list \<Rightarrow> Authorizer" where
  "NewAuthorizer parseDuration e opts =
     (let cfg = fold (\<lambda>opt c. opt c) opts
            \<lparr>cf_cacheTTL = env_Duration parseDuration e ''RBAC_USERCAN_CACHE_TTL'' (10 * 1000000000),
             cf_maxEntries = env_Int e ''RBAC_USERCAN_CACHE_MAX_ENTRIES'' 4096\<rparr>
      in \<lparr>az_cache = Some (NewTTL [WithMaxEntries (cf_maxEntries cfg)]), az_cacheTTL = cf_cacheTTL cfg\<rparr>)"

definition SetCacheTTL :: "Authorizer \<Rightarrow> duration \<Rightarrow> Authorizer" where
  "SetCacheTTL a ttl =
     a\<lparr>az_cacheTTL := ttl, az_cache := (if ttl \<le> 0 then map_option TTL_Clear (az_cache a) else az_cache a)\<rparr>"

definition authorizer_Close :: "Authorizer \<Rightarrow> Authorizer" where
  "authorizer_Close a = a\<lparr>az_cache := map_option TTL_Close (az_cache a)\<rparr>"

definition newUserCanCacheKey :: "endpoint \<Rightarrow> UserCanTarget \<Rightarrow> userCanCacheKey" where
  "newUserCanCacheKey ep target =
     \<lparr>ck_Endpoint = ep, ck_Verb = tg_Verb target, ck_Group = tg_Group target, ck_Resource = tg_Resource target,
      ck_Namespace = tg_Namespace target\<rparr>"

definition resolveUserEndpoint :: "bool \<Rightarrow> ctx \<Rightarrow> endpoint \<times> bool" where
  "resolveUserEndpoint testMode cx =
     (case ctx_UserConfig testMode cx of Inl err \<Rightarrow> (zero_endpoint, False) | Inr ep \<Rightarrow> (ep, True))"

definition stringSliceContains :: "string list \<Rightarrow> string \<Rightarrow> bool" where
  "stringSliceContains values wanted = list_ex (\<lambda>v. v = ''*'' \<or> v = wanted) values"

fun rulesAllowTarget :: "resource_rule list \<Rightarrow> UserCanTarget \<Rightarrow> bool" where
  "rulesAllowTarget [] target = False"
| "rulesAllowTarget (rule # rules) target =
     (if rr_ResourceNames rule \<noteq> [] then rulesAllowTarget rules target
      else if \<not> stringSliceContains (rr_Verbs rule) (tg_Verb target) then rulesAllowTarget rules target
      else if \<not> stringSliceContains (rr_APIGroups rule) (tg_Group target) then rulesAllowTarget rules target
      else if \<not> stringSliceContains (rr_Resources rule) (tg_Resource target) then rulesAllowTarget rules target
      else True)"

definition buildUserCanResult :: "UserCanTarget list \<Rightarrow> bool list \<Rightarrow> (UserCanTarget, bool) gomap" where
  "buildUserCanResult targets allowed = fold (\<lambda>(t, b) m. AList.update t b m) (zip targets allowed) []"

datatype review = RulesReview string | AccessReview UserCanTarget

record call_state =
  cs_cache :: "(userCanCacheKey, bool) ttl_cache option"
  cs_ticks :: nat
  cs_allowed :: "bool list"
  cs_reviews :: "review list"

text \<open>\<open>storeCache\<close>, with the reading of the clock that \<open>Set\<close> takes.\<close>

definition storeCache :: "(nat \<Rightarrow> instant) \<Rightarrow> duration \<Rightarrow> userCanCacheKey \<Rightarrow> bool \<Rightarrow> call_state \<Rightarrow> call_state" where
  "storeCache clock ttl key allowed st =
     (case cs_cache st of
        None \<Rightarrow> st
      | Some c \<Rightarrow>
          if ttl \<le> 0 then st
          else st\<lparr>cs_cache := Some (TTL_Set c key allowed ttl (clock (cs_ticks st))), cs_ticks := Suc (cs_ticks st)\<rparr>)"

type_synonym pending = "nat \<times> userCanCacheKey"

text \<open>The first loop: what the cache answers, and the checks that remain, in order.\<close>

definition cached_answer ::
  "(nat \<Rightarrow> instant) \<Rightarrow> duration \<Rightarrow> userCanCacheKey \<Rightarrow> call_state \<Rightarrow> call_state \<times> bool option" where
  "cached_answer clock ttl cacheKey st =
     (case cs_cache st of
        Some c \<Rightarrow>
          if ttl > 0
          then let (c', v) = TTL_lookup False c cacheKey (clock (cs_ticks st))
               in (st\<lparr>cs_cache := Some c', cs_ticks := Suc (cs_ticks st)\<rparr>, v)
          else (st, None)
      | None \<Rightarrow> (st, None))"

fun probe_targets ::
  "(nat \<Rightarrow> instant) \<Rightarrow> duration \<Rightarrow> endpoint \<Rightarrow> nat \<Rightarrow> UserCanTarget list \<Rightarrow> call_state \<Rightarrow> call_state \<times> pending list" where
  "probe_targets clock ttl ep i [] st = (st, [])"
| "probe_targets clock ttl ep i (tgt # tgts) st =
     (let cacheKey = newUserCanCacheKey ep tgt in
      case cached_answer clock ttl cacheKey st of
        (st1, Some cachedAllowed) \<Rightarrow>
          probe_targets clock ttl ep (Suc i) tgts (st1\<lparr>cs_allowed := (cs_allowed st1)[i := cachedAllowed]\<rparr>)
      | (st1, None) \<Rightarrow> apsnd ((#) (i, cacheKey)) (probe_targets clock ttl ep (Suc i) tgts st1))"

fun resolvePendingWithAccessReviews ::
  "review_api \<Rightarrow> (nat \<Rightarrow> instant) \<Rightarrow> duration \<Rightarrow> endpoint \<Rightarrow> UserCanTarget list \<Rightarrow> pending list \<Rightarrow> call_state \<Rightarrow> call_state" where
  "resolvePendingWithAccessReviews api clock ttl ep targets [] st = st"
| "resolvePendingWithAccessReviews api clock ttl ep targets ((i, key) # its) st =
     (let st1 = st\<lparr>cs_reviews := cs_reviews st @ [AccessReview (targets ! i)]\<rparr> in
      case accessReview api ep (targets ! i) of
        Inl err \<Rightarrow> resolvePendingWithAccessReviews api clock ttl ep targets its st1
      | Inr a \<Rightarrow>
          resolvePendingWithAccessReviews api clock ttl ep targets its
            (storeCache clock ttl key a (st1\<lparr>cs_allowed := (cs_allowed st1)[i := a]\<rparr>)))"

text \<open>
  The loop over the items of a namespace with their rules: position \<open>j\<close> reads the array \<open>xs\<close>, and an undecided item is
  written at position \<open>n\<close> of the same array, the length of \<open>fallback\<close>.
\<close>

function review_items ::
  "(nat \<Rightarrow> instant) \<Rightarrow> duration \<Rightarrow> UserCanTarget list \<Rightarrow> resource_rule list \<Rightarrow> bool \<Rightarrow> nat \<Rightarrow> nat \<Rightarrow>
   pending list \<Rightarrow> call_state \<Rightarrow> pending list \<times> call_state" where
  "review_items clock ttl targets rules incomplete j n xs st =
     (if j < length xs
      then let item = xs ! j in
           if rulesAllowTarget rules (targets ! fst item)
           then review_items clock ttl targets rules incomplete (Suc j) n xs
                  (storeCache clock ttl (snd item) True (st\<lparr>cs_allowed := (cs_allowed st)[fst item := True]\<rparr>))
           else if \<not> incomplete
           then review_items clock ttl targets rules incomplete (Suc j) n xs (storeCache clock ttl (snd item) False st)
           else review_items clock ttl targets rules incomplete (Suc j) (Suc n) (xs[n := item]) st
      else (take n xs, st))"
  by pat_completeness auto
termination
  by (relation "measure (\<lambda>(clock, ttl, targets, rules, incomplete, j, n, xs, st). length xs - j)") auto

declare review_items.simps [simp del]

definition review_namespace ::
  "review_api \<Rightarrow> (nat \<Rightarrow> instant) \<Rightarrow> duration \<Rightarrow> endpoint \<Rightarrow> UserCanTarget list \<Rightarrow> string \<Rightarrow> pending list \<Rightarrow> call_state \<Rightarrow> call_state" where
  "review_namespace api clock ttl ep targets ns its st =
     (let st1 = st\<lparr>cs_reviews := cs_reviews st @ [RulesReview ns]\<rparr> in
      case rulesReview api ep ns of
        Inl err \<Rightarrow> resolvePendingWithAccessReviews api clock ttl ep targets its st1
      | Inr (rules, incomplete) \<Rightarrow>
          (let (fallback, st2) = review_items clock ttl targets rules incomplete 0 0 its st1 in
           if fallback \<noteq> [] then resolvePendingWithAccessReviews api clock ttl ep targets fallback st2 else st2))"

definition in_namespace :: "UserCanTarget list \<Rightarrow> string \<Rightarrow> pending list \<Rightarrow> pending list" where
  "in_namespace targets ns pending = filter (\<lambda>(i, key). tg_Namespace (targets ! i) = ns) pending"

text \<open>\<open>visit\<close> gives the order in which the iteration over \<open>grouped\<close> meets its keys.\<close>

definition UserCan ::
  "review_api \<Rightarrow> (string list \<Rightarrow> string list) \<Rightarrow> (nat \<Rightarrow> instant) \<Rightarrow> bool \<Rightarrow> Authorizer \<Rightarrow> ctx \<Rightarrow> UserCanTarget list \<Rightarrow>
   Authorizer \<times> review list \<times> (UserCanTarget, bool) gomap" where
  "UserCan api visit clock testMode a cx targets =
     (if targets = [] then (a, [], [])
      else let (ep, ok) = resolveUserEndpoint testMode cx in
           if \<not> ok then (a, [], [])
           else let ttl = az_cacheTTL a;
                    (st, pending) = probe_targets clock ttl ep 0 targets
                      \<lparr>cs_cache = az_cache a, cs_ticks = 0, cs_allowed = replicate (length targets) False, cs_reviews = []\<rparr>;
                    finish = (\<lambda>st. (a\<lparr>az_cache := cs_cache st\<rparr>, cs_reviews st, buildUserCanResult targets (cs_allowed st)))
                in if pending = [] then finish st
                   else case newUserClientset api ep of
                          Some err \<Rightarrow> finish st
                        | None \<Rightarrow>
                            finish (fold (\<lambda>ns. review_namespace api clock ttl ep targets ns (in_namespace targets ns pending))
                              (visit (remdups (map (\<lambda>(i, key). tg_Namespace (targets ! i)) pending))) st))"

section \<open>What the API server decides\<close>

text \<open>The decision for one target, \<open>None\<close> when no review could decide it.\<close>

definition access_decision :: "review_api \<Rightarrow> endpoint \<Rightarrow> UserCanTarget \<Rightarrow> bool option" where
  "access_decision api ep t = (case accessReview api ep t of Inl e \<Rightarrow> None | Inr b \<Rightarrow> Some b)"

definition rule_covers :: "UserCanTarget \<Rightarrow> resource_rule \<Rightarrow> bool" where
  "rule_covers t r \<longleftrightarrow> rr_ResourceNames r = [] \<and> set (rr_Verbs r) \<inter> {''*'', tg_Verb t} \<noteq> {} \<and>
     set (rr_APIGroups r) \<inter> {''*'', tg_Group t} \<noteq> {} \<and> set (rr_Resources r) \<inter> {''*'', tg_Resource t} \<noteq> {}"

definition decision :: "review_api \<Rightarrow> endpoint \<Rightarrow> UserCanTarget \<Rightarrow> bool option" where
  "decision api ep t =
     (case rulesReview api ep (tg_Namespace t) of
        Inl e \<Rightarrow> access_decision api ep t
      | Inr (rules, incomplete) \<Rightarrow>
          if \<exists>r \<in> set rules. rule_covers t r then Some True
          else if incomplete then access_decision api ep t else Some False)"

definition key_target :: "userCanCacheKey \<Rightarrow> UserCanTarget" where
  "key_target k = \<lparr>tg_Verb = ck_Verb k, tg_Group = ck_Group k, tg_Resource = ck_Resource k, tg_Namespace = ck_Namespace k\<rparr>"

definition granted :: "review_api \<Rightarrow> userCanCacheKey \<Rightarrow> bool \<Rightarrow> bool" where
  "granted api k b \<longleftrightarrow> decision api (ck_Endpoint k) (key_target k) = Some b"

text \<open>A cache all of whose entries are on a record of answers with their expiry.\<close>

definition cache_says :: "(userCanCacheKey \<Rightarrow> bool \<Rightarrow> instant \<Rightarrow> bool) \<Rightarrow> (userCanCacheKey, bool) ttl_cache option \<Rightarrow> bool" where
  "cache_says H cache = (case cache of None \<Rightarrow> True | Some c \<Rightarrow> cache_inv c \<and> ttl.all_stored H c)"

lemma cache_says_mono: "cache_says H cache \<Longrightarrow> (\<And>k v t. H k v t \<Longrightarrow> H' k v t) \<Longrightarrow> cache_says H' cache"
  unfolding cache_says_def by (auto split: option.splits intro: ttl.all_stored_mono)

lemma stringSliceContains_iff: "stringSliceContains vs w \<longleftrightarrow> set vs \<inter> {''*'', w} \<noteq> {}"
  by (auto simp: stringSliceContains_def list_ex_iff)

lemma rulesAllowTarget_iff: "rulesAllowTarget rules t \<longleftrightarrow> (\<exists>r \<in> set rules. rule_covers t r)"
  by (induction rules) (simp_all add: rule_covers_def stringSliceContains_iff)

lemma granted_key [simp]: "granted api (newUserCanCacheKey ep t) b \<longleftrightarrow> decision api ep t = Some b"
  by (cases t) (simp add: granted_def newUserCanCacheKey_def key_target_def)

section \<open>The loops settle the targets\<close>

text \<open>
  The answers of one call: \<open>ok t b\<close> says that \<open>b\<close> may be reported for the target \<open>t\<close>, and \<open>H\<close> is the record of the
  entries that the cache may hold.  What the server decides may be reported and stored, an undecided target may be
  denied, and what is on record may be reported until it expires.
\<close>

locale answering =
  fixes api :: review_api and ep :: endpoint and clock :: "nat \<Rightarrow> instant" and ttl :: duration
    and H :: "userCanCacheKey \<Rightarrow> bool \<Rightarrow> instant \<Rightarrow> bool" and ok :: "UserCanTarget \<Rightarrow> bool \<Rightarrow> bool"
  assumes fresh: "decision api ep t = Some b \<Longrightarrow> ok t b"
    and undecided: "decision api ep t = None \<Longrightarrow> ok t False"
    and storable: "decision api ep t = Some b \<Longrightarrow> H (newUserCanCacheKey ep t) b (clock n + ttl)"
    and recorded_ok: "H (newUserCanCacheKey ep t) b e \<Longrightarrow> clock n \<le> e \<Longrightarrow> ok t b"

text \<open>A server that does not change answers with its decisions.\<close>

interpretation unchanged: answering api ep clock ttl "\<lambda>k b e. granted api k b" "\<lambda>t b. b = (decision api ep t = Some True)"
  for api ep clock ttl
  by unfold_locales auto

text \<open>The flags after the targets with indices in \<open>S\<close> are settled, with a cache that is on record.\<close>

definition settled ::
  "(userCanCacheKey \<Rightarrow> bool \<Rightarrow> instant \<Rightarrow> bool) \<Rightarrow> (UserCanTarget \<Rightarrow> bool \<Rightarrow> bool) \<Rightarrow> UserCanTarget list \<Rightarrow> nat set \<Rightarrow> call_state \<Rightarrow> bool" where
  "settled H ok targets S st \<longleftrightarrow>
     cache_says H (cs_cache st) \<and> length (cs_allowed st) = length targets \<and>
     (\<forall>i < length targets. if i \<in> S then ok (targets ! i) (cs_allowed st ! i) else \<not> cs_allowed st ! i)"

definition pending_ok :: "endpoint \<Rightarrow> UserCanTarget list \<Rightarrow> pending list \<Rightarrow> bool" where
  "pending_ok ep targets its \<longleftrightarrow> (\<forall>(i, key) \<in> set its. i < length targets \<and> key = newUserCanCacheKey ep (targets ! i))"

lemma settled_reviews [simp]: "settled H ok targets S (st\<lparr>cs_reviews := r\<rparr>) = settled H ok targets S st"
  by (simp add: settled_def)

context answering
begin

lemma settled_mark:
  assumes "settled H ok targets S st" and "i < length targets" and "ok (targets ! i) b"
  shows "settled H ok targets (insert i S) (st\<lparr>cs_allowed := (cs_allowed st)[i := b]\<rparr>)"
  using assms by (auto simp: settled_def nth_list_update)

lemma settled_unmarked:
  assumes "settled H ok targets S st" and "ok (targets ! i) False"
  shows "settled H ok targets (insert i S) st"
  using assms by (auto simp: settled_def split: if_splits)

lemma settled_store:
  assumes "settled H ok targets S st" and "decision api ep t = Some b"
  shows "settled H ok targets S (storeCache clock ttl (newUserCanCacheKey ep t) b st)"
proof (cases "cs_cache st")
  case None
  with assms show ?thesis by (simp add: storeCache_def)
next
  case (Some c)
  with assms(1) have "cache_inv c" "ttl.all_stored H c" by (simp_all add: settled_def cache_says_def)
  then have "cache_says H (Some (TTL_Set c (newUserCanCacheKey ep t) b ttl (clock (cs_ticks st))))"
    using ttl.all_stored_set [of c H] ttl.sinv_set [of c] storable [OF assms(2)] by (simp add: cache_says_def)
  with assms(1) Some show ?thesis by (simp add: storeCache_def settled_def)
qed

lemma resolve_settles:
  assumes "settled H ok targets S st" and "pending_ok ep targets its"
    and "\<forall>(i, key) \<in> set its. decision api ep (targets ! i) = access_decision api ep (targets ! i)"
  shows "settled H ok targets (S \<union> fst ` set its) (resolvePendingWithAccessReviews api clock ttl ep targets its st)"
  using assms
proof (induction its arbitrary: S st)
  case (Cons it its)
  obtain i key where it: "it = (i, key)" by (cases it)
  let ?st1 = "st\<lparr>cs_reviews := cs_reviews st @ [AccessReview (targets ! i)]\<rparr>"
  have i: "i < length targets" "key = newUserCanCacheKey ep (targets ! i)" and ok: "pending_ok ep targets its"
    using Cons.prems(2) it by (auto simp: pending_ok_def)
  show ?case
  proof (cases "accessReview api ep (targets ! i)")
    case (Inl e)
    then have "settled H ok targets (insert i S) ?st1"
      using settled_unmarked [OF Cons.prems(1), of i] undecided Cons.prems(3) it by (simp add: access_decision_def)
    from Cons.IH [OF this ok] Cons.prems(3) it Inl show ?thesis by simp
  next
    case (Inr a)
    then have dec: "decision api ep (targets ! i) = Some a" using Cons.prems(3) it by (simp add: access_decision_def)
    have "settled H ok targets S ?st1" using Cons.prems(1) by simp
    from Cons.IH [OF settled_store [OF settled_mark [OF this i(1) fresh [OF dec]] dec] ok] Cons.prems(3) it Inr i(2)
    show ?thesis by simp
  qed
qed simp

text \<open>
  Writing \<open>fallback\<close> into the array that is being read loses nothing: the loop keeps exactly the undecided
  items, in their order.
\<close>

lemma review_items_settles:
  assumes "settled H ok targets S st" and "pending_ok ep targets xs" and "n \<le> j"
    and "\<forall>(i, key) \<in> set xs. rulesReview api ep (tg_Namespace (targets ! i)) = Inr (rules, incomplete)"
    and "review_items clock ttl targets rules incomplete j n xs st = (fb, st')"
  shows "fb = take n xs @ filter (\<lambda>it. incomplete \<and> \<not> rulesAllowTarget rules (targets ! fst it)) (drop j xs) \<and>
    settled H ok targets
      (S \<union> fst ` set (filter (\<lambda>it. \<not> incomplete \<or> rulesAllowTarget rules (targets ! fst it)) (drop j xs))) st'"
  using assms
proof (induction "length xs - j" arbitrary: j n xs S st)
  case 0
  then show ?case by (subst (asm) review_items.simps) simp
next
  case (Suc m)
  then have j: "j < length xs" by simp
  obtain i key where it: "xs ! j = (i, key)" by (cases "xs ! j")
  then have mem: "(i, key) \<in> set xs" using j nth_mem by metis
  then have i: "i < length targets" "key = newUserCanCacheKey ep (targets ! i)"
    and rr: "rulesReview api ep (tg_Namespace (targets ! i)) = Inr (rules, incomplete)"
    using Suc.prems(2,4) by (auto simp: pending_ok_def)
  have drop: "drop j xs = (i, key) # drop (Suc j) xs" using j it Cons_nth_drop_Suc by metis
  note run = Suc.prems(5) [unfolded review_items.simps [of clock ttl targets rules incomplete j]]
  consider (allow) "rulesAllowTarget rules (targets ! i)"
    | (deny) "\<not> rulesAllowTarget rules (targets ! i)" "\<not> incomplete"
    | (fallback) "\<not> rulesAllowTarget rules (targets ! i)" "incomplete" by blast
  then show ?case
  proof cases
    case allow
    then have dec: "decision api ep (targets ! i) = Some True" using rr by (simp add: decision_def rulesAllowTarget_iff)
    from Suc.hyps(1) [of xs "Suc j" _ _ n, OF _ settled_store [OF settled_mark [OF Suc.prems(1) i(1) fresh [OF dec]] dec]
        Suc.prems(2) _ Suc.prems(4)]
      Suc.hyps(2) Suc.prems(3) run j it allow drop i(2) show ?thesis by (simp add: Let_def)
  next
    case deny
    then have dec: "decision api ep (targets ! i) = Some False" using rr by (simp add: decision_def rulesAllowTarget_iff)
    then have "settled H ok targets (insert i S) st" using settled_unmarked [OF Suc.prems(1), of i] fresh [OF dec] by simp
    from Suc.hyps(1) [of xs "Suc j" _ _ n, OF _ settled_store [OF this dec] Suc.prems(2) _ Suc.prems(4)]
      Suc.hyps(2) Suc.prems(3) run j it deny drop i(2) show ?thesis by (simp add: Let_def)
  next
    case fallback
    let ?xs = "xs[n := (i, key)]"
    have sub: "set ?xs \<subseteq> set xs" using mem set_update_subset_insert [of xs n] by blast
    then have "pending_ok ep targets ?xs"
      and "\<forall>(i, key) \<in> set ?xs. rulesReview api ep (tg_Namespace (targets ! i)) = Inr (rules, incomplete)"
      using Suc.prems(2,4) unfolding pending_ok_def by blast+
    moreover have "take (Suc n) ?xs = take n xs @ [(i, key)]" and "drop (Suc j) ?xs = drop (Suc j) xs"
      using j Suc.prems(3) by (simp_all add: take_Suc_conv_app_nth)
    ultimately show ?thesis
      using Suc.hyps(1) [of ?xs "Suc j" S st "Suc n"] Suc.hyps(2) Suc.prems(1,3) run j it fallback drop by (simp add: Let_def)
  qed
qed

lemma review_namespace_settles:
  assumes "settled H ok targets S st" and "pending_ok ep targets its"
    and "\<forall>(i, key) \<in> set its. tg_Namespace (targets ! i) = ns"
  shows "settled H ok targets (S \<union> fst ` set its) (review_namespace api clock ttl ep targets ns its st)"
proof (cases "rulesReview api ep ns")
  case (Inl e)
  moreover from this have "\<forall>(i, key) \<in> set its. decision api ep (targets ! i) = access_decision api ep (targets ! i)"
    using assms(3) by (fastforce simp: decision_def)
  ultimately show ?thesis using assms(1,2) by (simp add: review_namespace_def resolve_settles)
next
  case (Inr res)
  obtain rules incomplete where res: "res = (rules, incomplete)" by (cases res)
  define st1 where "st1 = st\<lparr>cs_reviews := cs_reviews st @ [RulesReview ns]\<rparr>"
  obtain fb st2 where run: "review_items clock ttl targets rules incomplete 0 0 its st1 = (fb, st2)" by (metis surj_pair)
  have ns: "tg_Namespace (targets ! fst it) = ns" if "it \<in> set its" for it using assms(3) that by fastforce
  have "\<forall>(i, key) \<in> set its. rulesReview api ep (tg_Namespace (targets ! i)) = Inr (rules, incomplete)"
    using assms(3) Inr res by fastforce
  from review_items_settles [OF _ assms(2) le_refl this run] assms(1)
  have fb: "fb = filter (\<lambda>it. incomplete \<and> \<not> rulesAllowTarget rules (targets ! fst it)) its"
    and st2: "settled H ok targets
      (S \<union> fst ` set (filter (\<lambda>it. \<not> incomplete \<or> rulesAllowTarget rules (targets ! fst it)) its)) st2"
    by (simp_all add: st1_def)
  have "\<forall>(i, key) \<in> set fb. decision api ep (targets ! i) = access_decision api ep (targets ! i)"
    using Inr res ns fb by (fastforce simp: decision_def rulesAllowTarget_iff)
  moreover have "pending_ok ep targets fb" using assms(2) fb by (simp add: pending_ok_def)
  moreover have "set (filter (\<lambda>it. \<not> incomplete \<or> rulesAllowTarget rules (targets ! fst it)) its) \<union> set fb = set its"
    by (auto simp: fb)
  ultimately have "settled H ok targets (S \<union> fst ` set its) (resolvePendingWithAccessReviews api clock ttl ep targets fb st2)"
    using resolve_settles [OF st2] by (metis (no_types, lifting) Un_assoc image_Un)
  moreover have "review_namespace api clock ttl ep targets ns its st =
      resolvePendingWithAccessReviews api clock ttl ep targets fb st2"
    using run by (simp add: review_namespace_def Inr res st1_def)
  ultimately show ?thesis by simp
qed

lemma namespaces_settle:
  assumes "settled H ok targets S st" and "pending_ok ep targets its"
  shows "settled H ok targets (S \<union> fst ` {it \<in> set its. tg_Namespace (targets ! fst it) \<in> set nss})
    (fold (\<lambda>ns. review_namespace api clock ttl ep targets ns (in_namespace targets ns its)) nss st)"
  using assms(1)
proof (induction nss arbitrary: S st)
  case (Cons ns nss)
  have "pending_ok ep targets (in_namespace targets ns its)" using assms(2) by (simp add: pending_ok_def in_namespace_def)
  from review_namespace_settles [OF Cons.prems this] have "settled H ok targets
      (S \<union> fst ` {it \<in> set its. tg_Namespace (targets ! fst it) = ns})
      (review_namespace api clock ttl ep targets ns (in_namespace targets ns its) st)"
    by (auto simp: in_namespace_def case_prod_beta)
  from Cons.IH [OF this]
  have step: "settled H ok targets (S \<union> fst ` {it \<in> set its. tg_Namespace (targets ! fst it) = ns} \<union>
      fst ` {it \<in> set its. tg_Namespace (targets ! fst it) \<in> set nss})
      (fold (\<lambda>ns. review_namespace api clock ttl ep targets ns (in_namespace targets ns its)) (ns # nss) st)" by simp
  have "{it \<in> set its. tg_Namespace (targets ! fst it) \<in> set (ns # nss)} =
      {it \<in> set its. tg_Namespace (targets ! fst it) = ns} \<union> {it \<in> set its. tg_Namespace (targets ! fst it) \<in> set nss}" by auto
  with step show ?case by (simp only: image_Un Un_assoc)
qed simp

lemma cached_answer_settled:
  assumes "settled H ok targets S st" and "cached_answer clock ttl (newUserCanCacheKey ep t) st = (st', hit)"
  shows "settled H ok targets S st' \<and> (\<forall>b. hit = Some b \<longrightarrow> ok t b)"
proof (cases "cs_cache st")
  case None
  with assms show ?thesis by (simp add: cached_answer_def)
next
  case (Some c)
  with assms(1) have c: "cache_inv c" "ttl.all_stored H c" by (simp_all add: settled_def cache_says_def)
  let ?l = "TTL_lookup False c (newUserCanCacheKey ep t) (clock (cs_ticks st))"
  have "cache_says H (Some (fst ?l))"
    using c ttl.sinv_get ttl.all_stored_get by (auto simp: cache_says_def)
  moreover have "snd ?l = Some b \<Longrightarrow> ok t b" for b
    using ttl.hit_satisfies [OF c] recorded_ok by blast
  ultimately show ?thesis
    using assms Some by (cases ?l) (auto simp: cached_answer_def settled_def split: if_splits)
qed

lemma probe_settles:
  assumes "settled H ok targets S st" and "targets = pre @ tgts"
    and "probe_targets clock ttl ep (length pre) tgts st = (st', its)"
  shows "settled H ok targets (S \<union> ({length pre..<length targets} - fst ` set its)) st' \<and> pending_ok ep targets its \<and>
    fst ` set its \<subseteq> {length pre..}"
  using assms
proof (induction tgts arbitrary: S st pre its)
  case Nil
  then show ?case by (simp add: pending_ok_def)
next
  case (Cons t tgts)
  let ?n = "length pre"
  have t: "targets ! ?n = t" "?n < length targets" "targets = (pre @ [t]) @ tgts" using Cons.prems(2) by simp_all
  then have range: "{?n..<length targets} = insert ?n {Suc ?n..<length targets}" by auto
  obtain st1 hit where probe: "cached_answer clock ttl (newUserCanCacheKey ep t) st = (st1, hit)" by (metis surj_pair)
  note st1 = cached_answer_settled [OF Cons.prems(1) probe]
  show ?case
  proof (cases hit)
    case None
    then obtain its' where its: "its = (?n, newUserCanCacheKey ep t) # its'"
        "probe_targets clock ttl ep (length (pre @ [t])) tgts st1 = (st', its')"
      using Cons.prems(3) probe by (auto simp: Let_def apsnd_def map_prod_def split: prod.splits)
    from Cons.IH [OF conjunct1 [OF st1] t(3) its(2)]
    have ih: "settled H ok targets (S \<union> ({Suc ?n..<length targets} - fst ` set its')) st'" "pending_ok ep targets its'"
      "fst ` set its' \<subseteq> {Suc ?n..}" by simp_all
    moreover from ih(3) have "{?n..<length targets} - fst ` set its = {Suc ?n..<length targets} - fst ` set its'"
      using its(1) range by auto
    moreover have "pending_ok ep targets its" using ih(2) its(1) t(1,2) by (simp add: pending_ok_def)
    moreover have "fst ` set its \<subseteq> {?n..}" using ih(3) its(1) by auto
    ultimately show ?thesis by simp
  next
    case (Some b)
    then have "settled H ok targets (insert ?n S) (st1\<lparr>cs_allowed := (cs_allowed st1)[?n := b]\<rparr>)"
      using settled_mark [OF conjunct1 [OF st1] t(2)] st1 t(1) by simp
    from Cons.IH [OF this t(3), of its] Some Cons.prems(3) probe
    have ih: "settled H ok targets (insert ?n S \<union> ({Suc ?n..<length targets} - fst ` set its)) st'" "pending_ok ep targets its"
      "fst ` set its \<subseteq> {Suc ?n..}" by (simp_all add: Let_def)
    moreover from ih(3) have "?n \<notin> fst ` set its" by auto
    then have "S \<union> ({?n..<length targets} - fst ` set its) = insert ?n S \<union> ({Suc ?n..<length targets} - fst ` set its)"
      using range by auto
    ultimately show ?thesis by (auto simp: subset_eq)
  qed
qed

end

section \<open>Properties\<close>

lemma map_of_result: "map_of (fold (\<lambda>(t, b) m. AList.update t b m) ps m0) t = (map_of m0 ++ map_of (rev ps)) t"
  by (induction ps arbitrary: m0) (auto simp: map_add_def map_of_append split: option.splits)

lemma result_sound:
  assumes "length allowed = length targets" and "map_of (buildUserCanResult targets allowed) t = Some b"
  obtains i where "i < length targets" "targets ! i = t" "allowed ! i = b"
  using assms map_of_SomeD [of "rev (zip targets allowed)" t b]
  by (auto simp: buildUserCanResult_def map_of_result set_zip)

lemma result_total:
  assumes "length allowed = length targets" and "t \<in> set targets"
  shows "\<exists>b. map_of (buildUserCanResult targets allowed) t = Some b"
proof -
  have "dom (map_of (rev (zip targets allowed))) = set targets"
    using assms(1) by (simp add: dom_map_of_conv_image_fst flip: set_map)
  with assms(2) show ?thesis by (auto simp: buildUserCanResult_def map_of_result)
qed

context answering
begin

lemma UserCan_runs:
  assumes "cache_says H (az_cache a)" and "ttl = az_cacheTTL a" and "\<And>xs. set (visit xs) = set xs" and "targets \<noteq> []"
    and "ctx_UserConfig testMode cx = Inr ep" and "UserCan api visit clock testMode a cx targets = (a', reviews, res)"
  shows "\<exists>S st. settled H ok targets S st \<and> az_cache a' = cs_cache st \<and>
    res = buildUserCanResult targets (cs_allowed st) \<and> (newUserClientset api ep = None \<longrightarrow> {0..<length targets} \<subseteq> S)"
proof -
  let ?st0 = "\<lparr>cs_cache = az_cache a, cs_ticks = 0, cs_allowed = replicate (length targets) False, cs_reviews = []\<rparr>"
  obtain st its where probe: "probe_targets clock ttl ep 0 targets ?st0 = (st, its)" by (metis surj_pair)
  have "settled H ok targets {} ?st0" using assms(1) by (simp add: settled_def)
  from probe_settles [OF this, of "[]" targets st its] probe
  have st: "settled H ok targets ({0..<length targets} - fst ` set its) st" and ok: "pending_ok ep targets its" by simp_all
  let ?nss = "visit (remdups (map (\<lambda>(i, key). tg_Namespace (targets ! i)) its))"
  let ?fin = "fold (\<lambda>ns. review_namespace api clock ttl ep targets ns (in_namespace targets ns its)) ?nss st"
  have "resolveUserEndpoint testMode cx = (ep, True)" using assms(5) by (simp add: resolveUserEndpoint_def)
  note run = assms(6) [unfolded UserCan_def this] probe [unfolded assms(2)] assms(4)
  show ?thesis
  proof (cases "its = [] \<or> newUserClientset api ep \<noteq> None")
    case True
    with run have "a' = a\<lparr>az_cache := cs_cache st\<rparr>" "res = buildUserCanResult targets (cs_allowed st)" by (auto simp: Let_def split: if_splits option.splits)
    with st True show ?thesis by (intro exI [of _ "{0..<length targets} - fst ` set its"] exI [of _ st]) auto
  next
    case False
    with run have fin: "a' = a\<lparr>az_cache := cs_cache ?fin\<rparr>" "res = buildUserCanResult targets (cs_allowed ?fin)"
      by (auto simp: Let_def assms(2) split: if_splits option.splits)
    have "{it \<in> set its. tg_Namespace (targets ! fst it) \<in> set ?nss} = set its" by (force simp: assms(3))
    with namespaces_settle [OF st ok, of ?nss]
    have "settled H ok targets ({0..<length targets} - fst ` set its \<union> fst ` set its) ?fin" by simp
    with fin show ?thesis by (intro exI [of _ "{0..<length targets} - fst ` set its \<union> fst ` set its"] exI [of _ ?fin]) auto
  qed
qed

text \<open>What a call reports, and the cache it leaves.\<close>

lemma UserCan_reports:
  assumes "cache_says H (az_cache a)" and "ttl = az_cacheTTL a" and "\<And>xs. set (visit xs) = set xs" and "targets \<noteq> []"
    and "ctx_UserConfig testMode cx = Inr ep" and "UserCan api visit clock testMode a cx targets = (a', reviews, res)"
  shows "cache_says H (az_cache a')" and "map_of res t = Some True \<Longrightarrow> t \<in> set targets \<and> ok t True"
    and "newUserClientset api ep = None \<Longrightarrow> t \<in> set targets \<Longrightarrow> \<exists>b. map_of res t = Some b \<and> ok t b"
proof -
  obtain S st where st: "settled H ok targets S st" "az_cache a' = cs_cache st"
    "res = buildUserCanResult targets (cs_allowed st)" "newUserClientset api ep = None \<longrightarrow> {0..<length targets} \<subseteq> S"
    using UserCan_runs [OF assms] by (elim exE conjE)
  from st(1) have len: "length (cs_allowed st) = length targets"
    and flags: "\<And>i. i < length targets \<Longrightarrow> if i \<in> S then ok (targets ! i) (cs_allowed st ! i) else \<not> cs_allowed st ! i"
    by (simp_all add: settled_def)
  show "cache_says H (az_cache a')" using st(1,2) by (simp add: settled_def)
  show "t \<in> set targets \<and> ok t True" if granted: "map_of res t = Some True"
  proof -
    obtain i where "i < length targets" "targets ! i = t" "cs_allowed st ! i" using result_sound [OF len granted [unfolded st(3)]] by metis
    with flags [of i] show ?thesis by (auto split: if_splits)
  qed
  show "\<exists>b. map_of res t = Some b \<and> ok t b" if c: "newUserClientset api ep = None" and t: "t \<in> set targets"
  proof -
    obtain b where b: "map_of res t = Some b" using result_total [OF len t] st(3) by auto
    then obtain i where i: "i < length targets" "targets ! i = t" "cs_allowed st ! i = b"
      using result_sound [OF len] st(3) by metis
    moreover have "i \<in> S" using st(4) c i(1) by auto
    ultimately show ?thesis using b flags [of i] by auto
  qed
qed

end

section \<open>Calls of an authorizer over time\<close>

text \<open>
  The calls that one authorizer serves, each with the state of the API server at the time of the call and its interval
  of time, in which all its readings of the clock lie.
\<close>

record usercan_call =
  uc_api :: review_api
  uc_visit :: "string list \<Rightarrow> string list"
  uc_clock :: "nat \<Rightarrow> instant"
  uc_start :: instant
  uc_end :: instant
  uc_testMode :: bool
  uc_ctx :: ctx
  uc_targets :: "UserCanTarget list"

definition timed :: "usercan_call \<Rightarrow> bool" where
  "timed c \<longleftrightarrow> (\<forall>n. uc_start c \<le> uc_clock c n \<and> uc_clock c n \<le> uc_end c) \<and> (\<forall>xs. set (uc_visit c xs) = set xs)"

definition serve_call :: "Authorizer \<Rightarrow> usercan_call \<Rightarrow> Authorizer \<times> review list \<times> (UserCanTarget, bool) gomap" where
  "serve_call a c = UserCan (uc_api c) (uc_visit c) (uc_clock c) (uc_testMode c) a (uc_ctx c) (uc_targets c)"

definition after_calls :: "Authorizer \<Rightarrow> usercan_call list \<Rightarrow> Authorizer" where
  "after_calls = foldl (\<lambda>a c. fst (serve_call a c))"

text \<open>The API server decided so for this user, now or in a call that ended at most one time-to-live ago.\<close>

definition decided_recently :: "usercan_call list \<Rightarrow> usercan_call \<Rightarrow> duration \<Rightarrow> endpoint \<Rightarrow> UserCanTarget \<Rightarrow> bool \<Rightarrow> bool" where
  "decided_recently past c ttl ep t b \<longleftrightarrow>
     decision (uc_api c) ep t = Some b \<or>
     (\<exists>c' \<in> set past. decision (uc_api c') ep t = Some b \<and> uc_start c \<le> uc_end c' + ttl)"

definition on_record :: "usercan_call list \<Rightarrow> duration \<Rightarrow> userCanCacheKey \<Rightarrow> bool \<Rightarrow> instant \<Rightarrow> bool" where
  "on_record cs ttl k b e \<longleftrightarrow> (\<exists>c \<in> set cs. granted (uc_api c) k b \<and> e \<le> uc_end c + ttl)"

lemma call_answers:
  assumes "timed c"
  shows "answering (uc_api c) ep (uc_clock c) ttl (on_record (past @ [c]) ttl)
    (\<lambda>t b. decided_recently past c ttl ep t b \<or> \<not> b \<and> decision (uc_api c) ep t = None)"
proof
  fix t b n assume "decision (uc_api c) ep t = Some b"
  then show "on_record (past @ [c]) ttl (newUserCanCacheKey ep t) b (uc_clock c n + ttl)"
    using assms by (auto simp: on_record_def timed_def)
next
  fix t b e n assume "on_record (past @ [c]) ttl (newUserCanCacheKey ep t) b e" "uc_clock c n \<le> e"
  moreover from assms have "uc_start c \<le> uc_clock c n" by (simp add: timed_def)
  ultimately show "decided_recently past c ttl ep t b \<or> \<not> b \<and> decision (uc_api c) ep t = None"
    unfolding on_record_def decided_recently_def by force
qed (auto simp: decided_recently_def)

lemma UserCan_ttl: "az_cacheTTL (fst (UserCan api visit clock testMode a cx targets)) = az_cacheTTL a"
  by (auto simp: UserCan_def Let_def split: prod.splits option.splits)

lemma call_on_record:
  assumes "timed c" and "cache_says (on_record past (az_cacheTTL a)) (az_cache a)"
  shows "cache_says (on_record (past @ [c]) (az_cacheTTL a)) (az_cache (fst (serve_call a c)))"
proof -
  have says: "cache_says (on_record (past @ [c]) (az_cacheTTL a)) (az_cache a)"
    using assms(2) by (rule cache_says_mono) (auto simp: on_record_def)
  show ?thesis
  proof (cases "uc_targets c = [] \<or> (\<exists>e. ctx_UserConfig (uc_testMode c) (uc_ctx c) = Inl e)")
    case True
    then have "fst (serve_call a c) = a" by (auto simp: serve_call_def UserCan_def resolveUserEndpoint_def)
    with says show ?thesis by simp
  next
    case False
    then obtain ep where ep: "ctx_UserConfig (uc_testMode c) (uc_ctx c) = Inr ep" by (cases "ctx_UserConfig (uc_testMode c) (uc_ctx c)") auto
    obtain a' reviews res where run: "serve_call a c = (a', reviews, res)" by (metis surj_pair)
    have visits: "set (uc_visit c xs) = set xs" for xs using assms(1) by (simp add: timed_def)
    from False have "uc_targets c \<noteq> []" by simp
    from answering.UserCan_reports(1) [OF call_answers [OF assms(1)] says refl visits this ep run [unfolded serve_call_def]]
    show ?thesis by (simp add: run)
  qed
qed

lemma calls_on_record:
  assumes "\<forall>c \<in> set past. timed c" and "cache_says (\<lambda>k b e. False) (az_cache a)"
  shows "cache_says (on_record past (az_cacheTTL a)) (az_cache (after_calls a past)) \<and> az_cacheTTL (after_calls a past) = az_cacheTTL a"
  using assms
proof (induction past rule: rev_induct)
  case Nil
  then show ?case by (auto simp: after_calls_def intro: cache_says_mono)
next
  case (snoc c past)
  then have ih: "cache_says (on_record past (az_cacheTTL a)) (az_cache (after_calls a past))" "az_cacheTTL (after_calls a past) = az_cacheTTL a"
    by simp_all
  from call_on_record [of c past "after_calls a past"] ih snoc.prems(1) UserCan_ttl
  show ?case by (simp add: after_calls_def serve_call_def)
qed

lemma new_authorizer_empty: "cache_says (\<lambda>k b e. False) (az_cache (NewAuthorizer parseDuration env opts))"
proof -
  have "items (NewTTL os :: (userCanCacheKey, bool) ttl_cache) = []" for os by (simp add: NewTTL_def Let_def)
  then show ?thesis using inv_NewTTL by (simp add: NewAuthorizer_def Let_def cache_says_def ttl.all_stored_def stored_entry_def)
qed

text \<open>
  C6: the authorizer never grants what the API server did not grant to this user within the time-to-live.  A new
  authorizer serves any calls, in which the API server may answer differently from call to call (and in the same way within
  one call), and whatever the clock readings of the calls, the options and the order of the namespaces.  A target that
  the next call reports as allowed is one that the API server allows to the endpoint of this user now, or
  allowed to it in an earlier call that ended at most one time-to-live before this call began; when the client can be built,
  the answer for every target is such a decision too, or a denial where no review decides; so without such an
  earlier call the answer is exactly the server's decision, an undecided target being denied.
\<close>

theorem UserCan_decides:
  assumes "\<forall>c' \<in> set past. timed c'" and "timed c" and "a = after_calls (NewAuthorizer parseDuration e opts) past"
    and "serve_call a c = (a', reviews, res)" and "ctx_UserConfig (uc_testMode c) (uc_ctx c) = Inr ep"
  shows "(\<forall>t. map_of res t = Some True \<longrightarrow> t \<in> set (uc_targets c) \<and> decided_recently past c (az_cacheTTL a) ep t True) \<and>
    (newUserClientset (uc_api c) ep = None \<longrightarrow> (\<forall>t \<in> set (uc_targets c). \<exists>b. map_of res t = Some b \<and>
       (decided_recently past c (az_cacheTTL a) ep t b \<or> \<not> b \<and> decision (uc_api c) ep t = None)))"
proof (cases "uc_targets c = []")
  case True
  with assms(4) show ?thesis by (simp add: serve_call_def UserCan_def)
next
  case False
  have "cache_says (on_record (past @ [c]) (az_cacheTTL a)) (az_cache a)"
    using calls_on_record [OF assms(1) new_authorizer_empty, of parseDuration e opts] assms(3)
    by (auto simp: on_record_def intro: cache_says_mono)
  moreover have "set (uc_visit c xs) = set xs" for xs using assms(2) by (simp add: timed_def)
  ultimately show ?thesis
    using answering.UserCan_reports(2,3) [OF call_answers [OF assms(2)] _ refl _ False assms(5) assms(4) [unfolded serve_call_def]]
    by simp
qed

definition example_target :: "string \<Rightarrow> UserCanTarget" where
  "example_target verb = \<lparr>tg_Verb = verb, tg_Group = ''apps'', tg_Resource = ''deployments'', tg_Namespace = ''ns''\<rparr>"

definition example_api :: review_api where
  "example_api = \<lparr>newUserClientset = (\<lambda>ep. None),
     rulesReview = (\<lambda>ep ns. Inr ([\<lparr>rr_Verbs = [''get''], rr_APIGroups = [''*''], rr_Resources = [''deployments''], rr_ResourceNames = []\<rparr>], True)),
     accessReview = (\<lambda>ep t. if tg_Verb t = ''list'' then Inr True else Inl (KErr ''timeout''))\<rparr>"

text \<open>A first call at time 0, and a second one, in which the rights of the user are revoked, at a given time.\<close>

definition example_call :: "review_api \<Rightarrow> instant \<Rightarrow> usercan_call" where
  "example_call api now = \<lparr>uc_api = api, uc_visit = rev, uc_clock = (\<lambda>n. now), uc_start = now, uc_end = now, uc_testMode = False,
     uc_ctx = background\<lparr>cx_userConfig := Some zero_endpoint\<rparr>,
     uc_targets = [example_target ''get'', example_target ''list'', example_target ''delete'']\<rparr>"

definition revoked_api :: review_api where
  "revoked_api = \<lparr>newUserClientset = (\<lambda>ep. None), rulesReview = (\<lambda>ep ns. Inr ([], False)), accessReview = (\<lambda>ep t. Inr False)\<rparr>"

text \<open>After the time-to-live of ten seconds the revoked right is denied.\<close>

theorem UserCan_decides_witness:
  "map_of (snd (snd (serve_call (after_calls (NewAuthorizer (\<lambda>s. None) [] []) [example_call example_api 0])
     (example_call revoked_api 10000000001)))) (example_target ''get'') = Some False"
proof -
  let ?past = "[example_call example_api 0]" and ?c = "example_call revoked_api 10000000001"
  define a where "a = after_calls (NewAuthorizer (\<lambda>s. None) [] []) ?past"
  obtain a' reviews res where run: "serve_call a ?c = (a', reviews, res)" by (metis surj_pair)
  have timed: "\<forall>c' \<in> set ?past. timed c'" "timed ?c" by (simp_all add: timed_def example_call_def)
  have ttl: "az_cacheTTL a = 10000000000"
    by (simp add: a_def after_calls_def serve_call_def UserCan_ttl NewAuthorizer_def env_Duration_def Let_def)
  obtain ep where ep: "ctx_UserConfig (uc_testMode ?c) (uc_ctx ?c) = Inr ep" by (simp add: ctx_UserConfig_def example_call_def)
  have "\<exists>b. map_of res (example_target ''get'') = Some b \<and> (decided_recently ?past ?c (az_cacheTTL a) ep (example_target ''get'') b \<or>
      \<not> b \<and> decision (uc_api ?c) ep (example_target ''get'') = None)"
    using UserCan_decides [OF timed a_def run ep] by (simp add: example_call_def revoked_api_def)
  moreover have "decision revoked_api ep t = Some False" for t by (simp add: decision_def revoked_api_def)
  ultimately have "map_of res (example_target ''get'') = Some False"
    by (auto simp: decided_recently_def ttl example_call_def)
  with run show ?thesis by (simp add: a_def)
qed

end
