(* ===== verification/Event_Bus.thy ===== *)
theory Event_Bus
  imports Go_Prelude "HOL-Library.Word" "HOL-Library.Multiset"
begin

text \<open>
  \<open>eventbus/eventbus.go\<close>: subscriptions, and publications whose handlers run concurrently.

  \<open>Subscribe\<close>, \<open>Unsubscribe\<close> and \<open>copySubscriptions\<close> hold the lock of the bus for their whole body and are functions on
  the bus.  A publication is a small concurrent program: one goroutine per handler, a buffered channel of results, a
  collector, and a context that may be cancelled or time out.  \<open>handler_step\<close>, \<open>context_step\<close> and \<open>collector_step\<close> are the
  steps of the three, \<open>pub_step\<close> interleaves them, and \<open>bus_step\<close> interleaves any number of publications with
  subscriptions.  A handler's goroutine returns from the callback, calls the failure hook and sends its error in three steps,
  the last of which waits for room in the channel.  Handlers are names, and what a handler does
  (\<open>handler_end\<close>) is chosen when it ends; the failure hook returns.  Identifiers are 64-bit words.
\<close>

section \<open>Subscriptions\<close>

type_synonym EventID = string

record Subscription =
  sub_eventID :: EventID
  sub_id :: "64 word"

record 'h subscriptionInfo =
  si_id :: "64 word"
  si_cb :: 'h

record 'h bus =
  bus_nextID :: "64 word"
  bus_publishTimeout :: int
  bus_hook :: bool
  bus_infos :: "(EventID, 'h subscriptionInfo list) gomap"

definition WithPublishTimeout :: "int \<Rightarrow> 'h bus \<Rightarrow> 'h bus" where
  "WithPublishTimeout d b = b\<lparr>bus_publishTimeout := d\<rparr>"

definition WithFailureHook :: "bool \<Rightarrow> 'h bus \<Rightarrow> 'h bus" where
  "WithFailureHook hook b = b\<lparr>bus_hook := hook\<rparr>"

definition bus_New :: "('h bus \<Rightarrow> 'h bus) option list \<Rightarrow> 'h bus" where
  "bus_New opts =
     fold (\<lambda>opt b. case opt of None \<Rightarrow> b | Some f \<Rightarrow> f b) opts
       \<lparr>bus_nextID = 0, bus_publishTimeout = 0, bus_hook = False, bus_infos = []\<rparr>"

definition infos_of :: "'h bus \<Rightarrow> EventID \<Rightarrow> 'h subscriptionInfo list" where
  "infos_of b e = (case map_of (bus_infos b) e of None \<Rightarrow> [] | Some l \<Rightarrow> l)"

text \<open>A nil handler panics before the lock is taken.\<close>

definition Subscribe :: "'h bus \<Rightarrow> EventID \<Rightarrow> 'h option \<Rightarrow> string + 'h bus \<times> Subscription" where
  "Subscribe b eventID cb =
     (case cb of
        None \<Rightarrow> Inl ''eventbus: nil handler''
      | Some f \<Rightarrow>
          let ident = bus_nextID b in
          Inr (b\<lparr>bus_nextID := bus_nextID b + 1,
                 bus_infos := AList.update eventID (infos_of b eventID @ [\<lparr>si_id = ident, si_cb = f\<rparr>]) (bus_infos b)\<rparr>,
               \<lparr>sub_eventID = eventID, sub_id = ident\<rparr>))"

text \<open>The first entry with the identifier is cut out of the list.\<close>

fun remove_first :: "64 word \<Rightarrow> 'h subscriptionInfo list \<Rightarrow> 'h subscriptionInfo list" where
  "remove_first ident [] = []"
| "remove_first ident (x # xs) = (if si_id x = ident then xs else x # remove_first ident xs)"

definition Unsubscribe :: "'h bus \<Rightarrow> Subscription \<Rightarrow> 'h bus" where
  "Unsubscribe b s =
     (case map_of (bus_infos b) (sub_eventID s) of
        None \<Rightarrow> b
      | Some l \<Rightarrow>
          let l' = remove_first (sub_id s) l in
          if l' = [] then b\<lparr>bus_infos := AList.delete (sub_eventID s) (bus_infos b)\<rparr>
          else b\<lparr>bus_infos := AList.update (sub_eventID s) l' (bus_infos b)\<rparr>)"

definition copySubscriptions :: "'h bus \<Rightarrow> EventID \<Rightarrow> 'h subscriptionInfo list" where
  "copySubscriptions b eventID = (case map_of (bus_infos b) eventID of None \<Rightarrow> [] | Some l \<Rightarrow> l)"

section \<open>Publications\<close>

datatype ctx_err = Canceled | DeadlineExceeded

datatype bus_err = HandlerErr string | HandlerPanic EventID string

record PublishResult =
  pr_Delivered :: nat
  pr_Pending :: nat
  pr_Errors :: "bus_err list"
  pr_Err :: "ctx_err option"

definition zero_result :: PublishResult where
  "zero_result = \<lparr>pr_Delivered = 0, pr_Pending = 0, pr_Errors = [], pr_Err = None\<rparr>"

record HandlerFailure =
  hf_Subscription :: Subscription
  hf_Err :: bus_err
  hf_Panic :: "string option"

text \<open>The parent context: whether it is done, and whether it can become so.  A nil parent is the background.\<close>

record parent_ctx =
  pc_Err :: "ctx_err option"
  pc_cancellable :: bool

record pub_ctx =
  px_Err :: "ctx_err option"
  px_cancellable :: bool
  px_timeout :: bool

definition publishContext :: "'h bus \<Rightarrow> parent_ctx option \<Rightarrow> pub_ctx" where
  "publishContext b parent =
     (let p = (case parent of None \<Rightarrow> \<lparr>pc_Err = None, pc_cancellable = False\<rparr> | Some p \<Rightarrow> p)
      in \<lparr>px_Err = pc_Err p, px_cancellable = pc_cancellable p, px_timeout = (bus_publishTimeout b > 0)\<rparr>)"

text \<open>How a handler ends: with the error it returns, or by a panic.\<close>

datatype handler_end = Returns "string option" | Panics string

definition invokeHandler :: "bool \<Rightarrow> EventID \<Rightarrow> 'h subscriptionInfo \<Rightarrow> handler_end \<Rightarrow> HandlerFailure list \<times> bus_err option" where
  "invokeHandler hook eventID info res =
     (let err = (case res of Returns e \<Rightarrow> map_option HandlerErr e | Panics v \<Rightarrow> Some (HandlerPanic eventID v));
          panicValue = (case res of Returns e \<Rightarrow> None | Panics v \<Rightarrow> Some v)
      in (case err of
            None \<Rightarrow> []
          | Some e \<Rightarrow>
              if hook
              then [\<lparr>hf_Subscription = \<lparr>sub_eventID = eventID, sub_id = si_id info\<rparr>, hf_Err = e, hf_Panic = panicValue\<rparr>]
              else [], err))"

text \<open>
  A publication: the handlers whose callback runs, those that returned, and the errors of those that are about to send;
  the channel of results with its capacity, the local variables of the collector, the
  context, the result channel (\<open>pub_out\<close>) and the calls of the failure hook.  \<open>pub_total\<close> is \<open>len(infos)\<close>.
\<close>

record 'h publication =
  pub_event :: EventID
  pub_total :: nat
  pub_hook :: bool
  pub_running :: "'h subscriptionInfo list"
  pub_ended :: "('h subscriptionInfo \<times> handler_end) list"
  pub_sending :: "bus_err option list"
  pub_capacity :: nat
  pub_results :: "bus_err option list"
  pub_remaining :: nat
  pub_result :: PublishResult
  pub_ctx :: pub_ctx
  pub_out :: "PublishResult option"
  pub_failures :: "HandlerFailure list"

definition PublishAsync :: "'h bus \<Rightarrow> parent_ctx option \<Rightarrow> EventID option \<Rightarrow> string + 'h publication" where
  "PublishAsync b parent event =
     (case event of
        None \<Rightarrow> Inl ''eventbus: nil event''
      | Some e \<Rightarrow>
          let l = copySubscriptions b e in
          Inr \<lparr>pub_event = e, pub_total = length l, pub_hook = bus_hook b, pub_running = l, pub_ended = [], pub_sending = [],
               pub_capacity = length l, pub_results = [],
               pub_remaining = length l, pub_result = zero_result, pub_ctx = publishContext b parent,
               pub_out = (if l = [] then Some zero_result else None), pub_failures = []\<rparr>)"

text \<open>
  The goroutine of a handler: the callback returns or panics, the deferred function calls the failure hook, and the error
  is sent once the channel has room.  The three steps of several handlers interleave in any order.
\<close>

inductive handler_step :: "'h publication \<Rightarrow> 'h publication \<Rightarrow> bool" where
  returns:
    "pub_running p = xs @ info # ys \<Longrightarrow>
     handler_step p (p\<lparr>pub_running := xs @ ys, pub_ended := pub_ended p @ [(info, res)]\<rparr>)"
| reports:
    "pub_ended p = xs @ (info, res) # ys \<Longrightarrow> invokeHandler (pub_hook p) (pub_event p) info res = (fs, err) \<Longrightarrow>
     handler_step p (p\<lparr>pub_ended := xs @ ys, pub_failures := pub_failures p @ fs, pub_sending := pub_sending p @ [err]\<rparr>)"
| sends:
    "pub_sending p = xs @ err # ys \<Longrightarrow> length (pub_results p) < pub_capacity p \<Longrightarrow>
     handler_step p (p\<lparr>pub_sending := xs @ ys, pub_results := pub_results p @ [err]\<rparr>)"

text \<open>The context is done with its parent, times out, or is cancelled by the collector when it has sent the result.\<close>

inductive context_step :: "'h publication \<Rightarrow> 'h publication \<Rightarrow> bool" where
  parent_done:
    "px_Err (pub_ctx p) = None \<Longrightarrow> px_cancellable (pub_ctx p) \<Longrightarrow>
     context_step p (p\<lparr>pub_ctx := (pub_ctx p)\<lparr>px_Err := Some e\<rparr>\<rparr>)"
| timed_out:
    "px_Err (pub_ctx p) = None \<Longrightarrow> px_timeout (pub_ctx p) \<Longrightarrow>
     context_step p (p\<lparr>pub_ctx := (pub_ctx p)\<lparr>px_Err := Some DeadlineExceeded\<rparr>\<rparr>)"
| released:
    "px_Err (pub_ctx p) = None \<Longrightarrow> px_timeout (pub_ctx p) \<Longrightarrow> pub_out p \<noteq> None \<Longrightarrow>
     context_step p (p\<lparr>pub_ctx := (pub_ctx p)\<lparr>px_Err := Some Canceled\<rparr>\<rparr>)"

text \<open>The collector: it receives an error, gives up on a context that is done, or has everything.\<close>

inductive collector_step :: "'h publication \<Rightarrow> 'h publication \<Rightarrow> bool" where
  collect:
    "pub_out p = None \<Longrightarrow> pub_remaining p > 0 \<Longrightarrow> pub_results p = err # errs \<Longrightarrow>
     collector_step p (p\<lparr>pub_results := errs, pub_remaining := pub_remaining p - 1,
       pub_result := (pub_result p)\<lparr>pr_Delivered := pr_Delivered (pub_result p) + 1,
         pr_Errors := pr_Errors (pub_result p) @ (case err of None \<Rightarrow> [] | Some e \<Rightarrow> [e])\<rparr>\<rparr>)"
| gives_up:
    "pub_out p = None \<Longrightarrow> pub_remaining p > 0 \<Longrightarrow> px_Err (pub_ctx p) = Some e \<Longrightarrow>
     collector_step p (p\<lparr>pub_out := Some ((pub_result p)\<lparr>pr_Pending := pub_remaining p, pr_Err := Some e\<rparr>)\<rparr>)"
| has_all:
    "pub_out p = None \<Longrightarrow> pub_remaining p = 0 \<Longrightarrow> collector_step p (p\<lparr>pub_out := Some (pub_result p)\<rparr>)"

inductive pub_step :: "'h publication \<Rightarrow> 'h publication \<Rightarrow> bool" where
  by_handler: "handler_step p p' \<Longrightarrow> pub_step p p'"
| by_context: "context_step p p' \<Longrightarrow> pub_step p p'"
| by_collector: "collector_step p p' \<Longrightarrow> pub_step p p'"

inductive_cases handler_step_cases: "handler_step p p'"
inductive_cases context_step_cases: "context_step p p'"
inductive_cases collector_step_cases: "collector_step p p'"
inductive_cases pub_step_cases: "pub_step p p'"

text \<open>The handlers that have not sent yet.\<close>

definition pub_active :: "'h publication \<Rightarrow> nat" where
  "pub_active p = length (pub_running p) + length (pub_ended p) + length (pub_sending p)"

text \<open>The whole bus: publications run beside subscriptions; \<open>sys_made\<close> counts the subscriptions ever made.\<close>

record 'h system =
  sys_bus :: "'h bus"
  sys_pubs :: "'h publication list"
  sys_made :: nat

inductive bus_step :: "'h system \<Rightarrow> 'h system \<Rightarrow> bool" where
  subscribes:
    "Subscribe (sys_bus s) e (Some f) = Inr (b, sub) \<Longrightarrow> bus_step s (s\<lparr>sys_bus := b, sys_made := Suc (sys_made s)\<rparr>)"
| unsubscribes: "bus_step s (s\<lparr>sys_bus := Unsubscribe (sys_bus s) sub\<rparr>)"
| publishes:
    "PublishAsync (sys_bus s) parent (Some e) = Inr p \<Longrightarrow> bus_step s (s\<lparr>sys_pubs := sys_pubs s @ [p]\<rparr>)"
| publication:
    "sys_pubs s = ps @ p # qs \<Longrightarrow> pub_step p p' \<Longrightarrow> bus_step s (s\<lparr>sys_pubs := ps @ p' # qs\<rparr>)"

definition initial :: "'h bus \<Rightarrow> 'h system" where
  "initial b = \<lparr>sys_bus = b, sys_pubs = [], sys_made = 0\<rparr>"

section \<open>Subscriptions are told apart\<close>

definition bus_ok :: "'h bus \<Rightarrow> bool" where
  "bus_ok b \<longleftrightarrow> gomap_ok (bus_infos b) \<and>
     (\<forall>e. distinct (map si_id (infos_of b e)) \<and> (\<forall>x \<in> set (infos_of b e). si_id x < bus_nextID b))"

lemma copySubscriptions_infos: "copySubscriptions b = infos_of b"
  by (simp add: fun_eq_iff copySubscriptions_def infos_of_def)

lemma infos_Subscribe:
  "Subscribe b e (Some f) = Inr (b', s) \<Longrightarrow>
   infos_of b' e' = (if e' = e then infos_of b e @ [\<lparr>si_id = bus_nextID b, si_cb = f\<rparr>] else infos_of b e')"
  by (auto simp: Subscribe_def Let_def infos_of_def)

lemma remove_first_other: "ident \<notin> si_id ` set l \<Longrightarrow> remove_first ident l = l"
  by (induction l) auto

lemma remove_first_filter: "distinct (map si_id l) \<Longrightarrow> remove_first ident l = filter (\<lambda>x. si_id x \<noteq> ident) l"
  by (induction l) (auto simp: image_iff intro!: filter_True [symmetric])

lemma infos_Unsubscribe:
  "infos_of (Unsubscribe b s) e = (if e = sub_eventID s then remove_first (sub_id s) (infos_of b e) else infos_of b e)"
  by (cases "map_of (bus_infos b) (sub_eventID s)") (auto simp: Unsubscribe_def infos_of_def Let_def)

lemma nextID_Unsubscribe: "bus_nextID (Unsubscribe b s) = bus_nextID b"
  by (simp add: Unsubscribe_def Let_def split: option.split)

lemma bus_ok_Unsubscribe: "bus_ok b \<Longrightarrow> bus_ok (Unsubscribe b s)"
proof -
  assume ok: "bus_ok b"
  then have "gomap_ok (bus_infos (Unsubscribe b s))"
    by (auto simp: bus_ok_def Unsubscribe_def Let_def split: option.split)
  with ok show ?thesis
    by (auto simp: bus_ok_def infos_Unsubscribe nextID_Unsubscribe remove_first_filter distinct_map_filter)
qed

lemma less_succ_word: "x \<noteq> - 1 \<Longrightarrow> x < x + 1" for x :: "64 word"
proof -
  assume "x \<noteq> - 1"
  then have "1 + x \<noteq> 0" by (metis add_eq_0_iff)
  from unatSuc [OF this] show ?thesis by (simp add: word_less_nat_alt add.commute)
qed

lemma nextID_fresh: "bus_ok b \<Longrightarrow> bus_nextID b \<notin> si_id ` set (infos_of b e)"
  by (metis bus_ok_def image_iff less_irrefl)

lemma bus_ok_Subscribe:
  assumes "bus_ok b" and "Subscribe b e (Some f) = Inr (b', s)" and "bus_nextID b \<noteq> - 1"
  shows "bus_ok b' \<and> bus_nextID b' = bus_nextID b + 1"
proof -
  have b': "bus_nextID b' = bus_nextID b + 1" "gomap_ok (bus_infos b')"
    using assms(1,2) by (auto simp: Subscribe_def Let_def bus_ok_def)
  have less: "bus_nextID b < bus_nextID b + 1" by (rule less_succ_word [OF assms(3)])
  then have "x \<in> set (infos_of b e') \<Longrightarrow> si_id x < bus_nextID b + 1" for x e'
    using assms(1) unfolding bus_ok_def by (meson less_trans)
  with assms(1) b' less show ?thesis
    using nextID_fresh [OF assms(1), of e] by (auto simp: bus_ok_def infos_Subscribe [OF assms(2)])
qed

section \<open>What a publication keeps\<close>

definition errors_of :: "bus_err option list \<Rightarrow> bus_err list" where
  "errors_of rs = concat (map (\<lambda>r. case r of None \<Rightarrow> [] | Some e \<Rightarrow> [e]) rs)"

text \<open>
  Every handler is active, has its error in the channel, or was counted; the errors that were collected, those in the
  channel and those about to be sent are the failures the hook was told about, in some order; a result that was
  sent accounts for all handlers.
\<close>

definition pub_inv :: "'h publication \<Rightarrow> bool" where
  "pub_inv p \<longleftrightarrow>
     pub_active p + length (pub_results p) = pub_remaining p \<and>
     pr_Delivered (pub_result p) + pub_remaining p = pub_total p \<and> pub_capacity p = pub_total p \<and>
     pr_Pending (pub_result p) = 0 \<and> pr_Err (pub_result p) = None \<and>
     length (pr_Errors (pub_result p)) \<le> pr_Delivered (pub_result p) \<and>
     (pub_hook p \<longrightarrow>
        mset (map hf_Err (pub_failures p)) =
        mset (pr_Errors (pub_result p)) + mset (errors_of (pub_results p)) + mset (errors_of (pub_sending p))) \<and>
     (case pub_out p of
        None \<Rightarrow> True
      | Some r \<Rightarrow>
          pr_Delivered r = pr_Delivered (pub_result p) \<and> pr_Errors r = pr_Errors (pub_result p) \<and>
          pr_Pending r = pub_remaining p \<and> (pr_Err r = None \<longleftrightarrow> pub_remaining p = 0) \<and> (pr_Err r \<noteq> None \<longrightarrow> pr_Err r = px_Err (pub_ctx p)))"

lemma errors_of_simps [simp]:
  "errors_of [] = []" "errors_of (r # rs) = (case r of None \<Rightarrow> [] | Some e \<Rightarrow> [e]) @ errors_of rs"
  "errors_of (rs @ ts) = errors_of rs @ errors_of ts"
  by (simp_all add: errors_of_def)

lemma pub_inv_init: "PublishAsync b parent (Some e) = Inr p \<Longrightarrow> pub_inv p"
  by (auto simp: PublishAsync_def Let_def pub_inv_def pub_active_def zero_result_def)

lemma invoke_failures:
  "invokeHandler True e info res = (fs, err) \<Longrightarrow> map hf_Err fs = errors_of [err]"
  by (auto simp: invokeHandler_def Let_def split: option.splits)

lemma pub_inv_handler: "handler_step p p' \<Longrightarrow> pub_inv p \<Longrightarrow> pub_inv p'"
proof (induction rule: handler_step.induct)
  case (returns p xs info ys res)
  then show ?case by (auto simp: pub_inv_def pub_active_def split: option.split)
next
  case (reports p xs info res ys fs err)
  then have "pub_hook p \<longrightarrow> map hf_Err fs = errors_of [err]" using invoke_failures [of "pub_event p" info res fs err] by auto
  with reports show ?case by (auto simp: pub_inv_def pub_active_def ac_simps split: option.split)
next
  case (sends p xs err ys)
  then show ?case by (auto simp: pub_inv_def pub_active_def ac_simps split: option.split)
qed

lemma pub_inv_context: "context_step p p' \<Longrightarrow> pub_inv p \<Longrightarrow> pub_inv p'"
  by (induction rule: context_step.induct) (auto simp: pub_inv_def pub_active_def split: option.split)

lemma pub_inv_collector: "collector_step p p' \<Longrightarrow> pub_inv p \<Longrightarrow> pub_inv p'"
proof (induction rule: collector_step.induct)
  case (collect p err errs)
  then show ?case by (cases err) (auto simp: pub_inv_def pub_active_def)
qed (simp_all add: pub_inv_def pub_active_def)

lemma pub_inv_step: "pub_step p p' \<Longrightarrow> pub_inv p \<Longrightarrow> pub_inv p'"
  by (elim pub_step_cases) (blast intro: pub_inv_handler pub_inv_context pub_inv_collector)+

definition sys_inv :: "'h system \<Rightarrow> bool" where
  "sys_inv s \<longleftrightarrow> (\<forall>p \<in> set (sys_pubs s). pub_inv p) \<and>
     (sys_made s < 2 ^ 64 \<longrightarrow> bus_ok (sys_bus s) \<and> unat (bus_nextID (sys_bus s)) = sys_made s)"

lemma not_max_word: "unat x < 2 ^ 64 - 1 \<Longrightarrow> x \<noteq> - 1" for x :: "64 word"
proof (rule notI)
  assume "unat x < 2 ^ 64 - 1" "x = - 1"
  moreover have "unat (- 1 :: 64 word) = 2 ^ 64 - 1" by (simp add: unsigned_minus_1_eq_mask mask_eq_exp_minus_1)
  ultimately show False by simp
qed

lemma sys_inv_step: "bus_step s s' \<Longrightarrow> sys_inv s \<Longrightarrow> sys_inv s'"
proof (induction rule: bus_step.induct)
  case (subscribes s e f b sub)
  show ?case
  proof (cases "Suc (sys_made s) < 2 ^ 64")
    case True
    with subscribes.prems have ok: "bus_ok (sys_bus s)" "unat (bus_nextID (sys_bus s)) = sys_made s" by (auto simp: sys_inv_def)
    with True have "bus_nextID (sys_bus s) \<noteq> - 1" by (intro not_max_word) simp
    note sub = bus_ok_Subscribe [OF ok(1) subscribes.hyps this]
    have "unat (bus_nextID (sys_bus s) + 1) = Suc (sys_made s)"
      using True ok(2) by (subst unat_add_lem [THEN iffD1]) simp_all
    with sub subscribes.prems show ?thesis by (auto simp: sys_inv_def)
  next
    case False
    with subscribes.prems show ?thesis by (auto simp: sys_inv_def)
  qed
next
  case (unsubscribes s sub)
  then show ?case by (auto simp: sys_inv_def bus_ok_Unsubscribe nextID_Unsubscribe)
next
  case (publishes s parent e p)
  then show ?case using pub_inv_init [of "sys_bus s" parent e p] by (auto simp: sys_inv_def)
next
  case (publication s ps p qs p')
  then show ?case using pub_inv_step [of p p'] by (auto simp: sys_inv_def)
qed

lemma New_infos: "bus_infos (fold (\<lambda>opt b. case opt of None \<Rightarrow> b | Some f \<Rightarrow> f b) opts b) = bus_infos b \<and>
    bus_nextID (fold (\<lambda>opt b. case opt of None \<Rightarrow> b | Some f \<Rightarrow> f b) opts b) = bus_nextID b"
  if "set opts \<subseteq> insert None (Some ` (range WithPublishTimeout \<union> range WithFailureHook))"
  using that by (induction opts arbitrary: b) (auto simp: WithPublishTimeout_def WithFailureHook_def)

definition bus_options :: "('h bus \<Rightarrow> 'h bus) option list \<Rightarrow> bool" where
  "bus_options opts \<longleftrightarrow> set opts \<subseteq> insert None (Some ` (range WithPublishTimeout \<union> range WithFailureHook))"

lemma sys_inv_initial: "bus_options opts \<Longrightarrow> sys_inv (initial (bus_New opts))"
  by (simp add: bus_options_def New_infos sys_inv_def initial_def bus_ok_def infos_of_def bus_New_def)

lemma sys_inv_reachable: "bus_step\<^sup>*\<^sup>* s s' \<Longrightarrow> sys_inv s \<Longrightarrow> sys_inv s'"
  by (induction rule: rtranclp_induct) (auto intro: sys_inv_step)

text \<open>
  C10: a published event is accounted for.  However the steps of handlers, cancellation, timeouts, other publications and
  changes of the subscriptions interleave, a result that a publication sends counts every handler it
  started exactly once, as delivered or as pending; it carries an error of the context exactly when some are
  pending; there are no more errors than deliveries, and the failure hook was told about each of them before, in some order.
  And a handler that is about to send finds room in the channel, also after the collector has given up: it never blocks.
\<close>

theorem publication_accounts:
  assumes "bus_options opts" and "bus_step\<^sup>*\<^sup>* (initial (bus_New opts)) s" and "p \<in> set (sys_pubs s)"
  shows "(\<forall>r. pub_out p = Some r \<longrightarrow>
      pr_Delivered r + pr_Pending r = pub_total p \<and> (pr_Err r = None \<longleftrightarrow> pr_Pending r = 0) \<and> length (pr_Errors r) \<le> pr_Delivered r \<and>
      (pub_hook p \<longrightarrow> mset (pr_Errors r) \<subseteq># mset (map hf_Err (pub_failures p)))) \<and>
    (pub_sending p \<noteq> [] \<longrightarrow> length (pub_results p) < pub_capacity p)"
proof -
  have "pub_inv p" using sys_inv_reachable [OF assms(2) sys_inv_initial [OF assms(1)]] assms(3) by (simp add: sys_inv_def)
  then show ?thesis by (cases "pub_sending p") (auto simp: pub_inv_def pub_active_def)
qed

text \<open>
  A subscription can be undone.  In every reachable state in which fewer than \<open>2^64 - 1\<close> subscriptions were
  made, \<open>Subscribe\<close> appends the handler to the list of its event and changes no other event, and \<open>Unsubscribe\<close> with
  the subscription it returned gives the lists from before, for every event: the identifier belongs
  to no other subscription.
\<close>

theorem Subscribe_Unsubscribe:
  assumes "bus_options opts" and "bus_step\<^sup>*\<^sup>* (initial (bus_New opts)) s" and "sys_made s < 2 ^ 64 - 1"
    and "Subscribe (sys_bus s) e (Some f) = Inr (b, sub)"
  shows "copySubscriptions b e = copySubscriptions (sys_bus s) e @ [\<lparr>si_id = sub_id sub, si_cb = f\<rparr>] \<and>
    (\<forall>e'. e' \<noteq> e \<longrightarrow> copySubscriptions b e' = copySubscriptions (sys_bus s) e') \<and>
    copySubscriptions (Unsubscribe b sub) = copySubscriptions (sys_bus s)"
proof -
  have ok: "bus_ok (sys_bus s)"
    using sys_inv_reachable [OF assms(2) sys_inv_initial [OF assms(1)]] assms(3) by (simp add: sys_inv_def)
  have sub: "sub = \<lparr>sub_eventID = e, sub_id = bus_nextID (sys_bus s)\<rparr>" using assms(4) by (auto simp: Subscribe_def Let_def)
  note fresh = nextID_fresh [OF ok, of e]
  have "remove_first ident (l @ [x]) = l" if "ident \<notin> si_id ` set l" "si_id x = ident" for ident l and x :: "'a subscriptionInfo"
    using that by (induction l) auto
  with fresh show ?thesis
    by (simp add: copySubscriptions_infos fun_eq_iff infos_Unsubscribe infos_Subscribe [OF assms(4)] sub)
qed

section \<open>Every publication ends\<close>

definition pub_work :: "'h publication \<Rightarrow> nat" where
  "pub_work p = 4 * length (pub_running p) + 3 * length (pub_ended p) + 2 * length (pub_sending p) + length (pub_results p) +
     (if px_Err (pub_ctx p) = None then 1 else 0) + (if pub_out p = None then 1 else 0)"

lemma pub_step_work: "pub_step p p' \<Longrightarrow> pub_work p' < pub_work p"
  by (elim pub_step_cases; elim handler_step_cases context_step_cases collector_step_cases) (simp_all add: pub_work_def)

lemma pub_inv_steps: "(pub_step ^^ n) p p' \<Longrightarrow> pub_inv p \<Longrightarrow> pub_inv p' \<and> pub_work p' + n \<le> pub_work p"
proof (induction n arbitrary: p')
  case (Suc n)
  then obtain q where "(pub_step ^^ n) p q" "pub_step q p'" by auto
  with Suc pub_inv_step [of q p'] pub_step_work [of q p'] show ?case by fastforce
qed simp

lemma collector_progress:
  assumes "pub_inv p" and "pub_out p = None" and "px_Err (pub_ctx p) \<noteq> None \<or> pub_active p = 0"
  shows "\<exists>p'. collector_step p p'"
proof (cases "pub_remaining p = 0")
  case True
  with assms show ?thesis by (blast intro: has_all)
next
  case False
  show ?thesis
  proof (cases "px_Err (pub_ctx p)")
    case None
    with assms False obtain err errs where "pub_results p = err # errs" by (cases "pub_results p") (auto simp: pub_inv_def)
    with False assms(2) show ?thesis by (blast intro: collect)
  next
    case (Some e)
    with False assms(2) show ?thesis by (blast intro: gives_up)
  qed
qed

lemma handler_progress: "pub_inv p \<Longrightarrow> pub_active p > 0 \<Longrightarrow> \<exists>p'. handler_step p p'"
proof -
  assume i: "pub_inv p" and a: "pub_active p > 0"
  consider info ys where "pub_running p = [] @ info # ys" | info res ys where "pub_ended p = [] @ (info, res) # ys"
    | err ys where "pub_sending p = [] @ err # ys"
    using a by (cases "pub_running p"; cases "pub_ended p"; cases "pub_sending p") (auto simp: pub_active_def)
  then show ?thesis
  proof cases
    case 1
    from returns [OF this] show ?thesis by blast
  next
    case (2 info res ys)
    obtain fs err where "invokeHandler (pub_hook p) (pub_event p) info res = (fs, err)" by (metis surj_pair)
    from reports [OF 2 this] show ?thesis by blast
  next
    case 3
    with i have "length (pub_results p) < pub_capacity p" by (auto simp: pub_inv_def pub_active_def)
    from sends [OF 3 this] show ?thesis by blast
  qed
qed

lemma collector_keeps: "collector_step p p' \<Longrightarrow> pub_ctx p' = pub_ctx p \<and> pub_active p' = pub_active p"
  by (elim collector_step_cases) (simp_all add: pub_active_def)

lemma collector_answers:
  assumes "(collector_step ^^ k) p q" and "pub_inv p" and "px_Err (pub_ctx p) \<noteq> None \<or> pub_active p = 0" and "\<forall>q'. \<not> collector_step q q'"
  shows "\<exists>r. pub_out q = Some r"
proof -
  have "pub_inv q \<and> pub_ctx q = pub_ctx p \<and> pub_active q = pub_active p"
    using assms(1,2)
  proof (induction k arbitrary: q)
    case (Suc k)
    then obtain q0 where "(collector_step ^^ k) p q0" "collector_step q0 q" by auto
    with Suc pub_inv_collector [of q0 q] collector_keeps [of q0 q] show ?case by auto
  qed simp
  with collector_progress [of q] assms(3,4) show ?thesis by fastforce
qed

text \<open>
  C31: a publication ends and answers.  Every run of a publication with \<open>n\<close> handlers has at most \<open>4n + 2\<close> steps,
  whatever the handlers, the context and the order; an active handler can always go on; and once the context is done or no
  handler is active any more, the collector needs no step of a handler: running alone, it stops only when it has sent the result.
  So \<open>PublishSync\<close>, which waits for it, returns when the context is done even if a handler never does.
\<close>

theorem publication_ends:
  assumes "PublishAsync b parent (Some e) = Inr p" and "(pub_step ^^ n) p p'"
  shows "n \<le> 4 * pub_total p + 2 \<and> (pub_active p' > 0 \<longrightarrow> (\<exists>q. handler_step p' q)) \<and>
    (px_Err (pub_ctx p') \<noteq> None \<or> pub_active p' = 0 \<longrightarrow>
       (\<forall>k q. (collector_step ^^ k) p' q \<longrightarrow> (\<forall>q'. \<not> collector_step q q') \<longrightarrow> (\<exists>r. pub_out q = Some r)))"
proof -
  have "pub_work p \<le> 4 * pub_total p + 2" using assms(1) by (auto simp: PublishAsync_def Let_def pub_work_def)
  moreover have i: "pub_inv p' \<and> pub_work p' + n \<le> pub_work p" by (rule pub_inv_steps [OF assms(2) pub_inv_init [OF assms(1)]])
  ultimately show ?thesis using handler_progress [of p'] collector_answers [of _ p'] by auto
qed

section \<open>What \<open>PublishSync\<close> gives\<close>

text \<open>
  A run with what the callbacks do to the world: \<open>act\<close> is the callback of a subscription, on the world at the moment it returns.
  \<open>PublishSync\<close> relates a call to its outcomes: the world and the result when the result has been sent.
\<close>

inductive pub_run :: "('h subscriptionInfo \<Rightarrow> 'w \<Rightarrow> 'w \<times> handler_end) \<Rightarrow> 'h publication \<times> 'w \<Rightarrow> 'h publication \<times> 'w \<Rightarrow> bool" for act where
  callback:
    "pub_running p = xs @ info # ys \<Longrightarrow> act info w = (w', res) \<Longrightarrow>
     pub_run act (p, w) (p\<lparr>pub_running := xs @ ys, pub_ended := pub_ended p @ [(info, res)]\<rparr>, w')"
| no_callback: "pub_step p p' \<Longrightarrow> pub_running p' = pub_running p \<Longrightarrow> pub_run act (p, w) (p', w)"

definition PublishSync ::
    "('h subscriptionInfo \<Rightarrow> 'w \<Rightarrow> 'w \<times> handler_end) \<Rightarrow> 'h bus \<Rightarrow> parent_ctx option \<Rightarrow> EventID \<Rightarrow> 'w \<Rightarrow> 'w \<times> PublishResult \<Rightarrow> bool" where
  "PublishSync act b parent e w out \<longleftrightarrow>
     (\<exists>p q. PublishAsync b parent (Some e) = Inr p \<and> (pub_run act)\<^sup>*\<^sup>* (p, w) (q, fst out) \<and> pub_out q = Some (snd out))"

lemma pub_run_step: "pub_run act x y \<Longrightarrow> pub_step (fst x) (fst y)"
  by (induction rule: pub_run.induct) (auto intro: by_handler returns)

lemma pub_run_inv: "(pub_run act)\<^sup>*\<^sup>* x y \<Longrightarrow> pub_inv (fst x) \<Longrightarrow> pub_inv (fst y)"
  by (induction rule: rtranclp_induct) (auto dest: pub_run_step pub_inv_step)

text \<open>
  A handler \<open>f\<close> that is subscribed once to the event, and alone changes a view of the world: after a result without an error
  of the context the view has changed exactly by it.
\<close>

definition count_handler :: "'h \<Rightarrow> 'h subscriptionInfo list \<Rightarrow> nat" where
  "count_handler f l = length (filter (\<lambda>x. si_cb x = f) l)"

lemma count_handler_simps [simp]:
  "count_handler f [] = 0" "count_handler f (x # l) = (if si_cb x = f then 1 else 0) + count_handler f l"
  "count_handler f (l @ m) = count_handler f l + count_handler f m"
  by (simp_all add: count_handler_def)

lemma run_changes_once:
  assumes "(pub_run act)\<^sup>*\<^sup>* (p, w) y" and "count_handler f (pub_running p) = 1"
    and own: "\<And>x w. si_cb x = f \<Longrightarrow> view (fst (act x w)) = change (view w)"
    and other: "\<And>x w. si_cb x \<noteq> f \<Longrightarrow> view (fst (act x w)) = view w"
  shows "(count_handler f (pub_running (fst y)) = 1 \<and> view (snd y) = view w) \<or>
    (count_handler f (pub_running (fst y)) = 0 \<and> view (snd y) = change (view w))"
  using assms(1)
proof (induction rule: rtranclp_induct)
  case base
  with assms(2) show ?case by simp
next
  case (step y z)
  from step.hyps(2) step.IH show ?case
  proof (cases rule: pub_run.cases)
    case (callback p xs info ys w1 w2 res)
    with step.IH own [of info w1] other [of info w1] show ?thesis by (cases "si_cb info = f") auto
  qed simp
qed

lemma PublishSync_changes_once:
  assumes "PublishSync act b parent e w (w', r)" and "pr_Err r = None" and "count_handler f (copySubscriptions b e) = 1"
    and "\<And>x w. si_cb x = f \<Longrightarrow> view (fst (act x w)) = change (view w)"
    and "\<And>x w. si_cb x \<noteq> f \<Longrightarrow> view (fst (act x w)) = view w"
  shows "view w' = change (view w)"
proof -
  from assms(1) obtain p q where p: "PublishAsync b parent (Some e) = Inr p" "(pub_run act)\<^sup>*\<^sup>* (p, w) (q, w')" "pub_out q = Some r"
    by (auto simp: PublishSync_def)
  have "pub_running p = copySubscriptions b e" using p(1) by (auto simp: PublishAsync_def Let_def)
  with assms(3) have one: "count_handler f (pub_running p) = 1" by simp
  have "pub_inv q" using pub_run_inv [OF p(2)] pub_inv_init [OF p(1)] by simp
  with p(3) assms(2) have "pub_running q = []" by (auto simp: pub_inv_def pub_active_def)
  with run_changes_once [OF p(2) one, of view change] assms(4,5) show ?thesis by auto
qed

text \<open>The outcome when the handlers run one after the other and the context is never done.\<close>

fun run_in_order ::
    "('h subscriptionInfo \<Rightarrow> 'w \<Rightarrow> 'w \<times> handler_end) \<Rightarrow> EventID \<Rightarrow> 'h subscriptionInfo list \<Rightarrow> 'w \<Rightarrow> 'w \<times> bus_err option list" where
  "run_in_order act e [] w = (w, [])"
| "run_in_order act e (x # xs) w =
     (case act x w of
        (w1, res) \<Rightarrow> (case run_in_order act e xs w1 of (w2, errs) \<Rightarrow> (w2, snd (invokeHandler False e x res) # errs)))"

definition publish_in_order ::
    "('h subscriptionInfo \<Rightarrow> 'w \<Rightarrow> 'w \<times> handler_end) \<Rightarrow> 'h bus \<Rightarrow> EventID \<Rightarrow> 'w \<Rightarrow> 'w \<times> PublishResult" where
  "publish_in_order act b e w =
     (case run_in_order act e (copySubscriptions b e) w of
        (w', errs) \<Rightarrow> (w', zero_result\<lparr>pr_Delivered := length errs, pr_Errors := errors_of errs\<rparr>))"

lemma invoke_err: "snd (invokeHandler hook e x res) = snd (invokeHandler False e x res)"
  by (simp add: invokeHandler_def Let_def)

lemma handler_in_order:
  assumes "pub_running p = x # xs" "pub_ended p = []" "pub_sending p = []" "pub_results p = []" "pub_remaining p = Suc (length xs)"
    and "pub_capacity p > 0" "pub_out p = None" "act x w = (w1, res)" and "err = snd (invokeHandler False (pub_event p) x res)"
  shows "\<exists>fs. (pub_run act)\<^sup>*\<^sup>* (p, w) (p\<lparr>pub_running := xs, pub_remaining := length xs, pub_failures := pub_failures p @ fs,
    pub_result := (pub_result p)\<lparr>pr_Delivered := Suc (pr_Delivered (pub_result p)), pr_Errors := pr_Errors (pub_result p) @ errors_of [err]\<rparr>\<rparr>, w1)"
proof -
  obtain fs where inv: "invokeHandler (pub_hook p) (pub_event p) x res = (fs, err)" using assms(9) invoke_err by (metis prod.collapse)
  let ?p1 = "p\<lparr>pub_running := xs, pub_ended := [(x, res)]\<rparr>"
  let ?p2 = "p\<lparr>pub_running := xs, pub_failures := pub_failures p @ fs, pub_sending := [err]\<rparr>"
  let ?p3 = "p\<lparr>pub_running := xs, pub_failures := pub_failures p @ fs, pub_results := [err]\<rparr>"
  let ?p4 = "p\<lparr>pub_running := xs, pub_remaining := length xs, pub_failures := pub_failures p @ fs,
    pub_result := (pub_result p)\<lparr>pr_Delivered := Suc (pr_Delivered (pub_result p)), pr_Errors := pr_Errors (pub_result p) @ errors_of [err]\<rparr>\<rparr>"
  have "pub_run act (p, w) (?p1, w1)" using callback [of p "[]" x xs act w w1 res] assms by (cases p) simp
  moreover have "pub_run act (?p1, w1) (?p2, w1)"
    using no_callback [OF by_handler [OF reports [of ?p1 "[]" x res "[]" fs err]]] assms inv by (cases p) simp
  moreover have "pub_run act (?p2, w1) (?p3, w1)"
    using no_callback [OF by_handler [OF sends [of ?p2 "[]" err "[]"]]] assms by (cases p) simp
  moreover have "pub_run act (?p3, w1) (?p4, w1)"
    using no_callback [OF by_collector [OF collect [of ?p3 err "[]"]]] assms by (cases p; cases err) simp_all
  ultimately have "(pub_run act)\<^sup>*\<^sup>* (p, w) (?p4, w1)" by (meson converse_rtranclp_into_rtranclp rtranclp.rtrancl_refl)
  then show ?thesis by blast
qed

lemma handlers_in_order:
  assumes "pub_running p = l" "pub_ended p = []" "pub_sending p = []" "pub_results p = []" "pub_remaining p = length l"
    and "pub_capacity p > 0" "pub_out p = None" "run_in_order act (pub_event p) l w = (w', errs)"
  shows "\<exists>q. (pub_run act)\<^sup>*\<^sup>* (p, w) (q, w') \<and> pub_remaining q = 0 \<and> pub_out q = None \<and>
    pub_result q = (pub_result p)\<lparr>pr_Delivered := pr_Delivered (pub_result p) + length errs, pr_Errors := pr_Errors (pub_result p) @ errors_of errs\<rparr>"
  using assms
proof (induction l arbitrary: p w errs)
  case Nil
  then show ?case by (intro exI [of _ p]) simp
next
  case (Cons x xs)
  obtain w1 res where act: "act x w = (w1, res)" by fastforce
  define err where "err = snd (invokeHandler False (pub_event p) x res)"
  obtain errs' where errs: "run_in_order act (pub_event p) xs w1 = (w', errs')" "errs = err # errs'"
    using Cons.prems(8) act by (auto simp: err_def split: prod.splits)
  have rem: "pub_remaining p = Suc (length xs)" using Cons.prems(5) by simp
  obtain fs p1 where step: "(pub_run act)\<^sup>*\<^sup>* (p, w) (p1, w1)" and p1: "p1 = p\<lparr>pub_running := xs, pub_remaining := length xs,
    pub_failures := pub_failures p @ fs, pub_result := (pub_result p)\<lparr>pr_Delivered := Suc (pr_Delivered (pub_result p)),
      pr_Errors := pr_Errors (pub_result p) @ errors_of [err]\<rparr>\<rparr>"
    using handler_in_order [where act = act and w = w and x = x, OF Cons.prems(1-4) rem Cons.prems(6,7) act err_def] by blast
  have "\<exists>q. (pub_run act)\<^sup>*\<^sup>* (p1, w1) (q, w') \<and> pub_remaining q = 0 \<and> pub_out q = None \<and>
    pub_result q = (pub_result p1)\<lparr>pr_Delivered := pr_Delivered (pub_result p1) + length errs', pr_Errors := pr_Errors (pub_result p1) @ errors_of errs'\<rparr>"
    by (rule Cons.IH) (use Cons.prems errs p1 in simp_all)
  with step show ?case using errs(2) by (auto simp: p1 intro: rtranclp_trans)
qed

lemma publish_in_order_outcome: "PublishSync act b parent e w (publish_in_order act b e w)"
proof -
  let ?l = "copySubscriptions b e"
  obtain p where p: "PublishAsync b parent (Some e) = Inr p" by (simp add: PublishAsync_def Let_def)
  have f: "pub_event p = e" "pub_running p = ?l" "pub_ended p = []" "pub_sending p = []" "pub_results p = []" "pub_remaining p = length ?l"
    "pub_capacity p = length ?l" "pub_result p = zero_result" "pub_out p = (if ?l = [] then Some zero_result else None)"
    using p by (auto simp: PublishAsync_def Let_def)
  obtain w' errs where run: "run_in_order act e ?l w = (w', errs)" by fastforce
  show ?thesis
  proof (cases "?l = []")
    case True
    with p f run show ?thesis by (auto simp: PublishSync_def publish_in_order_def zero_result_def intro!: exI [of _ p])
  next
    case False
    obtain q where q: "(pub_run act)\<^sup>*\<^sup>* (p, w) (q, w')" "pub_remaining q = 0" "pub_out q = None"
      "pub_result q = zero_result\<lparr>pr_Delivered := length errs, pr_Errors := errors_of errs\<rparr>"
      using handlers_in_order [OF f(2-6), of act w w' errs] False f run by (auto simp: zero_result_def)
    have "pub_run act (q, w') (q\<lparr>pub_out := Some (pub_result q)\<rparr>, w')"
      using no_callback [OF by_collector [OF has_all [of q]]] q by simp
    with q(1) have "(pub_run act)\<^sup>*\<^sup>* (p, w) (q\<lparr>pub_out := Some (pub_result q)\<rparr>, w')" by (meson rtranclp.rtrancl_into_rtrancl)
    with p q(4) run show ?thesis by (auto simp: PublishSync_def publish_in_order_def intro!: exI [of _ p] exI [of _ "q\<lparr>pub_out := Some (pub_result q)\<rparr>"])
  qed
qed

section \<open>Examples\<close>

definition example_bus :: "string bus" where
  "example_bus = fst (projr (Subscribe (bus_New [Some (WithFailureHook True), None]) ''created'' (Some ''audit'')))"

definition example_pub :: "string publication" where
  "example_pub = projr (PublishAsync example_bus None (Some ''created''))"

lemma example_published: "PublishAsync example_bus None (Some ''created'') = Inr example_pub"
  by (simp add: example_pub_def PublishAsync_def Let_def)

lemma example_pub_eq:
  "example_pub = \<lparr>pub_event = ''created'', pub_total = 1, pub_hook = True, pub_running = [\<lparr>si_id = 0, si_cb = ''audit''\<rparr>],
     pub_ended = [], pub_sending = [], pub_capacity = 1, pub_results = [], pub_remaining = 1, pub_result = zero_result,
     pub_ctx = \<lparr>px_Err = None, px_cancellable = False, px_timeout = False\<rparr>, pub_out = None, pub_failures = []\<rparr>"
  by (simp add: example_pub_def PublishAsync_def example_bus_def Subscribe_def bus_New_def WithFailureHook_def infos_of_def
      copySubscriptions_def publishContext_def Let_def)

definition example_failure :: HandlerFailure where
  "example_failure = \<lparr>hf_Subscription = \<lparr>sub_eventID = ''created'', sub_id = 0\<rparr>, hf_Err = HandlerPanic ''created'' ''boom'', hf_Panic = Some ''boom''\<rparr>"

text \<open>The only handler panics, its error is collected, and the result is sent.\<close>

definition example_done :: "string publication" where
  "example_done = example_pub\<lparr>pub_running := [], pub_results := [], pub_remaining := 0,
     pub_result := zero_result\<lparr>pr_Delivered := 1, pr_Errors := [HandlerPanic ''created'' ''boom'']\<rparr>,
     pub_failures := [example_failure],
     pub_out := Some (zero_result\<lparr>pr_Delivered := 1, pr_Errors := [HandlerPanic ''created'' ''boom'']\<rparr>)\<rparr>"

lemma example_run: "(pub_step ^^ 5) example_pub example_done"
proof -
  let ?i = "\<lparr>si_id = 0, si_cb = ''audit''\<rparr>" and ?e = "HandlerPanic ''created'' ''boom''"
  let ?p1 = "example_pub\<lparr>pub_running := [], pub_ended := [(?i, Panics ''boom'')]\<rparr>"
  let ?p2 = "example_pub\<lparr>pub_running := [], pub_sending := [Some ?e], pub_failures := [example_failure]\<rparr>"
  let ?p3 = "example_pub\<lparr>pub_running := [], pub_results := [Some ?e], pub_failures := [example_failure]\<rparr>"
  let ?p4 = "?p3\<lparr>pub_results := [], pub_remaining := 0, pub_result := zero_result\<lparr>pr_Delivered := 1, pr_Errors := [?e]\<rparr>\<rparr>"
  have "pub_step example_pub ?p1"
    using by_handler [OF returns, of example_pub "[]" ?i "[]" "Panics ''boom''"] by (simp add: example_pub_eq)
  moreover have "pub_step ?p1 ?p2"
    using by_handler [OF reports, of ?p1 "[]" ?i "Panics ''boom''" "[]" "[example_failure]" "Some ?e"]
    by (simp add: example_pub_eq invokeHandler_def example_failure_def)
  moreover have "pub_step ?p2 ?p3"
    using by_handler [OF sends, of ?p2 "[]" "Some ?e" "[]"] by (simp add: example_pub_eq)
  moreover have "pub_step ?p3 ?p4"
    using by_collector [OF collect, of ?p3 "Some ?e" "[]"] by (simp add: example_pub_eq zero_result_def)
  moreover have "pub_step ?p4 example_done"
    using by_collector [OF has_all, of ?p4] by (simp add: example_pub_eq example_done_def)
  ultimately have "(pub_step OO pub_step OO pub_step OO pub_step OO pub_step) example_pub example_done" by blast
  then show ?thesis by (simp add: numeral_eq_Suc relcompp_assoc eq_OO)
qed

theorem publication_ends_witness:
  "5 \<le> 4 * pub_total example_pub + 2 \<and> (\<exists>r. pub_out example_done = Some r)"
proof -
  have "\<not> collector_step example_done q" for q
    by (auto elim!: collector_step_cases simp: example_done_def example_pub_eq)
  moreover have "pub_active example_done = 0" by (simp add: example_done_def example_pub_eq pub_active_def)
  moreover have "(collector_step ^^ 0) example_done example_done" by simp
  ultimately show ?thesis using publication_ends [OF example_published example_run] by blast
qed

definition example_system :: "string publication list \<Rightarrow> string system" where
  "example_system ps = \<lparr>sys_bus = example_bus, sys_pubs = ps, sys_made = 1\<rparr>"

lemma bus_example_options: "bus_options [Some (WithFailureHook True), None]"
  by (simp add: bus_options_def)

lemma example_subscribed: "bus_step\<^sup>*\<^sup>* (initial (bus_New [Some (WithFailureHook True), None])) (example_system [])"
proof -
  let ?s = "initial (bus_New [Some (WithFailureHook True), None]) :: string system"
  obtain sub where "Subscribe (sys_bus ?s) ''created'' (Some ''audit'') = Inr (example_bus, sub)"
    by (simp add: example_bus_def initial_def Subscribe_def Let_def)
  from subscribes [OF this] have "bus_step ?s (example_system [])" by (simp add: example_system_def initial_def)
  then show ?thesis by blast
qed

lemma pub_steps_system: "(pub_step ^^ n) p p' \<Longrightarrow> bus_step\<^sup>*\<^sup>* (example_system [p]) (example_system [p'])"
proof (induction n arbitrary: p')
  case (Suc n)
  then obtain q where "(pub_step ^^ n) p q" "pub_step q p'" by auto
  moreover from this publication [of "example_system [q]" "[]" q "[]" p'] have "bus_step (example_system [q]) (example_system [p'])"
    by (simp add: example_system_def)
  ultimately show ?case using Suc.IH by (meson rtranclp.rtrancl_into_rtrancl)
qed simp

theorem publication_accounts_witness:
  "pr_Delivered (the (pub_out example_done)) + pr_Pending (the (pub_out example_done)) = 1 \<and>
   map hf_Err (pub_failures example_done) = [HandlerPanic ''created'' ''boom'']"
proof -
  have "bus_step (example_system []) (example_system [example_pub])"
    using publishes [of "example_system []" None "''created''" example_pub] example_published by (simp add: example_system_def)
  with example_subscribed pub_steps_system [OF example_run]
  have reach: "bus_step\<^sup>*\<^sup>* (initial (bus_New [Some (WithFailureHook True), None])) (example_system [example_done])"
    by (meson rtranclp.rtrancl_into_rtrancl rtranclp_trans)
  have "example_done \<in> set (sys_pubs (example_system [example_done]))" by (simp add: example_system_def)
  from publication_accounts [OF bus_example_options reach this] show ?thesis
    by (simp add: example_done_def example_pub_eq example_failure_def)
qed

theorem Subscribe_Unsubscribe_witness:
  "\<exists>b sub. Subscribe example_bus ''created'' (Some ''mail'') = Inr (b, sub) \<and>
     copySubscriptions (Unsubscribe b sub) ''created'' = copySubscriptions example_bus ''created'' \<and>
     length (copySubscriptions b ''created'') = Suc (length (copySubscriptions example_bus ''created''))"
proof -
  obtain b sub where sub: "Subscribe (sys_bus (example_system [])) ''created'' (Some ''mail'') = Inr (b, sub)"
    by (simp add: Subscribe_def Let_def)
  have "sys_made (example_system []) < 2 ^ 64 - 1" by (simp add: example_system_def)
  from Subscribe_Unsubscribe [OF bus_example_options example_subscribed this sub] sub show ?thesis
    by (auto simp: example_system_def)
qed

end
