(* ===== verification/Event_Recorder.thy ===== *)
theory Event_Recorder
  imports Kube_Names Env_Vars
begin

text \<open>
  \<open>kubeutil/eventrecorder\<close>, \<open>kubeutil/event/event.go\<close> and \<open>ptr/ptr.go\<close>: the recorder that suppresses repeated events.

  \<open>Eventf\<close> returns the recorder and the message it hands to the inner recorder, if it does.  The formatted
  message (\<open>fmt.Sprintf\<close> of the note and its arguments) is its argument.  Objects carry what \<open>objectKey\<close>
  reads of them: their Go type, the printed kind and the metadata, if they have any.  An instant is the number of
  nanoseconds since the zero \<open>time.Time\<close>, so \<open>IsZero\<close> is equality with 0.
\<close>

section \<open>Pointers\<close>

definition ptr_To :: "'a \<Rightarrow> 'a option" where
  "ptr_To v = Some v"

definition ptr_Deref :: "'a option \<Rightarrow> 'a \<Rightarrow> 'a" where
  "ptr_Deref p d = (case p of None \<Rightarrow> d | Some v \<Rightarrow> v)"

definition ptr_Equal :: "'a option \<Rightarrow> 'a option \<Rightarrow> bool" where
  "ptr_Equal a b =
     (if (a = None) \<noteq> (b = None) then False
      else case a of None \<Rightarrow> True | Some x \<Rightarrow> (case b of None \<Rightarrow> False | Some y \<Rightarrow> x = y))"

lemma ptr_Equal_iff: "ptr_Equal a b \<longleftrightarrow> a = b"
  by (auto simp: ptr_Equal_def split: option.splits)

section \<open>Throttled recorder\<close>

record runtime_object =
  ro_Type :: string
  ro_Kind :: string
  ro_meta :: "(string \<times> string \<times> string) option"

definition objectKey :: "runtime_object option \<Rightarrow> string" where
  "objectKey obj =
     (case obj of
        None \<Rightarrow> ''<nil>''
      | Some r \<Rightarrow>
          (case ro_meta r of
             Some (ns, name, uid) \<Rightarrow> ro_Type r @ ''|'' @ ro_Kind r @ ''|'' @ ns @ ''|'' @ name @ ''|'' @ uid
           | None \<Rightarrow> ro_Type r @ ''|'' @ ro_Kind r))"

definition eventKey :: "runtime_object option \<Rightarrow> runtime_object option \<Rightarrow> string \<Rightarrow> string \<Rightarrow> string \<Rightarrow> string" where
  "eventKey regarding related eventType reason action =
     objectKey regarding @ ''|'' @ objectKey related @ ''|'' @ eventType @ ''|'' @ reason @ ''|'' @ action"

text \<open>FNV-1a with 64 bits: exclusive or first, then multiply.\<close>

definition fnv1a_step :: "64 word \<Rightarrow> char \<Rightarrow> 64 word" where
  "fnv1a_step h c = (h XOR word_of_nat (of_char c)) * 1099511628211"

definition hashString :: "string \<Rightarrow> 64 word" where
  "hashString s = foldl fnv1a_step 14695981039346656037 s"

record eventState =
  es_signature :: "64 word"
  es_firstSuppressedAt :: instant

record ThrottledRecorder =
  tr_inner :: bool
  tr_maxSilence :: duration
  tr_signatures :: "(string, eventState) gomap"

definition NewStateAwareRecorderWithMaxSilence :: "bool \<Rightarrow> duration \<Rightarrow> ThrottledRecorder" where
  "NewStateAwareRecorderWithMaxSilence inner maxSilence = \<lparr>tr_inner = inner, tr_maxSilence = maxSilence, tr_signatures = []\<rparr>"

definition NewStateAwareRecorder :: "bool \<Rightarrow> ThrottledRecorder" where
  "NewStateAwareRecorder inner = NewStateAwareRecorderWithMaxSilence inner (5 * 60 * 1000000000)"

definition NewThrottledRecorder :: "bool \<Rightarrow> int \<Rightarrow> ThrottledRecorder" where
  "NewThrottledRecorder inner publishN = NewStateAwareRecorder inner"

text \<open>The body of \<open>Eventf\<close> for the key of its stream.\<close>

definition throttle ::
  "ThrottledRecorder option \<Rightarrow> string \<Rightarrow> string \<Rightarrow> instant \<Rightarrow> ThrottledRecorder option \<times> string option" where
  "throttle t' key message now =
     (case t' of
        None \<Rightarrow> (t', None)
      | Some t \<Rightarrow>
          if \<not> tr_inner t then (t', None)
          else let sig = hashString message;
                   found = map_of (tr_signatures t) key;
                   state = (case found of None \<Rightarrow> \<lparr>es_signature = 0, es_firstSuppressedAt = 0\<rparr> | Some s \<Rightarrow> s);
                   (state2, shouldPublish) =
                     (if found \<noteq> None \<and> es_signature state = sig
                      then let state1 = (if es_firstSuppressedAt state = 0 then state\<lparr>es_firstSuppressedAt := now\<rparr> else state)
                           in if tr_maxSilence t > 0 \<and> time_Sub now (es_firstSuppressedAt state1) \<ge> tr_maxSilence t
                              then (state1\<lparr>es_firstSuppressedAt := 0\<rparr>, True)
                              else (state1, False)
                      else (state\<lparr>es_signature := sig, es_firstSuppressedAt := 0\<rparr>, True));
                   t2 = t\<lparr>tr_signatures := AList.update key (state2\<lparr>es_signature := sig\<rparr>) (tr_signatures t)\<rparr>
               in (Some t2, if shouldPublish then Some message else None))"

definition Eventf ::
  "ThrottledRecorder option \<Rightarrow> runtime_object option \<Rightarrow> runtime_object option \<Rightarrow> string \<Rightarrow> string \<Rightarrow> string \<Rightarrow> string \<Rightarrow>
   instant \<Rightarrow> ThrottledRecorder option \<times> string option" where
  "Eventf t regarding related eventType reason action message now =
     throttle t (eventKey regarding related eventType reason action) message now"

definition recorder_Reset :: "ThrottledRecorder \<Rightarrow> ThrottledRecorder" where
  "recorder_Reset t = t\<lparr>tr_signatures := []\<rparr>"

definition recorder_Forget :: "ThrottledRecorder \<Rightarrow> runtime_object option \<Rightarrow> ThrottledRecorder" where
  "recorder_Forget t regarding =
     t\<lparr>tr_signatures := filter (\<lambda>(k, s). \<not> HasPrefix k (objectKey regarding @ ''|'')) (tr_signatures t)\<rparr>"

section \<open>Creation\<close>

definition recorder_Create :: "('rc \<Rightarrow> kerr + 'cs) \<Rightarrow> ('cs \<Rightarrow> kerr option) \<Rightarrow> 'rc option \<Rightarrow> string \<Rightarrow> kerr option" where
  "recorder_Create newForConfig startRecording rc recorderName =
     (case rc of
        None \<Rightarrow> Some (KErr ''rest.Config cannot be nil'')
      | Some c \<Rightarrow>
          if recorderName = [] then Some (KErr ''recorderName cannot be empty'')
          else case newForConfig c of Inl err \<Rightarrow> Some err | Inr cs \<Rightarrow> startRecording cs)"

definition CreateWithThrottle ::
  "('rc \<Rightarrow> kerr + 'cs) \<Rightarrow> ('cs \<Rightarrow> kerr option) \<Rightarrow> (string \<Rightarrow> duration option) \<Rightarrow> environ \<Rightarrow> 'rc option \<Rightarrow> string \<Rightarrow>
   kerr + ThrottledRecorder" where
  "CreateWithThrottle newForConfig startRecording parseDuration e rc recorderName =
     (case recorder_Create newForConfig startRecording rc recorderName of
        Some err \<Rightarrow> Inl err
      | None \<Rightarrow>
          Inr (NewStateAwareRecorderWithMaxSilence True
            (env_Duration parseDuration e ''EVENTRECORDER_MAX_SILENCE'' (5 * 60 * 1000000000))))"

section \<open>Events\<close>

record Event =
  ev_Type :: string
  ev_Related :: "runtime_object option"
  ev_Reason :: string
  ev_Message :: string
  ev_Action :: string

definition WithRelated :: "runtime_object option \<Rightarrow> Event \<Rightarrow> Event" where
  "WithRelated related e = e\<lparr>ev_Related := related\<rparr>"

definition event_Normal :: "string \<Rightarrow> string \<Rightarrow> string \<Rightarrow> (Event \<Rightarrow> Event) list \<Rightarrow> Event" where
  "event_Normal r action message opts =
     fold (\<lambda>opt e. opt e) opts \<lparr>ev_Type = ''Normal'', ev_Related = None, ev_Reason = r, ev_Message = message, ev_Action = action\<rparr>"

definition event_Warning :: "string \<Rightarrow> string \<Rightarrow> string \<Rightarrow> (Event \<Rightarrow> Event) list \<Rightarrow> Event" where
  "event_Warning r action errText opts =
     fold (\<lambda>opt e. opt e) opts \<lparr>ev_Type = ''Warning'', ev_Related = None, ev_Reason = r, ev_Message = errText, ev_Action = action\<rparr>"

text \<open>\<open>APIRecorder.Event\<close> on a throttled recorder: the message is the format, with no arguments; \<open>sprintf0\<close> formats it.\<close>

definition api_Event ::
  "(string \<Rightarrow> string) \<Rightarrow> ThrottledRecorder option \<Rightarrow> runtime_object option \<Rightarrow> Event \<Rightarrow> instant \<Rightarrow>
   ThrottledRecorder option \<times> string option" where
  "api_Event sprintf0 t obj e now =
     Eventf t obj (ev_Related e) (ev_Type e) (ev_Reason e) (ev_Action e) (sprintf0 (ev_Message e)) now"

section \<open>Streams of events\<close>

text \<open>An occurrence of an event, and what a recorder made of a sequence of them: each with whether it was published.\<close>

type_synonym occurrence = "string \<times> string \<times> instant"

fun record_all :: "ThrottledRecorder option \<Rightarrow> occurrence list \<Rightarrow> ThrottledRecorder option \<times> (occurrence \<times> bool) list" where
  "record_all t [] = (t, [])"
| "record_all t ((key, message, now) # es) =
     (let (t', out) = throttle t key message now; (t'', rest) = record_all t' es
      in (t'', ((key, message, now), out \<noteq> None) # rest))"

text \<open>
  The contract, from the history of a stream alone: publish the first event, a changed message, and an
  unchanged one that comes \<open>maxSilence\<close> after the first event suppressed since the last publication.
\<close>

definition suppressed_since :: "(occurrence \<times> bool) list \<Rightarrow> occurrence list" where
  "suppressed_since h = map fst (rev (takeWhile (\<lambda>(x, published). \<not> published) (rev h)))"

definition must_publish :: "duration \<Rightarrow> (occurrence \<times> bool) list \<Rightarrow> occurrence \<Rightarrow> bool" where
  "must_publish maxSilence h x =
     (case x of (key, message, now) \<Rightarrow>
        h = [] \<or> hashString (fst (snd (fst (last h)))) \<noteq> hashString message \<or>
        (maxSilence > 0 \<and> (case suppressed_since h of [] \<Rightarrow> False | y # ys \<Rightarrow> now - snd (snd y) \<ge> maxSilence)))"

definition stream :: "string \<Rightarrow> (occurrence \<times> bool) list \<Rightarrow> (occurrence \<times> bool) list" where
  "stream k h = filter (\<lambda>((key, message, now), published). key = k) h"

definition stream_state :: "(occurrence \<times> bool) list \<Rightarrow> eventState option" where
  "stream_state h =
     (if h = [] then None
      else Some \<lparr>es_signature = hashString (fst (snd (fst (last h)))),
                 es_firstSuppressedAt = (case suppressed_since h of [] \<Rightarrow> 0 | y # ys \<Rightarrow> snd (snd y))\<rparr>)"

definition tracked :: "ThrottledRecorder \<Rightarrow> (occurrence \<times> bool) list \<Rightarrow> bool" where
  "tracked t h \<longleftrightarrow> tr_inner t \<and> (\<forall>k. map_of (tr_signatures t) k = stream_state (stream k h)) \<and>
     (\<forall>((k, m, now), p) \<in> set h. now \<noteq> 0)"

lemma suppressed_since_snoc [simp]:
  "suppressed_since [] = []" "suppressed_since (h @ [(x, True)]) = []"
  "suppressed_since (h @ [(x, False)]) = suppressed_since h @ [x]"
  by (simp_all add: suppressed_since_def)

lemma suppressed_since_mem: "x \<in> set (suppressed_since h) \<Longrightarrow> (x, False) \<in> set h"
  by (auto simp: suppressed_since_def dest!: set_takeWhileD)

lemma stream_snoc: "stream k (h @ [((key, m, now), p)]) = stream k h @ (if key = k then [((key, m, now), p)] else [])"
  by (simp add: stream_def)

lemma time_Sub_ge: "0 < d \<Longrightarrow> d < 2 ^ 63 \<Longrightarrow> time_Sub a b \<ge> d \<longleftrightarrow> a - b \<ge> d"
  by (auto simp: time_Sub_def)

lemma suppressed_time:
  assumes "tracked t h" and "suppressed_since (stream k h) = y # ys"
  shows "snd (snd y) \<noteq> 0"
proof -
  have "(y, False) \<in> set (stream k h)" using assms(2) suppressed_since_mem [of y] by simp
  then have "(y, False) \<in> set h" by (auto simp: stream_def)
  with assms(1) show ?thesis by (fastforce simp: tracked_def)
qed

lemma stream_state_snoc:
  "stream_state (h @ [((k, m, now), p)]) =
     Some \<lparr>es_signature = hashString m,
           es_firstSuppressedAt = (if p then 0 else case suppressed_since h of [] \<Rightarrow> now | y # ys \<Rightarrow> snd (snd y))\<rparr>"
  by (cases p) (auto simp: stream_state_def split: list.split)

lemma throttle_result:
  fixes k m :: string
  assumes "tracked t h" and "now \<noteq> 0" and "tr_maxSilence t < 2 ^ 63"
  defines "p \<equiv> must_publish (tr_maxSilence t) (stream k h) (k, m, now)"
  shows "throttle (Some t) k m now =
    (Some (t\<lparr>tr_signatures := AList.update k (the (stream_state (stream k h @ [((k, m, now), p)]))) (tr_signatures t)\<rparr>),
     if p then Some m else None)"
proof -
  have inner: "tr_inner t" and found: "map_of (tr_signatures t) k = stream_state (stream k h)"
    using assms(1) by (auto simp: tracked_def)
  show ?thesis
  proof (cases "stream k h = [] \<or> hashString (fst (snd (fst (last (stream k h))))) \<noteq> hashString m")
    case True
    then have p by (auto simp: p_def must_publish_def)
    with True inner found show ?thesis by (auto simp: throttle_def stream_state_snoc stream_state_def Let_def)
  next
    case False
    then have same: "stream k h \<noteq> []" "hashString (fst (snd (fst (last (stream k h))))) = hashString m" by auto
    show ?thesis
    proof (cases "suppressed_since (stream k h)")
      case Nil
      then have "\<not> p" using same by (simp add: p_def must_publish_def)
      moreover have "\<not> (tr_maxSilence t > 0 \<and> time_Sub now now \<ge> tr_maxSilence t)" by (simp add: time_Sub_def)
      ultimately show ?thesis using Nil inner found same
        by (simp add: throttle_def stream_state_snoc, simp add: stream_state_def Let_def)
    next
      case (Cons y ys)
      have "snd (snd y) \<noteq> 0" by (rule suppressed_time [OF assms(1) Cons])
      moreover have "p \<longleftrightarrow> tr_maxSilence t > 0 \<and> time_Sub now (snd (snd y)) \<ge> tr_maxSilence t"
        using Cons same time_Sub_ge [OF _ assms(3)] by (auto simp: p_def must_publish_def)
      ultimately show ?thesis using Cons inner found same
        by (simp add: throttle_def stream_state_snoc, simp add: stream_state_def Let_def)
    qed
  qed
qed

lemma throttle_step:
  assumes "tracked t h" and "now \<noteq> 0" and "tr_maxSilence t < 2 ^ 63" and "throttle (Some t) k m now = (t', out)"
  shows "(out \<noteq> None \<longleftrightarrow> must_publish (tr_maxSilence t) (stream k h) (k, m, now)) \<and>
    (\<exists>t2. t' = Some t2 \<and> tr_maxSilence t2 = tr_maxSilence t \<and> tracked t2 (h @ [((k, m, now), out \<noteq> None)]))"
proof -
  let ?p = "must_publish (tr_maxSilence t) (stream k h) (k, m, now)"
  let ?st = "the (stream_state (stream k h @ [((k, m, now), ?p)]))"
  have out: "out = (if ?p then Some m else None)" "t' = Some (t\<lparr>tr_signatures := AList.update k ?st (tr_signatures t)\<rparr>)"
    using throttle_result [OF assms(1-3), of k m] assms(4) by simp_all
  then have "out \<noteq> None \<longleftrightarrow> ?p" by simp
  moreover have "tracked (t\<lparr>tr_signatures := AList.update k ?st (tr_signatures t)\<rparr>) (h @ [((k, m, now), ?p)])"
    using assms(1,2) by (auto simp: tracked_def stream_snoc stream_state_snoc)
  ultimately show ?thesis using out(2) by simp
qed

lemma record_all_history:
  assumes "tracked t h" and "tr_maxSilence t < 2 ^ 63" and "\<forall>(k, m, now) \<in> set es. now \<noteq> 0"
    and "record_all (Some t) es = (t', h')" and "h' = pre @ (x, published) # post"
  shows "published \<longleftrightarrow> must_publish (tr_maxSilence t) (stream (fst x) (h @ pre)) x"
  using assms
proof (induction es arbitrary: t t' h h' pre)
  case (Cons e es)
  obtain k m now where e: "e = (k, m, now)" by (cases e)
  obtain t1 out where step: "throttle (Some t) k m now = (t1, out)" by (metis surj_pair)
  obtain t2 rest where rec: "record_all t1 es = (t2, rest)" by (metis surj_pair)
  have h': "h' = ((k, m, now), out \<noteq> None) # rest" using Cons.prems(4) e step rec by simp
  note st = throttle_step [OF Cons.prems(1) _ Cons.prems(2) step] Cons.prems(3)
  show ?case
  proof (cases pre)
    case Nil
    with h' Cons.prems(5) st e show ?thesis by auto
  next
    case (Cons y pre')
    obtain t3 where "t1 = Some t3" "tr_maxSilence t3 = tr_maxSilence t" "tracked t3 (h @ [((k, m, now), out \<noteq> None)])"
      using st e by auto
    with Cons.IH [of t3 "h @ [((k, m, now), out \<noteq> None)]" t2 rest pre'] rec Cons Cons.prems h' show ?thesis by simp
  qed
qed simp

lemma record_all_events: "record_all t es = (t', h) \<Longrightarrow> map fst h = es"
  by (induction t es arbitrary: t' h rule: record_all.induct) (auto simp: Let_def split: prod.splits)

lemma tracked_new: "tracked (NewStateAwareRecorderWithMaxSilence True d) []"
  by (simp add: tracked_def NewStateAwareRecorderWithMaxSilence_def stream_def stream_state_def)

text \<open>
  C16: the recorder suppresses exactly the repetitions.  Whatever streams are interleaved, an event is published
  if and only if, in the history of its own stream, it is the first one, or its message differs from
  that of the event before, or \<open>maxSilence\<close> has passed since the first event that was suppressed after
  the last publication; messages are compared by their hash.
\<close>

theorem throttle_follows_history:
  assumes "d < 2 ^ 63" and "\<forall>(k, m, now) \<in> set es. now \<noteq> 0"
    and "record_all (Some (NewStateAwareRecorderWithMaxSilence True d)) es = (t, pre @ (x, published) # post)"
  shows "published \<longleftrightarrow> must_publish d (stream (fst x) pre) x"
  using record_all_history [OF tracked_new, of d es] assms by (simp add: NewStateAwareRecorderWithMaxSilence_def)

definition example_events :: "occurrence list" where
  "example_events = [(''a'', ''down'', 5), (''b'', ''down'', 7), (''a'', ''down'', 8), (''a'', ''down'', 19), (''a'', ''up'', 20)]"

theorem throttle_follows_history_witness:
  "snd (record_all (Some (NewStateAwareRecorderWithMaxSilence True 10)) example_events) ! 2 = ((''a'', ''down'', 8), False) \<and>
   snd (record_all (Some (NewStateAwareRecorderWithMaxSilence True 10)) example_events) ! 3 = ((''a'', ''down'', 19), True)"
proof -
  let ?r = "record_all (Some (NewStateAwareRecorderWithMaxSilence True 10)) example_events"
  obtain t h where th: "?r = (t, h)" by (metis surj_pair)
  then obtain b0 b1 b2 b3 b4 where r: "?r = (t, [((''a'', ''down'', 5), b0), ((''b'', ''down'', 7), b1), ((''a'', ''down'', 8), b2),
      ((''a'', ''down'', 19), b3), ((''a'', ''up'', 20), b4)])"
    using record_all_events [OF th] by (auto simp: example_events_def map_eq_Cons_conv)
  have times: "\<forall>(k, m, now) \<in> set example_events. now \<noteq> 0" by (simp add: example_events_def)
  note hist = throttle_follows_history [of 10, OF _ times]
  have b0: "b0" using hist [of t "[]"] r by (simp add: must_publish_def stream_def)
  have b2: "\<not> b2" using hist [of t "[((''a'', ''down'', 5), b0), ((''b'', ''down'', 7), b1)]"] r b0
    by (simp add: must_publish_def stream_def suppressed_since_def)
  have b3: "b3" using hist [of t "[((''a'', ''down'', 5), b0), ((''b'', ''down'', 7), b1), ((''a'', ''down'', 8), b2)]"] r b0 b2
    by (simp add: must_publish_def stream_def suppressed_since_def)
  show ?thesis using b2 b3 by (subst (1 2) r) simp
qed

section \<open>Silence is bounded\<close>

lemma stream_split:
  "stream k h = a @ (x, p) # b \<Longrightarrow> \<exists>pre post. h = pre @ (x, p) # post \<and> stream k pre = a \<and> fst x = k"
proof (induction h arbitrary: a)
  case (Cons y h)
  show ?case
  proof (cases "fst (fst y) = k")
    case False
    then have "stream k h = a @ (x, p) # b" using Cons.prems by (auto simp: stream_def split: prod.splits)
    from Cons.IH [OF this] obtain pre post where "h = pre @ (x, p) # post" "stream k pre = a" "fst x = k" by blast
    with False show ?thesis by (intro exI [of _ "y # pre"] exI [of _ post]) (auto simp: stream_def split: prod.splits)
  next
    case True
    show ?thesis
    proof (cases a)
      case Nil
      with True Cons.prems show ?thesis by (intro exI [of _ "[]"] exI [of _ h]) (auto simp: stream_def split: prod.splits)
    next
      case (Cons z a')
      with True Cons.prems have "stream k h = a' @ (x, p) # b" "z = y" by (auto simp: stream_def split: prod.splits)
      from Cons.IH [OF this(1)] obtain pre post where "h = pre @ (x, p) # post" "stream k pre = a'" "fst x = k" by blast
      with True Cons \<open>z = y\<close> show ?thesis
        by (intro exI [of _ "y # pre"] exI [of _ post]) (auto simp: stream_def split: prod.splits)
    qed
  qed
qed (simp add: stream_def)

lemma suppressed_since_append:
  "\<forall>(x, p) \<in> set b. \<not> p \<Longrightarrow> suppressed_since (a @ b) = suppressed_since a @ map fst b"
proof (induction b rule: rev_induct)
  case (snoc y b)
  then obtain x where "y = (x, False)" by (cases y) auto
  with snoc suppressed_since_snoc(3) [of "a @ b" x] show ?case by simp
qed simp

definition time_of :: "occurrence \<times> bool \<Rightarrow> instant" where
  "time_of y = snd (snd (fst y))"

text \<open>
  Silence is bounded.  With a positive \<open>maxSilence\<close> and a clock that does not go back, consecutive events of a
  stream that are all suppressed span less than \<open>maxSilence\<close>: an event that comes later is published even if
  nothing changed.
\<close>

theorem suppression_bounded:
  assumes "0 < d" and "d < 2 ^ 63" and "\<forall>(k, m, now) \<in> set es. now \<noteq> 0" and "sorted (map (\<lambda>(k, m, now). now) es)"
    and "record_all (Some (NewStateAwareRecorderWithMaxSilence True d)) es = (t, h)"
    and "stream k h = before @ first # silent @ final # after"
    and "\<forall>(x, p) \<in> set (first # silent @ [final]). \<not> p"
  shows "time_of final - time_of first < d"
proof -
  obtain x where fin: "final = (x, False)" using assms(7) by (cases final) auto
  obtain pre post where h: "h = pre @ (x, False) # post" "stream k pre = before @ first # silent" "fst x = k"
    using stream_split [of k h "before @ first # silent" x False] assms(6) fin by auto
  have not: "\<not> must_publish d (before @ first # silent) x"
    using record_all_history [OF tracked_new, of d es t h pre x False post] assms(2,3,5) h
    by (simp add: NewStateAwareRecorderWithMaxSilence_def)
  have since: "suppressed_since (before @ first # silent) = suppressed_since before @ map fst (first # silent)"
    using assms(7) by (intro suppressed_since_append) auto
  obtain y ys where y: "suppressed_since before @ map fst (first # silent) = y # ys" by (cases "suppressed_since before") auto
  have less: "snd (snd x) - snd (snd y) < d" using not since y assms(1) by (cases x) (auto simp: must_publish_def)
  have "snd (snd y) \<le> time_of first"
  proof (cases "suppressed_since before")
    case Nil
    with y show ?thesis by (simp add: time_of_def)
  next
    case (Cons z zs)
    with y have "(y, False) \<in> set before" using suppressed_since_mem [of y before] by simp
    then obtain b1 b2 where b: "before = b1 @ (y, False) # b2" by (meson split_list)
    have "map time_of h = map (\<lambda>(k, m, now). now) (map fst h)" by (simp add: time_of_def case_prod_beta)
    then have "sorted (map time_of h)" using assms(4) record_all_events [OF assms(5)] by metis
    then have "sorted (map time_of (stream k h))" by (simp add: stream_def sorted_filter)
    with assms(6) b show ?thesis by (auto simp: sorted_append time_of_def)
  qed
  with less fin show ?thesis by (simp add: time_of_def)
qed

theorem suppression_bounded_witness:
  "time_of ((''a'', ''down'', 12), False) - time_of ((''a'', ''down'', 8), False) < 10"
proof -
  let ?es = "[(''a'', ''down'', 5), (''a'', ''down'', 8), (''a'', ''down'', 12)] :: occurrence list"
  let ?h = "[((''a'', ''down'', 5), True), ((''a'', ''down'', 8), False), ((''a'', ''down'', 12), False)] :: (occurrence \<times> bool) list"
  obtain t where t: "record_all (Some (NewStateAwareRecorderWithMaxSilence True 10)) ?es = (t, ?h)"
    by (simp add: NewStateAwareRecorderWithMaxSilence_def throttle_def time_Sub_def)
  from suppression_bounded [OF _ _ _ _ t, of "''a''" "[((''a'', ''down'', 5), True)]" "((''a'', ''down'', 8), False)" "[]"
      "((''a'', ''down'', 12), False)" "[]"]
  show ?thesis by (simp add: stream_def)
qed

text \<open>After \<open>Forget\<close> of an object, the next event of each of its streams is published again.\<close>

theorem Forget_publishes:
  assumes "tr_inner t"
  shows "snd (Eventf (Some (recorder_Forget t obj)) obj related eventType reason action message now) = Some message"
proof -
  let ?k = "eventKey obj related eventType reason action"
  have "map_of (tr_signatures (recorder_Forget t obj)) ?k = None"
    by (force simp: recorder_Forget_def map_of_eq_None_iff eventKey_def HasPrefix_def)
  with assms show ?thesis by (simp add: Eventf_def throttle_def recorder_Forget_def Let_def)
qed

end
