(* ===== verification/Retry_Wait.thy ===== *)
theory Retry_Wait
  imports Http_Types Env_Vars
begin

text \<open>
  \<open>http/util/retry.go\<close>: the HTTP client that retries, and \<open>wait/until.go\<close>: polling until a check succeeds, with its
  client \<open>pgutil/wait.go\<close>.

  Durations are 64-bit integers that wrap (\<open>int64\<close>), since a shift by the number of the attempt can overflow.
  What the environment does is given by oracles indexed by how often they were asked: the answer to the
  \<open>n\<close>th request, whether the context ends the \<open>n\<close>th sleep, and the random numbers.  A panic of
  \<open>rand.Int63n\<close> is the result \<open>Panicked\<close>.
\<close>

section \<open>Retrying client\<close>

definition int64 :: "int \<Rightarrow> int" where
  "int64 x = (x + 2 ^ 63) mod 2 ^ 64 - 2 ^ 63"

record http_reply =
  hr_StatusCode :: int
  hr_Header :: header

datatype rerr = NetErr string | CtxErr string | LimitErr string | TooManyRetries | ServerError int int

datatype do_result = Panicked | Done "http_reply option" "rerr option"

record RetryClient =
  rc_MaxRetries :: int
  rc_BaseBackoff :: duration
  rc_MaxBackoff :: duration
  rc_Limiter :: bool

record retry_env =
  re_answer :: "nat \<Rightarrow> string + http_reply"
  re_interrupted :: "nat \<Rightarrow> string option"
  re_random :: "nat \<Rightarrow> int \<Rightarrow> int"
  re_limit :: "string option"
  re_parseTime :: "string \<Rightarrow> instant option"
  re_now :: instant

record retry_state =
  rs_sent :: nat
  rs_sleeps :: "duration list"

definition NewRetryClient :: "(string \<Rightarrow> duration option) \<Rightarrow> environ \<Rightarrow> RetryClient" where
  "NewRetryClient parseDuration e =
     \<lparr>rc_MaxRetries = env_Int e ''CLIENT_MAX_RETRIES'' 5,
      rc_BaseBackoff = env_Duration parseDuration e ''CLIENT_BASE_BACKOFF'' 500000000,
      rc_MaxBackoff = env_Duration parseDuration e ''CLIENT_MAX_BACKOFF'' 10000000000, rc_Limiter = True\<rparr>"

definition isIdempotentMethod :: "string \<Rightarrow> bool" where
  "isIdempotentMethod method = (method \<in> {''GET'', ''HEAD'', ''OPTIONS'', ''PUT'', ''DELETE''})"

text \<open>Division truncates towards zero; \<open>Int63n\<close> panics on an argument that is not positive.\<close>

definition half :: "int \<Rightarrow> int" where
  "half d = (if d < 0 then - ((- d) div 2) else d div 2)"

definition backoff :: "(int \<Rightarrow> int) \<Rightarrow> int \<Rightarrow> duration \<Rightarrow> duration \<Rightarrow> duration option" where
  "backoff rnd attempt base mx =
     (let d0 = int64 (base * int64 (2 ^ nat attempt));
          d = (if d0 > mx then mx else d0)
      in if half d \<le> 0 then None else Some (half d + rnd (half d)))"

definition parseRetryAfter :: "retry_env \<Rightarrow> http_reply \<Rightarrow> duration" where
  "parseRetryAfter env resp =
     (let ra = header_Get (hr_Header resp) ''Retry-After'' in
      if ra = [] then 2 * 1000000000
      else case Atoi ra of
             Some secs \<Rightarrow> int64 (secs * 1000000000)
           | None \<Rightarrow> (case re_parseTime env ra of Some t \<Rightarrow> time_Sub t (re_now env) | None \<Rightarrow> 2 * 1000000000))"

text \<open>One sleep: it is recorded, and the oracle says whether the context ended it.\<close>

definition sleepWithContext :: "retry_env \<Rightarrow> duration \<Rightarrow> retry_state \<Rightarrow> retry_state \<times> rerr option" where
  "sleepWithContext env d st =
     (st\<lparr>rs_sleeps := rs_sleeps st @ [d]\<rparr>, map_option CtxErr (re_interrupted env (length (rs_sleeps st))))"

definition backoff_now :: "RetryClient \<Rightarrow> retry_env \<Rightarrow> int \<Rightarrow> retry_state \<Rightarrow> duration option" where
  "backoff_now rc env attempt st =
     backoff (re_random env (length (rs_sleeps st))) attempt (rc_BaseBackoff rc) (rc_MaxBackoff rc)"

function retry_loop ::
  "RetryClient \<Rightarrow> retry_env \<Rightarrow> int \<Rightarrow> http_reply option \<Rightarrow> rerr option \<Rightarrow> retry_state \<Rightarrow> retry_state \<times> do_result" where
  "retry_loop rc env attempt resp lastErr st =
     (if attempt \<le> rc_MaxRetries rc
      then let ans = re_answer env (rs_sent st); st1 = st\<lparr>rs_sent := Suc (rs_sent st)\<rparr> in
           case ans of
             Inl e \<Rightarrow>
               if attempt < rc_MaxRetries rc
               then (case backoff_now rc env attempt st1 of
                       None \<Rightarrow> (st1, Panicked)
                     | Some d \<Rightarrow>
                         (case sleepWithContext env d st1 of
                            (st2, Some err) \<Rightarrow> (st2, Done None (Some err))
                          | (st2, None) \<Rightarrow> retry_loop rc env (attempt + 1) None (Some (NetErr e)) st2))
               else (st1, Done None (Some (NetErr e)))
           | Inr r \<Rightarrow>
               if hr_StatusCode r < 500 \<and> hr_StatusCode r \<noteq> 429 then (st1, Done (Some r) None)
               else if hr_StatusCode r = 429
               then if attempt < rc_MaxRetries rc
                    then (case sleepWithContext env (parseRetryAfter env r) st1 of
                            (st2, Some err) \<Rightarrow> (st2, Done None (Some err))
                          | (st2, None) \<Rightarrow> retry_loop rc env (attempt + 1) (Some r) None st2)
                    else (st1, Done (Some r) (Some TooManyRetries))
               else if attempt < rc_MaxRetries rc
               then (case backoff_now rc env attempt st1 of
                       None \<Rightarrow> (st1, Panicked)
                     | Some d \<Rightarrow>
                         (case sleepWithContext env d st1 of
                            (st2, Some err) \<Rightarrow> (st2, Done None (Some err))
                          | (st2, None) \<Rightarrow> retry_loop rc env (attempt + 1) (Some r) None st2))
               else (st1, Done (Some r) (Some (ServerError (rc_MaxRetries rc) (hr_StatusCode r))))
      else (st, Done resp lastErr))"
  by pat_completeness auto
termination
  by (relation "measure (\<lambda>(rc, env, attempt, resp, lastErr, st). nat (rc_MaxRetries rc + 1 - attempt))") auto

declare retry_loop.simps [simp del]

definition retry_Do :: "RetryClient \<Rightarrow> retry_env \<Rightarrow> string \<Rightarrow> retry_state \<Rightarrow> retry_state \<times> do_result" where
  "retry_Do rc env method st =
     (case (if rc_Limiter rc then re_limit env else None) of
        Some e \<Rightarrow> (st, Done None (Some (LimitErr e)))
      | None \<Rightarrow>
          if \<not> isIdempotentMethod method
          then (st\<lparr>rs_sent := Suc (rs_sent st)\<rparr>,
                case re_answer env (rs_sent st) of Inl e \<Rightarrow> Done None (Some (NetErr e)) | Inr r \<Rightarrow> Done (Some r) None)
          else retry_loop rc env 0 None None st)"

section \<open>Waiting\<close>

record wait_options =
  wo_InitialBackoff :: duration
  wo_MaxBackoff :: duration

definition normalise_options :: "wait_options \<Rightarrow> wait_options" where
  "normalise_options opts =
     (let i = (if wo_InitialBackoff opts \<le> 0 then 1000000000 else wo_InitialBackoff opts);
          m = (if wo_MaxBackoff opts \<le> 0 then 30 * 1000000000 else wo_MaxBackoff opts)
      in \<lparr>wo_InitialBackoff = i, wo_MaxBackoff = (if m < i then i else m)\<rparr>)"

definition next_backoff :: "duration \<Rightarrow> duration \<Rightarrow> duration" where
  "next_backoff mx b = (let b2 = int64 (b * 2) in if b2 > mx then mx else b2)"

text \<open>
  The loop may run for ever, which is the value \<open>None\<close>.  \<open>check\<close> gives the outcome of the \<open>n\<close>th check, \<open>ended\<close> whether the
  context is done during the \<open>n\<close>th wait; the result carries the durations of the waits that ended.
\<close>

partial_function (option) until_loop ::
  "(nat \<Rightarrow> string + 'a) \<Rightarrow> (nat \<Rightarrow> string option) \<Rightarrow> duration \<Rightarrow> nat \<Rightarrow> duration \<Rightarrow> duration list \<Rightarrow>
   (duration list \<times> (string + 'a)) option" where
  "until_loop check ended mx n b waits =
     (case check n of
        Inr v \<Rightarrow> Some (waits, Inr v)
      | Inl e \<Rightarrow>
          (case ended n of
             Some err \<Rightarrow> Some (waits, Inl err)
           | None \<Rightarrow> until_loop check ended mx (Suc n) (next_backoff mx b) (waits @ [b])))"

definition UntilWithOptions ::
  "(nat \<Rightarrow> string + 'a) option \<Rightarrow> (nat \<Rightarrow> string option) \<Rightarrow> wait_options \<Rightarrow> (duration list \<times> (string + 'a)) option" where
  "UntilWithOptions check ended opts =
     (case check of
        None \<Rightarrow> Some ([], Inl ''nil check func'')
      | Some f \<Rightarrow>
          let o' = normalise_options opts
          in until_loop f ended (wo_MaxBackoff o') 0 (wo_InitialBackoff o') [])"

definition Until :: "(nat \<Rightarrow> string + 'a) option \<Rightarrow> (nat \<Rightarrow> string option) \<Rightarrow> (duration list \<times> (string + 'a)) option" where
  "Until check ended = UntilWithOptions check ended \<lparr>wo_InitialBackoff = 0, wo_MaxBackoff = 0\<rparr>"

text \<open>\<open>connect\<close> is \<open>pgxpool.NewWithConfig\<close> and \<open>ping\<close> the pool's \<open>Ping\<close>, at the \<open>n\<close>th check.\<close>

definition pool_check :: "(nat \<Rightarrow> string + 'p) \<Rightarrow> (nat \<Rightarrow> 'p \<Rightarrow> string option) \<Rightarrow> nat \<Rightarrow> string + 'p" where
  "pool_check connect ping n =
     (case connect n of
        Inl err \<Rightarrow> Inl err
      | Inr pool \<Rightarrow> (case ping n pool of Some err \<Rightarrow> Inl err | None \<Rightarrow> Inr pool))"

definition WaitForPostgresWithOptions ::
  "(string \<Rightarrow> string + 'cfg) \<Rightarrow> ('cfg \<Rightarrow> nat \<Rightarrow> string + 'p) \<Rightarrow> (nat \<Rightarrow> 'p \<Rightarrow> string option) \<Rightarrow> (nat \<Rightarrow> string option) \<Rightarrow>
   string \<Rightarrow> wait_options \<Rightarrow> (duration list \<times> (string + 'p)) option" where
  "WaitForPostgresWithOptions parseConfig connect ping ended dbURL opts =
     (case parseConfig dbURL of
        Inl err \<Rightarrow> Some ([], Inl (''invalid db config: '' @ err))
      | Inr cfg \<Rightarrow> UntilWithOptions (Some (pool_check (connect cfg) ping)) ended opts)"

definition WaitForPostgres ::
  "(string \<Rightarrow> string + 'cfg) \<Rightarrow> ('cfg \<Rightarrow> nat \<Rightarrow> string + 'p) \<Rightarrow> (nat \<Rightarrow> 'p \<Rightarrow> string option) \<Rightarrow> (nat \<Rightarrow> string option) \<Rightarrow>
   string \<Rightarrow> (duration list \<times> (string + 'p)) option" where
  "WaitForPostgres parseConfig connect ping ended dbURL =
     WaitForPostgresWithOptions parseConfig connect ping ended dbURL \<lparr>wo_InitialBackoff = 0, wo_MaxBackoff = 0\<rparr>"

section \<open>Backoff\<close>

lemma int64_id: "- (2 ^ 63) \<le> x \<Longrightarrow> x < 2 ^ 63 \<Longrightarrow> int64 x = x"
  by (simp add: int64_def)

definition jitter_ok :: "(int \<Rightarrow> int) \<Rightarrow> bool" where
  "jitter_ok rnd \<longleftrightarrow> (\<forall>n > 0. 0 \<le> rnd n \<and> rnd n < n)"

text \<open>Without overflow the backoff is between a half and the whole of the capped exponential, and there is no panic.\<close>

lemma backoff_value:
  assumes "2 \<le> base" and "2 \<le> mx" and "base * 2 ^ n < 2 ^ 63"
  shows "backoff rnd (int n) base mx = Some (min mx (base * 2 ^ n) div 2 + rnd (min mx (base * 2 ^ n) div 2))"
proof -
  have one: "1 \<le> (2 ^ n :: int)" by simp
  have "2 ^ n \<le> base * 2 ^ n" using assms(1) mult_right_mono [of 1 base "2 ^ n"] by simp
  then have "2 ^ n < (2 ^ 63 :: int)" by (rule le_less_trans) (rule assms(3))
  then have i: "int64 (2 ^ n) = 2 ^ n" by (intro int64_id) (use one in linarith, assumption)
  have two: "2 \<le> base * 2 ^ n" using mult_mono [of 2 base 1 "2 ^ n"] assms(1) one by simp
  with assms(3) have d0: "int64 (base * int64 (2 ^ n)) = base * 2 ^ n" unfolding i by (intro int64_id) auto
  define d where "d = min mx (base * 2 ^ n)"
  then have d: "2 \<le> d" using two assms(2) by simp
  then have h: "half d = d div 2" "0 < d div 2" by (simp_all add: half_def)
  have "(if base * 2 ^ n > mx then mx else base * 2 ^ n) = d" by (simp add: d_def)
  with d0 h show ?thesis by (simp add: backoff_def Let_def flip: d_def)
qed

lemma backoff_range:
  assumes "2 \<le> base" and "2 \<le> mx" and "base * 2 ^ n < 2 ^ 63" and "jitter_ok rnd"
  obtains d where "backoff rnd (int n) base mx = Some d" "min mx (base * 2 ^ n) div 2 \<le> d" "d < min mx (base * 2 ^ n)"
proof -
  define d where "d = min mx (base * 2 ^ n)"
  have "2 \<le> base * 2 ^ n" using mult_mono [of 2 base 1 "2 ^ n"] assms(1) by simp
  then have "0 < d div 2" using assms(2) by (simp add: d_def)
  then have r: "0 \<le> rnd (d div 2)" "rnd (d div 2) < d div 2" using assms(4) by (auto simp: jitter_ok_def)
  then have "d div 2 + rnd (d div 2) < d" by linarith
  with that r(1) backoff_value [OF assms(1-3), of rnd] show thesis by (simp flip: d_def)
qed

text \<open>
  The shift overflows: with the default base of 500 ms the 36th attempt panics, and a base of one nanosecond
  panics at the first retry.
\<close>

theorem backoff_panics:
  "backoff rnd 35 500000000 10000000000 = None \<and> backoff rnd 0 1 10000000000 = None"
  by (simp add: backoff_def int64_def half_def)

section \<open>Retries\<close>

definition retriable :: "string + http_reply \<Rightarrow> bool" where
  "retriable a = (case a of Inl e \<Rightarrow> True | Inr r \<Rightarrow> hr_StatusCode r \<ge> 500 \<or> hr_StatusCode r = 429)"

text \<open>What is returned when the retries are used up.\<close>

definition exhausted :: "RetryClient \<Rightarrow> string + http_reply \<Rightarrow> do_result" where
  "exhausted rc a =
     (case a of
        Inl e \<Rightarrow> Done None (Some (NetErr e))
      | Inr r \<Rightarrow> Done (Some r) (Some (if hr_StatusCode r = 429 then TooManyRetries
                                     else ServerError (rc_MaxRetries rc) (hr_StatusCode r))))"

text \<open>The specification: the first answer that is not worth a retry, or the last answer as an error; with the requests sent.\<close>

definition retry_spec :: "RetryClient \<Rightarrow> (nat \<Rightarrow> string + http_reply) \<Rightarrow> nat \<Rightarrow> nat \<times> do_result" where
  "retry_spec rc ans a =
     (let n = nat (rc_MaxRetries rc) in
      case filter (\<lambda>k. \<not> retriable (ans k)) [a..<Suc n] of
        k # ks \<Rightarrow> (Suc k, Done (Some (projr (ans k))) None)
      | [] \<Rightarrow> (Suc n, exhausted rc (ans n)))"

lemma retry_spec_step:
  "a < nat (rc_MaxRetries rc) \<Longrightarrow> retriable (ans a) \<Longrightarrow> retry_spec rc ans a = retry_spec rc ans (Suc a)"
  by (simp add: retry_spec_def upt_conv_Cons Let_def)

text \<open>
  How long the client waits after the \<open>k\<close>th answer.  After 429 as long as the server asks: the seconds of \<open>Retry-After\<close>, the
  time until its date, or two seconds; else between one half and the whole of the exponential backoff, capped by
  the maximum: the half and a random number below it.
\<close>

definition asked_wait :: "retry_env \<Rightarrow> http_reply \<Rightarrow> duration" where
  "asked_wait env r =
     (case (Atoi (header_Get (hr_Header r) ''Retry-After''), re_parseTime env (header_Get (hr_Header r) ''Retry-After'')) of
        (Some secs, _) \<Rightarrow> secs * 10 ^ 9
      | (None, Some t) \<Rightarrow> if header_Get (hr_Header r) ''Retry-After'' = [] then 2 * 10 ^ 9 else t - re_now env
      | (None, None) \<Rightarrow> 2 * 10 ^ 9)"

definition capped :: "RetryClient \<Rightarrow> nat \<Rightarrow> duration" where
  "capped rc k = min (rc_MaxBackoff rc) (rc_BaseBackoff rc * 2 ^ k)"

definition wait_spec :: "RetryClient \<Rightarrow> retry_env \<Rightarrow> nat \<Rightarrow> duration" where
  "wait_spec rc env k =
     (case re_answer env k of
        Inr r \<Rightarrow> if hr_StatusCode r = 429 then asked_wait env r else capped rc k div 2 + re_random env k (capped rc k div 2)
      | Inl e \<Rightarrow> capped rc k div 2 + re_random env k (capped rc k div 2))"

text \<open>
  The context is never done, the random numbers are in their range, and no duration vanishes or overflows: neither the
  backoffs nor the waits that the server asks for.
\<close>

definition calm :: "RetryClient \<Rightarrow> retry_env \<Rightarrow> bool" where
  "calm rc env \<longleftrightarrow> 2 \<le> rc_BaseBackoff rc \<and> 2 \<le> rc_MaxBackoff rc \<and> rc_BaseBackoff rc * 2 ^ nat (rc_MaxRetries rc) < 2 ^ 63 \<and>
     (\<forall>n. jitter_ok (re_random env n)) \<and> (\<forall>n. re_interrupted env n = None) \<and>
     (\<forall>k r. re_answer env k = Inr r \<longrightarrow> - (2 ^ 63) \<le> asked_wait env r \<and> asked_wait env r < 2 ^ 63)"

lemma Atoi_empty: "Atoi [] = None"
  by code_simp

lemma parseRetryAfter_asked:
  assumes "- (2 ^ 63) \<le> asked_wait env r" "asked_wait env r < 2 ^ 63"
  shows "parseRetryAfter env r = asked_wait env r"
  using assms
  by (auto simp: parseRetryAfter_def asked_wait_def Let_def Atoi_empty int64_id time_Sub_def split: option.splits if_splits)

lemma calm_backoff:
  assumes "calm rc env" and "a < nat (rc_MaxRetries rc)" and "length (rs_sleeps st) = a"
  shows "backoff_now rc env (int a) st = Some (capped rc a div 2 + re_random env a (capped rc a div 2))"
proof -
  have "rc_BaseBackoff rc * 2 ^ a \<le> rc_BaseBackoff rc * 2 ^ nat (rc_MaxRetries rc)"
    using assms by (intro mult_left_mono power_increasing) (auto simp: calm_def)
  moreover have "rc_BaseBackoff rc * 2 ^ nat (rc_MaxRetries rc) < 2 ^ 63" using assms(1) by (simp add: calm_def)
  ultimately have "rc_BaseBackoff rc * 2 ^ a < 2 ^ 63" by (rule le_less_trans)
  with assms show ?thesis
    using backoff_value [of "rc_BaseBackoff rc" "rc_MaxBackoff rc" a "re_random env a"]
    by (auto simp: calm_def backoff_now_def capped_def)
qed

lemma calm_sleep: "calm rc env \<Longrightarrow> sleepWithContext env d st = (st\<lparr>rs_sleeps := rs_sleeps st @ [d]\<rparr>, None)"
  by (simp add: sleepWithContext_def calm_def)

lemma retry_loop_continues:
  assumes "calm rc env" and "a < nat (rc_MaxRetries rc)" and "retriable (re_answer env a)" and "rs_sent st = a" "length (rs_sleeps st) = a"
  shows "\<exists>resp' err'. retry_loop rc env (int a) resp lastErr st =
    retry_loop rc env (int (Suc a)) resp' err' (st\<lparr>rs_sent := Suc a, rs_sleeps := rs_sleeps st @ [wait_spec rc env a]\<rparr>)"
proof -
  let ?st1 = "st\<lparr>rs_sent := Suc (rs_sent st)\<rparr>"
  have d: "backoff_now rc env (int a) ?st1 = Some (capped rc a div 2 + re_random env a (capped rc a div 2))"
    using calm_backoff [OF assms(1,2)] assms(5) by simp
  have a: "int a < rc_MaxRetries rc" using assms(2) by simp
  show ?thesis
  proof (cases "re_answer env a")
    case (Inl e)
    with a d assms(4) show ?thesis
      by (subst retry_loop.simps) (auto simp: Let_def calm_sleep [OF assms(1)] add.commute wait_spec_def)
  next
    case (Inr r)
    then have "parseRetryAfter env r = asked_wait env r" using assms(1) by (intro parseRetryAfter_asked) (auto simp: calm_def)
    with Inr a d assms(3,4) show ?thesis
      by (subst retry_loop.simps) (auto simp: Let_def calm_sleep [OF assms(1)] retriable_def add.commute wait_spec_def)
  qed
qed

lemma retry_loop_spec:
  assumes "calm rc env" and "0 \<le> rc_MaxRetries rc" and "a \<le> nat (rc_MaxRetries rc)" and "rs_sent st = a"
    and "rs_sleeps st = map (wait_spec rc env) [0..<a]"
  shows "\<exists>st'. retry_loop rc env (int a) resp lastErr st = (st', snd (retry_spec rc (re_answer env) a)) \<and>
    rs_sent st' = fst (retry_spec rc (re_answer env) a) \<and> rs_sleeps st' = map (wait_spec rc env) [0..<rs_sent st' - 1]"
  using assms(3-)
proof (induction "nat (rc_MaxRetries rc) - a" arbitrary: a st resp lastErr)
  case 0
  then have a: "a = nat (rc_MaxRetries rc)" "int a = rc_MaxRetries rc" using assms(2) by simp_all
  show ?case
  proof (cases "re_answer env a")
    case (Inl e)
    with a 0 show ?thesis by (subst retry_loop.simps) (simp add: Let_def retry_spec_def retriable_def exhausted_def)
  next
    case (Inr r)
    with a 0 show ?thesis by (subst retry_loop.simps) (auto simp: Let_def retry_spec_def retriable_def exhausted_def)
  qed
next
  case (Suc m)
  then have a: "a < nat (rc_MaxRetries rc)" by simp
  show ?case
  proof (cases "retriable (re_answer env a)")
    case True
    then obtain resp' err' where step: "retry_loop rc env (int a) resp lastErr st =
        retry_loop rc env (int (Suc a)) resp' err' (st\<lparr>rs_sent := Suc a, rs_sleeps := rs_sleeps st @ [wait_spec rc env a]\<rparr>)"
      using retry_loop_continues [OF assms(1) a True] Suc.prems by fastforce
    show ?thesis
      unfolding step retry_spec_step [where ans = "re_answer env", OF a True] using Suc.hyps(2) a Suc.prems by (intro Suc.hyps(1)) auto
  next
    case False
    then obtain r where "re_answer env a = Inr r" "hr_StatusCode r < 500" "hr_StatusCode r \<noteq> 429"
      by (auto simp: retriable_def split: sum.splits)
    with a Suc.prems False show ?thesis
      by (subst retry_loop.simps) (auto simp: Let_def retry_spec_def upt_conv_Cons)
  qed
qed

text \<open>One turn of the loop sends one request and ends, or sleeps and goes on.\<close>

lemma retry_loop_turn:
  assumes "attempt \<le> rc_MaxRetries rc"
  shows "(\<exists>st1 res. retry_loop rc env attempt resp lastErr st = (st1, res) \<and> rs_sent st1 = Suc (rs_sent st) \<and>
      length (rs_sleeps st1) \<le> length (rs_sleeps st) + (if attempt < rc_MaxRetries rc then 1 else 0)) \<or>
    (attempt < rc_MaxRetries rc \<and> (\<exists>d resp' err'. retry_loop rc env attempt resp lastErr st =
      retry_loop rc env (attempt + 1) resp' err' (st\<lparr>rs_sent := Suc (rs_sent st), rs_sleeps := rs_sleeps st @ [d]\<rparr>)))"
    (is "?end (retry_loop rc env attempt resp lastErr st) \<or> ?on (retry_loop rc env attempt resp lastErr st)")
proof -
  let ?st1 = "st\<lparr>rs_sent := Suc (rs_sent st)\<rparr>"
  have slept: "?end (case sleepWithContext env d ?st1 of (st2, Some err) \<Rightarrow> (st2, Done None (Some err))
        | (st2, None) \<Rightarrow> retry_loop rc env (attempt + 1) resp' err' st2) \<or>
      ?on (case sleepWithContext env d ?st1 of (st2, Some err) \<Rightarrow> (st2, Done None (Some err))
        | (st2, None) \<Rightarrow> retry_loop rc env (attempt + 1) resp' err' st2)"
    if "attempt < rc_MaxRetries rc" for d resp' err'
    using that by (cases "re_interrupted env (length (rs_sleeps st))") (simp_all add: sleepWithContext_def, blast)
  show ?thesis
  proof (cases "re_answer env (rs_sent st)")
    case (Inl e)
    show ?thesis
    proof (cases "attempt < rc_MaxRetries rc \<and> backoff_now rc env attempt ?st1 \<noteq> None")
      case True
      then obtain d where "backoff_now rc env attempt ?st1 = Some d" "attempt < rc_MaxRetries rc" by blast
      with slept [where d = d and resp' = None and err' = "Some (NetErr e)"] assms Inl show ?thesis
        unfolding retry_loop.simps [of rc env attempt] by (simp only: Let_def sum.case option.case if_True)
    next
      case False
      with assms Inl show ?thesis
        unfolding retry_loop.simps [of rc env attempt] by (auto simp: Let_def)
    qed
  next
    case (Inr r)
    let ?more = "attempt < rc_MaxRetries rc" and ?s = "hr_StatusCode r"
    consider (busy) "?s = 429" ?more | (server) d where "\<not> ?s < 500" "?s \<noteq> 429" ?more "backoff_now rc env attempt ?st1 = Some d"
      | (stop) "?s < 500 \<and> ?s \<noteq> 429 \<or> \<not> ?more \<or> ?s \<noteq> 429 \<and> backoff_now rc env attempt ?st1 = None" by (cases "backoff_now rc env attempt ?st1") auto
    then show ?thesis
    proof cases
      case busy
      with slept [where d = "parseRetryAfter env r" and resp' = "Some r" and err' = None] assms Inr show ?thesis
        unfolding retry_loop.simps [of rc env attempt] by (simp only: Let_def sum.case if_True if_False simp_thms)
    next
      case server
      with slept [where d = d and resp' = "Some r" and err' = None] assms Inr show ?thesis
        unfolding retry_loop.simps [of rc env attempt] by (simp only: Let_def sum.case option.case if_True if_False simp_thms)
    next
      case stop
      with assms Inr show ?thesis unfolding retry_loop.simps [of rc env attempt] by (auto simp: Let_def)
    qed
  qed
qed

lemma retry_loop_bounds:
  "retry_loop rc env attempt resp lastErr st = (st', res) \<Longrightarrow>
   rs_sent st' \<le> rs_sent st + nat (rc_MaxRetries rc + 1 - attempt) \<and>
   length (rs_sleeps st') \<le> length (rs_sleeps st) + nat (rc_MaxRetries rc - attempt)"
proof (induction "nat (rc_MaxRetries rc + 1 - attempt)" arbitrary: attempt resp lastErr st)
  case 0
  then show ?case by (subst (asm) retry_loop.simps) simp
next
  case (Suc m)
  then have le: "attempt \<le> rc_MaxRetries rc" by simp
  from retry_loop_turn [OF le, of env resp lastErr st] show ?case
  proof
    assume "attempt < rc_MaxRetries rc \<and> (\<exists>d resp' err'. retry_loop rc env attempt resp lastErr st =
      retry_loop rc env (attempt + 1) resp' err' (st\<lparr>rs_sent := Suc (rs_sent st), rs_sleeps := rs_sleeps st @ [d]\<rparr>))"
    then obtain d resp' err' where more: "attempt < rc_MaxRetries rc"
        "retry_loop rc env (attempt + 1) resp' err' (st\<lparr>rs_sent := Suc (rs_sent st), rs_sleeps := rs_sleeps st @ [d]\<rparr>) = (st', res)"
      using Suc.prems by auto
    moreover have "m = nat (rc_MaxRetries rc + 1 - (attempt + 1))" using Suc.hyps(2) by linarith
    ultimately show ?thesis using Suc.hyps(1) [OF _ more(2)] by (simp, linarith)
  qed (use le Suc.prems in \<open>auto split: if_splits\<close>)
qed

text \<open>
  Requests and waits are bounded.  Whatever the server answers and however the context behaves, \<open>Do\<close> sends a
  request whose method is not idempotent at most once and without waiting, and any other at most
  \<open>MaxRetries + 1\<close> times with at most \<open>MaxRetries\<close> waits between them.
\<close>

theorem retry_bounded:
  assumes "retry_Do rc env method st = (st', res)"
  shows "rs_sent st' \<le> rs_sent st + (if isIdempotentMethod method then nat (rc_MaxRetries rc + 1) else 1) \<and>
    length (rs_sleeps st') \<le> length (rs_sleeps st) + (if isIdempotentMethod method then nat (rc_MaxRetries rc) else 0)"
  using assms retry_loop_bounds [of rc env 0 None None st st' res] by (auto simp: retry_Do_def split: option.splits if_splits)

text \<open>
  C17: retrying refines its specification.  With an idempotent method, a limiter that lets the request pass, a
  context that is never done, random numbers in their range, and durations that neither overflow nor vanish (\<open>calm\<close>), \<open>Do\<close>
  returns the first answer that is neither an error of the network, nor 429, nor 5xx, among the first \<open>MaxRetries + 1\<close>; if
  there is none, the last answer as the error that belongs to it; it sends exactly that many requests, does not panic, and
  waits between consecutive ones exactly as long as specified: what \<open>Retry-After\<close> asks for after 429, and else one half
  of the exponential backoff, capped by the maximum, and a random number below that half.
\<close>

theorem retry_refines_spec:
  assumes "calm rc env" and "0 \<le> rc_MaxRetries rc" and "isIdempotentMethod method" and "re_limit env = None"
  shows "\<exists>st'. retry_Do rc env method \<lparr>rs_sent = 0, rs_sleeps = []\<rparr> = (st', snd (retry_spec rc (re_answer env) 0)) \<and>
    rs_sent st' = fst (retry_spec rc (re_answer env) 0) \<and> rs_sleeps st' = map (wait_spec rc env) [0..<rs_sent st' - 1]"
  using retry_loop_spec [OF assms(1,2), of 0 "\<lparr>rs_sent = 0, rs_sleeps = []\<rparr>" None None] assms(3,4)
  by (simp add: retry_Do_def)

definition example_reply :: "int \<Rightarrow> http_reply" where
  "example_reply code = \<lparr>hr_StatusCode = code, hr_Header = []\<rparr>"

definition flaky :: "nat \<Rightarrow> string + http_reply" where
  "flaky n = (if n = 0 then Inl ''refused'' else if n = 1 then Inr (example_reply 503) else Inr (example_reply 200))"

definition flaky_env :: retry_env where
  "flaky_env = \<lparr>re_answer = flaky, re_interrupted = (\<lambda>n. None), re_random = (\<lambda>n k. k - 1), re_limit = None,
     re_parseTime = (\<lambda>s. None), re_now = 7\<rparr>"

theorem retry_refines_spec_witness:
  "case retry_Do (NewRetryClient (\<lambda>s. None) []) flaky_env ''GET'' \<lparr>rs_sent = 0, rs_sleeps = []\<rparr> of
     (st', res) \<Rightarrow> res = Done (Some (example_reply 200)) None \<and> rs_sleeps st' = [499999999, 999999999]"
proof -
  let ?rc = "NewRetryClient (\<lambda>s. None) []"
  have rc: "?rc = \<lparr>rc_MaxRetries = 5, rc_BaseBackoff = 500000000, rc_MaxBackoff = 10000000000, rc_Limiter = True\<rparr>"
    by (simp add: NewRetryClient_def env_Int_def env_Duration_def)
  have "asked_wait flaky_env (example_reply c) = 2 * 10 ^ 9" for c
    by (simp add: asked_wait_def example_reply_def header_Get_def Atoi_empty flaky_env_def)
  then have "calm ?rc flaky_env" by (auto simp: rc calm_def jitter_ok_def flaky_env_def flaky_def split: if_splits)
  moreover have "retry_spec ?rc (re_answer flaky_env) 0 = (3, Done (Some (example_reply 200)) None)"
    by (simp add: rc retry_spec_def flaky_env_def flaky_def retriable_def example_reply_def upt_conv_Cons)
  moreover have "map (wait_spec ?rc flaky_env) [0..<2] = [499999999, 999999999]"
    by (simp add: upt_conv_Cons wait_spec_def flaky_env_def flaky_def capped_def rc example_reply_def)
  ultimately show ?thesis
    using retry_refines_spec [of ?rc flaky_env "''GET''"] by (auto simp: rc isIdempotentMethod_def flaky_env_def)
qed

theorem retry_bounded_witness:
  "rs_sent (fst (retry_Do (NewRetryClient (\<lambda>s. None) []) flaky_env ''POST'' \<lparr>rs_sent = 0, rs_sleeps = []\<rparr>)) \<le> 1"
proof -
  obtain st' res where r: "retry_Do (NewRetryClient (\<lambda>s. None) []) flaky_env ''POST'' \<lparr>rs_sent = 0, rs_sleeps = []\<rparr> = (st', res)"
    by (metis surj_pair)
  from retry_bounded [OF r] r show ?thesis by (simp add: isIdempotentMethod_def)
qed

text \<open>A negative number of retries sends nothing and returns neither a response nor an error.\<close>

theorem negative_retries_return_nothing:
  "retry_Do \<lparr>rc_MaxRetries = - 1, rc_BaseBackoff = b, rc_MaxBackoff = m, rc_Limiter = False\<rparr> env ''GET'' st = (st, Done None None)"
  by (simp add: retry_Do_def isIdempotentMethod_def, subst retry_loop.simps, simp)

section \<open>Waiting ends\<close>

lemma next_backoff_min:
  assumes "0 \<le> x" and "0 < mx" and "mx < 2 ^ 62"
  shows "next_backoff mx (min mx x) = min mx (2 * x)"
proof -
  have "int64 (min mx x * 2) = min mx x * 2" using assms by (intro int64_id) auto
  with assms show ?thesis by (auto simp: next_backoff_def Let_def)
qed

definition wait_at :: "duration \<Rightarrow> duration \<Rightarrow> nat \<Rightarrow> duration" where
  "wait_at mx i k = min mx (i * 2 ^ k)"

lemma until_loop_runs:
  assumes "\<forall>j < k. (\<exists>e. check j = Inl e) \<and> ended j = None" and "0 < i" and "0 < mx" and "mx < 2 ^ 62"
  shows "until_loop check ended mx 0 (wait_at mx i 0) [] =
    until_loop check ended mx k (wait_at mx i k) (map (wait_at mx i) [0..<k])"
  using assms(1)
proof (induction k)
  case (Suc k)
  then obtain e where "check k = Inl e" "ended k = None" by auto
  moreover have "next_backoff mx (wait_at mx i k) = wait_at mx i (Suc k)"
    using next_backoff_min [of "i * 2 ^ k" mx] assms(2-4) by (simp add: wait_at_def mult.left_commute)
  ultimately have "until_loop check ended mx k (wait_at mx i k) (map (wait_at mx i) [0..<k]) =
      until_loop check ended mx (Suc k) (wait_at mx i (Suc k)) (map (wait_at mx i) [0..<Suc k])"
    by (subst until_loop.simps) simp
  with Suc show ?case by simp
qed simp

text \<open>
  C40: waiting ends with the check or with the context.  If the \<open>k\<close>th check is the first to succeed and the context is not done
  in the waits before it, \<open>UntilWithOptions\<close> returns its value after exactly \<open>k\<close> waits, the \<open>i\<close>th of which takes
  \<open>min(max, initial * 2^i)\<close> with the defaults filled in; if the context is done in the \<open>k\<close>th wait, it returns the
  error of the context.
\<close>

theorem UntilWithOptions_returns:
  assumes "\<forall>j < k. (\<exists>e. check j = Inl e) \<and> ended j = None" and "opts' = normalise_options opts" and "wo_MaxBackoff opts' < 2 ^ 62"
    and "(\<exists>v. check k = Inr v) \<or> (\<exists>e err. check k = Inl e \<and> ended k = Some err)"
  shows "UntilWithOptions (Some check) ended opts =
    Some (map (\<lambda>i. min (wo_MaxBackoff opts') (wo_InitialBackoff opts' * 2 ^ i)) [0..<k],
          case check k of Inr v \<Rightarrow> Inr v | Inl e \<Rightarrow> Inl (the (ended k)))"
proof -
  have o': "0 < wo_InitialBackoff opts'" "0 < wo_MaxBackoff opts'" "wo_InitialBackoff opts' \<le> wo_MaxBackoff opts'"
    by (auto simp: assms(2) normalise_options_def Let_def)
  have "wait_at (wo_MaxBackoff opts') (wo_InitialBackoff opts') 0 = wo_InitialBackoff opts'" using o'(3) by (simp add: wait_at_def)
  with until_loop_runs [OF assms(1) o'(1,2) assms(3)] assms(2)
  have "UntilWithOptions (Some check) ended opts =
      until_loop check ended (wo_MaxBackoff opts') k (wait_at (wo_MaxBackoff opts') (wo_InitialBackoff opts') k)
        (map (wait_at (wo_MaxBackoff opts') (wo_InitialBackoff opts')) [0..<k])" by (simp add: UntilWithOptions_def Let_def)
  with assms(4) show ?thesis by (subst (asm) until_loop.simps) (auto simp: wait_at_def)
qed

theorem UntilWithOptions_returns_witness:
  "Until (Some (\<lambda>n. if n = 2 then Inr True else Inl ''down'')) (\<lambda>n. None) = Some ([1000000000, 2000000000], Inr True)"
  using UntilWithOptions_returns [of 2 "\<lambda>n. if n = 2 then Inr True else Inl ''down''" "\<lambda>n. None"
      "normalise_options \<lparr>wo_InitialBackoff = 0, wo_MaxBackoff = 0\<rparr>" "\<lparr>wo_InitialBackoff = 0, wo_MaxBackoff = 0\<rparr>"]
  by (simp add: Until_def normalise_options_def upt_conv_Cons exI [of _ True])

end
