(* ===== verification/Go_Json.thy ===== *)
theory Go_Json
  imports Go_Prelude
begin

text \<open>
  What the sources use of Go's \<open>unicode/utf8\<close> and \<open>encoding/json\<close>: the size of a UTF-8 sequence, the bytes of a
  rune, a reader of JSON text (\<open>json.Unmarshal\<close> takes the whole text, \<open>Decoder.Decode\<close> the first value of it and leaves
  what follows).

  Strings are read as \<open>encoding/json\<close> does: bytes that are not UTF-8 and lone surrogates become \<open>U+FFFD\<close>.  Numbers keep their
  text.  The limit of 10000 on the nesting of values is left out.

  The second half gives the facts that the encoder's proofs use: how the reader skips space, and which texts it reads as
  which value whatever follows them.
\<close>

section \<open>UTF-8\<close>

definition byte :: "char \<Rightarrow> nat" where
  "byte c = of_char c"

text \<open>The size of the valid UTF-8 sequence at the head of a string, as \<open>utf8.DecodeRuneInString\<close> finds it.\<close>

definition cont :: "nat \<Rightarrow> nat \<Rightarrow> char \<Rightarrow> bool" where
  "cont lo hi c = (lo \<le> byte c \<and> byte c \<le> hi)"

definition utf8_two :: "char \<Rightarrow> char \<Rightarrow> bool" where
  "utf8_two b0 b1 = (cont 0xC2 0xDF b0 \<and> cont 0x80 0xBF b1)"

definition utf8_three :: "char \<Rightarrow> char \<Rightarrow> char \<Rightarrow> bool" where
  "utf8_three b0 b1 b2 =
     (cont 0x80 0xBF b2 \<and>
      (byte b0 = 0xE0 \<and> cont 0xA0 0xBF b1 \<or> cont 0xE1 0xEC b0 \<and> cont 0x80 0xBF b1 \<or>
       byte b0 = 0xED \<and> cont 0x80 0x9F b1 \<or> cont 0xEE 0xEF b0 \<and> cont 0x80 0xBF b1))"

definition utf8_four :: "char \<Rightarrow> char \<Rightarrow> char \<Rightarrow> char \<Rightarrow> bool" where
  "utf8_four b0 b1 b2 b3 =
     (cont 0x80 0xBF b2 \<and> cont 0x80 0xBF b3 \<and>
      (byte b0 = 0xF0 \<and> cont 0x90 0xBF b1 \<or> cont 0xF1 0xF3 b0 \<and> cont 0x80 0xBF b1 \<or>
       byte b0 = 0xF4 \<and> cont 0x80 0x8F b1))"

definition utf8_size :: "string \<Rightarrow> nat option" where
  "utf8_size s =
     (case s of
        b0 # b1 # bs \<Rightarrow>
          if utf8_two b0 b1 then Some 2
          else (case bs of
                  b2 # bs' \<Rightarrow>
                    if utf8_three b0 b1 b2 then Some 3
                    else (case bs' of
                            b3 # _ \<Rightarrow> if utf8_four b0 b1 b2 b3 then Some 4 else None
                          | [] \<Rightarrow> None)
                | [] \<Rightarrow> None)
      | _ \<Rightarrow> None)"

lemma utf8_size_bounds: "utf8_size s = Some n \<Longrightarrow> 2 \<le> n \<and> n \<le> length s"
  by (auto simp: utf8_size_def split: list.splits if_splits)

lemma cont_low: "cont lo hi c \<Longrightarrow> lo \<le> byte c"
  by (simp add: cont_def)

lemma utf8_size_high: "utf8_size s = Some n \<Longrightarrow> list_all (\<lambda>c. 0x80 \<le> byte c) (take n s)"
  by (auto simp: utf8_size_def utf8_two_def utf8_three_def utf8_four_def dest!: cont_low split: list.splits if_splits)

lemma utf8_size_prefix: "utf8_size s = Some n \<Longrightarrow> utf8_size (take n s @ r) = Some n"
  by (auto simp: utf8_size_def split: list.splits if_splits)

text \<open>\<open>utf8.AppendRune\<close>: the bytes of a code point, those of \<open>U+FFFD\<close> for what is none.\<close>

definition rune_error :: string where
  "rune_error = [CHR 0xEF, CHR 0xBF, CHR 0xBD]"

definition rune_bytes :: "nat \<Rightarrow> string" where
  "rune_bytes n =
     (if n < 0x80 then [char_of n]
      else if n < 0x800 then [char_of (0xC0 + n div 64), char_of (0x80 + n mod 64)]
      else if 0xD800 \<le> n \<and> n < 0xE000 then rune_error
      else if n < 0x10000 then [char_of (0xE0 + n div 4096), char_of (0x80 + n div 64 mod 64), char_of (0x80 + n mod 64)]
      else if n < 0x110000
      then [char_of (0xF0 + n div 262144), char_of (0x80 + n div 4096 mod 64), char_of (0x80 + n div 64 mod 64), char_of (0x80 + n mod 64)]
      else rune_error)"

text \<open>A byte that starts no valid sequence is read as \<open>U+FFFD\<close>.\<close>

function to_valid :: "string \<Rightarrow> string" where
  "to_valid [] = []"
| "to_valid (b # s) =
     (if byte b < 0x80 then b # to_valid s
      else (case utf8_size (b # s) of
              None \<Rightarrow> rune_error @ to_valid s
            | Some n \<Rightarrow> take n (b # s) @ to_valid (drop n (b # s))))"
  by pat_completeness auto
termination
  by (relation "measure length") (auto dest!: utf8_size_bounds)

declare to_valid.simps(2) [simp del]

section \<open>A JSON reader\<close>

datatype json = JNull | JBool bool | JNum string | JStr string | JArr "json list" | JObj "(string \<times> json) list"

text \<open>Numbers of RFC 8259: sign, integer part without leading zero, fraction, exponent.\<close>

definition json_exp :: "string \<Rightarrow> bool" where
  "json_exp r =
     (case r of
        [] \<Rightarrow> True
      | c # r' \<Rightarrow> (c = CHR ''e'' \<or> c = CHR ''E'') \<and>
          (let ds = (case r' of [] \<Rightarrow> [] | x # r'' \<Rightarrow> if x = CHR ''+'' \<or> x = CHR ''-'' then r'' else r') in
           ds \<noteq> [] \<and> list_all is_digit ds))"

definition json_frac :: "string \<Rightarrow> bool" where
  "json_frac r =
     (case r of
        [] \<Rightarrow> True
      | c # r' \<Rightarrow> if c = CHR ''.'' then takeWhile is_digit r' \<noteq> [] \<and> json_exp (dropWhile is_digit r') else json_exp r)"

definition json_int :: "string \<Rightarrow> bool" where
  "json_int r =
     (case r of
        [] \<Rightarrow> False
      | d # r' \<Rightarrow> is_digit d \<and> json_frac (if d = CHR ''0'' then r' else dropWhile is_digit r'))"

definition is_json_number :: "string \<Rightarrow> bool" where
  "is_json_number s = json_int (case s of [] \<Rightarrow> [] | c # r \<Rightarrow> if c = CHR ''-'' then r else s)"

text \<open>The text after the number at the head of a string; \<open>None\<close> when the scanner refuses it.\<close>

definition scan_exp :: "string \<Rightarrow> string option" where
  "scan_exp r =
     (case r of
        [] \<Rightarrow> Some []
      | c # r' \<Rightarrow>
          if c = CHR ''e'' \<or> c = CHR ''E''
          then let ds = (case r' of [] \<Rightarrow> [] | x # r'' \<Rightarrow> if x = CHR ''+'' \<or> x = CHR ''-'' then r'' else r') in
               if takeWhile is_digit ds = [] then None else Some (dropWhile is_digit ds)
          else Some r)"

definition scan_frac :: "string \<Rightarrow> string option" where
  "scan_frac r =
     (case r of
        [] \<Rightarrow> Some []
      | c # r' \<Rightarrow>
          if c = CHR ''.'' then (if takeWhile is_digit r' = [] then None else scan_exp (dropWhile is_digit r'))
          else scan_exp r)"

definition scan_int :: "string \<Rightarrow> string option" where
  "scan_int r =
     (case r of
        [] \<Rightarrow> None
      | d # r' \<Rightarrow> if is_digit d then scan_frac (if d = CHR ''0'' then r' else dropWhile is_digit r') else None)"

definition scan_number :: "string \<Rightarrow> string option" where
  "scan_number s = scan_int (case s of [] \<Rightarrow> [] | c # r \<Rightarrow> if c = CHR ''-'' then r else s)"

definition is_ws :: "char \<Rightarrow> bool" where
  "is_ws c = (c = CHR '' '' \<or> c = CHR 0x09 \<or> c = CHR 0x0A \<or> c = CHR 0x0D)"

definition hex_value :: "char \<Rightarrow> nat option" where
  "hex_value c =
     (case index_of ''0123456789abcdef'' c of
        Some n \<Rightarrow> Some n
      | None \<Rightarrow> index_of ''0123456789ABCDEF'' c)"

fun read_hex :: "nat \<Rightarrow> nat \<Rightarrow> string \<Rightarrow> (nat \<times> string) option" where
  "read_hex 0 acc s = Some (acc, s)"
| "read_hex (Suc n) acc [] = None"
| "read_hex (Suc n) acc (c # s) = (case hex_value c of None \<Rightarrow> None | Some d \<Rightarrow> read_hex n (acc * 16 + d) s)"

lemma read_hex_length: "read_hex n acc s = Some (x, r) \<Longrightarrow> length s = n + length r"
  by (induction n acc s rule: read_hex.induct) (auto split: option.splits)

lemma read_hex_four:
  assumes "hex_value a = Some w" "hex_value b = Some x" "hex_value c = Some y" "hex_value d = Some z"
  shows "read_hex 4 0 (a # b # c # d # r) = Some (((w * 16 + x) * 16 + y) * 16 + z, r)"
proof -
  have "(4::nat) = Suc (Suc (Suc (Suc 0)))" by simp
  then show ?thesis using assms by (simp only: read_hex.simps option.case mult_0 add_0)
qed

text \<open>The rune of \<open>\u\<close> and four digits; a surrogate pair is one rune.\<close>

definition read_u :: "string \<Rightarrow> (string \<times> string) option" where
  "read_u s =
     (case read_hex 4 0 s of
        None \<Rightarrow> None
      | Some (r, s1) \<Rightarrow>
          if 0xD800 \<le> r \<and> r < 0xE000
          then (case (if take 2 s1 = [CHR 0x5C, CHR ''u''] then read_hex 4 0 (drop 2 s1) else None) of
                  Some (r2, s2) \<Rightarrow>
                    if r < 0xDC00 \<and> 0xDC00 \<le> r2 \<and> r2 < 0xE000
                    then Some (rune_bytes (0x10000 + (r - 0xD800) * 0x400 + (r2 - 0xDC00)), s2)
                    else Some (rune_error, s1)
                | None \<Rightarrow> Some (rune_error, s1))
          else Some (rune_bytes r, s1))"

definition read_escape :: "string \<Rightarrow> (string \<times> string) option" where
  "read_escape s =
     (case s of
        [] \<Rightarrow> None
      | c # r \<Rightarrow>
          if c = CHR ''u'' then read_u r
          else map_option (\<lambda>x. ([x], r))
            (map_of [(CHR 0x22, CHR 0x22), (CHR 0x5C, CHR 0x5C), (CHR ''/'', CHR ''/''), (CHR ''b'', CHR 0x08),
                     (CHR ''f'', CHR 0x0C), (CHR ''n'', CHR 0x0A), (CHR ''r'', CHR 0x0D), (CHR ''t'', CHR 0x09)] c))"

lemma read_u_shorter: "read_u s = Some (u, r) \<Longrightarrow> length r \<le> length s"
  by (auto simp: read_u_def dest!: read_hex_length split: option.splits if_splits)

lemma read_escape_shorter: "read_escape s = Some (u, r) \<Longrightarrow> length r < length s"
  by (auto simp: read_escape_def dest!: read_u_shorter split: list.splits if_splits)

text \<open>The characters of a string up to its closing quote, and the text after it.\<close>

function read_chars :: "string \<Rightarrow> (string \<times> string) option" where
  "read_chars [] = None"
| "read_chars (c # s) =
     (if c = CHR 0x22 then Some ([], s)
      else if c = CHR 0x5C
      then (case read_escape s of None \<Rightarrow> None | Some (u, r) \<Rightarrow> map_option (apfst ((@) u)) (read_chars r))
      else if byte c < 0x20 then None
      else if byte c < 0x80 then map_option (apfst ((#) c)) (read_chars s)
      else (case utf8_size (c # s) of
              None \<Rightarrow> map_option (apfst ((@) rune_error)) (read_chars s)
            | Some n \<Rightarrow> map_option (apfst ((@) (take n (c # s)))) (read_chars (drop n (c # s)))))"
  by pat_completeness auto
termination
  by (relation "measure length") (auto dest!: read_escape_shorter utf8_size_bounds)

declare read_chars.simps(2) [simp del]

definition expect :: "char \<Rightarrow> string \<Rightarrow> string option" where
  "expect c s = (case dropWhile is_ws s of [] \<Rightarrow> None | x # r \<Rightarrow> if x = c then Some r else None)"

definition read_literal :: "string \<Rightarrow> (json \<times> string) option" where
  "read_literal s =
     (if HasPrefix s ''null'' then Some (JNull, drop 4 s)
      else if HasPrefix s ''true'' then Some (JBool True, drop 4 s)
      else if HasPrefix s ''false'' then Some (JBool False, drop 5 s)
      else map_option (\<lambda>r. (JNum (take (length s - length r) s), r)) (scan_number s))"

fun read_val :: "nat \<Rightarrow> string \<Rightarrow> (json \<times> string) option"
and read_elems :: "nat \<Rightarrow> string \<Rightarrow> (json list \<times> string) option"
and read_mems :: "nat \<Rightarrow> string \<Rightarrow> ((string \<times> json) list \<times> string) option"
where
  "read_val 0 s = None"
| "read_val (Suc n) s =
     (case dropWhile is_ws s of
        [] \<Rightarrow> None
      | c # r \<Rightarrow>
          if c = CHR ''['' then
            (case expect (CHR '']'') r of
               Some r' \<Rightarrow> Some (JArr [], r')
             | None \<Rightarrow> map_option (apfst JArr) (read_elems n r))
          else if c = CHR ''{'' then
            (case expect (CHR ''}'') r of
               Some r' \<Rightarrow> Some (JObj [], r')
             | None \<Rightarrow> map_option (apfst JObj) (read_mems n r))
          else if c = CHR 0x22 then map_option (apfst JStr) (read_chars r)
          else read_literal (c # r))"
| "read_elems 0 s = None"
| "read_elems (Suc n) s =
     (case read_val n s of
        None \<Rightarrow> None
      | Some (v, r) \<Rightarrow>
          (case expect (CHR '','') r of
             Some r' \<Rightarrow> map_option (apfst ((#) v)) (read_elems n r')
           | None \<Rightarrow> map_option (\<lambda>r'. ([v], r')) (expect (CHR '']'') r)))"
| "read_mems 0 s = None"
| "read_mems (Suc n) s =
     (case expect (CHR 0x22) s of
        None \<Rightarrow> None
      | Some r \<Rightarrow>
          (case read_chars r of
             None \<Rightarrow> None
           | Some (k, r1) \<Rightarrow>
               (case expect (CHR '':'') r1 of
                  None \<Rightarrow> None
                | Some r2 \<Rightarrow>
                    (case read_val n r2 of
                       None \<Rightarrow> None
                     | Some (v, r3) \<Rightarrow>
                         (case expect (CHR '','') r3 of
                            Some r' \<Rightarrow> map_option (apfst ((#) (k, v))) (read_mems n r')
                          | None \<Rightarrow> map_option (\<lambda>r'. ([(k, v)], r')) (expect (CHR ''}'') r3))))))"

text \<open>\<open>Decoder.Decode\<close> on the first value, and \<open>json.Unmarshal\<close> on the whole text.\<close>

definition decode_json :: "string \<Rightarrow> (json \<times> string) option" where
  "decode_json s = read_val (Suc (length s)) s"

definition read_json :: "string \<Rightarrow> json option" where
  "read_json s =
     (case decode_json s of
        Some (v, r) \<Rightarrow> if list_all is_ws r then Some v else None
      | None \<Rightarrow> None)"

section \<open>Numbers\<close>

definition number_char :: "char \<Rightarrow> bool" where
  "number_char c = (is_digit c \<or> c \<in> set ''+-.eE'')"

lemma number_char_token: "number_char c \<Longrightarrow> \<not> is_ws c \<and> c \<notin> set ''[]{},:'' \<and> c \<noteq> CHR 0x22 \<and> c \<noteq> CHR ''n'' \<and> c \<noteq> CHR ''t'' \<and> c \<noteq> CHR ''f''"
  by (auto simp: number_char_def is_ws_def is_digit_def)

lemma digits_chars: "list_all is_digit ds \<Longrightarrow> list_all number_char ds"
  by (auto simp: list_all_iff number_char_def)

lemma span_chars: "list_all number_char (dropWhile is_digit r) \<Longrightarrow> list_all number_char r"
  by (metis digits_chars list_all_append list_all_iff set_takeWhileD takeWhile_dropWhile_id)

lemma json_exp_chars: "json_exp r \<Longrightarrow> list_all number_char r"
  by (auto simp: json_exp_def Let_def number_char_def dest: digits_chars split: list.splits if_splits)

lemma json_frac_chars: "json_frac r \<Longrightarrow> list_all number_char r"
  by (auto simp: json_frac_def number_char_def dest!: json_exp_chars dest: span_chars split: list.splits if_splits)

lemma json_number_chars: "is_json_number s \<Longrightarrow> s \<noteq> [] \<and> list_all number_char s"
  by (auto simp: is_json_number_def json_int_def number_char_def dest!: json_frac_chars dest: span_chars
      split: list.splits if_splits)

lemma show_nat_head: "n \<noteq> 0 \<Longrightarrow> hd (show_nat n) \<noteq> CHR ''0''"
proof (induction n rule: show_nat.induct)
  case (1 n)
  show ?case
  proof (cases "n < 10")
    case True
    then have "digit_val (digit_char n) = n" by (rule digit_val_char)
    moreover have "digit_val (CHR ''0'') = 0" by (simp add: digit_val_def)
    ultimately show ?thesis using True \<open>n \<noteq> 0\<close> by (subst show_nat.simps) auto
  next
    case False
    with 1 show ?thesis by (subst show_nat.simps) (auto simp: hd_append)
  qed
qed

lemma json_int_show_nat: "json_int (show_nat n)"
proof (cases "n = 0")
  case True
  moreover have "json_int (show_nat 0)" by code_simp
  ultimately show ?thesis by simp
next
  case False
  obtain c cs where s: "show_nat n = c # cs" by (cases "show_nat n") auto
  with False show_nat_head [of n] show_nat_digits [of n] have "c \<noteq> CHR ''0''" "is_digit c" "dropWhile is_digit cs = []"
    by (auto simp: list_all_iff dropWhile_eq_Nil_conv simp del: dropWhile_eq_Cons_conv)
  then have "json_frac (dropWhile is_digit cs)" by (simp only: json_frac_def list.case)
  with s \<open>c \<noteq> _\<close> \<open>is_digit c\<close> show ?thesis by (simp add: json_int_def)
qed

lemma Itoa_number: "is_json_number (Itoa i)"
proof -
  obtain c cs where s: "show_nat (nat i) = c # cs" by (cases "show_nat (nat i)") auto
  then have "c \<noteq> CHR ''-''" using show_nat_hd [OF s] digit_not_punct [of c] by auto
  with s show ?thesis using json_int_show_nat [of "nat i"] json_int_show_nat [of "nat (- i)"]
    by (auto simp: Itoa_def is_json_number_def)
qed


section \<open>What the reader makes of a text\<close>

definition starts_value :: "string \<Rightarrow> bool" where
  "starts_value t = (t \<noteq> [] \<and> \<not> is_ws (hd t) \<and> hd t \<notin> set '']},:'')"

definition reads_as :: "string \<Rightarrow> json \<Rightarrow> bool" where
  "reads_as t j =
     (starts_value t \<and>
      (\<forall>fuel rest. length t \<le> fuel \<longrightarrow> (rest = [] \<or> \<not> number_char (hd rest)) \<longrightarrow> read_val fuel (t @ rest) = Some (j, rest)))"

lemma skip_ws [simp]: "list_all is_ws ws \<Longrightarrow> dropWhile is_ws (ws @ s) = dropWhile is_ws s"
  by (induction ws) auto

lemma read_val_ws: "list_all is_ws ws \<Longrightarrow> read_val n (ws @ s) = read_val n s"
  by (cases n) simp_all

lemma expect_ws: "list_all is_ws ws \<Longrightarrow> expect c (ws @ s) = expect c s"
  by (simp add: expect_def)

lemma read_elems_ws: "list_all is_ws ws \<Longrightarrow> read_elems n (ws @ s) = read_elems n s"
  by (cases n) (simp_all add: read_val_ws)

lemma read_mems_ws: "list_all is_ws ws \<Longrightarrow> read_mems n (ws @ s) = read_mems n s"
  by (cases n) (simp_all add: expect_ws)

lemma expect_hit: "\<not> is_ws c \<Longrightarrow> expect c (c # s) = Some s"
  by (simp add: expect_def)

lemma expect_miss: "\<not> is_ws x \<Longrightarrow> x \<noteq> c \<Longrightarrow> expect c (x # s) = None"
  by (simp add: expect_def)

lemma expect_value: "starts_value t \<Longrightarrow> c \<in> set '']},:'' \<Longrightarrow> expect c (t @ s) = None"
  by (cases t) (auto simp: starts_value_def expect_def)

lemma punctuation [simp]:
  "\<not> is_ws (CHR '','')" "\<not> is_ws (CHR '']'')" "\<not> is_ws (CHR ''}'')" "\<not> is_ws (CHR '':'')" "\<not> is_ws (CHR 0x22)"
  "\<not> number_char (CHR '','')" "\<not> number_char (CHR '']'')" "\<not> number_char (CHR ''}'')"
  by (simp_all add: is_ws_def number_char_def is_digit_def)

lemma hd_after_ws:
  assumes "list_all is_ws ws" "\<not> number_char c"
  shows "\<not> number_char (hd (ws @ c # s))"
  using assms by (cases ws) (auto dest: number_char_token)

lemma reads_asI:
  assumes "starts_value t"
    and "\<And>n rest. length t \<le> Suc n \<Longrightarrow> rest = [] \<or> \<not> number_char (hd rest) \<Longrightarrow> read_val (Suc n) (t @ rest) = Some (j, rest)"
  shows "reads_as t j"
  unfolding reads_as_def
proof (intro conjI allI impI)
  fix fuel rest
  assume a: "length t \<le> fuel" "rest = [] \<or> \<not> number_char (hd rest)"
  from assms(1) a(1) obtain n where "fuel = Suc n" by (cases fuel) (auto simp: starts_value_def)
  with a assms(2) show "read_val fuel (t @ rest) = Some (j, rest)" by simp
qed (rule assms(1))

lemma reads_asD:
  "reads_as t j \<Longrightarrow> length t \<le> n \<Longrightarrow> r = [] \<or> \<not> number_char (hd r) \<Longrightarrow> read_val n (t @ r) = Some (j, r)"
  unfolding reads_as_def by blast

text \<open>A number is read as a whole when no character that could continue it follows.\<close>

definition number_end :: "string \<Rightarrow> bool" where
  "number_end r = (r = [] \<or> \<not> number_char (hd r))"

lemma number_end_dropWhile: "number_end r \<Longrightarrow> dropWhile is_digit (ds @ r) = dropWhile is_digit ds @ r"
  "number_end r \<Longrightarrow> takeWhile is_digit (ds @ r) = takeWhile is_digit ds"
  by (induction ds) (cases r; auto simp: number_end_def number_char_def)+

lemma number_end_scan: "number_end r \<Longrightarrow> scan_exp r = Some r" "number_end r \<Longrightarrow> scan_frac r = Some r"
  by (cases r; auto simp: number_end_def number_char_def scan_exp_def scan_frac_def)+

lemma scan_exp_number: "json_exp t \<Longrightarrow> number_end r \<Longrightarrow> scan_exp (t @ r) = Some r"
proof (cases t)
  case (Cons c t')
  assume a: "json_exp t" "number_end r"
  have digits: "takeWhile is_digit ds \<noteq> [] \<and> dropWhile is_digit ds = []" if "ds \<noteq> []" "list_all is_digit ds" for ds
    using that by (auto simp: list_all_iff takeWhile_eq_Nil_iff)
  show ?thesis
  proof (cases t')
    case Nil
    with a Cons show ?thesis by (simp add: json_exp_def)
  next
    case (Cons x t'')
    with a \<open>t = c # t'\<close> digits [of t''] digits [of "x # t''"] show ?thesis
      by (auto simp: json_exp_def scan_exp_def Let_def number_end_dropWhile
          number_end_dropWhile(1) [of r "x # t''", simplified] number_end_dropWhile(2) [of r "x # t''", simplified] split: if_splits)
  qed
qed (simp add: number_end_scan)

lemma scan_frac_number: "json_frac t \<Longrightarrow> number_end r \<Longrightarrow> scan_frac (t @ r) = Some r"
proof (cases t)
  case Nil
  then show "number_end r \<Longrightarrow> ?thesis" by (simp add: number_end_scan)
next
  case (Cons c t')
  assume "json_frac t" "number_end r"
  with Cons scan_exp_number [of t r] show ?thesis
    by (auto simp: json_frac_def scan_frac_def number_end_dropWhile scan_exp_number split: if_splits)
qed

lemma scan_number_all:
  assumes "is_json_number t" "number_end r"
  shows "scan_number (t @ r) = Some r"
proof -
  have int: "scan_int (u @ r) = Some r" if "json_int u" for u
    using that assms(2) by (cases u) (auto simp: json_int_def scan_int_def scan_frac_number number_end_dropWhile split: if_splits)
  show ?thesis using assms(1) int [of t] int [of "tl t"]
    by (cases t) (auto simp: is_json_number_def scan_number_def json_int_def split: if_splits)
qed

lemma literal_reads: "reads_as ''null'' JNull" "reads_as ''true'' (JBool True)" "reads_as ''false'' (JBool False)"
  by (rule reads_asI; simp add: starts_value_def is_ws_def read_literal_def HasPrefix_def)+

lemma number_reads:
  assumes "is_json_number t"
  shows "reads_as t (JNum t)"
proof (rule reads_asI)
  from json_number_chars [OF assms] obtain c t' where t: "t = c # t'" "number_char c" by (cases t) auto
  then have c: "\<not> is_ws c" "c \<notin> set ''[]{},:''" "c \<noteq> CHR 0x22" "c \<noteq> CHR ''n''" "c \<noteq> CHR ''t''" "c \<noteq> CHR ''f''"
    using number_char_token by blast+
  then show "starts_value t" using t by (auto simp: starts_value_def)
  fix n and rest :: string
  assume "rest = [] \<or> \<not> number_char (hd rest)"
  then have "scan_number (t @ rest) = Some rest" by (intro scan_number_all assms) (simp add: number_end_def)
  with c t show "read_val (Suc n) (t @ rest) = Some (JNum t, rest)"
    by (simp add: read_literal_def HasPrefix_def)
qed

text \<open>The text of the elements between the brackets, after a comma unless they are the first ones.\<close>

definition elems_read :: "bool \<Rightarrow> string \<Rightarrow> json list \<Rightarrow> bool" where
  "elems_read first t js =
     (if js = [] then t = []
      else \<exists>ws t'. list_all is_ws ws \<and> t = (if first then [] else '','') @ ws @ t' \<and> starts_value t' \<and>
             (\<forall>fuel ws' rest. length t' < fuel \<longrightarrow> list_all is_ws ws' \<longrightarrow>
                read_elems fuel (t' @ ws' @ CHR '']'' # rest) = Some (js, rest)))"

definition mems_read :: "bool \<Rightarrow> string \<Rightarrow> (string \<times> json) list \<Rightarrow> bool" where
  "mems_read first t js =
     (if js = [] then t = []
      else \<exists>ws t'. list_all is_ws ws \<and> t = (if first then [] else '','') @ ws @ t' \<and> starts_value t' \<and>
             (\<forall>fuel ws' rest. length t' < fuel \<longrightarrow> list_all is_ws ws' \<longrightarrow>
                read_mems fuel (t' @ ws' @ CHR ''}'' # rest) = Some (js, rest)))"

lemma elems_read_cons:
  assumes v: "reads_as tv j" and t: "elems_read False t js" and ws: "list_all is_ws ws"
  shows "elems_read first ((if first then [] else '','') @ ws @ tv @ t) (j # js)"
proof -
  have step: "read_val n (tv @ r) = Some (j, r)" if "length tv \<le> n" "r = [] \<or> \<not> number_char (hd r)" for n r
    by (rule reads_asD [OF v that])
  have "read_elems fuel ((tv @ t) @ ws' @ CHR '']'' # rest) = Some (j # js, rest)"
    if fuel: "length (tv @ t) < fuel" and ws': "list_all is_ws ws'" for fuel ws' rest
  proof -
    obtain n where n: "fuel = Suc n" "length (tv @ t) \<le> n" using fuel by (cases fuel) auto
    show ?thesis
    proof (cases "js = []")
      case True
      with t have "t = []" by (simp add: elems_read_def)
      with n True ws' step [of n "ws' @ CHR '']'' # rest"] show ?thesis
        by (simp add: hd_after_ws expect_ws expect_hit expect_miss)
    next
      case False
      with t obtain ws2 t' where t': "list_all is_ws ws2" "t = '','' @ ws2 @ t'"
        "\<And>fuel ws' rest. length t' < fuel \<Longrightarrow> list_all is_ws ws' \<Longrightarrow> read_elems fuel (t' @ ws' @ CHR '']'' # rest) = Some (js, rest)"
        by (auto simp: elems_read_def)
      with n ws' step [of n "t @ ws' @ CHR '']'' # rest"] show ?thesis
        by (simp add: expect_hit read_elems_ws)
    qed
  qed
  moreover have "starts_value (tv @ t)" using v by (cases tv) (auto simp: reads_as_def starts_value_def)
  ultimately show ?thesis using ws unfolding elems_read_def by auto
qed

lemma mems_read_cons:
  assumes v: "reads_as tv j" and t: "mems_read False t js" and ws: "list_all is_ws ws" and sp: "list_all is_ws sp"
    and q: "\<And>r. read_chars (qs @ r) = Some (k, r)"
  shows "mems_read first ((if first then [] else '','') @ ws @ ([CHR 0x22] @ qs) @ '':'' @ sp @ tv @ t)
           ((k, j) # js)"
proof -
  have step: "read_val n (sp @ tv @ r) = Some (j, r)" if "length tv \<le> n" "r = [] \<or> \<not> number_char (hd r)" for n r
    using reads_asD [OF v that] by (simp add: read_val_ws sp)
  let ?u = "([CHR 0x22] @ qs) @ '':'' @ sp @ tv @ t"
  have "read_mems fuel (?u @ ws' @ CHR ''}'' # rest) = Some ((k, j) # js, rest)"
    if fuel: "length ?u < fuel" and ws': "list_all is_ws ws'" for fuel ws' rest
  proof -
    obtain n where n: "fuel = Suc n" "length (tv @ t) \<le> n" using fuel by (cases fuel) auto
    show ?thesis
    proof (cases "js = []")
      case True
      with t have "t = []" by (simp add: mems_read_def)
      with n True ws' step [of n "ws' @ CHR ''}'' # rest"] show ?thesis
        by (simp add: hd_after_ws expect_ws expect_hit expect_miss q)
    next
      case False
      with t obtain ws2 t' where t': "list_all is_ws ws2" "t = '','' @ ws2 @ t'"
        "\<And>fuel ws' rest. length t' < fuel \<Longrightarrow> list_all is_ws ws' \<Longrightarrow> read_mems fuel (t' @ ws' @ CHR ''}'' # rest) = Some (js, rest)"
        by (auto simp: mems_read_def)
      with n ws' step [of n "t @ ws' @ CHR ''}'' # rest"] show ?thesis
        by (simp add: expect_hit read_mems_ws q)
    qed
  qed
  moreover have "starts_value ?u" by (simp add: starts_value_def)
  ultimately show ?thesis using ws unfolding mems_read_def by auto
qed

lemma array_reads:
  assumes "elems_read True t js" "list_all is_ws ws"
  shows "reads_as (''['' @ t @ (if js \<noteq> [] then ws else []) @ '']'') (JArr js)"
proof (rule reads_asI)
  show "starts_value (''['' @ t @ (if js \<noteq> [] then ws else []) @ '']'')" by (simp add: starts_value_def is_ws_def)
  fix n and rest :: string
  assume n: "length (''['' @ t @ (if js \<noteq> [] then ws else []) @ '']'') \<le> Suc n"
  have open_bracket: "\<not> is_ws (CHR ''['')" by (simp add: is_ws_def)
  show "read_val (Suc n) ((''['' @ t @ (if js \<noteq> [] then ws else []) @ '']'') @ rest) = Some (JArr js, rest)"
  proof (cases "js = []")
    case True
    with assms show ?thesis by (simp add: open_bracket elems_read_def expect_hit)
  next
    case False
    with assms(1) obtain ws1 t' where t: "list_all is_ws ws1" "t = ws1 @ t'" "starts_value t'"
      "\<And>fuel ws' rest. length t' < fuel \<Longrightarrow> list_all is_ws ws' \<Longrightarrow> read_elems fuel (t' @ ws' @ CHR '']'' # rest) = Some (js, rest)"
      by (auto simp: elems_read_def)
    with False n assms(2) show ?thesis by (simp add: open_bracket expect_ws expect_value read_elems_ws)
  qed
qed

lemma object_reads:
  assumes "mems_read True t js" "list_all is_ws ws"
  shows "reads_as (''{'' @ t @ (if js \<noteq> [] then ws else []) @ ''}'') (JObj js)"
proof (rule reads_asI)
  show "starts_value (''{'' @ t @ (if js \<noteq> [] then ws else []) @ ''}'')" by (simp add: starts_value_def is_ws_def)
  fix n and rest :: string
  assume n: "length (''{'' @ t @ (if js \<noteq> [] then ws else []) @ ''}'') \<le> Suc n"
  have open_brace: "\<not> is_ws (CHR ''{'')" by (simp add: is_ws_def)
  show "read_val (Suc n) ((''{'' @ t @ (if js \<noteq> [] then ws else []) @ ''}'') @ rest) = Some (JObj js, rest)"
  proof (cases "js = []")
    case True
    with assms show ?thesis by (simp add: open_brace mems_read_def expect_hit)
  next
    case False
    with assms(1) obtain ws1 t' where t: "list_all is_ws ws1" "t = ws1 @ t'" "starts_value t'"
      "\<And>fuel ws' rest. length t' < fuel \<Longrightarrow> list_all is_ws ws' \<Longrightarrow> read_mems fuel (t' @ ws' @ CHR ''}'' # rest) = Some (js, rest)"
      by (auto simp: mems_read_def)
    with False n assms(2) show ?thesis by (simp add: open_brace expect_ws expect_value read_mems_ws)
  qed
qed

end
