(* ===== verification/Jq_Encoder.thy ===== *)
theory Jq_Encoder
  imports Go_Json Complex_Main "HOL-Library.Multiset"
begin

text \<open>
  \<open>jqutil/encoder.go\<close>: the JSON encoder behind the jq binding.

  The buffer is a byte string that grows at its end; the writer \<open>out\<close> is never set in the package, so \<open>flush\<close> returns
  at its first test.  \<open>None\<close> is the panic on a value of another type.  Floating point values are the
  finite ones, the two infinities and not-a-number; \<open>appendFloat\<close> is \<open>strconv.AppendFloat\<close> with the shortest
  precision, an argument.

  Shown: the loop that copies runs of plain bytes writes what the definition byte by byte says, indentation by
  doubling writes the right number of characters, and the text of every value is read back by a JSON reader as that
  value, with members sorted and invalid UTF-8 replaced.
\<close>

section \<open>Model\<close>

datatype go_float = FNaN | FInf bool | FNegZero | FFin rat

datatype jqvalue =
    VNil
  | VBool bool
  | VInt int
  | VInt64 int
  | VInt32 int
  | VFloat go_float
  | VNumber string
  | VBigInt int
  | VString string
  | VArray "jqvalue list"
  | VObject "(string \<times> jqvalue) list"
  | VOther string

record encoder_config =
  ec_tab :: bool
  ec_indent :: int

definition newEncoder :: "bool \<Rightarrow> int \<Rightarrow> encoder_config" where
  "newEncoder tab ind = \<lparr>ec_tab = tab, ec_indent = ind\<rparr>"

definition hexdigit :: "nat \<Rightarrow> char" where
  "hexdigit n = ''0123456789abcdef'' ! n"

definition is_plain :: "char \<Rightarrow> bool" where
  "is_plain b = (CHR '' '' \<le> b \<and> b \<le> CHR ''~'' \<and> b \<noteq> CHR 0x22 \<and> b \<noteq> CHR 0x5C)"

definition escape_byte :: "char \<Rightarrow> string" where
  "escape_byte b =
     (if b = CHR 0x22 then [CHR 0x5C, CHR 0x22]
      else if b = CHR 0x5C then [CHR 0x5C, CHR 0x5C]
      else if b = CHR 0x08 then [CHR 0x5C, CHR ''b'']
      else if b = CHR 0x0C then [CHR 0x5C, CHR ''f'']
      else if b = CHR 0x0A then [CHR 0x5C, CHR ''n'']
      else if b = CHR 0x0D then [CHR 0x5C, CHR ''r'']
      else if b = CHR 0x09 then [CHR 0x5C, CHR ''t'']
      else [CHR 0x5C, CHR ''u'', CHR ''0'', CHR ''0'', hexdigit (byte b div 16), hexdigit (byte b mod 16)])"

definition replacement :: string where
  "replacement = [CHR 0x5C, CHR ''u'', CHR ''f'', CHR ''f'', CHR ''f'', CHR ''d'']"

text \<open>The loop of \<open>encodeString\<close>: \<open>i\<close> scans, and the bytes from \<open>start\<close> to \<open>i\<close> are written when something else has to be.\<close>

function encode_loop :: "string \<Rightarrow> nat \<Rightarrow> nat \<Rightarrow> string \<Rightarrow> string" where
  "encode_loop s start i w =
     (if i < length s
      then let b = s ! i; w' = (if start < i then w @ take (i - start) (drop start s) else w) in
           if byte b < 0x80
           then if is_plain b then encode_loop s start (i + 1) w
                else encode_loop s (i + 1) (i + 1) (w' @ escape_byte b)
           else (case utf8_size (drop i s) of
                   None \<Rightarrow> encode_loop s (i + 1) (i + 1) (w' @ replacement)
                 | Some size' \<Rightarrow> encode_loop s start (i + size') w)
      else if start < length s then w @ drop start s else w)"
  by pat_completeness auto
termination
  by (relation "measure (\<lambda>(s, start, i, w). length s - i)") (auto dest!: utf8_size_bounds)

declare encode_loop.simps [simp del]

definition encodeString :: "string \<Rightarrow> string \<Rightarrow> string" where
  "encodeString s w = encode_loop s 0 0 (w @ [CHR 0x22]) @ [CHR 0x22]"

text \<open>\<open>math.MaxFloat64\<close>.\<close>

definition max_float :: rat where
  "max_float = (2 ^ 53 - 1) * 2 ^ 971"

text \<open>A one-digit exponent of the form \<open>e-09\<close> loses its zero.\<close>

definition clean_exponent :: "string \<Rightarrow> string" where
  "clean_exponent buf =
     (let n = length buf in
      if n \<ge> 4 \<and> buf ! (n - 4) = CHR ''e'' \<and> buf ! (n - 3) = CHR ''-'' \<and> buf ! (n - 2) = CHR ''0''
      then take (n - 2) buf @ [buf ! (n - 1)] else buf)"

definition clamp_float :: "go_float \<Rightarrow> go_float" where
  "clamp_float f =
     (case f of
        FInf neg \<Rightarrow> FFin (if neg then - max_float else max_float)
      | FFin r \<Rightarrow> FFin (if r \<ge> max_float then max_float else if r \<le> - max_float then - max_float else r)
      | _ \<Rightarrow> f)"

definition abs_float :: "go_float \<Rightarrow> rat" where
  "abs_float f = (case f of FFin r \<Rightarrow> \<bar>r\<bar> | _ \<Rightarrow> 0)"

definition float_text :: "(go_float \<Rightarrow> char \<Rightarrow> string) \<Rightarrow> go_float \<Rightarrow> string" where
  "float_text appendFloat f =
     (if f = FNaN then ''null''
      else let f' = clamp_float f; x = abs_float f';
               format = (if x \<noteq> 0 \<and> x < 1 / 10 ^ 6 \<or> x \<ge> 10 ^ 21 then CHR ''e'' else CHR ''f'');
               buf = appendFloat f' format
           in if format = CHR ''e'' then clean_exponent buf else buf)"

definition encodeFloat64 :: "(go_float \<Rightarrow> char \<Rightarrow> string) \<Rightarrow> go_float \<Rightarrow> string \<Rightarrow> string" where
  "encodeFloat64 appendFloat f w = w @ float_text appendFloat f"

text \<open>The loop of \<open>writeIndentInternal\<close> appends a copy of the end of the buffer, doubling its length.\<close>

function indent_loop :: "string \<Rightarrow> int \<Rightarrow> int \<Rightarrow> string" where
  "indent_loop w n l =
     (if n > 0 \<and> l > 0
      then let l' = (if n < l then n else l) in
           indent_loop (w @ drop (length w - nat l') w) (n - l') (l' * 2)
      else w)"
  by pat_completeness auto
termination
  by (relation "measure (\<lambda>(w, n, l). nat n)") (auto simp: Let_def)

declare indent_loop.simps [simp del]

definition writeIndentInternal :: "int \<Rightarrow> string \<Rightarrow> string \<Rightarrow> string" where
  "writeIndentInternal n spaces w =
     (let l = int (length spaces) in
      if n \<le> l then w @ take (nat n) spaces else indent_loop (w @ spaces) (n - l) l)"

definition writeIndent :: "encoder_config \<Rightarrow> int \<Rightarrow> string \<Rightarrow> string" where
  "writeIndent e depth w =
     (let w' = w @ [CHR 0x0A] in
      if depth > 0
      then writeIndentInternal depth (if ec_tab e then replicate 16 (CHR 0x09) else replicate 32 (CHR '' '')) w'
      else w')"

definition newline :: "encoder_config \<Rightarrow> int \<Rightarrow> string \<Rightarrow> string" where
  "newline e depth w = (if ec_indent e \<noteq> 0 then writeIndent e depth w else w)"

lemma size_sorted_members: "size_list f (sort_key fst kvs) = size_list f kvs"
  for kvs :: "(string \<times> 'b) list"
  by (metis mset_map mset_sort size_list_conv_sum_list size_mset sum_mset_sum_list)

text \<open>
  \<open>encode\<close> with \<open>encodeArray\<close> and \<open>encodeObject\<close>: \<open>first\<close> tells whether the element is the first one.  The depth is
  raised for the elements; the state it leaves is the one it found.
\<close>

function (sequential)
  jq_encode :: "(go_float \<Rightarrow> char \<Rightarrow> string) \<Rightarrow> encoder_config \<Rightarrow> int \<Rightarrow> jqvalue \<Rightarrow> string \<Rightarrow> string option" and
  encode_elements :: "(go_float \<Rightarrow> char \<Rightarrow> string) \<Rightarrow> encoder_config \<Rightarrow> int \<Rightarrow> bool \<Rightarrow> jqvalue list \<Rightarrow> string \<Rightarrow> string option" and
  encode_members :: "(go_float \<Rightarrow> char \<Rightarrow> string) \<Rightarrow> encoder_config \<Rightarrow> int \<Rightarrow> bool \<Rightarrow> (string \<times> jqvalue) list \<Rightarrow> string \<Rightarrow> string option"
where
  "jq_encode af e depth VNil w = Some (w @ ''null'')"
| "jq_encode af e depth (VBool b) w = Some (w @ (if b then ''true'' else ''false''))"
| "jq_encode af e depth (VInt i) w = Some (w @ Itoa i)"
| "jq_encode af e depth (VInt64 i) w = Some (w @ Itoa i)"
| "jq_encode af e depth (VInt32 i) w = Some (w @ Itoa i)"
| "jq_encode af e depth (VFloat f) w = Some (encodeFloat64 af f w)"
| "jq_encode af e depth (VNumber s) w = Some (if s \<noteq> [] then w @ s else w @ ''null'')"
| "jq_encode af e depth (VBigInt i) w = Some (w @ Itoa i)"
| "jq_encode af e depth (VString s) w = Some (encodeString s w)"
| "jq_encode af e depth (VArray vs) w =
     map_option (\<lambda>w'. (if vs \<noteq> [] then newline e depth w' else w') @ '']'')
       (encode_elements af e (depth + ec_indent e) True vs (w @ ''[''))"
| "jq_encode af e depth (VObject kvs) w =
     map_option (\<lambda>w'. (if kvs \<noteq> [] then newline e depth w' else w') @ ''}'')
       (encode_members af e (depth + ec_indent e) True (sort_key fst kvs) (w @ ''{''))"
| "jq_encode af e depth (VOther ty) w = None"
| "encode_elements af e depth first [] w = Some w"
| "encode_elements af e depth first (v # vs) w =
     (case jq_encode af e depth v (newline e depth (if first then w else w @ '','')) of
        None \<Rightarrow> None
      | Some w' \<Rightarrow> encode_elements af e depth False vs w')"
| "encode_members af e depth first [] w = Some w"
| "encode_members af e depth first ((k, v) # kvs) w =
     (case jq_encode af e depth v
        ((encodeString k (newline e depth (if first then w else w @ '',''))) @ '':'' @ (if ec_indent e \<noteq> 0 then '' '' else [])) of
        None \<Rightarrow> None
      | Some w' \<Rightarrow> encode_members af e depth False kvs w')"
  by pat_completeness auto
termination
  by (relation "measure (\<lambda>x. case x of
        Inl (af, e, d, v, w) \<Rightarrow> size v
      | Inr (Inl (af, e, d, f, vs, w)) \<Rightarrow> size_list size vs
      | Inr (Inr (af, e, d, f, kvs, w)) \<Rightarrow> size_list (size_prod (\<lambda>_. 0) size) kvs)")
    (auto simp: size_sorted_members)

section \<open>The text of a string\<close>

text \<open>What a JSON string holds, byte by byte.\<close>

function quote_chars :: "string \<Rightarrow> string" where
  "quote_chars [] = []"
| "quote_chars (b # s) =
     (if byte b < 0x80 then (if is_plain b then [b] else escape_byte b) @ quote_chars s
      else (case utf8_size (b # s) of
              None \<Rightarrow> replacement @ quote_chars s
            | Some n \<Rightarrow> take n (b # s) @ quote_chars (drop n (b # s))))"
  by pat_completeness auto
termination
  by (relation "measure length") (auto dest!: utf8_size_bounds)

declare quote_chars.simps(2) [simp del]

lemma take_pending: "start \<le> i \<Longrightarrow> (if start < i then w @ take (i - start) (drop start s) else w) = w @ take (i - start) (drop start s)"
  by simp

lemma take_extend: "start \<le> i \<Longrightarrow> i + n \<le> length s \<Longrightarrow>
    take (i + n - start) (drop start s) = take (i - start) (drop start s) @ take n (drop i s)"
proof -
  assume "start \<le> i" "i + n \<le> length s"
  then have "i + n - start = (i - start) + n" "drop (i - start) (drop start s) = drop i s" by simp_all
  then show ?thesis by (simp only: take_add)
qed

lemma encode_loop_text:
  "start \<le> i \<Longrightarrow> i \<le> length s \<Longrightarrow>
     encode_loop s start i w = w @ take (i - start) (drop start s) @ quote_chars (drop i s)"
proof (induction s start i w rule: encode_loop.induct)
  case (1 s start i w)
  show ?case
  proof (cases "i < length s")
    case False
    with 1(5) show ?thesis by (subst encode_loop.simps) auto
  next
    case True
    then have d: "drop i s = s ! i # drop (Suc i) s" by (rule Cons_nth_drop_Suc [symmetric])
    note IH = 1(1-3)[OF True refl refl]
    consider "byte (s ! i) < 0x80" "is_plain (s ! i)" | "byte (s ! i) < 0x80" "\<not> is_plain (s ! i)"
      | "\<not> byte (s ! i) < 0x80" "utf8_size (drop i s) = None"
      | n where "\<not> byte (s ! i) < 0x80" "utf8_size (drop i s) = Some n" by fastforce
    then show ?thesis
    proof cases
      case 1
      have "take (i + 1 - start) (drop start s) = take (i - start) (drop start s) @ [s ! i]"
        using take_extend [of start i 1 s] \<open>start \<le> i\<close> True d by simp
      with 1 IH(1) \<open>start \<le> i\<close> True d show ?thesis
        by (subst encode_loop.simps) (simp add: quote_chars.simps)
    next
      case 2
      with IH(2) \<open>start \<le> i\<close> True d show ?thesis
        by (subst encode_loop.simps) (simp add: quote_chars.simps)
    next
      case 3
      with IH(3) \<open>start \<le> i\<close> True d show ?thesis
        by (subst encode_loop.simps) (simp add: quote_chars.simps)
    next
      case 4
      have "i + n \<le> length s" using utf8_size_bounds [OF 4(2)] True by auto
      moreover have "drop (i + n) s = drop n (s ! i # drop (Suc i) s)" by (metis d add.commute drop_drop)
      ultimately show ?thesis using 4 1(4)[OF True refl refl] \<open>start \<le> i\<close> True d take_extend [of start i n s]
        by (subst encode_loop.simps) (simp add: quote_chars.simps add.commute Let_def)
    qed
  qed
qed

lemma encodeString_text: "encodeString s w = w @ [CHR 0x22] @ quote_chars s @ [CHR 0x22]"
  by (simp add: encodeString_def encode_loop_text)

section \<open>Indentation\<close>

lemma indent_loop_text:
  "0 \<le> n \<Longrightarrow> 0 < l \<Longrightarrow> nat l \<le> k \<Longrightarrow> indent_loop (w @ replicate k c) n l = w @ replicate (k + nat n) c"
proof (induction "nat n" arbitrary: n l k rule: less_induct)
  case less
  show ?case
  proof (cases "n = 0")
    case True
    then show ?thesis by (simp add: indent_loop.simps)
  next
    case False
    define l' where "l' = (if n < l then n else l)"
    have l': "0 < l'" "l' \<le> n" "nat l' \<le> k" using less.prems False by (auto simp: l'_def)
    have "drop (length (w @ replicate k c) - nat l') (w @ replicate k c) = replicate (nat l') c"
      using l' by simp
    then have "indent_loop (w @ replicate k c) n l = indent_loop (w @ replicate (k + nat l') c) (n - l') (l' * 2)"
      using less.prems False by (subst indent_loop.simps) (simp add: l'_def Let_def replicate_add)
    also have "\<dots> = w @ replicate (k + nat l' + nat (n - l')) c"
      by (rule less.hyps) (use l' in auto)
    finally show ?thesis using l' by (simp add: nat_diff_distrib)
  qed
qed

definition indent_char :: "encoder_config \<Rightarrow> char" where
  "indent_char e = (if ec_tab e then CHR 0x09 else CHR '' '')"

lemma writeIndent_text: "writeIndent e depth w = w @ CHR 0x0A # replicate (nat depth) (indent_char e)"
proof -
  have *: "writeIndentInternal n (replicate k c) w' = w' @ replicate (nat n) c" if "0 < n" "0 < k" for n k c w'
    using that indent_loop_text [of "n - int k" "int k" k w' c]
    by (auto simp: writeIndentInternal_def Let_def nat_diff_distrib)
  show ?thesis by (simp add: writeIndent_def indent_char_def Let_def * del: replicate.simps(2))
qed

definition newline_text :: "encoder_config \<Rightarrow> int \<Rightarrow> string" where
  "newline_text e depth = (if ec_indent e \<noteq> 0 then CHR 0x0A # replicate (nat depth) (indent_char e) else [])"

lemma newline_append: "newline e depth w = w @ newline_text e depth"
  by (simp add: newline_def newline_text_def writeIndent_text)

section \<open>Reading a string back\<close>

lemma read_chars_plain: "byte c < 0x80 \<Longrightarrow> is_plain c \<Longrightarrow> read_chars (c # r) = map_option (apfst ((#) c)) (read_chars r)"
  by (auto simp: read_chars.simps is_plain_def byte_def less_eq_char_def)

lemma read_chars_rune:
  assumes "\<not> byte b < 0x80" "utf8_size (b # s) = Some n"
  shows "read_chars (take n (b # s) @ r) = map_option (apfst ((@) (take n (b # s)))) (read_chars r)"
proof -
  have n: "2 \<le> n" "n \<le> length (b # s)" using utf8_size_bounds [OF assms(2)] by auto
  then obtain t where t: "take n (b # s) = b # t" by (cases n) auto
  have "b \<noteq> CHR 0x22" "b \<noteq> CHR 0x5C" "\<not> byte b < 0x20" using assms(1) by (auto simp: byte_def)
  moreover have "utf8_size (b # t @ r) = Some n" using utf8_size_prefix [OF assms(2), of r] t by simp
  moreover have "length (b # t) = n" using t n by (metis length_take min.absorb2)
  ultimately show ?thesis using assms(1) unfolding t by (auto simp: read_chars.simps)
qed

lemma read_chars_backslash:
  "read_escape s = Some (u, r) \<Longrightarrow> read_chars (CHR 0x5C # s) = map_option (apfst ((@) u)) (read_chars r)"
  by (simp add: read_chars.simps)

lemma hexdigit_value: "n < 16 \<Longrightarrow> hex_value (hexdigit n) = Some n"
proof -
  assume "n < 16"
  then have "index_of ''0123456789abcdef'' (hexdigit n) = Some n"
    unfolding hexdigit_def by (intro index_of_nth) simp_all
  then show ?thesis unfolding hex_value_def by (simp only: option.case)
qed

lemma escape_hex:
  "byte c < 0x80 \<Longrightarrow> read_hex 4 0 (CHR ''0'' # CHR ''0'' # hexdigit (byte c div 16) # hexdigit (byte c mod 16) # r) = Some (byte c, r)"
  "byte c < 0x80 \<Longrightarrow> rune_bytes (byte c) = [c]"
proof -
  assume b: "byte c < 0x80"
  have z: "hex_value (CHR ''0'') = Some 0" by (simp add: hex_value_def)
  have h: "hex_value (hexdigit (byte c div 16)) = Some (byte c div 16)"
    and l: "hex_value (hexdigit (byte c mod 16)) = Some (byte c mod 16)"
    using b by (simp_all add: hexdigit_value)
  show "read_hex 4 0 (CHR ''0'' # CHR ''0'' # hexdigit (byte c div 16) # hexdigit (byte c mod 16) # r) = Some (byte c, r)"
    using read_hex_four [OF z z h l, of r] by simp
  show "rune_bytes (byte c) = [c]" using b by (simp add: rune_bytes_def byte_def)
qed

lemma replacement_hex: "read_hex 4 0 (CHR ''f'' # CHR ''f'' # CHR ''f'' # CHR ''d'' # r) = Some (65533, r)"
proof -
  have f: "hex_value (CHR ''f'') = Some 15" and d: "hex_value (CHR ''d'') = Some 13" by (simp_all add: hex_value_def)
  show ?thesis using read_hex_four [OF f f f d, of r] by simp
qed

lemma read_escape_byte:
  assumes "byte c < 0x80" "\<not> is_plain c"
  obtains e where "escape_byte c = CHR 0x5C # e" "\<And>r. read_escape (e @ r) = Some ([c], r)"
proof (cases "c \<in> {CHR 0x22, CHR 0x5C, CHR 0x08, CHR 0x0C, CHR 0x0A, CHR 0x0D, CHR 0x09}")
  case True
  then have "escape_byte c = CHR 0x5C # tl (escape_byte c) \<and> (\<forall>r. read_escape (tl (escape_byte c) @ r) = Some ([c], r))"
    unfolding insert_iff empty_iff by (elim disjE) (simp_all add: escape_byte_def read_escape_def)
  with that show ?thesis by blast
next
  case False
  let ?h = "hexdigit (byte c div 16)" and ?l = "hexdigit (byte c mod 16)"
  have "read_escape ((''u00'' @ [?h, ?l]) @ r) = Some ([c], r)" for r
    using assms(1) by (simp add: read_escape_def read_u_def escape_hex)
  with False that show ?thesis by (simp add: escape_byte_def)
qed

lemma read_chars_escape:
  assumes "byte c < 0x80" "\<not> is_plain c"
  shows "read_chars (escape_byte c @ r) = map_option (apfst ((#) c)) (read_chars r)"
proof -
  obtain e where "escape_byte c = CHR 0x5C # e" "read_escape (e @ r) = Some ([c], r)"
    using read_escape_byte [OF assms] by blast
  moreover have "(@) [c] = (#) c" by (rule ext) simp
  ultimately show ?thesis by (simp add: read_chars_backslash)
qed

lemma rune_bytes_error: "rune_bytes 65533 = rune_error"
proof -
  have "char_of (239::nat) = CHR 0xEF" "char_of (191::nat) = CHR 0xBF" "char_of (189::nat) = CHR 0xBD"
    by code_simp+
  then show ?thesis by (simp add: rune_bytes_def rune_error_def)
qed

lemma read_chars_replacement:
  "read_chars (replacement @ r) = map_option (apfst ((@) rune_error)) (read_chars r)"
proof -
  have "read_u (''fffd'' @ r) = Some (rune_error, r)"
    by (simp add: read_u_def rune_bytes_error replacement_hex)
  then show ?thesis by (simp add: replacement_def read_chars_backslash read_escape_def)
qed

lemma read_chars_quote: "read_chars (quote_chars s @ CHR 0x22 # r) = Some (to_valid s, r)"
proof (induction s rule: quote_chars.induct)
  case 1
  show ?case by (simp add: read_chars.simps)
next
  case (2 b s)
  consider "byte b < 0x80" "is_plain b" | "byte b < 0x80" "\<not> is_plain b"
    | "\<not> byte b < 0x80" "utf8_size (b # s) = None"
    | n where "\<not> byte b < 0x80" "utf8_size (b # s) = Some n" by fastforce
  then show ?case
  proof cases
    case 1
    with 2(1) show ?thesis by (simp add: quote_chars.simps to_valid.simps read_chars_plain)
  next
    case 2
    with \<open>byte b < 0x80 \<Longrightarrow> _\<close> show ?thesis
      by (simp add: quote_chars.simps to_valid.simps read_chars_escape)
  next
    case 3
    with 2(2) show ?thesis by (simp add: quote_chars.simps to_valid.simps read_chars_replacement)
  next
    case 4
    from read_chars_rune [OF this]
    4 2(3) show ?thesis by (simp add: quote_chars.simps to_valid.simps)
  qed
qed

text \<open>Dropping the zero of \<open>e-09\<close> keeps a number a number.\<close>

lemma span_e: "dropWhile is_digit (p @ CHR ''e'' # x) = dropWhile is_digit p @ CHR ''e'' # x"
  "takeWhile is_digit (p @ CHR ''e'' # x) = takeWhile is_digit p"
proof -
  have "\<not> is_digit (CHR ''e'')" by (simp add: is_digit_def)
  then show "dropWhile is_digit (p @ CHR ''e'' # x) = dropWhile is_digit p @ CHR ''e'' # x"
    "takeWhile is_digit (p @ CHR ''e'' # x) = takeWhile is_digit p"
    by (induction p) auto
qed

lemma json_exp_clean: "json_exp (p @ ''e-0'' @ [d]) \<Longrightarrow> json_exp (p @ ''e-'' @ [d])"
proof (cases p)
  case (Cons c p')
  assume "json_exp (p @ ''e-0'' @ [d])"
  with Cons show ?thesis by (cases p') (auto simp: json_exp_def is_digit_def Let_def split: if_splits)
qed (simp add: json_exp_def)

lemma json_frac_clean: "json_frac (p @ ''e-0'' @ [d]) \<Longrightarrow> json_frac (p @ ''e-'' @ [d])"
  using json_exp_clean [of p d] json_exp_clean [of "dropWhile is_digit (tl p)" d]
  by (cases p) (auto simp: json_frac_def span_e)

lemma json_number_clean: "is_json_number (p @ ''e-0'' @ [d]) \<Longrightarrow> is_json_number (p @ ''e-'' @ [d])"
proof -
  have "json_int (q @ ''e-'' @ [d])" if "json_int (q @ ''e-0'' @ [d])" for q
    using that json_frac_clean [of "tl q" d] json_frac_clean [of "dropWhile is_digit (tl q)" d]
    by (cases q) (auto simp: json_int_def span_e is_digit_def split: if_splits)
  from this [of p] this [of "tl p"] this [of "[]"]
  show "is_json_number (p @ ''e-0'' @ [d]) \<Longrightarrow> is_json_number (p @ ''e-'' @ [d])"
    by (cases p) (auto simp: is_json_number_def split: if_splits)
qed

lemma clean_exponent_number:
  assumes "is_json_number buf"
  shows "is_json_number (clean_exponent buf)"
proof (cases "length buf \<ge> 4 \<and> buf ! (length buf - 4) = CHR ''e'' \<and> buf ! (length buf - 3) = CHR ''-'' \<and> buf ! (length buf - 2) = CHR ''0''")
  case True
  define p where "p = take (length buf - 4) buf"
  obtain a b c d where "drop (length buf - 4) buf = [a, b, c, d]"
  proof -
    assume *: "\<And>a b c d. drop (length buf - 4) buf = [a, b, c, d] \<Longrightarrow> thesis"
    have "length (drop (length buf - 4) buf) = Suc (Suc (Suc (Suc 0)))" using True by simp
    then show thesis using * unfolding length_Suc_conv by auto
  qed
  then have b: "buf = p @ [a, b, c, d]" by (metis append_take_drop_id p_def)
  with True have "a = CHR ''e''" "b = CHR ''-''" "c = CHR ''0''" by (auto simp: nth_append)
  with b assms json_number_clean [of p d] show ?thesis by (simp add: clean_exponent_def nth_append)
next
  case False
  with assms show ?thesis by (auto simp: clean_exponent_def Let_def)
qed

text \<open>What \<open>strconv.AppendFloat\<close> promises: the text of a finite value is a number.\<close>

definition float_printer :: "(go_float \<Rightarrow> char \<Rightarrow> string) \<Rightarrow> bool" where
  "float_printer af = (\<forall>f c. f \<noteq> FNaN \<and> (\<forall>b. f \<noteq> FInf b) \<longrightarrow> is_json_number (af f c))"

lemma float_text_number:
  assumes "float_printer af" "f \<noteq> FNaN"
  shows "is_json_number (float_text af f)"
proof -
  have "clamp_float f \<noteq> FNaN \<and> (\<forall>b. clamp_float f \<noteq> FInf b)"
    using assms(2) by (auto simp: clamp_float_def split: go_float.splits)
  with assms show ?thesis
    by (simp add: float_text_def Let_def float_printer_def clean_exponent_number)
qed

section \<open>Round trip\<close>

text \<open>The JSON value a Go value stands for.\<close>

fun denote :: "(go_float \<Rightarrow> char \<Rightarrow> string) \<Rightarrow> jqvalue \<Rightarrow> json" where
  "denote af VNil = JNull"
| "denote af (VBool b) = JBool b"
| "denote af (VInt i) = JNum (Itoa i)"
| "denote af (VInt64 i) = JNum (Itoa i)"
| "denote af (VInt32 i) = JNum (Itoa i)"
| "denote af (VFloat f) = (if f = FNaN then JNull else JNum (float_text af f))"
| "denote af (VNumber s) = (if s = [] then JNull else JNum s)"
| "denote af (VBigInt i) = JNum (Itoa i)"
| "denote af (VString s) = JStr (to_valid s)"
| "denote af (VArray vs) = JArr (map (denote af) vs)"
| "denote af (VObject kvs) =
     JObj (map (apfst to_valid) (sort_key fst (map (\<lambda>(k, v). (k, denote af v)) kvs)))"
| "denote af (VOther ty) = JNull"

text \<open>Values without a foreign type and with number texts that are JSON numbers.\<close>

fun encodable :: "jqvalue \<Rightarrow> bool" where
  "encodable (VNumber s) = (s = [] \<or> is_json_number s)"
| "encodable (VArray vs) = list_all encodable vs"
| "encodable (VObject kvs) = list_all (\<lambda>(k, v). encodable v) kvs"
| "encodable (VOther ty) = False"
| "encodable _ = True"

lemma newline_text_ws [simp]: "list_all is_ws (newline_text e d)"
  by (auto simp: newline_text_def list_all_iff is_ws_def indent_char_def)

lemma string_reads: "reads_as ([CHR 0x22] @ quote_chars s @ [CHR 0x22]) (JStr (to_valid s))"
  by (rule reads_asI) (simp_all add: starts_value_def is_ws_def read_chars_quote)

lemma insort_map_values:
  "insort_key fst (k, f v) (map (\<lambda>(k, v). (k, f v)) kvs) = map (\<lambda>(k, v). (k, f v)) (insort_key fst (k, v) kvs)"
  by (induction kvs) auto

lemma sort_map_values: "sort_key fst (map (\<lambda>(k, v). (k, f v)) kvs) = map (\<lambda>(k, v). (k, f v)) (sort_key fst kvs)"
  by (induction kvs) (auto simp: insort_map_values)

lemma encode_reads:
  assumes "float_printer af"
  shows "encodable v \<Longrightarrow> \<exists>t. jq_encode af e d v w = Some (w @ t) \<and> reads_as t (denote af v)"
    and "list_all encodable vs \<Longrightarrow>
           \<exists>t. encode_elements af e d first vs w = Some (w @ t) \<and> elems_read first t (map (denote af) vs)"
    and "list_all (\<lambda>(k, v). encodable v) kvs \<Longrightarrow>
           \<exists>t. encode_members af e d first kvs w = Some (w @ t) \<and>
               mems_read first t (map (\<lambda>(k, v). (to_valid k, denote af v)) kvs)"
  using assms
proof (induction af e d v w and af e d first vs w and af e d first kvs w
    rule: jq_encode_encode_elements_encode_members.induct)
  case (10 af e d vs w)
  then obtain t where t: "encode_elements af e (d + ec_indent e) True vs (w @ ''['') = Some ((w @ ''['') @ t)"
    "elems_read True t (map (denote af) vs)" by auto
  with array_reads [OF t(2) newline_text_ws [of e d]] show ?case
    by (auto simp: newline_append)
next
  case (11 af e d kvs w)
  then have "list_all (\<lambda>(k, v). encodable v) (sort_key fst kvs)" by (simp add: list_all_iff)
  with 11 obtain t where t: "encode_members af e (d + ec_indent e) True (sort_key fst kvs) (w @ ''{'') = Some ((w @ ''{'') @ t)"
    "mems_read True t (map (\<lambda>(k, v). (to_valid k, denote af v)) (sort_key fst kvs))" by auto
  have "map (apfst to_valid) (sort_key fst (map (\<lambda>(k, v). (k, denote af v)) kvs)) =
      map (\<lambda>(k, v). (to_valid k, denote af v)) (sort_key fst kvs)"
    unfolding sort_map_values by auto
  moreover have "sort_key fst kvs = [] \<longleftrightarrow> kvs = []" by (metis length_0_conv length_sort)
  ultimately show ?case using object_reads [OF t(2) newline_text_ws [of e d]] t(1)
    by (auto simp: newline_append)
next
  case (14 af e d first v vs w)
  then obtain tv where tv: "jq_encode af e d v (newline e d (if first then w else w @ '','')) =
      Some (newline e d (if first then w else w @ '','') @ tv)" "reads_as tv (denote af v)" by auto
  from 14 tv(1) obtain t where t: "encode_elements af e d False vs (newline e d (if first then w else w @ '','') @ tv) =
      Some ((newline e d (if first then w else w @ '','') @ tv) @ t)" "elems_read False t (map (denote af) vs)" by auto
  from elems_read_cons [OF tv(2) t(2) newline_text_ws [of e d], of first] tv(1) t(1) show ?case
    by (auto simp: newline_append)
next
  case (16 af e d first k v kvs w)
  let ?w = "(encodeString k (newline e d (if first then w else w @ '',''))) @ '':'' @ (if ec_indent e \<noteq> 0 then '' '' else [])"
  from 16 obtain tv where tv: "jq_encode af e d v ?w = Some (?w @ tv)" "reads_as tv (denote af v)" by auto
  from 16 tv(1) obtain t where t: "encode_members af e d False kvs (?w @ tv) = Some ((?w @ tv) @ t)"
    "mems_read False t (map (\<lambda>(k, v). (to_valid k, denote af v)) kvs)" by auto
  have "list_all is_ws (if ec_indent e \<noteq> 0 then '' '' else [])" by (simp add: is_ws_def)
  from mems_read_cons [OF tv(2) t(2) newline_text_ws [of e d] this, of "quote_chars k @ [CHR 0x22]" "to_valid k" first] tv(1) t(1)
  show ?case
    by (auto simp: newline_append encodeString_text read_chars_quote)
qed (auto simp: literal_reads number_reads Itoa_number encodeFloat64_def float_text_number encodeString_text
    string_reads elems_read_def mems_read_def float_text_def [of _ FNaN] simp del: append.simps)

text \<open>What is already in the buffer stays there.\<close>

lemma encode_append:
  "jq_encode af e d v (u @ w) = map_option ((@) u) (jq_encode af e d v w)"
  "encode_elements af e d first vs (u @ w) = map_option ((@) u) (encode_elements af e d first vs w)"
  "encode_members af e d first kvs (u @ w) = map_option ((@) u) (encode_members af e d first kvs w)"
proof (induction af e d v w and af e d first vs w and af e d first kvs w
    rule: jq_encode_encode_elements_encode_members.induct)
  case (10 af e d vs w)
  then show ?case by (cases "encode_elements af e (d + ec_indent e) True vs (w @ ''['')") (auto simp: newline_append)
next
  case (11 af e d kvs w)
  then show ?case
    by (cases "encode_members af e (d + ec_indent e) True (sort_key fst kvs) (w @ ''{'')") (auto simp: newline_append)
next
  case (14 af e d first v vs w)
  let ?w = "newline e d (if first then w else w @ '','')"
  have "newline e d (if first then u @ w else (u @ w) @ '','') = u @ ?w" by (simp add: newline_append)
  with 14 show ?case by (cases "jq_encode af e d v ?w") simp_all
next
  case (16 af e d first k v kvs w)
  let ?w = "\<lambda>w. (encodeString k (newline e d (if first then w else w @ '',''))) @ '':'' @ (if ec_indent e \<noteq> 0 then '' '' else [])"
  have "?w (u @ w) = u @ ?w w" by (simp add: newline_append encodeString_text)
  with 16 show ?case by (cases "jq_encode af e d v (?w w)") (simp_all only: encode_members.simps option.case option.map)
qed (simp_all add: encodeFloat64_def encodeString_text)

section \<open>What the encoder promises\<close>

text \<open>
  C14: What \<open>encode\<close> writes is JSON and stands for the value: for every value of the types the encoder knows whose number
  texts are JSON numbers, every indentation (spaces or tabs, any depth), a JSON reader with enough fuel for the text
  returns the value, with the members of every object in the order of their keys, the integers in decimal,
  the bytes of a string that are not UTF-8 replaced by \<open>U+FFFD\<close>, not-a-number as \<open>null\<close> and the infinities as the
  largest numbers.  Of \<open>strconv.AppendFloat\<close> it needs that the text of a finite number is a JSON number.
\<close>

theorem encode_roundtrip:
  assumes "float_printer af" "encodable v"
  shows "\<exists>t. jq_encode af e d v [] = Some t \<and> read_json t = Some (denote af v)"
proof -
  from encode_reads(1)[OF assms, of e d "[]"] obtain t where
    t: "jq_encode af e d v [] = Some t" "reads_as t (denote af v)" by auto
  from reads_asD [OF t(2), of "Suc (length t)" "[]"] have "read_json t = Some (denote af v)"
    by (simp add: read_json_def decode_json_def)
  with t(1) show ?thesis by blast
qed

definition sample_value :: jqvalue where
  "sample_value = VObject [(''b'', VArray [VInt 5, VNil, VFloat (FInf True)]), (''a'', VString [CHR 0x22, CHR 0xFF, CHR 0x01])]"

theorem encode_roundtrip_witness:
  "float_printer (\<lambda>f c. ''-1.5e+300'') \<and> encodable sample_value \<and>
   (\<exists>t. jq_encode (\<lambda>f c. ''-1.5e+300'') (newEncoder False 2) 0 sample_value [] = Some t \<and>
        read_json t = Some (denote (\<lambda>f c. ''-1.5e+300'') sample_value))"
proof -
  have "is_json_number ''-1.5e+300''" by code_simp
  then have p: "float_printer (\<lambda>f c. ''-1.5e+300'')" by (simp add: float_printer_def)
  have e: "encodable sample_value" by (simp add: sample_value_def)
  show ?thesis using p e encode_roundtrip [OF p e] by blast
qed

text \<open>The encoder panics exactly on a value that holds one of a type it does not know.\<close>

fun foreign :: "jqvalue \<Rightarrow> bool" where
  "foreign (VArray vs) = list_ex foreign vs"
| "foreign (VObject kvs) = list_ex (\<lambda>(k, v). foreign v) kvs"
| "foreign (VOther ty) = True"
| "foreign _ = False"

lemma encode_None:
  "jq_encode af e d v w = None \<longleftrightarrow> foreign v"
  "encode_elements af e d first vs w = None \<longleftrightarrow> list_ex foreign vs"
  "encode_members af e d first kvs w = None \<longleftrightarrow> list_ex (\<lambda>(k, v). foreign v) kvs"
proof (induction af e d v w and af e d first vs w and af e d first kvs w
    rule: jq_encode_encode_elements_encode_members.induct)
  case (14 af e d first v vs w)
  then show ?case by (cases "jq_encode af e d v (newline e d (if first then w else w @ '',''))") simp_all
next
  case (16 af e d first k v kvs w)
  let ?w = "(encodeString k (newline e d (if first then w else w @ '',''))) @ '':'' @ (if ec_indent e \<noteq> 0 then '' '' else [])"
  from 16 show ?case by (cases "jq_encode af e d v ?w") (simp_all only: encode_members.simps option.case list_ex_Cons_iff prod.case simp_thms option.distinct)
qed (simp_all add: list_ex_iff)

text \<open>
  The encoder panics exactly on a value that holds, at any depth, one of a type it does not know; on every other
  value it returns.
\<close>

theorem encode_panics: "jq_encode af e d v w = None \<longleftrightarrow> foreign v"
  by (rule encode_None)

text \<open>
  The text of an object does not depend on the order in which the map is visited.
\<close>

theorem encode_visit_order:
  assumes "gomap_ok kvs" "mset kvs = mset kvs'"
  shows "jq_encode af e d (VObject kvs) w = jq_encode af e d (VObject kvs') w"
proof -
  have p: "mset (map fst kvs) = mset (map fst kvs')" "set kvs = set kvs'" using assms(2)
    by (simp, metis set_mset_mset)
  then have "gomap_ok kvs'" using assms(1) by (metis mset_eq_imp_distinct_iff)
  moreover have "distinct (map fst (sort_key fst xs))" if "gomap_ok xs" for xs :: "(string \<times> jqvalue) list"
    using that by (metis mset_eq_imp_distinct_iff mset_map mset_sort)
  moreover have "inj_on fst (set kvs)" using assms(1) by (simp add: distinct_map)
  ultimately have "sort_key fst kvs = sort_key fst kvs'"
    using assms(1) p(2) by (intro map_sorted_distinct_set_unique [where f = fst]) auto
  moreover have "kvs = [] \<longleftrightarrow> kvs' = []" using p(2) by auto
  ultimately show ?thesis by simp
qed

theorem encode_visit_order_witness:
  "gomap_ok [(''b'', VNil), (''a'', VBool True)] \<and>
   jq_encode (\<lambda>_ _. []) (newEncoder False 0) 0 (VObject [(''b'', VNil), (''a'', VBool True)]) [] =
   jq_encode (\<lambda>_ _. []) (newEncoder False 0) 0 (VObject [(''a'', VBool True), (''b'', VNil)]) []"
proof
  show ok: "gomap_ok [(''b'', VNil), (''a'', VBool True)]" by simp
  show "jq_encode (\<lambda>_ _. []) (newEncoder False 0) 0 (VObject [(''b'', VNil), (''a'', VBool True)]) [] =
      jq_encode (\<lambda>_ _. []) (newEncoder False 0) 0 (VObject [(''a'', VBool True), (''b'', VNil)]) []"
    by (rule encode_visit_order [OF ok]) simp
qed

end
