(* ===== verification/Go_Path.thy ===== *)
theory Go_Path
  imports Go_Prelude
begin

text \<open>
  What the sources use of Go's \<open>path\<close> and, on a system with slashes, \<open>path/filepath\<close>: \<open>Clean\<close>, \<open>Join\<close> and \<open>Split\<close>.
  Shown: cleaning twice is cleaning once, and a plain name joined to a cleaned directory is the path of that name in it.
\<close>

fun clean_segs :: "bool \<Rightarrow> string list \<Rightarrow> string list \<Rightarrow> string list" where
  "clean_segs rooted acc [] = rev acc"
| "clean_segs rooted acc (s # ss) =
     (if s = [] \<or> s = ''.'' then clean_segs rooted acc ss
      else if s = ''..''
      then (case acc of
              a # as \<Rightarrow> if a = ''..'' then clean_segs rooted (''..'' # acc) ss else clean_segs rooted as ss
            | [] \<Rightarrow> if rooted then clean_segs rooted [] ss else clean_segs rooted [''..''] ss)
      else clean_segs rooted (s # acc) ss)"

definition path_Clean :: "string \<Rightarrow> string" where
  "path_Clean p =
     (let rooted = (p \<noteq> [] \<and> hd p = CHR ''/''); segs = clean_segs rooted [] (Split p (CHR ''/'')) in
      if rooted then CHR ''/'' # Join segs ''/''
      else if segs = [] then ''.'' else Join segs ''/'')"

definition path_Join :: "string list \<Rightarrow> string" where
  "path_Join ps = (let ps' = filter (\<lambda>p. p \<noteq> []) ps in if ps' = [] then [] else path_Clean (Join ps' ''/''))"

text \<open>\<open>filepath.Split\<close>: the directory with its slash, and the file.\<close>

definition path_Split :: "string \<Rightarrow> string \<times> string" where
  "path_Split p = (let file = last (Split p (CHR ''/'')) in (take (length p - length file) p, file))"

section \<open>Cleaned segments\<close>

definition plain_seg :: "string \<Rightarrow> bool" where
  "plain_seg s = (s \<noteq> [] \<and> s \<noteq> ''.'' \<and> s \<noteq> ''..'' \<and> CHR ''/'' \<notin> set s)"

text \<open>What \<open>Clean\<close> leaves: going up at most at the front, and only in a relative path.\<close>

definition cleaned :: "bool \<Rightarrow> string list \<Rightarrow> bool" where
  "cleaned rooted segs =
     (\<exists>ups ps. segs = ups @ ps \<and> (\<forall>u\<in>set ups. u = ''..'') \<and> (rooted \<longrightarrow> ups = []) \<and> (\<forall>p\<in>set ps. plain_seg p))"

lemma cleaned_snoc: "cleaned rooted segs \<Longrightarrow> plain_seg s \<Longrightarrow> cleaned rooted (segs @ [s])"
  unfolding cleaned_def by (elim exE conjE) (rule exI, rule exI, auto)

lemma cleaned_up: "cleaned False segs \<Longrightarrow> segs = [] \<or> last segs = ''..'' \<Longrightarrow> cleaned False (segs @ [''..''])"
proof -
  assume "cleaned False segs" and l: "segs = [] \<or> last segs = ''..''"
  then obtain ups ps where s: "segs = ups @ ps" "\<forall>u\<in>set ups. u = ''..''" "\<forall>p\<in>set ps. plain_seg p"
    by (auto simp: cleaned_def)
  have "ps = []"
  proof (rule ccontr)
    assume "ps \<noteq> []"
    with s l have "last ps = ''..''" by simp
    moreover have "plain_seg (last ps)" using s(3) \<open>ps \<noteq> []\<close> by (meson last_in_set)
    ultimately have "plain_seg ''..''" by simp
    then show False by (simp add: plain_seg_def)
  qed
  with s show ?thesis by (auto simp: cleaned_def intro: exI [of _ "ups @ [''..'']"] exI [of _ "[]"])
qed

lemma cleaned_butlast: "cleaned rooted (segs @ [s]) \<Longrightarrow> cleaned rooted segs"
  unfolding cleaned_def
proof (elim exE conjE)
  fix ups ps
  assume a: "segs @ [s] = ups @ ps" "\<forall>u\<in>set ups. u = ''..''" "rooted \<longrightarrow> ups = []" "\<forall>p\<in>set ps. plain_seg p"
  show "\<exists>ups ps. segs = ups @ ps \<and> (\<forall>u\<in>set ups. u = ''..'') \<and> (rooted \<longrightarrow> ups = []) \<and> (\<forall>p\<in>set ps. plain_seg p)"
  proof (cases ps rule: rev_cases)
    case Nil
    with a have "segs = butlast ups" by (metis append_Nil2 butlast_snoc)
    with a show ?thesis by (intro exI [of _ "butlast ups"] exI [of _ "[]"]) (auto dest: in_set_butlastD)
  next
    case (snoc ps' x)
    with a have "segs = ups @ ps'" by simp
    with a snoc show ?thesis by (intro exI [of _ ups] exI [of _ ps']) auto
  qed
qed

lemma cleaned_last: "cleaned rooted segs \<Longrightarrow> segs \<noteq> [] \<Longrightarrow> rooted \<Longrightarrow> last segs \<noteq> ''..''"
  by (auto simp: cleaned_def plain_seg_def)

lemma clean_segs_cleaned:
  "cleaned rooted (rev acc) \<Longrightarrow> list_all (\<lambda>s. CHR ''/'' \<notin> set s) ss \<Longrightarrow> cleaned rooted (clean_segs rooted acc ss)"
proof (induction rooted acc ss rule: clean_segs.induct)
  case (2 rooted acc s ss)
  consider "s = [] \<or> s = ''.''" | "s = ''..''" "acc = []" | a as where "s = ''..''" "acc = a # as" "a = ''..''"
    | a as where "s = ''..''" "acc = a # as" "a \<noteq> ''..''" | "plain_seg s"
    using "2.prems"(2) by (cases acc) (auto simp: plain_seg_def)
  then show ?case
  proof cases
    case 1
    with 2 show ?thesis by auto
  next
    case 2
    have "cleaned False [''..'']" by (auto simp: cleaned_def intro: exI [of _ "[''..'']"])
    with 2 "2.prems" "2.IH" show ?thesis by (cases rooted) simp_all
  next
    case (3 a as)
    have "\<not> rooted" using cleaned_last [OF "2.prems"(1)] 3 by auto
    then have "cleaned rooted (rev (''..'' # acc))" using cleaned_up [of "rev acc"] "2.prems"(1) 3 by auto
    with 3 "2.IH" "2.prems"(2) show ?thesis by simp
  next
    case (4 a as)
    with cleaned_butlast [of rooted "rev as" a] "2.IH" "2.prems" show ?thesis by simp
  next
    case 5
    with cleaned_snoc [OF "2.prems"(1)] "2.IH"(6) "2.prems"(2) show ?thesis by (auto simp: plain_seg_def)
  qed
qed auto

lemma clean_segs_plain: "(\<And>s. s \<in> set ps \<Longrightarrow> plain_seg s) \<Longrightarrow> clean_segs rooted acc ps = rev acc @ ps"
  by (induction ps arbitrary: acc) (auto simp: plain_seg_def)

lemma clean_segs_ups:
  "list_all (\<lambda>u. u = ''..'') ups \<Longrightarrow> list_all (\<lambda>u. u = ''..'') acc \<Longrightarrow>
     clean_segs False acc (ups @ ss) = clean_segs False (rev ups @ acc) ss"
  by (induction ups arbitrary: acc) (auto split: list.split)

lemma clean_segs_id: "cleaned rooted segs \<Longrightarrow> clean_segs rooted [] segs = segs"
  unfolding cleaned_def
proof (elim exE conjE)
  fix ups ps
  assume a: "segs = ups @ ps" "\<forall>u\<in>set ups. u = ''..''" "rooted \<longrightarrow> ups = []" "\<forall>p\<in>set ps. plain_seg p"
  show "clean_segs rooted [] segs = segs"
  proof (cases rooted)
    case True
    with a show ?thesis by (simp add: clean_segs_plain)
  next
    case False
    with a show ?thesis by (simp add: clean_segs_ups clean_segs_plain list_all_iff)
  qed
qed

section \<open>Cleaned paths\<close>

lemma Split_Join_segs:
  assumes "segs \<noteq> []" "list_all (\<lambda>s. CHR ''/'' \<notin> set s) segs"
  shows "Split (Join segs ''/'') (CHR ''/'') = segs"
  using assms by (intro Split_Join) (auto simp: list_all_iff)

lemma Split_segs: "list_all (\<lambda>s. c \<notin> set s) (Split p c)"
  by (auto simp: list_all_iff dest: Split_no_sep)

lemma cleaned_no_slash: "cleaned rooted segs \<Longrightarrow> list_all (\<lambda>s. CHR ''/'' \<notin> set s) segs"
proof -
  assume "cleaned rooted segs"
  then obtain ups ps where s: "segs = ups @ ps" "\<forall>u\<in>set ups. u = ''..''" "\<forall>p\<in>set ps. plain_seg p"
    by (auto simp: cleaned_def)
  have "list_all (\<lambda>s. CHR ''/'' \<notin> set s) ups" using s(2) by (induction ups) auto
  with s show ?thesis by (auto simp: plain_seg_def list_all_iff)
qed

lemma cleaned_Nil [simp]: "cleaned rooted []"
  by (simp add: cleaned_def)

lemma Clean_segs: "cleaned rooted (clean_segs rooted [] (Split p (CHR ''/'')))"
  by (rule clean_segs_cleaned) (simp_all add: Split_segs)

lemma Join_hd:
  assumes "cleaned False segs" "segs \<noteq> []"
  shows "Join segs ''/'' \<noteq> [] \<and> hd (Join segs ''/'') \<noteq> CHR ''/''"
proof -
  obtain s ss where segs: "segs = s # ss" using assms(2) by (cases segs) auto
  with assms(1) have "s = ''..'' \<or> plain_seg s" unfolding cleaned_def by (elim exE conjE) (metis Un_iff list.set_intros(1) set_append)
  then have s: "s \<noteq> []" "hd s \<noteq> CHR ''/''" by (cases s; auto simp: plain_seg_def)+
  with segs show ?thesis by (cases ss) auto
qed

text \<open>The two forms of a cleaned path, and that cleaning leaves them alone.\<close>

lemma Clean_rooted:
  assumes "cleaned True segs"
  shows "path_Clean (CHR ''/'' # Join segs ''/'') = CHR ''/'' # Join segs ''/''"
proof (cases "segs = []")
  case True
  then show ?thesis by (simp add: path_Clean_def)
next
  case False
  with cleaned_no_slash [OF assms] have "Split (CHR ''/'' # Join segs ''/'') (CHR ''/'') = [] # segs"
    by (simp add: Split_Join_segs)
  with clean_segs_id [OF assms] show ?thesis by (simp add: path_Clean_def Let_def)
qed

lemma Clean_relative:
  assumes "cleaned False segs" "segs \<noteq> []"
  shows "path_Clean (Join segs ''/'') = Join segs ''/''"
  using Join_hd [OF assms] clean_segs_id [OF assms(1)] assms(2) cleaned_no_slash [OF assms(1)]
  by (simp add: path_Clean_def Let_def Split_Join_segs)

lemma path_Clean_idem: "path_Clean (path_Clean p) = path_Clean p"
proof -
  define rooted where "rooted = (p \<noteq> [] \<and> hd p = CHR ''/'')"
  define segs where "segs = clean_segs rooted [] (Split p (CHR ''/''))"
  have p: "path_Clean p = (if rooted then CHR ''/'' # Join segs ''/'' else if segs = [] then ''.'' else Join segs ''/'')"
    by (simp add: path_Clean_def rooted_def segs_def Let_def)
  have "path_Clean ''.'' = ''.''" by (simp add: path_Clean_def)
  moreover have "cleaned rooted segs" unfolding segs_def by (rule Clean_segs)
  ultimately show ?thesis unfolding p
    using Clean_rooted [of segs] Clean_relative [of segs] by (cases rooted) simp_all
qed

text \<open>A plain name in a cleaned directory that is not the root.\<close>

lemma path_Join_name:
  assumes "path_Clean dir = dir" "dir \<noteq> ''/''" "dir \<noteq> ''.''" "plain_seg name"
  shows "path_Join [dir, name] = dir @ ''/'' @ name"
proof -
  define rooted where "rooted = (dir \<noteq> [] \<and> hd dir = CHR ''/'')"
  define segs where "segs = clean_segs rooted [] (Split dir (CHR ''/''))"
  have c: "cleaned rooted segs" unfolding segs_def by (rule Clean_segs)
  have dir: "dir = (if rooted then CHR ''/'' # Join segs ''/'' else if segs = [] then ''.'' else Join segs ''/'')"
    using assms(1) unfolding path_Clean_def rooted_def segs_def Let_def by (rule sym)
  then have segs: "segs \<noteq> []" using assms(2,3) by (auto split: if_splits)
  have name: "name \<noteq> []" using assms(4) by (simp add: plain_seg_def)
  have c': "cleaned rooted (segs @ [name])" by (rule cleaned_snoc [OF c assms(4)])
  have J: "Join (segs @ [name]) ''/'' = Join segs ''/'' @ ''/'' @ name"
    using segs by (induction segs rule: induct_list012) simp_all
  have "dir \<noteq> []" using dir segs Join_hd [of segs] c by (auto split: if_splits)
  then have "path_Join [dir, name] = path_Clean (dir @ ''/'' @ name)" using name by (simp add: path_Join_def)
  also have "\<dots> = dir @ ''/'' @ name"
    using dir segs J Clean_rooted [of "segs @ [name]"] Clean_relative [of "segs @ [name]"] c' by (cases rooted) simp_all
  finally show ?thesis .
qed

end
