(* ===== verification/Jq_Eval.thy ===== *)
theory Jq_Eval
  imports Jq_Encoder Go_Path
begin

text \<open>
  \<open>jqutil/jqutil.go\<close>, \<open>jqutil/infer.go\<close> and \<open>jqutil/modules.go\<close>: evaluating a query, visiting its result, finding a query
  inside a string, and guessing the type of a text.

  The interpreter \<open>gojq\<close> is three arguments: \<open>parse\<close>, \<open>compile\<close> and \<open>run\<close>, the last giving the values and errors that the
  iterator returns until it ends.  \<open>strconv.ParseFloat\<close> is \<open>parseFloat\<close>; the conversion of a float that no \<open>int64\<close> can
  represent is \<open>conv\<close>, since Go leaves it to the implementation.  The callback of \<open>ForEach\<close> acts on a state of its caller.

  Shown: where the query of a template is, that unquoting a string result gives the string, that the callback of \<open>ForEach\<close>
  sees the elements of the result in order until it fails, that the results of a query are written one after the other
  without separator, that \<open>InferType\<close> leaves no \<open>json.Number\<close> and inverts the encoder, and that it drops what follows a number.
\<close>

section \<open>Unquoting\<close>

text \<open>\<open>strconv.UnquoteChar\<close>: the bytes of the first character and the text after it.\<close>

definition valid_rune :: "nat \<Rightarrow> bool" where
  "valid_rune v = (v < 0xD800 \<or> 0xE000 \<le> v \<and> v < 0x110000)"

definition escaped_rune :: "nat \<Rightarrow> string \<Rightarrow> (string \<times> string) option" where
  "escaped_rune n r =
     (case read_hex n 0 r of
        None \<Rightarrow> None
      | Some (v, r') \<Rightarrow> if valid_rune v then Some (rune_bytes v, r') else None)"

definition octal_byte :: "char \<Rightarrow> string \<Rightarrow> (string \<times> string) option" where
  "octal_byte a r =
     (case r of
        b # c # r' \<Rightarrow>
          if CHR ''0'' \<le> b \<and> b \<le> CHR ''7'' \<and> CHR ''0'' \<le> c \<and> c \<le> CHR ''7'' \<and>
             digit_val a * 64 + digit_val b * 8 + digit_val c \<le> 255
          then Some ([char_of (digit_val a * 64 + digit_val b * 8 + digit_val c)], r') else None
      | _ \<Rightarrow> None)"

definition unquote_escape :: "char \<Rightarrow> string \<Rightarrow> (string \<times> string) option" where
  "unquote_escape quote s =
     (case s of
        [] \<Rightarrow> None
      | c # r \<Rightarrow>
          if c = CHR ''x'' then map_option (apfst (\<lambda>v. [char_of v])) (read_hex 2 0 r)
          else if c = CHR ''u'' then escaped_rune 4 r
          else if c = CHR ''U'' then escaped_rune 8 r
          else if CHR ''0'' \<le> c \<and> c \<le> CHR ''7'' then octal_byte c r
          else if c = CHR 0x27 \<or> c = CHR 0x22 then (if c = quote then Some ([c], r) else None)
          else map_option (\<lambda>x. ([x], r))
            (map_of [(CHR ''a'', CHR 0x07), (CHR ''b'', CHR 0x08), (CHR ''f'', CHR 0x0C), (CHR ''n'', CHR 0x0A),
                     (CHR ''r'', CHR 0x0D), (CHR ''t'', CHR 0x09), (CHR ''v'', CHR 0x0B), (CHR 0x5C, CHR 0x5C)] c))"

lemma read_hex_shorter: "read_hex n acc s = Some (v, r) \<Longrightarrow> length r \<le> length s"
  by (auto dest: read_hex_length)

lemma unquote_escape_shorter: "unquote_escape q s = Some (u, r) \<Longrightarrow> length r < length s"
  by (auto simp: unquote_escape_def escaped_rune_def octal_byte_def dest!: read_hex_shorter
      split: list.splits if_splits option.splits)

text \<open>
  The characters up to the closing quote, which has to end the text.  Text without escapes that is valid UTF-8 is
  returned as it is, which is what this loop makes of it.
\<close>

function unquote_chars :: "char \<Rightarrow> string \<Rightarrow> string option" where
  "unquote_chars q [] = None"
| "unquote_chars q (c # s) =
     (if c = q then (if s = [] then Some [] else None)
      else if c = CHR 0x0A then None
      else if c = CHR 0x5C
      then (case unquote_escape q s of None \<Rightarrow> None | Some (u, r) \<Rightarrow> map_option ((@) u) (unquote_chars q r))
      else if byte c < 0x80 then map_option ((#) c) (unquote_chars q s)
      else (case utf8_size (c # s) of
              None \<Rightarrow> map_option ((@) rune_error) (unquote_chars q s)
            | Some n \<Rightarrow> map_option ((@) (take n (c # s))) (unquote_chars q (drop n (c # s)))))"
  by pat_completeness auto
termination
  by (relation "measure (length \<circ> snd)") (auto dest!: unquote_escape_shorter utf8_size_bounds)

declare unquote_chars.simps(2) [simp del]

text \<open>A text in single quotes holds at most one character.\<close>

definition unquote_single :: "string \<Rightarrow> string option" where
  "unquote_single s =
     (case s of
        [] \<Rightarrow> None
      | c # r \<Rightarrow>
          if c = CHR 0x27 then (if r = [] then Some [] else None)
          else if c = CHR 0x0A then None
          else (case (if c = CHR 0x5C then unquote_escape (CHR 0x27) r
                      else if byte c < 0x80 then Some ([c], r)
                      else (case utf8_size s of None \<Rightarrow> Some (rune_error, r) | Some n \<Rightarrow> Some (take n s, drop n s))) of
                  None \<Rightarrow> None
                | Some (u, r') \<Rightarrow> if r' = [CHR 0x27] then Some u else None))"

definition strconv_Unquote :: "string \<Rightarrow> string option" where
  "strconv_Unquote s =
     (case s of
        [] \<Rightarrow> None
      | q # r \<Rightarrow>
          if q = CHR 0x60
          then (if r \<noteq> [] \<and> last r = q \<and> q \<notin> set (butlast r) then Some (filter (\<lambda>c. c \<noteq> CHR 0x0D) (butlast r)) else None)
          else if q = CHR 0x22 then unquote_chars q r
          else if q = CHR 0x27 then unquote_single r
          else None)"

section \<open>Evaluation\<close>

record ('d, 'm) eval_options =
  Query :: string
  Unquote :: bool
  Data :: 'd
  ModuleLoader :: "'m option"

datatype jq_error =
    InvalidQuery string string
  | Uncompilable string string
  | RunError string
  | NotJson
  | NotArray string
  | ActionError string

datatype 'a jq_result = JqOk 'a | JqErr jq_error | JqPanic

text \<open>The loop over the iterator: the values are written to the encoder's buffer one after the other.\<close>

fun encode_results :: "(go_float \<Rightarrow> char \<Rightarrow> string) \<Rightarrow> (string + jqvalue) list \<Rightarrow> string \<Rightarrow> string jq_result" where
  "encode_results af [] w = JqOk w"
| "encode_results af (Inl err # vs) w = JqErr (RunError err)"
| "encode_results af (Inr v # vs) w =
     (case jq_encode af (newEncoder False 0) 0 v w of None \<Rightarrow> JqPanic | Some w' \<Rightarrow> encode_results af vs w')"

definition jq_Eval ::
  "(go_float \<Rightarrow> char \<Rightarrow> string) \<Rightarrow> (string \<Rightarrow> string + 'q) \<Rightarrow> ('m option \<Rightarrow> 'q \<Rightarrow> string + 'c) \<Rightarrow>
   ('c \<Rightarrow> 'd \<Rightarrow> (string + jqvalue) list) \<Rightarrow> ('d, 'm) eval_options \<Rightarrow> string jq_result" where
  "jq_Eval af parse compile run opts =
     (case parse (Query opts) of
        Inl err \<Rightarrow> JqErr (InvalidQuery (Query opts) err)
      | Inr query \<Rightarrow>
          (case compile (ModuleLoader opts) query of
             Inl err \<Rightarrow> JqErr (Uncompilable (Query opts) err)
           | Inr code \<Rightarrow>
               (case encode_results af (run code (Data opts)) [] of
                  JqOk res \<Rightarrow>
                    JqOk (if Unquote opts then (case strconv_Unquote res of Some unq \<Rightarrow> unq | None \<Rightarrow> res) else res)
                | r \<Rightarrow> r)))"

text \<open>
  \<open>json.Unmarshal\<close> into \<open>any\<close>, and the same with \<open>UseNumber\<close>: \<open>num\<close> converts the numbers; of two members with the same key the
  last one stays.
\<close>

fun go_any :: "(string \<Rightarrow> jqvalue option) \<Rightarrow> json \<Rightarrow> jqvalue option" where
  "go_any num JNull = Some VNil"
| "go_any num (JBool b) = Some (VBool b)"
| "go_any num (JNum t) = num t"
| "go_any num (JStr s) = Some (VString s)"
| "go_any num (JArr js) = map_option VArray (those (map (go_any num) js))"
| "go_any num (JObj kjs) =
     map_option (\<lambda>kvs. VObject (fold (\<lambda>(k, v) m. AList.update k v m) kvs []))
       (those (map (\<lambda>(k, j). map_option (Pair k) (go_any num j)) kjs))"

definition Unmarshal_any :: "(string \<Rightarrow> go_float option) \<Rightarrow> string \<Rightarrow> jqvalue option" where
  "Unmarshal_any parseFloat s = Option.bind (read_json s) (go_any (\<lambda>t. map_option VFloat (parseFloat t)))"

text \<open>The callback, on a state of its caller, until it returns an error.\<close>

fun each :: "(jqvalue \<Rightarrow> 's \<Rightarrow> 's \<times> string option) \<Rightarrow> jqvalue list \<Rightarrow> 's \<Rightarrow> 's \<times> unit jq_result" where
  "each action [] s = (s, JqOk ())"
| "each action (v # vs) s =
     (case action v s of
        (s', Some err) \<Rightarrow> (s', JqErr (ActionError err))
      | (s', None) \<Rightarrow> each action vs s')"

definition ForEach ::
  "(go_float \<Rightarrow> char \<Rightarrow> string) \<Rightarrow> (string \<Rightarrow> go_float option) \<Rightarrow> (string \<Rightarrow> string + 'q) \<Rightarrow> ('m option \<Rightarrow> 'q \<Rightarrow> string + 'c) \<Rightarrow>
   ('c \<Rightarrow> 'd \<Rightarrow> (string + jqvalue) list) \<Rightarrow> ('d, 'm) eval_options \<Rightarrow>
   (jqvalue \<Rightarrow> 's \<Rightarrow> 's \<times> string option) \<Rightarrow> 's \<Rightarrow> 's \<times> unit jq_result" where
  "ForEach af parseFloat parse compile run opts action s =
     (case jq_Eval af parse compile run opts of
        JqErr err \<Rightarrow> (s, JqErr err)
      | JqPanic \<Rightarrow> (s, JqPanic)
      | JqOk res \<Rightarrow>
          (case Unmarshal_any parseFloat res of
             None \<Rightarrow> (s, JqErr NotJson)
           | Some tmp \<Rightarrow>
               (case tmp of
                  VArray els \<Rightarrow> each action els s
                | _ \<Rightarrow> (s, JqErr (NotArray (Query opts))))))"

definition Extract ::
  "(go_float \<Rightarrow> char \<Rightarrow> string) \<Rightarrow> (string \<Rightarrow> go_float option) \<Rightarrow> (string \<Rightarrow> string + 'q) \<Rightarrow> ('m option \<Rightarrow> 'q \<Rightarrow> string + 'c) \<Rightarrow>
   ('c \<Rightarrow> 'd \<Rightarrow> (string + jqvalue) list) \<Rightarrow> ('d, 'm) eval_options \<Rightarrow> (string, jqvalue) gomap \<times> unit jq_result" where
  "Extract af parseFloat parse compile run opts =
     (case jq_Eval af parse compile run opts of
        JqErr err \<Rightarrow> ([], JqErr err)
      | JqPanic \<Rightarrow> ([], JqPanic)
      | JqOk res \<Rightarrow>
          (case Unmarshal_any parseFloat res of
             None \<Rightarrow> ([], JqErr NotJson)
           | Some tmp \<Rightarrow>
               (case tmp of
                  VArray arr \<Rightarrow> ([(''items'', VArray arr)], JqOk ())
                | _ \<Rightarrow> ([], JqErr (NotArray (Query opts))))))"

section \<open>Modules\<close>

text \<open>\<open>LoadModule\<close>: the file of a module is read and parsed.\<close>

definition dir_LoadModule ::
  "(string \<Rightarrow> string + string) \<Rightarrow> (string \<Rightarrow> string + 'q) \<Rightarrow> string \<Rightarrow> string \<Rightarrow> string + 'q" where
  "dir_LoadModule readFile parse basePath name =
     (case readFile (path_Join [basePath, name @ ''.jq'']) of
        Inl err \<Rightarrow> Inl err
      | Inr content \<Rightarrow> parse content)"

definition embed_LoadModule ::
  "(string \<Rightarrow> string + string) \<Rightarrow> (string \<Rightarrow> string + 'q) \<Rightarrow> string \<Rightarrow> string + 'q" where
  "embed_LoadModule readFile parse name =
     (case readFile (''assets/'' @ name @ ''.jq'') of
        Inl err \<Rightarrow> Inl err
      | Inr content \<Rightarrow> parse content)"

section \<open>Queries inside a string\<close>

fun Index2 :: "string \<Rightarrow> char \<Rightarrow> char \<Rightarrow> nat option" where
  "Index2 (a # b # s) x y = (if a = x \<and> b = y then Some 0 else map_option Suc (Index2 (b # s) x y))"
| "Index2 _ x y = None"

fun bracket_loop :: "string \<Rightarrow> nat \<Rightarrow> nat \<Rightarrow> nat option" where
  "bracket_loop [] bracketCount end' = None"
| "bracket_loop (c # s) bracketCount end' =
     (if c = CHR ''{'' then bracket_loop s (bracketCount + 1) (end' + 1)
      else if c = CHR ''}''
      then (if bracketCount - 1 = 0 then Some end' else bracket_loop s (bracketCount - 1) (end' + 1))
      else bracket_loop s bracketCount (end' + 1))"

definition MaybeQuery :: "string \<Rightarrow> string \<times> bool" where
  "MaybeQuery s =
     (case Index2 s (CHR ''$'') (CHR ''{'') of
        None \<Rightarrow> (s, False)
      | Some i \<Rightarrow>
          (let start = i + 2 in
           case bracket_loop (drop start s) 1 start of
             None \<Rightarrow> (s, False)
           | Some end' \<Rightarrow> (TrimSpace (take (end' - start) (drop start s)), True)))"

section \<open>Types of texts\<close>

definition numberToGo :: "(string \<Rightarrow> go_float option) \<Rightarrow> string \<Rightarrow> jqvalue" where
  "numberToGo parseFloat n =
     (case Atoi n of
        Some i \<Rightarrow> if - (2 ^ 31) \<le> i \<and> i \<le> 2 ^ 31 - 1 then VInt32 i else VInt64 i
      | None \<Rightarrow> (case parseFloat n of Some f \<Rightarrow> VFloat f | None \<Rightarrow> VString n))"

fun normalizeNumbers :: "(string \<Rightarrow> go_float option) \<Rightarrow> jqvalue \<Rightarrow> jqvalue" where
  "normalizeNumbers pf (VNumber n) = numberToGo pf n"
| "normalizeNumbers pf (VObject kvs) = VObject (map (\<lambda>(k, v). (k, normalizeNumbers pf v)) kvs)"
| "normalizeNumbers pf (VArray vs) = VArray (map (normalizeNumbers pf) vs)"
| "normalizeNumbers pf v = v"

text \<open>
  \<open>strings.EqualFold\<close> with an ASCII word in lower case without a \<open>k\<close>: letters up to case, and the long s (\<open>U+017F\<close>) for an s.
\<close>

fun short_s :: "string \<Rightarrow> string" where
  "short_s (a # b # s) = (if a = CHR 0xC5 \<and> b = CHR 0xBF then CHR ''s'' # short_s s else a # short_s (b # s))"
| "short_s s = s"

definition EqualFold :: "string \<Rightarrow> string \<Rightarrow> bool" where
  "EqualFold s t = (ToLower (short_s s) = t)"

text \<open>The result of the last attempt: a float with an integral value in the range of \<open>int64\<close> becomes an integer.\<close>

definition float_result :: "(rat \<Rightarrow> int) \<Rightarrow> go_float \<Rightarrow> jqvalue" where
  "float_result conv f =
     (case f of
        FNegZero \<Rightarrow> VInt64 0
      | FFin r \<Rightarrow>
          if r = of_int \<lfloor>r\<rfloor> \<and> - (2 ^ 63) \<le> r \<and> r \<le> 2 ^ 63
          then VInt64 (if r < 2 ^ 63 then \<lfloor>r\<rfloor> else conv r) else VFloat f
      | _ \<Rightarrow> VFloat f)"

definition InferType :: "(string \<Rightarrow> go_float option) \<Rightarrow> (rat \<Rightarrow> int) \<Rightarrow> string \<Rightarrow> jqvalue" where
  "InferType parseFloat conv s =
     (let v = TrimSpace s in
      if v = [] then VString v
      else case Option.bind (decode_json v) (go_any (\<lambda>t. Some (VNumber t)) \<circ> fst) of
             Some jsonVal \<Rightarrow> normalizeNumbers parseFloat jsonVal
           | None \<Rightarrow>
               if EqualFold v ''true'' then VBool True
               else if EqualFold v ''false'' then VBool False
               else if EqualFold v ''null'' \<or> EqualFold v ''nil'' then VNil
               else case Atoi v of
                      Some intVal \<Rightarrow>
                        if - (2 ^ 31) \<le> intVal \<and> intVal \<le> 2 ^ 31 - 1 then VInt32 intVal else VInt64 intVal
                    | None \<Rightarrow> (case parseFloat v of Some floatVal \<Rightarrow> float_result conv floatVal | None \<Rightarrow> VString v))"

section \<open>String results\<close>

lemma unquote_chars_backslash:
  "unquote_escape (CHR 0x22) s = Some (u, r) \<Longrightarrow>
     unquote_chars (CHR 0x22) (CHR 0x5C # s) = map_option ((@) u) (unquote_chars (CHR 0x22) r)"
  by (simp add: unquote_chars.simps)

lemma unquote_escape_byte:
  assumes "byte c < 0x80" "\<not> is_plain c"
  obtains e where "escape_byte c = CHR 0x5C # e" "\<And>r. unquote_escape (CHR 0x22) (e @ r) = Some ([c], r)"
proof (cases "c \<in> {CHR 0x22, CHR 0x5C, CHR 0x08, CHR 0x0C, CHR 0x0A, CHR 0x0D, CHR 0x09}")
  case True
  then have "escape_byte c = CHR 0x5C # tl (escape_byte c) \<and>
      (\<forall>r. unquote_escape (CHR 0x22) (tl (escape_byte c) @ r) = Some ([c], r))"
    unfolding insert_iff empty_iff by (elim disjE) (simp_all add: escape_byte_def unquote_escape_def less_eq_char_def)
  with that show ?thesis by blast
next
  case False
  let ?h = "hexdigit (byte c div 16)" and ?l = "hexdigit (byte c mod 16)"
  have "unquote_escape (CHR 0x22) ((''u00'' @ [?h, ?l]) @ r) = Some ([c], r)" for r
    using assms(1) by (simp add: unquote_escape_def escaped_rune_def valid_rune_def escape_hex)
  with False that show ?thesis by (simp add: escape_byte_def)
qed

lemma unquote_chars_escape:
  assumes "byte c < 0x80" "\<not> is_plain c"
  shows "unquote_chars (CHR 0x22) (escape_byte c @ r) = map_option ((#) c) (unquote_chars (CHR 0x22) r)"
proof -
  obtain e where "escape_byte c = CHR 0x5C # e" "unquote_escape (CHR 0x22) (e @ r) = Some ([c], r)"
    using unquote_escape_byte [OF assms] by blast
  moreover have "(@) [c] = (#) c" by (rule ext) simp
  ultimately show ?thesis by (simp add: unquote_chars_backslash)
qed

lemma unquote_chars_plain:
  "byte c < 0x80 \<Longrightarrow> is_plain c \<Longrightarrow> unquote_chars (CHR 0x22) (c # r) = map_option ((#) c) (unquote_chars (CHR 0x22) r)"
  by (auto simp: unquote_chars.simps is_plain_def less_eq_char_def)

lemma unquote_chars_replacement:
  "unquote_chars (CHR 0x22) (replacement @ r) = map_option ((@) rune_error) (unquote_chars (CHR 0x22) r)"
proof -
  have "unquote_escape (CHR 0x22) (''ufffd'' @ r) = Some (rune_error, r)"
    by (simp add: unquote_escape_def escaped_rune_def valid_rune_def rune_bytes_error replacement_hex)
  then show ?thesis by (simp add: replacement_def unquote_chars_backslash)
qed

lemma unquote_chars_rune:
  assumes "\<not> byte b < 0x80" "utf8_size (b # s) = Some n"
  shows "unquote_chars (CHR 0x22) (take n (b # s) @ r) = map_option ((@) (take n (b # s))) (unquote_chars (CHR 0x22) r)"
proof -
  have n: "2 \<le> n" "n \<le> length (b # s)" using utf8_size_bounds [OF assms(2)] by auto
  then obtain t where t: "take n (b # s) = b # t" by (cases n) auto
  have "b \<noteq> CHR 0x22" "b \<noteq> CHR 0x5C" "b \<noteq> CHR 0x0A" using assms(1) by (auto simp: byte_def)
  moreover have "utf8_size (b # t @ r) = Some n" using utf8_size_prefix [OF assms(2), of r] t by simp
  moreover have "length (b # t) = n" using t n by (metis length_take min.absorb2)
  ultimately show ?thesis using assms(1) unfolding t by (auto simp: unquote_chars.simps)
qed

lemma unquote_chars_quote: "unquote_chars (CHR 0x22) (quote_chars s @ [CHR 0x22]) = Some (to_valid s)"
proof (induction s rule: quote_chars.induct)
  case 1
  show ?case by (simp add: unquote_chars.simps)
next
  case (2 b s)
  consider "byte b < 0x80" "is_plain b" | "byte b < 0x80" "\<not> is_plain b"
    | "\<not> byte b < 0x80" "utf8_size (b # s) = None"
    | n where "\<not> byte b < 0x80" "utf8_size (b # s) = Some n" by fastforce
  then show ?case
  proof cases
    case 1
    with 2(1) show ?thesis by (simp add: quote_chars.simps to_valid.simps unquote_chars_plain)
  next
    case 2
    with \<open>byte b < 0x80 \<Longrightarrow> _\<close> show ?thesis
      by (simp add: quote_chars.simps to_valid.simps unquote_chars_escape)
  next
    case 3
    with 2(2) show ?thesis by (simp add: quote_chars.simps to_valid.simps unquote_chars_replacement)
  next
    case 4
    from unquote_chars_rune [OF this] 4 2(3) show ?thesis by (simp add: quote_chars.simps to_valid.simps)
  qed
qed

lemma Unquote_string: "strconv_Unquote ([CHR 0x22] @ quote_chars s @ [CHR 0x22]) = Some (to_valid s)"
  by (simp add: strconv_Unquote_def unquote_chars_quote)

text \<open>
  A query with one string as its result, evaluated with \<open>Unquote\<close>, gives that string, its bytes that are not UTF-8
  replaced: the quotes and escapes that the encoder adds are exactly those that \<open>strconv.Unquote\<close> removes.
\<close>

theorem Eval_unquotes:
  assumes "parse (Query opts) = Inr query" "compile (ModuleLoader opts) query = Inr code"
    and "run code (Data opts) = [Inr (VString s)]" "Unquote opts"
  shows "jq_Eval af parse compile run opts = JqOk (to_valid s)"
  using assms Unquote_string [of s] by (simp add: jq_Eval_def encodeString_text)

theorem Eval_unquotes_witness:
  "jq_Eval (\<lambda>_ _. []) (\<lambda>q. Inr ()) (\<lambda>m q. Inr ()) (\<lambda>c d. [Inr (VString [CHR 0x22, CHR 0xC3])])
     \<lparr>Query = ''.a'', Unquote = True, Data = (), ModuleLoader = None :: unit option\<rparr> =
   JqOk (to_valid [CHR 0x22, CHR 0xC3])"
  by (rule Eval_unquotes) simp_all

section \<open>Several results\<close>

definition result_text :: "(go_float \<Rightarrow> char \<Rightarrow> string) \<Rightarrow> jqvalue \<Rightarrow> string" where
  "result_text af v = (case jq_encode af (newEncoder False 0) 0 v [] of Some t \<Rightarrow> t | None \<Rightarrow> [])"

lemma encode_result_text:
  "\<not> foreign v \<Longrightarrow> jq_encode af (newEncoder False 0) 0 v w = Some (w @ result_text af v)"
  using encode_append(1)[of af "newEncoder False 0" 0 v w "[]"] encode_None(1)[of af "newEncoder False 0" 0 v "[]"]
  by (auto simp: result_text_def)

lemma encode_results_concat:
  "list_all (\<lambda>v. \<not> foreign v) vs \<Longrightarrow>
     encode_results af (map Inr vs) w = JqOk (w @ concat (map (result_text af) vs))"
  by (induction vs arbitrary: w) (auto simp: encode_result_text)

text \<open>
  A query with several results gives their texts one after the other, with nothing between them, so that the numbers 1
  and 2 come out as the number 12.
\<close>

theorem Eval_concatenates:
  assumes "parse (Query opts) = Inr query" "compile (ModuleLoader opts) query = Inr code"
    and "run code (Data opts) = map Inr vs" "list_all (\<lambda>v. \<not> foreign v) vs" "\<not> Unquote opts"
  shows "jq_Eval af parse compile run opts = JqOk (concat (map (result_text af) vs))"
  using assms by (simp add: jq_Eval_def encode_results_concat)

theorem Eval_concatenates_witness:
  "jq_Eval (\<lambda>_ _. []) (\<lambda>q. Inr ()) (\<lambda>m q. Inr ()) (\<lambda>c d. [Inr (VInt 1), Inr (VInt 2)])
     \<lparr>Query = ''1, 2'', Unquote = False, Data = (), ModuleLoader = None :: unit option\<rparr> = JqOk ''12''"
proof -
  have "concat (map (result_text (\<lambda>_ _. [])) [VInt 1, VInt 2]) = ''12''"
    by code_simp
  then show ?thesis
    by (subst Eval_concatenates [where vs = "[VInt 1, VInt 2]"]) simp_all
qed

text \<open>
  When a query has one result, an array, the callback of \<open>ForEach\<close> sees the elements of that array as they are
  decoded from its text, in order, until it returns an error; \<open>Unquote\<close> makes no difference.
\<close>

theorem ForEach_visits:
  assumes "parse (Query opts) = Inr query" "compile (ModuleLoader opts) query = Inr code"
    and "run code (Data opts) = [Inr (VArray vs)]" "float_printer af" "list_all encodable vs"
    and "those (map (go_any (\<lambda>t. map_option VFloat (parseFloat t)) \<circ> denote af) vs) = Some els"
  shows "ForEach af parseFloat parse compile run opts action s = each action els s"
proof -
  have "encodable (VArray vs)" using assms(5) by simp
  from encode_reads(1)[OF assms(4) this, of "newEncoder False 0" 0 "[]"] obtain t where
    t: "jq_encode af (newEncoder False 0) 0 (VArray vs) [] = Some t" "reads_as t (denote af (VArray vs))" by auto
  from reads_asD [OF t(2), of "Suc (length t)" "[]"] have r: "read_json t = Some (JArr (map (denote af) vs))"
    by (simp add: read_json_def decode_json_def)
  obtain t' where "t = CHR ''['' # t'"
    using t(1) encode_append(2)[of af "newEncoder False 0" 0 True vs "''[''" "[]"]
    by (cases "vs = []") (auto simp: newEncoder_def newline_append)
  then have "strconv_Unquote t = None" by (simp add: strconv_Unquote_def)
  with assms t(1) have "jq_Eval af parse compile run opts = JqOk t"
    by (simp add: jq_Eval_def del: jq_encode.simps)
  moreover have "Unmarshal_any parseFloat t = Some (VArray els)"
    using r assms(6) by (simp add: Unmarshal_any_def comp_def)
  ultimately show ?thesis by (simp add: ForEach_def)
qed

definition log_action :: "jqvalue \<Rightarrow> jqvalue list \<Rightarrow> jqvalue list \<times> string option" where
  "log_action v s = (s @ [v], if v = VNil then Some ''nil'' else None)"

theorem ForEach_visits_witness:
  "ForEach (\<lambda>_ _. ''0'') (\<lambda>_. None) (\<lambda>q. Inr ()) (\<lambda>m q. Inr ()) (\<lambda>c d. [Inr (VArray [VBool True, VNil, VBool False])])
     \<lparr>Query = ''.[]'', Unquote = True, Data = (), ModuleLoader = None :: unit option\<rparr> log_action [] =
   ([VBool True, VNil], JqErr (ActionError ''nil''))"
proof -
  have p: "float_printer (\<lambda>_ _. ''0'')"
    by (simp add: float_printer_def is_json_number_def json_int_def json_frac_def is_digit_def)
  have "ForEach (\<lambda>_ _. ''0'') (\<lambda>_. None) (\<lambda>q. Inr ()) (\<lambda>m q. Inr ()) (\<lambda>c d. [Inr (VArray [VBool True, VNil, VBool False])])
     \<lparr>Query = ''.[]'', Unquote = True, Data = (), ModuleLoader = None :: unit option\<rparr> log_action [] =
     each log_action [VBool True, VNil, VBool False] []"
    by (rule ForEach_visits [where vs = "[VBool True, VNil, VBool False]", OF _ _ _ p]) simp_all
  then show ?thesis by (simp add: log_action_def)
qed

text \<open>A module whose name is a plain file name is read from the directory; a name that goes up leaves it.\<close>

lemma dir_LoadModule_inside:
  assumes "path_Clean basePath = basePath" "basePath \<noteq> ''/''" "basePath \<noteq> ''.''" "CHR ''/'' \<notin> set name" "name \<noteq> []"
  shows "dir_LoadModule readFile parse basePath name =
    (case readFile (basePath @ ''/'' @ name @ ''.jq'') of Inl err \<Rightarrow> Inl err | Inr content \<Rightarrow> parse content)"
proof -
  have "length (name @ ''.jq'') > 2" by simp
  then have "name @ ''.jq'' \<noteq> ''.'' \<and> name @ ''.jq'' \<noteq> ''..''" by (auto simp del: append_eq_Cons_conv)
  then have "plain_seg (name @ ''.jq'')" using assms(4) by (simp add: plain_seg_def)
  from path_Join_name [OF assms(1-3) this] show ?thesis by (simp add: dir_LoadModule_def)
qed

lemma dir_LoadModule_escapes: "path_Join [''/app/modules'', ''../secret'' @ ''.jq''] = ''/app/secret.jq''"
  by code_simp

section \<open>The query of a template\<close>

text \<open>The brackets opened in a text, when none is closed before it was opened, counting \<open>n\<close> open ones before it.\<close>

definition stays_open :: "nat \<Rightarrow> string \<Rightarrow> bool" where
  "stays_open n q = (\<forall>p r. q = p @ r \<longrightarrow> count_list p (CHR ''}'') < n + count_list p (CHR ''{''))"

definition balanced :: "string \<Rightarrow> bool" where
  "balanced q = (stays_open 1 q \<and> count_list q (CHR ''{'') = count_list q (CHR ''}''))"

lemma stays_open_Nil [simp]: "stays_open n [] = (0 < n)"
  by (simp add: stays_open_def)

lemma stays_open_0 [simp]: "\<not> stays_open 0 q"
  unfolding stays_open_def by (metis append_Nil count_list.simps(1) less_irrefl add_0)

lemma all_prefixes_Cons: "(\<forall>p r. c # q = p @ r \<longrightarrow> P p) \<longleftrightarrow> P [] \<and> (\<forall>p r. q = p @ r \<longrightarrow> P (c # p))"
proof (intro iffI conjI allI impI)
  assume all: "\<forall>p r. c # q = p @ r \<longrightarrow> P p"
  then show "P []" by simp
  show "P (c # p)" if "q = p @ r" for p r using all that by simp
next
  fix p r
  assume "P [] \<and> (\<forall>p r. q = p @ r \<longrightarrow> P (c # p))" "c # q = p @ r"
  then show "P p" by (cases p) auto
qed

lemma stays_open_Cons [simp]:
  "stays_open n (c # q) =
     (0 < n \<and> stays_open (if c = CHR ''{'' then n + 1 else if c = CHR ''}'' then n - 1 else n) q)"
  unfolding stays_open_def all_prefixes_Cons by auto

lemma bracket_loop_Some:
  "0 < n \<Longrightarrow> bracket_loop s n e = Some e' \<longleftrightarrow>
     (\<exists>q r. s = q @ CHR ''}'' # r \<and> e' = e + length q \<and> stays_open n q \<and>
            n + count_list q (CHR ''{'') = count_list q (CHR ''}'') + 1)"
proof (induction s n e rule: bracket_loop.induct)
  case (2 c s n e)
  have cons: "(\<exists>q r. c # s = q @ CHR ''}'' # r \<and> e' = e + length q \<and> stays_open n q \<and>
      n + count_list q (CHR ''{'') = count_list q (CHR ''}'') + 1) \<longleftrightarrow>
    (c = CHR ''}'' \<and> e' = e \<and> n = 1) \<or>
    (\<exists>q r. s = q @ CHR ''}'' # r \<and> e' = e + 1 + length q \<and> stays_open n (c # q) \<and>
      n + count_list (c # q) (CHR ''{'') = count_list (c # q) (CHR ''}'') + 1)" (is "?L = ?R")
  proof
    assume ?L
    then obtain q r where q: "c # s = q @ CHR ''}'' # r" "e' = e + length q" "stays_open n q"
      "n + count_list q (CHR ''{'') = count_list q (CHR ''}'') + 1" by blast
    then show ?R by (cases q) auto
  next
    assume ?R
    then show ?L
    proof
      assume "c = CHR ''}'' \<and> e' = e \<and> n = 1"
      then show ?L by (intro exI [of _ "[]"] exI [of _ s]) simp
    next
      assume "\<exists>q r. s = q @ CHR ''}'' # r \<and> e' = e + 1 + length q \<and> stays_open n (c # q) \<and>
        n + count_list (c # q) (CHR ''{'') = count_list (c # q) (CHR ''}'') + 1"
      then obtain q r where "s = q @ CHR ''}'' # r \<and> e' = e + 1 + length q \<and> stays_open n (c # q) \<and>
        n + count_list (c # q) (CHR ''{'') = count_list (c # q) (CHR ''}'') + 1" by blast
      then show ?L by (intro exI [of _ "c # q"] exI [of _ r]) simp
    qed
  qed
  consider "c = CHR ''{''" | "c = CHR ''}''" "n = 1" | "c = CHR ''}''" "n \<noteq> 1" | "c \<noteq> CHR ''{''" "c \<noteq> CHR ''}''" by blast
  then show ?case
  proof cases
    case 1
    with 2 show ?thesis unfolding cons by simp
  next
    case 2
    then show ?thesis unfolding cons by auto
  next
    case 3
    have "n + a = Suc (b + 1) \<longleftrightarrow> n - Suc 0 + a = b + 1" for a b using \<open>0 < n\<close> by auto
    with 3 2(2) \<open>0 < n\<close> show ?thesis unfolding cons by simp
  next
    case 4
    with 2 show ?thesis unfolding cons by simp
  qed
qed simp

lemma Index2_Some:
  "Index2 s x y = Some i \<Longrightarrow> s = take i s @ [x, y] @ drop (i + 2) s \<and> Index2 (take i s) x y = None"
proof (induction s x y arbitrary: i rule: Index2.induct)
  case (1 a b s x y)
  show ?case
  proof (cases "a = x \<and> b = y")
    case True
    with 1(2) show ?thesis by auto
  next
    case False
    with 1(2) obtain j where j: "Index2 (b # s) x y = Some j" "i = Suc j" by auto
    from 1(1)[OF False j(1)] have IH: "b # s = take j (b # s) @ [x, y] @ drop (j + 2) (b # s)"
      "Index2 (take j (b # s)) x y = None" by auto
    have "Index2 (take i (a # b # s)) x y = None"
      using IH(2) False j(2) by (cases j) auto
    then show ?thesis using IH(1) j(2) by simp
  qed
qed auto

lemma Index2_None: "Index2 s x y = None \<longleftrightarrow> (\<nexists>a b. s = a @ [x, y] @ b)"
proof (induction s x y rule: Index2.induct)
  case (1 a b s x y)
  then show ?case by (auto simp: Cons_eq_append_conv)
qed (auto simp: Cons_eq_append_conv)

lemma Index2_first:
  "x \<noteq> y \<Longrightarrow> Index2 a x y = None \<Longrightarrow> Index2 (a @ [x, y] @ b) x y = Some (length a)"
proof (induction a x y rule: Index2.induct, goal_cases)
  case (3 v x y)
  then show ?case by (cases "v = x") auto
qed (auto split: if_splits)

text \<open>A template: text without \<open>${\<close>, then \<open>${\<close>, a query with balanced brackets and its closing bracket.\<close>

definition template :: "string \<Rightarrow> string \<Rightarrow> string \<Rightarrow> string \<Rightarrow> bool" where
  "template a q b s = (s = a @ ''${'' @ q @ ''}'' @ b \<and> Index2 a (CHR ''$'') (CHR ''{'') = None \<and> balanced q)"

lemma MaybeQuery_template:
  assumes "template a q b s"
  shows "MaybeQuery s = (TrimSpace q, True)"
proof -
  have s: "s = a @ [CHR ''$'', CHR ''{''] @ (q @ CHR ''}'' # b)" and q: "balanced q"
    using assms by (simp_all add: template_def)
  have i: "Index2 s (CHR ''$'') (CHR ''{'') = Some (length a)"
    using assms unfolding s by (intro Index2_first) (simp_all add: template_def)
  have "bracket_loop (q @ CHR ''}'' # b) 1 (length a + 2) = Some (length a + 2 + length q)"
    using q by (subst bracket_loop_Some) (auto simp: balanced_def)
  moreover have "drop (length a + 2) s = q @ CHR ''}'' # b" using s by simp
  ultimately show ?thesis using i by (simp add: MaybeQuery_def Let_def)
qed

lemma MaybeQuery_found:
  assumes "snd (MaybeQuery s)"
  shows "\<exists>a q b. template a q b s"
proof -
  obtain i where i: "Index2 s (CHR ''$'') (CHR ''{'') = Some i"
    using assms by (auto simp: MaybeQuery_def split: option.splits)
  with assms obtain e where e: "bracket_loop (drop (i + 2) s) 1 (i + 2) = Some e"
    by (auto simp: MaybeQuery_def Let_def split: option.splits)
  then obtain q r where "drop (i + 2) s = q @ CHR ''}'' # r" "balanced q"
    by (auto simp: bracket_loop_Some balanced_def)
  with Index2_Some [OF i] have "template (take i s) q r s" by (simp add: template_def)
  then show ?thesis by blast
qed

text \<open>
  \<open>MaybeQuery\<close> returns the query of the first \<open>${\<close> of the string, up to the bracket that closes it, brackets inside the query
  counted, without the space around it, exactly when there is such a bracket; else it returns the string itself.
\<close>

theorem MaybeQuery_exact:
  "(snd (MaybeQuery s) \<longleftrightarrow> (\<exists>a q b. template a q b s)) \<and>
   (\<forall>a q b. template a q b s \<longrightarrow> MaybeQuery s = (TrimSpace q, True)) \<and>
   (\<not> snd (MaybeQuery s) \<longrightarrow> MaybeQuery s = (s, False))"
proof (intro conjI allI impI)
  show "snd (MaybeQuery s) \<longleftrightarrow> (\<exists>a q b. template a q b s)"
    using MaybeQuery_found MaybeQuery_template by fastforce
  show "template a q b s \<Longrightarrow> MaybeQuery s = (TrimSpace q, True)" for a q b by (rule MaybeQuery_template)
  show "\<not> snd (MaybeQuery s) \<Longrightarrow> MaybeQuery s = (s, False)"
    by (auto simp: MaybeQuery_def Let_def split: option.splits)
qed

theorem MaybeQuery_exact_witness:
  "template ''a $'' '' {x: .y} '' ''!'' ''a $${ {x: .y} }!'' \<and> MaybeQuery ''a $${ {x: .y} }!'' = (''{x: .y}'', True) \<and>
   MaybeQuery ''${ {a'' = (''${ {a'', False)"
proof -
  have t: "template ''a $'' '' {x: .y} '' ''!'' ''a $${ {x: .y} }!''"
    by (simp add: template_def balanced_def)
  moreover have "TrimSpace '' {x: .y} '' = ''{x: .y}''" by (simp add: TrimSpace_def is_space_def)
  moreover have "\<not> snd (MaybeQuery ''${ {a'')" by (simp add: MaybeQuery_def)
  ultimately show ?thesis using MaybeQuery_exact [of "''a $${ {x: .y} }!''"] MaybeQuery_exact [of "''${ {a''"] by metis
qed

section \<open>Types of texts, shown\<close>

fun no_number :: "jqvalue \<Rightarrow> bool" where
  "no_number (VNumber n) = False"
| "no_number (VObject kvs) = list_all (\<lambda>(k, v). no_number v) kvs"
| "no_number (VArray vs) = list_all no_number vs"
| "no_number v = True"

lemma numberToGo_kind: "no_number (numberToGo pf n)" "\<not> foreign (numberToGo pf n)"
  by (auto simp: numberToGo_def split: option.splits)

lemma normalizeNumbers_no_number: "no_number (normalizeNumbers pf v)"
  by (induction pf v rule: normalizeNumbers.induct) (auto simp: numberToGo_kind list_all_iff)

lemma normalizeNumbers_foreign: "foreign (normalizeNumbers pf v) \<longleftrightarrow> foreign v"
proof (induction pf v rule: normalizeNumbers.induct)
  case (2 pf kvs)
  then have "(\<exists>x\<in>set kvs. foreign (normalizeNumbers pf (snd x))) \<longleftrightarrow> (\<exists>x\<in>set kvs. foreign (snd x))"
    by (intro bex_cong refl) (metis prod.collapse)
  then show ?case by (simp add: list_ex_iff split_def)
qed (auto simp: numberToGo_kind list_ex_iff)

lemma those_SomeD: "those xs = Some ys \<Longrightarrow> xs = map Some ys"
  by (induction xs arbitrary: ys) (auto split: option.splits)

lemma those_Some_iff: "those xs = Some ys \<longleftrightarrow> xs = map Some ys"
  by (induction xs arbitrary: ys) (auto split: option.splits simp: Cons_eq_map_conv)

lemma set_fold_update: "set (fold (\<lambda>(k, v) m. AList.update k v m) kvs m) \<subseteq> set m \<union> set kvs"
proof (induction kvs arbitrary: m)
  case (Cons kv kvs)
  obtain k v where kv: "kv = (k, v)" by (cases kv)
  have "set (AList.update k v m) \<subseteq> insert (k, v) (set m)" by (induction m) auto
  with Cons [of "AList.update k v m"] show ?case by (auto simp: kv)
qed simp

lemma go_any_not_foreign: "go_any (\<lambda>t. Some (VNumber t)) j = Some v \<Longrightarrow> \<not> foreign v"
proof (induction "\<lambda>t. Some (VNumber t)" j arbitrary: v rule: go_any.induct)
  case (5 js)
  then obtain vs where vs: "map (go_any (\<lambda>t. Some (VNumber t))) js = map Some vs" "v = VArray vs"
    by (auto simp: those_Some_iff)
  have "\<exists>j \<in> set js. go_any (\<lambda>t. Some (VNumber t)) j = Some x" if "x \<in> set vs" for x
  proof -
    have "Some x \<in> go_any (\<lambda>t. Some (VNumber t)) ` set js"
      using arg_cong [OF vs(1), of set] that by simp
    then show ?thesis by auto
  qed
  with 5(1) vs(2) show ?case by (fastforce simp: list_ex_iff)
next
  case (6 kjs)
  then obtain kvs where kvs: "map (\<lambda>(k, j). map_option (Pair k) (go_any (\<lambda>t. Some (VNumber t)) j)) kjs = map Some kvs"
    "v = VObject (fold (\<lambda>(k, v) m. AList.update k v m) kvs [])"
    by (auto simp: those_Some_iff)
  have "\<exists>j. (k, j) \<in> set kjs \<and> go_any (\<lambda>t. Some (VNumber t)) j = Some x" if "(k, x) \<in> set kvs" for k x
  proof -
    have "Some (k, x) \<in> (\<lambda>(k, j). map_option (Pair k) (go_any (\<lambda>t. Some (VNumber t)) j)) ` set kjs"
      using arg_cong [OF kvs(1), of set] that by simp
    then show ?thesis by (auto dest!: sym [of "Some _"])
  qed
  with 6(1) have "\<not> foreign x" if "(k, x) \<in> set kvs" for k x using that by fastforce
  with kvs(2) set_fold_update [of kvs "[]"] show ?case by (auto simp: list_ex_iff)
qed auto

lemma InferType_cases:
  "no_number (InferType pf conv s) \<and> \<not> foreign (InferType pf conv s)"
proof (cases "Option.bind (decode_json (TrimSpace s)) (go_any (\<lambda>t. Some (VNumber t)) \<circ> fst)")
  case (Some v)
  then obtain j where "go_any (\<lambda>t. Some (VNumber t)) j = Some v" by (auto simp: bind_eq_Some_conv)
  then have "\<not> foreign v" by (rule go_any_not_foreign)
  with Some show ?thesis
    by (simp add: InferType_def Let_def normalizeNumbers_no_number normalizeNumbers_foreign)
next
  case None
  have "no_number (float_result conv f) \<and> \<not> foreign (float_result conv f)" for f
    by (simp add: float_result_def split: go_float.split)
  with None show ?thesis by (simp add: InferType_def Let_def split: option.split)
qed

text \<open>
  The result of \<open>InferType\<close> holds no \<open>json.Number\<close> at any depth, and the encoder writes it without panicking, whatever the
  text: the two components agree on the types that pass between them.
\<close>

theorem InferType_encodes:
  "no_number (InferType pf conv s) \<and> jq_encode af e d (InferType pf conv s) w \<noteq> None"
  using InferType_cases [of pf conv s] by (simp add: encode_None)

text \<open>
  A text that begins with a number is taken for that number, whatever follows it: \<open>Decode\<close> reads the first value of its
  input and leaves the rest, so \<open>100m\<close> becomes 100, \<open>007\<close> becomes 0 and \<open>2024-01-01\<close> becomes 2024.
\<close>

theorem InferType_drops_rest:
  assumes "TrimSpace v = v" "scan_number v = Some r"
  shows "InferType pf conv v = numberToGo pf (take (length v - length r) v)"
proof -
  obtain c v' where v: "v = c # v'" using assms(2) by (cases v) (auto simp: scan_number_def scan_int_def)
  then have "number_char c" using assms(2)
    by (auto simp: scan_number_def scan_int_def number_char_def split: if_splits)
  then have c: "\<not> is_ws c" "c \<notin> set ''[]{},:''" "c \<noteq> CHR 0x22" "c \<noteq> CHR ''n''" "c \<noteq> CHR ''t''" "c \<noteq> CHR ''f''"
    using number_char_token by blast+
  have "decode_json v = Some (JNum (take (length v - length r) v), r)"
    using c assms(2) v by (simp add: decode_json_def read_literal_def HasPrefix_def)
  then show ?thesis using assms(1) v by (simp add: InferType_def Let_def)
qed

theorem InferType_drops_rest_witness:
  "InferType (\<lambda>_. None) floor ''100m'' = VInt32 100 \<and> InferType (\<lambda>_. None) floor ''007'' = VInt32 0 \<and>
   InferType (\<lambda>_. None) floor ''2024-01-01'' = VInt32 2024"
proof -
  have t: "TrimSpace ''100m'' = ''100m''" "TrimSpace ''007'' = ''007''" "TrimSpace ''2024-01-01'' = ''2024-01-01''"
    by (simp_all add: TrimSpace_def is_space_def)
  have s: "scan_number ''100m'' = Some ''m''" "scan_number ''007'' = Some ''07''" "scan_number ''2024-01-01'' = Some ''-01-01''"
    by (simp_all add: scan_number_def scan_int_def scan_frac_def scan_exp_def is_digit_def)
  have "numberToGo (\<lambda>_. None) ''100'' = VInt32 100" "numberToGo (\<lambda>_. None) ''0'' = VInt32 0"
    "numberToGo (\<lambda>_. None) ''2024'' = VInt32 2024"
    by (simp_all add: numberToGo_def Atoi_def read_digits_def is_digit_def digit_val_def)
  with InferType_drops_rest [OF t(1) s(1)] InferType_drops_rest [OF t(2) s(2)] InferType_drops_rest [OF t(3) s(3)]
  show ?thesis by simp
qed

section \<open>Inferring what was encoded\<close>

text \<open>
  The values that come back: integers in the width that \<open>InferType\<close> chooses, floats that \<open>ParseFloat\<close> reads back and whose text is
  no integer, valid UTF-8, objects listed in the order of their keys.
\<close>

fun inferable :: "(go_float \<Rightarrow> char \<Rightarrow> string) \<Rightarrow> (string \<Rightarrow> go_float option) \<Rightarrow> jqvalue \<Rightarrow> bool" where
  "inferable af pf VNil = True"
| "inferable af pf (VBool b) = True"
| "inferable af pf (VInt32 i) = (- (2 ^ 31) \<le> i \<and> i < 2 ^ 31)"
| "inferable af pf (VInt64 i) = (- (2 ^ 63) \<le> i \<and> i < 2 ^ 63 \<and> \<not> (- (2 ^ 31) \<le> i \<and> i < 2 ^ 31))"
| "inferable af pf (VFloat f) = (f \<noteq> FNaN \<and> pf (float_text af f) = Some f \<and> Atoi (float_text af f) = None)"
| "inferable af pf (VString s) = (to_valid s = s)"
| "inferable af pf (VArray vs) = list_all (inferable af pf) vs"
| "inferable af pf (VObject kvs) =
     (sorted (map fst kvs) \<and> distinct (map fst kvs) \<and> list_all (\<lambda>(k, v). to_valid k = k \<and> inferable af pf v) kvs)"
| "inferable af pf _ = False"

lemma Atoi_minus: "Atoi (CHR ''-'' # s) =
    (case read_digits s of None \<Rightarrow> None | Some n \<Rightarrow> if - (2 ^ 63) \<le> - int n \<and> - int n < 2 ^ 63 then Some (- int n) else None)"
  by (simp add: Atoi_def split: option.split)

lemma Atoi_Itoa: "- (2 ^ 63) \<le> i \<Longrightarrow> i < 2 ^ 63 \<Longrightarrow> Atoi (Itoa i) = Some i"
  using Atoi_show_nat [of "nat i"]
  by (cases "i < 0") (auto simp: Itoa_def Atoi_minus read_digits_show_nat)

lemma numberToGo_Itoa:
  "- (2 ^ 63) \<le> i \<Longrightarrow> i < 2 ^ 63 \<Longrightarrow>
     numberToGo pf (Itoa i) = (if - (2 ^ 31) \<le> i \<and> i < 2 ^ 31 then VInt32 i else VInt64 i)"
  by (auto simp: numberToGo_def Atoi_Itoa)

lemma fold_update_distinct:
  "distinct (map fst (m @ kvs)) \<Longrightarrow> fold (\<lambda>(k, v) m. AList.update k v m) kvs m = m @ kvs"
proof (induction kvs arbitrary: m)
  case (Cons kv kvs)
  obtain k v where kv: "kv = (k, v)" by (cases kv)
  have "AList.update k v m = m @ [(k, v)]" if "k \<notin> fst ` set m" for m :: "('a \<times> 'b) list"
    using that by (induction m) auto
  with Cons kv show ?case by auto
qed simp

lemma sort_sorted_members: "sorted (map fst kvs) \<Longrightarrow> sort_key fst kvs = kvs"
  by (rule sort_key_id_if_sorted)

lemma inferable_encodable: "inferable af pf v \<Longrightarrow> encodable v"
  by (induction af pf v rule: inferable.induct) (auto simp: list_all_iff)

lemma go_any_denote:
  assumes "inferable af pf v"
  shows "\<exists>u. go_any (\<lambda>t. Some (VNumber t)) (denote af v) = Some u \<and> normalizeNumbers pf u = v"
  using assms
proof (induction af pf v rule: inferable.induct)
  case (7 af pf vs)
  let ?g = "\<lambda>v. go_any (\<lambda>t. Some (VNumber t)) (denote af v)"
  from 7 have "\<forall>v\<in>set vs. \<exists>u. ?g v = Some u \<and> normalizeNumbers pf u = v" by (simp add: list_all_iff)
  then obtain f where f: "\<And>v. v \<in> set vs \<Longrightarrow> ?g v = Some (f v) \<and> normalizeNumbers pf (f v) = v" by metis
  have "those (map ?g vs) = Some (map f vs)" using f by (simp add: those_Some_iff)
  then show ?case using f by (auto simp: comp_def intro!: exI [of _ "VArray (map f vs)"] map_idI)
next
  case (8 af pf kvs)
  let ?g = "\<lambda>v. go_any (\<lambda>t. Some (VNumber t)) (denote af v)"
  from 8 have "\<forall>kv\<in>set kvs. \<exists>u. ?g (snd kv) = Some u \<and> normalizeNumbers pf u = snd kv" by (fastforce simp: list_all_iff)
  then obtain f where f: "\<And>kv. kv \<in> set kvs \<Longrightarrow> ?g (snd kv) = Some (f kv) \<and> normalizeNumbers pf (f kv) = snd kv" by metis
  have k: "to_valid k = k" if "(k, v) \<in> set kvs" for k v using 8(2) that by (auto simp: list_all_iff)
  have "map (apfst to_valid) (sort_key fst (map (\<lambda>(k, v). (k, denote af v)) kvs)) = map (\<lambda>(k, v). (k, denote af v)) kvs"
    using 8(2) k unfolding sort_map_values by (auto simp: sort_sorted_members)
  moreover have "those (map (\<lambda>(k, j). map_option (Pair k) (go_any (\<lambda>t. Some (VNumber t)) j)) (map (\<lambda>(k, v). (k, denote af v)) kvs)) =
      Some (map (\<lambda>kv. (fst kv, f kv)) kvs)"
    using f by (auto simp: those_Some_iff)
  moreover have "fold (\<lambda>(k, v) m. AList.update k v m) (map (\<lambda>kv. (fst kv, f kv)) kvs) [] = map (\<lambda>kv. (fst kv, f kv)) kvs"
    using 8(2) fold_update_distinct [of "[]" "map (\<lambda>kv. (fst kv, f kv)) kvs"] by (simp add: comp_def)
  moreover have "map ((\<lambda>(k, v). (k, normalizeNumbers pf v)) \<circ> (\<lambda>kv. (fst kv, f kv))) kvs = kvs"
    using f by (intro map_idI) auto
  ultimately show ?case by (intro exI [of _ "VObject (map (\<lambda>kv. (fst kv, f kv)) kvs)"]) simp
qed (auto simp: numberToGo_Itoa numberToGo_def [of _ "float_text _ _"])

lemma TrimSpace_id: "t \<noteq> [] \<Longrightarrow> \<not> is_space (hd t) \<Longrightarrow> \<not> is_space (last t) \<Longrightarrow> TrimSpace t = t"
proof -
  have d: "dropWhile is_space xs = xs" if "xs \<noteq> []" "\<not> is_space (hd xs)" for xs
    using that by (cases xs) auto
  assume "t \<noteq> []" "\<not> is_space (hd t)" "\<not> is_space (last t)"
  then show ?thesis using d [of t] d [of "rev t"] by (simp add: TrimSpace_def hd_rev)
qed

definition tight :: "string \<Rightarrow> bool" where
  "tight t = (t \<noteq> [] \<and> \<not> is_space (hd t) \<and> \<not> is_space (last t))"

lemma number_tight: "is_json_number t \<Longrightarrow> tight t"
proof -
  have "number_char c \<Longrightarrow> \<not> is_space c" for c by (auto simp: number_char_def is_digit_def is_space_def)
  then show "is_json_number t \<Longrightarrow> tight t"
    using json_number_chars [of t] by (auto simp: tight_def list_all_iff)
qed

lemma bracketed_tight: "tight (''['' @ t @ '']'')" "tight (''{'' @ t @ ''}'')" "tight ([CHR 0x22] @ t @ [CHR 0x22])"
  by (simp_all add: tight_def is_space_def)

lemma literal_tight: "tight ''null''" "tight ''true''" "tight ''false''"
  by (simp_all add: tight_def is_space_def)

lemma encode_tight:
  assumes "float_printer af" "inferable af pf v" "jq_encode af e d v [] = Some t"
  shows "tight t"
proof (cases v)
  case (VArray vs)
  with assms(3) encode_append(2)[of af e "d + ec_indent e" True vs "''[''" "[]"] obtain t' where
    "t = ''['' @ t' @ '']''" by (cases "vs = []") (auto simp: newline_append)
  then show ?thesis by (simp only: bracketed_tight)
next
  case (VObject kvs)
  with assms(3) encode_append(3)[of af e "d + ec_indent e" True "sort_key fst kvs" "''{''" "[]"] obtain t' where
    "t = ''{'' @ t' @ ''}''" by (cases "kvs = []") (auto simp: newline_append)
  then show ?thesis by (simp only: bracketed_tight)
next
  case (VFloat f)
  with assms show ?thesis by (auto simp: encodeFloat64_def intro: number_tight float_text_number)
next
  case (VString s)
  with assms(3) have "t = [CHR 0x22] @ quote_chars s @ [CHR 0x22]" by (simp add: encodeString_text)
  then show ?thesis by (simp only: bracketed_tight)
qed (use assms number_tight [OF Itoa_number] literal_tight in auto)

text \<open>
  C32: \<open>InferType\<close> inverts the encoder: the text of a value whose numbers have the types that \<open>InferType\<close> chooses, at any
  indentation, is inferred to be that value.  Of the two float functions it uses that texts of finite numbers are numbers
  and, for the floats that occur, that they are read back.
\<close>

theorem InferType_inverts_encode:
  assumes "float_printer af" "inferable af pf v"
  shows "\<exists>t. jq_encode af e d v [] = Some t \<and> InferType pf conv t = v"
proof -
  from encode_reads(1)[OF assms(1) inferable_encodable [OF assms(2)], of e d "[]"] obtain t where
    t: "jq_encode af e d v [] = Some t" "reads_as t (denote af v)" by auto
  from reads_asD [OF t(2), of "Suc (length t)" "[]"] have "decode_json t = Some (denote af v, [])"
    by (simp add: decode_json_def)
  moreover obtain u where "go_any (\<lambda>t. Some (VNumber t)) (denote af v) = Some u" "normalizeNumbers pf u = v"
    using go_any_denote [OF assms(2)] by blast
  moreover have "tight t" by (rule encode_tight [OF assms t(1)])
  then have "TrimSpace t = t" "t \<noteq> []" by (auto simp: tight_def TrimSpace_id)
  ultimately have "InferType pf conv t = v" by (simp add: InferType_def Let_def)
  with t(1) show ?thesis by blast
qed

definition inferable_sample :: jqvalue where
  "inferable_sample = VObject [(''a'', VArray [VInt32 (- 7), VInt64 4294967296, VNil]), (''b'', VFloat (FFin (3 / 2)))]"

theorem InferType_inverts_encode_witness:
  "inferable (\<lambda>_ _. ''1.5'') (\<lambda>_. Some (FFin (3 / 2))) inferable_sample \<and>
   (\<exists>t. jq_encode (\<lambda>_ _. ''1.5'') (newEncoder True 1) 0 inferable_sample [] = Some t \<and>
        InferType (\<lambda>_. Some (FFin (3 / 2))) floor t = inferable_sample)"
proof -
  have n: "is_json_number ''1.5''" by code_simp
  then have p: "float_printer (\<lambda>_ _. ''1.5'')" by (simp add: float_printer_def)
  have "Atoi (float_text (\<lambda>_ _. ''1.5'') (FFin (3 / 2))) = None"
    by (simp add: float_text_def clamp_float_def clean_exponent_def Let_def abs_float_def max_float_def Atoi_def read_digits_def is_digit_def)
  moreover have "to_valid ''a'' = ''a''" "to_valid ''b'' = ''b''" by (simp_all add: to_valid.simps byte_def)
  ultimately have i: "inferable (\<lambda>_ _. ''1.5'') (\<lambda>_. Some (FFin (3 / 2))) inferable_sample"
    by (simp add: inferable_sample_def less_eq_char_def)
  show ?thesis using i InferType_inverts_encode [OF p i] by blast
qed

end
