(* ===== verification/Repo_Index.thy ===== *)
theory Repo_Index
  imports Go_Path "HOL-Library.Multiset"
begin

text \<open>
  \<open>helm/getter/repo\<close>: the index of a chart repository, \<open>index.go\<close>, \<open>load.go\<close>, \<open>helpers.go\<close> and \<open>types.go\<close>.

  An entry of the index is a pointer and may be \<open>None\<close>.  The library \<open>semver\<close> is a record of functions; \<open>sort.Sort\<close> is an
  argument with the contract of its documentation (a permutation, in order when the comparison is a strict weak order);
  \<open>yaml\<close> and \<open>net/url\<close> are arguments too.  Ranging over a map takes the order of the visit as an argument.  A dereference
  of \<open>nil\<close> is a result of its own.

  Shown: which version \<open>Get\<close> returns, in particular that with no version asked for it is a newest one that the constraint
  \<open>*\<close> admits; that \<open>Merge\<close> keeps what is there and adds what is missing; and where the code departs from its comments.
\<close>

section \<open>Types\<close>

text \<open>The values that no code of the package reads, \<open>ImportValues\<close> and \<open>ServerInfo\<close>, are left out.\<close>

record maintainer =
  mt_Name :: string
  mt_Email :: string
  mt_URL :: string

record dependency =
  dp_Name :: string
  dp_Version :: string
  dp_Repository :: string
  dp_Condition :: string
  dp_Tags :: "string list"
  dp_Enabled :: bool
  dp_Alias :: string

record metadata =
  md_Name :: string
  md_Home :: string
  md_Sources :: "string list"
  md_Version :: string
  md_Description :: string
  md_Keywords :: "string list"
  md_Maintainers :: "maintainer list"
  md_Icon :: string
  md_APIVersion :: string
  md_Condition :: string
  md_Tags :: string
  md_AppVersion :: string
  md_Deprecated :: bool
  md_Annotations :: "(string, string) gomap"
  md_KubeVersion :: string
  md_Dependencies :: "dependency list"
  md_Type :: string

record chart_version =
  cv_Metadata :: metadata
  cv_URLs :: "string list"
  cv_Created :: instant
  cv_Removed :: bool
  cv_Digest :: string

abbreviation cv_Name :: "chart_version \<Rightarrow> string" where "cv_Name cv \<equiv> md_Name (cv_Metadata cv)"
abbreviation cv_Version :: "chart_version \<Rightarrow> string" where "cv_Version cv \<equiv> md_Version (cv_Metadata cv)"

type_synonym chart_versions = "chart_version option list"

record index_file =
  ix_APIVersion :: string
  ix_Generated :: instant
  ix_Entries :: "(string, chart_versions) gomap option"
  ix_PublicKeys :: "string list"
  ix_Annotations :: "(string, string) gomap"

datatype index_error =
    ErrNoAPIVersion
  | ErrNoChartVersion
  | ErrNoChartName
  | ErrEmptyIndexYaml
  | InvalidConstraint string
  | NoVersionFound string string
  | EntriesNotInitialized
  | DecodeFailed string string

text \<open>\<open>github.com/Masterminds/semver\<close>.\<close>

record ('v, 'c) semver =
  sv_NewVersion :: "string \<Rightarrow> 'v option"
  sv_LessThan :: "'v \<Rightarrow> 'v \<Rightarrow> bool"
  sv_Prerelease :: "'v \<Rightarrow> string"
  sv_Original :: "'v \<Rightarrow> string"
  sv_NewConstraint :: "string \<Rightarrow> 'c option"
  sv_Check :: "'c \<Rightarrow> 'v \<Rightarrow> bool"

section \<open>Operations\<close>

definition cv_Less :: "('v, 'c) semver \<Rightarrow> chart_version option \<Rightarrow> chart_version option \<Rightarrow> bool" where
  "cv_Less sv x y =
     (case x of
        None \<Rightarrow> False
      | Some a \<Rightarrow>
          (case y of
             None \<Rightarrow> True
           | Some b \<Rightarrow>
               (case sv_NewVersion sv (cv_Version a) of
                  None \<Rightarrow> True
                | Some i \<Rightarrow>
                    (case sv_NewVersion sv (cv_Version b) of
                       None \<Rightarrow> False
                     | Some j \<Rightarrow> sv_LessThan sv i j))))"

definition NewIndexFile :: "instant \<Rightarrow> index_file" where
  "NewIndexFile now =
     \<lparr>ix_APIVersion = ''v1'', ix_Generated = now, ix_Entries = Some [], ix_PublicKeys = [], ix_Annotations = []\<rparr>"

text \<open>\<open>URLJoin\<close>, with \<open>net/url\<close> as a record.\<close>

record 'u net_url =
  url_Parse :: "string \<Rightarrow> 'u option"
  url_Path :: "'u \<Rightarrow> string"
  url_SetPath :: "string \<Rightarrow> 'u \<Rightarrow> 'u"
  url_String :: "'u \<Rightarrow> string"
  url_IsAbs :: "'u \<Rightarrow> bool"
  url_Scheme :: "'u \<Rightarrow> string"
  url_Host :: "'u \<Rightarrow> string"

definition URLJoin :: "'u net_url \<Rightarrow> string \<Rightarrow> string list \<Rightarrow> string option" where
  "URLJoin net baseURL paths =
     (case url_Parse net baseURL of
        None \<Rightarrow> None
      | Some u \<Rightarrow> Some (url_String net (url_SetPath net (path_Join (url_Path net u # paths)) u)))"

text \<open>\<open>MustAdd\<close> returns the metadata too, whose API version it may set.\<close>

definition MustAdd ::
  "'u net_url \<Rightarrow> instant \<Rightarrow> index_file \<Rightarrow> metadata \<Rightarrow> string \<Rightarrow> string \<Rightarrow> string \<Rightarrow> index_error + (index_file \<times> metadata)" where
  "MustAdd net now i md filename baseURL digest =
     (case ix_Entries i of
        None \<Rightarrow> Inl EntriesNotInitialized
      | Some entries \<Rightarrow>
          let md' = (if md_APIVersion md = [] then md\<lparr>md_APIVersion := ''v1''\<rparr> else md);
              u = (if baseURL \<noteq> []
                   then let file = snd (path_Split filename) in
                        (case URLJoin net baseURL [file] of Some u \<Rightarrow> u | None \<Rightarrow> path_Join [baseURL, file])
                   else filename);
              cr = \<lparr>cv_Metadata = md', cv_URLs = [u], cv_Created = now, cv_Removed = False, cv_Digest = digest\<rparr>;
              ee = (case map_of entries (md_Name md') of Some ee \<Rightarrow> ee | None \<Rightarrow> [])
          in Inr (i\<lparr>ix_Entries := Some (AList.update (md_Name md') (ee @ [Some cr]) entries)\<rparr>, md'))"

definition SortEntries ::
  "((chart_version option \<Rightarrow> chart_version option \<Rightarrow> bool) \<Rightarrow> chart_versions \<Rightarrow> chart_versions) \<Rightarrow>
   ('v, 'c) semver \<Rightarrow> index_file \<Rightarrow> index_file" where
  "SortEntries srt sv i =
     i\<lparr>ix_Entries := map_option (map (\<lambda>(name, versions). (name, srt (\<lambda>a b. cv_Less sv b a) versions))) (ix_Entries i)\<rparr>"

datatype get_result = GetOk chart_version | GetErr index_error | GetPanic

text \<open>The two loops of \<open>Get\<close>: \<open>None\<close> when no entry is chosen.\<close>

fun exact_loop :: "string \<Rightarrow> chart_versions \<Rightarrow> get_result option" where
  "exact_loop version [] = None"
| "exact_loop version (None # vs) = Some GetPanic"
| "exact_loop version (Some ver # vs) = (if version = cv_Version ver then Some (GetOk ver) else exact_loop version vs)"

fun constraint_loop :: "('v, 'c) semver \<Rightarrow> 'c option \<Rightarrow> chart_versions \<Rightarrow> get_result option" where
  "constraint_loop sv c [] = None"
| "constraint_loop sv c (None # vs) = Some GetPanic"
| "constraint_loop sv c (Some ver # vs) =
     (case sv_NewVersion sv (cv_Version ver) of
        None \<Rightarrow> constraint_loop sv c vs
      | Some test \<Rightarrow>
          (case c of
             None \<Rightarrow> Some GetPanic
           | Some c' \<Rightarrow> if sv_Check sv c' test then Some (GetOk ver) else constraint_loop sv c vs))"

definition index_Get :: "('v, 'c) semver \<Rightarrow> index_file \<Rightarrow> string \<Rightarrow> string \<Rightarrow> get_result" where
  "index_Get sv i name version =
     (case Option.bind (ix_Entries i) (\<lambda>m. map_of m name) of
        None \<Rightarrow> GetErr ErrNoChartName
      | Some vs \<Rightarrow>
          if vs = [] then GetErr ErrNoChartVersion
          else let c = sv_NewConstraint sv (if version = [] then ''*'' else version) in
               if version \<noteq> [] \<and> c = None then GetErr (InvalidConstraint version)
               else (case (if version \<noteq> [] then exact_loop version vs else None) of
                       Some r \<Rightarrow> r
                     | None \<Rightarrow>
                         (case constraint_loop sv c vs of
                            Some r \<Rightarrow> r
                          | None \<Rightarrow> GetErr (NoVersionFound name version))))"

text \<open>\<open>Has\<close>; \<open>None\<close> is a panic in \<open>Get\<close>.\<close>

definition index_Has :: "('v, 'c) semver \<Rightarrow> index_file \<Rightarrow> string \<Rightarrow> string \<Rightarrow> bool option" where
  "index_Has sv i name version =
     (case index_Get sv i name version of GetOk _ \<Rightarrow> Some True | GetErr _ \<Rightarrow> Some False | GetPanic \<Rightarrow> None)"

text \<open>\<open>Merge\<close>, over the entries of the other index in the order of the visit; \<open>None\<close> is a panic.\<close>

fun merge_versions :: "('v, 'c) semver \<Rightarrow> index_file \<Rightarrow> chart_versions \<Rightarrow> index_file option" where
  "merge_versions sv i [] = Some i"
| "merge_versions sv i (None # cvs) = None"
| "merge_versions sv i (Some cv # cvs) =
     (case index_Has sv i (cv_Name cv) (cv_Version cv) of
        None \<Rightarrow> None
      | Some True \<Rightarrow> merge_versions sv i cvs
      | Some False \<Rightarrow>
          (case ix_Entries i of
             None \<Rightarrow> None
           | Some entries \<Rightarrow>
               let e = (case map_of entries (cv_Name cv) of Some e \<Rightarrow> e | None \<Rightarrow> []) in
               merge_versions sv (i\<lparr>ix_Entries := Some (AList.update (cv_Name cv) (e @ [Some cv]) entries)\<rparr>) cvs))"

fun merge_entries :: "('v, 'c) semver \<Rightarrow> index_file \<Rightarrow> (string \<times> chart_versions) list \<Rightarrow> index_file option" where
  "merge_entries sv i [] = Some i"
| "merge_entries sv i ((name, cvs) # es) =
     (case merge_versions sv i cvs of None \<Rightarrow> None | Some i' \<Rightarrow> merge_entries sv i' es)"

definition index_Merge ::
  "((string, chart_versions) gomap \<Rightarrow> (string, chart_versions) gomap) \<Rightarrow> ('v, 'c) semver \<Rightarrow> index_file \<Rightarrow> index_file \<Rightarrow> index_file option" where
  "index_Merge visit sv i f = merge_entries sv i (case ix_Entries f of Some m \<Rightarrow> visit m | None \<Rightarrow> [])"

datatype decoded = DecOk index_file | DecEOF index_file | DecErr index_file string

text \<open>The default of the API version of every entry; entries that are \<open>nil\<close> are logged and stay.\<close>

definition default_APIVersion :: "chart_version option \<Rightarrow> chart_version option" where
  "default_APIVersion = map_option (\<lambda>cv.
     if md_APIVersion (cv_Metadata cv) = [] then cv\<lparr>cv_Metadata := (cv_Metadata cv)\<lparr>md_APIVersion := ''v1''\<rparr>\<rparr> else cv)"

definition index_Load ::
  "((chart_version option \<Rightarrow> chart_version option \<Rightarrow> bool) \<Rightarrow> chart_versions \<Rightarrow> chart_versions) \<Rightarrow> ('v, 'c) semver \<Rightarrow>
   ('r \<Rightarrow> decoded) \<Rightarrow> 'r \<Rightarrow> string \<Rightarrow> index_file \<times> index_error option" where
  "index_Load srt sv decode r source =
     (case decode r of
        DecEOF i \<Rightarrow> (i, Some ErrEmptyIndexYaml)
      | DecErr i err \<Rightarrow> (i, Some (DecodeFailed source err))
      | DecOk i \<Rightarrow>
          let i' = SortEntries srt sv
                     (i\<lparr>ix_Entries := map_option (map (\<lambda>(name, cvs). (name, map default_APIVersion cvs))) (ix_Entries i)\<rparr>)
          in (i', if ix_APIVersion i' = [] then Some ErrNoAPIVersion else None))"

section \<open>What \<open>Get\<close> returns\<close>

lemma exact_loop_find:
  "None \<notin> set vs \<Longrightarrow>
     exact_loop version vs = map_option GetOk (find (\<lambda>cv. version = cv_Version cv) (map the vs))"
  by (induction version vs rule: exact_loop.induct) auto

definition satisfies :: "('v, 'c) semver \<Rightarrow> 'c \<Rightarrow> chart_version \<Rightarrow> bool" where
  "satisfies sv c cv = (case sv_NewVersion sv (cv_Version cv) of None \<Rightarrow> False | Some v \<Rightarrow> sv_Check sv c v)"

lemma constraint_loop_find:
  "None \<notin> set vs \<Longrightarrow> constraint_loop sv (Some c) vs = map_option GetOk (find (satisfies sv c) (map the vs))"
  by (induction sv "Some c" vs rule: constraint_loop.induct) (auto simp: satisfies_def split: option.split)

text \<open>
  What \<open>Get\<close> returns for an index without \<open>nil\<close> entries: the errors for an unknown name, an empty list and a version that
  is no constraint; else the first entry with exactly the version asked for; else the first whose version the constraint
  admits; else the error that there is none.
\<close>

theorem index_Get_chooses:
  assumes "ix_Entries i = Some m" "\<And>vs. map_of m name = Some vs \<Longrightarrow> None \<notin> set vs" "sv_NewConstraint sv ''*'' \<noteq> None"
  shows "index_Get sv i name version =
    (case map_of m name of
       None \<Rightarrow> GetErr ErrNoChartName
     | Some [] \<Rightarrow> GetErr ErrNoChartVersion
     | Some vs \<Rightarrow>
         (case sv_NewConstraint sv (if version = [] then ''*'' else version) of
            None \<Rightarrow> GetErr (InvalidConstraint version)
          | Some c \<Rightarrow>
              (case find (\<lambda>cv. version \<noteq> [] \<and> version = cv_Version cv) (map the vs) of
                 Some cv \<Rightarrow> GetOk cv
               | None \<Rightarrow>
                   (case find (satisfies sv c) (map the vs) of
                      Some cv \<Rightarrow> GetOk cv
                    | None \<Rightarrow> GetErr (NoVersionFound name version)))))"
proof (cases "map_of m name")
  case None
  then show ?thesis using assms(1) by (simp add: index_Get_def)
next
  case (Some vs)
  then have vs: "None \<notin> set vs" by (rule assms(2))
  have none: "find (\<lambda>cv. False) xs = None" for xs :: "chart_version list" by (induction xs) auto
  show ?thesis
  proof (cases "vs = []")
    case True
    then show ?thesis using Some assms(1) by (simp add: index_Get_def)
  next
    case False
    then obtain v vs' where "vs = v # vs'" by (cases vs) auto
    show ?thesis
    proof (cases "sv_NewConstraint sv (if version = [] then ''*'' else version)")
      case None
      then have "version \<noteq> []" using assms(3) by auto
      then show ?thesis using Some assms(1) None \<open>vs = v # vs'\<close> by (simp add: index_Get_def)
    next
      case (Some c)
      show ?thesis
        using \<open>map_of m name = Some vs\<close> assms(1) Some \<open>vs = v # vs'\<close> exact_loop_find [OF vs, of version]
          constraint_loop_find [OF vs, of sv c] none
        by (cases "version = []") (simp_all add: index_Get_def Let_def option.map_comp split: option.split)
    qed
  qed
qed

section \<open>The newest version\<close>

definition weak_order :: "('a \<Rightarrow> 'a \<Rightarrow> bool) \<Rightarrow> 'a set \<Rightarrow> bool" where
  "weak_order lt A =
     ((\<forall>a\<in>A. \<not> lt a a) \<and> (\<forall>a\<in>A. \<forall>b\<in>A. \<forall>c\<in>A. lt a b \<longrightarrow> lt b c \<longrightarrow> lt a c) \<and>
      (\<forall>a\<in>A. \<forall>b\<in>A. \<forall>c\<in>A. lt a c \<longrightarrow> lt a b \<or> lt b c))"

text \<open>The contract of \<open>sort.Sort\<close>.\<close>

definition go_sort :: "(('a \<Rightarrow> 'a \<Rightarrow> bool) \<Rightarrow> 'a list \<Rightarrow> 'a list) \<Rightarrow> bool" where
  "go_sort srt =
     (\<forall>lt xs. mset (srt lt xs) = mset xs \<and>
        (weak_order lt (set xs) \<longrightarrow> sorted_wrt (\<lambda>a b. \<not> lt b a) (srt lt xs)))"

text \<open>Insertion sort, which \<open>sort.Sort\<close> uses on short slices, keeps the contract.\<close>

fun ins :: "('a \<Rightarrow> 'a \<Rightarrow> bool) \<Rightarrow> 'a \<Rightarrow> 'a list \<Rightarrow> 'a list" where
  "ins lt x [] = [x]"
| "ins lt x (y # ys) = (if lt y x then y # ins lt x ys else x # y # ys)"

definition insertion_sort :: "('a \<Rightarrow> 'a \<Rightarrow> bool) \<Rightarrow> 'a list \<Rightarrow> 'a list" where
  "insertion_sort lt xs = foldr (ins lt) xs []"

lemma mset_ins: "mset (ins lt x ys) = add_mset x (mset ys)"
  by (induction ys) auto

lemma set_ins: "set (ins lt x ys) = insert x (set ys)"
  by (induction ys) auto

lemma sorted_ins:
  "weak_order lt A \<Longrightarrow> x \<in> A \<Longrightarrow> set ys \<subseteq> A \<Longrightarrow> sorted_wrt (\<lambda>a b. \<not> lt b a) ys \<Longrightarrow>
     sorted_wrt (\<lambda>a b. \<not> lt b a) (ins lt x ys)"
proof (induction ys)
  case (Cons y ys)
  show ?case
  proof (cases "lt y x")
    case True
    have xy: "x \<in> A" "y \<in> A" using Cons.prems by auto
    have "\<not> lt x y"
    proof
      assume "lt x y"
      with True xy Cons.prems(1) have "lt x x" unfolding weak_order_def by blast
      with xy Cons.prems(1) show False unfolding weak_order_def by blast
    qed
    with True Cons.IH [OF Cons.prems(1,2)] Cons.prems(3,4) show ?thesis by (simp add: set_ins)
  next
    case False
    have "\<not> lt z x" if "z \<in> set ys" for z
    proof
      assume "lt z x"
      moreover have "y \<in> A" "z \<in> A" using that Cons.prems(3) by auto
      ultimately have "lt z y \<or> lt y x" using Cons.prems(1,2) unfolding weak_order_def by blast
      with False that Cons.prems(4) show False by auto
    qed
    with False Cons.prems(4) show ?thesis by simp
  qed
qed simp

lemma go_sort_insertion: "go_sort insertion_sort"
  unfolding go_sort_def
proof (intro allI conjI impI)
  fix lt :: "'a \<Rightarrow> 'a \<Rightarrow> bool" and xs
  show m: "mset (insertion_sort lt xs) = mset xs"
    unfolding insertion_sort_def by (induction xs) (auto simp: mset_ins)
  assume w: "weak_order lt (set xs)"
  have "set ys \<subseteq> set xs \<Longrightarrow> sorted_wrt (\<lambda>a b. \<not> lt b a) (insertion_sort lt ys) \<and> set (insertion_sort lt ys) = set ys" for ys
  proof (induction ys)
    case (Cons y ys)
    then show ?case using sorted_ins [OF w, of y "insertion_sort lt ys"] by (simp add: insertion_sort_def set_ins)
  qed (simp add: insertion_sort_def)
  then show "sorted_wrt (\<lambda>a b. \<not> lt b a) (insertion_sort lt xs)" by blast
qed

definition parsed :: "('v, 'c) semver \<Rightarrow> chart_version option \<Rightarrow> bool" where
  "parsed sv x = (\<exists>cv v. x = Some cv \<and> sv_NewVersion sv (cv_Version cv) = Some v)"

lemma cv_Less_weak_order:
  assumes "weak_order (sv_LessThan sv) UNIV" "\<And>x. x \<in> A \<Longrightarrow> parsed sv x"
  shows "weak_order (\<lambda>a b. cv_Less sv b a) A"
proof -
  have "\<exists>v. \<forall>x\<in>A. \<forall>y\<in>A. cv_Less sv x y = sv_LessThan sv (v x) (v y)"
  proof (intro exI [of _ "\<lambda>x. the (sv_NewVersion sv (cv_Version (the x)))"] ballI)
    fix x y
    assume "x \<in> A" "y \<in> A"
    then have "parsed sv x" "parsed sv y" by (simp_all add: assms(2))
    then show "cv_Less sv x y =
        sv_LessThan sv (the (sv_NewVersion sv (cv_Version (the x)))) (the (sv_NewVersion sv (cv_Version (the y))))"
      by (auto simp: parsed_def cv_Less_def)
  qed
  then obtain v where v: "\<forall>x\<in>A. \<forall>y\<in>A. cv_Less sv x y = sv_LessThan sv (v x) (v y)" by blast
  have w: "\<not> sv_LessThan sv a a" "sv_LessThan sv a b \<Longrightarrow> sv_LessThan sv b c \<Longrightarrow> sv_LessThan sv a c"
    "sv_LessThan sv a c \<Longrightarrow> sv_LessThan sv a b \<or> sv_LessThan sv b c" for a b c
    using assms(1) by (auto simp: weak_order_def)
  show ?thesis
    unfolding weak_order_def
  proof (intro conjI ballI impI)
    show "\<not> cv_Less sv a a" if "a \<in> A" for a using that v w(1) by simp
    show "cv_Less sv c a" if "a \<in> A" "b \<in> A" "c \<in> A" "cv_Less sv b a" "cv_Less sv c b" for a b c
      using that v w(2)[of "v c" "v b" "v a"] by simp
    show "cv_Less sv b a \<or> cv_Less sv c b" if "a \<in> A" "b \<in> A" "c \<in> A" "cv_Less sv c a" for a b c
      using that v w(3)[of "v c" "v a" "v b"] by auto
  qed
qed

lemma sorted_find_max:
  "sorted_wrt R xs \<Longrightarrow> find P xs = Some x \<Longrightarrow> y \<in> set xs \<Longrightarrow> P y \<Longrightarrow> y = x \<or> R x y"
  by (induction xs) (auto split: if_splits)

lemma find_exists: "\<exists>x\<in>set xs. P x \<Longrightarrow> \<exists>x. find P xs = Some x"
  by (induction xs) auto

lemma find_set: "find P xs = Some x \<Longrightarrow> x \<in> set xs \<and> P x"
  by (induction xs) (auto split: if_splits)

lemma default_APIVersion_parsed: "parsed sv (default_APIVersion x) = parsed sv x"
  by (cases x) (auto simp: parsed_def default_APIVersion_def)

lemma index_Load_entries:
  assumes "decode r = DecOk i" "ix_Entries i = Some m" "map_of m name = Some vs"
  shows "Option.bind (ix_Entries (fst (index_Load srt sv decode r source))) (\<lambda>m. map_of m name) =
    Some (srt (\<lambda>a b. cv_Less sv b a) (map default_APIVersion vs))"
proof -
  have "map_of (map (\<lambda>x. (fst x, f (snd x))) m) name = map_option f (map_of m name)" for f :: "chart_versions \<Rightarrow> chart_versions"
    by (induction m) auto
  with assms show ?thesis by (simp add: index_Load_def SortEntries_def Let_def comp_def split_def)
qed

text \<open>
  C25: An index that was loaded, in which every entry of a chart is there (none is nil) and has a version that parses, asked
  for that chart without a version, gives an entry of it that the constraint \<open>*\<close> admits and such that no admitted
  entry is newer, whenever some entry is admitted.  The comparison of versions has to be a strict weak order, and \<open>sort.Sort\<close> has to
  keep its contract.  Without the condition \<open>Get\<close> panics on a nil entry, and the order of the entries is not one.
\<close>

theorem Load_Get_newest:
  assumes "go_sort srt" "weak_order (sv_LessThan sv) UNIV"
    and "decode r = DecOk i" "ix_Entries i = Some m" "map_of m name = Some vs"
    and "\<And>x. x \<in> set vs \<Longrightarrow> parsed sv x"
    and "sv_NewConstraint sv ''*'' = Some star" "Some cv0 \<in> set vs" "satisfies sv star cv0"
  shows "\<exists>cv v. index_Get sv (fst (index_Load srt sv decode r source)) name [] = GetOk cv \<and>
    Some cv \<in> default_APIVersion ` set vs \<and> sv_NewVersion sv (cv_Version cv) = Some v \<and> sv_Check sv star v \<and>
    (\<forall>cv' v'. Some cv' \<in> set vs \<longrightarrow> sv_NewVersion sv (cv_Version cv') = Some v' \<longrightarrow> sv_Check sv star v' \<longrightarrow>
       \<not> sv_LessThan sv v v')"
proof -
  let ?lt = "\<lambda>a b. cv_Less sv b a"
  define ws where "ws = srt ?lt (map default_APIVersion vs)"
  have ws: "set ws = default_APIVersion ` set vs"
    using assms(1) unfolding go_sort_def ws_def by (metis image_set mset_eq_setD)
  have p: "parsed sv x" if "x \<in> set ws" for x
    using that ws assms(6) default_APIVersion_parsed [of sv] by auto
  have "sorted_wrt (\<lambda>a b. \<not> ?lt b a) ws"
  proof -
    have "weak_order ?lt (set (map default_APIVersion vs))"
      using p ws by (intro cv_Less_weak_order [OF assms(2)]) simp
    then show ?thesis using assms(1) unfolding go_sort_def ws_def by blast
  qed
  then have sorted: "sorted_wrt (\<lambda>a b. \<not> cv_Less sv (Some a) (Some b)) (map the ws)"
  proof -
    assume "sorted_wrt (\<lambda>a b. \<not> ?lt b a) ws"
    then show ?thesis using p by (induction ws) (force simp: parsed_def)+
  qed
  have none: "None \<notin> set ws" using p by (auto simp: parsed_def)
  have sat: "satisfies sv star (the (default_APIVersion (Some cv))) = satisfies sv star cv" for cv
    by (simp add: satisfies_def default_APIVersion_def)
  have in_ws: "the (default_APIVersion (Some cv)) \<in> set (map the ws)" if "Some cv \<in> set vs" for cv
    using that ws by force
  from find_exists [of "map the ws" "satisfies sv star"] in_ws [OF assms(8)] sat assms(9)
  obtain cv where cv: "find (satisfies sv star) (map the ws) = Some cv" by metis
  then have cv_in: "cv \<in> set (map the ws)" "satisfies sv star cv" using find_set by fast+
  then obtain v where v: "sv_NewVersion sv (cv_Version cv) = Some v" "sv_Check sv star v"
    by (auto simp: satisfies_def split: option.splits)
  have "ws \<noteq> []" using in_ws [OF assms(8)] by auto
  then have "index_Get sv (fst (index_Load srt sv decode r source)) name [] = GetOk cv"
    using index_Load_entries [where decode = decode and r = r and m = m and srt = srt and sv = sv and source = source, OF assms(3-5)] constraint_loop_find [OF none, of sv star] cv assms(7)
    unfolding ws_def [symmetric] by (simp add: index_Get_def)
  moreover have "Some cv \<in> default_APIVersion ` set vs" using cv_in(1) none ws by force
  moreover have "\<not> sv_LessThan sv v v'"
    if "Some cv' \<in> set vs" "sv_NewVersion sv (cv_Version cv') = Some v'" "sv_Check sv star v'" for cv' v'
  proof -
    let ?c = "the (default_APIVersion (Some cv'))"
    have c: "sv_NewVersion sv (cv_Version ?c) = Some v'" using that(2) by (simp add: default_APIVersion_def)
    have "satisfies sv star ?c" using c that(3) by (simp add: satisfies_def)
    from sorted_find_max [OF sorted cv in_ws [OF that(1)] this] show ?thesis
      using v c assms(2) by (auto simp: cv_Less_def weak_order_def)
  qed
  ultimately show ?thesis using v by blast
qed

text \<open>A small instance of the library: versions are the lengths of their texts, a constraint asks for a least length.\<close>

definition toy_semver :: "(nat, nat) semver" where
  "toy_semver = \<lparr>sv_NewVersion = (\<lambda>s. Some (length s)), sv_LessThan = (<), sv_Prerelease = (\<lambda>_. []), sv_Original = (\<lambda>_. []),
     sv_NewConstraint = (\<lambda>s. Some (length s)), sv_Check = (\<le>)\<rparr>"

definition toy_metadata :: metadata where
  "toy_metadata = \<lparr>md_Name = ''c'', md_Home = [], md_Sources = [], md_Version = [], md_Description = [], md_Keywords = [],
     md_Maintainers = [], md_Icon = [], md_APIVersion = [], md_Condition = [], md_Tags = [], md_AppVersion = [], md_Deprecated = False,
     md_Annotations = [], md_KubeVersion = [], md_Dependencies = [], md_Type = []\<rparr>"

definition toy_chart :: "string \<Rightarrow> chart_version" where
  "toy_chart v = \<lparr>cv_Metadata = toy_metadata\<lparr>md_Version := v\<rparr>, cv_URLs = [], cv_Created = 0, cv_Removed = False, cv_Digest = []\<rparr>"

definition toy_index :: index_file where
  "toy_index = (NewIndexFile 0)\<lparr>ix_Entries := Some [(''c'', [Some (toy_chart ''1''), Some (toy_chart ''1.2''), Some (toy_chart ''2'')])]\<rparr>"

lemma toy_order: "weak_order (sv_LessThan toy_semver) UNIV"
  by (auto simp: weak_order_def toy_semver_def)

theorem Load_Get_newest_witness:
  "\<exists>cv v. index_Get toy_semver (fst (index_Load insertion_sort toy_semver DecOk toy_index [])) ''c'' [] = GetOk cv \<and>
     sv_NewVersion toy_semver (cv_Version cv) = Some v \<and> \<not> v < 3"
proof -
  let ?vs = "[Some (toy_chart ''1''), Some (toy_chart ''1.2''), Some (toy_chart ''2'')]"
  have e: "ix_Entries toy_index = Some [(''c'', ?vs)]" by (simp add: toy_index_def)
  have p: "parsed toy_semver x" if "x \<in> set ?vs" for x using that by (auto simp: parsed_def toy_semver_def)
  have s: "satisfies toy_semver 1 (toy_chart ''1.2'')" by (simp add: satisfies_def toy_semver_def toy_chart_def)
  from Load_Get_newest [where srt = insertion_sort and sv = toy_semver and decode = DecOk and r = toy_index and name = "''c''" and vs = ?vs
      and source = "[]" and star = 1, OF go_sort_insertion toy_order refl e _ p _ _ s]
  obtain cv v where cv: "index_Get toy_semver (fst (index_Load insertion_sort toy_semver DecOk toy_index [])) ''c'' [] = GetOk cv"
    "sv_NewVersion toy_semver (cv_Version cv) = Some v"
    "\<forall>cv' v'. Some cv' \<in> set ?vs \<longrightarrow> sv_NewVersion toy_semver (cv_Version cv') = Some v' \<longrightarrow> sv_Check toy_semver 1 v' \<longrightarrow>
       \<not> sv_LessThan toy_semver v v'"
    by (auto simp: toy_semver_def)
  from cv(3)[rule_format, of "toy_chart ''1.2''" 3] have "\<not> v < 3" by (simp add: toy_semver_def toy_chart_def)
  with cv(1,2) show ?thesis by blast
qed

theorem index_Get_chooses_witness:
  "index_Get toy_semver toy_index ''c'' ''2'' = GetOk (toy_chart ''2'') \<and>
   index_Get toy_semver toy_index ''d'' ''2'' = GetErr ErrNoChartName"
proof -
  let ?m = "[(''c'', [Some (toy_chart ''1''), Some (toy_chart ''1.2''), Some (toy_chart ''2'')])]"
  have h: "ix_Entries toy_index = Some ?m" "\<And>n vs. map_of ?m n = Some vs \<Longrightarrow> None \<notin> set vs" "sv_NewConstraint toy_semver ''*'' \<noteq> None"
    by (auto simp: toy_index_def toy_semver_def split: if_splits)
  note g = index_Get_chooses [where sv = toy_semver and i = toy_index and m = ?m, OF h(1) _ h(3)]
  have "index_Get toy_semver toy_index ''c'' ''2'' = GetOk (toy_chart ''2'')"
    by (subst g) (use h(2) in \<open>auto simp: toy_semver_def toy_chart_def\<close>)
  moreover have "index_Get toy_semver toy_index ''d'' ''2'' = GetErr ErrNoChartName"
    by (subst g) (use h(2) in \<open>auto simp: toy_semver_def\<close>)
  ultimately show ?thesis by blast
qed

section \<open>\<open>Has\<close> and \<open>Merge\<close>\<close>

definition entries_of :: "index_file \<Rightarrow> string \<Rightarrow> chart_versions" where
  "entries_of i name = (case Option.bind (ix_Entries i) (\<lambda>m. map_of m name) of Some vs \<Rightarrow> vs | None \<Rightarrow> [])"

definition no_nil :: "index_file \<Rightarrow> bool" where
  "no_nil i = (\<forall>name. None \<notin> set (entries_of i name))"

definition cv_admitted :: "('v, 'c) semver \<Rightarrow> chart_versions \<Rightarrow> string \<Rightarrow> bool" where
  "cv_admitted sv vs version =
     (\<exists>c cv. sv_NewConstraint sv (if version = [] then ''*'' else version) = Some c \<and> Some cv \<in> set vs \<and>
        (version \<noteq> [] \<and> version = cv_Version cv \<or> satisfies sv c cv))"

lemma find_ex: "(case find P xs of None \<Rightarrow> False | Some x \<Rightarrow> True) = (\<exists>x\<in>set xs. P x)"
  by (induction xs) auto

lemma find_None_all: "find P xs = None \<longleftrightarrow> (\<forall>x\<in>set xs. \<not> P x)"
  by (induction xs) auto

text \<open>\<open>Has\<close> asks whether the version, read as a constraint, admits some entry.\<close>

lemma index_Has_iff:
  assumes "no_nil i" "sv_NewConstraint sv ''*'' \<noteq> None"
  shows "index_Has sv i name version = Some (cv_admitted sv (entries_of i name) version)"
proof (cases "Option.bind (ix_Entries i) (\<lambda>m. map_of m name)")
  case None
  then show ?thesis by (simp add: index_Has_def index_Get_def entries_of_def cv_admitted_def)
next
  case (Some vs)
  have vs: "None \<notin> set vs" "entries_of i name = vs"
    using assms(1) Some unfolding no_nil_def entries_of_def by (metis option.case(2))+
  have in_vs: "cv \<in> set (map the vs) \<longleftrightarrow> Some cv \<in> set vs" for cv
    using vs(1) by (metis (no_types, lifting) image_iff list.set_map option.collapse option.sel)
  show ?thesis
  proof (cases "sv_NewConstraint sv (if version = [] then ''*'' else version)")
    case None
    then have "version \<noteq> []" using assms(2) by auto
    with None Some show ?thesis by (simp add: index_Has_def index_Get_def cv_admitted_def vs(2))
  next
    case (Some c)
    define ex where "ex = find (\<lambda>cv. version = cv_Version cv) (map the vs)"
    define co where "co = find (satisfies sv c) (map the vs)"
    have "index_Has sv i name version = Some (vs \<noteq> [] \<and> (version \<noteq> [] \<and> ex \<noteq> None \<or> co \<noteq> None))"
      using \<open>Option.bind _ _ = Some vs\<close> Some exact_loop_find [OF vs(1), of version] constraint_loop_find [OF vs(1), of sv c]
      by (cases ex; cases co) (auto simp: index_Has_def index_Get_def ex_def co_def)
    also have "ex \<noteq> None \<longleftrightarrow> (\<exists>cv. Some cv \<in> set vs \<and> version = cv_Version cv)"
      unfolding ex_def find_None_all in_vs by (metis in_vs)
    also have "co \<noteq> None \<longleftrightarrow> (\<exists>cv. Some cv \<in> set vs \<and> satisfies sv c cv)"
      unfolding co_def find_None_all by (metis in_vs)
    also have "Some (vs \<noteq> [] \<and> (version \<noteq> [] \<and> (\<exists>cv. Some cv \<in> set vs \<and> version = cv_Version cv) \<or>
        (\<exists>cv. Some cv \<in> set vs \<and> satisfies sv c cv))) = Some (cv_admitted sv vs version)"
      unfolding cv_admitted_def Some by auto
    finally show ?thesis by (simp add: vs(2))
  qed
qed

text \<open>What \<open>Merge\<close> does to the lists of an index.\<close>

definition grows :: "chart_version set \<Rightarrow> index_file \<Rightarrow> index_file \<Rightarrow> bool" where
  "grows A i i' =
     (no_nil i' \<and> ix_Entries i' \<noteq> None \<and>
      (\<forall>name. \<exists>added. entries_of i' name = entries_of i name @ map Some added \<and> set added \<subseteq> A))"

lemma grows_refl: "no_nil i \<Longrightarrow> ix_Entries i \<noteq> None \<Longrightarrow> grows A i i"
  by (auto simp: grows_def intro: exI [of _ "[]"])

lemma grows_trans:
  assumes "grows A i j" "grows B j k"
  shows "grows (A \<union> B) i k"
  unfolding grows_def
proof (intro conjI allI)
  fix name
  obtain xs where "entries_of j name = entries_of i name @ map Some xs" "set xs \<subseteq> A" using assms(1) by (auto simp: grows_def)
  moreover obtain ys where "entries_of k name = entries_of j name @ map Some ys" "set ys \<subseteq> B" using assms(2) by (auto simp: grows_def)
  ultimately show "\<exists>added. entries_of k name = entries_of i name @ map Some added \<and> set added \<subseteq> A \<union> B"
    by (intro exI [of _ "xs @ ys"]) auto
qed (use assms in \<open>auto simp: grows_def\<close>)

lemma entries_of_add:
  assumes "ix_Entries i = Some m"
  shows "entries_of (i\<lparr>ix_Entries := Some (AList.update k ((case map_of m k of Some e \<Rightarrow> e | None \<Rightarrow> []) @ [Some cv]) m)\<rparr>) name =
    (if name = k then entries_of i k @ [Some cv] else entries_of i name)"
  using assms by (simp add: entries_of_def)

lemma grows_add:
  assumes "no_nil i" "ix_Entries i = Some m"
  shows "grows {cv} i (i\<lparr>ix_Entries := Some (AList.update k ((case map_of m k of Some e \<Rightarrow> e | None \<Rightarrow> []) @ [Some cv]) m)\<rparr>)"
  unfolding grows_def no_nil_def entries_of_add [OF assms(2)]
  using assms(1) by (auto simp: no_nil_def intro: exI [of _ "[]"] exI [of _ "[cv]"])

lemma admitted_grows: "grows A i i' \<Longrightarrow> cv_admitted sv (entries_of i name) v \<Longrightarrow> cv_admitted sv (entries_of i' name) v"
proof -
  assume "grows A i i'"
  then obtain xs where "entries_of i' name = entries_of i name @ map Some xs" by (auto simp: grows_def)
  moreover assume "cv_admitted sv (entries_of i name) v"
  ultimately show ?thesis unfolding cv_admitted_def by auto
qed

definition mergeable :: "('v, 'c) semver \<Rightarrow> chart_version \<Rightarrow> bool" where
  "mergeable sv cv = (cv_Version cv \<noteq> [] \<and> sv_NewConstraint sv (cv_Version cv) \<noteq> None)"

lemma merge_versions_grows:
  assumes "no_nil i" "ix_Entries i \<noteq> None" "None \<notin> set cvs" "sv_NewConstraint sv ''*'' \<noteq> None"
  shows "\<exists>i'. merge_versions sv i cvs = Some i' \<and> grows {cv. Some cv \<in> set cvs} i i' \<and>
    (\<forall>cv. Some cv \<in> set cvs \<longrightarrow> mergeable sv cv \<longrightarrow> cv_admitted sv (entries_of i' (cv_Name cv)) (cv_Version cv))"
  using assms
proof (induction cvs arbitrary: i)
  case Nil
  then show ?case by (simp add: grows_refl)
next
  case (Cons x cvs)
  then obtain cv m where x: "x = Some cv" and m: "ix_Entries i = Some m" by (cases x) auto
  define j where "j = (if cv_admitted sv (entries_of i (cv_Name cv)) (cv_Version cv) then i
    else i\<lparr>ix_Entries := Some (AList.update (cv_Name cv)
      ((case map_of m (cv_Name cv) of Some e \<Rightarrow> e | None \<Rightarrow> []) @ [Some cv]) m)\<rparr>)"
  have step: "merge_versions sv i (x # cvs) = merge_versions sv j cvs"
    using index_Has_iff [OF Cons.prems(1,4), of "cv_Name cv" "cv_Version cv"] m by (simp add: x j_def)
  have g: "grows {cv} i j"
    using grows_refl Cons.prems(1,2) grows_add [OF Cons.prems(1) m] by (auto simp: j_def)
  have adm: "mergeable sv cv \<Longrightarrow> cv_admitted sv (entries_of j (cv_Name cv)) (cv_Version cv)"
    by (auto simp: j_def entries_of_add [OF m] cv_admitted_def mergeable_def)
  obtain i' where i': "merge_versions sv j cvs = Some i'" "grows {cv. Some cv \<in> set cvs} j i'"
    "\<forall>cv. Some cv \<in> set cvs \<longrightarrow> mergeable sv cv \<longrightarrow> cv_admitted sv (entries_of i' (cv_Name cv)) (cv_Version cv)"
    using Cons.IH [of j] Cons.prems(3,4) g by (auto simp: grows_def)
  have "{c. Some c \<in> set (x # cvs)} = {cv} \<union> {cv. Some cv \<in> set cvs}" by (auto simp: x)
  then have "grows {c. Some c \<in> set (x # cvs)} i i'" using grows_trans [OF g i'(2)] by (simp only:)
  moreover have "cv_admitted sv (entries_of i' (cv_Name c)) (cv_Version c)"
    if "Some c \<in> set (x # cvs)" "mergeable sv c" for c
  proof (cases "Some c \<in> set cvs")
    case False
    with that adm have "cv_admitted sv (entries_of j (cv_Name c)) (cv_Version c)" by (simp add: x)
    then show ?thesis by (rule admitted_grows [OF i'(2)])
  qed (use that i'(3) in blast)
  ultimately show ?case using step i'(1) by auto
qed

definition charts :: "(string \<times> chart_versions) list \<Rightarrow> chart_version set" where
  "charts es = {cv. \<exists>n cvs. (n, cvs) \<in> set es \<and> Some cv \<in> set cvs}"

lemma merge_entries_grows:
  assumes "no_nil i" "ix_Entries i \<noteq> None" "\<forall>(n, cvs)\<in>set es. None \<notin> set cvs" "sv_NewConstraint sv ''*'' \<noteq> None"
  shows "\<exists>i'. merge_entries sv i es = Some i' \<and> grows (charts es) i i' \<and>
    (\<forall>cv\<in>charts es. mergeable sv cv \<longrightarrow> cv_admitted sv (entries_of i' (cv_Name cv)) (cv_Version cv))"
  using assms
proof (induction es arbitrary: i)
  case Nil
  then show ?case by (simp add: grows_refl charts_def)
next
  case (Cons e es)
  obtain n cvs where e: "e = (n, cvs)" by (cases e)
  with Cons.prems obtain j where j: "merge_versions sv i cvs = Some j" "grows {cv. Some cv \<in> set cvs} i j"
    "\<forall>cv. Some cv \<in> set cvs \<longrightarrow> mergeable sv cv \<longrightarrow> cv_admitted sv (entries_of j (cv_Name cv)) (cv_Version cv)"
    using merge_versions_grows [of i cvs sv] by auto
  obtain i' where i': "merge_entries sv j es = Some i'" "grows (charts es) j i'"
    "\<forall>cv\<in>charts es. mergeable sv cv \<longrightarrow> cv_admitted sv (entries_of i' (cv_Name cv)) (cv_Version cv)"
    using Cons.IH [of j] Cons.prems(3,4) j(2) by (auto simp: grows_def)
  have c: "charts (e # es) = {cv. Some cv \<in> set cvs} \<union> charts es" by (auto simp: charts_def e)
  have "grows (charts (e # es)) i i'" using grows_trans [OF j(2) i'(2)] by (simp add: c)
  moreover have "cv_admitted sv (entries_of i' (cv_Name cv)) (cv_Version cv)"
    if "cv \<in> charts (e # es)" "mergeable sv cv" for cv
  proof (cases "cv \<in> charts es")
    case False
    with that j(3) have "cv_admitted sv (entries_of j (cv_Name cv)) (cv_Version cv)" by (simp add: c)
    then show ?thesis by (rule admitted_grows [OF i'(2)])
  qed (use that i'(3) in blast)
  ultimately show ?case using j(1) i'(1) by (auto simp: e)
qed

text \<open>
  Merging an index without \<open>nil\<close> entries into another one returns; every list of the target stays as it is in front of what
  is added, only charts of the other index are added, and afterwards the target has every chart of the other index whose
  version is a valid constraint.
\<close>

theorem Merge_adds:
  assumes "no_nil i" "ix_Entries i \<noteq> None" "ix_Entries f = Some m" "set (visit m) = set m"
    and "\<forall>(n, cvs)\<in>set m. None \<notin> set cvs" "sv_NewConstraint sv ''*'' \<noteq> None"
  shows "\<exists>i'. index_Merge visit sv i f = Some i' \<and>
    (\<forall>name. \<exists>added. entries_of i' name = entries_of i name @ map Some added \<and> set added \<subseteq> charts m) \<and>
    (\<forall>cv\<in>charts m. cv_Version cv \<noteq> [] \<and> sv_NewConstraint sv (cv_Version cv) \<noteq> None \<longrightarrow>
       index_Has sv i' (cv_Name cv) (cv_Version cv) = Some True)"
proof -
  have "charts (visit m) = charts m" using assms(4) by (simp add: charts_def)
  with merge_entries_grows [OF assms(1,2), of "visit m" sv] assms(3-6) obtain i' where
    i': "index_Merge visit sv i f = Some i'" "grows (charts m) i i'"
    "\<forall>cv\<in>charts m. mergeable sv cv \<longrightarrow> cv_admitted sv (entries_of i' (cv_Name cv)) (cv_Version cv)"
    by (auto simp: index_Merge_def)
  moreover have "no_nil i'" using i'(2) by (simp add: grows_def)
  ultimately show ?thesis using assms(6) by (auto simp: grows_def index_Has_iff mergeable_def)
qed

theorem Merge_adds_witness:
  "\<exists>i'. index_Merge (\<lambda>m. m) toy_semver (NewIndexFile 0) toy_index = Some i' \<and>
     index_Has toy_semver i' ''c'' ''1'' = Some True"
proof -
  have h: "no_nil (NewIndexFile 0)" "ix_Entries (NewIndexFile 0) \<noteq> None" "sv_NewConstraint toy_semver ''*'' \<noteq> None"
    by (simp_all add: no_nil_def entries_of_def NewIndexFile_def toy_semver_def)
  let ?m = "[(''c'', [Some (toy_chart ''1''), Some (toy_chart ''1.2''), Some (toy_chart ''2'')])]"
  have m: "ix_Entries toy_index = Some ?m" by (simp add: toy_index_def)
  have "toy_chart ''1'' \<in> charts ?m" by (auto simp: charts_def)
  moreover have "cv_Name (toy_chart ''1'') = ''c''" "cv_Version (toy_chart ''1'') = ''1''"
    by (simp_all add: toy_chart_def toy_metadata_def)
  moreover have "sv_NewConstraint toy_semver ''1'' \<noteq> None" by (simp add: toy_semver_def)
  ultimately show ?thesis
    using Merge_adds [where visit = "\<lambda>m. m" and sv = toy_semver and f = toy_index and m = ?m, OF h(1,2) m _ _ h(3)]
    by (auto dest!: bspec [of _ _ "toy_chart ''1''"])
qed

section \<open>Departures from the comments\<close>

text \<open>\<open>Has\<close> accepts an entry with another version when the version asked for, read as a constraint, admits it.\<close>

lemma index_Has_constraint:
  assumes "no_nil i" "sv_NewConstraint sv ''*'' \<noteq> None" "sv_NewConstraint sv version = Some c" "version \<noteq> []"
    and "Some cv \<in> set (entries_of i name)" "satisfies sv c cv"
  shows "index_Has sv i name version = Some True"
  using assms by (auto simp: index_Has_iff cv_admitted_def)

text \<open>A version that is no constraint is never there, so that merging adds it again each time.\<close>

lemma index_Has_invalid:
  assumes "no_nil i" "sv_NewConstraint sv ''*'' \<noteq> None" "sv_NewConstraint sv version = None" "version \<noteq> []"
  shows "index_Has sv i name version = Some False"
  using assms by (auto simp: index_Has_iff cv_admitted_def)

text \<open>Of two versions that do not parse each is less than the other, so that the comparison is no order.\<close>

lemma cv_Less_unparsed:
  assumes "sv_NewVersion sv (cv_Version a) = None" "sv_NewVersion sv (cv_Version b) = None"
  shows "cv_Less sv (Some a) (Some b) \<and> cv_Less sv (Some b) (Some a)"
  using assms by (simp add: cv_Less_def)

text \<open>An empty entry is sorted to the front, where \<open>Get\<close> dereferences it.\<close>

lemma nil_entry_panics:
  assumes "decode r = DecOk i" "ix_Entries i = Some m" "map_of m name = Some [Some cv, None]"
    and "sv_NewConstraint sv version \<noteq> None" "version \<noteq> []"
  shows "index_Get sv (fst (index_Load insertion_sort sv decode r source)) name version = GetPanic"
proof -
  have "insertion_sort (\<lambda>a b. cv_Less sv b a) (map default_APIVersion [Some cv, None]) =
      [None, default_APIVersion (Some cv)]"
    by (simp add: insertion_sort_def default_APIVersion_def cv_Less_def)
  with index_Load_entries [where decode = decode and r = r and m = m and srt = insertion_sort and sv = sv and source = source, OF assms(1-3)]
  show ?thesis using assms(4,5) by (auto simp: index_Get_def Let_def)
qed

end
