(* ===== verification/Disk_Cache.thy ===== *)
theory Disk_Cache
  imports Go_Prelude
begin

text \<open>
  \<open>helm/getter/cache/cache.go\<close>: charts kept as files with a time to live.

  The files of the cache directory are a map from names to content and time of modification, \<open>None\<close> when the directory
  is missing.  SHA-256 is the argument \<open>sha\<close>, which gives the digest as bytes.  What the operating system may refuse is an
  argument of each operation (\<open>set_io\<close> says where \<open>Set\<close> fails, and after how many bytes); the name that \<open>CreateTemp\<close> picks
  is an argument, new in the directory.  The mutex makes \<open>Get\<close>, \<open>Set\<close> and \<open>Clear\<close> atomic; \<open>cleanup\<close> reads the directory without
  it, so that the test whether a file has expired (\<open>OpExpired\<close>) and its removal (\<open>OpRemove\<close>) are two steps that others can come
  between.

  Shown: whatever the interleaving and the failures, \<open>Get\<close> serves the content of the last \<open>Set\<close> that succeeded, whole and
  no older than the time to live; with a cleanup that is not interrupted, and versions without a colon, it serves
  exactly that; the interleaving that loses a fresh file; and the two charts that share a file.
\<close>

section \<open>State and options\<close>

record cached_file =
  cf_data :: string
  cf_mtime :: instant

record disk_cache =
  dc_dir :: string
  dc_ttl :: duration
  dc_cleanupInterval :: duration
  dc_files :: "(string, cached_file) gomap option"
  dc_stopOnce :: bool
  dc_closes :: nat

definition dc_WithDir :: "string \<Rightarrow> disk_cache \<Rightarrow> disk_cache" where
  "dc_WithDir dir c = c\<lparr>dc_dir := dir\<rparr>"

definition dc_WithTTL :: "duration \<Rightarrow> disk_cache \<Rightarrow> disk_cache" where
  "dc_WithTTL d c = c\<lparr>dc_ttl := d\<rparr>"

definition dc_WithCleanupInterval :: "duration \<Rightarrow> disk_cache \<Rightarrow> disk_cache" where
  "dc_WithCleanupInterval d c = c\<lparr>dc_cleanupInterval := d\<rparr>"

definition hour :: duration where
  "hour = 3600 * 10 ^ 9"

text \<open>\<open>mkdirAll\<close> gives the files of a directory, which it makes if there is none; \<open>None\<close> is an error.\<close>

definition NewDiskCache ::
  "string \<Rightarrow> (string \<Rightarrow> (string, cached_file) gomap option) \<Rightarrow> (disk_cache \<Rightarrow> disk_cache) list \<Rightarrow> disk_cache option" where
  "NewDiskCache defaultDir mkdirAll opts =
     (let c = fold (\<lambda>opt c. opt c) opts
                \<lparr>dc_dir = defaultDir, dc_ttl = 24 * hour, dc_cleanupInterval = 1 * hour, dc_files = None,
                 dc_stopOnce = False, dc_closes = 0\<rparr>
      in map_option (\<lambda>files. c\<lparr>dc_files := Some files\<rparr>) (mkdirAll (dc_dir c)))"

section \<open>Operations\<close>

definition hex_EncodeToString :: "string \<Rightarrow> string" where
  "hex_EncodeToString bs =
     concat (map (\<lambda>b. [''0123456789abcdef'' ! (of_char b div 16), ''0123456789abcdef'' ! (of_char b mod 16)]) bs)"

definition dc_key :: "(string \<Rightarrow> string) \<Rightarrow> string \<Rightarrow> string \<Rightarrow> string" where
  "dc_key sha uri version = hex_EncodeToString (sha (uri @ '':'' @ version)) @ ''.tgz''"

definition dc_expired :: "duration \<Rightarrow> instant \<Rightarrow> cached_file \<Rightarrow> bool" where
  "dc_expired ttl now f = (now - cf_mtime f > ttl)"

definition dc_Get :: "(string \<Rightarrow> string) \<Rightarrow> bool \<Rightarrow> disk_cache \<Rightarrow> instant \<Rightarrow> string \<Rightarrow> string \<Rightarrow> string option" where
  "dc_Get sha openOk c now uri version =
     (case Option.bind (dc_files c) (\<lambda>m. map_of m (dc_key sha uri version)) of
        None \<Rightarrow> None
      | Some info \<Rightarrow>
          if dc_expired (dc_ttl c) now info then None
          else if openOk then Some (cf_data info) else None)"

datatype set_io = SetOk | CreateTempFails | CopyFails string | SyncFails | RenameFails

text \<open>The deferred removal of the temporary file, when it is still there.\<close>

definition remove_tmp :: "string \<Rightarrow> (string, cached_file) gomap \<Rightarrow> (string, cached_file) gomap" where
  "remove_tmp tmp files = (if gomap_has files tmp then AList.delete tmp files else files)"

definition rename_file :: "string \<Rightarrow> string \<Rightarrow> (string, cached_file) gomap \<Rightarrow> (string, cached_file) gomap" where
  "rename_file tmp final files =
     (case map_of files tmp of
        None \<Rightarrow> files
      | Some f \<Rightarrow> AList.update final f (AList.delete tmp files))"

definition dc_Set ::
  "(string \<Rightarrow> string) \<Rightarrow> string \<Rightarrow> set_io \<Rightarrow> disk_cache \<Rightarrow> instant \<Rightarrow> string \<Rightarrow> string \<Rightarrow> string \<Rightarrow> disk_cache \<times> set_io" where
  "dc_Set sha tmp io c now uri version source =
     (case dc_files c of
        None \<Rightarrow> (c, CreateTempFails)
      | Some files \<Rightarrow>
          let finalPath = dc_key sha uri version;
              created = AList.update tmp \<lparr>cf_data = [], cf_mtime = now\<rparr> files;
              copied = AList.update tmp \<lparr>cf_data = source, cf_mtime = now\<rparr> created;
              close = (\<lambda>files'. c\<lparr>dc_files := Some (remove_tmp tmp files')\<rparr>)
          in case io of
               CreateTempFails \<Rightarrow> (c, io)
             | CopyFails part \<Rightarrow> (close (AList.update tmp \<lparr>cf_data = part, cf_mtime = now\<rparr> created), io)
             | SyncFails \<Rightarrow> (close copied, io)
             | RenameFails \<Rightarrow> (close copied, io)
             | SetOk \<Rightarrow> (close (rename_file tmp finalPath copied), io))"

definition dc_Stop :: "disk_cache \<Rightarrow> disk_cache" where
  "dc_Stop c = (if dc_stopOnce c then c else c\<lparr>dc_stopOnce := True, dc_closes := dc_closes c + 1\<rparr>)"

text \<open>\<open>Clear\<close>: \<open>rmAll\<close>, for \<open>os.RemoveAll\<close>, tells what is left when it fails; \<open>None\<close> when it succeeded.\<close>

definition dc_Clear ::
  "((string, cached_file) gomap \<Rightarrow> (string, cached_file) gomap option) \<Rightarrow> bool \<Rightarrow> disk_cache \<Rightarrow> disk_cache \<times> bool" where
  "dc_Clear rmAll mkdirOk c =
     (case Option.bind (dc_files c) rmAll of
        Some left \<Rightarrow> (c\<lparr>dc_files := Some left\<rparr>, False)
      | None \<Rightarrow> (c\<lparr>dc_files := (if mkdirOk then Some [] else None)\<rparr>, mkdirOk))"

text \<open>The two halves of the loop of \<open>cleanup\<close>, and the loop when nothing comes between.\<close>

definition entry_expired :: "disk_cache \<Rightarrow> instant \<Rightarrow> string \<Rightarrow> bool" where
  "entry_expired c now name =
     (case Option.bind (dc_files c) (\<lambda>m. map_of m name) of
        None \<Rightarrow> False
      | Some info \<Rightarrow> dc_expired (dc_ttl c) now info)"

definition remove_entry :: "string \<Rightarrow> disk_cache \<Rightarrow> disk_cache" where
  "remove_entry name c = c\<lparr>dc_files := map_option (AList.delete name) (dc_files c)\<rparr>"

definition dc_cleanup :: "instant \<Rightarrow> disk_cache \<Rightarrow> disk_cache" where
  "dc_cleanup now c =
     (case dc_files c of
        None \<Rightarrow> c
      | Some entries \<Rightarrow> fold (\<lambda>name c. if entry_expired c now name then remove_entry name c else c) (map fst entries) c)"

section \<open>Interleavings\<close>

datatype dc_op =
    OpSet instant string set_io string string string
  | OpClear
  | OpCleanup instant
  | OpExpired instant string
  | OpRemove string

record dc_state =
  st_cache :: disk_cache
  st_pending :: "string list"

definition dc_step :: "(string \<Rightarrow> string) \<Rightarrow> dc_state \<Rightarrow> dc_op \<Rightarrow> dc_state" where
  "dc_step sha s op =
     (case op of
        OpSet now tmp io uri version source \<Rightarrow> s\<lparr>st_cache := fst (dc_Set sha tmp io (st_cache s) now uri version source)\<rparr>
      | OpClear \<Rightarrow> s\<lparr>st_cache := fst (dc_Clear (\<lambda>_. None) True (st_cache s))\<rparr>
      | OpCleanup now \<Rightarrow> s\<lparr>st_cache := dc_cleanup now (st_cache s)\<rparr>
      | OpExpired now name \<Rightarrow> if entry_expired (st_cache s) now name then s\<lparr>st_pending := name # st_pending s\<rparr> else s
      | OpRemove name \<Rightarrow>
          if name \<in> set (st_pending s)
          then s\<lparr>st_cache := remove_entry name (st_cache s), st_pending := remove1 name (st_pending s)\<rparr> else s)"

text \<open>The name that \<open>CreateTemp\<close> picks is new and begins with \<open>tmp-\<close>.\<close>

definition dc_guard :: "dc_state \<Rightarrow> dc_op \<Rightarrow> bool" where
  "dc_guard s op =
     (case op of
        OpSet now tmp io uri version source \<Rightarrow>
          (case dc_files (st_cache s) of None \<Rightarrow> True | Some files \<Rightarrow> \<not> gomap_has files tmp) \<and> HasPrefix tmp ''tmp-''
      | _ \<Rightarrow> True)"

text \<open>What a client sees: the content and time of the last \<open>Set\<close> that succeeded since the last \<open>Clear\<close>.\<close>

definition spec_step :: "(string \<rightharpoonup> string \<times> instant) \<Rightarrow> dc_op \<Rightarrow> (string \<rightharpoonup> string \<times> instant)" where
  "spec_step h op =
     (case op of
        OpSet now tmp io uri version source \<Rightarrow> if io = SetOk then h(uri @ '':'' @ version \<mapsto> (source, now)) else h
      | OpClear \<Rightarrow> (\<lambda>_. None)
      | _ \<Rightarrow> h)"

section \<open>File names\<close>

definition file_name :: "(string \<Rightarrow> string) \<Rightarrow> string \<Rightarrow> string" where
  "file_name sha k = hex_EncodeToString (sha k) @ ''.tgz''"

lemma dc_key_file_name: "dc_key sha uri version = file_name sha (uri @ '':'' @ version)"
  by (simp add: dc_key_def file_name_def)

lemma hex_nth: "m < 16 \<Longrightarrow> n < 16 \<Longrightarrow> ''0123456789abcdef'' ! m = ''0123456789abcdef'' ! n \<longleftrightarrow> m = n"
  by (rule nth_eq_iff_index_eq) simp_all

lemma hex_inj: "hex_EncodeToString a = hex_EncodeToString b \<Longrightarrow> a = b"
proof (induction a arbitrary: b)
  case Nil
  then show ?case by (cases b) (simp_all add: hex_EncodeToString_def)
next
  case (Cons x a)
  then obtain y b' where b: "b = y # b'" by (cases b) (simp_all add: hex_EncodeToString_def)
  have lt: "of_char z div 16 < (16::nat)" "of_char z mod 16 < (16::nat)" for z :: char by simp_all
  from Cons.prems have "of_char x div 16 = (of_char y div 16 :: nat)" "of_char x mod 16 = (of_char y mod 16 :: nat)"
    and t: "hex_EncodeToString a = hex_EncodeToString b'"
    by (simp_all only: b hex_EncodeToString_def list.map concat.simps append.simps list.inject hex_nth lt)
  then have "of_char x = (of_char y :: nat)" by (metis div_mult_mod_eq)
  with Cons.IH [OF t] b show ?case by simp
qed

lemma file_name_inj: "inj_on sha K \<Longrightarrow> k \<in> K \<Longrightarrow> k' \<in> K \<Longrightarrow> file_name sha k = file_name sha k' \<Longrightarrow> k = k'"
  by (auto simp: file_name_def dest!: hex_inj inj_onD)

lemma file_name_not_tmp: "HasPrefix tmp ''tmp-'' \<Longrightarrow> file_name sha k \<noteq> tmp"
proof
  assume "HasPrefix tmp ''tmp-''" and e: "file_name sha k = tmp"
  then obtain t where t: "tmp = CHR ''t'' # t" by (auto simp: HasPrefix_iff)
  have n: "''0123456789abcdef'' ! n \<noteq> CHR ''t''" if "n < 16" for n
  proof -
    have "''0123456789abcdef'' ! n \<in> set ''0123456789abcdef''" using that by (intro nth_mem) simp
    then show ?thesis by auto
  qed
  have "of_char b div 16 < (16::nat)" for b :: char by simp
  then show False using e t n by (cases "sha k") (auto simp: file_name_def hex_EncodeToString_def simp del: nth.simps)
qed

text \<open>Two pairs of a reference and a version can have the same key.\<close>

lemma dc_key_ambiguous: "dc_key sha ''a'' ''b:c'' = dc_key sha ''a:b'' ''c''"
  by (simp add: dc_key_def)

section \<open>What the operations do to the files\<close>

definition file_at :: "disk_cache \<Rightarrow> string \<Rightarrow> cached_file option" where
  "file_at c name = Option.bind (dc_files c) (\<lambda>m. map_of m name)"

lemma dc_Get_file_at:
  "dc_Get sha openOk c now uri version =
     (case file_at c (file_name sha (uri @ '':'' @ version)) of
        None \<Rightarrow> None
      | Some f \<Rightarrow> if dc_expired (dc_ttl c) now f \<or> \<not> openOk then None else Some (cf_data f))"
  by (simp add: dc_Get_def file_at_def dc_key_file_name split: option.split)

lemma map_of_remove_tmp: "map_of (remove_tmp tmp files) = (map_of files)(tmp := None)"
  by (auto simp: remove_tmp_def fun_eq_iff map_of_eq_None_iff)

lemma dc_Set_file_at:
  assumes "dc_files c = Some files" "\<not> gomap_has files tmp" "HasPrefix tmp ''tmp-''"
  shows "file_at (fst (dc_Set sha tmp io c now uri version source)) name =
    (if io = SetOk \<and> name = file_name sha (uri @ '':'' @ version) then Some \<lparr>cf_data = source, cf_mtime = now\<rparr> else file_at c name)"
    and "dc_files (fst (dc_Set sha tmp io c now uri version source)) \<noteq> None"
    and "dc_ttl (fst (dc_Set sha tmp io c now uri version source)) = dc_ttl c"
proof -
  have tmp: "map_of files tmp = None" using assms(2) by (simp add: map_of_eq_None_iff)
  have "file_name sha (uri @ '':'' @ version) \<noteq> tmp" by (rule file_name_not_tmp [OF assms(3)])
  with tmp show "file_at (fst (dc_Set sha tmp io c now uri version source)) name =
    (if io = SetOk \<and> name = file_name sha (uri @ '':'' @ version) then Some \<lparr>cf_data = source, cf_mtime = now\<rparr> else file_at c name)"
    by (cases io) (auto simp: dc_Set_def assms(1) file_at_def Let_def map_of_remove_tmp rename_file_def dc_key_file_name)
  show "dc_files (fst (dc_Set sha tmp io c now uri version source)) \<noteq> None"
    "dc_ttl (fst (dc_Set sha tmp io c now uri version source)) = dc_ttl c"
    by (cases io; simp add: dc_Set_def assms(1) Let_def)+
qed

lemma remove_entry_file_at: "file_at (remove_entry name c) n = (if n = name then None else file_at c n)"
  by (cases "dc_files c") (auto simp: file_at_def remove_entry_def)

lemma remove_entry_simps [simp]:
  "dc_ttl (remove_entry name c) = dc_ttl c" "dc_files (remove_entry name c) = None \<longleftrightarrow> dc_files c = None"
  by (simp_all add: remove_entry_def)

lemma entry_expired_file_at:
  "entry_expired c now name = (case file_at c name of None \<Rightarrow> False | Some f \<Rightarrow> dc_expired (dc_ttl c) now f)"
  by (simp add: entry_expired_def file_at_def)

lemma no_directory: "dc_files c = None \<Longrightarrow> \<not> entry_expired c now name"
  by (simp add: entry_expired_def)

lemma cleanup_fold:
  "file_at (fold (\<lambda>name c. if entry_expired c now name then remove_entry name c else c) names c) n =
     (if n \<in> set names \<and> entry_expired c now n then None else file_at c n) \<and>
   dc_ttl (fold (\<lambda>name c. if entry_expired c now name then remove_entry name c else c) names c) = dc_ttl c \<and>
   (dc_files (fold (\<lambda>name c. if entry_expired c now name then remove_entry name c else c) names c) = None \<longleftrightarrow> dc_files c = None)"
proof (induction names arbitrary: c)
  case (Cons x names)
  have "entry_expired (remove_entry x c) now n \<longleftrightarrow> n \<noteq> x \<and> entry_expired c now n"
    by (simp add: entry_expired_file_at remove_entry_file_at split: option.split)
  then show ?case using Cons.IH [of "remove_entry x c"] Cons.IH [of c] by (auto simp: remove_entry_file_at)
qed simp

lemma dc_cleanup_file_at:
  "file_at (dc_cleanup now c) name = (if entry_expired c now name then None else file_at c name)"
  "dc_ttl (dc_cleanup now c) = dc_ttl c" "dc_files (dc_cleanup now c) = None \<longleftrightarrow> dc_files c = None"
proof -
  have "name \<in> fst ` set m" if "dc_files c = Some m" "entry_expired c now name" for m
    using that by (auto simp: entry_expired_file_at file_at_def split: option.splits dest!: map_of_SomeD intro: rev_image_eqI)
  then show "file_at (dc_cleanup now c) name = (if entry_expired c now name then None else file_at c name)"
    using no_directory [of c now name] by (cases "dc_files c") (auto simp: dc_cleanup_def cleanup_fold)
  show "dc_ttl (dc_cleanup now c) = dc_ttl c" "dc_files (dc_cleanup now c) = None \<longleftrightarrow> dc_files c = None"
    by (cases "dc_files c"; simp add: dc_cleanup_def cleanup_fold)+
qed

lemma dc_Clear_file_at: "file_at (fst (dc_Clear (\<lambda>_. None) True c)) name = None"
  "dc_ttl (fst (dc_Clear (\<lambda>_. None) True c)) = dc_ttl c" "dc_files (fst (dc_Clear (\<lambda>_. None) True c)) \<noteq> None"
  by (cases "dc_files c"; simp add: dc_Clear_def file_at_def)+

section \<open>The store that clients see\<close>

text \<open>
  What the getter of charts relies on: what was put is found while it is fresh, under the same name only.
\<close>

locale chart_store =
  fixes put :: "'s \<Rightarrow> instant \<Rightarrow> string \<Rightarrow> string \<Rightarrow> string \<Rightarrow> 's"
    and find :: "'s \<Rightarrow> instant \<Rightarrow> string \<Rightarrow> string \<Rightarrow> string option"
    and name :: "string \<Rightarrow> string \<Rightarrow> string"
    and ttl :: "'s \<Rightarrow> duration"
    and ok :: "'s \<Rightarrow> bool"
  assumes ok_put: "ok s \<Longrightarrow> ok (put s t uri version d)"
    and ttl_put: "ok s \<Longrightarrow> ttl (put s t uri version d) = ttl s"
    and find_same: "ok s \<Longrightarrow> name uri version = name uri' version' \<Longrightarrow>
      find (put s t uri version d) now uri' version' = (if now - t > ttl s then None else Some d)"
    and find_other: "ok s \<Longrightarrow> name uri version \<noteq> name uri' version' \<Longrightarrow>
      find (put s t uri version d) now uri' version' = find s now uri' version'"
begin

text \<open>After a list of puts, a fresh entry holds what was put last under its name.\<close>

fun set_all :: "'s \<Rightarrow> (instant \<times> string \<times> string \<times> string) list \<Rightarrow> 's" where
  "set_all s [] = s"
| "set_all s ((t, uri, version, d) # ps) = set_all (put s t uri version d) ps"

lemma ok_set_all: "ok s \<Longrightarrow> ok (set_all s ps) \<and> ttl (set_all s ps) = ttl s"
  by (induction s ps rule: set_all.induct) (auto simp: ok_put ttl_put)

lemma find_set_all_other:
  "ok s \<Longrightarrow> \<forall>(t, u, v, d)\<in>set ps. name u v \<noteq> name uri version \<Longrightarrow> find (set_all s ps) now uri version = find s now uri version"
  by (induction s ps rule: set_all.induct) (auto simp: ok_put find_other)

lemma find_last_put:
  assumes "ok s" "\<forall>(t', u, v, d')\<in>set ps. name u v \<noteq> name uri version" "now - t \<le> ttl s"
  shows "find (set_all s ((t, uri, version, d) # ps)) now uri version = Some d"
  using assms by (simp add: find_set_all_other ok_put find_same)

end

text \<open>The cache as such a store: a \<open>Set\<close> that succeeds, with a temporary name that is not a file of the directory.\<close>

definition tmp_name :: "disk_cache \<Rightarrow> string" where
  "tmp_name c = ''tmp-'' @ replicate (sum_list (map (length \<circ> fst) (case dc_files c of Some m \<Rightarrow> m | None \<Rightarrow> []))) (CHR ''x'')"

lemma tmp_name_fresh: "dc_files c = Some files \<Longrightarrow> \<not> gomap_has files (tmp_name c)"
proof -
  assume f: "dc_files c = Some files"
  have "length k \<le> sum_list (map (length \<circ> fst) files)" if "k \<in> fst ` set files" for k
    using that by (intro member_le_sum_list) auto
  then show ?thesis using f by (force simp: tmp_name_def)
qed

lemma tmp_name_prefix: "HasPrefix (tmp_name c) ''tmp-''"
  by (simp add: tmp_name_def HasPrefix_iff)

definition dc_put :: "(string \<Rightarrow> string) \<Rightarrow> disk_cache \<Rightarrow> instant \<Rightarrow> string \<Rightarrow> string \<Rightarrow> string \<Rightarrow> disk_cache" where
  "dc_put sha c now uri version d = fst (dc_Set sha (tmp_name c) SetOk c now uri version d)"

interpretation dcs: chart_store "dc_put sha" "dc_Get sha True" "dc_key sha" dc_ttl "\<lambda>c. dc_files c \<noteq> None" for sha
proof unfold_locales
  fix c :: disk_cache and t now :: instant and uri version uri' version' d :: string
  assume "dc_files c \<noteq> None"
  then obtain files where files: "dc_files c = Some files" by auto
  note set = dc_Set_file_at [OF files tmp_name_fresh [OF files] tmp_name_prefix, of sha SetOk t uri version d]
  show "dc_files (dc_put sha c t uri version d) \<noteq> None" by (simp add: dc_put_def set)
  show ttl: "dc_ttl (dc_put sha c t uri version d) = dc_ttl c" by (simp add: dc_put_def set)
  show "dc_Get sha True (dc_put sha c t uri version d) now uri' version' = (if now - t > dc_ttl c then None else Some d)"
    if "dc_key sha uri version = dc_key sha uri' version'"
    using that ttl by (simp add: dc_Get_file_at dc_put_def set dc_key_file_name dc_expired_def)
  show "dc_Get sha True (dc_put sha c t uri version d) now uri' version' = dc_Get sha True c now uri' version'"
    if "dc_key sha uri version \<noteq> dc_key sha uri' version'"
    using that ttl by (simp add: dc_Get_file_at dc_put_def set dc_key_file_name split: option.split)
qed

section \<open>Every interleaving\<close>

text \<open>Every file holds, under the name of its key, what the history says.\<close>

definition dc_inv :: "(string \<Rightarrow> string) \<Rightarrow> duration \<Rightarrow> string set \<Rightarrow> dc_state \<times> (string \<rightharpoonup> string \<times> instant) \<Rightarrow> bool" where
  "dc_inv sha ttl K sh =
     (let (s, h) = sh in
      dc_files (st_cache s) \<noteq> None \<and> dc_ttl (st_cache s) = ttl \<and> dom h \<subseteq> K \<and>
      (\<forall>name f. file_at (st_cache s) name = Some f \<longrightarrow> (\<exists>k. name = file_name sha k \<and> h k = Some (cf_data f, cf_mtime f))))"

definition op_key :: "dc_op \<Rightarrow> string option" where
  "op_key op = (case op of OpSet now tmp io uri version source \<Rightarrow> Some (uri @ '':'' @ version) | _ \<Rightarrow> None)"

definition both_step :: "(string \<Rightarrow> string) \<Rightarrow> dc_state \<times> (string \<rightharpoonup> string \<times> instant) \<Rightarrow> dc_op \<Rightarrow> dc_state \<times> (string \<rightharpoonup> string \<times> instant)" where
  "both_step sha sh op = (dc_step sha (fst sh) op, spec_step (snd sh) op)"

definition both_guard :: "string set \<Rightarrow> dc_state \<times> (string \<rightharpoonup> string \<times> instant) \<Rightarrow> dc_op \<Rightarrow> bool" where
  "both_guard K sh op = (dc_guard (fst sh) op \<and> set_option (op_key op) \<subseteq> K)"

lemma dc_inv_step:
  assumes "dc_inv sha ttl K sh" "both_guard K sh op"
  shows "dc_inv sha ttl K (both_step sha sh op)"
proof -
  obtain s h where sh: "sh = (s, h)" by (cases sh)
  obtain files where files: "dc_files (st_cache s) = Some files" using assms(1) by (auto simp: dc_inv_def sh)
  note inv = assms(1)[unfolded dc_inv_def sh Let_def prod.case]
  show ?thesis
  proof (cases op)
    case (OpSet now tmp io uri version source)
    have g: "\<not> gomap_has files tmp" "HasPrefix tmp ''tmp-''" "uri @ '':'' @ version \<in> K"
      using assms(2) files by (auto simp: both_guard_def dc_guard_def op_key_def OpSet sh)
    note set = dc_Set_file_at [OF files g(1,2), of sha io now uri version source]
    let ?c = "fst (dc_Set sha tmp io (st_cache s) now uri version source)" and ?k = "uri @ '':'' @ version"
    have "\<exists>k. name = file_name sha k \<and> spec_step h op k = Some (cf_data f, cf_mtime f)" if "file_at ?c name = Some f" for name f
    proof (cases "io = SetOk \<and> name = file_name sha ?k")
      case True
      then have "f = \<lparr>cf_data = source, cf_mtime = now\<rparr>" using that set(1)[of name] by simp
      with True show ?thesis by (intro exI [of _ ?k]) (auto simp: spec_step_def OpSet)
    next
      case False
      with that have "file_at (st_cache s) name = Some f" by (auto simp: set split: if_splits)
      with inv obtain k where "name = file_name sha k" "h k = Some (cf_data f, cf_mtime f)" by blast
      with False show ?thesis by (intro exI [of _ k]) (auto simp: spec_step_def OpSet)
    qed
    then show ?thesis using inv g(3) set(2,3)
      by (auto simp: dc_inv_def both_step_def sh dc_step_def spec_step_def OpSet split: if_splits)
  next
    case OpClear
    then show ?thesis using inv dc_Clear_file_at(3)[of "st_cache s"]
      by (simp add: dc_inv_def both_step_def sh dc_step_def spec_step_def dc_Clear_file_at(1,2))
  next
    case (OpCleanup now)
    then show ?thesis using inv
      by (simp add: dc_inv_def both_step_def sh dc_step_def spec_step_def dc_cleanup_file_at del: not_None_eq)
  next
    case (OpExpired now name)
    then show ?thesis using inv by (auto simp: dc_inv_def both_step_def sh dc_step_def spec_step_def)
  next
    case (OpRemove name)
    then show ?thesis using inv
      by (simp add: dc_inv_def both_step_def sh dc_step_def spec_step_def remove_entry_file_at del: not_None_eq)
  qed
qed

interpretation dcr: step_system "both_step sha" "both_guard K" "dc_inv sha ttl K" for sha K ttl
  by unfold_locales (rule dc_inv_step)

lemma run_both: "run_ops (both_step sha) (s, h) ops = (run_ops (dc_step sha) s ops, foldl spec_step h ops)"
  by (induction ops arbitrary: s h) (simp_all add: both_step_def)

lemma admissible_both:
  "admissible dc_guard (dc_step sha) s ops \<Longrightarrow> (\<And>op. op \<in> set ops \<Longrightarrow> set_option (op_key op) \<subseteq> K) \<Longrightarrow>
     admissible (both_guard K) (both_step sha) (s, h) ops"
  by (induction ops arbitrary: s h) (simp_all add: both_step_def both_guard_def)

definition op_keys :: "dc_op list \<Rightarrow> string set" where
  "op_keys ops = (\<Union>op\<in>set ops. set_option (op_key op))"

lemma dc_inv_run:
  assumes "dc_files (st_cache s) = Some []" "admissible dc_guard (dc_step sha) s ops"
  shows "dc_inv sha (dc_ttl (st_cache s)) (op_keys ops) (run_ops (dc_step sha) s ops, foldl spec_step Map.empty ops)"
proof -
  have "dc_inv sha (dc_ttl (st_cache s)) (op_keys ops) (s, Map.empty)"
    using assms(1) by (simp add: dc_inv_def file_at_def)
  moreover have "admissible (both_guard (op_keys ops)) (both_step sha) (s, Map.empty) ops"
    by (rule admissible_both [OF assms(2)]) (auto simp: op_keys_def)
  ultimately have "dc_inv sha (dc_ttl (st_cache s)) (op_keys ops) (run_ops (both_step sha) (s, Map.empty) ops)"
    by (rule dcr.run_inv)
  then show ?thesis by (simp only: run_both)
qed

text \<open>
  Whatever \<open>Set\<close>s, failures of \<open>Set\<close> at any point, \<open>Clear\<close>s and halves of cleanups come in whatever order, what \<open>Get\<close> returns
  is the whole content of the last \<open>Set\<close> of that reference and version that succeeded since the last \<open>Clear\<close>, and it is no
  older than the time to live.  SHA-256 must not collide on the keys that occur.
\<close>

theorem Get_serves_last_set:
  assumes "dc_files (st_cache s) = Some []" "admissible dc_guard (dc_step sha) s ops"
    and "inj_on sha (insert (uri @ '':'' @ version) (op_keys ops))"
    and "dc_Get sha openOk (st_cache (run_ops (dc_step sha) s ops)) now uri version = Some d"
  shows "\<exists>t. foldl spec_step Map.empty ops (uri @ '':'' @ version) = Some (d, t) \<and> now - t \<le> dc_ttl (st_cache s)"
proof -
  note inv = dc_inv_run [OF assms(1,2), unfolded dc_inv_def Let_def prod.case]
  let ?k = "uri @ '':'' @ version"
  from assms(4) inv obtain f where f: "file_at (st_cache (run_ops (dc_step sha) s ops)) (file_name sha ?k) = Some f"
    "cf_data f = d" "now - cf_mtime f \<le> dc_ttl (st_cache s)"
    by (auto simp: dc_Get_file_at dc_expired_def split: option.splits if_splits)
  with inv obtain k where k: "file_name sha ?k = file_name sha k" "foldl spec_step Map.empty ops k = Some (d, cf_mtime f)" by blast
  then have "k \<in> op_keys ops" using inv by auto
  then have "?k = k" by (rule file_name_inj [OF assms(3) insertI1 insertI2 k(1)])
  with k(2) f(3) show ?thesis by auto
qed

definition empty_cache :: "duration \<Rightarrow> disk_cache" where
  "empty_cache ttl = \<lparr>dc_dir = ''/cache'', dc_ttl = ttl, dc_cleanupInterval = hour, dc_files = Some [], dc_stopOnce = False, dc_closes = 0\<rparr>"

definition empty_state :: "duration \<Rightarrow> dc_state" where
  "empty_state ttl = \<lparr>st_cache = empty_cache ttl, st_pending = []\<rparr>"

definition sample_ops :: "dc_op list" where
  "sample_ops = [OpSet 0 ''tmp-1'' SetOk ''u'' ''1'' ''old'', OpSet 3 ''tmp-2'' SetOk ''u'' ''1'' ''new'',
     OpSet 4 ''tmp-3'' (CopyFails ''par'') ''u'' ''1'' ''partial'']"

lemma sample_admissible: "admissible dc_guard (dc_step (\<lambda>x. x)) (empty_state 10) sample_ops"
  by (simp add: sample_ops_def empty_state_def empty_cache_def dc_guard_def dc_step_def dc_Set_def Let_def
      remove_tmp_def rename_file_def HasPrefix_def dc_key_def hex_EncodeToString_def)

theorem Get_serves_last_set_witness:
  "dc_Get (\<lambda>x. x) True (st_cache (run_ops (dc_step (\<lambda>x. x)) (empty_state 10) sample_ops)) 5 ''u'' ''1'' = Some ''new'' \<and>
   (\<exists>t. foldl spec_step Map.empty sample_ops (''u'' @ '':'' @ ''1'') = Some (''new'', t) \<and> 5 - t \<le> 10)"
proof -
  have g: "dc_Get (\<lambda>x. x) True (st_cache (run_ops (dc_step (\<lambda>x. x)) (empty_state 10) sample_ops)) 5 ''u'' ''1'' = Some ''new''"
    by (simp add: sample_ops_def empty_state_def empty_cache_def dc_step_def dc_Set_def Let_def dc_Get_def dc_expired_def
        remove_tmp_def rename_file_def dc_key_def hex_EncodeToString_def)
  have "dc_files (st_cache (empty_state 10)) = Some []" "dc_ttl (st_cache (empty_state 10)) = 10"
    by (simp_all add: empty_state_def empty_cache_def)
  with g Get_serves_last_set [OF _ sample_admissible _ g] show ?thesis by (simp add: inj_on_def)
qed

section \<open>Cleanups that are not interrupted\<close>

definition whole_op :: "instant \<Rightarrow> dc_op \<Rightarrow> bool" where
  "whole_op now op = (case op of OpCleanup t \<Rightarrow> t \<le> now | OpRemove _ \<Rightarrow> False | _ \<Rightarrow> True)"

text \<open>A key of the history whose file is gone had expired.\<close>

definition dc_kept :: "(string \<Rightarrow> string) \<Rightarrow> instant \<Rightarrow> dc_state \<times> (string \<rightharpoonup> string \<times> instant) \<Rightarrow> bool" where
  "dc_kept sha now sh =
     (\<forall>k d t. snd sh k = Some (d, t) \<longrightarrow>
        file_at (st_cache (fst sh)) (file_name sha k) = Some \<lparr>cf_data = d, cf_mtime = t\<rparr> \<or>
        file_at (st_cache (fst sh)) (file_name sha k) = None \<and> now - t > dc_ttl (st_cache (fst sh)))"

lemma dc_kept_step:
  assumes "dc_inv sha ttl K sh" "dc_kept sha now sh" "both_guard K sh op" "inj_on sha K" "whole_op now op"
  shows "dc_kept sha now (both_step sha sh op)"
proof -
  obtain s h where sh: "sh = (s, h)" by (cases sh)
  obtain files where files: "dc_files (st_cache s) = Some files" using assms(1) by (auto simp: dc_inv_def sh)
  have dom: "dom h \<subseteq> K" using assms(1) by (simp add: dc_inv_def sh)
  note kept = assms(2)[unfolded dc_kept_def sh fst_conv snd_conv]
  show ?thesis
  proof (cases op)
    case (OpSet t0 tmp io uri version source)
    let ?k = "uri @ '':'' @ version"
    have g: "\<not> gomap_has files tmp" "HasPrefix tmp ''tmp-''" "?k \<in> K"
      using assms(3) files by (auto simp: both_guard_def dc_guard_def op_key_def OpSet sh)
    note set = dc_Set_file_at [OF files g(1,2), of sha io t0 uri version source]
    have "file_name sha k \<noteq> file_name sha ?k" if "h k \<noteq> None" "k \<noteq> ?k" for k
      using that dom file_name_inj [OF assms(4) _ g(3)] by blast
    with kept show ?thesis
      unfolding dc_kept_def both_step_def sh OpSet dc_step_def spec_step_def by (auto simp: set)
  next
    case (OpCleanup t0)
    then have "t0 \<le> now" using assms(5) by (simp add: whole_op_def)
    have "file_at (dc_cleanup t0 (st_cache s)) (file_name sha k) = Some \<lparr>cf_data = d, cf_mtime = t\<rparr> \<or>
        file_at (dc_cleanup t0 (st_cache s)) (file_name sha k) = None \<and> now - t > dc_ttl (st_cache s)" if "h k = Some (d, t)" for k d t
    proof (cases "file_at (st_cache s) (file_name sha k)")
      case None
      with kept that show ?thesis by (fastforce simp: dc_cleanup_file_at entry_expired_file_at)
    next
      case (Some f)
      with kept that have "f = \<lparr>cf_data = d, cf_mtime = t\<rparr>" by fastforce
      with Some \<open>t0 \<le> now\<close> show ?thesis by (auto simp: dc_cleanup_file_at entry_expired_file_at dc_expired_def)
    qed
    then show ?thesis
      unfolding dc_kept_def both_step_def sh OpCleanup dc_step_def spec_step_def by (simp add: dc_cleanup_file_at(2))
  qed (use kept assms(5) in \<open>auto simp: dc_kept_def both_step_def sh dc_step_def spec_step_def whole_op_def\<close>)
qed

lemma dc_kept_run:
  "dc_inv sha ttl K sh \<Longrightarrow> dc_kept sha now sh \<Longrightarrow> admissible (both_guard K) (both_step sha) sh ops \<Longrightarrow> inj_on sha K \<Longrightarrow>
     list_all (whole_op now) ops \<Longrightarrow> dc_kept sha now (run_ops (both_step sha) sh ops)"
proof (induction ops arbitrary: sh)
  case (Cons op ops)
  then have g: "both_guard K sh op" "whole_op now op" by simp_all
  show ?case
    using Cons.IH [OF dc_inv_step [OF Cons.prems(1) g(1)] dc_kept_step [OF Cons.prems(1,2) g(1) Cons.prems(4) g(2)]] Cons.prems
    by simp
qed simp

lemma Get_refines_texts:
  assumes "dc_files (st_cache s) = Some []" "admissible dc_guard (dc_step sha) s ops" "list_all (whole_op now) ops"
    and "inj_on sha (insert (uri @ '':'' @ version) (op_keys ops))"
  shows "dc_Get sha True (st_cache (run_ops (dc_step sha) s ops)) now uri version =
    (case foldl spec_step Map.empty ops (uri @ '':'' @ version) of
       None \<Rightarrow> None
     | Some (d, t) \<Rightarrow> if now - t > dc_ttl (st_cache s) then None else Some d)"
proof -
  let ?k = "uri @ '':'' @ version" and ?s = "run_ops (dc_step sha) s ops" and ?h = "foldl spec_step Map.empty ops"
  note inv = dc_inv_run [OF assms(1,2), unfolded dc_inv_def Let_def prod.case]
  have "dc_inv sha (dc_ttl (st_cache s)) (op_keys ops) (s, Map.empty)" "dc_kept sha now (s, Map.empty)"
    using assms(1) by (simp_all add: dc_inv_def dc_kept_def file_at_def)
  moreover have "admissible (both_guard (op_keys ops)) (both_step sha) (s, Map.empty) ops"
    by (rule admissible_both [OF assms(2)]) (auto simp: op_keys_def)
  moreover have "inj_on sha (op_keys ops)" using assms(4) by (rule inj_on_subset) auto
  ultimately have kept: "dc_kept sha now (?s, ?h)"
    using dc_kept_run [of sha _ "op_keys ops" "(s, Map.empty)" now ops] assms(3) by (simp add: run_both)
  show ?thesis
  proof (cases "?h ?k")
    case None
    have "file_at (st_cache ?s) (file_name sha ?k) = None"
    proof (rule ccontr)
      assume "file_at (st_cache ?s) (file_name sha ?k) \<noteq> None"
      then obtain f where "file_at (st_cache ?s) (file_name sha ?k) = Some f" by auto
      with inv obtain k where k: "file_name sha ?k = file_name sha k" "?h k = Some (cf_data f, cf_mtime f)" by blast
      then have "k \<in> op_keys ops" using inv by auto
      then have "?k = k" by (rule file_name_inj [OF assms(4) insertI1 insertI2 k(1)])
      with k(2) None show False by simp
    qed
    with None show ?thesis by (simp add: dc_Get_file_at)
  next
    case (Some dt)
    obtain d t where dt: "dt = (d, t)" by (cases dt)
    have "dc_ttl (st_cache ?s) = dc_ttl (st_cache s)" using inv by simp
    moreover have "file_at (st_cache ?s) (file_name sha ?k) = Some \<lparr>cf_data = d, cf_mtime = t\<rparr> \<or>
        file_at (st_cache ?s) (file_name sha ?k) = None \<and> now - t > dc_ttl (st_cache ?s)"
      using kept Some dt unfolding dc_kept_def fst_conv snd_conv by blast
    ultimately show ?thesis using Some dt by (auto simp: dc_Get_file_at dc_expired_def)
  qed
qed

text \<open>
  The history of the charts themselves: the content and time of the last \<open>Set\<close> that succeeded for a reference and a version,
  since the last \<open>Clear\<close>.
\<close>

definition history_step ::
  "(string \<times> string \<rightharpoonup> string \<times> instant) \<Rightarrow> dc_op \<Rightarrow> (string \<times> string \<rightharpoonup> string \<times> instant)" where
  "history_step h op =
     (case op of
        OpSet now tmp io uri version source \<Rightarrow> if io = SetOk then h((uri, version) \<mapsto> (source, now)) else h
      | OpClear \<Rightarrow> (\<lambda>_. None)
      | _ \<Rightarrow> h)"

definition plain_version :: "dc_op \<Rightarrow> bool" where
  "plain_version op = (case op of OpSet now tmp io uri version source \<Rightarrow> CHR '':'' \<notin> set version | _ \<Rightarrow> True)"

lemma join_inj:
  assumes "CHR '':'' \<notin> set v" "CHR '':'' \<notin> set v'"
  shows "u @ '':'' @ v = u' @ '':'' @ v' \<longleftrightarrow> u = u' \<and> v = v'"
proof
  assume e: "u @ '':'' @ v = u' @ '':'' @ v'"
  have "takeWhile (\<lambda>c. c \<noteq> CHR '':'') (rev (x @ '':'' @ w)) = rev w" if "CHR '':'' \<notin> set w" for x w
    using that takeWhile_append2 [of "rev w" "\<lambda>c. c \<noteq> CHR '':''" "CHR '':'' # rev x"] by auto
  from this [OF assms(1), of u] this [OF assms(2), of u'] e have "v = v'" by (metis rev_rev_ident)
  with e show "u = u' \<and> v = v'" by simp
qed simp

lemma spec_history:
  assumes "CHR '':'' \<notin> set version" and "\<forall>u v. CHR '':'' \<notin> set v \<longrightarrow> h (u @ '':'' @ v) = g (u, v)"
  shows "list_all plain_version ops \<Longrightarrow> foldl spec_step h ops (uri @ '':'' @ version) = foldl history_step g ops (uri, version)"
  using assms
proof (induction ops arbitrary: h g)
  case (Cons op ops)
  have "\<forall>u v. CHR '':'' \<notin> set v \<longrightarrow> spec_step h op (u @ '':'' @ v) = history_step g op (u, v)"
  proof (cases op)
    case (OpSet now tmp io uri' version' source)
    then have "CHR '':'' \<notin> set version'" using Cons.prems(1) by (simp add: plain_version_def)
    then have "u @ '':'' @ v = uri' @ '':'' @ version' \<longleftrightarrow> u = uri' \<and> v = version'" if "CHR '':'' \<notin> set v" for u v
      using join_inj [OF that] by blast
    with Cons.prems(3) show ?thesis by (simp add: spec_step_def history_step_def OpSet)
  qed (use Cons.prems(3) in \<open>simp_all add: spec_step_def history_step_def\<close>)
  with Cons show ?case by simp
qed simp

text \<open>
  C13: \<open>Get\<close> refines the history of the charts exactly.  In every sequence of steps that begins with an empty directory,
  when no cleanup is interrupted and none has run later than now, no version contains a colon, and SHA-256 has no collision
  among the texts that are hashed: \<open>Get\<close> of a reference and a version returns the content of the last successful \<open>Set\<close> of
  this reference and this version since the last \<open>Clear\<close> if that is no older than the time to live, and nothing otherwise.
\<close>

theorem Get_refines_history:
  assumes "dc_files (st_cache s) = Some []" "admissible dc_guard (dc_step sha) s ops" "list_all (whole_op now) ops"
    and "CHR '':'' \<notin> set version" "list_all plain_version ops"
    and "inj_on sha (insert (uri @ '':'' @ version) (op_keys ops))"
  shows "dc_Get sha True (st_cache (run_ops (dc_step sha) s ops)) now uri version =
    (case foldl history_step Map.empty ops (uri, version) of
       None \<Rightarrow> None
     | Some (d, t) \<Rightarrow> if now - t > dc_ttl (st_cache s) then None else Some d)"
  using Get_refines_texts [OF assms(1-3,6)] spec_history [OF assms(4) _ assms(5), of Map.empty Map.empty] by simp

theorem Get_refines_history_witness:
  "dc_Get (\<lambda>x. x) True (st_cache (run_ops (dc_step (\<lambda>x. x)) (empty_state 10) sample_ops)) 14 ''u'' ''1'' = None"
proof -
  have "dc_files (st_cache (empty_state 10)) = Some []" "dc_ttl (st_cache (empty_state 10)) = 10"
    by (simp_all add: empty_state_def empty_cache_def)
  moreover have "list_all (whole_op 14) sample_ops" "list_all plain_version sample_ops"
    by (simp_all add: sample_ops_def whole_op_def plain_version_def)
  moreover have "inj_on (\<lambda>x. x) (insert (''u'' @ '':'' @ ''1'') (op_keys sample_ops))" by (simp add: inj_on_def)
  moreover have "foldl history_step Map.empty sample_ops (''u'', ''1'') = Some (''new'', 3)"
    by (simp add: sample_ops_def history_step_def)
  ultimately show ?thesis using Get_refines_history [OF _ sample_admissible, of 14 "''1''" "''u''"] by simp
qed

text \<open>
  The file name is not unique: with a colon in the version, a chart that was stored for one reference and version is served for
  another one.
\<close>

theorem key_serves_other_chart:
  assumes "dc_files (st_cache s) = Some []" "HasPrefix tmp ''tmp-''" "0 \<le> dc_ttl (st_cache s)"
  shows "dc_Get sha True (st_cache (run_ops (dc_step sha) s [OpSet now tmp SetOk ''a:b'' ''c'' chart])) now ''a'' ''b:c'' = Some chart"
  using dc_Set_file_at [OF assms(1) _ assms(2), of sha SetOk now "''a:b''" "''c''" chart] assms(3)
  by (simp add: dc_Get_file_at dc_step_def dc_expired_def)

section \<open>Stopping, and the interrupted cleanup\<close>

definition closes_ok :: "disk_cache \<Rightarrow> bool" where
  "closes_ok c = (dc_closes c = (if dc_stopOnce c then 1 else 0))"

text \<open>However often \<open>Stop\<close> is called, the channel is closed once.\<close>

lemma dc_Stop_closes_once: "closes_ok c \<Longrightarrow> closes_ok ((dc_Stop ^^ n) c) \<and> (n > 0 \<longrightarrow> dc_closes ((dc_Stop ^^ n) c) = 1)"
  by (induction n) (auto simp: closes_ok_def dc_Stop_def)

lemma closes_ok_new: "NewDiskCache dir mkdirAll [] = Some c \<Longrightarrow> closes_ok c"
  by (auto simp: NewDiskCache_def closes_ok_def)

text \<open>
  The cleanup that tests a file before it takes the lock can remove a file that \<open>Set\<close> has replaced in between: a chart that
  was stored a moment ago, well within the time to live, is not found.
\<close>

theorem cleanup_loses_fresh_file:
  assumes "dc_files (st_cache s) = Some []" "0 \<le> ttl" "dc_ttl (st_cache s) = ttl" "t + ttl < now"
    and "HasPrefix tmp ''tmp-''"
  shows "dc_Get sha True (st_cache (run_ops (dc_step sha) s
      [OpSet t tmp SetOk uri version old, OpExpired now (dc_key sha uri version),
       OpSet now tmp SetOk uri version new, OpRemove (dc_key sha uri version)])) now uri version = None"
    (is "dc_Get _ _ (st_cache (run_ops _ _ [?a, ?b, ?c, ?d])) _ _ _ = _")
proof -
  let ?n = "file_name sha (uri @ '':'' @ version)"
  define s1 where "s1 = dc_step sha s ?a"
  define s2 where "s2 = dc_step sha s1 ?b"
  define s3 where "s3 = dc_step sha s2 ?c"
  have "\<not> gomap_has [] tmp" by simp
  note set = dc_Set_file_at [OF assms(1) this assms(5), of sha SetOk t uri version old]
  have "file_at (st_cache s1) ?n = Some \<lparr>cf_data = old, cf_mtime = t\<rparr>" "dc_ttl (st_cache s1) = ttl"
    by (simp_all add: s1_def dc_step_def set assms(3))
  then have "?n \<in> set (st_pending s2)"
    using assms(4) by (simp add: s2_def dc_step_def dc_key_file_name entry_expired_file_at dc_expired_def)
  then have "?n \<in> set (st_pending s3)" by (simp add: s3_def dc_step_def)
  then have "file_at (st_cache (dc_step sha s3 ?d)) ?n = None"
    by (simp add: dc_step_def dc_key_file_name remove_entry_file_at)
  moreover have "run_ops (dc_step sha) s [?a, ?b, ?c, ?d] = dc_step sha s3 ?d" by (simp add: s1_def s2_def s3_def)
  ultimately show ?thesis by (simp add: dc_Get_file_at)
qed

theorem cleanup_loses_fresh_file_witness:
  "dc_Get (\<lambda>x. x) True (st_cache (run_ops (dc_step (\<lambda>x. x)) (empty_state 10)
      [OpSet 0 ''tmp-1'' SetOk ''u'' ''1'' ''old'', OpExpired 11 (dc_key (\<lambda>x. x) ''u'' ''1''),
       OpSet 11 ''tmp-1'' SetOk ''u'' ''1'' ''new'', OpRemove (dc_key (\<lambda>x. x) ''u'' ''1'')])) 11 ''u'' ''1'' = None"
  by (rule cleanup_loses_fresh_file [where ttl = 10]) (simp_all add: empty_state_def empty_cache_def HasPrefix_def)

end
