(* ===== verification/Chart_Getter.thy ===== *)
theory Chart_Getter
  imports Repo_Index Disk_Cache
begin

text \<open>
  \<open>helm/getter\<close>: fetching a chart from a registry, an archive or a repository, through the cache (\<open>getter.go\<close>, \<open>http.go\<close>,
  \<open>oci.go\<close>, \<open>tgz.go\<close>, \<open>options.go\<close>, \<open>errors.go\<close>).

  The network is a state \<open>'w\<close> that every call changes: \<open>env_http\<close> is the HTTP client, \<open>env_oras\<close> the client of OCI registries.
  \<open>net/url\<close>, \<open>semver\<close>, \<open>sort.Sort\<close>, the YAML decoder and the decoder of OCI manifests are arguments, as in \<open>Repo_Index\<close>.  Readers are
  the bytes they give.  The cache is the state of \<open>Disk_Cache\<close>; a call of \<open>Get\<close> takes the times at which it asks the cache, and
  what the operating system does to \<open>Set\<close>.

  Shown: a chart that was fetched is served from the cache while it is fresh, without the network; charts with different
  references never share an entry; the tag chosen for a registry is a greatest stable one; which credentials go where.
\<close>

section \<open>Options\<close>

record get_options =
  go_URI :: string
  go_Version :: string
  go_Repo :: string
  go_Insecure :: bool
  go_Username :: string
  go_Password :: string
  go_PassAll :: bool
  go_Timeout :: duration

definition zero_options :: "string \<Rightarrow> get_options" where
  "zero_options uri = \<lparr>go_URI = uri, go_Version = [], go_Repo = [], go_Insecure = False, go_Username = [], go_Password = [],
     go_PassAll = False, go_Timeout = 0\<rparr>"

definition go_WithVersion :: "string \<Rightarrow> get_options \<Rightarrow> get_options" where
  "go_WithVersion v opts = opts\<lparr>go_Version := v\<rparr>"

definition go_WithRepo :: "string \<Rightarrow> get_options \<Rightarrow> get_options" where
  "go_WithRepo r opts = opts\<lparr>go_Repo := r\<rparr>"

definition go_WithCredentials :: "string \<Rightarrow> string \<Rightarrow> get_options \<Rightarrow> get_options" where
  "go_WithCredentials username password opts = opts\<lparr>go_Username := username, go_Password := password\<rparr>"

definition go_WithPassCredentialsAll :: "bool \<Rightarrow> get_options \<Rightarrow> get_options" where
  "go_WithPassCredentialsAll pass opts = opts\<lparr>go_PassAll := pass\<rparr>"

definition go_WithInsecureSkipVerifyTLS :: "bool \<Rightarrow> get_options \<Rightarrow> get_options" where
  "go_WithInsecureSkipVerifyTLS skip opts = opts\<lparr>go_Insecure := skip\<rparr>"

definition go_WithTimeout :: "duration \<Rightarrow> get_options \<Rightarrow> get_options" where
  "go_WithTimeout t opts = opts\<lparr>go_Timeout := t\<rparr>"

definition build_options :: "string \<Rightarrow> (get_options \<Rightarrow> get_options) list \<Rightarrow> get_options" where
  "build_options uri opts = fold (\<lambda>opt o'. opt o') opts ((zero_options uri)\<lparr>go_Timeout := 60 * 10 ^ 9\<rparr>)"

section \<open>Environment\<close>

record http_request =
  hr_URI :: string
  hr_Auth :: "(string \<times> string) option"
  hr_Strip :: bool
  hr_Insecure :: bool
  hr_Timeout :: duration

record getter_response =
  hs_Code :: int
  hs_Status :: string
  hs_Body :: "string + string"

record oci_client =
  oc_PlainHTTP :: bool
  oc_Insecure :: bool
  oc_Timeout :: duration
  oc_Credential :: "(string \<times> string \<times> string) option"

record layer =
  ly_MediaType :: string
  ly_Digest :: string

text \<open>\<open>oras.land/oras-go\<close>: a repository from a reference (its registry and its tag or digest), and the calls on it.\<close>

record ('d, 'w) oras =
  or_NewRepository :: "string \<Rightarrow> (string \<times> string) option"
  or_Tags :: "oci_client \<Rightarrow> string \<Rightarrow> 'w \<Rightarrow> 'w \<times> (string + string list)"
  or_Resolve :: "oci_client \<Rightarrow> string \<Rightarrow> string \<Rightarrow> 'w \<Rightarrow> 'w \<times> (string + 'd)"
  or_FetchAll :: "oci_client \<Rightarrow> string \<Rightarrow> 'd \<Rightarrow> 'w \<Rightarrow> 'w \<times> (string + string)"
  or_Unmarshal :: "string \<Rightarrow> layer list option"
  or_Fetch :: "oci_client \<Rightarrow> string \<Rightarrow> layer \<Rightarrow> 'w \<Rightarrow> 'w \<times> (string + string)"

record ('u, 'v, 'c, 'd, 'w) getter_env =
  env_url :: "'u net_url"
  env_semver :: "('v, 'c) semver"
  env_sort_charts :: "(chart_version option \<Rightarrow> chart_version option \<Rightarrow> bool) \<Rightarrow> chart_versions \<Rightarrow> chart_versions"
  env_sort_versions :: "('v \<Rightarrow> 'v \<Rightarrow> bool) \<Rightarrow> 'v list \<Rightarrow> 'v list"
  env_decode :: "string \<Rightarrow> decoded"
  env_http :: "http_request \<Rightarrow> 'w \<Rightarrow> 'w \<times> (string + getter_response)"
  env_oras :: "('d, 'w) oras"

datatype getter_error =
    URIRequired
  | ErrNoHandler string
  | ErrInvalidRepoRef string
  | NotOCI string
  | RequestFailed string string
  | BadStatus string string
  | BodyFailed string
  | LoadFailed index_error
  | NotInIndex index_error
  | NoPackageURL string string
  | InvalidChartURL string
  | InvalidReference string
  | TagsFailed string
  | NoStableTag
  | ResolveFailed string string
  | ManifestFailed string
  | ManifestInvalid
  | LayerNotFound
  | LayerFailed string string
  | CacheFailed string
  | CacheEvicted string

datatype 'a getter_result = Got 'a | GotErr getter_error | GotPanic

section \<open>HTTP\<close>

definition isOCI :: "string \<Rightarrow> bool" where
  "isOCI url = HasPrefix url ''oci://''"

definition isTGZ :: "string \<Rightarrow> bool" where
  "isTGZ url = (HasSuffix url ''.tgz'' \<or> HasSuffix url ''.tar.gz'')"

definition isHTTP :: "string \<Rightarrow> bool" where
  "isHTTP uri = (HasPrefix uri ''http://'' \<or> HasPrefix uri ''https://'')"

definition MaxResponseSize :: nat where
  "MaxResponseSize = 100 * 1024 * 1024"

definition fetch_request :: "get_options \<Rightarrow> http_request" where
  "fetch_request opts =
     \<lparr>hr_URI = go_URI opts,
      hr_Auth = (if go_Username opts \<noteq> [] \<and> go_Password opts \<noteq> [] then Some (go_Username opts, go_Password opts) else None),
      hr_Strip = (\<not> go_PassAll opts), hr_Insecure = go_Insecure opts, hr_Timeout = go_Timeout opts\<rparr>"

text \<open>The redirect policy of \<open>fetch\<close>: \<open>via\<close> are the hosts asked before, oldest first.\<close>

definition check_redirect :: "bool \<Rightarrow> string \<Rightarrow> string list \<Rightarrow> (string, string) gomap \<Rightarrow> (string, string) gomap" where
  "check_redirect strip host via headers =
     (if strip \<and> via \<noteq> [] \<and> host \<noteq> hd via then AList.delete ''Authorization'' headers else headers)"

definition fetch ::
  "(http_request \<Rightarrow> 'w \<Rightarrow> 'w \<times> (string + getter_response)) \<Rightarrow> get_options \<Rightarrow> 'w \<Rightarrow> 'w \<times> (getter_error + string)" where
  "fetch http opts w =
     (case http (fetch_request opts) w of
        (w', Inl err) \<Rightarrow> (w', Inl (RequestFailed (go_URI opts) err))
      | (w', Inr resp) \<Rightarrow>
          if hs_Code resp \<noteq> 200 then (w', Inl (BadStatus (go_URI opts) (hs_Status resp)))
          else (case hs_Body resp of
                  Inl err \<Rightarrow> (w', Inl (BodyFailed err))
                | Inr body \<Rightarrow> (w', Inr (take MaxResponseSize body))))"

section \<open>The getters\<close>

definition tgz_Get ::
  "('u, 'v, 'c, 'd, 'w) getter_env \<Rightarrow> get_options \<Rightarrow> 'w \<Rightarrow> 'w \<times> (string \<times> string) getter_result" where
  "tgz_Get env opts w =
     (if \<not> isTGZ (go_URI opts) then (w, GotErr (ErrInvalidRepoRef (go_URI opts)))
      else case fetch (env_http env) opts w of
             (w', Inl err) \<Rightarrow> (w', GotErr err)
           | (w', Inr dat) \<Rightarrow> (w', Got (dat, go_URI opts)))"

text \<open>Where the chart of an entry is: its first URL, joined to the repository's when it is relative.\<close>

definition chart_url :: "'u net_url \<Rightarrow> string \<Rightarrow> string \<Rightarrow> getter_error + string" where
  "chart_url net repo chartUrl =
     (case url_Parse net chartUrl of
        None \<Rightarrow> Inl (InvalidChartURL chartUrl)
      | Some u \<Rightarrow>
          let ju = (if url_IsAbs net u then Some u else Option.bind (URLJoin net repo [chartUrl]) (url_Parse net)) in
          (case ju of
             None \<Rightarrow> Inl (InvalidChartURL chartUrl)
           | Some u' \<Rightarrow>
               if url_Scheme net u' = [] \<or> url_Host net u' = [] then Inl (InvalidChartURL (url_String net u'))
               else Inr (url_String net u')))"

definition index_options :: "get_options \<Rightarrow> get_options" where
  "index_options opts =
     (zero_options (go_URI opts @ ''/index.yaml''))\<lparr>go_Insecure := go_Insecure opts, go_Username := go_Username opts,
        go_Password := go_Password opts, go_PassAll := go_PassAll opts\<rparr>"

definition chart_options :: "get_options \<Rightarrow> chart_version \<Rightarrow> string \<Rightarrow> get_options" where
  "chart_options opts res uri =
     (zero_options uri)\<lparr>go_Version := cv_Version res, go_Repo := cv_Name res, go_Insecure := go_Insecure opts,
        go_Username := go_Username opts, go_Password := go_Password opts, go_PassAll := go_PassAll opts\<rparr>"

definition repo_Get ::
  "('u, 'v, 'c, 'd, 'w) getter_env \<Rightarrow> get_options \<Rightarrow> 'w \<Rightarrow> 'w \<times> (string \<times> string) getter_result" where
  "repo_Get env opts w =
     (if \<not> isHTTP (go_URI opts) then (w, GotErr (ErrInvalidRepoRef (go_URI opts)))
      else case fetch (env_http env) (index_options opts) w of
             (w1, Inl err) \<Rightarrow> (w1, GotErr err)
           | (w1, Inr bytes) \<Rightarrow>
               (case index_Load (env_sort_charts env) (env_semver env) (env_decode env) bytes (go_URI opts) of
                  (idx, Some err) \<Rightarrow> (w1, GotErr (LoadFailed err))
                | (idx, None) \<Rightarrow>
                    (case index_Get (env_semver env) idx (go_Repo opts) (go_Version opts) of
                       GetErr err \<Rightarrow> (w1, GotErr (NotInIndex err))
                     | GetPanic \<Rightarrow> (w1, GotPanic)
                     | GetOk res \<Rightarrow>
                         (case cv_URLs res of
                            [] \<Rightarrow> (w1, GotErr (NoPackageURL (cv_Name res) (cv_Version res)))
                          | chartUrl # _ \<Rightarrow>
                              (case chart_url (env_url env) (go_URI opts) chartUrl of
                                 Inl err \<Rightarrow> (w1, GotErr err)
                               | Inr uri \<Rightarrow>
                                   (case fetch (env_http env) (chart_options opts res uri) w1 of
                                      (w2, Inl err) \<Rightarrow> (w2, GotErr err)
                                    | (w2, Inr dat) \<Rightarrow> (w2, Got (dat, uri))))))))"

text \<open>The reference of a chart in a registry: a version is added as tag unless there is a digest or a tag.\<close>

definition oci_reference :: "get_options \<Rightarrow> string" where
  "oci_reference opts =
     (let r = TrimPrefix (go_URI opts) ''oci://'';
          r1 = (if go_Repo opts \<noteq> [] then r @ ''/'' @ go_Repo opts else r)
      in if go_Version opts \<noteq> [] \<and> CHR ''@'' \<notin> set r1 \<and> CHR '':'' \<notin> set (last (Split r1 (CHR ''/'')))
         then r1 @ '':'' @ go_Version opts else r1)"

definition plain_http :: "string \<Rightarrow> bool" where
  "plain_http registry =
     (HasPrefix (ToLower registry) ''localhost'' \<or> HasPrefix (ToLower registry) ''127.0.0.1'' \<or>
      HasPrefix (ToLower registry) ''[::1]'')"

definition stable_versions :: "('v, 'c) semver \<Rightarrow> string list \<Rightarrow> 'v list" where
  "stable_versions sv tags = filter (\<lambda>v. sv_Prerelease sv v = []) (List.map_filter (sv_NewVersion sv) tags)"

definition findBestSemverMatch ::
  "('v, 'c) semver \<Rightarrow> (('v \<Rightarrow> 'v \<Rightarrow> bool) \<Rightarrow> 'v list \<Rightarrow> 'v list) \<Rightarrow> string list \<Rightarrow> string option" where
  "findBestSemverMatch sv srt tags =
     (let versions = stable_versions sv tags in
      if versions = [] then None else Some (sv_Original sv (last (srt (sv_LessThan sv) versions))))"

definition chart_layer :: "layer list \<Rightarrow> layer option" where
  "chart_layer layers =
     (case find (\<lambda>l. ly_MediaType l = ''application/vnd.cncf.helm.chart.content.v1.tar+gzip'' \<or>
                      ly_MediaType l = ''application/tar+gzip'') layers of
        Some l \<Rightarrow> Some l
      | None \<Rightarrow> if length layers = 1 then Some (layers ! 0) else None)"

definition oci_client_of :: "get_options \<Rightarrow> string \<Rightarrow> oci_client" where
  "oci_client_of opts registry =
     \<lparr>oc_PlainHTTP = plain_http registry, oc_Insecure = go_Insecure opts, oc_Timeout = go_Timeout opts,
      oc_Credential = (if go_Username opts \<noteq> [] \<and> go_Password opts \<noteq> []
                       then Some (registry, go_Username opts, go_Password opts) else None)\<rparr>"

text \<open>The tag to fetch, discovered when the reference names none or \<open>latest\<close>, and the reference that is reported.\<close>

definition oci_discover ::
  "('u, 'v, 'c, 'd, 'w) getter_env \<Rightarrow> oci_client \<Rightarrow> string \<Rightarrow> string \<Rightarrow> 'w \<Rightarrow> 'w \<times> (getter_error + (string \<times> string))" where
  "oci_discover env client ref reference w =
     (if reference = [] \<or> reference = ''latest''
      then (case or_Tags (env_oras env) client ref w of
              (w', Inl err) \<Rightarrow> (w', Inl (TagsFailed err))
            | (w', Inr tags) \<Rightarrow>
                (case findBestSemverMatch (env_semver env) (env_sort_versions env) tags of
                   None \<Rightarrow> (w', Inl NoStableTag)
                 | Some newest \<Rightarrow> (w', Inr (newest, ref @ '':'' @ newest))))
      else (w, Inr (reference, ref)))"

definition oci_Get ::
  "('u, 'v, 'c, 'd, 'w) getter_env \<Rightarrow> get_options \<Rightarrow> 'w \<Rightarrow> 'w \<times> (string \<times> string) getter_result" where
  "oci_Get env opts w =
     (let oras = env_oras env; ref = oci_reference opts in
      if \<not> isOCI (go_URI opts) then (w, GotErr (NotOCI (go_URI opts)))
      else case or_NewRepository oras ref of
             None \<Rightarrow> (w, GotErr (InvalidReference ref))
           | Some (registry, reference) \<Rightarrow>
               (let client = oci_client_of opts registry in
                case oci_discover env client ref reference w of
                  (w1, Inl err) \<Rightarrow> (w1, GotErr err)
                | (w1, Inr (tag, ref')) \<Rightarrow>
                    (case or_Resolve oras client ref tag w1 of
                       (w2, Inl err) \<Rightarrow> (w2, GotErr (ResolveFailed ref' err))
                     | (w2, Inr desc) \<Rightarrow>
                         (case or_FetchAll oras client ref desc w2 of
                            (w3, Inl err) \<Rightarrow> (w3, GotErr (ManifestFailed err))
                          | (w3, Inr bytes) \<Rightarrow>
                              (case or_Unmarshal oras bytes of
                                 None \<Rightarrow> (w3, GotErr ManifestInvalid)
                               | Some layers \<Rightarrow>
                                   (case chart_layer layers of
                                      None \<Rightarrow> (w3, GotErr LayerNotFound)
                                    | Some l \<Rightarrow>
                                        (case or_Fetch oras client ref l w3 of
                                           (w4, Inl err) \<Rightarrow> (w4, GotErr (LayerFailed (ly_Digest l) err))
                                         | (w4, Inr rc) \<Rightarrow> (w4, Got (rc, ''oci://'' @ ref')))))))))"

section \<open>Fetching through the cache\<close>

definition cacheKey :: "string \<Rightarrow> string \<Rightarrow> string" where
  "cacheKey uri repo = (if repo = [] then uri else uri @ [CHR 0x00] @ repo)"

text \<open>The getter for a reference.\<close>

definition dispatch ::
  "('u, 'v, 'c, 'd, 'w) getter_env \<Rightarrow> get_options \<Rightarrow> 'w \<Rightarrow> 'w \<times> (string \<times> string) getter_result" where
  "dispatch env opts w =
     (if go_URI opts = [] then (w, GotErr URIRequired)
      else if isOCI (go_URI opts) then oci_Get env opts w
      else if isTGZ (go_URI opts) then tgz_Get env opts w
      else if isHTTP (go_URI opts) then repo_Get env opts w
      else (w, GotErr (ErrNoHandler (go_URI opts))))"

text \<open>
  The times of the first look into the cache, of the \<open>Set\<close> and of the second look, whether files open, the temporary name
  and the outcome of \<open>Set\<close>.
\<close>

record cache_run =
  cr_look :: instant
  cr_set :: instant
  cr_reopen :: instant
  cr_openOk :: bool
  cr_tmp :: string
  cr_io :: set_io

definition getter_Get ::
  "(string \<Rightarrow> string) \<Rightarrow> ('u, 'v, 'c, 'd, 'w) getter_env \<Rightarrow> cache_run \<Rightarrow> get_options \<Rightarrow> disk_cache option \<Rightarrow> 'w \<Rightarrow>
   disk_cache option \<times> 'w \<times> (string \<times> string) getter_result" where
  "getter_Get sha env run opts cache w =
     (let key = cacheKey (go_URI opts) (go_Repo opts) in
      case Option.bind cache (\<lambda>c. dc_Get sha (cr_openOk run) c (cr_look run) key (go_Version opts)) of
        Some data \<Rightarrow> (cache, w, Got (data, go_Version opts))
      | None \<Rightarrow>
          (case dispatch env opts w of
             (w', Got (b, resolvedURI)) \<Rightarrow>
               (case cache of
                  None \<Rightarrow> (None, w', Got (b, resolvedURI))
                | Some c \<Rightarrow>
                    (case dc_Set sha (cr_tmp run) (cr_io run) c (cr_set run) key (go_Version opts) b of
                       (c', io) \<Rightarrow>
                         if io \<noteq> SetOk then (Some c', w', GotErr (CacheFailed (go_URI opts)))
                         else (case dc_Get sha (cr_openOk run) c' (cr_reopen run) key (go_Version opts) of
                                 None \<Rightarrow> (Some c', w', GotErr (CacheEvicted (go_URI opts)))
                               | Some cached \<Rightarrow> (Some c', w', Got (cached, resolvedURI)))))
           | (w', r) \<Rightarrow> (cache, w', r)))"

section \<open>The tag of a registry\<close>

lemma set_map_filter: "set (List.map_filter f xs) = {y. \<exists>x\<in>set xs. f x = Some y}"
  by (induction xs) (auto simp: List.map_filter_def)

lemma stable_versions_set:
  "v \<in> set (stable_versions sv tags) \<longleftrightarrow> (\<exists>tag\<in>set tags. sv_NewVersion sv tag = Some v) \<and> sv_Prerelease sv v = []"
  by (auto simp: stable_versions_def set_map_filter)

lemma sorted_last: "sorted_wrt R xs \<Longrightarrow> x \<in> set xs \<Longrightarrow> x = last xs \<or> R x (last xs)"
  by (induction xs) auto

text \<open>
  The tag that is chosen when a reference names none is the text of a tag of the registry that is a stable semantic
  version, and no stable tag is greater; there is a choice whenever there is a stable tag.
\<close>

theorem findBestSemverMatch_greatest:
  assumes "go_sort srt" "weak_order (sv_LessThan sv) UNIV"
    and "tag \<in> set tags" "sv_NewVersion sv tag = Some v" "sv_Prerelease sv v = []"
  shows "\<exists>tag'\<in>set tags. \<exists>v'. sv_NewVersion sv tag' = Some v' \<and> sv_Prerelease sv v' = [] \<and>
    findBestSemverMatch sv srt tags = Some (sv_Original sv v') \<and>
    (\<forall>tag''\<in>set tags. \<forall>v''. sv_NewVersion sv tag'' = Some v'' \<longrightarrow> sv_Prerelease sv v'' = [] \<longrightarrow> \<not> sv_LessThan sv v' v'')"
proof -
  let ?vs = "stable_versions sv tags"
  define ws where "ws = srt (sv_LessThan sv) ?vs"
  have v: "v \<in> set ?vs" using assms(3-5) by (auto simp: stable_versions_set)
  have set: "set ws = set ?vs" using assms(1) unfolding go_sort_def ws_def by (metis mset_eq_setD)
  have "weak_order (sv_LessThan sv) (set ?vs)" using assms(2) by (simp add: weak_order_def)
  then have sorted: "sorted_wrt (\<lambda>a b. \<not> sv_LessThan sv b a) ws" using assms(1) unfolding go_sort_def ws_def by blast
  have "ws \<noteq> []" using set v by auto
  then have "last ws \<in> set ?vs" using set last_in_set by blast
  then obtain tag' where tag': "tag' \<in> set tags" "sv_NewVersion sv tag' = Some (last ws)" "sv_Prerelease sv (last ws) = []"
    by (auto simp: stable_versions_set)
  have "\<not> sv_LessThan sv (last ws) v''" if "v'' \<in> set ?vs" for v''
    using sorted_last [OF sorted, of v''] that set assms(2) by (auto simp: weak_order_def)
  moreover have "findBestSemverMatch sv srt tags = Some (sv_Original sv (last ws))"
    using v by (auto simp: findBestSemverMatch_def Let_def ws_def)
  ultimately show ?thesis using tag' by (intro bexI [of _ tag'] exI [of _ "last ws"]) (auto simp: stable_versions_set)
qed

definition tag_semver :: "(nat, nat) semver" where
  "tag_semver = toy_semver\<lparr>sv_Original := (\<lambda>n. show_nat n)\<rparr>"

theorem findBestSemverMatch_greatest_witness:
  "\<exists>n. findBestSemverMatch tag_semver insertion_sort [''1'', ''1.0'', ''2''] = Some (show_nat n) \<and> \<not> n < 3"
proof -
  have o: "weak_order (sv_LessThan tag_semver) UNIV" using toy_order by (simp add: tag_semver_def)
  have v: "sv_NewVersion tag_semver ''1.0'' = Some 3" "sv_Prerelease tag_semver 3 = []"
    by (simp_all add: tag_semver_def toy_semver_def)
  have "''1.0'' \<in> set [''1'', ''1.0'', ''2'']" by simp
  from findBestSemverMatch_greatest [where srt = insertion_sort and sv = tag_semver, OF go_sort_insertion o this v]
  obtain v' where v': "findBestSemverMatch tag_semver insertion_sort [''1'', ''1.0'', ''2''] = Some (sv_Original tag_semver v')"
    "\<And>tag v''. tag \<in> set [''1'', ''1.0'', ''2''] \<Longrightarrow> sv_NewVersion tag_semver tag = Some v'' \<Longrightarrow> sv_Prerelease tag_semver v'' = [] \<Longrightarrow>
       \<not> sv_LessThan tag_semver v' v''" by blast
  have "\<not> v' < 3" using v'(2)[of "''1.0''" 3] v by (simp add: tag_semver_def toy_semver_def)
  with v'(1) show ?thesis by (auto simp: tag_semver_def)
qed

section \<open>What is sent and read\<close>

text \<open>
  A fetch over HTTP returns at most 100 MiB; a longer body is cut there and returned as if it were whole.
\<close>

theorem fetch_bounded:
  assumes "http (fetch_request opts) w = (w', Inr resp)" "hs_Code resp = 200" "hs_Body resp = Inr body"
  shows "fetch http opts w = (w', Inr (take 104857600 body)) \<and> length (take 104857600 body) \<le> 104857600"
  using assms by (simp add: fetch_def MaxResponseSize_def)

theorem fetch_bounded_witness:
  "fetch (\<lambda>r w. (w + 1, Inr \<lparr>hs_Code = 200, hs_Status = ''OK'', hs_Body = Inr ''abc''\<rparr>)) (zero_options ''http://h/c.tgz'') (0::nat) =
   (1, Inr (take 104857600 ''abc''))"
  using fetch_bounded [where http = "\<lambda>r w. (w + 1, Inr \<lparr>hs_Code = 200, hs_Status = ''OK'', hs_Body = Inr ''abc''\<rparr>)"
      and opts = "zero_options ''http://h/c.tgz''" and w = "0::nat" and w' = 1 and body = "''abc''"] by simp

text \<open>
  The request for a chart of a repository carries the credentials of the repository whatever host the index sends it to, and
  no timeout.
\<close>

lemma chart_request:
  "fetch_request (chart_options opts res uri) =
     \<lparr>hr_URI = uri, hr_Auth = hr_Auth (fetch_request opts), hr_Strip = hr_Strip (fetch_request opts),
      hr_Insecure = go_Insecure opts, hr_Timeout = 0\<rparr>"
  by (simp add: fetch_request_def chart_options_def zero_options_def)

lemma index_request: "hr_Timeout (fetch_request (index_options opts)) = 0"
  by (simp add: fetch_request_def index_options_def zero_options_def)

text \<open>A redirect keeps the credentials exactly when they go to the host that was asked first, or when they go everywhere.\<close>

lemma check_redirect_keeps:
  assumes "map_of headers ''Authorization'' = Some a"
  shows "map_of (check_redirect strip host via headers) ''Authorization'' = Some a \<longleftrightarrow>
    \<not> strip \<or> via = [] \<or> host = hd via"
  using assms by (simp add: check_redirect_def)

text \<open>With the tag \<open>latest\<close> in the reference the one that was discovered is added behind it.\<close>

lemma oci_latest_reported:
  assumes "or_Tags (env_oras env) client (r @ '':latest'') w = (w', Inr tags)"
    and "findBestSemverMatch (env_semver env) (env_sort_versions env) tags = Some newest"
  shows "oci_discover env client (r @ '':latest'') ''latest'' w = (w', Inr (newest, r @ '':latest:'' @ newest))"
  using assms by (simp add: oci_discover_def)

section \<open>The cache\<close>

lemma append_sep_inj:
  assumes "a @ c # x = b @ c # y" "c \<notin> set x" "c \<notin> set y"
  shows "a = b \<and> x = y"
proof -
  have t: "takeWhile (\<lambda>z. z \<noteq> c) (rev z @ c # w) = rev z" if "c \<notin> set z" for z w
    using that by (subst takeWhile_append2) auto
  have r: "rev x @ c # rev a = rev y @ c # rev b"
    using arg_cong [OF assms(1), of rev] by simp
  have "rev x = rev y" using arg_cong [OF r, of "takeWhile (\<lambda>z. z \<noteq> c)"] t [OF assms(2)] t [OF assms(3)] by simp
  with assms(1) show ?thesis by simp
qed

lemma cacheKey_inj:
  assumes "cacheKey uri repo = cacheKey uri' repo'"
    and "CHR 0x00 \<notin> set (uri @ repo)" "CHR 0x00 \<notin> set (uri' @ repo')"
  shows "uri = uri' \<and> repo = repo'"
proof -
  have "CHR 0x00 \<in> set (cacheKey u r) \<longleftrightarrow> r \<noteq> []" if "CHR 0x00 \<notin> set (u @ r)" for u r
    using that by (auto simp: cacheKey_def)
  with assms have "repo = [] \<longleftrightarrow> repo' = []" by metis
  with assms append_sep_inj [of uri "CHR 0x00" repo uri' repo'] show ?thesis by (auto simp: cacheKey_def split: if_splits)
qed

definition request_key :: "get_options \<Rightarrow> string" where
  "request_key opts = cacheKey (go_URI opts) (go_Repo opts) @ '':'' @ go_Version opts"

definition key_safe :: "get_options \<Rightarrow> bool" where
  "key_safe opts = (CHR 0x00 \<notin> set (go_URI opts @ go_Repo opts) \<and> CHR '':'' \<notin> set (go_Version opts))"

lemma request_key_inj:
  assumes "request_key opts = request_key opts'" "key_safe opts" "key_safe opts'"
  shows "go_URI opts = go_URI opts' \<and> go_Repo opts = go_Repo opts' \<and> go_Version opts = go_Version opts'"
proof -
  from assms append_sep_inj [of "cacheKey (go_URI opts) (go_Repo opts)" "CHR '':''" "go_Version opts"
      "cacheKey (go_URI opts') (go_Repo opts')" "go_Version opts'"]
  have "cacheKey (go_URI opts) (go_Repo opts) = cacheKey (go_URI opts') (go_Repo opts')" "go_Version opts = go_Version opts'"
    by (auto simp: request_key_def key_safe_def)
  with cacheKey_inj [of "go_URI opts" "go_Repo opts" "go_URI opts'" "go_Repo opts'"] assms(2,3) show ?thesis
    by (simp add: key_safe_def)
qed

text \<open>The cache that a call leaves: the one it found, or the one after its \<open>Set\<close>.\<close>

lemma getter_Get_cache:
  assumes "getter_Get sha env run opts (Some c) w = (cache', w', r)"
  shows "cache' = Some c \<or>
    (\<exists>b. cache' = Some (fst (dc_Set sha (cr_tmp run) (cr_io run) c (cr_set run) (cacheKey (go_URI opts) (go_Repo opts)) (go_Version opts) b)))"
  using assms
  by (auto simp: getter_Get_def Let_def split: option.splits prod.splits getter_result.splits if_splits) (metis fst_conv)+

text \<open>
  Fetching one chart never changes what the cache holds for another: for two requests that differ in the reference, the
  chart or the version, none of which has a null byte or, in the version, a colon, a call of \<open>Get\<close> for the first leaves what a
  look into the cache for the second finds.
\<close>

theorem getter_Get_keeps_others:
  assumes "getter_Get sha env run opts (Some c) w = (Some c', w', r)"
    and "dc_files c = Some files" "\<not> gomap_has files (cr_tmp run)" "HasPrefix (cr_tmp run) ''tmp-''"
    and "key_safe opts" "key_safe opts'" "inj_on sha {request_key opts, request_key opts'}"
    and "(go_URI opts, go_Repo opts, go_Version opts) \<noteq> (go_URI opts', go_Repo opts', go_Version opts')"
  shows "dc_Get sha openOk c' now (cacheKey (go_URI opts') (go_Repo opts')) (go_Version opts') =
    dc_Get sha openOk c now (cacheKey (go_URI opts') (go_Repo opts')) (go_Version opts')"
proof -
  have "request_key opts \<noteq> request_key opts'" using request_key_inj [OF _ assms(5,6)] assms(8) by auto
  then have "file_name sha (request_key opts') \<noteq> file_name sha (request_key opts)"
    using file_name_inj [OF assms(7), of "request_key opts'" "request_key opts"] by auto
  then have set: "file_at (fst (dc_Set sha (cr_tmp run) (cr_io run) c (cr_set run) (cacheKey (go_URI opts) (go_Repo opts)) (go_Version opts) b))
        (file_name sha (request_key opts')) = file_at c (file_name sha (request_key opts'))" for b
    by (subst dc_Set_file_at(1)[OF assms(2-4)]) (simp add: request_key_def)
  from getter_Get_cache [OF assms(1)] set dc_Set_file_at(3)[OF assms(2-4)]
  have "file_at c' (file_name sha (request_key opts')) = file_at c (file_name sha (request_key opts'))" "dc_ttl c' = dc_ttl c"
    by auto
  then show ?thesis unfolding dc_Get_file_at by (simp only: request_key_def)
qed

definition still_env :: "(unit, nat, nat, unit, unit) getter_env" where
  "still_env = \<lparr>env_url = \<lparr>url_Parse = (\<lambda>_. None), url_Path = (\<lambda>_. []), url_SetPath = (\<lambda>_ u. u), url_String = (\<lambda>_. []),
       url_IsAbs = (\<lambda>_. True), url_Scheme = (\<lambda>_. []), url_Host = (\<lambda>_. [])\<rparr>,
     env_semver = toy_semver, env_sort_charts = insertion_sort, env_sort_versions = insertion_sort,
     env_decode = (\<lambda>_. DecOk toy_index),
     env_http = (\<lambda>r w. (w, Inr \<lparr>hs_Code = 200, hs_Status = ''OK'', hs_Body = Inr ''chart''\<rparr>)),
     env_oras = \<lparr>or_NewRepository = (\<lambda>_. None), or_Tags = (\<lambda>_ _ w. (w, Inr [])), or_Resolve = (\<lambda>_ _ _ w. (w, Inl [])),
       or_FetchAll = (\<lambda>_ _ _ w. (w, Inl [])), or_Unmarshal = (\<lambda>_. None), or_Fetch = (\<lambda>_ _ _ w. (w, Inl []))\<rparr>\<rparr>"

definition sample_run :: "instant \<Rightarrow> cache_run" where
  "sample_run t = \<lparr>cr_look = t, cr_set = t + 1, cr_reopen = t + 2, cr_openOk = True, cr_tmp = ''tmp-7'', cr_io = SetOk\<rparr>"

definition sample_request :: "string \<Rightarrow> get_options" where
  "sample_request v = build_options ''http://h/c.tgz'' [go_WithVersion v]"

lemma sample_Get:
  "getter_Get (\<lambda>x. x) still_env (sample_run 0) (sample_request ''1'') (Some (empty_cache 10)) () =
     (Some (fst (dc_Set (\<lambda>x. x) ''tmp-7'' SetOk (empty_cache 10) 1 ''http://h/c.tgz'' ''1'' ''chart'')), (), Got (''chart'', ''http://h/c.tgz''))"
proof -
  have d: "dispatch still_env (sample_request ''1'') () = ((), Got (''chart'', ''http://h/c.tgz''))"
    by (simp add: dispatch_def isOCI_def isTGZ_def isHTTP_def HasPrefix_def HasSuffix_def sample_request_def build_options_def
        zero_options_def go_WithVersion_def tgz_Get_def fetch_def still_env_def MaxResponseSize_def)
  have s: "go_URI (sample_request ''1'') = ''http://h/c.tgz''" "go_Version (sample_request ''1'') = ''1''" "go_Repo (sample_request ''1'') = []"
    by (simp_all add: sample_request_def build_options_def zero_options_def go_WithVersion_def)
  have e: "dc_files (empty_cache 10) = Some []" "dc_ttl (empty_cache 10) = 10" by (simp_all add: empty_cache_def)
  have t: "\<not> gomap_has [] ''tmp-7''" "HasPrefix ''tmp-7'' ''tmp-''" by (simp_all add: HasPrefix_def)
  note set = dc_Set_file_at [OF e(1) t, of "\<lambda>x. x" SetOk 1 "''http://h/c.tgz''" "''1''" "''chart''"]
  have io: "snd (dc_Set (\<lambda>x. x) ''tmp-7'' SetOk (empty_cache 10) 1 ''http://h/c.tgz'' ''1'' ''chart'') = SetOk"
    by (simp add: dc_Set_def e(1) Let_def)
  have g1: "dc_Get (\<lambda>x. x) True (empty_cache 10) 0 ''http://h/c.tgz'' ''1'' = None"
    by (simp add: dc_Get_def e(1))
  have g2: "dc_Get (\<lambda>x. x) True (fst (dc_Set (\<lambda>x. x) ''tmp-7'' SetOk (empty_cache 10) 1 ''http://h/c.tgz'' ''1'' ''chart'')) 2
      ''http://h/c.tgz'' ''1'' = Some ''chart''"
    by (simp add: dc_Get_file_at set dc_expired_def e(2))
  obtain c' where c': "dc_Set (\<lambda>x. x) ''tmp-7'' SetOk (empty_cache 10) 1 ''http://h/c.tgz'' ''1'' ''chart'' = (c', SetOk)"
    using io by (metis prod.collapse)
  show ?thesis using g1 g2 d c' by (simp add: getter_Get_def s cacheKey_def sample_run_def)
qed

theorem getter_Get_keeps_others_witness:
  "dc_Get (\<lambda>x. x) True (fst (dc_Set (\<lambda>x. x) ''tmp-7'' SetOk (empty_cache 10) 1 ''http://h/c.tgz'' ''1'' ''chart'')) 3 ''http://h/c.tgz'' ''2'' =
   dc_Get (\<lambda>x. x) True (empty_cache 10) 3 ''http://h/c.tgz'' ''2''"
proof -
  have s: "go_URI (sample_request v) = ''http://h/c.tgz''" "go_Version (sample_request v) = v" "go_Repo (sample_request v) = []" for v
    by (simp_all add: sample_request_def build_options_def zero_options_def go_WithVersion_def)
  have e: "dc_files (empty_cache 10) = Some []" by (simp add: empty_cache_def)
  have t: "\<not> gomap_has [] (cr_tmp (sample_run 0))" "HasPrefix (cr_tmp (sample_run 0)) ''tmp-''"
    by (simp_all add: sample_run_def HasPrefix_def)
  have k: "key_safe (sample_request ''1'')" "key_safe (sample_request ''2'')" by (simp_all add: key_safe_def s)
  have i: "inj_on (\<lambda>x. x) {request_key (sample_request ''1''), request_key (sample_request ''2'')}" by (simp add: inj_on_def)
  have n: "(go_URI (sample_request ''1''), go_Repo (sample_request ''1''), go_Version (sample_request ''1'')) \<noteq>
      (go_URI (sample_request ''2''), go_Repo (sample_request ''2''), go_Version (sample_request ''2''))" by (simp add: s)
  from getter_Get_keeps_others [OF sample_Get e t k i n, of True 3] show ?thesis by (simp add: s cacheKey_def)
qed

text \<open>
  On a hit the second result is the version of the request, where the interface promises the absolute URI of the chart.
\<close>

theorem hit_returns_version:
  "dc_Get sha (cr_openOk run) c (cr_look run) (cacheKey (go_URI opts) (go_Repo opts)) (go_Version opts) = Some b \<Longrightarrow>
   getter_Get sha env run opts (Some c) w = (Some c, w, Got (b, go_Version opts))"
  by (simp add: getter_Get_def Let_def)

text \<open>
  C19: A chart that was not in the cache, is fetched and can be stored and opened again is returned with the bytes that
  were fetched and the reference that was resolved; and a second request for it no later than the time to live after it was
  stored returns the same bytes, without the network (the state of the world is untouched) and without changing the
  cache.  What the second request returns beside the bytes is not part of this.
\<close>

theorem getter_Get_served_from_cache:
  assumes "dc_files c = Some files" "\<not> gomap_has files (cr_tmp run)" "HasPrefix (cr_tmp run) ''tmp-''"
    and "cr_io run = SetOk" "cr_openOk run" "cr_openOk run'"
    and "dc_Get sha True c (cr_look run) (cacheKey (go_URI opts) (go_Repo opts)) (go_Version opts) = None"
    and "dispatch env opts w = (w1, Got (b, uri))"
    and "cr_reopen run - cr_set run \<le> dc_ttl c" "cr_look run' - cr_set run \<le> dc_ttl c"
  shows "\<exists>c'. getter_Get sha env run opts (Some c) w = (Some c', w1, Got (b, uri)) \<and>
    (\<exists>ref. getter_Get sha env run' opts (Some c') w2 = (Some c', w2, Got (b, ref)))"
proof -
  let ?key = "cacheKey (go_URI opts) (go_Repo opts)"
  define c' where "c' = fst (dc_Set sha (cr_tmp run) SetOk c (cr_set run) ?key (go_Version opts) b)"
  note set = dc_Set_file_at [OF assms(1-3), of sha SetOk "cr_set run" ?key "go_Version opts" b, folded c'_def]
  have "snd (dc_Set sha (cr_tmp run) SetOk c (cr_set run) ?key (go_Version opts) b) = SetOk"
    by (simp add: dc_Set_def assms(1) Let_def)
  then have s: "dc_Set sha (cr_tmp run) SetOk c (cr_set run) ?key (go_Version opts) b = (c', SetOk)"
    unfolding c'_def by (metis prod.collapse)
  have g: "dc_Get sha True c' t ?key (go_Version opts) = Some b" if "t - cr_set run \<le> dc_ttl c" for t
    using that by (simp add: dc_Get_file_at set dc_expired_def)
  have o: "cr_openOk run = True" "cr_openOk run' = True" using assms(5,6) by simp_all
  have "getter_Get sha env run opts (Some c) w = (Some c', w1, Got (b, uri))"
    using s g [OF assms(9)] by (simp add: getter_Get_def Let_def o assms(4,7,8))
  moreover have "getter_Get sha env run' opts (Some c') w2 = (Some c', w2, Got (b, go_Version opts))"
    using g [OF assms(10)] by (intro hit_returns_version) (simp add: o)
  ultimately show ?thesis by blast
qed

theorem getter_Get_served_from_cache_witness:
  "\<exists>c'. getter_Get (\<lambda>x. x) still_env (sample_run 0) (sample_request ''1'') (Some (empty_cache 10)) () =
       (Some c', (), Got (''chart'', ''http://h/c.tgz'')) \<and>
     (\<exists>ref. getter_Get (\<lambda>x. x) still_env (sample_run 8) (sample_request ''1'') (Some c') () = (Some c', (), Got (''chart'', ref)))"
proof -
  have d: "dispatch still_env (sample_request ''1'') () = ((), Got (''chart'', ''http://h/c.tgz''))"
    by (simp add: dispatch_def isOCI_def isTGZ_def isHTTP_def HasPrefix_def HasSuffix_def sample_request_def build_options_def
        zero_options_def go_WithVersion_def tgz_Get_def fetch_def still_env_def MaxResponseSize_def)
  have e: "dc_files (empty_cache 10) = Some []" by (simp add: empty_cache_def)
  show ?thesis
    using getter_Get_served_from_cache [where run = "sample_run 0" and run' = "sample_run 8" and sha = "\<lambda>x. x" and c = "empty_cache 10"
        and opts = "sample_request ''1''" and env = still_env and w = "()", OF e _ _ _ _ _ _ d]
    by (simp add: sample_run_def HasPrefix_def dc_Get_def empty_cache_def)
qed

end
