(* ===== verification/Client_Certs.thy ===== *)
theory Client_Certs
  imports Endpoints
begin

text \<open>
  \<open>certs/certs.go\<close>, \<open>signup/signup.go\<close> and \<open>kubeconfig\<close>: client certificates through the signing requests of the
  cluster, the sign-up of a user, and the configuration of a client from an endpoint.

  The API of signing requests is the record \<open>csr_api\<close> over the state of the cluster; \<open>csr_poll\<close> is
  \<open>wait.PollUntilContextTimeout\<close>.  Key generation and the DER encodings of \<open>crypto/x509\<close> are arguments, PEM blocks are
  defined.  The locale \<open>csr_laws\<close> states what the API server and the poller document, whatever other clients of the
  cluster do: the content of an object with one UID does not change, and a certificate is for the request beside it.
  It is interpreted on a cluster with a signer.

  Shown: the user's endpoint can be read back, and, when the signing request that is read at the end is still the
  object that this sign-up created, the stored credentials are a certificate for the request of this very sign-up
  together with its key; a second sign-up of the same user in between replaces the object and breaks the pair.
\<close>

section \<open>Signing requests\<close>

record csr_condition =
  cc_Type :: string
  cc_Status :: string
  cc_Reason :: string
  cc_Message :: string
  cc_LastUpdateTime :: int

record csr =
  csr_Name :: string
  csr_UID :: nat
  csr_Annotations :: smap'
  csr_deleting :: bool
  csr_Request :: string
  csr_SignerName :: string
  csr_ExpirationSeconds :: "int option"
  csr_Usages :: "string list"
  csr_Conditions :: "csr_condition list"
  csr_Certificate :: string

record 'w csr_api =
  csr_create :: "'w \<Rightarrow> csr \<Rightarrow> 'w \<times> kerr option"
  csr_delete :: "'w \<Rightarrow> string \<Rightarrow> 'w \<times> kerr option"
  csr_get :: "'w \<Rightarrow> string \<Rightarrow> kerr + csr"
  csr_updateApproval :: "'w \<Rightarrow> string \<Rightarrow> csr \<Rightarrow> 'w \<times> kerr option"
  csr_isAlreadyExists :: "kerr \<Rightarrow> bool"
  csr_poll :: "int \<Rightarrow> int \<Rightarrow> bool \<Rightarrow> ('w \<Rightarrow> kerr + bool) \<Rightarrow> 'w \<Rightarrow> 'w \<times> kerr option"

definition certificateWaitTimeout :: int where
  "certificateWaitTimeout = 5 * 60 * 1000000000"

definition certificateWaitPollInternval :: int where
  "certificateWaitPollInternval = 3 * 1000000000"

text \<open>\<open>pem.EncodeToMemory\<close> of a block without headers: lines of 64 characters.\<close>

fun pem_lines :: "string \<Rightarrow> string" where
  "pem_lines s = (if s = [] then [] else take 64 s @ [CHR 0x0A] @ pem_lines (drop 64 s))"

declare pem_lines.simps [simp del]

definition pem_encode :: "string \<Rightarrow> string \<Rightarrow> string" where
  "pem_encode ty dat =
     ''-----BEGIN '' @ ty @ ''-----'' @ [CHR 0x0A] @ pem_lines (b64_encode dat) @ ''-----END '' @ ty @ ''-----'' @ [CHR 0x0A]"

definition NewPrivateKey :: "('w \<Rightarrow> 'w \<times> (kerr + 'k)) \<Rightarrow> 'w \<Rightarrow> 'w \<times> (kerr + 'k)" where
  "NewPrivateKey generateKey w =
     (case generateKey w of
        (w1, Inl err) \<Rightarrow> (w1, Inl (KWrap ''generating private key: '' err))
      | (w1, Inr key) \<Rightarrow> (w1, Inr key))"

record request_template =
  rt_CommonName :: string
  rt_Organization :: "string list"
  rt_SignatureAlgorithm :: string
  rt_ExtraExtensions :: "string list"

record 'k cert_request_opts =
  cro_Key :: 'k
  cro_Username :: string
  cro_Groups :: "string list"
  cro_ExtraExtensions :: "string list"

definition NewCertificateRequest ::
  "(request_template \<Rightarrow> 'k \<Rightarrow> 'w \<Rightarrow> 'w \<times> (kerr + string)) \<Rightarrow> 'k cert_request_opts \<Rightarrow> 'w \<Rightarrow> 'w \<times> (kerr + string)" where
  "NewCertificateRequest createRequest opts w =
     (let req = \<lparr>rt_CommonName = cro_Username opts, rt_Organization = cro_Groups opts,
            rt_SignatureAlgorithm = ''SHA256WithRSA'', rt_ExtraExtensions = []\<rparr>;
          req = (if cro_ExtraExtensions opts \<noteq> [] then req\<lparr>rt_ExtraExtensions := cro_ExtraExtensions opts\<rparr> else req)
      in case createRequest req (cro_Key opts) w of
           (w1, Inl err) \<Rightarrow> (w1, Inl (KWrap ''creating certificate request: '' err))
         | (w1, Inr dat) \<Rightarrow> (w1, Inr (pem_encode ''CERTIFICATE REQUEST'' dat)))"

definition csr_gone :: "'w csr_api \<Rightarrow> string \<Rightarrow> 'w \<Rightarrow> kerr + bool" where
  "csr_gone api name w = Inr (case csr_get api w name of Inl err \<Rightarrow> kube_is_not_found err | Inr c \<Rightarrow> False)"

definition DeleteCertificateSigningRequest :: "'w csr_api \<Rightarrow> string \<Rightarrow> 'w \<Rightarrow> 'w \<times> kerr option" where
  "DeleteCertificateSigningRequest api name w =
     (case csr_delete api w name of
        (w1, Some err) \<Rightarrow> (w1, Some err)
      | (w1, None) \<Rightarrow>
          (case csr_poll api certificateWaitPollInternval certificateWaitTimeout True (csr_gone api name) w1 of
             (w2, Some err) \<Rightarrow> (w2, Some (KWrap ''waiting for CSR certificate to be deleted: '' err))
           | (w2, None) \<Rightarrow> (w2, None)))"

definition CreateCertificateSigningRequests :: "'w csr_api \<Rightarrow> csr \<Rightarrow> 'w \<Rightarrow> 'w \<times> kerr option" where
  "CreateCertificateSigningRequests api c w = csr_create api w c"

definition approved :: "string \<Rightarrow> int \<Rightarrow> csr \<Rightarrow> csr" where
  "approved approver now c = c\<lparr>csr_Conditions := csr_Conditions c @
     [\<lparr>cc_Type = ''Approved'', cc_Status = ''True'', cc_Reason = ''CertificateApproved'',
       cc_Message = ''Certificate was approved by '' @ approver, cc_LastUpdateTime = now\<rparr>]\<rparr>"

definition ApproveCertificateSigningRequest :: "'w csr_api \<Rightarrow> ('w \<Rightarrow> int) \<Rightarrow> csr \<Rightarrow> string \<Rightarrow> 'w \<Rightarrow> 'w \<times> kerr option" where
  "ApproveCertificateSigningRequest api now c approver w =
     (case csr_updateApproval api w (csr_Name c) (approved approver (now w) c) of
        (w1, Some err) \<Rightarrow> (w1, Some (KWrap ''approving CertificateSigningRequest: '' err))
      | (w1, None) \<Rightarrow> (w1, None))"

definition CertificateExistsFunc :: "'w csr_api \<Rightarrow> string \<Rightarrow> 'w \<Rightarrow> kerr + bool" where
  "CertificateExistsFunc api name w =
     (case csr_get api w name of Inl err \<Rightarrow> Inl err | Inr c \<Rightarrow> Inr (csr_Certificate c \<noteq> []))"

definition WaitForCertificate :: "'w csr_api \<Rightarrow> string \<Rightarrow> 'w \<Rightarrow> 'w \<times> kerr option" where
  "WaitForCertificate api name w =
     (case csr_poll api certificateWaitPollInternval certificateWaitTimeout False (CertificateExistsFunc api name) w of
        (w1, Some err) \<Rightarrow> (w1, Some (KWrap ''waiting for CSR certificate to be generated: '' err))
      | (w1, None) \<Rightarrow> (w1, None))"

definition GetCertificateSigningRequest :: "'w csr_api \<Rightarrow> string \<Rightarrow> 'w \<Rightarrow> kerr + csr" where
  "GetCertificateSigningRequest api name w =
     (case csr_get api w name of
        Inl err \<Rightarrow> Inl (KWrap (''getting CSR '' @ [CHR 0x27] @ name @ [CHR 0x27] @ '': '') err)
      | Inr c \<Rightarrow> Inr c)"

definition Certificate :: "'w csr_api \<Rightarrow> string \<Rightarrow> 'w \<Rightarrow> kerr + string" where
  "Certificate api name w =
     (case GetCertificateSigningRequest api name w of Inl err \<Rightarrow> Inl err | Inr c \<Rightarrow> Inr (csr_Certificate c))"

text \<open>
  \<open>int32(opts.Duration.Seconds())\<close>.  \<open>Seconds\<close> is a \<open>float64\<close>: with \<open>s\<close> seconds, whose highest bit is \<open>t\<close>, and \<open>n\<close> nanoseconds
  the sum is rounded to a multiple of \<open>t\<close> divided by \<open>2 ^ 52\<close>, so that a fraction within half of that below one is rounded up
  to the next second.  What a value outside \<open>int32\<close> becomes depends on the machine, the argument \<open>outside\<close>.
\<close>

function top_bit :: "int \<Rightarrow> int" where
  "top_bit s = (if s < 2 then 1 else 2 * top_bit (s div 2))"
  by pat_completeness auto
termination
  by (relation "measure nat") auto

declare top_bit.simps [simp del]

definition whole_seconds :: "int \<Rightarrow> int" where
  "whole_seconds d =
     (let s = d div 1000000000; n = d mod 1000000000
      in if s > 0 \<and> (1000000000 - n) * 2 ^ 53 \<le> 1000000000 * top_bit s then s + 1 else s)"

definition duration_int32 :: "(int \<Rightarrow> int) \<Rightarrow> int \<Rightarrow> int" where
  "duration_int32 outside d =
     (let v = (if d < 0 then - whole_seconds (- d) else whole_seconds d)
      in if - (2 ^ 31) \<le> v \<and> v < 2 ^ 31 then v else outside v)"

record csr_opts =
  cso_CSR :: string
  cso_Duration :: int
  cso_UserID :: string
  cso_Username :: string
  cso_SignerName :: string
  cso_Usages :: "string list"

definition NewCertificateSigningRequest :: "(int \<Rightarrow> int) \<Rightarrow> csr_opts \<Rightarrow> csr" where
  "NewCertificateSigningRequest outside opts =
     (let signer = (if cso_SignerName opts = [] then ''kubernetes.io/kube-apiserver-client'' else cso_SignerName opts);
          usages = (if cso_Usages opts = [] then [''client auth''] else cso_Usages opts);
          durationSeconds = duration_int32 outside (cso_Duration opts)
      in \<lparr>csr_Name = cso_Username opts, csr_UID = 0,
          csr_Annotations = (if cso_UserID opts \<noteq> [] then [(''krateo.user.id'', cso_UserID opts)] else []),
          csr_deleting = False, csr_Request = cso_CSR opts, csr_SignerName = signer,
          csr_ExpirationSeconds = Some durationSeconds, csr_Usages = usages, csr_Conditions = [], csr_Certificate = []\<rparr>)"

lemma top_bit_bounds: "0 < s \<Longrightarrow> 0 < top_bit s \<and> top_bit s \<le> s"
proof (induction s rule: top_bit.induct)
  case (1 s)
  show ?case
  proof (cases "s < 2")
    case True
    with 1(2) show ?thesis by (simp add: top_bit.simps)
  next
    case False
    then have "0 < s div 2" "2 * (s div 2) \<le> s" by linarith+
    with 1(1) False show ?thesis by (subst (1 2) top_bit.simps) auto
  qed
qed

text \<open>An exact number of seconds stays.\<close>

lemma whole_seconds_exact: "0 \<le> s \<Longrightarrow> s < 2 ^ 53 \<Longrightarrow> whole_seconds (s * 1000000000) = s"
  using top_bit_bounds [of s] by (auto simp: whole_seconds_def Let_def)

lemma expiration_exact:
  assumes "0 \<le> s" "s < 2 ^ 31" and "cso_Duration opts = s * 1000000000"
  shows "csr_ExpirationSeconds (NewCertificateSigningRequest outside opts) = Some s"
proof -
  have "whole_seconds (s * 1000000000) = s" using assms(1,2) by (intro whole_seconds_exact) auto
  with assms show ?thesis by (simp add: NewCertificateSigningRequest_def duration_int32_def Let_def)
qed

section \<open>Sign-up\<close>

record ('w, 'k) signup_env =
  se_secrets :: "'w secrets_api"
  se_csr :: "'w csr_api"
  se_newForConfig :: "kerr option"
  se_readNamespace :: "'w \<Rightarrow> kerr + string"
  se_configMaps :: "'w \<Rightarrow> kerr + (string \<Rightarrow> string \<Rightarrow> kerr + smap')"
  se_getenv :: "string \<Rightarrow> string"
  se_generateKey :: "'w \<Rightarrow> 'w \<times> (kerr + 'k)"
  se_createRequest :: "request_template \<Rightarrow> 'k \<Rightarrow> 'w \<Rightarrow> 'w \<times> (kerr + string)"
  se_marshalKey :: "'k \<Rightarrow> string"
  se_now :: "'w \<Rightarrow> int"
  se_outside :: "int \<Rightarrow> int"

record signup_options =
  so_CAData :: string
  so_ProxyURL :: string
  so_ServerURL :: string
  so_CertDuration :: int
  so_Namespace :: string
  so_Username :: string
  so_UserGroups :: "string list"

record signup_handler =
  sh_caData :: string
  sh_proxyURL :: string
  sh_serverURL :: string
  sh_certDuration :: int
  sh_namespace :: string

definition signup_fnv_step :: "64 word \<Rightarrow> char \<Rightarrow> 64 word" where
  "signup_fnv_step h c = (h XOR of_nat (of_char c)) * 1099511628211"

definition mkID :: "string \<Rightarrow> string" where
  "mkID s = hex_nat (unat (foldl signup_fnv_step 14695981039346656037 s))"

text \<open>\<open>net.JoinHostPort\<close>: a host with a colon is an IPv6 address.\<close>

definition JoinHostPort :: "string \<Rightarrow> string \<Rightarrow> string" where
  "JoinHostPort host port =
     (if CHR '':'' \<in> set host then ''['' @ host @ '']:'' @ port else host @ '':'' @ port)"

record cert_and_key_opts =
  ck_duration :: int
  ck_userID :: string
  ck_username :: string
  ck_groups :: "string list"

text \<open>The creation of the signing request, in the place of one that exists already.\<close>

definition create_or_replace :: "'w csr_api \<Rightarrow> csr \<Rightarrow> 'w \<Rightarrow> 'w \<times> kerr option" where
  "create_or_replace api c w =
     (case CreateCertificateSigningRequests api c w of
        (w1, None) \<Rightarrow> (w1, None)
      | (w1, Some err) \<Rightarrow>
          if \<not> csr_isAlreadyExists api err then (w1, Some (KWrap ''creating CSR kubernetes object: '' err))
          else case DeleteCertificateSigningRequest api (csr_Name c) w1 of
                 (w2, Some err) \<Rightarrow> (w2, Some (KWrap ''deleting existing CSR kubernetes object: '' err))
               | (w2, None) \<Rightarrow>
                   (case CreateCertificateSigningRequests api c w2 of
                      (w3, Some err) \<Rightarrow> (w3, Some (KWrap ''creating CSR kubernetes object: '' err))
                    | (w3, None) \<Rightarrow> (w3, None)))"

definition signing_request :: "(int \<Rightarrow> int) \<Rightarrow> cert_and_key_opts \<Rightarrow> string \<Rightarrow> csr" where
  "signing_request outside opts req = NewCertificateSigningRequest outside
     \<lparr>cso_CSR = req, cso_Duration = ck_duration opts, cso_UserID = ck_userID opts, cso_Username = ck_username opts,
      cso_SignerName = [], cso_Usages = []\<rparr>"

definition obtain_certificate :: "('w, 'k) signup_env \<Rightarrow> csr \<Rightarrow> 'w \<Rightarrow> 'w \<times> (kerr + string)" where
  "obtain_certificate env c w =
     (case create_or_replace (se_csr env) c w of
        (w1, Some err) \<Rightarrow> (w1, Inl err)
      | (w1, None) \<Rightarrow>
          (case ApproveCertificateSigningRequest (se_csr env) (se_now env) c ''authn'' w1 of
             (w2, Some err) \<Rightarrow> (w2, Inl err)
           | (w2, None) \<Rightarrow>
               (case WaitForCertificate (se_csr env) (csr_Name c) w2 of
                  (w3, Some err) \<Rightarrow> (w3, Inl err)
                | (w3, None) \<Rightarrow> (w3, Certificate (se_csr env) (csr_Name c) w3))))"

definition generateClientCertAndKey :: "('w, 'k) signup_env \<Rightarrow> cert_and_key_opts \<Rightarrow> 'w \<Rightarrow> 'w \<times> (kerr + string \<times> string)" where
  "generateClientCertAndKey env opts w =
     (case NewPrivateKey (se_generateKey env) w of
        (w1, Inl err) \<Rightarrow> (w1, Inl err)
      | (w1, Inr key) \<Rightarrow>
          (case NewCertificateRequest (se_createRequest env)
                  \<lparr>cro_Key = key, cro_Username = ck_username opts, cro_Groups = ck_groups opts, cro_ExtraExtensions = []\<rparr> w1 of
             (w2, Inl err) \<Rightarrow> (w2, Inl err)
           | (w2, Inr req) \<Rightarrow>
               (case obtain_certificate env (signing_request (se_outside env) opts req) w2 of
                  (w3, Inl err) \<Rightarrow> (w3, Inl err)
                | (w3, Inr crt) \<Rightarrow>
                    (w3, Inr (b64_encode crt, b64_encode (pem_encode ''RSA PRIVATE KEY'' (se_marshalKey env key)))))))"

text \<open>The address of the server: the configured one, or the one of the pod's environment.\<close>

definition server_url :: "('w, 'k) signup_env \<Rightarrow> signup_handler \<Rightarrow> kerr + string" where
  "server_url env g =
     (if sh_serverURL g \<noteq> [] then Inr (sh_serverURL g)
      else let host = se_getenv env ''KUBERNETES_SERVICE_HOST''; port = se_getenv env ''KUBERNETES_SERVICE_PORT'' in
           if host = [] \<or> port = []
           then Inl (KErr ''unable to load in-cluster configuration, KUBERNETES_SERVICE_HOST and KUBERNETES_SERVICE_PORT must be defined'')
           else Inr (''https://'' @ JoinHostPort host port))"

definition generateEndpoint ::
  "('w, 'k) signup_env \<Rightarrow> signup_handler \<Rightarrow> string \<Rightarrow> string list \<Rightarrow> 'w \<Rightarrow> 'w \<times> (kerr + endpoint)" where
  "generateEndpoint env g user groups w =
     (case server_url env g of
        Inl err \<Rightarrow> (w, Inl err)
      | Inr url \<Rightarrow>
          (case se_newForConfig env of
             Some err \<Rightarrow> (w, Inl err)
           | None \<Rightarrow>
               (case generateClientCertAndKey env
                       \<lparr>ck_duration = sh_certDuration g, ck_userID = mkID (user @ ''@'' @ Join groups '',''),
                        ck_username = user, ck_groups = groups\<rparr> w of
                  (w1, Inl err) \<Rightarrow> (w1, Inl err)
                | (w1, Inr (crt, key)) \<Rightarrow>
                    (w1, Inr (zero_endpoint\<lparr>ep_ServerURL := url, ep_CertificateAuthorityData := sh_caData g,
                               ep_ClientCertificateData := crt, ep_ClientKeyData := key\<rparr>)))))"

definition doIt ::
  "('w, 'k) signup_env \<Rightarrow> signup_handler \<Rightarrow> string \<Rightarrow> string list \<Rightarrow> 'w \<Rightarrow> 'w \<times> endpoint \<times> kerr option" where
  "doIt env g user groups w =
     (case (if sh_caData g = [] then CACrt (se_readNamespace env w) (se_configMaps env w) else Inr (sh_caData g)) of
        Inl err \<Rightarrow> (w, zero_endpoint, Some err)
      | Inr ca \<Rightarrow>
          (case generateEndpoint env (g\<lparr>sh_caData := ca\<rparr>) user groups w of
             (w1, Inl err) \<Rightarrow> (w1, zero_endpoint, Some err)
           | (w1, Inr ep0) \<Rightarrow>
               (let ep = ep0\<lparr>ep_Username := user\<rparr> in
                case Store (se_secrets env) w1 (sh_namespace g) ep of (w2, err) \<Rightarrow> (w2, ep, err))))"

definition signup_Do :: "('w, 'k) signup_env \<Rightarrow> signup_options \<Rightarrow> 'w \<Rightarrow> 'w \<times> endpoint \<times> kerr option" where
  "signup_Do env opts w =
     doIt env \<lparr>sh_caData = so_CAData opts, sh_proxyURL = so_ProxyURL opts, sh_serverURL = so_ServerURL opts,
       sh_certDuration = so_CertDuration opts, sh_namespace = so_Namespace opts\<rparr> (so_Username opts) (so_UserGroups opts) w"

section \<open>What the API of signing requests documents\<close>

text \<open>
  The laws hold whatever other clients do to the cluster while this one calls the API or waits.  \<open>later\<close> is the
  order of the states that the cluster goes through.  A created object has the request that was sent; the request of an
  object is immutable, where objects with one name and one UID are the same object; a certificate is issued for the
  request beside it.  The poller returns without an error only when the condition was just true.
\<close>

locale csr_laws =
  fixes api :: "'w csr_api" and issued :: "string \<Rightarrow> string \<Rightarrow> bool" and later :: "'w \<Rightarrow> 'w \<Rightarrow> bool"
  assumes created: "csr_create api w c = (w', None) \<Longrightarrow> \<exists>d. csr_get api w' (csr_Name c) = Inr d \<and> csr_Request d = csr_Request c"
    and immutable: "later w w' \<Longrightarrow> csr_get api w n = Inr c \<Longrightarrow> csr_get api w' n = Inr d \<Longrightarrow> csr_UID d = csr_UID c \<Longrightarrow>
      csr_Request d = csr_Request c"
    and later_trans: "later w w' \<Longrightarrow> later w' w'' \<Longrightarrow> later w w''"
    and approval_later: "csr_updateApproval api w n c = (w', r) \<Longrightarrow> later w w'"
    and poll_later: "csr_poll api iv tm imm cond w = (w', r) \<Longrightarrow> later w w'"
    and poll_true: "csr_poll api iv tm imm cond w = (w', None) \<Longrightarrow> cond w' = Inr True"
    and signed: "csr_get api w n = Inr d \<Longrightarrow> csr_Certificate d \<noteq> [] \<Longrightarrow> issued (csr_Request d) (csr_Certificate d)"

text \<open>
  Nobody replaced the signing request of a sign-up: the object with its name at the end is the one that was created.
\<close>

definition own_object :: "('w, 'k) signup_env \<Rightarrow> csr \<Rightarrow> 'w \<Rightarrow> bool" where
  "own_object env c w =
     (case csr_get (se_csr env) (fst (create_or_replace (se_csr env) c w)) (csr_Name c) of
        Inl err \<Rightarrow> False
      | Inr d \<Rightarrow>
          (case csr_get (se_csr env) (fst (obtain_certificate env c w)) (csr_Name c) of
             Inl err \<Rightarrow> False
           | Inr d' \<Rightarrow> csr_UID d' = csr_UID d))"

context csr_laws
begin

lemma replaced:
  assumes "create_or_replace api c w = (w', None)"
  shows "\<exists>d. csr_get api w' (csr_Name c) = Inr d \<and> csr_Request d = csr_Request c"
proof -
  obtain w0 where "csr_create api w0 c = (w', None)"
    using assms by (auto simp: create_or_replace_def CreateCertificateSigningRequests_def split: prod.splits option.splits if_splits)
  then show ?thesis by (rule created)
qed

text \<open>The certificate that is read is for the request that was created, when that object is still there.\<close>

lemma obtained:
  assumes "obtain_certificate env c w = (w', Inr crt)" and "se_csr env = api" and "own_object env c w"
  shows "crt \<noteq> [] \<and> issued (csr_Request c) crt"
proof -
  obtain w1 w2 where w1: "create_or_replace api c w = (w1, None)"
    and w2: "csr_updateApproval api w1 (csr_Name c) (approved ''authn'' (se_now env w1) c) = (w2, None)"
    and w3: "csr_poll api certificateWaitPollInternval certificateWaitTimeout False (CertificateExistsFunc api (csr_Name c)) w2 = (w', None)"
    and crt: "Certificate api (csr_Name c) w' = Inr crt"
    using assms by (auto simp: obtain_certificate_def ApproveCertificateSigningRequest_def WaitForCertificate_def
        split: prod.splits option.splits)
  obtain d1 where d1: "csr_get api w1 (csr_Name c) = Inr d1" "csr_Request d1 = csr_Request c"
    using replaced [OF w1] by blast
  obtain d3 where d3: "csr_get api w' (csr_Name c) = Inr d3" "csr_UID d3 = csr_UID d1"
    using assms w1 d1 by (auto simp: own_object_def split: sum.splits)
  have "csr_Request d3 = csr_Request c"
    using immutable [OF later_trans [OF approval_later [OF w2] poll_later [OF w3]] d1(1) d3] d1(2) by simp
  moreover have "crt = csr_Certificate d3" using crt d3(1) by (simp add: Certificate_def GetCertificateSigningRequest_def)
  moreover have "csr_Certificate d3 \<noteq> []" using poll_true [OF w3] d3(1) by (simp add: CertificateExistsFunc_def)
  ultimately show ?thesis using signed [OF d3(1)] by simp
qed

text \<open>An old request with the name is gone before the new one is created.\<close>

lemma deleted: "DeleteCertificateSigningRequest api name w = (w', None) \<Longrightarrow> \<exists>e. csr_get api w' name = Inl e \<and> kube_is_not_found e"
  by (auto simp: DeleteCertificateSigningRequest_def csr_gone_def split: prod.splits option.splits sum.splits dest!: poll_true)

end

section \<open>A cluster with a signer\<close>

text \<open>
  The requests that were ever created, by UID, and the signing requests that are there, with the flag whether they were
  signed.  While somebody waits, requests that are being deleted vanish and approved ones are signed; the poller
  gives up after a hundred rounds.
\<close>

record cluster =
  cl_requests :: "string list"
  cl_csrs :: "(string, csr \<times> bool) gomap"
  cl_secrets :: secret_store
  cl_keys :: nat

definition is_approved :: "csr \<Rightarrow> bool" where
  "is_approved c = (\<exists>x\<in>set (csr_Conditions c). cc_Type x = ''Approved'')"

definition sign :: "string \<Rightarrow> string" where
  "sign req = ''signed '' @ req"

definition tick :: "cluster \<Rightarrow> cluster" where
  "tick w = w\<lparr>cl_csrs := map (\<lambda>(n, c, s). (n, c, s \<or> is_approved c)) (filter (\<lambda>(n, c, s). \<not> csr_deleting c) (cl_csrs w))\<rparr>"

fun poll_rounds :: "nat \<Rightarrow> (cluster \<Rightarrow> kerr + bool) \<Rightarrow> cluster \<Rightarrow> cluster \<times> kerr option" where
  "poll_rounds 0 cond w = (w, Some (KErr ''context deadline exceeded''))"
| "poll_rounds (Suc k) cond w =
     (let w1 = tick w in
      case cond w1 of Inl e \<Rightarrow> (w1, Some e) | Inr True \<Rightarrow> (w1, None) | Inr False \<Rightarrow> poll_rounds k cond w1)"

definition cluster_poll :: "nat \<Rightarrow> bool \<Rightarrow> (cluster \<Rightarrow> kerr + bool) \<Rightarrow> cluster \<Rightarrow> cluster \<times> kerr option" where
  "cluster_poll k imm cond w =
     (case (if imm then cond w else Inr False) of
        Inl e \<Rightarrow> (w, Some e) | Inr True \<Rightarrow> (w, None) | Inr False \<Rightarrow> poll_rounds k cond w)"

definition stored_csr :: "cluster \<Rightarrow> csr \<Rightarrow> bool \<Rightarrow> csr" where
  "stored_csr w d s =
     (let req = cl_requests w ! csr_UID d in d\<lparr>csr_Request := req, csr_Certificate := (if s then sign req else [])\<rparr>)"

definition cluster_api :: "cluster csr_api" where
  "cluster_api = \<lparr>
     csr_create = (\<lambda>w c. case map_of (cl_csrs w) (csr_Name c) of
        Some d \<Rightarrow> (w, Some (KErr ''already exists''))
      | None \<Rightarrow> (w\<lparr>cl_requests := cl_requests w @ [csr_Request c],
                  cl_csrs := AList.update (csr_Name c)
                      (c\<lparr>csr_UID := length (cl_requests w), csr_deleting := False, csr_Conditions := []\<rparr>, False) (cl_csrs w)\<rparr>, None)),
     csr_delete = (\<lambda>w name. case map_of (cl_csrs w) name of
        None \<Rightarrow> (w, Some (KNotFound name))
      | Some (d, s) \<Rightarrow> (w\<lparr>cl_csrs := AList.update name (d\<lparr>csr_deleting := True\<rparr>, s) (cl_csrs w)\<rparr>, None)),
     csr_get = (\<lambda>w name. case map_of (cl_csrs w) name of
        None \<Rightarrow> Inl (KNotFound name)
      | Some (d, s) \<Rightarrow> if csr_UID d < length (cl_requests w) then Inr (stored_csr w d s) else Inl (KNotFound name)),
     csr_updateApproval = (\<lambda>w name c. case map_of (cl_csrs w) name of
        None \<Rightarrow> (w, Some (KNotFound name))
      | Some (d, s) \<Rightarrow> (w\<lparr>cl_csrs := AList.update name (d\<lparr>csr_Conditions := csr_Conditions c\<rparr>, s) (cl_csrs w)\<rparr>, None)),
     csr_isAlreadyExists = (\<lambda>e. e = KErr ''already exists''),
     csr_poll = (\<lambda>iv tm imm cond w. cluster_poll 100 imm cond w)\<rparr>"

text \<open>No UID is given twice: what was created stays on record.\<close>

definition later_cluster :: "cluster \<Rightarrow> cluster \<Rightarrow> bool" where
  "later_cluster w w' \<longleftrightarrow> (\<exists>more. cl_requests w' = cl_requests w @ more)"

lemma later_cluster_same: "cl_requests w' = cl_requests w \<Longrightarrow> later_cluster w w'"
  by (simp add: later_cluster_def)

lemma poll_rounds_laws:
  "poll_rounds k cond w = (w', r) \<Longrightarrow> cl_requests w' = cl_requests w \<and> (r = None \<longrightarrow> cond w' = Inr True)"
proof (induction k cond w rule: poll_rounds.induct)
  case (2 k cond w)
  have "cl_requests (tick w) = cl_requests w" by (simp add: tick_def)
  with 2 show ?case by (cases "cond (tick w)") (auto simp: Let_def split: bool.splits)
qed auto

lemma cluster_poll_laws:
  assumes "cluster_poll k imm cond w = (w', r)"
  shows "later_cluster w w' \<and> (r = None \<longrightarrow> cond w' = Inr True)"
  using assms poll_rounds_laws [of k cond w w' r]
  by (auto simp: cluster_poll_def intro: later_cluster_same split: if_splits sum.splits bool.splits)

interpretation cluster: csr_laws cluster_api "\<lambda>req crt. crt = sign req" later_cluster
proof
  fix w c w'
  assume "csr_create cluster_api w c = (w', None)"
  then show "\<exists>d. csr_get cluster_api w' (csr_Name c) = Inr d \<and> csr_Request d = csr_Request c"
    by (auto simp: cluster_api_def stored_csr_def Let_def split: option.splits)
next
  fix w w' n c d
  assume "later_cluster w w'" "csr_get cluster_api w n = Inr c" "csr_get cluster_api w' n = Inr d" "csr_UID d = csr_UID c"
  then show "csr_Request d = csr_Request c"
    by (auto simp: cluster_api_def later_cluster_def stored_csr_def Let_def nth_append split: option.splits if_splits)
next
  fix w w' w''
  assume "later_cluster w w'" "later_cluster w' w''"
  then show "later_cluster w w''" by (auto simp: later_cluster_def)
next
  fix w n c w' r
  assume "csr_updateApproval cluster_api w n c = (w', r)"
  then show "later_cluster w w'" by (auto simp: cluster_api_def split: option.splits intro!: later_cluster_same)
next
  fix iv tm imm cond w w' r
  assume "csr_poll cluster_api iv tm imm cond w = (w', r)"
  then show "later_cluster w w'" by (auto simp: cluster_api_def dest: cluster_poll_laws)
next
  fix iv tm imm cond w w'
  assume "csr_poll cluster_api iv tm imm cond w = (w', None)"
  then show "cond w' = Inr True" by (auto simp: cluster_api_def dest: cluster_poll_laws)
next
  fix w n d
  assume "csr_get cluster_api w n = Inr d" "csr_Certificate d \<noteq> []"
  then show "csr_Certificate d = sign (csr_Request d)"
    by (auto simp: cluster_api_def stored_csr_def Let_def split: option.splits if_splits)
qed

definition cluster_secrets :: "cluster secrets_api" where
  "cluster_secrets = \<lparr>
     restClientFor = (\<lambda>w. None),
     getSecret = (\<lambda>w. getSecret store_api (cl_secrets w)),
     createSecret = (\<lambda>w name ns sd. case createSecret store_api (cl_secrets w) name ns sd of (s, r) \<Rightarrow> (w\<lparr>cl_secrets := s\<rparr>, r)),
     updateSecret = (\<lambda>w name ns sd. case updateSecret store_api (cl_secrets w) name ns sd of (s, r) \<Rightarrow> (w\<lparr>cl_secrets := s\<rparr>, r)),
     isAlreadyExists = isAlreadyExists store_api\<rparr>"

interpretation cluster_secrets: secrets_laws cluster_secrets
  by unfold_locales (auto simp: cluster_secrets_def store_api_def split: option.splits prod.splits)

section \<open>Properties of sign-up\<close>

definition subject :: "string \<Rightarrow> string list \<Rightarrow> request_template" where
  "subject user groups = \<lparr>rt_CommonName = user, rt_Organization = groups, rt_SignatureAlgorithm = ''SHA256WithRSA'', rt_ExtraExtensions = []\<rparr>"

text \<open>The credentials of an endpoint: a certificate for a request of the given subject, with the key that the request was made with.\<close>

definition own_credentials ::
  "('w, 'k) signup_env \<Rightarrow> (string \<Rightarrow> string \<Rightarrow> bool) \<Rightarrow> string \<Rightarrow> string list \<Rightarrow> 'w \<Rightarrow> string \<Rightarrow> string \<Rightarrow> bool" where
  "own_credentials env issued user groups w crt64 key64 \<longleftrightarrow>
     (\<exists>w1 key w2 der crt. se_generateKey env w = (w1, Inr key) \<and> se_createRequest env (subject user groups) key w1 = (w2, Inr der) \<and>
        crt64 = b64_encode crt \<and> crt \<noteq> [] \<and> issued (pem_encode ''CERTIFICATE REQUEST'' der) crt \<and>
        key64 = b64_encode (pem_encode ''RSA PRIVATE KEY'' (se_marshalKey env key)))"

text \<open>
  Nobody else replaces the signing request while a sign-up runs: the object that is read at the end is the one
  that this sign-up created.
\<close>

definition undisturbed :: "('w, 'k) signup_env \<Rightarrow> cert_and_key_opts \<Rightarrow> 'w \<Rightarrow> bool" where
  "undisturbed env opts w =
     (case NewPrivateKey (se_generateKey env) w of
        (w1, Inl err) \<Rightarrow> True
      | (w1, Inr key) \<Rightarrow>
          (case NewCertificateRequest (se_createRequest env)
                  \<lparr>cro_Key = key, cro_Username = ck_username opts, cro_Groups = ck_groups opts, cro_ExtraExtensions = []\<rparr> w1 of
             (w2, Inl err) \<Rightarrow> True
           | (w2, Inr req) \<Rightarrow> own_object env (signing_request (se_outside env) opts req) w2))"

lemma generated_pair:
  assumes "csr_laws (se_csr env) issued later" and "generateClientCertAndKey env opts w = (w', Inr (crt64, key64))"
    and "undisturbed env opts w"
  shows "own_credentials env issued (ck_username opts) (ck_groups opts) w crt64 key64"
proof -
  obtain w1 key w2 der crt where w1: "se_generateKey env w = (w1, Inr key)"
    and w2: "se_createRequest env (subject (ck_username opts) (ck_groups opts)) key w1 = (w2, Inr der)"
    and crt: "obtain_certificate env (signing_request (se_outside env) opts (pem_encode ''CERTIFICATE REQUEST'' der)) w2 = (w', Inr crt)"
    and out: "crt64 = b64_encode crt" "key64 = b64_encode (pem_encode ''RSA PRIVATE KEY'' (se_marshalKey env key))"
    using assms(2) by (auto simp: generateClientCertAndKey_def NewPrivateKey_def NewCertificateRequest_def subject_def Let_def
        split: prod.splits sum.splits)
  have own: "own_object env (signing_request (se_outside env) opts (pem_encode ''CERTIFICATE REQUEST'' der)) w2"
    using assms(3) w1 w2 by (simp add: undisturbed_def NewPrivateKey_def NewCertificateRequest_def subject_def Let_def)
  have "csr_Request (signing_request (se_outside env) opts r) = r" for r
    by (simp add: signing_request_def NewCertificateSigningRequest_def Let_def)
  with csr_laws.obtained [OF assms(1) crt refl own] have "crt \<noteq> [] \<and> issued (pem_encode ''CERTIFICATE REQUEST'' der) crt" by simp
  with w1 w2 out show ?thesis by (auto simp: own_credentials_def)
qed

definition signup_cert_opts :: "signup_options \<Rightarrow> cert_and_key_opts" where
  "signup_cert_opts opts = \<lparr>ck_duration = so_CertDuration opts,
     ck_userID = mkID (so_Username opts @ ''@'' @ Join (so_UserGroups opts) '',''),
     ck_username = so_Username opts, ck_groups = so_UserGroups opts\<rparr>"

lemma signup_Do_stages:
  assumes "signup_Do env opts w = (w', ep, None)"
  obtains w1 ca url crt key where
    "(if so_CAData opts = [] then CACrt (se_readNamespace env w) (se_configMaps env w) else Inr (so_CAData opts)) = Inr ca"
    "generateClientCertAndKey env (signup_cert_opts opts) w = (w1, Inr (crt, key))"
    "ep = zero_endpoint\<lparr>ep_ServerURL := url, ep_CertificateAuthorityData := ca, ep_ClientCertificateData := crt,
       ep_ClientKeyData := key, ep_Username := so_Username opts\<rparr>"
    "Store (se_secrets env) w1 (so_Namespace opts) ep = (w', None)"
  using assms
  by (simp add: signup_Do_def doIt_def generateEndpoint_def Let_def server_url_def split: if_splits sum.splits prod.splits option.splits)
    (auto simp: zero_endpoint_def signup_cert_opts_def)

lemma signed_up_reads_back:
  assumes "secrets_laws api" and "Store api w1 ns ep = (w', None)" and "ep_AwsAccessKey ep = []" "ep_AwsSecretKey ep = []"
    "ep_AwsRegion ep = []" "ep_AwsService ep = []" "ep_AwsTime ep = []"
  shows "FromSecret api w' (clientconfig_name (ep_Username ep)) ns = Inr ep"
  using secrets_laws.stored [OF assms(1,2)] assms(3-) by (simp add: FromSecret_def endpoint_of_string_data)

text \<open>
  C20: Sign-up gives a user working credentials.  When \<open>Do\<close> succeeds, whatever other clients of the cluster do meanwhile,
  reading the Secret of the user gives exactly the endpoint that was returned; and when nobody replaced the signing
  request of this sign-up, that is when the object with the user's name at the end is the one that was created
  (\<open>undisturbed\<close>), the endpoint holds a certificate that was issued for the request of this very sign-up, with the user
  as common name and the groups as organisations, together with the private key of that request, also when an old request
  with the same name had to be replaced.
\<close>

theorem signup_Do_credentials:
  assumes "csr_laws (se_csr env) issued later" and "secrets_laws (se_secrets env)" and "signup_Do env opts w = (w', ep, None)"
  shows "(undisturbed env (signup_cert_opts opts) w \<longrightarrow>
      own_credentials env issued (so_Username opts) (so_UserGroups opts) w (ep_ClientCertificateData ep) (ep_ClientKeyData ep)) \<and>
    FromSecret (se_secrets env) w' (clientconfig_name (so_Username opts)) (so_Namespace opts) = Inr ep"
proof
  obtain w1 ca url crt key where stage: "generateClientCertAndKey env (signup_cert_opts opts) w = (w1, Inr (crt, key))"
    and ep: "ep = zero_endpoint\<lparr>ep_ServerURL := url, ep_CertificateAuthorityData := ca, ep_ClientCertificateData := crt,
       ep_ClientKeyData := key, ep_Username := so_Username opts\<rparr>"
    and store: "Store (se_secrets env) w1 (so_Namespace opts) ep = (w', None)"
    using signup_Do_stages [OF assms(3)] .
  show "undisturbed env (signup_cert_opts opts) w \<longrightarrow>
      own_credentials env issued (so_Username opts) (so_UserGroups opts) w (ep_ClientCertificateData ep) (ep_ClientKeyData ep)"
    using generated_pair [OF assms(1) stage] by (simp add: ep signup_cert_opts_def)
  show "FromSecret (se_secrets env) w' (clientconfig_name (so_Username opts)) (so_Namespace opts) = Inr ep"
    using signed_up_reads_back [OF assms(2) store] by (simp add: ep zero_endpoint_def)
qed

text \<open>An example: keys are strings, requests name the key and the user.\<close>

definition cluster_env :: "(cluster, string) signup_env" where
  "cluster_env = \<lparr>se_secrets = cluster_secrets, se_csr = cluster_api, se_newForConfig = None,
     se_readNamespace = (\<lambda>w. Inr ''ns''), se_configMaps = (\<lambda>w. Inr (\<lambda>ns n. Inr [(''ca.crt'', ''CA'')])),
     se_getenv = (\<lambda>v. if v = ''KUBERNETES_SERVICE_HOST'' then ''fd00::1'' else ''443''),
     se_generateKey = (\<lambda>w. (w\<lparr>cl_keys := Suc (cl_keys w)\<rparr>, Inr (replicate (cl_keys w) (CHR ''k'')))),
     se_createRequest = (\<lambda>t k w. (w, Inr (k @ rt_CommonName t))),
     se_marshalKey = (\<lambda>k. k), se_now = (\<lambda>w. 0), se_outside = (\<lambda>v. - (2 ^ 31))\<rparr>"

definition ann :: signup_options where
  "ann = \<lparr>so_CAData = [], so_ProxyURL = ''http://proxy'', so_ServerURL = [], so_CertDuration = 3600000000000,
     so_Namespace = ''ns'', so_Username = ''ann'', so_UserGroups = [''devs'']\<rparr>"

text \<open>A cluster in which an old request of the user is pending.\<close>

definition old_cluster :: cluster where
  "old_cluster = \<lparr>cl_requests = [''old''], cl_csrs = [(''ann'', NewCertificateSigningRequest (\<lambda>v. v)
     \<lparr>cso_CSR = ''old'', cso_Duration = 0, cso_UserID = [], cso_Username = ''ann'', cso_SignerName = [], cso_Usages = []\<rparr>, False)],
     cl_secrets = [], cl_keys = 1\<rparr>"

lemma poll_rounds_100:
  "poll_rounds 100 cond w = (let w1 = tick w in case cond w1 of Inl e \<Rightarrow> (w1, Some e) | Inr b \<Rightarrow> if b then (w1, None) else poll_rounds 99 cond w1)"
  using poll_rounds.simps(2) [of 99 cond w] by (simp add: Let_def split: sum.split bool.split)

lemmas signup_steps = signup_Do_def doIt_def generateEndpoint_def server_url_def CACrt_def ServiceAccountNamespace_def ConfigMapData_def
  generateClientCertAndKey_def NewPrivateKey_def NewCertificateRequest_def obtain_certificate_def create_or_replace_def
  CreateCertificateSigningRequests_def DeleteCertificateSigningRequest_def csr_gone_def ApproveCertificateSigningRequest_def
  approved_def WaitForCertificate_def CertificateExistsFunc_def Certificate_def GetCertificateSigningRequest_def
  signing_request_def NewCertificateSigningRequest_def Let_def Store_def

lemmas cluster_steps = cluster_api_def stored_csr_def cluster_secrets_def store_api_def cluster_poll_def poll_rounds_100 tick_def is_approved_def
  kube_is_not_found_def ann_def old_cluster_def

lemma sign_nonempty: "sign req \<noteq> []"
  by (simp add: sign_def)

lemma ann_signs_up: "snd (snd (signup_Do cluster_env ann old_cluster)) = None"
  by (simp add: signup_steps cluster_steps cluster_env_def sign_nonempty)

lemma ann_undisturbed: "undisturbed cluster_env (signup_cert_opts ann) old_cluster"
  by (simp add: undisturbed_def own_object_def signup_cert_opts_def signup_steps cluster_steps cluster_env_def sign_nonempty)

theorem signup_Do_credentials_witness:
  "own_credentials cluster_env (\<lambda>req crt. crt = sign req) ''ann'' [''devs''] old_cluster
     (ep_ClientCertificateData (fst (snd (signup_Do cluster_env ann old_cluster))))
     (ep_ClientKeyData (fst (snd (signup_Do cluster_env ann old_cluster)))) \<and>
   FromSecret cluster_secrets (fst (signup_Do cluster_env ann old_cluster)) (clientconfig_name ''ann'') ''ns'' =
     Inr (fst (snd (signup_Do cluster_env ann old_cluster)))"
proof -
  have laws: "csr_laws (se_csr cluster_env) (\<lambda>req crt. crt = sign req) later_cluster" "secrets_laws (se_secrets cluster_env)"
    using cluster.csr_laws_axioms cluster_secrets.secrets_laws_axioms by (simp_all add: cluster_env_def)
  have "signup_Do cluster_env ann old_cluster =
      (fst (signup_Do cluster_env ann old_cluster), fst (snd (signup_Do cluster_env ann old_cluster)), None)"
    by (simp add: prod_eq_iff ann_signs_up)
  from signup_Do_credentials [OF laws this] ann_undisturbed show ?thesis by (simp add: ann_def) (simp add: cluster_env_def)
qed

text \<open>
  Two sign-ups of the same user at the same time: while the first waits for its certificate, the second deletes
  the request, because the name is the user's, and makes its own.  The first then takes the certificate of the second
  and stores it beside its own key.
\<close>

definition race_env :: "(cluster, string) signup_env" where
  "race_env = cluster_env\<lparr>se_csr := cluster_api\<lparr>csr_poll := (\<lambda>iv tm imm cond w.
     cluster_poll 100 imm cond (if imm then w else fst (signup_Do cluster_env ann w)))\<rparr>\<rparr>"

theorem signup_race:
  "case signup_Do race_env ann old_cluster of (w', ep, err) \<Rightarrow> err = None \<and>
     b64_decode (ep_ClientCertificateData ep) = Some (sign (pem_encode ''CERTIFICATE REQUEST'' ''kkann'')) \<and>
     b64_decode (ep_ClientKeyData ep) = Some (pem_encode ''RSA PRIVATE KEY'' ''k'')"
  by (simp add: race_env_def signup_steps cluster_steps cluster_env_def b64_decode_encode sign_nonempty)

text \<open>The proxy of the options is not used: no endpoint of a sign-up has one.\<close>

theorem signup_no_proxy: "ep_ProxyURL (fst (snd (signup_Do env opts w))) = []"
  by (simp add: signup_Do_def doIt_def generateEndpoint_def Let_def zero_endpoint_def split: sum.splits prod.splits option.splits)

section \<open>Client configuration\<close>

record ClusterInfo =
  ci_CertificateAuthorityData :: string
  ci_ProxyURL :: string
  ci_Server :: string

record CertInfo =
  cti_ClientCertificateData :: string
  cti_ClientKeyData :: string

record kube_context =
  kx_Cluster :: string
  kx_User :: string

record KubeConfig =
  kc_APIVersion :: string
  kc_Clusters :: "(string \<times> ClusterInfo) list"
  kc_Contexts :: "(string \<times> kube_context) list"
  kc_CurrentContext :: string
  kc_Kind :: string
  kc_Users :: "(string \<times> CertInfo) list"

definition kubeconfig_of :: "endpoint \<Rightarrow> KubeConfig" where
  "kubeconfig_of ep =
     \<lparr>kc_APIVersion = ''v1'',
      kc_Clusters = [(''krateo'', \<lparr>ci_CertificateAuthorityData = ep_CertificateAuthorityData ep, ci_ProxyURL = [],
        ci_Server = ep_ServerURL ep\<rparr>)],
      kc_Contexts = [(''krateo'', \<lparr>kx_Cluster = ''krateo'', kx_User = ep_Username ep\<rparr>)],
      kc_CurrentContext = ''krateo'', kc_Kind = ''Config'',
      kc_Users = [(ep_Username ep, \<lparr>cti_ClientCertificateData = ep_ClientCertificateData ep,
        cti_ClientKeyData = ep_ClientKeyData ep\<rparr>)]\<rparr>"

definition kubeconfig_Marshal :: "(KubeConfig \<Rightarrow> kerr + string) \<Rightarrow> endpoint \<Rightarrow> kerr + string" where
  "kubeconfig_Marshal marshal ep =
     (case marshal (kubeconfig_of ep) of
        Inl err \<Rightarrow> Inl (KWrap ''generating kubeconfig from endpoint: '' err)
      | Inr out \<Rightarrow> Inr out)"

text \<open>
  \<open>fromBytes\<close> is \<open>clientcmd.NewClientConfigFromBytes\<close>, \<open>clientConfig\<close> the method \<open>ClientConfig\<close>; the result is the
  configuration and, in debug mode, the trace identifier and verbosity of the round tripper around its transport.
\<close>

definition NewClientConfig ::
  "(KubeConfig \<Rightarrow> kerr + string) \<Rightarrow> (string \<Rightarrow> kerr + 'cc) \<Rightarrow> ('cc \<Rightarrow> kerr + 'rest) \<Rightarrow> (string \<Rightarrow> bool) \<Rightarrow> string \<Rightarrow> endpoint \<Rightarrow>
   kerr + 'rest \<times> (string \<times> bool) option" where
  "NewClientConfig marshal fromBytes clientConfig envTrue traceId ep =
     (case kubeconfig_Marshal marshal ep of
        Inl err \<Rightarrow> Inl err
      | Inr dat \<Rightarrow>
          (case fromBytes dat of
             Inl err \<Rightarrow> Inl err
           | Inr ccf \<Rightarrow>
               (case clientConfig ccf of
                  Inl err \<Rightarrow> Inl err
                | Inr res \<Rightarrow> Inr (res, if envTrue ''DEBUG'' then Some (traceId, envTrue ''TRACE'') else None))))"

text \<open>What a client finds in the current context of a configuration.\<close>

definition current_entry :: "KubeConfig \<Rightarrow> (ClusterInfo \<times> CertInfo) option" where
  "current_entry kc =
     (case map_of (kc_Contexts kc) (kc_CurrentContext kc) of
        None \<Rightarrow> None
      | Some x \<Rightarrow>
          (case (map_of (kc_Clusters kc) (kx_Cluster x), map_of (kc_Users kc) (kx_User x)) of
             (Some c, Some u) \<Rightarrow> Some (c, u) | _ \<Rightarrow> None))"

text \<open>
  The configuration made from an endpoint leads its client to the server of the endpoint with the certificates of the
  endpoint, whatever the name of the user.  Nothing else of the endpoint has an influence: the token, the password, the proxy and the
  \<open>insecure\<close> flag are dropped.
\<close>

theorem kubeconfig_current:
  "current_entry (kubeconfig_of ep) =
     Some (\<lparr>ci_CertificateAuthorityData = ep_CertificateAuthorityData ep, ci_ProxyURL = [], ci_Server = ep_ServerURL ep\<rparr>,
       \<lparr>cti_ClientCertificateData = ep_ClientCertificateData ep, cti_ClientKeyData = ep_ClientKeyData ep\<rparr>) \<and>
   kubeconfig_of (ep\<lparr>ep_Token := t, ep_Password := p, ep_ProxyURL := x, ep_Insecure := i\<rparr>) = kubeconfig_of ep"
  by (simp add: current_entry_def kubeconfig_of_def)

end
