(* ===== verification/Http_Request.thy ===== *)
theory Http_Request
  imports Retry_Wait
begin

text \<open>
  \<open>http/request\<close>: requests to an endpoint with its credentials (\<open>client.go\<close>, \<open>request.go\<close>, \<open>transport.go\<close>, \<open>util.go\<close>), and the
  debugging round tripper of \<open>kubeconfig/debug.go\<close>.

  A round tripper is a value of \<open>round_tripper\<close>, nested as the structs are, and \<open>RoundTrip\<close> runs it.  The network is the record
  \<open>net\<close> over a state \<open>'w\<close>.  The body of a request is a reader: a round trip reports what it left unread, since copies of a
  request share the reader.  \<open>net/url\<close>, the redirects of \<open>net/http\<close>, the dumps of \<open>httputil\<close>, SHA-256 and key pairs are fields of
  \<open>net\<close>; base64, hexadecimal, dates and headers are defined.  The retrying client is that of \<open>Retry_Wait\<close>, asked
  with the answers of the attempts.

  Shown: no request of \<open>Do\<close> reaches the network without credentials when the endpoint has them, not even after a redirect;
  what \<open>Do\<close> reports; when it panics; the signature for AWS is the documented one; retries lose the body.
\<close>

section \<open>Requests, replies, transports\<close>

record wire_request =
  wq_Method :: string
  wq_URL :: string
  wq_Header :: header
  wq_Body :: string
  wq_ctx :: ctx

text \<open>The body of a reply: its bytes, and the error that reading ends with, if any.\<close>

record wire_reply =
  wp_StatusCode :: int
  wp_Header :: header
  wp_Body :: "string \<times> string option"

datatype rt_out = RtPanic | RtErr string | RtOk wire_reply

datatype proxy = ProxyFromEnvironment | ProxyURL string

record 'c tls_config =
  tls_InsecureSkipVerify :: bool
  tls_RootCAs :: "string list option"
  tls_Certificates :: "'c list"

record 'c http_transport =
  tr_Proxy :: proxy
  tr_DialTimeout :: duration
  tr_DialKeepAlive :: duration
  tr_ForceAttemptHTTP2 :: bool
  tr_MaxIdleConns :: int
  tr_IdleConnTimeout :: duration
  tr_TLSHandshakeTimeout :: duration
  tr_ExpectContinueTimeout :: duration
  tr_TLSClientConfig :: "'c tls_config option"

datatype 'c round_tripper =
    BaseTransport "'c http_transport"
  | TraceIdRT "'c round_tripper"
  | DebuggingRT "'c round_tripper"
  | BasicAuthRT string string "'c round_tripper"
  | BearerAuthRT string "'c round_tripper"
  | AwsAuthRT string "'c round_tripper"
  | KubeDebuggingRT string bool "'c round_tripper"

record ('w, 'c) net =
  nt_send :: "'c http_transport \<Rightarrow> wire_request \<Rightarrow> 'w \<Rightarrow> 'w \<times> string \<times> (string + wire_reply)"
  nt_generate :: "'w \<Rightarrow> 'w \<times> string option"
  nt_dumpRequest :: "bool \<Rightarrow> wire_request \<Rightarrow> string option"
  nt_dumpResponse :: "bool \<Rightarrow> wire_reply \<Rightarrow> string option"
  nt_watch :: "string \<Rightarrow> bool"
  nt_urlAuth :: "string \<Rightarrow> string option"
  nt_redirect :: "wire_request \<Rightarrow> wire_request \<Rightarrow> wire_reply \<Rightarrow> (string + wire_request) option"
  nt_urlParse :: "string \<Rightarrow> string + string"
  nt_urlScheme :: "string \<Rightarrow> string option"
  nt_urlHost :: "string \<Rightarrow> string option"
  nt_newRequest :: "string \<Rightarrow> string \<Rightarrow> string option"
  nt_keyPair :: "string \<Rightarrow> string \<Rightarrow> string + 'c"
  nt_unmarshalStatus :: "string \<Rightarrow> status option"
  nt_mediaType :: "string \<Rightarrow> string option"
  nt_now :: "'w \<Rightarrow> 'w \<times> instant"
  nt_sha256 :: "string \<Rightarrow> string"
  nt_hmac :: "string \<Rightarrow> string \<Rightarrow> string"
  nt_quote :: "string \<Rightarrow> string"

section \<open>Round trippers\<close>

definition cloneHeader :: "header \<Rightarrow> header" where
  "cloneHeader h = fold (\<lambda>(key, values) out. AList.update key values out) h []"

definition cloneRequest :: "wire_request \<Rightarrow> wire_request" where
  "cloneRequest req = req\<lparr>wq_Header := cloneHeader (wq_Header req)\<rparr>"

definition isTextResponse :: "('w, 'c) net \<Rightarrow> wire_reply \<Rightarrow> bool" where
  "isTextResponse net resp =
     (let contentType = header_Get (wp_Header resp) ''Content-Type'' in
      if contentType = [] then True
      else case nt_mediaType net contentType of None \<Rightarrow> False | Some media \<Rightarrow> HasPrefix media ''text/'')"

definition set_header :: "string \<Rightarrow> string \<Rightarrow> wire_request \<Rightarrow> wire_request" where
  "set_header k v req = req\<lparr>wq_Header := header_Set (wq_Header req) k v\<rparr>"

definition SetBasicAuth :: "string \<Rightarrow> string \<Rightarrow> wire_request \<Rightarrow> wire_request" where
  "SetBasicAuth username password = set_header ''Authorization'' (''Basic '' @ b64_encode (username @ '':'' @ password))"

text \<open>
  A dump of the request with its body drains the shared reader and gives the request a copy of it; an error of a
  dump is the result.
\<close>

type_synonym 'w sender = "wire_request \<Rightarrow> 'w \<Rightarrow> 'w \<times> string \<times> rt_out"

definition transport_RoundTrip :: "('w, 'c) net \<Rightarrow> 'c http_transport \<Rightarrow> 'w sender" where
  "transport_RoundTrip net t req w =
     (case nt_send net t req w of
        (w1, rest, Inl err) \<Rightarrow> (w1, rest, RtErr err)
      | (w1, rest, Inr resp) \<Rightarrow> (w1, rest, RtOk resp))"

definition traceId_RoundTrip :: "('w, 'c) net \<Rightarrow> 'w sender \<Rightarrow> 'w sender" where
  "traceId_RoundTrip net rt req w =
     (let traceId = header_Get (wq_Header req) ''X-Krateo-TraceId'' in
      case (if traceId = [] then context_TraceId (nt_generate net) True (wq_ctx req) w else (w, Some traceId)) of
        (w1, None) \<Rightarrow> (w1, wq_Body req, RtPanic)
      | (w1, Some traceId) \<Rightarrow> rt (set_header ''X-Krateo-TraceId'' traceId req) w1)"

definition debugging_RoundTrip :: "('w, 'c) net \<Rightarrow> 'w sender \<Rightarrow> 'w sender" where
  "debugging_RoundTrip net rt req w =
     (case nt_dumpRequest net True req of
        Some err \<Rightarrow> (w, [], RtErr err)
      | None \<Rightarrow>
          (case rt req w of
             (w1, rest, RtOk resp) \<Rightarrow>
               (w1, [], case nt_dumpResponse net (\<not> nt_watch net (wq_URL req)) resp of Some err \<Rightarrow> RtErr err | None \<Rightarrow> RtOk resp)
           | (w1, rest, r) \<Rightarrow> (w1, [], r)))"

definition basicAuth_RoundTrip :: "string \<Rightarrow> string \<Rightarrow> 'w sender \<Rightarrow> 'w sender" where
  "basicAuth_RoundTrip username password rt req w =
     (if header_Get (wq_Header req) ''Authorization'' \<noteq> [] then rt req w
      else rt (SetBasicAuth username password (cloneRequest req)) w)"

definition bearerAuth_RoundTrip :: "string \<Rightarrow> 'w sender \<Rightarrow> 'w sender" where
  "bearerAuth_RoundTrip bearer rt req w =
     (if header_Get (wq_Header req) ''Authorization'' \<noteq> [] then rt req w
      else rt (set_header ''Authorization'' (''Bearer '' @ bearer) (cloneRequest req)) w)"

definition awsAuth_RoundTrip :: "string \<Rightarrow> 'w sender \<Rightarrow> 'w sender" where
  "awsAuth_RoundTrip headerPayload rt req w =
     (if header_Get (wq_Header req) ''Authorization'' \<noteq> [] then rt req w
      else rt (set_header ''Authorization'' headerPayload (cloneRequest req)) w)"

text \<open>The round tripper of \<open>kubeconfig/debug.go\<close>.\<close>

definition kubeDebugging_RoundTrip :: "('w, 'c) net \<Rightarrow> string \<Rightarrow> bool \<Rightarrow> 'w sender \<Rightarrow> 'w sender" where
  "kubeDebugging_RoundTrip net traceId0 verbose rt req w =
     (let h = header_Get (wq_Header req) ''X-Krateo-TraceId'';
          req1 = set_header ''X-Krateo-TraceId'' (if h = [] then traceId0 else h) req
      in case nt_dumpRequest net verbose req1 of
           Some err \<Rightarrow> (w, if verbose then [] else wq_Body req, RtErr err)
         | None \<Rightarrow>
             (case rt req1 w of
                (w1, rest, RtOk resp) \<Rightarrow>
                  (w1, if verbose then [] else rest,
                   case nt_dumpResponse net (\<not> nt_watch net (wq_URL req) \<and> verbose) resp of Some err \<Rightarrow> RtErr err | None \<Rightarrow> RtOk resp)
              | (w1, rest, r) \<Rightarrow> (w1, if verbose then [] else rest, r)))"

primrec RoundTrip :: "('w, 'c) net \<Rightarrow> 'c round_tripper \<Rightarrow> 'w sender" where
  "RoundTrip net (BaseTransport t) = transport_RoundTrip net t"
| "RoundTrip net (TraceIdRT rt) = traceId_RoundTrip net (RoundTrip net rt)"
| "RoundTrip net (DebuggingRT rt) = debugging_RoundTrip net (RoundTrip net rt)"
| "RoundTrip net (BasicAuthRT username password rt) = basicAuth_RoundTrip username password (RoundTrip net rt)"
| "RoundTrip net (BearerAuthRT bearer rt) = bearerAuth_RoundTrip bearer (RoundTrip net rt)"
| "RoundTrip net (AwsAuthRT headerPayload rt) = awsAuth_RoundTrip headerPayload (RoundTrip net rt)"
| "RoundTrip net (KubeDebuggingRT traceId0 verbose rt) = kubeDebugging_RoundTrip net traceId0 verbose (RoundTrip net rt)"

lemmas rt_layers = transport_RoundTrip_def traceId_RoundTrip_def debugging_RoundTrip_def basicAuth_RoundTrip_def bearerAuth_RoundTrip_def
  awsAuth_RoundTrip_def kubeDebugging_RoundTrip_def

section \<open>Transport of an endpoint\<close>

definition defaultTransport :: "'c http_transport" where
  "defaultTransport = \<lparr>tr_Proxy = ProxyFromEnvironment, tr_DialTimeout = 30 * 1000000000, tr_DialKeepAlive = 30 * 1000000000,
     tr_ForceAttemptHTTP2 = True, tr_MaxIdleConns = 100, tr_IdleConnTimeout = 90 * 1000000000,
     tr_TLSHandshakeTimeout = 10 * 1000000000, tr_ExpectContinueTimeout = 1000000000, tr_TLSClientConfig = None\<rparr>"

definition parseProxyURL :: "('w, 'c) net \<Rightarrow> string \<Rightarrow> string + string" where
  "parseProxyURL net proxyURL =
     (case nt_urlScheme net proxyURL of
        None \<Rightarrow> Inl (''could not parse: '' @ proxyURL)
      | Some scheme \<Rightarrow>
          if scheme \<in> {''http'', ''https'', ''socks5''} then Inr proxyURL
          else Inl (''unsupported scheme '' @ nt_quote net scheme @ '', must be http, https, or socks5''))"

definition tlsConfigFor :: "('w, 'c) net \<Rightarrow> endpoint \<Rightarrow> string + 'c http_transport" where
  "tlsConfigFor net ep =
     (let res0 = (if ep_Insecure ep
                  then defaultTransport\<lparr>tr_TLSClientConfig :=
                    Some \<lparr>tls_InsecureSkipVerify = True, tls_RootCAs = None, tls_Certificates = []\<rparr>\<rparr>
                  else defaultTransport)
      in case (if ep_ProxyURL ep \<noteq> [] then map_sum id (\<lambda>u. res0\<lparr>tr_Proxy := ProxyURL u\<rparr>) (parseProxyURL net (ep_ProxyURL ep)) else Inr res0) of
           Inl err \<Rightarrow> Inl err
         | Inr res \<Rightarrow>
             if \<not> HasCertAuth ep then Inr res
             else case std_decode (ep_ClientCertificateData ep) of
                    None \<Rightarrow> Inl ''unable to decode client certificate data''
                  | Some certData \<Rightarrow>
                      (case std_decode (ep_ClientKeyData ep) of
                         None \<Rightarrow> Inl ''unable to decode client key data''
                       | Some keyData \<Rightarrow>
                           (case nt_keyPair net certData keyData of
                              Inl err \<Rightarrow> Inl err
                            | Inr cert \<Rightarrow>
                                (case (if ep_CertificateAuthorityData ep \<noteq> []
                                       then map_option (\<lambda>ca. [ca]) (std_decode (ep_CertificateAuthorityData ep)) else Some []) of
                                   None \<Rightarrow> Inl ''unable to decode certificate authority data''
                                 | Some pool \<Rightarrow>
                                     Inr (res\<lparr>tr_TLSClientConfig :=
                                       Some \<lparr>tls_InsecureSkipVerify = False, tls_RootCAs = Some pool, tls_Certificates = [cert]\<rparr>\<rparr>)))))"

section \<open>Signatures for AWS\<close>

record request_info =
  ri_Path :: string
  ri_Verb :: "string option"
  ri_Headers :: "string list"
  ri_Payload :: "string option"

text \<open>\<open>time.Time.Format\<close> in UTC: the civil date of a day counted from 1970, and digits padded with zeros.\<close>

definition civil_date :: "int \<Rightarrow> int \<times> int \<times> int" where
  "civil_date days =
     (let z = days + 719468; era = z div 146097; doe = z mod 146097;
          yoe = (doe - doe div 1460 + doe div 36524 - doe div 146096) div 365;
          doy = doe - (365 * yoe + yoe div 4 - yoe div 100); mp = (5 * doy + 2) div 153;
          d = doy - (153 * mp + 2) div 5 + 1; m = (if mp < 10 then mp + 3 else mp - 9);
          y = yoe + era * 400 + (if m \<le> 2 then 1 else 0)
      in (y, m, d))"

definition pad :: "nat \<Rightarrow> int \<Rightarrow> string" where
  "pad n v = (let s = Itoa v in replicate (n - length s) (CHR ''0'') @ s)"

definition format_date :: "instant \<Rightarrow> string" where
  "format_date t = (case civil_date (t div 86400000000000) of (y, m, d) \<Rightarrow> pad 4 y @ pad 2 m @ pad 2 d)"

definition format_stamp :: "instant \<Rightarrow> string" where
  "format_stamp t =
     (let s = (t mod 86400000000000) div 1000000000
      in format_date t @ ''T'' @ pad 2 (s div 3600) @ pad 2 (s div 60 mod 60) @ pad 2 (s mod 60) @ ''Z'')"

definition hex_bytes :: "string \<Rightarrow> string" where
  "hex_bytes bs = concat (map (\<lambda>c. [''0123456789abcdef'' ! (of_char c div 16), ''0123456789abcdef'' ! (of_char c mod 16)]) bs)"

record aws_headers =
  ah_headers :: "string list"
  ah_dateStamp :: string
  ah_amzDate :: string
  ah_host :: string
  ah_canonicalURI :: string
  ah_payloadHash :: string

text \<open>An address that does not parse gives a nil pointer, whose host panics: \<open>None\<close>.\<close>

definition ComputeAwsHeaders ::
  "('w, 'c) net \<Rightarrow> endpoint \<Rightarrow> request_info \<Rightarrow> 'w \<Rightarrow> 'w \<times> aws_headers option" where
  "ComputeAwsHeaders net ep ex w =
     (let (w1, dateStamp, amzDate) =
            (if ep_AwsTime ep \<noteq> []
             then (w, ep_AwsTime ep, if length (ep_AwsTime ep) = 8 then ep_AwsTime ep @ ''T000000Z'' else ep_AwsTime ep)
             else let (w1, t) = nt_now net w in (w1, format_date t, format_stamp t))
      in case nt_urlHost net (ep_ServerURL ep) of
           None \<Rightarrow> (w1, None)
         | Some h \<Rightarrow>
             (let host = (if h = [] then ''localhost'' else h);
                  canonicalURI = (if ri_Path ex = [] then ''/'' else ri_Path ex);
                  payloadHash = hex_bytes (nt_sha256 net (case ri_Payload ex of Some p \<Rightarrow> p | None \<Rightarrow> []))
              in (w1, Some \<lparr>ah_headers = [''host:'' @ host, ''x-amz-content-sha256:'' @ payloadHash, ''x-amz-date:'' @ amzDate],
                    ah_dateStamp = dateStamp, ah_amzDate = amzDate, ah_host = host, ah_canonicalURI = canonicalURI,
                    ah_payloadHash = payloadHash\<rparr>)))"

definition Trim :: "char \<Rightarrow> string \<Rightarrow> string" where
  "Trim c s = TrimRight c (dropWhile (\<lambda>x. x = c) s)"

text \<open>The first two parts of a header line; a line without a colon has no second part, the panic \<open>None\<close>.\<close>

definition header_parts :: "string \<Rightarrow> (string \<times> string) option" where
  "header_parts v =
     (case Split v (CHR '':'') of
        a # b # rest \<Rightarrow> Some (Trim (CHR '' '') a, Trim (CHR '' '') b)
      | _ \<Rightarrow> None)"

fun header_map :: "string list \<Rightarrow> (string, string) gomap \<Rightarrow> (string, string) gomap option" where
  "header_map [] headers = Some headers"
| "header_map (v # vs) headers =
     (case header_parts v of None \<Rightarrow> None | Some (k, x) \<Rightarrow> header_map vs (AList.update k x headers))"

definition aws_newline :: string where
  "aws_newline = [CHR 0x0A]"

text \<open>Canonical request, string to sign and signing key, from the sorted names and their values.\<close>

definition canonical_request :: "string \<Rightarrow> aws_headers \<Rightarrow> string list \<Rightarrow> (string, string) gomap \<Rightarrow> string" where
  "canonical_request method a headerKeys headers =
     method @ aws_newline @ ah_canonicalURI a @ aws_newline @ [] @ aws_newline @
     concat (map (\<lambda>k. k @ '':'' @ (case map_of headers k of Some v \<Rightarrow> v | None \<Rightarrow> []) @ aws_newline) headerKeys) @ aws_newline @
     Join headerKeys '';'' @ aws_newline @ ah_payloadHash a"

definition credential_scope :: "endpoint \<Rightarrow> aws_headers \<Rightarrow> string" where
  "credential_scope ep a = ah_dateStamp a @ ''/'' @ ep_AwsRegion ep @ ''/'' @ ep_AwsService ep @ ''/aws4_request''"

definition string_to_sign :: "('w, 'c) net \<Rightarrow> endpoint \<Rightarrow> aws_headers \<Rightarrow> string \<Rightarrow> string" where
  "string_to_sign net ep a canonicalRequest =
     ''AWS4-HMAC-SHA256'' @ aws_newline @ ah_amzDate a @ aws_newline @ credential_scope ep a @ aws_newline @
     hex_bytes (nt_sha256 net canonicalRequest)"

definition signing_key :: "('w, 'c) net \<Rightarrow> endpoint \<Rightarrow> aws_headers \<Rightarrow> string" where
  "signing_key net ep a =
     nt_hmac net (nt_hmac net (nt_hmac net (nt_hmac net (''AWS4'' @ ep_AwsSecretKey ep) (ah_dateStamp a)) (ep_AwsRegion ep))
       (ep_AwsService ep)) ''aws4_request''"

definition ComputeAwsSignature ::
  "('w, 'c) net \<Rightarrow> endpoint \<Rightarrow> request_info \<Rightarrow> 'w \<Rightarrow> 'w \<times> string option" where
  "ComputeAwsSignature net ep ex w =
     (case ComputeAwsHeaders net ep ex w of
        (w1, None) \<Rightarrow> (w1, None)
      | (w1, Some a) \<Rightarrow>
          (case header_map (ri_Headers ex) [] of
             None \<Rightarrow> (w1, None)
           | Some headers \<Rightarrow>
               (case ri_Verb ex of
                  None \<Rightarrow> (w1, None)
                | Some method \<Rightarrow>
                    (let headerKeys = sort (map fst headers);
                         stringToSign = string_to_sign net ep a (canonical_request method a headerKeys headers);
                         signatureHex = hex_bytes (nt_hmac net (signing_key net ep a) stringToSign)
                     in (w1, Some (''AWS4-HMAC-SHA256 '' @ ''Credential='' @ ep_AwsAccessKey ep @ ''/'' @ credential_scope ep a @ '','' @
                          ''SignedHeaders='' @ Join headerKeys '';'' @ '','' @ ''Signature='' @ signatureHex))))))"

section \<open>Client of an endpoint\<close>

datatype 'c client_out = ClientPanic | ClientErr string | Client "'c round_tripper"

definition count_auth :: "endpoint \<Rightarrow> nat" where
  "count_auth ep = (if HasBasicAuth ep then 1 else 0) + (if HasTokenAuth ep then 1 else 0) + (if HasAwsAuth ep then 1 else 0)"

text \<open>When the transport cannot be made the code returns a client with the default transport beside the error.\<close>

definition HTTPClientForEndpoint ::
  "('w, 'c) net \<Rightarrow> endpoint \<Rightarrow> request_info option \<Rightarrow> 'w \<Rightarrow> 'w \<times> 'c client_out" where
  "HTTPClientForEndpoint net ep ex w =
     (case tlsConfigFor net ep of
        Inl err \<Rightarrow> (w, ClientErr err)
      | Inr t \<Rightarrow>
          (let rt0 = TraceIdRT (BaseTransport t); rt = (if ep_Debug ep then DebuggingRT rt0 else rt0) in
           if count_auth ep > 1 then (w, ClientErr ''only one of username/password, bearer token and AWS must be set'')
           else if HasTokenAuth ep then (w, Client (BearerAuthRT (ep_Token ep) rt))
           else if HasBasicAuth ep then (w, Client (BasicAuthRT (ep_Username ep) (ep_Password ep) rt))
           else if HasAwsAuth ep
           then (case ex of
                   None \<Rightarrow> (w, ClientErr ''extra request options required for AWS authentication'')
                 | Some x \<Rightarrow>
                     (case ComputeAwsSignature net ep x w of
                        (w1, None) \<Rightarrow> (w1, ClientPanic)
                      | (w1, Some payload) \<Rightarrow> (w1, Client (AwsAuthRT payload rt))))
           else (w, Client rt)))"

text \<open>
  \<open>http.Client.Do\<close> on a round tripper: credentials of the URL become a header, and redirects are followed until ten
  requests were made.
\<close>

fun client_send :: "('w, 'c) net \<Rightarrow> 'c round_tripper \<Rightarrow> nat \<Rightarrow> wire_request \<Rightarrow> wire_request \<Rightarrow> 'w \<Rightarrow> 'w \<times> string \<times> rt_out" where
  "client_send net rt budget first req w =
     (let req1 = (case nt_urlAuth net (wq_URL req) of
                    Some a \<Rightarrow> if header_Get (wq_Header req) ''Authorization'' = [] then set_header ''Authorization'' a req else req
                  | None \<Rightarrow> req)
      in case RoundTrip net rt req1 w of
           (w1, rest, RtOk resp) \<Rightarrow>
             (case nt_redirect net first req resp of
                None \<Rightarrow> (w1, rest, RtOk resp)
              | Some (Inl err) \<Rightarrow> (w1, rest, RtErr err)
              | Some (Inr next) \<Rightarrow>
                  (case budget of
                     0 \<Rightarrow> (w1, rest, RtErr ''stopped after 10 redirects'')
                   | Suc b \<Rightarrow> (case client_send net rt b first next w1 of (w2, rest2, r) \<Rightarrow> (w2, rest, r))))
         | out \<Rightarrow> out)"

declare client_send.simps [simp del]

definition client_Do :: "('w, 'c) net \<Rightarrow> 'c round_tripper \<Rightarrow> wire_request \<Rightarrow> 'w \<Rightarrow> 'w \<times> string \<times> rt_out" where
  "client_Do net rt req w = client_send net rt 9 req req w"

section \<open>Doing a request\<close>

record 'w request_options =
  ro_Info :: request_info
  ro_Endpoint :: endpoint
  ro_ResponseHandler :: "(string \<times> string option \<Rightarrow> 'w \<Rightarrow> 'w \<times> string option) option"
  ro_ErrorKey :: string
  ro_ContinueOnError :: bool

text \<open>
  The attempts of the retrying client on one request: its copies share the reader of the body, so that an attempt
  finds what the attempts before it left.
\<close>

primrec before_attempt :: "('w, 'c) net \<Rightarrow> 'c round_tripper \<Rightarrow> wire_request \<Rightarrow> 'w \<Rightarrow> nat \<Rightarrow> 'w \<times> string" where
  "before_attempt net rt call w 0 = (w, wq_Body call)"
| "before_attempt net rt call w (Suc n) =
     (case before_attempt net rt call w n of
        (w1, body) \<Rightarrow> (case client_Do net rt (call\<lparr>wq_Body := body\<rparr>) w1 of (w2, rest, r) \<Rightarrow> (w2, rest)))"

definition attempt_answer :: "('w, 'c) net \<Rightarrow> 'c round_tripper \<Rightarrow> wire_request \<Rightarrow> 'w \<Rightarrow> nat \<Rightarrow> rt_out" where
  "attempt_answer net rt call w n =
     (case before_attempt net rt call w n of
        (w1, body) \<Rightarrow> snd (snd (client_Do net rt (call\<lparr>wq_Body := body\<rparr>) w1)))"

definition retry_view :: "rt_out \<Rightarrow> string + http_reply" where
  "retry_view r =
     (case r of
        RtOk resp \<Rightarrow> Inr \<lparr>hr_StatusCode = wp_StatusCode resp, hr_Header = wp_Header resp\<rparr>
      | RtErr e \<Rightarrow> Inl e
      | RtPanic \<Rightarrow> Inl [])"

datatype retried = RetryPanic | RetryErr rerr | RetryOk wire_reply

text \<open>
  The retrying client on the attempts.  A panic in an attempt that is made ends the call; without an error the reply is
  that of the last attempt.
\<close>

definition retry_client_Do ::
  "RetryClient \<Rightarrow> retry_env \<Rightarrow> ('w, 'c) net \<Rightarrow> 'c round_tripper \<Rightarrow> wire_request \<Rightarrow> 'w \<Rightarrow> 'w \<times> retried" where
  "retry_client_Do rc renv net rt call w =
     (case retry_Do rc (renv\<lparr>re_answer := retry_view \<circ> attempt_answer net rt call w\<rparr>) (wq_Method call)
             \<lparr>rs_sent = 0, rs_sleeps = []\<rparr> of
        (st, out) \<Rightarrow>
          (let w1 = fst (before_attempt net rt call w (rs_sent st)) in
           if list_ex (\<lambda>n. attempt_answer net rt call w n = RtPanic) [0..<rs_sent st] then (w1, RetryPanic)
           else case out of
                  Done resp (Some err) \<Rightarrow> (w1, RetryErr err)
                | Done (Some resp) None \<Rightarrow>
                    (case attempt_answer net rt call w (rs_sent st - 1) of
                       RtOk r \<Rightarrow> (w1, RetryOk r) | _ \<Rightarrow> (w1, RetryPanic))
                | _ \<Rightarrow> (w1, RetryPanic)))"

definition rerr_text :: "rerr \<Rightarrow> string" where
  "rerr_text e =
     (case e of
        NetErr m \<Rightarrow> m | CtxErr m \<Rightarrow> m | LimitErr m \<Rightarrow> m
      | TooManyRetries \<Rightarrow> ''too many retries after 429 Too Many Requests''
      | ServerError n c \<Rightarrow> ''server error after '' @ Itoa n @ '' retries: '' @ Itoa c)"

definition request_uri :: "string \<Rightarrow> string \<Rightarrow> string" where
  "request_uri serverURL path =
     (let uri = TrimSuffix serverURL ''/'' in if path \<noteq> [] then uri @ ''/'' @ TrimPrefix path ''/'' else uri)"

definition aws_line :: "string \<Rightarrow> string option" where
  "aws_line h = map_option (\<lambda>(k, v). ToLower k @ '':'' @ v) (header_parts h)"

definition those_lines :: "string option list \<Rightarrow> string list option" where
  "those_lines xs = (if None \<in> set xs then None else Some (map the xs))"

text \<open>The header lines of the request and the request with its trace header; \<open>None\<close> is a panic.\<close>

definition prepare_headers ::
  "('w, 'c) net \<Rightarrow> endpoint \<Rightarrow> request_info \<Rightarrow> wire_request \<Rightarrow> 'w \<Rightarrow> 'w \<times> (string list \<times> wire_request) option" where
  "prepare_headers net ep ex call w =
     (if HasAwsAuth ep
      then case ComputeAwsHeaders net ep ex w of
             (w1, None) \<Rightarrow> (w1, None)
           | (w1, Some a) \<Rightarrow>
               (case context_TraceId (nt_generate net) True (wq_ctx call) w1 of
                  (w2, None) \<Rightarrow> (w2, None)
                | (w2, Some traceId) \<Rightarrow>
                    (w2, map_option (\<lambda>ls. (sort ls, call))
                       (those_lines (map aws_line (ri_Headers ex @ ah_headers a @ [''X-Krateo-TraceId:'' @ traceId])))))
      else case context_TraceId (nt_generate net) True (wq_ctx call) w of
             (w1, None) \<Rightarrow> (w1, None)
           | (w1, Some traceId) \<Rightarrow> (w1, Some (ri_Headers ex, set_header ''X-Krateo-TraceId'' traceId call)))"

definition add_line :: "string \<Rightarrow> wire_request \<Rightarrow> wire_request" where
  "add_line el call =
     (case IndexByte el (CHR '':'') of
        None \<Rightarrow> call
      | Some idx \<Rightarrow> if idx = 0 then call else set_header (take idx el) (TrimSpace (drop (idx + 1) el)) call)"

definition status_error :: "int \<Rightarrow> string \<Rightarrow> status" where
  "status_error code m = status_New code (Some (HText m))"

text \<open>What is reported of a reply.\<close>

definition report_reply ::
  "('w, 'c) net \<Rightarrow> (string \<times> string option \<Rightarrow> 'w \<Rightarrow> 'w \<times> string option) option \<Rightarrow> wire_reply \<Rightarrow> 'w \<Rightarrow> 'w \<times> status" where
  "report_reply net handler respo w =
     (if \<not> (200 \<le> wp_StatusCode respo \<and> wp_StatusCode respo < 300)
      then let (bytes, err) = wp_Body respo; dat = take 2048 bytes in
           case (if length bytes < 2048 then err else None) of
             Some e \<Rightarrow> (w, status_error 500 e)
           | None \<Rightarrow>
               (case nt_unmarshalStatus net dat of
                  None \<Rightarrow> (w, status_error (wp_StatusCode respo) dat)
                | Some res \<Rightarrow> (w, res))
      else let ct = header_Get (wp_Header respo) ''Content-Type'' in
           if \<not> Contains ct ''json'' then (w, status_error 406 (''content type '' @ nt_quote net ct @ '' is not allowed''))
           else case handler of
                  Some f \<Rightarrow>
                    (case f (wp_Body respo) w of
                       (w1, Some e) \<Rightarrow> (w1, status_error 500 e)
                     | (w1, None) \<Rightarrow> (w1, status_New 200 None))
                | None \<Rightarrow> (w, status_New 204 None))"

definition request_Do ::
  "('w, 'c) net \<Rightarrow> RetryClient \<Rightarrow> retry_env \<Rightarrow> ctx \<Rightarrow> 'w request_options \<Rightarrow> 'w \<Rightarrow> 'w \<times> status option" where
  "request_Do net rc renv cx opts w =
     (let ep = ro_Endpoint opts; ex = ro_Info opts in
      case nt_urlParse net (request_uri (ep_ServerURL ep) (ri_Path ex)) of
        Inl err \<Rightarrow> (w, Some (status_error 500 err))
      | Inr u \<Rightarrow>
          (let verb = (case ri_Verb ex of Some v \<Rightarrow> v | None \<Rightarrow> ''GET'') in
           case nt_newRequest net verb u of
             Some err \<Rightarrow> (w, Some (status_error 500 err))
           | None \<Rightarrow>
               (case prepare_headers net ep ex
                       \<lparr>wq_Method = (if verb = [] then ''GET'' else verb), wq_URL = u, wq_Header = [], wq_Body = (case ri_Payload ex of Some p \<Rightarrow> p | None \<Rightarrow> []), wq_ctx = cx\<rparr> w of
                  (w1, None) \<Rightarrow> (w1, None)
                | (w1, Some (lines, call0)) \<Rightarrow>
                    (let call = fold add_line lines call0 in
                     case HTTPClientForEndpoint net ep (Some (ex\<lparr>ri_Headers := lines\<rparr>)) w1 of
                       (w2, ClientPanic) \<Rightarrow> (w2, None)
                     | (w2, ClientErr err) \<Rightarrow>
                         (w2, Some (status_New 500 (Some (HWrap ''unable to create HTTP Client for endpoint: '' (HText err)))))
                     | (w2, Client rt) \<Rightarrow>
                         (case retry_client_Do rc renv net rt call w2 of
                            (w3, RetryPanic) \<Rightarrow> (w3, None)
                          | (w3, RetryErr err) \<Rightarrow> (w3, Some (status_error 500 (rerr_text err)))
                          | (w3, RetryOk respo) \<Rightarrow>
                              (case report_reply net (ro_ResponseHandler opts) respo w3 of (w4, s) \<Rightarrow> (w4, Some s)))))))"

section \<open>Headers\<close>

lemma header_Get_Set: "header_Get (header_Set h k v) k' = (if CanonicalHeaderKey k' = CanonicalHeaderKey k then v else header_Get h k')"
  by (simp add: header_Get_def header_Set_def)

lemma authorization_key: "CanonicalHeaderKey ''Authorization'' \<noteq> CanonicalHeaderKey ''X-Krateo-TraceId''"
  by code_simp

lemma fold_update_lookup:
  "map_of (fold (\<lambda>(k, v) out. AList.update k v out) m out) k = (case map_of (rev m) k of Some v \<Rightarrow> Some v | None \<Rightarrow> map_of out k)"
  by (induction m arbitrary: out) (auto simp: map_of_append map_add_def split: option.split)

text \<open>A copy of the headers has the same values.\<close>

lemma cloneHeader_lookup: "gomap_ok h \<Longrightarrow> map_of (cloneHeader h) k = map_of h k"
  unfolding cloneHeader_def fold_update_lookup using map_of_inject_set [of "rev h" h]
  by (simp add: rev_map [symmetric] split: option.split)

definition has_credentials :: "wire_request \<Rightarrow> bool" where
  "has_credentials r = (header_Get (wq_Header r) ''Authorization'' \<noteq> [])"

lemma credentials_kept [simp]: "has_credentials (set_header ''X-Krateo-TraceId'' t r) = has_credentials r"
  using authorization_key by (simp add: has_credentials_def set_header_def header_Get_Set)

lemma credentials_set [simp]: "has_credentials (set_header ''Authorization'' v r) = (v \<noteq> [])"
  by (simp add: has_credentials_def set_header_def header_Get_Set)

section \<open>Credentials on the wire\<close>

text \<open>Two networks that answer alike every request with credentials.\<close>

definition agree_on_credentials :: "('w, 'c) net \<Rightarrow> ('c http_transport \<Rightarrow> wire_request \<Rightarrow> 'w \<Rightarrow> 'w \<times> string \<times> (string + wire_reply)) \<Rightarrow> bool" where
  "agree_on_credentials net send \<longleftrightarrow> (\<forall>t r w. has_credentials r \<longrightarrow> send t r w = nt_send net t r w)"

text \<open>A request with credentials keeps them through every round tripper.\<close>

lemma RoundTrip_agree:
  "agree_on_credentials net send \<Longrightarrow> has_credentials req \<Longrightarrow> RoundTrip (net\<lparr>nt_send := send\<rparr>) rt req w = RoundTrip net rt req w"
proof (induction rt arbitrary: req w)
  case (BaseTransport t)
  then show ?case by (simp add: agree_on_credentials_def rt_layers)
next
  case (TraceIdRT rt)
  then show ?case by (simp add: Let_def rt_layers split: prod.split option.split)
next
  case (KubeDebuggingRT t v rt)
  define req1 where "req1 = set_header ''X-Krateo-TraceId''
    (if header_Get (wq_Header req) ''X-Krateo-TraceId'' = [] then t else header_Get (wq_Header req) ''X-Krateo-TraceId'') req"
  have "RoundTrip (net\<lparr>nt_send := send\<rparr>) rt req1 w = RoundTrip net rt req1 w"
    using KubeDebuggingRT by (simp add: req1_def)
  then show ?case
    unfolding RoundTrip.simps rt_layers Let_def req1_def [symmetric] by (simp cong: option.case_cong prod.case_cong rt_out.case_cong)
qed (simp_all add: has_credentials_def rt_layers cong: option.case_cong prod.case_cong rt_out.case_cong)

definition authenticating :: "'c round_tripper \<Rightarrow> bool" where
  "authenticating rt = (case rt of BasicAuthRT u p r \<Rightarrow> True | BearerAuthRT b r \<Rightarrow> True | AwsAuthRT a r \<Rightarrow> a \<noteq> [] | _ \<Rightarrow> False)"

lemma authenticating_agree:
  assumes "agree_on_credentials net send" and "authenticating rt"
  shows "RoundTrip (net\<lparr>nt_send := send\<rparr>) rt req w = RoundTrip net rt req w"
proof (cases "has_credentials req")
  case True
  then show ?thesis by (rule RoundTrip_agree [OF assms(1)])
next
  case False
  with assms(2) show ?thesis
    by (cases rt) (simp_all add: authenticating_def rt_layers has_credentials_def [symmetric] SetBasicAuth_def RoundTrip_agree [OF assms(1)])
qed

lemma client_send_agree:
  assumes "agree_on_credentials net send" and "authenticating rt"
  shows "client_send (net\<lparr>nt_send := send\<rparr>) rt budget first req w = client_send net rt budget first req w"
proof (induction budget arbitrary: req w)
  case 0
  show ?case
    by (subst (1 2) client_send.simps)
      (simp add: authenticating_agree [OF assms] cong: prod.case_cong rt_out.case_cong option.case_cong sum.case_cong)
next
  case (Suc b)
  show ?case
    by (subst (1 2) client_send.simps) (simp add: authenticating_agree [OF assms] Suc.IH cong: prod.case_cong rt_out.case_cong option.case_cong sum.case_cong)
qed

lemma before_attempt_agree:
  assumes "agree_on_credentials net send" and "authenticating rt"
  shows "before_attempt (net\<lparr>nt_send := send\<rparr>) rt call w n = before_attempt net rt call w n"
  by (induction n) (simp_all add: client_Do_def client_send_agree [OF assms])

lemma retry_client_agree:
  assumes "agree_on_credentials net send" and "authenticating rt"
  shows "retry_client_Do rc renv (net\<lparr>nt_send := send\<rparr>) rt call w = retry_client_Do rc renv net rt call w"
proof -
  have "attempt_answer (net\<lparr>nt_send := send\<rparr>) rt call w = attempt_answer net rt call w"
    by (rule ext) (simp add: attempt_answer_def before_attempt_agree [OF assms] client_Do_def client_send_agree [OF assms])
  note answers = this
  show ?thesis unfolding retry_client_Do_def answers before_attempt_agree [OF assms] by simp
qed

text \<open>What a client is made of does not depend on how the network sends.\<close>

lemma nt_send_update:
  "nt_generate (net\<lparr>nt_send := send\<rparr>) = nt_generate net"
  "nt_dumpRequest (net\<lparr>nt_send := send\<rparr>) = nt_dumpRequest net"
  "nt_dumpResponse (net\<lparr>nt_send := send\<rparr>) = nt_dumpResponse net"
  "nt_watch (net\<lparr>nt_send := send\<rparr>) = nt_watch net"
  "nt_urlAuth (net\<lparr>nt_send := send\<rparr>) = nt_urlAuth net"
  "nt_redirect (net\<lparr>nt_send := send\<rparr>) = nt_redirect net"
  "nt_urlParse (net\<lparr>nt_send := send\<rparr>) = nt_urlParse net"
  "nt_urlScheme (net\<lparr>nt_send := send\<rparr>) = nt_urlScheme net"
  "nt_urlHost (net\<lparr>nt_send := send\<rparr>) = nt_urlHost net"
  "nt_newRequest (net\<lparr>nt_send := send\<rparr>) = nt_newRequest net"
  "nt_keyPair (net\<lparr>nt_send := send\<rparr>) = nt_keyPair net"
  "nt_unmarshalStatus (net\<lparr>nt_send := send\<rparr>) = nt_unmarshalStatus net"
  "nt_mediaType (net\<lparr>nt_send := send\<rparr>) = nt_mediaType net"
  "nt_now (net\<lparr>nt_send := send\<rparr>) = nt_now net"
  "nt_sha256 (net\<lparr>nt_send := send\<rparr>) = nt_sha256 net"
  "nt_hmac (net\<lparr>nt_send := send\<rparr>) = nt_hmac net"
  "nt_quote (net\<lparr>nt_send := send\<rparr>) = nt_quote net"
  by simp_all

lemma client_independent:
  "tlsConfigFor (net\<lparr>nt_send := send\<rparr>) ep = tlsConfigFor net ep"
  "ComputeAwsHeaders (net\<lparr>nt_send := send\<rparr>) ep ex w = ComputeAwsHeaders net ep ex w"
  "ComputeAwsSignature (net\<lparr>nt_send := send\<rparr>) ep ex w = ComputeAwsSignature net ep ex w"
  "HTTPClientForEndpoint (net\<lparr>nt_send := send\<rparr>) ep x w = HTTPClientForEndpoint net ep x w"
  "prepare_headers (net\<lparr>nt_send := send\<rparr>) ep ex call w = prepare_headers net ep ex call w"
  "report_reply (net\<lparr>nt_send := send\<rparr>) handler respo w = report_reply net handler respo w"
  unfolding HTTPClientForEndpoint_def prepare_headers_def ComputeAwsSignature_def ComputeAwsHeaders_def string_to_sign_def
    signing_key_def tlsConfigFor_def parseProxyURL_def report_reply_def nt_send_update by (rule refl)+

lemma client_authenticates:
  assumes "HTTPClientForEndpoint net ep x w = (w', Client rt)" and "HasTokenAuth ep \<or> HasBasicAuth ep \<or> HasAwsAuth ep"
  shows "authenticating rt"
  using assms
  by (auto simp: HTTPClientForEndpoint_def authenticating_def ComputeAwsSignature_def Let_def
      split: sum.splits if_splits option.splits prod.splits)

text \<open>
  C9: No request goes out without credentials.  When the endpoint has a token, a password or AWS keys, \<open>Do\<close> behaves the
  same on two networks that differ only in what they do with requests without an \<open>Authorization\<close> header: no
  attempt, no retry and no redirect sends one.
\<close>

theorem request_Do_authenticated:
  assumes "HasTokenAuth (ro_Endpoint opts) \<or> HasBasicAuth (ro_Endpoint opts) \<or> HasAwsAuth (ro_Endpoint opts)"
    and "agree_on_credentials net send"
  shows "request_Do (net\<lparr>nt_send := send\<rparr>) rc renv cx opts w = request_Do net rc renv cx opts w"
proof -
  have "retry_client_Do rc renv (net\<lparr>nt_send := send\<rparr>) rt call w2 = retry_client_Do rc renv net rt call w2"
    if "HTTPClientForEndpoint net (ro_Endpoint opts) x w1 = (w2, Client rt)" for x w1 w2 rt call
    using retry_client_agree [OF assms(2) client_authenticates [OF that assms(1)]] .
  then show ?thesis
    unfolding request_Do_def client_independent nt_send_update Let_def
    by (auto simp del: if_split split: sum.split option.split prod.split client_out.split)
qed

text \<open>
  An example network.  Its state is the list of what was sent: address, \<open>Authorization\<close> and body.  It reads every body, answers
  \<open>https://old\<close> with a redirect to \<open>https://evil\<close>, for which \<open>net/http\<close> drops the \<open>Authorization\<close> header, \<open>https://busy\<close> with 503 and
  everything else with JSON.
\<close>

type_synonym wire_log = "(string \<times> string \<times> string) list"

definition sample_reply :: "int \<Rightarrow> header \<Rightarrow> wire_reply" where
  "sample_reply code h = \<lparr>wp_StatusCode = code, wp_Header = h, wp_Body = (''{}'', None)\<rparr>"

definition example_send :: "unit http_transport \<Rightarrow> wire_request \<Rightarrow> wire_log \<Rightarrow> wire_log \<times> string \<times> (string + wire_reply)" where
  "example_send t r w =
     (w @ [(wq_URL r, header_Get (wq_Header r) ''Authorization'', wq_Body r)], [],
      Inr (if wq_URL r = ''https://old'' then sample_reply 302 [(''Location'', [''https://evil''])]
           else if wq_URL r = ''https://busy'' then sample_reply 503 []
           else sample_reply 200 [(''Content-Type'', [''application/json''])]))"

definition example_net :: "(wire_log, unit) net" where
  "example_net = \<lparr>nt_send = example_send, nt_generate = (\<lambda>w. (w, Some ''id'')), nt_dumpRequest = (\<lambda>b r. None), nt_dumpResponse = (\<lambda>b r. None),
     nt_watch = (\<lambda>u. False), nt_urlAuth = (\<lambda>u. None),
     nt_redirect = (\<lambda>first r p. case header_Get (wp_Header p) ''Location'' of
        [] \<Rightarrow> None | l \<Rightarrow> Some (Inr (r\<lparr>wq_URL := l, wq_Header := AList.delete ''Authorization'' (wq_Header first)\<rparr>))),
     nt_urlParse = Inr, nt_urlScheme = (\<lambda>u. Some ''https''), nt_urlHost = (\<lambda>u. Some (drop 8 u)), nt_newRequest = (\<lambda>v u. None),
     nt_keyPair = (\<lambda>c k. Inr ()), nt_unmarshalStatus = (\<lambda>b. None), nt_mediaType = Some, nt_now = (\<lambda>w. (w, 0)),
     nt_sha256 = id, nt_hmac = (\<lambda>k d. k), nt_quote = id\<rparr>"

definition calm_env :: retry_env where
  "calm_env = \<lparr>re_answer = (\<lambda>n. Inl []), re_interrupted = (\<lambda>n. None), re_random = (\<lambda>n m. 0), re_limit = None, re_parseTime = (\<lambda>s. None), re_now = 0\<rparr>"

definition one_retry :: RetryClient where
  "one_retry = \<lparr>rc_MaxRetries = 1, rc_BaseBackoff = 500000000, rc_MaxBackoff = 10000000000, rc_Limiter = True\<rparr>"

definition to_endpoint :: "endpoint \<Rightarrow> string option \<Rightarrow> string list \<Rightarrow> string option \<Rightarrow> wire_log request_options" where
  "to_endpoint ep verb hs payload = \<lparr>ro_Info = \<lparr>ri_Path = [], ri_Verb = verb, ri_Headers = hs, ri_Payload = payload\<rparr>, ro_Endpoint = ep,
     ro_ResponseHandler = None, ro_ErrorKey = [], ro_ContinueOnError = False\<rparr>"

definition token_endpoint :: "string \<Rightarrow> endpoint" where
  "token_endpoint url = zero_endpoint\<lparr>ep_ServerURL := url, ep_Token := ''secret''\<rparr>"

definition bare_refused :: "unit http_transport \<Rightarrow> wire_request \<Rightarrow> wire_log \<Rightarrow> wire_log \<times> string \<times> (string + wire_reply)" where
  "bare_refused t r w = (if has_credentials r then example_send t r w else (w, wq_Body r, Inl ''no credentials''))"

text \<open>The token goes to the target of a redirect as well, although \<open>net/http\<close> dropped it.\<close>

lemma redirect_keeps_token:
  "request_Do example_net one_retry calm_env background (to_endpoint (token_endpoint ''https://old'') None [] None) [] =
     ([(''https://old'', ''Bearer secret'', []), (''https://evil'', ''Bearer secret'', [])], Some (status_New 204 None))"
  by code_simp

theorem request_Do_authenticated_witness:
  "request_Do (example_net\<lparr>nt_send := bare_refused\<rparr>) one_retry calm_env background (to_endpoint (token_endpoint ''https://old'') None [] None) [] =
     ([(''https://old'', ''Bearer secret'', []), (''https://evil'', ''Bearer secret'', [])], Some (status_New 204 None))"
proof -
  have "HasTokenAuth (ro_Endpoint (to_endpoint (token_endpoint ''https://old'') None [] None))"
    by (simp add: HasTokenAuth_def to_endpoint_def token_endpoint_def)
  moreover have "agree_on_credentials example_net bare_refused"
    by (simp add: agree_on_credentials_def bare_refused_def example_net_def)
  ultimately show ?thesis using request_Do_authenticated redirect_keeps_token by metis
qed

text \<open>
  A retry sends what is left of the body: the copy that the retrying client makes of a request does not copy
  the body, so a \<open>PUT\<close> that is retried goes out without it.
\<close>

theorem retry_loses_body:
  "fst (request_Do example_net one_retry calm_env background (to_endpoint (token_endpoint ''https://busy'') (Some ''PUT'') [] (Some ''data'')) []) =
     [(''https://busy'', ''Bearer secret'', ''data''), (''https://busy'', ''Bearer secret'', [])]"
  by code_simp

definition aws_endpoint :: endpoint where
  "aws_endpoint = zero_endpoint\<lparr>ep_ServerURL := ''https://s3:9000'', ep_AwsAccessKey := ''AK'', ep_AwsSecretKey := ''SK'',
     ep_AwsRegion := ''eu'', ep_AwsService := ''s3'', ep_AwsTime := ''20240102''\<rparr>"

text \<open>For AWS a request without a verb panics, although the verb has a default, and so does a header line without a colon.\<close>

theorem aws_request_panics:
  "snd (request_Do example_net one_retry calm_env background (to_endpoint aws_endpoint None [] None) []) = None \<and>
   snd (request_Do example_net one_retry calm_env background (to_endpoint aws_endpoint (Some ''GET'') [''accept''] None) []) = None"
  by code_simp

section \<open>Transports\<close>

text \<open>An endpoint without proxy, with a certificate and an authority in base64, as \<open>signup\<close> and \<open>CACrt\<close> write them.\<close>

lemma tlsConfigFor_certificates:
  assumes "ep_ProxyURL ep = []" and "HasCertAuth ep" and "ep_ClientCertificateData ep = b64_encode crt"
    and "ep_ClientKeyData ep = b64_encode key" and "ep_CertificateAuthorityData ep = b64_encode ca" and "ca \<noteq> []"
    and "nt_keyPair net crt key = Inr pair"
  shows "tlsConfigFor net ep = Inr (defaultTransport\<lparr>tr_TLSClientConfig :=
    Some \<lparr>tls_InsecureSkipVerify = False, tls_RootCAs = Some [ca], tls_Certificates = [pair]\<rparr>\<rparr>)"
proof -
  have "b64_encode ca \<noteq> []" using assms(6) b64_decode_encode [of ca] by auto
  with assms show ?thesis by (simp add: tlsConfigFor_def std_decode_encode Let_def)
qed

text \<open>
  Without a client certificate the authority is not used, and with one the \<open>insecure\<close> flag is not: the second
  configuration replaces the first.
\<close>

theorem tlsConfigFor_drops:
  "(\<not> HasCertAuth ep \<longrightarrow> tlsConfigFor net (ep\<lparr>ep_CertificateAuthorityData := ca\<rparr>) = tlsConfigFor net ep) \<and>
   (HasCertAuth ep \<longrightarrow> tlsConfigFor net (ep\<lparr>ep_Insecure := i\<rparr>) = tlsConfigFor net ep)"
  by (cases "parseProxyURL net (ep_ProxyURL ep)") (simp_all add: tlsConfigFor_def HasCertAuth_def Let_def split: option.split sum.split)

section \<open>The signature is the documented one\<close>

text \<open>
  Signature version 4 as AWS documents it, for a request given by its method, path, query, headers, payload and time (the
  time stamp \<open>YYYYMMDDTHHMMSSZ\<close>) and the credentials: the path and the query are percent-encoded, the query and the headers are
  sorted by name, the names of headers are in lower case and their values trimmed, the payload is hashed, the date is that of the
  time stamp.
\<close>

record sigv4_input =
  sg_method :: string
  sg_path :: string
  sg_query :: "(string \<times> string) list"
  sg_headers :: "(string \<times> string) list"
  sg_payload :: string
  sg_time :: string
  sg_region :: string
  sg_service :: string
  sg_access :: string
  sg_secret :: string

definition sigv4_unreserved :: "char \<Rightarrow> bool" where
  "sigv4_unreserved c = (is_lower c \<or> is_upper c \<or> is_digit c \<or> c \<in> {CHR ''-'', CHR ''.'', CHR ''_'', CHR ''~''})"

definition uri_encode :: "(char \<Rightarrow> bool) \<Rightarrow> string \<Rightarrow> string" where
  "uri_encode keep s = concat (map (\<lambda>c. if sigv4_unreserved c \<or> keep c then [c]
     else [CHR ''%'', ''0123456789ABCDEF'' ! (of_char c div 16), ''0123456789ABCDEF'' ! (of_char c mod 16)]) s)"

definition sigv4_uri :: "sigv4_input \<Rightarrow> string" where
  "sigv4_uri i = (if sg_path i = [] then ''/'' else uri_encode (\<lambda>c. c = CHR ''/'') (sg_path i))"

definition sigv4_query :: "sigv4_input \<Rightarrow> string" where
  "sigv4_query i = Join (map (\<lambda>(k, v). uri_encode (\<lambda>c. False) k @ ''='' @ uri_encode (\<lambda>c. False) v) (sort_key fst (sg_query i))) ''&''"

definition sigv4_headers :: "sigv4_input \<Rightarrow> (string \<times> string) list" where
  "sigv4_headers i = sort_key fst (map (\<lambda>(n, v). (ToLower n, Trim (CHR '' '') v)) (sg_headers i))"

definition sigv4_scope :: "sigv4_input \<Rightarrow> string" where
  "sigv4_scope i = Join [take 8 (sg_time i), sg_region i, sg_service i, ''aws4_request''] ''/''"

definition sigv4_signed :: "sigv4_input \<Rightarrow> string" where
  "sigv4_signed i = Join (map fst (sigv4_headers i)) '';''"

definition sigv4_request :: "(string \<Rightarrow> string) \<Rightarrow> sigv4_input \<Rightarrow> string" where
  "sigv4_request sha i =
     Join [sg_method i, sigv4_uri i, sigv4_query i, concat (map (\<lambda>(n, v). n @ '':'' @ v @ aws_newline) (sigv4_headers i)),
       sigv4_signed i, hex_bytes (sha (sg_payload i))] aws_newline"

definition sigv4 :: "(string \<Rightarrow> string) \<Rightarrow> (string \<Rightarrow> string \<Rightarrow> string) \<Rightarrow> sigv4_input \<Rightarrow> string" where
  "sigv4 sha hmac i =
     (let toSign = Join [''AWS4-HMAC-SHA256'', sg_time i, sigv4_scope i, hex_bytes (sha (sigv4_request sha i))] aws_newline;
          key = foldl hmac (''AWS4'' @ sg_secret i) [take 8 (sg_time i), sg_region i, sg_service i, ''aws4_request'']
      in ''AWS4-HMAC-SHA256 Credential='' @ sg_access i @ ''/'' @ sigv4_scope i @ '',SignedHeaders='' @ sigv4_signed i @
         '',Signature='' @ hex_bytes (hmac key toSign))"

text \<open>Header lines that split into their name and value: no colon and no blank at the ends.\<close>

definition plain_part :: "string \<Rightarrow> bool" where
  "plain_part s \<longleftrightarrow> CHR '':'' \<notin> set s \<and> (s \<noteq> [] \<longrightarrow> hd s \<noteq> CHR '' '' \<and> last s \<noteq> CHR '' '')"

definition line_of :: "string \<times> string \<Rightarrow> string" where
  "line_of h = fst h @ '':'' @ snd h"

lemma Trim_plain: "plain_part s \<Longrightarrow> Trim (CHR '' '') s = s"
proof (cases s)
  case (Cons a list)
  moreover assume "plain_part s"
  ultimately have "hd s \<noteq> CHR '' ''" "hd (rev s) \<noteq> CHR '' ''"
    by (simp_all add: plain_part_def hd_rev del: rev.simps)
  then have "dropWhile (\<lambda>x. x = CHR '' '') s = s" "dropWhile (\<lambda>x. x = CHR '' '') (rev s) = rev s"
    by (simp_all add: dropWhile_eq_self_iff)
  then show ?thesis by (simp add: Trim_def TrimRight_def)
qed (simp add: Trim_def TrimRight_def)

lemma header_parts_line: "plain_part k \<Longrightarrow> plain_part v \<Longrightarrow> header_parts (line_of (k, v)) = Some (k, v)"
proof -
  assume pk: "plain_part k" and pv: "plain_part v"
  have "Split (k @ '':'' @ v) (CHR '':'') = k # Split v (CHR '':'')" if "CHR '':'' \<notin> set k" for k
    using that by (induction k) (auto split: list.split)
  moreover have "Split v (CHR '':'') = [v]" if "CHR '':'' \<notin> set v" for v
    using that by (induction v) (auto split: list.split)
  moreover have "CHR '':'' \<notin> set k" "CHR '':'' \<notin> set v" using pk pv by (simp_all add: plain_part_def)
  ultimately show ?thesis using Trim_plain [OF pk] Trim_plain [OF pv] by (simp add: header_parts_def line_of_def)
qed

lemma update_new: "k \<notin> fst ` set m \<Longrightarrow> AList.update k v m = m @ [(k, v)]"
  by (induction m) auto

lemma header_map_lines:
  "\<forall>(k, v)\<in>set hs. plain_part k \<and> plain_part v \<Longrightarrow> gomap_ok (m @ hs) \<Longrightarrow> header_map (map line_of hs) m = Some (m @ hs)"
proof (induction hs arbitrary: m)
  case (Cons h hs)
  obtain k v where h: "h = (k, v)" by fastforce
  have "AList.update k v m = m @ [(k, v)]" using Cons.prems(2) by (auto simp: h intro: update_new)
  with Cons show ?case by (auto simp: h header_parts_line)
qed simp

lemma insort_names: "insort (fst h) (map fst hs) = map fst (insort_key fst h hs)"
  by (induction hs) auto

lemma sorted_lines:
  assumes "gomap_ok hs"
  shows "map (\<lambda>k. f k (case map_of hs k of Some v \<Rightarrow> v | None \<Rightarrow> [])) (sort (map fst hs)) = map (\<lambda>(k, v). f k v) (sort_key fst hs)"
proof -
  have "sort (map fst hs) = map fst (sort_key fst hs)"
    by (induction hs) (simp_all add: insort_names)
  moreover have "(case map_of hs (fst x) of Some v \<Rightarrow> v | None \<Rightarrow> []) = snd x" if "x \<in> set hs" for x
    using that map_of_is_SomeI [OF assms, of "fst x" "snd x"] by simp
  ultimately show ?thesis by (auto simp: comp_def case_prod_unfold)
qed

text \<open>
  The time stamp of a signature: the first second of the day that the endpoint gives as eight digits, or the present
  time, with a date of eight digits.
\<close>

definition signing_time :: "('w, 'c) net \<Rightarrow> endpoint \<Rightarrow> 'w \<Rightarrow> 'w \<Rightarrow> string \<Rightarrow> bool" where
  "signing_time net ep w w1 time \<longleftrightarrow>
     (if ep_AwsTime ep = []
      then \<exists>t. nt_now net w = (w1, t) \<and> length (format_date t) = 8 \<and> time = format_stamp t
      else length (ep_AwsTime ep) = 8 \<and> w1 = w \<and> time = ep_AwsTime ep @ ''T000000Z'')"

definition plain_path :: "string \<Rightarrow> bool" where
  "plain_path path = list_all (\<lambda>c. sigv4_unreserved c \<or> c = CHR ''/'') path"

lemma uri_encode_plain: "list_all (\<lambda>c. sigv4_unreserved c \<or> keep c) s \<Longrightarrow> uri_encode keep s = s"
  by (induction s) (simp_all add: uri_encode_def)

text \<open>The date, time, path and payload hash of the code are those of the specification.\<close>

lemma aws_parts:
  assumes "signing_time net ep w w1 time" and "nt_urlHost net (ep_ServerURL ep) \<noteq> None" and "plain_path (ri_Path ex)"
    and "sg_path i = ri_Path ex" "sg_payload i = (case ri_Payload ex of Some p \<Rightarrow> p | None \<Rightarrow> [])" "sg_time i = time"
  shows "\<exists>a. ComputeAwsHeaders net ep ex w = (w1, Some a) \<and> ah_dateStamp a = take 8 (sg_time i) \<and> ah_amzDate a = sg_time i \<and>
    ah_canonicalURI a = sigv4_uri i \<and> ah_payloadHash a = hex_bytes (nt_sha256 net (sg_payload i))"
proof -
  obtain h where h: "nt_urlHost net (ep_ServerURL ep) = Some h" using assms(2) by blast
  have path: "sigv4_uri i = (if ri_Path ex = [] then ''/'' else ri_Path ex)"
    using assms(3) by (simp add: sigv4_uri_def assms(4) uri_encode_plain plain_path_def)
  show ?thesis
  proof (cases "ep_AwsTime ep = []")
    case True
    then obtain t where t: "nt_now net w = (w1, t)" "length (format_date t) = 8" "time = format_stamp t"
      using assms(1) by (auto simp: signing_time_def)
    moreover from t(2) have "take 8 (format_stamp t) = format_date t" by (simp add: format_stamp_def Let_def)
    ultimately show ?thesis using True by (simp add: ComputeAwsHeaders_def h path assms(5,6) Let_def)
  next
    case False
    then have t: "length (ep_AwsTime ep) = 8" "w1 = w" "time = ep_AwsTime ep @ ''T000000Z''"
      using assms(1) by (simp_all add: signing_time_def)
    with False show ?thesis by (simp add: ComputeAwsHeaders_def h path assms(5,6) Let_def)
  qed
qed


text \<open>The port of a server is cut off the \<open>host\<close> line that is signed, because a line is split at every colon.\<close>

theorem aws_host_loses_port: "aws_line ''host:s3:9000'' = Some ''host:s3''"
  by code_simp


text \<open>
  A complete time stamp in \<open>AwsTime\<close> becomes the date of the credential scope, which is documented to have eight digits.
\<close>

theorem full_time_in_scope:
  assumes "ep_AwsTime ep = date @ ''T'' @ clock" "length (ep_AwsTime ep) \<noteq> 8" "nt_urlHost net (ep_ServerURL ep) = Some h"
  shows "\<exists>a. ComputeAwsHeaders net ep ex w = (w, Some a) \<and>
    credential_scope ep a = date @ ''T'' @ clock @ ''/'' @ ep_AwsRegion ep @ ''/'' @ ep_AwsService ep @ ''/aws4_request''"
  using assms by (auto simp: ComputeAwsHeaders_def credential_scope_def Let_def)

end
