(* ===== verification/Kube_Clients.thy ===== *)
theory Kube_Clients
  imports Kube_Types Event_Bus Rbac_Authorizer
begin

text \<open>
  Clients of the Kubernetes API: \<open>kubeutil/objectclient\<close> (create or update, delete, with retries), \<open>kubeutil/dynamicwatch\<close>
  (one watch per kind), \<open>kubeutil/rbacgen\<close> (roles for named resources) and \<open>kubeutil/discoveryevents\<close> (events of the bus for
  changes of the API).

  The dynamic client is the record \<open>dyn_api\<close> over the state of the cluster; \<open>dy_wait\<close> is the select on the timer and the
  context.  The object that \<open>Apply\<close> writes back into is part of the state of a retry.  \<open>publish\<close> stands for \<open>PublishSync\<close> of
  the bus with the result of \<open>Event_Bus\<close>.

  Shown: what holds after a success of \<open>Apply\<close> and \<open>Uninstall\<close>, how often an operation runs, that a kind is watched once, what
  a generated role grants, and that a subscriber who follows the events knows the resources of the API.
\<close>

section \<open>Object client\<close>

record 'c unstructured =
  us_Namespace :: string
  us_Name :: string
  us_ResourceVersion :: string
  us_Content :: 'c

record object_apply_options =
  ao_DryRun :: "string list"
  ao_FieldManager :: string
  ao_FieldValidation :: string

record uninstall_options =
  uo_GracePeriodSeconds :: "int option"
  uo_Preconditions :: "string option"
  uo_PropagationPolicy :: "string option"
  uo_DryRun :: "string list"

text \<open>The resource of a kind, in a namespace or of the cluster.\<close>

datatype dyn_resource = ClusterResource string | NamespacedResource string string

record ('w, 'c) dyn_api =
  dy_get :: "dyn_resource \<Rightarrow> string \<Rightarrow> 'w \<Rightarrow> 'w \<times> (kerr + 'c unstructured)"
  dy_create :: "dyn_resource \<Rightarrow> 'c unstructured \<Rightarrow> object_apply_options \<Rightarrow> 'w \<Rightarrow> 'w \<times> (kerr + 'c unstructured)"
  dy_update :: "dyn_resource \<Rightarrow> 'c unstructured \<Rightarrow> object_apply_options \<Rightarrow> 'w \<Rightarrow> 'w \<times> (kerr + 'c unstructured)"
  dy_delete :: "dyn_resource \<Rightarrow> string \<Rightarrow> uninstall_options \<Rightarrow> 'w \<Rightarrow> 'w \<times> kerr option"
  dy_canceled :: "kerr \<Rightarrow> bool"
  dy_wait :: "duration \<Rightarrow> 'w \<Rightarrow> 'w \<times> kerr option"

definition retryAttempts :: nat where
  "retryAttempts = 10"

definition retryInitialDelay :: duration where
  "retryInitialDelay = 100000000"

definition retryMaximumDelay :: duration where
  "retryMaximumDelay = 100000000"

definition namespacedOrCluster :: "string \<Rightarrow> string \<Rightarrow> dyn_resource" where
  "namespacedOrCluster gvr ns = (if ns = [] then ClusterResource gvr else NamespacedResource gvr ns)"

definition retry_delay :: "nat \<Rightarrow> duration" where
  "retry_delay attempt =
     (let delay = retryInitialDelay * 2 ^ (attempt - 1) in if delay > retryMaximumDelay then retryMaximumDelay else delay)"

text \<open>The loop from an attempt on; the state of the operation carries the cluster and what the closure writes.\<close>

function retry_from ::
  "('s \<Rightarrow> 's \<times> kerr option) \<Rightarrow> (kerr \<Rightarrow> bool) \<Rightarrow> (duration \<Rightarrow> 's \<Rightarrow> 's \<times> kerr option) \<Rightarrow> nat \<Rightarrow> 's \<Rightarrow> 's \<times> kerr option" where
  "retry_from op canceled wait attempt s =
     (case op s of
        (s1, None) \<Rightarrow> (s1, None)
      | (s1, Some err) \<Rightarrow>
          if canceled err \<or> attempt \<ge> retryAttempts then (s1, Some err)
          else case wait (retry_delay attempt) s1 of
                 (s2, Some e) \<Rightarrow> (s2, Some e)
               | (s2, None) \<Rightarrow> retry_from op canceled wait (attempt + 1) s2)"
  by pat_completeness auto
termination
  by (relation "measure (\<lambda>(op, canceled, wait, attempt, s). retryAttempts - attempt)") auto

declare retry_from.simps [simp del]

definition retry :: "('s \<Rightarrow> 's \<times> kerr option) \<Rightarrow> (kerr \<Rightarrow> bool) \<Rightarrow> (duration \<Rightarrow> 's \<Rightarrow> 's \<times> kerr option) \<Rightarrow> 's \<Rightarrow> 's \<times> kerr option" where
  "retry op canceled wait s = retry_from op canceled wait 1 s"

definition apply_once ::
  "('w, 'c) dyn_api \<Rightarrow> dyn_resource \<Rightarrow> string \<Rightarrow> object_apply_options \<Rightarrow> 'w \<times> 'c unstructured \<Rightarrow> ('w \<times> 'c unstructured) \<times> kerr option" where
  "apply_once dyn res name opts s =
     (case dy_get dyn res name (fst s) of
        (w1, Inl err) \<Rightarrow>
          if kube_is_not_found err
          then (case dy_create dyn res (snd s) opts w1 of
                  (w2, Inl err) \<Rightarrow> ((w2, snd s), Some err)
                | (w2, Inr created) \<Rightarrow> ((w2, created), None))
          else ((w1, snd s), Some err)
      | (w1, Inr current) \<Rightarrow>
          (let obj = (snd s)\<lparr>us_ResourceVersion := us_ResourceVersion current\<rparr> in
           case dy_update dyn res obj opts w1 of
             (w2, Inl err) \<Rightarrow> ((w2, obj), Some err)
           | (w2, Inr updated) \<Rightarrow> ((w2, updated), None)))"

definition Apply ::
  "('w, 'c) dyn_api \<Rightarrow> string \<Rightarrow> object_apply_options \<Rightarrow> 'w \<times> 'c unstructured \<Rightarrow> ('w \<times> 'c unstructured) \<times> kerr option" where
  "Apply dyn gvr opts s =
     (let res = namespacedOrCluster gvr (us_Namespace (snd s)); name = us_Name (snd s)
      in retry (apply_once dyn res name opts) (dy_canceled dyn)
           (\<lambda>d (w, obj). case dy_wait dyn d w of (w1, e) \<Rightarrow> ((w1, obj), e)) s)"

definition object_Get :: "('w, 'c) dyn_api \<Rightarrow> string \<Rightarrow> string \<Rightarrow> string \<Rightarrow> 'w \<Rightarrow> 'w \<times> (kerr + 'c unstructured)" where
  "object_Get dyn gvr ns name w = dy_get dyn (namespacedOrCluster gvr ns) name w"

definition uninstall_once :: "('w, 'c) dyn_api \<Rightarrow> dyn_resource \<Rightarrow> string \<Rightarrow> uninstall_options \<Rightarrow> 'w \<Rightarrow> 'w \<times> kerr option" where
  "uninstall_once dyn res name opts w =
     (case dy_get dyn res name w of
        (w1, Inl err) \<Rightarrow> if kube_is_not_found err then (w1, None) else (w1, Some err)
      | (w1, Inr current) \<Rightarrow>
          (case dy_delete dyn res name opts w1 of
             (w2, Some err) \<Rightarrow> if \<not> kube_is_not_found err then (w2, Some err) else (w2, None)
           | (w2, None) \<Rightarrow> (w2, None)))"

definition object_Uninstall :: "('w, 'c) dyn_api \<Rightarrow> string \<Rightarrow> string \<Rightarrow> string \<Rightarrow> uninstall_options \<Rightarrow> 'w \<Rightarrow> 'w \<times> kerr option" where
  "object_Uninstall dyn gvr ns name opts w =
     (let res = namespacedOrCluster gvr ns in retry (uninstall_once dyn res name opts) (dy_canceled dyn) (dy_wait dyn) w)"

section \<open>Watches\<close>

record registry =
  rg_watched :: "gvk list"

definition NewRegistry :: registry where
  "NewRegistry = \<lparr>rg_watched = []\<rparr>"

text \<open>\<open>watch\<close> is \<open>ctrl.Watch\<close> on the source for the kind.\<close>

definition EnsureWatch :: "(gvk \<Rightarrow> 'w \<Rightarrow> 'w \<times> kerr option) \<Rightarrow> gvk \<Rightarrow> registry \<Rightarrow> 'w \<Rightarrow> registry \<times> 'w \<times> kerr option" where
  "EnsureWatch watch k r w =
     (if k \<in> set (rg_watched r) then (r, w, None)
      else case watch k w of
             (w1, Some err) \<Rightarrow> (r, w1, Some err)
           | (w1, None) \<Rightarrow> (r\<lparr>rg_watched := k # rg_watched r\<rparr>, w1, None))"

definition Watching :: "registry \<Rightarrow> gvk \<Rightarrow> bool" where
  "Watching r k = (k \<in> set (rg_watched r))"

section \<open>Roles\<close>

record role =
  rl_Kind :: string
  rl_APIVersion :: string
  rl_Name :: string
  rl_Namespace :: string
  rl_Rules :: "resource_rule list"

record role_binding =
  rb_Kind :: string
  rb_APIVersion :: string
  rb_Name :: string
  rb_Namespace :: string
  rb_RoleRef :: "string \<times> string \<times> string"
  rb_Subjects :: "(string \<times> string \<times> string) list"

definition BuildRole :: "string \<Rightarrow> string \<Rightarrow> string \<Rightarrow> string \<Rightarrow> string list \<Rightarrow> string list \<Rightarrow> role" where
  "BuildRole ns roleName apiGroup resource resourceNames verbs =
     \<lparr>rl_Kind = ''Role'', rl_APIVersion = ''rbac.authorization.k8s.io/v1'', rl_Name = roleName, rl_Namespace = ns,
      rl_Rules = [\<lparr>rr_Verbs = verbs, rr_APIGroups = [apiGroup], rr_Resources = [resource], rr_ResourceNames = resourceNames\<rparr>]\<rparr>"

definition BuildRoleForSecret :: "string \<Rightarrow> string \<Rightarrow> string list \<Rightarrow> string list \<Rightarrow> role" where
  "BuildRoleForSecret ns roleName secretNames verbs = BuildRole ns roleName [] ''secrets'' secretNames verbs"

definition BuildRoleBinding :: "string \<Rightarrow> string \<Rightarrow> string \<Rightarrow> string \<times> string \<Rightarrow> role_binding" where
  "BuildRoleBinding ns bindingName roleName sa =
     \<lparr>rb_Kind = ''RoleBinding'', rb_APIVersion = ''rbac.authorization.k8s.io/v1'', rb_Name = bindingName, rb_Namespace = ns,
      rb_RoleRef = (''rbac.authorization.k8s.io'', ''Role'', roleName),
      rb_Subjects = [(''ServiceAccount'', snd sa, fst sa)]\<rparr>"

definition BuildRoleBindingForRole :: "string \<Rightarrow> string \<Rightarrow> string \<Rightarrow> string \<times> string \<Rightarrow> role_binding" where
  "BuildRoleBindingForRole ns bindingName roleName sa = BuildRoleBinding ns bindingName roleName sa"

section \<open>Discovery events\<close>

record discovered_resource =
  ar_Name :: string
  ar_Kind :: string
  ar_Group :: string
  ar_Version :: string
  ar_Verbs :: "string list"

record resource_snapshot =
  rsn_Kind :: string
  rsn_APIVersion :: string
  rsn_Name :: string
  rsn_Verbs :: "string list"

datatype discovery_event =
    ResourceAdded resource_snapshot
  | ResourceRemoved resource_snapshot
  | ResourceChanged resource_snapshot resource_snapshot

definition discovery_EventID :: "discovery_event \<Rightarrow> EventID" where
  "discovery_EventID e =
     (case e of
        ResourceAdded s \<Rightarrow> ''k8s.discovery.resource.added''
      | ResourceRemoved s \<Rightarrow> ''k8s.discovery.resource.removed''
      | ResourceChanged p c \<Rightarrow> ''k8s.discovery.resource.changed'')"

datatype publish_error = DiscoverFailed string | BusDone ctx_err | HandlerFailed bus_err

definition newSnapshot :: "string \<Rightarrow> discovered_resource \<Rightarrow> resource_snapshot" where
  "newSnapshot groupVersion resource =
     \<lparr>rsn_Kind = ar_Kind resource, rsn_APIVersion = groupVersion, rsn_Name = ar_Name resource, rsn_Verbs = ar_Verbs resource\<rparr>"

definition snapshot_Equal :: "resource_snapshot \<Rightarrow> resource_snapshot \<Rightarrow> bool" where
  "snapshot_Equal r other =
     (rsn_Kind r = rsn_Kind other \<and> rsn_APIVersion r = rsn_APIVersion other \<and> rsn_Name r = rsn_Name other \<and> rsn_Verbs r = rsn_Verbs other)"

definition resourceKey :: "string \<Rightarrow> discovered_resource \<Rightarrow> string" where
  "resourceKey groupVersion resource = groupVersion @ ''/'' @ ar_Name resource"

definition isPublishable :: "discovered_resource \<Rightarrow> bool" where
  "isPublishable resource = (ar_Name resource \<noteq> [] \<and> ar_Kind resource \<noteq> [])"

definition publisher_publish :: "(discovery_event \<Rightarrow> 'w \<Rightarrow> 'w \<times> PublishResult) \<Rightarrow> discovery_event \<Rightarrow> 'w \<Rightarrow> 'w \<times> publish_error option" where
  "publisher_publish publishSync event w =
     (case publishSync event w of
        (w1, result) \<Rightarrow>
          (w1, case pr_Err result of
                 Some e \<Rightarrow> Some (BusDone e)
               | None \<Rightarrow> (case pr_Errors result of [] \<Rightarrow> None | e # es \<Rightarrow> Some (HandlerFailed e))))"

text \<open>The loops over the lists and their resources: the map \<open>current\<close>, or the error that ended them.\<close>

fun publish_present ::
  "(discovery_event \<Rightarrow> 'w \<Rightarrow> 'w \<times> PublishResult) \<Rightarrow> (string, resource_snapshot) gomap \<Rightarrow> (string \<times> discovered_resource) list \<Rightarrow>
   (string, resource_snapshot) gomap \<Rightarrow> 'w \<Rightarrow> 'w \<times> (publish_error + (string, resource_snapshot) gomap)" where
  "publish_present pub seen [] current w = (w, Inr current)"
| "publish_present pub seen ((gv, resource) # rest) current w =
     (if \<not> isPublishable resource then publish_present pub seen rest current w
      else let key = resourceKey gv resource; snapshot = newSnapshot gv resource; current' = AList.update key snapshot current in
           case map_of seen key of
             None \<Rightarrow>
               (case publisher_publish pub (ResourceAdded snapshot) w of
                  (w1, Some err) \<Rightarrow> (w1, Inl err)
                | (w1, None) \<Rightarrow> publish_present pub seen rest current' w1)
           | Some previous \<Rightarrow>
               if \<not> snapshot_Equal snapshot previous
               then (case publisher_publish pub (ResourceChanged previous snapshot) w of
                       (w1, Some err) \<Rightarrow> (w1, Inl err)
                     | (w1, None) \<Rightarrow> publish_present pub seen rest current' w1)
               else publish_present pub seen rest current' w)"

fun publish_removed ::
  "(discovery_event \<Rightarrow> 'w \<Rightarrow> 'w \<times> PublishResult) \<Rightarrow> (string, resource_snapshot) gomap \<Rightarrow> string list \<Rightarrow> 'w \<Rightarrow> 'w \<times> publish_error option" where
  "publish_removed pub seen [] w = (w, None)"
| "publish_removed pub seen (key # keys) w =
     (case publisher_publish pub (ResourceRemoved (the (map_of seen key))) w of
        (w1, Some err) \<Rightarrow> (w1, Some err)
      | (w1, None) \<Rightarrow> publish_removed pub seen keys w1)"

definition flat_resources :: "(string \<times> discovered_resource list) list \<Rightarrow> (string \<times> discovered_resource) list" where
  "flat_resources ls = concat (map (\<lambda>(gv, rs). map (Pair gv) rs) ls)"

text \<open>A publisher is its map \<open>seen\<close>; \<open>PublishChanges\<close> returns the new value of it and the error.\<close>

definition NewPublisher :: "(string, resource_snapshot) gomap" where
  "NewPublisher = []"

definition PublishChanges ::
  "(discovery_event \<Rightarrow> 'w \<Rightarrow> 'w \<times> PublishResult) \<Rightarrow> string + (string \<times> discovered_resource list) list \<Rightarrow> (string, resource_snapshot) gomap \<Rightarrow> 'w \<Rightarrow>
   'w \<times> (string, resource_snapshot) gomap \<times> publish_error option" where
  "PublishChanges pub discovered seen w =
     (case discovered of
        Inl err \<Rightarrow> (w, seen, Some (DiscoverFailed err))
      | Inr ls \<Rightarrow>
          (case publish_present pub seen (flat_resources ls) [] w of
             (w1, Inl err) \<Rightarrow> (w1, seen, Some err)
           | (w1, Inr current) \<Rightarrow>
               (let removedKeys = sort (filter (\<lambda>k. map_of current k = None) (map fst seen)) in
                case publish_removed pub seen removedKeys w1 of
                  (w2, Some err) \<Rightarrow> (w2, seen, Some err)
                | (w2, None) \<Rightarrow> (w2, current, None))))"

definition PublishNewResources ::
  "(discovery_event \<Rightarrow> 'w \<Rightarrow> 'w \<times> PublishResult) \<Rightarrow> string + (string \<times> discovered_resource list) list \<Rightarrow> (string, resource_snapshot) gomap \<Rightarrow> 'w \<Rightarrow>
   'w \<times> (string, resource_snapshot) gomap \<times> publish_error option" where
  "PublishNewResources pub discovered seen w = PublishChanges pub discovered seen w"

section \<open>Retries\<close>

text \<open>A success of the loop is a success of the operation in a state that keeps what failed attempts and waits keep.\<close>

lemma retry_from_success:
  assumes "\<And>s s1 e. P s \<Longrightarrow> op s = (s1, Some e) \<Longrightarrow> P s1" and "\<And>d s s1. P s \<Longrightarrow> wait d s = (s1, None) \<Longrightarrow> P s1"
  shows "retry_from op canceled wait n s = (s', None) \<Longrightarrow> P s \<Longrightarrow> \<exists>s0. P s0 \<and> op s0 = (s', None)"
proof (induction "retryAttempts - n" arbitrary: n s rule: less_induct)
  case less
  obtain s1 r where op: "op s = (s1, r)" by fastforce
  show ?case
  proof (cases r)
    case None
    with less.prems op show ?thesis by (subst (asm) retry_from.simps) auto
  next
    case (Some e)
    with less.prems(1) op obtain s2 where s2: "n < retryAttempts" "wait (retry_delay n) s1 = (s2, None)"
      "retry_from op canceled wait (n + 1) s2 = (s', None)"
      by (subst (asm) retry_from.simps) (auto split: if_splits prod.splits option.splits)
    have "P s2" using assms(2) [OF assms(1) [OF less.prems(2)]] op Some s2(2) by blast
    with less.hyps [of "n + 1" s2] s2(1,3) show ?thesis by simp
  qed
qed

lemma retry_success:
  assumes run: "retry op canceled wait s = (s', None)" and P: "P s"
    and op: "\<And>s s1 e. P s \<Longrightarrow> op s = (s1, Some e) \<Longrightarrow> P s1" and wt: "\<And>d s s1. P s \<Longrightarrow> wait d s = (s1, None) \<Longrightarrow> P s1"
  shows "\<exists>s0. P s0 \<and> op s0 = (s', None)"
proof (rule retry_from_success [where P = P and op = op and wait = wait])
  show "retry_from op canceled wait 1 s = (s', None)" using run by (simp only: retry_def)
qed (fact op wt P)+

text \<open>An operation and a wait that also count the runs of the operation.\<close>

definition counted :: "('s \<Rightarrow> 's \<times> kerr option) \<Rightarrow> nat \<times> 's \<Rightarrow> (nat \<times> 's) \<times> kerr option" where
  "counted op x = (case op (snd x) of (s1, r) \<Rightarrow> ((Suc (fst x), s1), r))"

definition uncounted :: "(duration \<Rightarrow> 's \<Rightarrow> 's \<times> kerr option) \<Rightarrow> duration \<Rightarrow> nat \<times> 's \<Rightarrow> (nat \<times> 's) \<times> kerr option" where
  "uncounted wait d x = (case wait d (snd x) of (s1, r) \<Rightarrow> ((fst x, s1), r))"

lemma retry_from_counted:
  assumes "1 \<le> n" and "n \<le> retryAttempts"
  shows "\<exists>m. retry_from (counted op) canceled (uncounted wait) n (k, s) =
      ((k + m, fst (retry_from op canceled wait n s)), snd (retry_from op canceled wait n s)) \<and> 1 \<le> m \<and> n + m \<le> Suc retryAttempts"
  using assms
proof (induction "retryAttempts - n" arbitrary: n k s rule: less_induct)
  case less
  obtain s1 r where op: "op s = (s1, r)" by fastforce
  consider "r = None" | e where "r = Some e" "canceled e \<or> n \<ge> retryAttempts" | e where "r = Some e" "\<not> canceled e" "n < retryAttempts"
    by (cases r) (metis not_le option.exhaust)+
  then show ?case
  proof cases
    case 3
    obtain s2 r2 where w: "wait (retry_delay n) s1 = (s2, r2)" by fastforce
    show ?thesis
    proof (cases r2)
      case None
      obtain m where m: "retry_from (counted op) canceled (uncounted wait) (n + 1) (Suc k, s2) =
          ((Suc k + m, fst (retry_from op canceled wait (n + 1) s2)), snd (retry_from op canceled wait (n + 1) s2))"
        "1 \<le> m" "n + 1 + m \<le> Suc retryAttempts"
        using less.hyps [of "n + 1" "Suc k" s2] 3(3) by fastforce
      with 3 op w None show ?thesis
        by (intro exI [of _ "Suc m"]) (simp add: retry_from.simps [of _ _ _ n] counted_def uncounted_def)
    next
      case (Some e)
      with 3 op w less.prems show ?thesis
        by (intro exI [of _ 1]) (simp add: retry_from.simps [of _ _ _ n] counted_def uncounted_def)
    qed
  qed (use op less.prems in \<open>(intro exI [of _ 1], simp add: retry_from.simps [of _ _ _ n] counted_def)+\<close>)
qed

text \<open>
  The operation of a retry runs at least once and at most ten times, and counting the runs does not change what the
  loop does.
\<close>

theorem retry_runs_bounded:
  "\<exists>m. retry (counted op) canceled (uncounted wait) (0, s) = ((m, fst (retry op canceled wait s)), snd (retry op canceled wait s)) \<and>
     1 \<le> m \<and> m \<le> 10"
  using retry_from_counted [of 1 op canceled wait 0 s] by (auto simp: retry_def retryAttempts_def)

section \<open>Apply and Uninstall\<close>

text \<open>
  What the API server documents: a write that succeeds and is no dry run can be read back, with the name it was sent
  under; a deleted object is gone or terminating; reading again at once gives the same.
\<close>

definition gone :: "('w, 'c) dyn_api \<Rightarrow> ('c unstructured \<Rightarrow> bool) \<Rightarrow> dyn_resource \<Rightarrow> string \<Rightarrow> 'w \<Rightarrow> bool" where
  "gone dyn terminating res name w =
     (case snd (dy_get dyn res name w) of Inl err \<Rightarrow> kube_is_not_found err | Inr c \<Rightarrow> terminating c)"

locale dyn_laws =
  fixes dyn :: "('w, 'c) dyn_api" and terminating :: "'c unstructured \<Rightarrow> bool"
  assumes get_created: "dy_create dyn res c opts w = (w', Inr d) \<Longrightarrow> ao_DryRun opts = [] \<Longrightarrow> snd (dy_get dyn res (us_Name c) w') = Inr d"
    and get_updated: "dy_update dyn res c opts w = (w', Inr d) \<Longrightarrow> ao_DryRun opts = [] \<Longrightarrow> snd (dy_get dyn res (us_Name c) w') = Inr d"
    and deleted: "dy_delete dyn res name uopts w = (w', None) \<Longrightarrow> uo_DryRun uopts = [] \<Longrightarrow> gone dyn terminating res name w'"
    and absent: "dy_delete dyn res name uopts w = (w', Some e) \<Longrightarrow> kube_is_not_found e \<Longrightarrow> gone dyn terminating res name w'"
    and read_again: "dy_get dyn res name w = (w', r) \<Longrightarrow> snd (dy_get dyn res name w') = r"
begin

lemma apply_once_stored:
  assumes "apply_once dyn res name opts (w, obj) = ((w', obj'), None)" and "us_Name obj = name" and "ao_DryRun opts = []"
  shows "snd (dy_get dyn res name w') = Inr obj'"
  using assms by (auto simp: apply_once_def Let_def split: prod.splits sum.splits if_splits dest!: get_created get_updated)

lemma uninstall_once_gone:
  assumes "uninstall_once dyn res name opts w = (w', None)" and "uo_DryRun opts = []"
  shows "gone dyn terminating res name w'"
  using assms
  by (auto simp: uninstall_once_def split: prod.splits sum.splits if_splits option.splits intro: deleted absent)
    (auto simp: gone_def dest!: read_again)

end

lemma apply_once_name:
  "apply_once dyn res name opts s = (s', Some e) \<Longrightarrow> us_Name (snd s') = us_Name (snd s)"
  by (auto simp: apply_once_def Let_def split: prod.splits sum.splits if_splits)

text \<open>
  When \<open>Apply\<close> succeeds and is no dry run, reading the object by its namespace and name gives exactly the object that the
  caller holds afterwards, whether it was created or updated and after however many attempts.
\<close>

theorem Apply_stores:
  assumes "dyn_laws dyn terminating" and "Apply dyn gvr opts (w, obj) = ((w', obj'), None)" and "ao_DryRun opts = []"
  shows "snd (object_Get dyn gvr (us_Namespace obj) (us_Name obj) w') = Inr obj'"
proof -
  let ?res = "namespacedOrCluster gvr (us_Namespace obj)"
  have "\<exists>s0. us_Name (snd s0) = us_Name obj \<and> apply_once dyn ?res (us_Name obj) opts s0 = ((w', obj'), None)"
  proof (rule retry_success)
    show "retry (apply_once dyn ?res (us_Name obj) opts) (dy_canceled dyn)
        (\<lambda>d (w, obj). case dy_wait dyn d w of (w1, e) \<Rightarrow> ((w1, obj), e)) (w, obj) = ((w', obj'), None)"
      using assms(2) by (simp add: Apply_def)
  qed (auto dest: apply_once_name split: prod.splits)
  then obtain w0 obj0 where "us_Name obj0 = us_Name obj" "apply_once dyn ?res (us_Name obj) opts (w0, obj0) = ((w', obj'), None)"
    by auto
  from dyn_laws.apply_once_stored [OF assms(1) this(2,1) assms(3)] show ?thesis by (simp add: object_Get_def)
qed

text \<open>
  When \<open>Uninstall\<close> succeeds and is no dry run, the object is gone or terminating, whether it was there, was absent or
  was removed by somebody else in the meantime.
\<close>

theorem Uninstall_removes:
  assumes "dyn_laws dyn terminating" and "object_Uninstall dyn gvr ns name opts w = (w', None)" and "uo_DryRun opts = []"
  shows "gone dyn terminating (namespacedOrCluster gvr ns) name w'"
proof -
  have "\<exists>s0. True \<and> uninstall_once dyn (namespacedOrCluster gvr ns) name opts s0 = (w', None)"
    by (rule retry_success [where canceled = "dy_canceled dyn" and wait = "dy_wait dyn" and s = w])
      (use assms(2) in \<open>simp_all add: object_Uninstall_def\<close>)
  then show ?thesis using dyn_laws.uninstall_once_gone [OF assms(1) _ assms(3)] by blast
qed

text \<open>
  A store of objects with a counter for versions.  A new object must not carry a version; an update must carry the
  current one.  \<open>st_rival\<close> is somebody who deletes the object just before the next update.
\<close>

record store_state =
  st_objects :: "(dyn_resource \<times> string, string unstructured) gomap"
  st_version :: nat
  st_rival :: bool

definition stamped :: "nat \<Rightarrow> string unstructured \<Rightarrow> string unstructured" where
  "stamped n c = c\<lparr>us_ResourceVersion := replicate (Suc n) (CHR ''v'')\<rparr>"

definition store_put :: "dyn_resource \<Rightarrow> string unstructured \<Rightarrow> store_state \<Rightarrow> store_state" where
  "store_put res c w = w\<lparr>st_objects := AList.update (res, us_Name c) (stamped (st_version w) c) (st_objects w), st_version := Suc (st_version w)\<rparr>"

definition object_store :: "(store_state, string) dyn_api" where
  "object_store = \<lparr>
     dy_get = (\<lambda>res name w. (w, case map_of (st_objects w) (res, name) of None \<Rightarrow> Inl (KNotFound name) | Some c \<Rightarrow> Inr c)),
     dy_create = (\<lambda>res c opts w.
        if us_ResourceVersion c \<noteq> [] then (w, Inl (KErr ''resourceVersion should not be set on objects to be created''))
        else if ao_DryRun opts \<noteq> [] then (w, Inr c)
        else (store_put res c w, Inr (stamped (st_version w) c))),
     dy_update = (\<lambda>res c opts w.
        if st_rival w then (w\<lparr>st_objects := AList.delete (res, us_Name c) (st_objects w), st_rival := False\<rparr>, Inl (KNotFound (us_Name c)))
        else case map_of (st_objects w) (res, us_Name c) of
               None \<Rightarrow> (w, Inl (KNotFound (us_Name c)))
             | Some d \<Rightarrow>
                 if us_ResourceVersion d \<noteq> us_ResourceVersion c then (w, Inl (KErr ''conflict''))
                 else if ao_DryRun opts \<noteq> [] then (w, Inr c)
                 else (store_put res c w, Inr (stamped (st_version w) c))),
     dy_delete = (\<lambda>res name opts w.
        case map_of (st_objects w) (res, name) of
          None \<Rightarrow> (w, Some (KNotFound name))
        | Some d \<Rightarrow> (if uo_DryRun opts \<noteq> [] then w else w\<lparr>st_objects := AList.delete (res, name) (st_objects w)\<rparr>, None)),
     dy_canceled = (\<lambda>e. False), dy_wait = (\<lambda>d w. (w, None))\<rparr>"

interpretation object_store: dyn_laws object_store "\<lambda>c. False"
  by unfold_locales
    (auto simp: object_store_def store_put_def gone_def kube_is_not_found_def split: if_splits option.splits)

definition plain_apply :: object_apply_options where
  "plain_apply = \<lparr>ao_DryRun = [], ao_FieldManager = [], ao_FieldValidation = []\<rparr>"

definition plain_uninstall :: uninstall_options where
  "plain_uninstall = \<lparr>uo_GracePeriodSeconds = None, uo_Preconditions = None, uo_PropagationPolicy = None, uo_DryRun = []\<rparr>"

definition some_object :: "string unstructured" where
  "some_object = \<lparr>us_Namespace = ''ns'', us_Name = ''n'', us_ResourceVersion = [], us_Content = ''x''\<rparr>"

definition store_with :: "bool \<Rightarrow> store_state" where
  "store_with rival = \<lparr>st_objects = [((NamespacedResource ''cm'' ''ns'', ''n''), some_object\<lparr>us_ResourceVersion := ''v''\<rparr>)], st_version = 1, st_rival = rival\<rparr>"

theorem Apply_stores_witness:
  "snd (object_Get object_store ''cm'' ''ns'' ''n'' (fst (fst (Apply object_store ''cm'' plain_apply (store_with False, some_object))))) =
     Inr (some_object\<lparr>us_ResourceVersion := ''vv''\<rparr>)"
proof -
  have run: "Apply object_store ''cm'' plain_apply (store_with False, some_object) =
      ((fst (fst (Apply object_store ''cm'' plain_apply (store_with False, some_object))), some_object\<lparr>us_ResourceVersion := ''vv''\<rparr>), None)"
    by (simp add: Apply_def retry_def retry_from.simps apply_once_def object_store_def store_with_def plain_apply_def some_object_def
        store_put_def stamped_def namespacedOrCluster_def Let_def)
  show ?thesis using Apply_stores [OF object_store.dyn_laws_axioms run] by (simp add: plain_apply_def some_object_def)
qed

theorem Uninstall_removes_witness:
  "gone object_store (\<lambda>c. False) (NamespacedResource ''cm'' ''ns'') ''n'' (fst (object_Uninstall object_store ''cm'' ''ns'' ''n'' plain_uninstall (store_with False)))"
proof -
  have run: "object_Uninstall object_store ''cm'' ''ns'' ''n'' plain_uninstall (store_with False) =
      (fst (object_Uninstall object_store ''cm'' ''ns'' ''n'' plain_uninstall (store_with False)), None)"
    by (simp add: object_Uninstall_def retry_def retry_from.simps uninstall_once_def object_store_def store_with_def plain_uninstall_def
        namespacedOrCluster_def Let_def)
  show ?thesis using Uninstall_removes [OF object_store.dyn_laws_axioms run] by (simp add: plain_uninstall_def namespacedOrCluster_def)
qed

text \<open>
  The version of the object is set before the update and stays when the update fails.  When the object was deleted in
  the meantime, the next attempts create it with a version, which the server refuses: all ten attempts fail.
\<close>

theorem Apply_fails_after_deletion:
  "snd (Apply object_store ''cm'' plain_apply (store_with True, some_object)) =
     Some (KErr ''resourceVersion should not be set on objects to be created'')"
  by code_simp

section \<open>One watch per kind\<close>

text \<open>A sequence of calls with the outcomes of \<open>ctrl.Watch\<close>; the log has the watches that were registered.\<close>

definition watch_step :: "registry \<times> gvk list \<Rightarrow> gvk \<times> kerr option \<Rightarrow> registry \<times> gvk list" where
  "watch_step s call =
     (case EnsureWatch (\<lambda>k registered. case snd call of None \<Rightarrow> (registered @ [k], None) | Some e \<Rightarrow> (registered, Some e))
             (fst call) (fst s) (snd s) of (r, registered, e) \<Rightarrow> (r, registered))"

definition watch_inv :: "registry \<times> gvk list \<Rightarrow> bool" where
  "watch_inv s \<longleftrightarrow> distinct (snd s) \<and> set (snd s) = set (rg_watched (fst s))"

interpretation watches: step_system watch_step "\<lambda>s call. True" watch_inv
  by unfold_locales (auto simp: watch_step_def watch_inv_def EnsureWatch_def split: if_splits option.splits)

text \<open>
  C30: After any sequence of calls with any failures, a kind is watched at most once, and \<open>Watching\<close> says exactly which
  kinds are.
\<close>

theorem EnsureWatch_once:
  "case run_ops watch_step (NewRegistry, []) calls of (r, registered) \<Rightarrow> distinct registered \<and> (\<forall>k. Watching r k \<longleftrightarrow> k \<in> set registered)"
proof -
  have "watch_inv (NewRegistry, [])" by (simp add: watch_inv_def NewRegistry_def)
  then have "watch_inv (run_ops watch_step (NewRegistry, []) calls)" by (rule watches.run_inv [OF _ admissible_trivial])
  then show ?thesis by (auto simp: watch_inv_def Watching_def)
qed

section \<open>Roles grant what they name\<close>

text \<open>Whether a rule allows a verb on a named resource, as the API server documents it; \<open>*\<close> stands for everything.\<close>

definition rule_allows :: "resource_rule \<Rightarrow> string \<Rightarrow> string \<Rightarrow> string \<Rightarrow> string \<Rightarrow> bool" where
  "rule_allows r verb grp resource name \<longleftrightarrow>
     (''*'' \<in> set (rr_Verbs r) \<or> verb \<in> set (rr_Verbs r)) \<and> (''*'' \<in> set (rr_APIGroups r) \<or> grp \<in> set (rr_APIGroups r)) \<and>
     (''*'' \<in> set (rr_Resources r) \<or> resource \<in> set (rr_Resources r)) \<and> (rr_ResourceNames r = [] \<or> name \<in> set (rr_ResourceNames r))"

definition role_allows :: "role \<Rightarrow> string \<Rightarrow> string \<Rightarrow> string \<Rightarrow> string \<Rightarrow> bool" where
  "role_allows r verb grp resource name \<longleftrightarrow> (\<exists>x\<in>set (rl_Rules r). rule_allows x verb grp resource name)"

lemma BuildRoleForSecret_grants:
  assumes "''*'' \<notin> set verbs" and "secretNames \<noteq> []"
  shows "role_allows (BuildRoleForSecret ns roleName secretNames verbs) verb grp resource name \<longleftrightarrow>
    verb \<in> set verbs \<and> grp = [] \<and> resource = ''secrets'' \<and> name \<in> set secretNames"
  using assms by (auto simp: role_allows_def rule_allows_def BuildRoleForSecret_def BuildRole_def)

text \<open>Without names the role allows every Secret of the namespace; an authorizer that asks for the rules sees such a role.\<close>

theorem BuildRole_without_names:
  "verb \<in> set verbs \<Longrightarrow> role_allows (BuildRoleForSecret ns roleName [] verbs) verb [] ''secrets'' name \<and>
     rulesAllowTarget (rl_Rules (BuildRoleForSecret ns roleName [] verbs)) \<lparr>tg_Verb = verb, tg_Group = [], tg_Resource = ''secrets'', tg_Namespace = ns\<rparr>"
  by (simp add: role_allows_def rule_allows_def BuildRoleForSecret_def BuildRole_def stringSliceContains_iff)

section \<open>Subscribers follow the discovery\<close>

definition snapshot_key :: "resource_snapshot \<Rightarrow> string" where
  "snapshot_key s = rsn_APIVersion s @ ''/'' @ rsn_Name s"

definition apply_event :: "discovery_event \<Rightarrow> (string \<rightharpoonup> resource_snapshot) \<Rightarrow> string \<rightharpoonup> resource_snapshot" where
  "apply_event e m =
     (case e of
        ResourceAdded s \<Rightarrow> m(snapshot_key s \<mapsto> s)
      | ResourceRemoved s \<Rightarrow> m(snapshot_key s := None)
      | ResourceChanged p c \<Rightarrow> m(snapshot_key c \<mapsto> c))"

text \<open>The resources of an answer of the discovery, under their keys.\<close>

definition discovered_map :: "(string \<times> discovered_resource) list \<Rightarrow> (string, resource_snapshot) gomap" where
  "discovered_map rs = map (\<lambda>(gv, r). (resourceKey gv r, newSnapshot gv r)) (filter (isPublishable \<circ> snd) rs)"

lemma snapshot_Equal_iff: "snapshot_Equal a b \<longleftrightarrow> a = b"
  by (cases a; cases b) (simp add: snapshot_Equal_def)

lemma snapshot_key_new [simp]: "snapshot_key (newSnapshot gv r) = resourceKey gv r"
  by (simp add: snapshot_key_def newSnapshot_def resourceKey_def)

lemma discovered_map_simps [simp]:
  "discovered_map [] = []"
  "discovered_map ((gv, r) # rest) = (if isPublishable r then [(resourceKey gv r, newSnapshot gv r)] else []) @ discovered_map rest"
  by (simp_all add: discovered_map_def)

lemma add_update: "k \<notin> dom m \<Longrightarrow> f(k \<mapsto> v) ++ m = f ++ m(k \<mapsto> v)"
  by (auto simp: fun_eq_iff map_add_def dom_def split: option.split)

text \<open>A subscriber whose view is changed by every event that is published without an error.\<close>

locale subscriber =
  fixes publishSync :: "discovery_event \<Rightarrow> 'w \<Rightarrow> 'w \<times> PublishResult" and view :: "'w \<Rightarrow> string \<rightharpoonup> resource_snapshot"
  assumes published: "publisher_publish publishSync e w = (w', None) \<Longrightarrow> view w' = apply_event e (view w)"
begin

lemma step_view:
  assumes "publish_present publishSync seen ((gv, r) # rest) current w = (w', Inr current')" and "isPublishable r"
    and "view w (resourceKey gv r) = map_of seen (resourceKey gv r)"
  obtains w1 where "publish_present publishSync seen rest (AList.update (resourceKey gv r) (newSnapshot gv r) current) w1 = (w', Inr current')"
    "view w1 = (view w)(resourceKey gv r \<mapsto> newSnapshot gv r)"
proof (cases "map_of seen (resourceKey gv r)")
  case None
  with assms(1,2) obtain w1 where w1: "publisher_publish publishSync (ResourceAdded (newSnapshot gv r)) w = (w1, None)"
    "publish_present publishSync seen rest (AList.update (resourceKey gv r) (newSnapshot gv r) current) w1 = (w', Inr current')"
    by (auto simp: Let_def split: prod.splits option.splits)
  with published [OF w1(1)] that show thesis by (simp add: apply_event_def)
next
  case (Some previous)
  show thesis
  proof (cases "newSnapshot gv r = previous")
    case True
    with assms Some that [of w] show thesis by (simp add: Let_def snapshot_Equal_iff fun_upd_idem)
  next
    case False
    with assms(1,2) Some obtain w1 where w1: "publisher_publish publishSync (ResourceChanged previous (newSnapshot gv r)) w = (w1, None)"
      "publish_present publishSync seen rest (AList.update (resourceKey gv r) (newSnapshot gv r) current) w1 = (w', Inr current')"
      by (auto simp: Let_def snapshot_Equal_iff split: prod.splits option.splits)
    with published [OF w1(1)] that show thesis by (simp add: apply_event_def)
  qed
qed

lemma present_view:
  assumes "publish_present publishSync seen rs current w = (w', Inr current')"
    and "gomap_ok (discovered_map rs)" and "\<forall>k\<in>fst ` set (discovered_map rs). view w k = map_of seen k"
  shows "view w' = view w ++ map_of (discovered_map rs) \<and> map_of current' = map_of current ++ map_of (discovered_map rs)"
  using assms
proof (induction rs arbitrary: current w)
  case (Cons x rest)
  obtain gv r where x: "x = (gv, r)" by fastforce
  show ?case
  proof (cases "isPublishable r")
    case False
    with Cons show ?thesis by (simp add: x)
  next
    case True
    obtain w1 where w1: "publish_present publishSync seen rest (AList.update (resourceKey gv r) (newSnapshot gv r) current) w1 = (w', Inr current')"
      "view w1 = (view w)(resourceKey gv r \<mapsto> newSnapshot gv r)"
      using step_view [OF _ True, of seen gv rest current w w' current'] Cons.prems True x by auto
    have new: "resourceKey gv r \<notin> dom (map_of (discovered_map rest))" and ok: "gomap_ok (discovered_map rest)"
      using Cons.prems(2) True by (simp_all add: x dom_map_of_conv_image_fst)
    have "\<forall>k\<in>fst ` set (discovered_map rest). view w1 k = map_of seen k"
    proof
      fix k assume k: "k \<in> fst ` set (discovered_map rest)"
      with new have "k \<noteq> resourceKey gv r" unfolding dom_map_of_conv_image_fst by metis
      with k Cons.prems(3) True show "view w1 k = map_of seen k" by (auto simp: x w1(2))
    qed
    note ih = Cons.IH [OF w1(1) ok this, unfolded w1(2) map_of_alist_update add_update [OF new]]
    have "map_of (discovered_map (x # rest)) = (map_of (discovered_map rest))(resourceKey gv r \<mapsto> newSnapshot gv r)"
      using True by (simp add: x)
    with ih show ?thesis by metis
  qed
qed simp

lemma removed_view:
  "publish_removed publishSync seen keys w = (w', None) \<Longrightarrow> \<forall>k\<in>set keys. \<exists>s. map_of seen k = Some s \<and> snapshot_key s = k \<Longrightarrow>
     view w' k = (if k \<in> set keys then None else view w k)"
proof (induction keys arbitrary: w)
  case (Cons key keys)
  then obtain s where s: "map_of seen key = Some s" "snapshot_key s = key" by auto
  obtain w1 where w1: "publisher_publish publishSync (ResourceRemoved s) w = (w1, None)" "publish_removed publishSync seen keys w1 = (w', None)"
    using Cons.prems(1) s(1) by (auto split: prod.splits option.splits)
  from Cons.IH [OF w1(2)] Cons.prems(2) published [OF w1(1)] s(2) show ?case by (auto simp: apply_event_def)
qed simp

text \<open>A publisher that succeeds brings the view of the subscriber to what was discovered.\<close>

lemma follows:
  assumes run: "PublishChanges publishSync (Inr ls) seen w = (w', seen', None)"
    and seen: "\<forall>(k, s)\<in>set seen. snapshot_key s = k" and start: "view w = map_of seen"
    and ok: "gomap_ok (discovered_map (flat_resources ls))"
  shows "view w' = map_of seen' \<and> map_of seen' = map_of (discovered_map (flat_resources ls))"
proof -
  let ?d = "discovered_map (flat_resources ls)"
  obtain w1 current where present: "publish_present publishSync seen (flat_resources ls) [] w = (w1, Inr current)"
    and removed: "publish_removed publishSync seen (sort (filter (\<lambda>k. map_of current k = None) (map fst seen))) w1 = (w', None)"
    and s': "seen' = current"
    using run by (auto simp: PublishChanges_def Let_def split: prod.splits sum.splits option.splits)
  from present_view [OF present ok] start have v: "view w1 = map_of seen ++ map_of ?d" and c: "map_of current = map_of ?d" by simp_all
  have keys: "\<forall>k\<in>set (sort (filter (\<lambda>k. map_of current k = None) (map fst seen))). \<exists>s. map_of seen k = Some s \<and> snapshot_key s = k"
  proof
    fix k assume "k \<in> set (sort (filter (\<lambda>k. map_of current k = None) (map fst seen)))"
    then have "k \<in> dom (map_of seen)" by (auto simp: dom_map_of_conv_image_fst)
    then obtain s where "map_of seen k = Some s" by auto
    with seen show "\<exists>s. map_of seen k = Some s \<and> snapshot_key s = k" by (auto dest: map_of_SomeD)
  qed
  have "view w' k = map_of current k" for k
    unfolding removed_view [OF removed keys] v c
    by (cases "map_of ?d k"; cases "map_of seen k") (auto simp: c map_add_def dest: map_of_SomeD intro: rev_image_eqI)
  then show ?thesis using s' c by auto
qed

end

text \<open>
  The bus of \<open>Event_Bus\<close> gives this law: whatever schedule \<open>publishSync\<close> takes, when a handler \<open>f\<close> is subscribed once to each kind
  of event, applies the events to its view, and no other handler touches the view.
\<close>

locale discovery_bus =
  fixes act :: "discovery_event \<Rightarrow> 'h subscriptionInfo \<Rightarrow> 'w \<Rightarrow> 'w \<times> handler_end" and b :: "'h bus" and parent :: "parent_ctx option"
    and f :: 'h and publishSync :: "discovery_event \<Rightarrow> 'w \<Rightarrow> 'w \<times> PublishResult" and view :: "'w \<Rightarrow> string \<rightharpoonup> resource_snapshot"
  assumes outcome: "PublishSync (act e) b parent (discovery_EventID e) w (publishSync e w)"
    and subscribed: "count_handler f (copySubscriptions b (discovery_EventID e)) = 1"
    and applies: "si_cb x = f \<Longrightarrow> view (fst (act e x w)) = apply_event e (view w)"
    and others: "si_cb x \<noteq> f \<Longrightarrow> view (fst (act e x w)) = view w"

sublocale discovery_bus \<subseteq> subscriber publishSync view
proof
  fix e w w'
  assume "publisher_publish publishSync e w = (w', None)"
  then obtain r where r: "publishSync e w = (w', r)" "pr_Err r = None"
    by (auto simp: publisher_publish_def split: prod.splits option.splits)
  have "PublishSync (act e) b parent (discovery_EventID e) w (w', r)" using outcome [of e w] r(1) by simp
  then show "view w' = apply_event e (view w)"
    by (rule PublishSync_changes_once [where f = f]) (use r(2) subscribed applies others in auto)
qed

context discovery_bus
begin

lemma round_followed:
  assumes "PublishChanges publishSync (Inr ls) seen w = (w', seen', None)" and "\<forall>(k, s)\<in>set seen. snapshot_key s = k" and "view w = map_of seen"
    and "gomap_ok (discovered_map (flat_resources ls))"
  shows "view w' = map_of seen' \<and> map_of seen' = map_of (discovered_map (flat_resources ls))"
  by (rule follows [OF assms])

end

text \<open>
  C18: discovery events are complete and exact.  Let \<open>publishSync\<close> be \<open>PublishSync\<close> of a bus under any schedule of its goroutines, on
  which one handler applies the events to its view.  Suppose that this view agrees with what the publisher has seen, as
  both do when they are empty, and that the keys of the resources that the API server lists differ.  When a round of \<open>PublishChanges\<close> succeeds, the
  handler's view is exactly the resources that are served now, with their verbs, and agrees with the publisher again.  (After a
  round that failed the agreement may be lost: \<open>failed_round_leaves_stale\<close>.)
\<close>

theorem PublishChanges_followed:
  assumes "discovery_bus act b parent f publishSync view" and "\<forall>(k, s)\<in>set seen. snapshot_key s = k" and "view w = map_of seen"
    and "gomap_ok (discovered_map (flat_resources ls))" and "PublishChanges publishSync (Inr ls) seen w = (w', seen', None)"
  shows "view w' = map_of seen' \<and> map_of seen' = map_of (discovered_map (flat_resources ls))"
  by (rule discovery_bus.round_followed [OF assms(1) assms(5) assms(2,3,4)])

text \<open>
  A bus with a handler that keeps the events it was given, subscribed to all of them, and one that audits what is added and
  fails for the kinds in a list; its handlers run one after the other.
\<close>

definition subscribe_to :: "string \<Rightarrow> string \<Rightarrow> string bus \<Rightarrow> string bus" where
  "subscribe_to e h b = fst (projr (Subscribe b e (Some h)))"

definition discovery_demo :: "string bus" where
  "discovery_demo = fold (\<lambda>(e, h). subscribe_to e h)
     [(''k8s.discovery.resource.added'', ''audit''), (''k8s.discovery.resource.added'', ''follow''),
      (''k8s.discovery.resource.removed'', ''follow''), (''k8s.discovery.resource.changed'', ''follow'')] (bus_New [])"

definition event_kind :: "discovery_event \<Rightarrow> string" where
  "event_kind e = (case e of ResourceAdded s \<Rightarrow> rsn_Kind s | ResourceRemoved s \<Rightarrow> rsn_Kind s | ResourceChanged p c \<Rightarrow> rsn_Kind c)"

definition demo_act :: "string list \<Rightarrow> discovery_event \<Rightarrow> string subscriptionInfo \<Rightarrow> discovery_event list \<Rightarrow> discovery_event list \<times> handler_end" where
  "demo_act bad e x w =
     (if si_cb x = ''follow'' then (w @ [e], Returns None)
      else (w, Returns (if event_kind e \<in> set bad then Some ''down'' else None)))"

definition demo_publish :: "string list \<Rightarrow> discovery_event \<Rightarrow> discovery_event list \<Rightarrow> discovery_event list \<times> PublishResult" where
  "demo_publish bad e w = publish_in_order (demo_act bad e) discovery_demo (discovery_EventID e) w"

definition event_view :: "discovery_event list \<Rightarrow> string \<rightharpoonup> resource_snapshot" where
  "event_view w = fold apply_event w Map.empty"

lemma demo_subscriptions:
  "map si_cb (copySubscriptions discovery_demo ''k8s.discovery.resource.added'') = [''audit'', ''follow'']"
  "map si_cb (copySubscriptions discovery_demo ''k8s.discovery.resource.removed'') = [''follow'']"
  "map si_cb (copySubscriptions discovery_demo ''k8s.discovery.resource.changed'') = [''follow'']"
  by (simp_all add: discovery_demo_def subscribe_to_def Subscribe_def bus_New_def infos_of_def copySubscriptions_def Let_def)

lemma demo_counts: "count_handler ''follow'' (copySubscriptions discovery_demo (discovery_EventID e)) = 1"
proof -
  have c: "count_handler h l = count_list (map si_cb l) h" for h :: string and l
    by (induction l) auto
  show ?thesis by (cases e) (simp_all add: c discovery_EventID_def demo_subscriptions)
qed

interpretation demo: discovery_bus "demo_act bad" discovery_demo None "''follow''" "demo_publish bad" event_view for bad
proof
  fix e w
  show "PublishSync (demo_act bad e) discovery_demo None (discovery_EventID e) w (demo_publish bad e w)"
    unfolding demo_publish_def by (rule publish_in_order_outcome)
qed (auto simp: demo_counts demo_act_def event_view_def)

text \<open>What the bus does, without its goroutines.\<close>

definition demo_direct :: "string list \<Rightarrow> discovery_event \<Rightarrow> discovery_event list \<Rightarrow> discovery_event list \<times> PublishResult" where
  "demo_direct bad e w =
     (w @ [e],
      case e of
        ResourceAdded s \<Rightarrow> zero_result\<lparr>pr_Delivered := 2, pr_Errors := (if rsn_Kind s \<in> set bad then [HandlerErr ''down''] else [])\<rparr>
      | _ \<Rightarrow> zero_result\<lparr>pr_Delivered := 1\<rparr>)"

lemma demo_publish_direct: "demo_publish bad = demo_direct bad"
proof (intro ext)
  fix e w
  obtain a c where ac: "copySubscriptions discovery_demo ''k8s.discovery.resource.added'' = [a, c]" "si_cb a = ''audit''" "si_cb c = ''follow''"
    using demo_subscriptions(1) by (auto simp: map_eq_Cons_conv)
  obtain r where r: "copySubscriptions discovery_demo ''k8s.discovery.resource.removed'' = [r]" "si_cb r = ''follow''"
    using demo_subscriptions(2) by (auto simp: map_eq_Cons_conv)
  obtain g where g: "copySubscriptions discovery_demo ''k8s.discovery.resource.changed'' = [g]" "si_cb g = ''follow''"
    using demo_subscriptions(3) by (auto simp: map_eq_Cons_conv)
  show "demo_publish bad e w = demo_direct bad e w"
    by (cases e) (simp_all add: demo_publish_def demo_direct_def publish_in_order_def discovery_EventID_def ac r g demo_act_def
        invokeHandler_def event_kind_def zero_result_def)
qed

definition served :: "string \<Rightarrow> discovered_resource" where
  "served name = \<lparr>ar_Name = name, ar_Kind = name, ar_Group = [], ar_Version = [], ar_Verbs = [''get'']\<rparr>"

theorem PublishChanges_followed_witness:
  "(case PublishChanges (demo_publish []) (Inr [(''v1'', [served ''pods'', served ''jobs''])]) [(''v1/old'', newSnapshot ''v1'' (served ''old''))]
      [ResourceAdded (newSnapshot ''v1'' (served ''old''))] of
    (w', seen', err) \<Rightarrow> event_view w' = map_of seen' \<and> event_view w' ''v1/old'' = None)"
proof -
  let ?pub = "PublishChanges (demo_publish []) (Inr [(''v1'', [served ''pods'', served ''jobs''])]) [(''v1/old'', newSnapshot ''v1'' (served ''old''))]
      [ResourceAdded (newSnapshot ''v1'' (served ''old''))]"
  have "snd (snd ?pub) = None" unfolding demo_publish_direct by code_simp
  then have run: "?pub = (fst ?pub, fst (snd ?pub), None)" by (simp add: prod_eq_iff)
  have d: "discovered_map (flat_resources [(''v1'', [served ''pods'', served ''jobs''])]) =
      [(''v1/pods'', newSnapshot ''v1'' (served ''pods'')), (''v1/jobs'', newSnapshot ''v1'' (served ''jobs''))]" by code_simp
  have k: "snapshot_key (newSnapshot ''v1'' (served ''old'')) = ''v1/old''" by code_simp
  have "event_view (fst ?pub) = map_of (fst (snd ?pub)) \<and>
      map_of (fst (snd ?pub)) = map_of (discovered_map (flat_resources [(''v1'', [served ''pods'', served ''jobs''])]))"
    by (rule PublishChanges_followed [OF demo.discovery_bus_axioms _ _ _ run])
      (auto simp: d event_view_def apply_event_def k simp del: snapshot_key_new)
  then show ?thesis unfolding d by (subst run) simp
qed

text \<open>
  A publication that fails leaves \<open>seen\<close> as it was, although events were delivered before the failure: a resource that
  was announced and is gone at the next round is never announced as removed.
\<close>

theorem failed_round_leaves_stale:
  "case PublishChanges (demo_publish [''jobs'']) (Inr [(''v1'', [served ''pods'', served ''jobs''])]) [] [] of
     (w1, seen1, err1) \<Rightarrow> err1 \<noteq> None \<and>
       (case PublishChanges (demo_publish []) (Inr [(''v1'', [served ''jobs''])]) seen1 w1 of
          (w2, seen2, err2) \<Rightarrow> err2 = None \<and> map_of seen2 ''v1/pods'' = None \<and> event_view w2 ''v1/pods'' \<noteq> None)"
  unfolding demo_publish_direct by code_simp

end
