(* ===== verification/Buffer_Pool.thy ===== *)
theory Buffer_Pool
  imports Go_Json
begin

text \<open>
  \<open>bufferpool\<close>: byte buffers and the pool they come from.

  A buffer is its bytes.  The state of a pool has the contents of all buffers by their number, the buffers that lie in the
  \<open>sync.Pool\<close>, and those that callers hold.  \<open>sync.Pool\<close> may give any buffer that lies in it or a new one, and may forget
  buffers: the choice is part of an operation.  The texts of floats and times are arguments, as \<open>strconv\<close> and \<open>time\<close> print them.

  Shown: callers who use a buffer only between \<open>Get\<close> and \<open>Free\<close> always get an empty buffer that nobody else holds.
\<close>

section \<open>Buffers\<close>

definition AppendBool :: "bool \<Rightarrow> string \<Rightarrow> string" where
  "AppendBool v bs = bs @ (if v then ''true'' else ''false'')"

definition AppendByte :: "char \<Rightarrow> string \<Rightarrow> string" where
  "AppendByte v bs = bs @ [v]"

definition AppendBytes :: "string \<Rightarrow> string \<Rightarrow> string" where
  "AppendBytes v bs = bs @ v"

definition AppendFloat :: "string \<Rightarrow> string \<Rightarrow> string" where
  "AppendFloat formatted bs = bs @ formatted"

definition AppendInt :: "int \<Rightarrow> string \<Rightarrow> string" where
  "AppendInt i bs = bs @ Itoa i"

definition AppendString :: "string \<Rightarrow> string \<Rightarrow> string" where
  "AppendString s bs = bs @ s"

definition AppendTime :: "(string \<Rightarrow> string) \<Rightarrow> string \<Rightarrow> string \<Rightarrow> string" where
  "AppendTime format layout bs = bs @ format layout"

definition AppendUint :: "nat \<Rightarrow> string \<Rightarrow> string" where
  "AppendUint i bs = bs @ show_nat i"

text \<open>\<open>utf8.EncodeRune\<close> writes the replacement character for a value that is no rune.\<close>

definition AppendRune :: "int \<Rightarrow> string \<Rightarrow> string" where
  "AppendRune r bs =
     bs @ rune_bytes (if 0 \<le> r \<and> (r < 0xD800 \<or> 0xE000 \<le> r \<and> r < 0x110000) then nat r else 0xFFFD)"

definition buffer_Write :: "string \<Rightarrow> string \<Rightarrow> string \<times> nat" where
  "buffer_Write v bs = (bs @ v, length v)"

definition buffer_Reset :: "string \<Rightarrow> string" where
  "buffer_Reset bs = take 0 bs"

text \<open>\<open>String\<close> and \<open>BytesCopy\<close> give a copy; the alias that \<open>Bytes\<close> gives is not modelled.\<close>

definition buffer_String :: "string \<Rightarrow> string" where
  "buffer_String bs = take (length bs) bs"

section \<open>The pool\<close>

record pool =
  pl_contents :: "nat \<Rightarrow> string"
  pl_pooled :: "nat list"
  pl_held :: "nat list"
  pl_next :: nat

definition pool_New :: pool where
  "pool_New = \<lparr>pl_contents = (\<lambda>i. []), pl_pooled = [], pl_held = [], pl_next = 0\<rparr>"

text \<open>\<open>Get\<close>: the buffer that \<open>sync.Pool\<close> chooses, or a new one.\<close>

definition pool_Get :: "nat option \<Rightarrow> pool \<Rightarrow> pool \<times> nat" where
  "pool_Get choice p =
     (case choice of
        Some i \<Rightarrow> (p\<lparr>pl_pooled := remove1 i (pl_pooled p), pl_held := i # pl_held p\<rparr>, i)
      | None \<Rightarrow>
          (let i = pl_next p in
           (p\<lparr>pl_contents := (pl_contents p)(i := []), pl_held := i # pl_held p, pl_next := Suc i\<rparr>, i)))"

definition buffer_Free :: "nat \<Rightarrow> pool \<Rightarrow> pool" where
  "buffer_Free i p =
     p\<lparr>pl_contents := (pl_contents p)(i := buffer_Reset (pl_contents p i)), pl_pooled := i # pl_pooled p, pl_held := remove1 i (pl_held p)\<rparr>"

datatype pool_op = PGet "nat option" | PFree nat | PWrite nat "string \<Rightarrow> string" | PForget nat

definition pool_step :: "pool \<Rightarrow> pool_op \<Rightarrow> pool" where
  "pool_step p x =
     (case x of
        PGet c \<Rightarrow> fst (pool_Get c p)
      | PFree i \<Rightarrow> buffer_Free i p
      | PWrite i f \<Rightarrow> p\<lparr>pl_contents := (pl_contents p)(i := f (pl_contents p i))\<rparr>
      | PForget i \<Rightarrow> p\<lparr>pl_pooled := remove1 i (pl_pooled p)\<rparr>)"

text \<open>The discipline of the callers: only a buffer that is held is written or freed; \<open>sync.Pool\<close> gives what lies in it.\<close>

definition disciplined :: "pool \<Rightarrow> pool_op \<Rightarrow> bool" where
  "disciplined p x =
     (case x of
        PGet c \<Rightarrow> (case c of Some i \<Rightarrow> i \<in> set (pl_pooled p) | None \<Rightarrow> True)
      | PFree i \<Rightarrow> i \<in> set (pl_held p)
      | PWrite i f \<Rightarrow> i \<in> set (pl_held p)
      | PForget i \<Rightarrow> True)"

definition pool_inv :: "pool \<Rightarrow> bool" where
  "pool_inv p \<longleftrightarrow> distinct (pl_pooled p @ pl_held p) \<and> (\<forall>i\<in>set (pl_pooled p). pl_contents p i = []) \<and>
     (\<forall>i\<in>set (pl_pooled p) \<union> set (pl_held p). i < pl_next p)"

lemma pool_inv_step: "pool_inv p \<Longrightarrow> disciplined p x \<Longrightarrow> pool_inv (pool_step p x)"
  by (cases x)
    (auto simp: pool_inv_def disciplined_def pool_step_def pool_Get_def buffer_Free_def buffer_Reset_def Let_def
      split: option.splits dest: in_set_remove1 notin_set_remove1 intro: less_SucI)

interpretation pools: step_system pool_step disciplined pool_inv
  by unfold_locales (rule pool_inv_step)

text \<open>
  After any sequence of operations by callers who write and free only what they hold, whatever \<open>sync.Pool\<close> chooses and
  forgets, \<open>Get\<close> gives an empty buffer that no caller holds.
\<close>

theorem pool_Get_empty:
  assumes "admissible disciplined pool_step pool_New xs" and "p = run_ops pool_step pool_New xs" and "disciplined p (PGet c)"
    and "pool_Get c p = (p', i)"
  shows "pl_contents p' i = [] \<and> i \<notin> set (pl_held p) \<and> i \<in> set (pl_held p')"
proof -
  have "pool_inv pool_New" by (simp add: pool_inv_def pool_New_def)
  then have "pool_inv p" unfolding assms(2) by (rule pools.run_inv [OF _ assms(1)])
  with assms(3,4) show ?thesis
    by (auto simp: pool_inv_def disciplined_def pool_Get_def Let_def split: option.splits)
qed

definition pool_sample :: "pool_op list" where
  "pool_sample = [PGet None, PWrite 0 (AppendInt 7), PGet None, PFree 0]"

theorem pool_Get_empty_witness:
  "pl_contents (fst (pool_Get (Some 0) (run_ops pool_step pool_New pool_sample))) 0 = [] \<and>
   0 \<notin> set (pl_held (run_ops pool_step pool_New pool_sample))"
proof -
  have "admissible disciplined pool_step pool_New pool_sample" "disciplined (run_ops pool_step pool_New pool_sample) (PGet (Some 0))"
    "pool_Get (Some 0) (run_ops pool_step pool_New pool_sample) = (fst (pool_Get (Some 0) (run_ops pool_step pool_New pool_sample)), 0)"
    by (simp_all add: pool_sample_def disciplined_def pool_step_def pool_Get_def buffer_Free_def pool_New_def Let_def)
  from pool_Get_empty [OF this(1) refl this(2,3)] show ?thesis by simp
qed

text \<open>Without the discipline a buffer that is written after \<open>Free\<close> comes out of the pool with that content: \<open>Get\<close> does not reset it.\<close>

theorem use_after_free_leaks:
  "pl_contents (run_ops pool_step pool_New [PGet None, PFree 0, PWrite 0 (AppendString ''old''), PGet (Some 0)]) 0 = ''old''"
  by (simp add: pool_step_def pool_Get_def buffer_Free_def buffer_Reset_def pool_New_def AppendString_def Let_def)

end
