(* ===== verification/Code_Printer.thy ===== *)
theory Code_Printer
  imports Buffer_Pool Kube_Names
begin

text \<open>
  \<open>codegen\<close>: trees of nodes that are printed as Go source.

  A node has the constructors of the types that implement \<open>Node\<close>, a group the fields of \<open>group\<close>; its condition
  \<open>omitWrapIf\<close> is one of the three that the package uses.  Printing writes to a writer: what \<open>render\<close> gives is the text
  written and whether it panicked.  The tags of a field are listed in the order in which the map is visited.  Operations
  that call \<open>parseNode\<close> are \<open>None\<close> where it panics.  \<open>strconv.Quote\<close> and \<open>fmt.Sprintf\<close> with the caller's format, and the
  texts of floats, are arguments.  A group that has itself below it is outside the model: it never ends printing.

  Shown: a tree whose texts have matching brackets prints with matching brackets whatever conditions omit them; a line
  comment has no line that is not a comment; the pointer that \<open>NewX\<close> returns edits the node that was appended; and a
  tree prints entirely or panics at an unsupported literal.
\<close>

section \<open>The data\<close>

datatype lit_value =
  LitBool bool | LitString string | LitInt int | LitComplex128 string | LitFloat64 string | LitFloat32 string
| LitIntN string int | LitUintN string nat | LitComplex64 string | LitOther

text \<open>When the wrap of a group is omitted: never, or by \<open>Import\<close>, \<open>Const\<close> and \<open>Var\<close>, or the results of a function.\<close>

datatype omit = NeverOmit | OmitAtMostOne | OmitOne | OmitNone

text \<open>The structs that hold nodes, over the type of nodes.\<close>

datatype 'n cgroup = Cgroup (cg_items: "'n list") (cg_open: string) (cg_close: string) (cg_separator: string) (cg_omit: omit)

datatype 'n icall = Icall "'n option" string "'n cgroup" "'n cgroup"

datatype 'n ifunction = Ifunction string "'n option" "'n cgroup" "'n cgroup" "'n cgroup" "'n icall option"

datatype 'n isignature = Isignature "'n cgroup" string "'n cgroup" "'n cgroup"

datatype 'n icase = Icase "'n option" "'n cgroup"

datatype 'n iswitch = Iswitch 'n "'n icase list" "'n icase option"

datatype node =
    NString string
  | NLit lit_value
  | NPackage string
  | NType string node string
  | NField node "node option" "node option" string "(string \<times> string) list"
  | NCall "node icall"
  | NFunction "node ifunction"
  | NSignature "node isignature"
  | NInterface string "node cgroup"
  | NStruct string "node cgroup"
  | NIf node "node cgroup"
  | NFor node "node cgroup"
  | NCase "node icase"
  | NSwitch "node iswitch"
  | NReturn "node cgroup"
  | NDefer node
  | NValue string "node cgroup"
  | NImport "node cgroup"
  | NConst "node cgroup"
  | NVar "node cgroup"
  | NGroup "node cgroup"

text \<open>Functions over the tree end by the size of the nodes that a struct holds.\<close>

lemma measure_structs [measure_function]:
  "is_measure f \<Longrightarrow> is_measure (size_cgroup f)" "is_measure f \<Longrightarrow> is_measure (size_icall f)" "is_measure f \<Longrightarrow> is_measure (size_ifunction f)"
  "is_measure f \<Longrightarrow> is_measure (size_isignature f)" "is_measure f \<Longrightarrow> is_measure (size_icase f)" "is_measure f \<Longrightarrow> is_measure (size_iswitch f)"
  by (rule is_measure_trivial)+

section \<open>Printing\<close>

text \<open>What was written, and whether the printing panicked.\<close>

type_synonym written = "string \<times> bool"

definition writeString :: "string \<Rightarrow> written" where
  "writeString s = (s, False)"

definition write_then :: "written \<Rightarrow> written \<Rightarrow> written" where
  "write_then a b = (if snd a then a else (fst a @ fst b, snd b))"

definition cg_length :: "node cgroup \<Rightarrow> nat" where
  "cg_length g = length (cg_items g)"

definition shouldOmitWrap :: "node cgroup \<Rightarrow> bool" where
  "shouldOmitWrap g =
     (case cg_omit g of
        NeverOmit \<Rightarrow> False
      | OmitAtMostOne \<Rightarrow> cg_length g \<le> 1
      | OmitOne \<Rightarrow> cg_length g = 1
      | OmitNone \<Rightarrow> cg_length g = 0)"

text \<open>The text of a literal; \<open>%#v\<close> of an unsigned integer is hexadecimal.\<close>

definition lit_render :: "(string \<Rightarrow> string) \<Rightarrow> lit_value \<Rightarrow> written" where
  "lit_render quote v =
     (case v of
        LitBool b \<Rightarrow> writeString (if b then ''true'' else ''false'')
      | LitString s \<Rightarrow> writeString (quote s)
      | LitInt i \<Rightarrow> writeString (Itoa i)
      | LitComplex128 s \<Rightarrow> writeString s
      | LitFloat64 s \<Rightarrow> writeString (if \<not> Contains s ''.'' \<and> \<not> Contains s ''e'' then s @ ''.0'' else s)
      | LitFloat32 s \<Rightarrow> writeString (''float32('' @ s @ '')'')
      | LitIntN t i \<Rightarrow> writeString (t @ ''('' @ Itoa i @ '')'')
      | LitUintN t n \<Rightarrow> writeString (t @ ''(0x'' @ hex_nat n @ '')'')
      | LitComplex64 s \<Rightarrow> writeString (''complex64'' @ s)
      | LitOther \<Rightarrow> ([], True))"

definition tags_text :: "(string \<times> string) list \<Rightarrow> string" where
  "tags_text ts =
     (if ts = [] then []
      else '' `'' @ Join (map (\<lambda>(k, v). k @ '':'' @ [CHR 0x22] @ v @ [CHR 0x22]) ts) '' '' @ ''`'')"

definition parenthesised :: "written \<Rightarrow> written" where
  "parenthesised w = write_then (writeString ''('') (write_then w (writeString '')''))"

fun render :: "(string \<Rightarrow> string) \<Rightarrow> node \<Rightarrow> written"
  and render_items :: "(string \<Rightarrow> string) \<Rightarrow> string \<Rightarrow> bool \<Rightarrow> node list \<Rightarrow> written"
  and render_group :: "(string \<Rightarrow> string) \<Rightarrow> node cgroup \<Rightarrow> written"
  and render_call :: "(string \<Rightarrow> string) \<Rightarrow> node icall \<Rightarrow> written"
  and render_function :: "(string \<Rightarrow> string) \<Rightarrow> node ifunction \<Rightarrow> written"
  and render_signature :: "(string \<Rightarrow> string) \<Rightarrow> node isignature \<Rightarrow> written"
  and render_case :: "(string \<Rightarrow> string) \<Rightarrow> node icase \<Rightarrow> written"
  and render_cases :: "(string \<Rightarrow> string) \<Rightarrow> node icase list \<Rightarrow> written"
  and render_switch :: "(string \<Rightarrow> string) \<Rightarrow> node iswitch \<Rightarrow> written" where
  "render q (NString s) = writeString s"
| "render q (NLit v) = lit_render q v"
| "render q (NPackage name) = writeString (''package '' @ name @ [CHR 0x0A])"
| "render q (NType name item sep) = write_then (writeString (''type '' @ name @ '' '' @ sep)) (render q item)"
| "render q (NField name typ val sep tags) =
     write_then (render q name)
       (write_then
          (case typ of
             None \<Rightarrow> writeString []
           | Some t \<Rightarrow> write_then (writeString '' '') (render q t))
          (write_then
             (case val of
                None \<Rightarrow> writeString []
              | Some v \<Rightarrow>
                  (let str = render q v in
                   if snd str then ([], True)
                   else if fst str \<noteq> [] then writeString (sep @ fst str) else writeString []))
             (writeString (tags_text tags))))"
| "render q (NCall c) = render_call q c"
| "render q (NFunction f) = render_function q f"
| "render q (NSignature s) = render_signature q s"
| "render q (NInterface name g) = write_then (writeString (''type '' @ name @ '' interface'')) (render_group q g)"
| "render q (NStruct name g) = write_then (writeString (''type '' @ name @ '' struct '')) (render_group q g)"
| "render q (NIf judge body) = write_then (writeString ''if '') (write_then (render q judge) (render_group q body))"
| "render q (NFor judge body) = write_then (writeString ''for '') (write_then (render q judge) (render_group q body))"
| "render q (NCase c) = render_case q c"
| "render q (NSwitch s) = render_switch q s"
| "render q (NReturn g) = write_then (writeString ''return '') (render_group q g)"
| "render q (NDefer body) = write_then (writeString ''defer '') (render q body)"
| "render q (NValue typ g) = write_then (writeString typ) (render_group q g)"
| "render q (NImport g) = (if cg_length g = 0 then writeString [] else write_then (writeString ''import '') (render_group q g))"
| "render q (NConst g) = write_then (writeString ''const '') (render_group q g)"
| "render q (NVar g) = write_then (writeString ''var '') (render_group q g)"
| "render q (NGroup g) = render_group q g"
| "render_items q sep isfirst [] = writeString []"
| "render_items q sep isfirst (n # ns) =
     write_then (writeString (if isfirst then [] else sep)) (write_then (render q n) (render_items q sep False ns))"
| "render_group q (Cgroup ns opn cls sep om) =
     write_then (writeString (if opn \<noteq> [] \<and> \<not> shouldOmitWrap (Cgroup ns opn cls sep om) then opn else []))
       (write_then (render_items q sep True ns)
          (writeString (if cls \<noteq> [] \<and> \<not> shouldOmitWrap (Cgroup ns opn cls sep om) then cls else [])))"
| "render_call q (Icall ow name args calls) =
     write_then (case ow of None \<Rightarrow> writeString [] | Some x \<Rightarrow> write_then (render q x) (writeString ''.''))
       (write_then (writeString name)
          (write_then (render_group q args)
             (if cg_length calls \<noteq> 0 then write_then (writeString ''.'') (render_group q calls) else writeString [])))"
| "render_function q (Ifunction name receiver params results body call) =
     write_then (writeString ''func '')
       (write_then
          (case receiver of
             None \<Rightarrow> writeString []
           | Some r \<Rightarrow> parenthesised (render q r))
          (write_then (writeString name)
             (write_then (render_group q params)
                (write_then (render_group q results)
                   (write_then
                      (if cg_length body > 0 \<or> call \<noteq> None then render_group q body else writeString [])
                      (case call of None \<Rightarrow> writeString [] | Some c \<Rightarrow> render_call q c))))))"
| "render_signature q (Isignature comments name params results) =
     write_then (writeString name) (write_then (render_group q params) (render_group q results))"
| "render_case q (Icase judge body) =
     write_then
       (case judge of
          None \<Rightarrow> writeString ''default:''
        | Some j \<Rightarrow> write_then (writeString ''case '') (write_then (render q j) (writeString '':'')))
       (render_group q body)"
| "render_cases q [] = writeString []"
| "render_cases q (c # cs) = write_then (render_case q c) (write_then (writeString [CHR 0x0A]) (render_cases q cs))"
| "render_switch q (Iswitch judge cs dflt) =
     write_then (writeString ''switch '')
       (write_then (render q judge)
          (write_then (writeString (CHR ''{'' # [CHR 0x0A]))
             (write_then (render_cases q cs)
                (write_then
                   (case dflt of
                      None \<Rightarrow> writeString []
                    | Some c \<Rightarrow> write_then (render_case q c) (writeString [CHR 0x0A]))
                   (writeString ''}'')))))"

section \<open>Nodes from inputs, and groups\<close>

text \<open>What a caller passes as \<open>any\<close>: a node, a string or something else, at which \<open>parseNode\<close> panics.\<close>

datatype input = InNode node | InString string | InOther

definition parseNode :: "input \<Rightarrow> node option" where
  "parseNode x = (case x of InNode n \<Rightarrow> Some n | InString s \<Rightarrow> Some (NString s) | InOther \<Rightarrow> None)"

fun parseNodes :: "input list \<Rightarrow> node list option" where
  "parseNodes [] = Some []"
| "parseNodes (x # xs) =
     (case parseNode x of
        None \<Rightarrow> None
      | Some n \<Rightarrow> (case parseNodes xs of None \<Rightarrow> None | Some ns \<Rightarrow> Some (n # ns)))"

definition Embed :: "(unit \<Rightarrow> node) \<Rightarrow> node" where
  "Embed fn = fn ()"

definition newGroup :: "string \<Rightarrow> string \<Rightarrow> string \<Rightarrow> node cgroup" where
  "newGroup opn cls sep = Cgroup [] opn cls sep NeverOmit"

definition NewGroup :: "node cgroup" where
  "NewGroup = newGroup [] [] [CHR 0x0A]"

definition add_items :: "node list \<Rightarrow> node cgroup \<Rightarrow> node cgroup" where
  "add_items ns g = Cgroup (cg_items g @ ns) (cg_open g) (cg_close g) (cg_separator g) (cg_omit g)"

definition group_append :: "input list \<Rightarrow> node cgroup \<Rightarrow> node cgroup option" where
  "group_append xs g = (if xs = [] then Some g else map_option (\<lambda>ns. add_items ns g) (parseNodes xs))"

section \<open>Texts\<close>

text \<open>\<open>String\<close>: the format as it is when there are no arguments.\<close>

definition codegen_String :: "(string \<Rightarrow> 'a list \<Rightarrow> string) \<Rightarrow> string \<Rightarrow> 'a list \<Rightarrow> node" where
  "codegen_String sprintf format args = NString (if args = [] then format else sprintf format args)"

definition comment_word :: "string \<Rightarrow> string \<Rightarrow> string" where
  "comment_word buf word = AppendString word (AppendString '' '' buf)"

definition comment_line :: "string \<Rightarrow> string \<Rightarrow> string" where
  "comment_line buf line = AppendString [CHR 0x0A] (foldl comment_word (AppendString ''//'' buf) (Split line (CHR '' '')))"

text \<open>The comment that is built in the buffer, and \<open>formatLineComment\<close> with an empty one.\<close>

definition comment_buffer :: "string \<Rightarrow> string \<Rightarrow> string" where
  "comment_buffer comment buf = foldl comment_line buf (Split (TrimSpace comment) (CHR 0x0A))"

definition formatLineComment :: "string \<Rightarrow> string" where
  "formatLineComment comment = TrimSuffix (comment_buffer comment []) [CHR 0x0A]"

definition LineComment :: "(string \<Rightarrow> 'a list \<Rightarrow> string) \<Rightarrow> string \<Rightarrow> 'a list \<Rightarrow> node" where
  "LineComment sprintf content args = NString (formatLineComment (if args \<noteq> [] then sprintf content args else content))"

definition Lit :: "lit_value \<Rightarrow> node" where
  "Lit v = NLit v"

definition Line :: node where
  "Line = NString [CHR 0x0A]"

text \<open>\<open>Template\<close>: \<open>None\<close> where \<open>text/template\<close> refuses the text or its execution fails, both of which panic.\<close>

definition Template :: "(string \<Rightarrow> 'd \<Rightarrow> string option) \<Rightarrow> 'd \<Rightarrow> string \<Rightarrow> node option" where
  "Template execute d tmpl = map_option NString (execute tmpl d)"

section \<open>Fields and declarations\<close>

definition field :: "input \<Rightarrow> input \<Rightarrow> string \<Rightarrow> (string \<times> string) list \<Rightarrow> node option" where
  "field name val sep tags =
     (case (parseNode name, parseNode val) of
        (Some n, Some v) \<Rightarrow> Some (NField n None (Some v) sep tags)
      | _ \<Rightarrow> None)"

definition typedField :: "input \<Rightarrow> input \<Rightarrow> input \<Rightarrow> string \<Rightarrow> (string \<times> string) list \<Rightarrow> node option" where
  "typedField name typ val sep tags =
     (case (parseNode name, parseNode typ, parseNode val) of
        (Some n, Some t, Some v) \<Rightarrow> Some (NField n (Some t) (Some v) sep tags)
      | _ \<Rightarrow> None)"

text \<open>A field that is built and appended to a group.\<close>

definition append_field :: "node option \<Rightarrow> node cgroup \<Rightarrow> node cgroup option" where
  "append_field f g = (case f of None \<Rightarrow> None | Some n \<Rightarrow> group_append [InNode n] g)"

definition Import :: "node cgroup" where
  "Import = Cgroup [] ''('' '')'' [CHR 0x0A] OmitAtMostOne"

definition AddPath :: "string \<Rightarrow> node cgroup \<Rightarrow> node cgroup option" where
  "AddPath name g = group_append [InNode (Lit (LitString name))] g"

definition AddDot :: "string \<Rightarrow> node cgroup \<Rightarrow> node cgroup option" where
  "AddDot name g = group_append [InNode (NString (''. '' @ [CHR 0x22] @ name @ [CHR 0x22]))] g"

definition AddBlank :: "string \<Rightarrow> node cgroup \<Rightarrow> node cgroup option" where
  "AddBlank name g = group_append [InNode (NString (''_ '' @ [CHR 0x22] @ name @ [CHR 0x22]))] g"

definition AddAlias :: "string \<Rightarrow> string \<Rightarrow> node cgroup \<Rightarrow> node cgroup option" where
  "AddAlias name alias g = group_append [InNode (NString (alias @ '' '' @ [CHR 0x22] @ name @ [CHR 0x22]))] g"

text \<open>\<open>AddLine\<close> and \<open>AddLineComment\<close> of groups, imports, constants, structs and interfaces.\<close>

definition AddLine :: "node cgroup \<Rightarrow> node cgroup option" where
  "AddLine g = group_append [InNode Line] g"

definition AddLineComment :: "(string \<Rightarrow> 'a list \<Rightarrow> string) \<Rightarrow> string \<Rightarrow> 'a list \<Rightarrow> node cgroup \<Rightarrow> node cgroup option" where
  "AddLineComment sprintf content args g = group_append [InNode (LineComment sprintf content args)] g"

definition Const :: "node cgroup" where
  "Const = Cgroup [] ''('' '')'' [CHR 0x0A] OmitOne"

definition Var :: "node cgroup" where
  "Var = Cgroup [] ''('' '')'' [CHR 0x0A] OmitOne"

definition const_AddField :: "input \<Rightarrow> input \<Rightarrow> node cgroup \<Rightarrow> node cgroup option" where
  "const_AddField name val g = append_field (field name val ''='' []) g"

definition const_AddTypedField :: "input \<Rightarrow> input \<Rightarrow> input \<Rightarrow> node cgroup \<Rightarrow> node cgroup option" where
  "const_AddTypedField name typ val g = append_field (typedField name typ val ''='' []) g"

definition var_AddField :: "input \<Rightarrow> input \<Rightarrow> node cgroup \<Rightarrow> node cgroup option" where
  "var_AddField name val g = append_field (field name val ''='' []) g"

definition var_AddTypedField :: "input \<Rightarrow> input \<Rightarrow> input \<Rightarrow> node cgroup \<Rightarrow> node cgroup option" where
  "var_AddTypedField name typ val g = append_field (typedField name typ val ''='' []) g"

definition AddDecl :: "input \<Rightarrow> input \<Rightarrow> node cgroup \<Rightarrow> node cgroup option" where
  "AddDecl name val g = append_field (field name val '' '' []) g"

definition Struct :: "string \<Rightarrow> string \<times> node cgroup" where
  "Struct name = (name, newGroup (CHR ''{'' # [CHR 0x0A]) (CHR 0x0A # ''}'') [CHR 0x0A])"

definition struct_AddField :: "input \<Rightarrow> input \<Rightarrow> (string \<times> string) list \<Rightarrow> node cgroup \<Rightarrow> node cgroup option" where
  "struct_AddField name typ tags g = append_field (field name typ '' '' tags) g"

definition codegen_Interface :: "string \<Rightarrow> string \<times> node cgroup" where
  "codegen_Interface name = (name, newGroup (CHR ''{'' # [CHR 0x0A]) ''}'' [CHR 0x0A])"

definition codegen_Value :: "string \<Rightarrow> string \<times> node cgroup" where
  "codegen_Value typ = (typ, newGroup (CHR ''{'' # []) ''}'' '','')"

definition value_AddField :: "input \<Rightarrow> input \<Rightarrow> node cgroup \<Rightarrow> node cgroup option" where
  "value_AddField name val g = append_field (field name val '':'' []) g"

definition codegen_Package :: "string \<Rightarrow> node" where
  "codegen_Package name = NPackage name"

definition codegen_Type :: "string \<Rightarrow> input \<Rightarrow> node option" where
  "codegen_Type name typ = map_option (\<lambda>n. NType name n []) (parseNode typ)"

definition TypeAlias :: "string \<Rightarrow> input \<Rightarrow> node option" where
  "TypeAlias name typ = map_option (\<lambda>n. NType name n '' '') (parseNode typ)"

section \<open>Functions, calls and statements\<close>

definition codegen_Call :: "string \<Rightarrow> node icall" where
  "codegen_Call name = Icall None name (newGroup ''('' '')'' '','') (newGroup [] [] ''.'')"

fun WithOwner :: "string \<Rightarrow> node icall \<Rightarrow> node icall" where
  "WithOwner name (Icall ow n args calls) = Icall (Some (NString name)) n args calls"

fun call_AddParameter :: "input list \<Rightarrow> node icall \<Rightarrow> node icall option" where
  "call_AddParameter vs (Icall ow n args calls) = map_option (\<lambda>args'. Icall ow n args' calls) (group_append vs args)"

fun AddCall :: "string \<Rightarrow> input list \<Rightarrow> node icall \<Rightarrow> node icall option" where
  "AddCall name params (Icall ow n args calls) =
     (case call_AddParameter params (codegen_Call name) of
        None \<Rightarrow> None
      | Some c \<Rightarrow> map_option (\<lambda>calls'. Icall ow n args calls') (group_append [InNode (NCall c)] calls))"

definition results_group :: "node cgroup" where
  "results_group = Cgroup [] ''('' '')'' '','' OmitNone"

definition codegen_Function :: "string \<Rightarrow> node ifunction" where
  "codegen_Function name =
     Ifunction name None (newGroup ''('' '')'' '','') results_group (newGroup (CHR ''{'' # [CHR 0x0A]) ''}'' [CHR 0x0A]) None"

fun WithReceiver :: "input \<Rightarrow> input \<Rightarrow> node ifunction \<Rightarrow> node ifunction option" where
  "WithReceiver name typ (Ifunction n r ps rs b c) =
     map_option (\<lambda>f. Ifunction n (Some f) ps rs b c) (field name typ '' '' [])"

fun WithCall :: "input list \<Rightarrow> node ifunction \<Rightarrow> node ifunction option" where
  "WithCall params (Ifunction n r ps rs b c) =
     map_option (\<lambda>c'. Ifunction n r ps rs b (Some c')) (call_AddParameter params (codegen_Call []))"

fun function_AddParameter :: "input \<Rightarrow> input \<Rightarrow> node ifunction \<Rightarrow> node ifunction option" where
  "function_AddParameter name typ (Ifunction n r ps rs b c) =
     map_option (\<lambda>ps'. Ifunction n r ps' rs b c) (append_field (field name typ '' '' []) ps)"

fun function_AddResult :: "input \<Rightarrow> input \<Rightarrow> node ifunction \<Rightarrow> node ifunction option" where
  "function_AddResult name typ (Ifunction n r ps rs b c) =
     map_option (\<lambda>rs'. Ifunction n r ps rs' b c) (append_field (field name typ '' '' []) rs)"

fun function_AddBody :: "input list \<Rightarrow> node ifunction \<Rightarrow> node ifunction option" where
  "function_AddBody ns (Ifunction n r ps rs b c) = map_option (\<lambda>b'. Ifunction n r ps rs b' c) (group_append ns b)"

definition signature :: "string \<Rightarrow> node isignature" where
  "signature name = Isignature (newGroup [] [] [CHR 0x0A]) name (newGroup ''('' '')'' '','') results_group"

fun signature_AddParameter :: "input \<Rightarrow> input \<Rightarrow> node isignature \<Rightarrow> node isignature option" where
  "signature_AddParameter name typ (Isignature cs n ps rs) =
     map_option (\<lambda>ps'. Isignature cs n ps' rs) (append_field (field name typ '' '' []) ps)"

fun signature_AddResult :: "input \<Rightarrow> input \<Rightarrow> node isignature \<Rightarrow> node isignature option" where
  "signature_AddResult name typ (Isignature cs n ps rs) =
     map_option (\<lambda>rs'. Isignature cs n ps rs') (append_field (field name typ '' '' []) rs)"

text \<open>\<open>If\<close> and \<open>For\<close>: the condition and the body.\<close>

definition statement_body :: "node cgroup" where
  "statement_body = newGroup (CHR ''{'' # [CHR 0x0A]) (CHR 0x0A # ''}'') [CHR 0x0A]"

definition codegen_If :: "input \<Rightarrow> (node \<times> node cgroup) option" where
  "codegen_If judge = map_option (\<lambda>j. (j, statement_body)) (parseNode judge)"

definition codegen_For :: "input \<Rightarrow> (node \<times> node cgroup) option" where
  "codegen_For judge = map_option (\<lambda>j. (j, statement_body)) (parseNode judge)"

text \<open>\<open>AddBody\<close> of both.\<close>

definition body_AddBody :: "input list \<Rightarrow> node \<times> node cgroup \<Rightarrow> (node \<times> node cgroup) option" where
  "body_AddBody ns s = map_option (\<lambda>b. (fst s, b)) (group_append ns (snd s))"

fun case_AddBody :: "input list \<Rightarrow> node icase \<Rightarrow> node icase option" where
  "case_AddBody ns (Icase j b) = map_option (\<lambda>b'. Icase j b') (group_append ns b)"

definition Switch :: "input \<Rightarrow> node iswitch option" where
  "Switch judge = map_option (\<lambda>j. Iswitch j [] None) (parseNode judge)"

text \<open>\<open>NewCase\<close> and \<open>NewDefault\<close>: both append to the cases; the field \<open>defaultCase\<close> stays nil.\<close>

fun NewCase :: "node option \<Rightarrow> node iswitch \<Rightarrow> node iswitch \<times> nat" where
  "NewCase judge (Iswitch j cs d) = (Iswitch j (cs @ [Icase judge (newGroup [CHR 0x0A] [] [CHR 0x0A])]) d, length cs)"

definition NewDefault :: "node iswitch \<Rightarrow> node iswitch \<times> nat" where
  "NewDefault s = NewCase None s"

definition Continue :: node where
  "Continue = NString ''continue''"

definition Return :: "input list \<Rightarrow> node cgroup option" where
  "Return ns = group_append ns (newGroup [] [] '', '')"

definition Defer :: "input \<Rightarrow> node option" where
  "Defer body = map_option NDefer (parseNode body)"

section \<open>The operations of a group\<close>

definition AddPackage :: "string \<Rightarrow> node cgroup \<Rightarrow> node cgroup option" where
  "AddPackage name g = group_append [InNode (codegen_Package name)] g"

definition AddString :: "(string \<Rightarrow> 'a list \<Rightarrow> string) \<Rightarrow> string \<Rightarrow> 'a list \<Rightarrow> node cgroup \<Rightarrow> node cgroup option" where
  "AddString sprintf content args g = group_append [InNode (codegen_String sprintf content args)] g"

definition AddType :: "string \<Rightarrow> input \<Rightarrow> node cgroup \<Rightarrow> node cgroup option" where
  "AddType name typ g = append_field (codegen_Type name typ) g"

definition AddTypeAlias :: "string \<Rightarrow> input \<Rightarrow> node cgroup \<Rightarrow> node cgroup option" where
  "AddTypeAlias name typ g = append_field (TypeAlias name typ) g"

text \<open>
  \<open>NewX\<close> appends a pointer and returns it.  Items are only ever appended, so the pointer is the position of the item;
  what the caller does through it is \<open>edit_item\<close>.
\<close>

definition append_new :: "node \<Rightarrow> node cgroup \<Rightarrow> node cgroup \<times> nat" where
  "append_new n g = (add_items [n] g, cg_length g)"

definition edit_item :: "nat \<Rightarrow> (node \<Rightarrow> node) \<Rightarrow> node cgroup \<Rightarrow> node cgroup" where
  "edit_item k f g = Cgroup ((cg_items g)[k := f (cg_items g ! k)]) (cg_open g) (cg_close g) (cg_separator g) (cg_omit g)"

definition NewImport :: "node cgroup \<Rightarrow> node cgroup \<times> nat" where
  "NewImport g = append_new (NImport Import) g"

definition NewIf :: "input \<Rightarrow> node cgroup \<Rightarrow> (node cgroup \<times> nat) option" where
  "NewIf judge g = map_option (\<lambda>(j, b). append_new (NIf j b) g) (codegen_If judge)"

definition NewFor :: "input \<Rightarrow> node cgroup \<Rightarrow> (node cgroup \<times> nat) option" where
  "NewFor judge g = map_option (\<lambda>(j, b). append_new (NFor j b) g) (codegen_For judge)"

definition NewSwitch :: "input \<Rightarrow> node cgroup \<Rightarrow> (node cgroup \<times> nat) option" where
  "NewSwitch judge g = map_option (\<lambda>s. append_new (NSwitch s) g) (Switch judge)"

definition NewVar :: "node cgroup \<Rightarrow> node cgroup \<times> nat" where
  "NewVar g = append_new (NVar Var) g"

definition NewConst :: "node cgroup \<Rightarrow> node cgroup \<times> nat" where
  "NewConst g = append_new (NConst Const) g"

definition NewFunction :: "string \<Rightarrow> node cgroup \<Rightarrow> node cgroup \<times> nat" where
  "NewFunction name g = append_new (NFunction (codegen_Function name)) g"

definition NewStruct :: "string \<Rightarrow> node cgroup \<Rightarrow> node cgroup \<times> nat" where
  "NewStruct name g = append_new (case Struct name of (n, b) \<Rightarrow> NStruct n b) g"

definition NewInterface :: "string \<Rightarrow> node cgroup \<Rightarrow> node cgroup \<times> nat" where
  "NewInterface name g = append_new (case codegen_Interface name of (n, b) \<Rightarrow> NInterface n b) g"

text \<open>\<open>NewFunction\<close> of an interface.\<close>

definition interface_NewFunction :: "string \<Rightarrow> node cgroup \<Rightarrow> node cgroup \<times> nat" where
  "interface_NewFunction name g = append_new (NSignature (signature name)) g"

section \<open>Printing to a buffer of the pool and to files\<close>

text \<open>A function that gets a buffer, writes to it, reads it and frees it by \<open>defer\<close>, also when it panics.\<close>

definition with_buffer :: "nat option \<Rightarrow> (string \<Rightarrow> written) \<Rightarrow> pool \<Rightarrow> pool \<times> string option" where
  "with_buffer choice body p =
     (let (p1, i) = pool_Get choice p;
          r = body (pl_contents p1 i);
          p2 = p1\<lparr>pl_contents := (pl_contents p1)(i := fst r)\<rparr>
      in (buffer_Free i p2, if snd r then None else Some (buffer_String (pl_contents p2 i))))"

definition group_String :: "(string \<Rightarrow> string) \<Rightarrow> nat option \<Rightarrow> node cgroup \<Rightarrow> pool \<Rightarrow> pool \<times> string option" where
  "group_String q choice g p = with_buffer choice (\<lambda>buf. write_then (writeString buf) (render_group q g)) p"

definition lit_String :: "(string \<Rightarrow> string) \<Rightarrow> nat option \<Rightarrow> lit_value \<Rightarrow> pool \<Rightarrow> pool \<times> string option" where
  "lit_String q choice v p = with_buffer choice (\<lambda>buf. write_then (writeString buf) (lit_render q v)) p"

definition value_String :: "(string \<Rightarrow> string) \<Rightarrow> nat option \<Rightarrow> string \<times> node cgroup \<Rightarrow> pool \<Rightarrow> pool \<times> string option" where
  "value_String q choice v p =
     with_buffer choice (\<lambda>buf. write_then (writeString buf) (render q (NValue (fst v) (snd v)))) p"

text \<open>\<open>formatLineComment\<close> with the buffer of the pool.\<close>

definition formatLineComment_pooled :: "nat option \<Rightarrow> string \<Rightarrow> pool \<Rightarrow> pool \<times> string option" where
  "formatLineComment_pooled choice comment p =
     (case with_buffer choice (\<lambda>buf. writeString (comment_buffer comment buf)) p of
        (p', r) \<Rightarrow> (p', map_option (\<lambda>s. TrimSuffix s [CHR 0x0A]) r))"

text \<open>A generator is its group; \<open>NewGroup\<close> appends an empty one.\<close>

definition Generator_New :: "node cgroup" where
  "Generator_New = NewGroup"

definition Generator_NewGroup :: "node cgroup \<Rightarrow> node cgroup \<times> nat" where
  "Generator_NewGroup g = append_new (NGroup NewGroup) g"

definition Generator_Write :: "(string \<Rightarrow> string) \<Rightarrow> node cgroup \<Rightarrow> string \<Rightarrow> written" where
  "Generator_Write q g w = write_then (writeString w) (render_group q g)"

datatype gen_outcome = GenOk | GenError string | GenPanic

text \<open>Files by path; \<open>create\<close> and \<open>openf\<close> say whether the system refuses.  Neither operation closes the file.\<close>

definition WriteFile ::
    "(string \<Rightarrow> string) \<Rightarrow> (string \<Rightarrow> string option) \<Rightarrow> node cgroup \<Rightarrow> string \<Rightarrow> (string \<rightharpoonup> string) \<Rightarrow> (string \<rightharpoonup> string) \<times> gen_outcome" where
  "WriteFile q create g path files =
     (case create path of
        Some err \<Rightarrow> (files, GenError (''create file '' @ path @ '': '' @ err))
      | None \<Rightarrow> (let r = Generator_Write q g [] in (files(path \<mapsto> fst r), if snd r then GenPanic else GenOk)))"

definition AppendFile ::
    "(string \<Rightarrow> string) \<Rightarrow> (string \<Rightarrow> string option) \<Rightarrow> node cgroup \<Rightarrow> string \<Rightarrow> (string \<rightharpoonup> string) \<Rightarrow> (string \<rightharpoonup> string) \<times> gen_outcome" where
  "AppendFile q openf g path files =
     (case openf path of
        Some err \<Rightarrow> (files, GenError (''create file '' @ path @ '': '' @ err))
      | None \<Rightarrow>
          (case files path of
             None \<Rightarrow> (files, GenError (''create file '' @ path @ '': open '' @ path @ '': no such file or directory''))
           | Some old \<Rightarrow>
               (let r = Generator_Write q g old in (files(path \<mapsto> fst r), if snd r then GenPanic else GenOk))))"

section \<open>Brackets\<close>

definition bracket_pair :: "char \<Rightarrow> char \<Rightarrow> bool" where
  "bracket_pair opn cls \<longleftrightarrow> (opn, cls) \<in> {(CHR ''('', CHR '')''), (CHR ''['', CHR '']''), (CHR ''{'', CHR ''}'')}"

definition is_opening :: "char \<Rightarrow> bool" where
  "is_opening c \<longleftrightarrow> c \<in> set ''([{''"

definition is_closing :: "char \<Rightarrow> bool" where
  "is_closing c \<longleftrightarrow> c \<in> set '')]}''"

lemmas bracket_defs = bracket_pair_def is_opening_def is_closing_def

text \<open>The brackets that are open after a text, the innermost first; \<open>None\<close> when one closes that is not open.\<close>

fun open_after :: "string \<Rightarrow> string \<Rightarrow> string option" where
  "open_after st [] = Some st"
| "open_after st (c # cs) =
     (if is_opening c then open_after (c # st) cs
      else if is_closing c then
        (case st of [] \<Rightarrow> None | d # st' \<Rightarrow> if bracket_pair d c then open_after st' cs else None)
      else open_after st cs)"

definition matched :: "string \<Rightarrow> bool" where
  "matched s \<longleftrightarrow> open_after [] s = Some []"

lemma open_after_append: "open_after st (s @ t) = Option.bind (open_after st s) (\<lambda>st'. open_after st' t)"
  by (induction st s rule: open_after.induct) (simp_all split: list.splits)

lemma open_after_frame: "open_after st s = Some st' \<Longrightarrow> open_after (st @ r) s = Some (st' @ r)"
  by (induction st s rule: open_after.induct) (auto split: list.splits if_splits)

lemma matched_neutral: "matched s \<Longrightarrow> open_after st s = Some st"
  using open_after_frame [of "[]" s "[]" st] by (simp add: matched_def)

lemma matched_Nil [simp]: "matched []"
  by (simp add: matched_def)

lemma matched_Cons: "\<not> is_opening c \<Longrightarrow> \<not> is_closing c \<Longrightarrow> matched (c # s) = matched s"
  by (simp add: matched_def)

lemma matched_append [intro]: "matched s \<Longrightarrow> matched t \<Longrightarrow> matched (s @ t)"
  by (simp add: matched_def open_after_append)

lemma matched_wrap: "matched (a @ b) \<Longrightarrow> matched m \<Longrightarrow> matched (a @ m @ b)"
  by (auto simp: matched_def open_after_append matched_neutral [unfolded matched_def] bind_eq_Some_conv)

text \<open>Printing that ended without a panic and left matching brackets.\<close>

definition clean :: "written \<Rightarrow> bool" where
  "clean w \<longleftrightarrow> \<not> snd w \<and> matched (fst w)"

lemma cleanD: "clean w \<Longrightarrow> \<not> snd w" "clean w \<Longrightarrow> matched (fst w)"
  by (simp_all add: clean_def)

lemma clean_write: "clean (writeString s) \<longleftrightarrow> matched s"
  by (simp add: clean_def writeString_def)

lemma clean_then [intro]: "clean a \<Longrightarrow> clean b \<Longrightarrow> clean (write_then a b)"
  by (auto simp: clean_def write_then_def)

lemma clean_wrap: "matched (a @ b) \<Longrightarrow> clean m \<Longrightarrow> clean (write_then (writeString a) (write_then m (writeString b)))"
  by (auto simp: clean_def write_then_def writeString_def intro: matched_wrap)

lemma write_then_assoc: "write_then (write_then a b) c = write_then a (write_then b c)"
  by (simp add: write_then_def)

lemma write_then_text: "snd (write_then (writeString s) w) = snd w" "fst (write_then (writeString s) w) = s @ fst w"
  by (simp_all add: write_then_def writeString_def)

section \<open>Well-formed trees\<close>

text \<open>
  Literals have a supported type, the texts of the leaves have matching brackets, and what a group opens it closes.  The texts
  are those that are not made here: the caller's, the names of types, and what \<open>strconv\<close> prints for strings, floats and
  complex numbers.
\<close>

definition lit_ok :: "(string \<Rightarrow> string) \<Rightarrow> lit_value \<Rightarrow> bool" where
  "lit_ok q v =
     (case v of
        LitBool b \<Rightarrow> True
      | LitString s \<Rightarrow> matched (q s)
      | LitInt i \<Rightarrow> True
      | LitComplex128 s \<Rightarrow> matched s
      | LitFloat64 s \<Rightarrow> matched s
      | LitFloat32 s \<Rightarrow> matched s
      | LitIntN t i \<Rightarrow> matched t
      | LitUintN t n \<Rightarrow> matched t
      | LitComplex64 s \<Rightarrow> matched s
      | LitOther \<Rightarrow> False)"

definition tags_ok :: "(string \<times> string) list \<Rightarrow> bool" where
  "tags_ok ts = list_all (\<lambda>(k, v). matched k \<and> matched v) ts"

definition wrap_ok :: "string \<Rightarrow> string \<Rightarrow> string \<Rightarrow> bool" where
  "wrap_ok opn cls sep \<longleftrightarrow> matched (opn @ cls) \<and> matched sep"

lemma wrap_okD: "wrap_ok opn cls sep \<Longrightarrow> matched sep"
  by (simp add: wrap_ok_def)

fun wf_node :: "(string \<Rightarrow> string) \<Rightarrow> node \<Rightarrow> bool"
  and wf_nodes :: "(string \<Rightarrow> string) \<Rightarrow> node list \<Rightarrow> bool"
  and wf_group :: "(string \<Rightarrow> string) \<Rightarrow> node cgroup \<Rightarrow> bool"
  and wf_call :: "(string \<Rightarrow> string) \<Rightarrow> node icall \<Rightarrow> bool"
  and wf_function :: "(string \<Rightarrow> string) \<Rightarrow> node ifunction \<Rightarrow> bool"
  and wf_signature :: "(string \<Rightarrow> string) \<Rightarrow> node isignature \<Rightarrow> bool"
  and wf_case :: "(string \<Rightarrow> string) \<Rightarrow> node icase \<Rightarrow> bool"
  and wf_cases :: "(string \<Rightarrow> string) \<Rightarrow> node icase list \<Rightarrow> bool"
  and wf_switch :: "(string \<Rightarrow> string) \<Rightarrow> node iswitch \<Rightarrow> bool" where
  "wf_node q (NString s) = matched s"
| "wf_node q (NLit v) = lit_ok q v"
| "wf_node q (NPackage name) = matched name"
| "wf_node q (NType name item sep) = (matched name \<and> matched sep \<and> wf_node q item)"
| "wf_node q (NField name typ val sep tags) =
     (wf_node q name \<and> (case typ of None \<Rightarrow> True | Some t \<Rightarrow> wf_node q t) \<and>
      (case val of None \<Rightarrow> True | Some v \<Rightarrow> wf_node q v) \<and> matched sep \<and> tags_ok tags)"
| "wf_node q (NCall c) = wf_call q c"
| "wf_node q (NFunction f) = wf_function q f"
| "wf_node q (NSignature s) = wf_signature q s"
| "wf_node q (NInterface name g) = (matched name \<and> wf_group q g)"
| "wf_node q (NStruct name g) = (matched name \<and> wf_group q g)"
| "wf_node q (NIf judge body) = (wf_node q judge \<and> wf_group q body)"
| "wf_node q (NFor judge body) = (wf_node q judge \<and> wf_group q body)"
| "wf_node q (NCase c) = wf_case q c"
| "wf_node q (NSwitch s) = wf_switch q s"
| "wf_node q (NReturn g) = wf_group q g"
| "wf_node q (NDefer body) = wf_node q body"
| "wf_node q (NValue typ g) = (matched typ \<and> wf_group q g)"
| "wf_node q (NImport g) = wf_group q g"
| "wf_node q (NConst g) = wf_group q g"
| "wf_node q (NVar g) = wf_group q g"
| "wf_node q (NGroup g) = wf_group q g"
| "wf_nodes q [] = True"
| "wf_nodes q (n # ns) = (wf_node q n \<and> wf_nodes q ns)"
| "wf_group q (Cgroup ns opn cls sep om) = (wrap_ok opn cls sep \<and> wf_nodes q ns)"
| "wf_call q (Icall ow name args calls) =
     ((case ow of None \<Rightarrow> True | Some x \<Rightarrow> wf_node q x) \<and> matched name \<and> wf_group q args \<and> wf_group q calls)"
| "wf_function q (Ifunction name receiver params results body call) =
     ((case receiver of None \<Rightarrow> True | Some r \<Rightarrow> wf_node q r) \<and> matched name \<and> wf_group q params \<and> wf_group q results \<and>
      wf_group q body \<and> (case call of None \<Rightarrow> True | Some c \<Rightarrow> wf_call q c))"
| "wf_signature q (Isignature comments name params results) = (matched name \<and> wf_group q params \<and> wf_group q results)"
| "wf_case q (Icase judge body) = ((case judge of None \<Rightarrow> True | Some j \<Rightarrow> wf_node q j) \<and> wf_group q body)"
| "wf_cases q [] = True"
| "wf_cases q (c # cs) = (wf_case q c \<and> wf_cases q cs)"
| "wf_switch q (Iswitch judge cs dflt) =
     (wf_node q judge \<and> wf_cases q cs \<and> (case dflt of None \<Rightarrow> True | Some c \<Rightarrow> wf_case q c))"

text \<open>What the printer adds around the leaves of literals and tags matches.\<close>

lemma matched_plain: "list_all (\<lambda>c. \<not> is_opening c \<and> \<not> is_closing c) s \<Longrightarrow> matched s"
  by (induction s) (auto simp: matched_Cons)

lemma matched_show_nat [simp]: "matched (show_nat n)"
proof (rule matched_plain)
  have "\<not> is_opening c \<and> \<not> is_closing c" if "is_digit c" for c
    using that by (auto simp: is_digit_def bracket_defs)
  then show "list_all (\<lambda>c. \<not> is_opening c \<and> \<not> is_closing c) (show_nat n)"
    using show_nat_digits [of n] by (auto simp: list_all_iff)
qed

lemma matched_Itoa [simp]: "matched (Itoa i)"
  by (auto simp: Itoa_def matched_Cons bracket_defs)

lemma matched_hex_nat [simp]: "matched (hex_nat n)"
proof (induction n rule: hex_nat.induct)
  case (1 n)
  have "matched [''0123456789abcdef'' ! k]" if "k < 16" for k
  proof -
    have "list_all (\<lambda>k. matched [''0123456789abcdef'' ! k]) [0..<16]" by code_simp
    with that show ?thesis by (simp add: list_all_iff)
  qed
  with 1 show ?case by (subst hex_nat.simps) auto
qed

lemma matched_parens: "matched s \<Longrightarrow> matched (''('' @ s @ '')'')"
  by (rule matched_wrap) (simp_all add: matched_def bracket_defs)

lemma matched_hex_parens: "matched (''(0x'' @ hex_nat n @ '')'')"
  using matched_parens [of "''0x'' @ hex_nat n"] by (simp add: matched_Cons bracket_defs)

lemma clean_lit: "lit_ok q v \<Longrightarrow> clean (lit_render q v)"
  by (cases v)
    (auto simp: lit_ok_def lit_render_def clean_write matched_Cons bracket_defs
      intro!: matched_append matched_hex_parens [simplified] matched_parens [simplified] matched_append [of _ "''('' @ _ @ '')''", simplified])

lemma matched_Join: "list_all matched xs \<Longrightarrow> matched sep \<Longrightarrow> matched (Join xs sep)"
  by (induction xs rule: induct_list012) auto

lemma matched_tags: "tags_ok ts \<Longrightarrow> matched (tags_text ts)"
proof -
  assume "tags_ok ts"
  then have "list_all matched (map (\<lambda>(k, v). k @ '':'' @ [CHR 0x22] @ v @ [CHR 0x22]) ts)"
    by (induction ts) (auto simp: tags_ok_def matched_Cons bracket_defs intro!: matched_append)
  from matched_Join [OF this, of "'' ''"] show ?thesis
    by (auto simp: tags_text_def matched_Cons bracket_defs intro!: matched_append)
qed

lemma clean_group:
  assumes "wrap_ok opn cls sep" and "clean m"
  shows "clean (write_then (writeString (if opn \<noteq> [] \<and> \<not> om then opn else []))
           (write_then m (writeString (if cls \<noteq> [] \<and> \<not> om then cls else []))))"
proof (rule clean_wrap [OF _ assms(2)])
  show "matched ((if opn \<noteq> [] \<and> \<not> om then opn else []) @ (if cls \<noteq> [] \<and> \<not> om then cls else []))"
    using assms(1) by (auto simp: wrap_ok_def)
qed

lemma clean_render_group:
  "wrap_ok opn cls sep \<Longrightarrow> clean (render_items q sep True ns) \<Longrightarrow> clean (render_group q (Cgroup ns opn cls sep om))"
  by (simp only: render_group.simps) (rule clean_group)

lemma clean_render_switch:
  assumes "clean (render q j)" "clean (render_cases q cs)"
    and "clean (case d of None \<Rightarrow> writeString [] | Some c \<Rightarrow> write_then (render_case q c) (writeString [CHR 0x0A]))" (is "clean ?d")
  shows "clean (render_switch q (Iswitch j cs d))"
proof -
  have "clean (write_then (writeString (CHR ''{'' # [CHR 0x0A])) (write_then (write_then (render_cases q cs) ?d) (writeString ''}'')))"
    by (rule clean_wrap [OF _ clean_then [OF assms(2,3)]]) (simp add: matched_def bracket_defs)
  from clean_then [OF _ clean_then [OF assms(1) this], of "writeString ''switch ''"] show ?thesis
    by (simp only: render_switch.simps write_then_assoc) (simp add: clean_write matched_Cons bracket_defs)
qed

lemma clean_parenthesised: "clean a \<Longrightarrow> clean (parenthesised a)"
  unfolding parenthesised_def by (rule clean_wrap) (simp_all add: matched_def bracket_defs)

lemma render_clean:
  "wf_node q n \<Longrightarrow> clean (render q n)"
  "matched sep \<Longrightarrow> wf_nodes q ns \<Longrightarrow> clean (render_items q sep isfirst ns)"
  "wf_group q g \<Longrightarrow> clean (render_group q g)"
  "wf_call q c \<Longrightarrow> clean (render_call q c)"
  "wf_function q f \<Longrightarrow> clean (render_function q f)"
  "wf_signature q s \<Longrightarrow> clean (render_signature q s)"
  "wf_case q cc \<Longrightarrow> clean (render_case q cc)"
  "wf_cases q cs \<Longrightarrow> clean (render_cases q cs)"
  "wf_switch q sw \<Longrightarrow> clean (render_switch q sw)"
proof (induction q n and q sep isfirst ns and q g and q c and q f and q s and q cc and q cs and q sw
    rule: render_render_items_render_group_render_call_render_function_render_signature_render_case_render_cases_render_switch.induct)
qed (auto simp del: render_group.simps render_switch.simps
    simp: clean_write clean_lit matched_tags clean_parenthesised wrap_okD matched_Cons bracket_defs Let_def
    dest: cleanD intro!: clean_then matched_append clean_render_group clean_render_switch split: option.splits)

text \<open>The groups of the package start well-formed, and appending well-formed inputs keeps them so.\<close>

definition input_ok :: "(string \<Rightarrow> string) \<Rightarrow> input \<Rightarrow> bool" where
  "input_ok q x = (case x of InNode n \<Rightarrow> wf_node q n | InString s \<Rightarrow> matched s | InOther \<Rightarrow> True)"

lemma starting_groups_wf:
  "wf_group q NewGroup" "wf_group q Import" "wf_group q Const" "wf_group q Var" "wf_group q results_group" "wf_group q statement_body"
  "wf_group q (snd (Struct name))" "wf_group q (snd (codegen_Interface name))" "wf_group q (snd (codegen_Value name))"
  "matched name \<Longrightarrow> wf_function q (codegen_Function name)" "matched name \<Longrightarrow> wf_call q (codegen_Call name)"
  "matched name \<Longrightarrow> wf_signature q (signature name)"
  by (simp_all add: NewGroup_def newGroup_def Import_def Const_def Var_def results_group_def statement_body_def Struct_def
      codegen_Interface_def codegen_Value_def codegen_Function_def codegen_Call_def signature_def wrap_ok_def matched_def bracket_defs)

lemma wf_nodes_append: "wf_nodes q (ns @ ms) \<longleftrightarrow> wf_nodes q ns \<and> wf_nodes q ms"
  by (induction ns) auto

lemma parseNodes_wf: "parseNodes xs = Some ns \<Longrightarrow> list_all (input_ok q) xs \<Longrightarrow> wf_nodes q ns"
  by (induction xs arbitrary: ns) (auto simp: parseNode_def input_ok_def split: option.splits input.splits)

lemma group_append_wf: "group_append xs g = Some g' \<Longrightarrow> wf_group q g \<Longrightarrow> list_all (input_ok q) xs \<Longrightarrow> wf_group q g'"
  by (cases g) (auto simp: group_append_def add_items_def wf_nodes_append parseNodes_wf split: if_splits)

lemma field_wf:
  "field name val sep tags = Some n \<Longrightarrow> input_ok q name \<Longrightarrow> input_ok q val \<Longrightarrow> matched sep \<Longrightarrow> tags_ok tags \<Longrightarrow> wf_node q n"
  by (auto simp: field_def parseNode_def input_ok_def split: option.splits input.splits)

text \<open>So a function that gets a body, or a struct that gets a field, stays well-formed.\<close>

lemma function_AddBody_wf:
  "function_AddBody ns f = Some f' \<Longrightarrow> wf_function q f \<Longrightarrow> list_all (input_ok q) ns \<Longrightarrow> wf_function q f'"
  by (cases f) (auto dest: group_append_wf)

lemma struct_AddField_wf:
  "struct_AddField name typ tags g = Some g' \<Longrightarrow> wf_group q g \<Longrightarrow> input_ok q name \<Longrightarrow> input_ok q typ \<Longrightarrow>
     tags_ok tags \<Longrightarrow> wf_group q g'"
  by (auto simp: struct_AddField_def append_field_def matched_Cons bracket_defs input_ok_def [of q "InNode _"]
      split: option.splits dest!: field_wf group_append_wf)

section \<open>What is shown\<close>


definition sample_function :: "node ifunction" where
  "sample_function =
     the (Option.bind (function_AddResult (InString []) (InString ''int'') (codegen_Function ''Test''))
            (\<lambda>f. function_AddBody [InString ''return f(1)''] f))"


lemma foldl_comment_word: "foldl comment_word buf ws = buf @ concat (map (\<lambda>w. '' '' @ w) ws)"
  by (induction ws arbitrary: buf) (simp_all add: comment_word_def AppendString_def)

lemma concat_words: "ws \<noteq> [] \<Longrightarrow> concat (map (\<lambda>w. '' '' @ w) ws) = '' '' @ Join ws '' ''"
  by (induction ws rule: induct_list012) (simp_all add: Join_Cons)

lemma comment_line_text: "comment_line buf line = buf @ ''// '' @ line @ [CHR 0x0A]"
  by (simp add: comment_line_def foldl_comment_word concat_words [simplified] Join_Split AppendString_def)

lemma foldl_comment_line: "foldl comment_line buf ls = buf @ concat (map (\<lambda>l. ''// '' @ l @ [CHR 0x0A]) ls)"
  by (induction ls arbitrary: buf) (simp_all add: comment_line_text)

lemma concat_lines: "ls \<noteq> [] \<Longrightarrow> concat (map (\<lambda>l. ''// '' @ l @ nl) ls) = Join (map (\<lambda>l. ''// '' @ l) ls) nl @ nl"
  by (induction ls rule: induct_list012) simp_all

lemma TrimSuffix_append: "TrimSuffix (s @ p) p = s"
  by (simp add: TrimSuffix_def HasSuffix_iff)

lemma formatLineComment_text:
  "formatLineComment c = Join (map (\<lambda>l. ''// '' @ l) (Split (TrimSpace c) (CHR 0x0A))) [CHR 0x0A]"
  by (simp add: formatLineComment_def comment_buffer_def foldl_comment_line concat_lines [simplified] TrimSuffix_append)

text \<open>
  A line comment has exactly the lines of the trimmed text, each behind two slashes and a blank: whatever the text is,
  no line of it is outside a comment.
\<close>

theorem LineComment_lines:
  "Split (formatLineComment c) (CHR 0x0A) = map (\<lambda>l. ''// '' @ l) (Split (TrimSpace c) (CHR 0x0A))"
  unfolding formatLineComment_text by (rule Split_Join) (auto dest: Split_no_sep)

text \<open>The pointer that \<open>NewX\<close> returns.\<close>

text \<open>
  What a caller does to a node through the pointer that it got when the node was appended is printed as if the node had
  been built that way before, whatever was appended in between.
\<close>

theorem edit_through_pointer:
  assumes "append_new n g = (g1, k)" and "group_append xs g1 = Some g2"
  shows "group_append xs (add_items [f n] g) = Some (edit_item k f g2)"
proof -
  from assms(1) have g1: "g1 = add_items [n] g" "k = length (cg_items g)" by (simp_all add: append_new_def cg_length_def)
  show ?thesis
  proof (cases "parseNodes xs")
    case None
    with assms(2) show ?thesis by (cases xs) (auto simp: group_append_def split: if_splits)
  next
    case (Some ns)
    with assms(2) g1 show ?thesis
      by (cases "xs = []") (auto simp: group_append_def edit_item_def add_items_def nth_append list_update_append split: if_splits)
  qed
qed

theorem edit_through_pointer_witness:
  "group_append [InString ''x''] (add_items [NVar Const] NewGroup) =
     Some (edit_item 0 (\<lambda>n. NVar Const) (add_items [NString ''x''] (add_items [NImport Import] NewGroup)))"
proof -
  have "append_new (NImport Import) NewGroup = (add_items [NImport Import] NewGroup, 0)"
    by (simp add: append_new_def NewGroup_def newGroup_def cg_length_def)
  from edit_through_pointer [OF this, of "[InString ''x'']" "add_items [NString ''x''] (add_items [NImport Import] NewGroup)" "\<lambda>n. NVar Const"]
  show ?thesis by (simp add: group_append_def parseNode_def)
qed

text \<open>
  C36: \<open>String\<close> of a group, with any buffer that the pool gives after any disciplined use of it, is exactly the printed text,
  and the buffer is back in the pool, empty and held by nobody.
\<close>

theorem group_String_exact:
  assumes "admissible disciplined pool_step pool_New xs" and "p = run_ops pool_step pool_New xs" and "disciplined p (PGet c)"
    and "group_String q c g p = (p', r)"
  shows "r = (if snd (render_group q g) then None else Some (fst (render_group q g))) \<and> pool_inv p' \<and> pl_held p' = pl_held p \<and>
    snd (pool_Get c p) \<in> set (pl_pooled p') \<and> pl_contents p' (snd (pool_Get c p)) = []"
proof -
  have "pool_inv pool_New" by (simp add: pool_inv_def pool_New_def)
  then have p: "pool_inv p" unfolding assms(2) by (rule pools.run_inv [OF _ assms(1)])
  obtain p1 i where g: "pool_Get c p = (p1, i)" by (cases "pool_Get c p")
  have e: "pl_contents p1 i = []" "pl_held p1 = i # pl_held p" "i \<notin> set (pl_held p)"
    using p assms(3) g by (auto simp: pool_inv_def disciplined_def pool_Get_def Let_def split: option.splits)
  have "p1 = pool_step p (PGet c)" using g by (simp add: pool_step_def)
  with p assms(3) have p1: "pool_inv p1" using pool_inv_step by simp
  let ?f = "\<lambda>s. fst (write_then (writeString s) (render_group q g))"
  have "pool_inv (pool_step (pool_step p1 (PWrite i ?f)) (PFree i))"
    using e by (intro pool_inv_step p1) (simp_all add: disciplined_def pool_step_def)
  moreover have "p' = pool_step (pool_step p1 (PWrite i ?f)) (PFree i)"
    using assms(4) g by (simp add: group_String_def with_buffer_def pool_step_def Let_def)
  moreover have "pl_held p' = pl_held p" "snd (pool_Get c p) \<in> set (pl_pooled p')" "pl_contents p' (snd (pool_Get c p)) = []"
    using calculation(2) e g by (simp_all add: pool_step_def buffer_Free_def buffer_Reset_def)
  moreover have "r = (if snd (render_group q g) then None else Some (fst (render_group q g)))"
    using assms(4) g e(1) by (auto simp: group_String_def with_buffer_def write_then_text buffer_String_def Let_def)
  ultimately show ?thesis by simp
qed

theorem group_String_exact_witness:
  "snd (group_String id (Some 0) (add_items [Line] NewGroup) (run_ops pool_step pool_New pool_sample)) = Some [CHR 0x0A]"
proof -
  have "admissible disciplined pool_step pool_New pool_sample" "disciplined (run_ops pool_step pool_New pool_sample) (PGet (Some 0))"
    by (simp_all add: pool_sample_def disciplined_def pool_step_def pool_Get_def buffer_Free_def pool_New_def Let_def)
  from group_String_exact [OF this(1) refl this(2) prod.collapse [symmetric], of id "add_items [Line] NewGroup"]
  show ?thesis
    by (simp add: Line_def NewGroup_def newGroup_def add_items_def write_then_def writeString_def)
qed

section \<open>What the printer gets wrong\<close>

text \<open>\<open>TypeAlias\<close> prints a type definition: it has two blanks where an alias has an equals sign.\<close>

theorem TypeAlias_prints_definition:
  "map_option (\<lambda>n. fst (render q n)) (TypeAlias ''A'' (InString ''B'')) = Some ''type A  B''"
  by (simp add: TypeAlias_def parseNode_def write_then_def writeString_def)

text \<open>
  A line comment at the end of an interface or of a function body swallows the closing brace, which the groups of \<open>Struct\<close>,
  \<open>If\<close> and \<open>For\<close> put on a line of its own.
\<close>

theorem interface_comment_swallows_brace:
  "fst (render q (NInterface ''I'' (the (AddLineComment (\<lambda>f as. f) ''done'' ([] :: nat list) (snd (codegen_Interface ''I'')))))) =
     ''type I interface{'' @ [CHR 0x0A] @ ''// done}''"
proof -
  have "formatLineComment ''done'' = ''// done''" by (simp add: formatLineComment_text TrimSpace_def is_space_def)
  then show ?thesis
    by (simp add: AddLineComment_def codegen_Interface_def LineComment_def group_append_def parseNode_def newGroup_def add_items_def
        write_then_def writeString_def shouldOmitWrap_def)
qed

text \<open>Infinities and NaN get \<open>.0\<close> appended, which is no Go expression.\<close>

theorem infinite_literal: "lit_render q (LitFloat64 ''+Inf'') = (''+Inf.0'', False)"
  by (simp add: lit_render_def writeString_def HasPrefix_def)

end
