(* ===== verification/Http_Tracer.thy ===== *)
theory Http_Tracer
  imports Go_Prelude
begin

text \<open>
  \<open>helm/v3/tracer\<close>: the round tripper that records which objects the Helm client touches.

  The nested round tripper is an argument; it gets the request with the body that is left to read.  Reading a body gives what
  could be read and an error when the reader failed.  The log entry and what is written for a verbose tracer are not part of
  the result, except for the writer's text.

  Shown: a request for one object, by the path that the API server gives it, records exactly that object, and the response
  reaches the caller as the nested round tripper gave it.
\<close>

section \<open>The tracer\<close>

record traced_resource =
  tr_Group :: string
  tr_Version :: string
  tr_Resource :: string
  tr_Name :: string
  tr_Namespace :: string

text \<open>A body: what reading it gives, and the error at its end; reading consumes it.\<close>

record body_reader =
  br_text :: string
  br_error :: "string option"

record traced_request =
  rq_Method :: string
  rq_Path :: string
  rq_URL :: string
  rq_Body :: "body_reader option"

record traced_response =
  rs_Status :: string
  rs_Body :: "body_reader option"

record http_tracer =
  tc_resources :: "traced_resource list"
  tc_verbose :: bool
  tc_writer :: "string option"

definition NewTracer :: "bool \<Rightarrow> http_tracer" where
  "NewTracer verb = \<lparr>tc_resources = [], tc_verbose = verb, tc_writer = None\<rparr>"

definition WithWriter :: "string \<Rightarrow> http_tracer \<Rightarrow> http_tracer" where
  "WithWriter w t = t\<lparr>tc_writer := Some w\<rparr>"

definition GetResources :: "http_tracer \<Rightarrow> traced_resource list" where
  "GetResources t = tc_resources t"

text \<open>Which resource a path names, by the number of its parts.\<close>

definition is_api :: "string list \<Rightarrow> bool" where
  "is_api s \<longleftrightarrow> s ! 1 = ''apis'' \<or> s ! 1 = ''api''"

definition traced :: "string \<Rightarrow> traced_resource option" where
  "traced path =
     (let s = Split path (CHR ''/'') in
      if length s > 2 then
        if length s = 8 \<and> is_api s \<and> s ! 4 = ''namespaces''
        then Some \<lparr>tr_Group = s ! 2, tr_Version = s ! 3, tr_Resource = s ! 6, tr_Name = s ! 7, tr_Namespace = s ! 5\<rparr>
        else if length s = 7 \<and> is_api s \<and> s ! 3 = ''namespaces''
        then Some \<lparr>tr_Group = [], tr_Version = s ! 2, tr_Resource = s ! 5, tr_Name = s ! 6, tr_Namespace = s ! 4\<rparr>
        else if length s = 6 \<and> is_api s
        then Some \<lparr>tr_Group = s ! 2, tr_Version = s ! 3, tr_Resource = s ! 4, tr_Name = s ! 5, tr_Namespace = []\<rparr>
        else if length s = 5 \<and> is_api s
        then Some \<lparr>tr_Group = [], tr_Version = s ! 2, tr_Resource = s ! 3, tr_Name = s ! 4, tr_Namespace = []\<rparr>
        else None
      else None)"

text \<open>
  Reading a body to log it: the text and the body that is left.  After an error the text stays empty, and the body is what
  the reader has left, which is nothing but its error.
\<close>

definition read_body :: "bool \<Rightarrow> body_reader option \<Rightarrow> string \<times> body_reader option" where
  "read_body verb b =
     (case b of
        None \<Rightarrow> ([], None)
      | Some r \<Rightarrow>
          if \<not> verb then ([], Some r)
          else (case br_error r of
                  None \<Rightarrow> (br_text r, Some \<lparr>br_text = br_text r, br_error = None\<rparr>)
                | Some e \<Rightarrow> ([], Some \<lparr>br_text = [], br_error = Some e\<rparr>)))"

definition trace_line :: "string \<Rightarrow> string \<Rightarrow> string" where
  "trace_line label v = label @ v @ [CHR 0x0A]"

definition trace_text :: "traced_request \<Rightarrow> string \<Rightarrow> traced_response \<Rightarrow> string \<Rightarrow> string" where
  "trace_text req reqBody resp respBody =
     trace_line ''--- HTTP Request ---'' [] @ trace_line ''Method: '' (rq_Method req) @ trace_line ''URL: '' (rq_URL req) @
     trace_line ''Request Body: '' reqBody @ trace_line ''Response Status: '' (rs_Status resp) @
     trace_line ''Response Body: '' respBody @ ''--------------------'' @ [CHR 0x0A, CHR 0x0A]"

definition tracer_RoundTrip ::
    "(traced_request \<Rightarrow> string + traced_response) \<Rightarrow> traced_request \<Rightarrow> http_tracer \<Rightarrow> http_tracer \<times> (string + traced_response)" where
  "tracer_RoundTrip nested req t =
     (let (reqBody, left) = read_body (tc_verbose t) (rq_Body req); req' = req\<lparr>rq_Body := left\<rparr> in
      case nested req' of
        Inl err \<Rightarrow> (t, Inl err)
      | Inr resp \<Rightarrow>
          (let t1 = (case traced (rq_Path req') of None \<Rightarrow> t | Some r \<Rightarrow> t\<lparr>tc_resources := tc_resources t @ [r]\<rparr>) in
           if \<not> tc_verbose t then (t1, Inr resp)
           else
             (let (respBody, rest) = read_body True (rs_Body resp);
                  resp' = resp\<lparr>rs_Body := rest\<rparr>;
                  t2 = t1\<lparr>tc_writer := map_option (\<lambda>w. w @ trace_text req' reqBody resp' respBody) (tc_writer t1)\<rparr>
              in (t2, Inr resp'))))"

section \<open>What is recorded\<close>

text \<open>The path of one object at an API server.\<close>

definition object_path :: "traced_resource \<Rightarrow> string" where
  "object_path r =
     (if tr_Group r = [] then Join [[], ''api'', tr_Version r] ''/'' else Join [[], ''apis'', tr_Group r, tr_Version r] ''/'') @
     (if tr_Namespace r = [] then [] else ''/namespaces/'' @ tr_Namespace r) @ ''/'' @ tr_Resource r @ ''/'' @ tr_Name r"

definition segments_ok :: "traced_resource \<Rightarrow> bool" where
  "segments_ok r \<longleftrightarrow> list_all (\<lambda>s. CHR ''/'' \<notin> set s) [tr_Group r, tr_Version r, tr_Resource r, tr_Name r, tr_Namespace r]"

lemma Split_seg: "CHR ''/'' \<notin> set p \<Longrightarrow> Split (p @ CHR ''/'' # s) (CHR ''/'') = p # Split s (CHR ''/'')"
  by (rule Split_append)

lemma traced_object:
  assumes "segments_ok r"
  shows "traced (object_path r) = Some r"
proof -
  obtain g v rs n ns where r: "r = \<lparr>tr_Group = g, tr_Version = v, tr_Resource = rs, tr_Name = n, tr_Namespace = ns\<rparr>" by (cases r)
  have s: "Split (''api/'' @ t) (CHR ''/'') = ''api'' # Split t (CHR ''/'')" "Split (''apis/'' @ t) (CHR ''/'') = ''apis'' # Split t (CHR ''/'')"
    "Split (''namespaces/'' @ t) (CHR ''/'') = ''namespaces'' # Split t (CHR ''/'')" for t
    using Split_seg [of "''api''" t] Split_seg [of "''apis''" t] Split_seg [of "''namespaces''" t] by simp_all
  have "Split (object_path r) (CHR ''/'') =
      [[]] @ (if g = [] then [''api''] else [''apis'', g]) @ [v] @ (if ns = [] then [] else [''namespaces'', ns]) @ [rs, n]"
    using assms unfolding r segments_ok_def object_path_def
    by (simp add: Split_seg Split_single s [simplified])
  then show ?thesis by (simp add: traced_def is_api_def r Let_def)
qed

definition readable :: "body_reader option \<Rightarrow> bool" where
  "readable b = (case b of None \<Rightarrow> True | Some r \<Rightarrow> br_error r = None)"

lemma read_body_readable: "readable b \<Longrightarrow> snd (read_body verb b) = b"
  by (auto simp: readable_def read_body_def split: option.splits)

text \<open>
  For a request whose path is that of one object, the caller gets exactly what the nested round tripper answers, verbose or
  not, as long as the bodies can be read; and the object is recorded after a response, nothing after an error.
\<close>

theorem tracer_RoundTrip_records:
  assumes "segments_ok r" and "rq_Path req = object_path r" and "readable (rq_Body req)"
    and "case nested req of Inl e \<Rightarrow> True | Inr resp \<Rightarrow> readable (rs_Body resp)"
  shows "snd (tracer_RoundTrip nested req t) = nested req \<and>
    GetResources (fst (tracer_RoundTrip nested req t)) = GetResources t @ (case nested req of Inl e \<Rightarrow> [] | Inr resp \<Rightarrow> [r])"
proof -
  have b: "req\<lparr>rq_Body := snd (read_body (tc_verbose t) (rq_Body req))\<rparr> = req" using read_body_readable [OF assms(3)] by simp
  have p: "traced (rq_Path req) = Some r" using traced_object [OF assms(1)] assms(2) by simp
  show ?thesis
  proof (cases "nested req")
    case (Inl e)
    with b show ?thesis by (simp add: tracer_RoundTrip_def GetResources_def split_beta Let_def)
  next
    case (Inr resp)
    with assms(4) have "resp\<lparr>rs_Body := snd (read_body True (rs_Body resp))\<rparr> = resp" by (simp add: read_body_readable)
    with Inr b p show ?thesis by (simp add: tracer_RoundTrip_def GetResources_def split_beta Let_def)
  qed
qed

definition sample_traced :: traced_resource where
  "sample_traced = \<lparr>tr_Group = ''apps'', tr_Version = ''v1'', tr_Resource = ''deployments'', tr_Name = ''web'', tr_Namespace = ''prod''\<rparr>"

theorem tracer_RoundTrip_records_witness:
  "GetResources (fst (tracer_RoundTrip (\<lambda>req. Inr \<lparr>rs_Status = ''200 OK'', rs_Body = rq_Body req\<rparr>)
     \<lparr>rq_Method = ''GET'', rq_Path = ''/apis/apps/v1/namespaces/prod/deployments/web'', rq_URL = [], rq_Body = None\<rparr> (NewTracer True))) =
     [sample_traced]"
proof -
  have "segments_ok sample_traced" "object_path sample_traced = ''/apis/apps/v1/namespaces/prod/deployments/web''"
    by (simp_all add: sample_traced_def segments_ok_def object_path_def)
  from tracer_RoundTrip_records [of sample_traced "\<lparr>rq_Method = ''GET'', rq_Path = object_path sample_traced, rq_URL = [], rq_Body = None\<rparr>"
      "\<lambda>req. Inr \<lparr>rs_Status = ''200 OK'', rs_Body = rq_Body req\<rparr>" "NewTracer True"] this
  show ?thesis by (simp add: readable_def NewTracer_def GetResources_def)
qed

text \<open>
  The path of a collection, to which objects are created, is read as that of an object: creating a config map records the
  object \<open>configmaps\<close> of the resource that has the name of the namespace.
\<close>

theorem collection_recorded_as_object:
  "traced ''/api/v1/namespaces/prod/configmaps'' =
     Some \<lparr>tr_Group = ''v1'', tr_Version = ''namespaces'', tr_Resource = ''prod'', tr_Name = ''configmaps'', tr_Namespace = []\<rparr>"
  by (simp add: traced_def is_api_def)

text \<open>A verbose tracer whose reading of the body fails sends the request all the same, with what had been read missing.\<close>

theorem broken_body_is_sent:
  "snd (tracer_RoundTrip (\<lambda>req. Inr \<lparr>rs_Status = (case rq_Body req of None \<Rightarrow> [] | Some b \<Rightarrow> br_text b), rs_Body = None\<rparr>)
     \<lparr>rq_Method = ''POST'', rq_Path = [], rq_URL = [], rq_Body = Some \<lparr>br_text = ''half'', br_error = Some ''reset''\<rparr>\<rparr> (NewTracer verb)) =
   Inr \<lparr>rs_Status = (if verb then [] else ''half''), rs_Body = None\<rparr>"
  by (simp add: tracer_RoundTrip_def read_body_def NewTracer_def traced_def)

end
