(* ===== verification/Schema_Loading.thy ===== *)
theory Schema_Loading
  imports Crd_Schema Go_Path Go_Json
begin

text \<open>
  \<open>crdgen/schemas\<close>: references, loaders, the decoding of type lists and legacy keywords, the merge of \<open>allOf\<close> and the
  collection of definitions.

  The file system, \<open>url.Parse\<close>, the decoding of structs by reflection and \<open>mergo\<close> are arguments.  Schemas are those of
  \<open>Crd_Schema\<close>, so members of lists and maps are never nil.  Collecting definitions has fuel, \<open>None\<close> when it runs out.

  Shown: a cached loader loads each reference at most once with success; which file a reference names; the properties of a
  merged \<open>allOf\<close>; and that collecting the definitions of a recursive schema never ends.
\<close>

section \<open>Names of types\<close>

definition IsPrimitiveType :: "string \<Rightarrow> bool" where
  "IsPrimitiveType t \<longleftrightarrow> t \<in> set [''string'', ''number'', ''integer'', ''boolean'', ''null'']"

definition PrefixEnumValue :: string where
  "PrefixEnumValue = ''enumValues_''"

definition CleanNameForSorting :: "string \<Rightarrow> string" where
  "CleanNameForSorting name =
     (if HasPrefix name PrefixEnumValue then TrimPrefix name PrefixEnumValue @ ''_enumValues'' else name)"

definition isPrimitiveTypeList :: "stype list \<Rightarrow> bool" where
  "isPrimitiveTypeList types = list_all (\<lambda>t. k_Type (s_kw t) = [] \<or> IsPrimitiveType (hd (k_Type (s_kw t)))) types"

section \<open>Decoding\<close>

text \<open>An element of a \<open>[]string\<close>: \<open>null\<close> leaves it empty.\<close>

definition json_string_elem :: "json \<Rightarrow> string option" where
  "json_string_elem j = (case j of JStr s \<Rightarrow> Some s | JNull \<Rightarrow> Some [] | _ \<Rightarrow> None)"

fun json_strings :: "json list \<Rightarrow> string list option" where
  "json_strings [] = Some []"
| "json_strings (j # js) =
     (case json_string_elem j of
        None \<Rightarrow> None
      | Some s \<Rightarrow> map_option (\<lambda>ss. s # ss) (json_strings js))"

text \<open>\<open>TypeList.UnmarshalJSON\<close>: an array of strings or one string; nil for the empty one.\<close>

definition TypeList_UnmarshalJSON :: "json \<Rightarrow> string list option" where
  "TypeList_UnmarshalJSON j =
     (case j of
        JArr js \<Rightarrow> json_strings js
      | _ \<Rightarrow> map_option (\<lambda>s. if s \<noteq> [] then [s] else []) (json_string_elem j))"

fun TypeList_Equals :: "string list \<Rightarrow> string list \<Rightarrow> bool" where
  "TypeList_Equals [] b = (b = [])"
| "TypeList_Equals (x # xs) b = (case b of [] \<Rightarrow> False | y # ys \<Rightarrow> x = y \<and> TypeList_Equals xs ys)"

text \<open>\<open>json.Unmarshal\<close> into a bool: \<open>null\<close> leaves it false.\<close>

definition json_bool :: "json \<Rightarrow> bool option" where
  "json_bool j = (case j of JBool b \<Rightarrow> Some b | JNull \<Rightarrow> Some False | _ \<Rightarrow> None)"

definition AdditionalProperties_UnmarshalJSON :: "(json \<Rightarrow> string + stype) \<Rightarrow> json \<Rightarrow> string + (bool + stype)" where
  "AdditionalProperties_UnmarshalJSON decode j =
     (case json_bool j of
        Some b \<Rightarrow> Inr (Inl b)
      | None \<Rightarrow> (case decode j of Inl err \<Rightarrow> Inl err | Inr t \<Rightarrow> Inr (Inr t)))"

definition AdditionalProperties_IsTrue :: "bool + stype \<Rightarrow> bool" where
  "AdditionalProperties_IsTrue ap = (case ap of Inl b \<Rightarrow> b | Inr t \<Rightarrow> True)"

definition empty_type :: stype where
  "empty_type = plain_schema zero_keywords []"

definition false_type :: stype where
  "false_type = SType zero_keywords [] [] None None None [] [] [] (Some empty_type) [] [] None None None [] None None"

definition with_definitions :: "(string \<times> stype) list \<Rightarrow> stype \<Rightarrow> stype" where
  "with_definitions ds n =
     SType (s_kw n) (s_Properties n) (s_PatternProperties n) (s_AdditionalProperties n) (s_Items n) (s_AdditionalItems n)
       (s_AllOf n) (s_AnyOf n) (s_OneOf n) (s_Not n) ds (s_DependentSchemas n) (s_If n) (s_Then n) (s_Else n) (s_PrefixItems n)
       (s_UnevaluatedProperties n) (s_UnevaluatedItems n)"

definition with_dependents :: "(string \<times> stype) list \<Rightarrow> stype \<Rightarrow> stype" where
  "with_dependents ds n =
     SType (s_kw n) (s_Properties n) (s_PatternProperties n) (s_AdditionalProperties n) (s_Items n) (s_AdditionalItems n)
       (s_AllOf n) (s_AnyOf n) (s_OneOf n) (s_Not n) (s_Definitions n) ds (s_If n) (s_Then n) (s_Else n) (s_PrefixItems n)
       (s_UnevaluatedProperties n) (s_UnevaluatedItems n)"

text \<open>What decoding the struct gives: the type, whether its two maps are nil, and the maps of the legacy keywords.\<close>

record raw_type =
  rt_type :: stype
  rt_has_definitions :: bool
  rt_has_dependents :: bool

record legacy_keywords =
  lg_dependencies :: "(string \<times> stype) list option"
  lg_definitions :: "(string \<times> stype) list option"

definition Type_UnmarshalJSON :: "(json \<Rightarrow> string + raw_type) \<Rightarrow> (json \<Rightarrow> string + legacy_keywords) \<Rightarrow> json \<Rightarrow> string + stype" where
  "Type_UnmarshalJSON decode legacy j =
     (case json_bool j of
        Some b \<Rightarrow> Inr (if b then empty_type else false_type)
      | None \<Rightarrow>
          (case decode j of
             Inl err \<Rightarrow> Inl (''failed to unmarshal type: '' @ err)
           | Inr raw \<Rightarrow>
               (case legacy j of
                  Inl err \<Rightarrow> Inl (''failed to unmarshal type: '' @ err)
                | Inr old \<Rightarrow>
                    (let t1 = (case lg_definitions old of
                                 Some ds \<Rightarrow> if \<not> rt_has_definitions raw then with_definitions ds (rt_type raw) else rt_type raw
                               | None \<Rightarrow> rt_type raw)
                     in Inr (case lg_dependencies old of
                               Some ds \<Rightarrow> if \<not> rt_has_dependents raw then with_dependents ds t1 else t1
                             | None \<Rightarrow> t1)))))"

record schema_file =
  sf_Root :: "stype option"
  sf_ID :: string
  sf_LegacyID :: string
  sf_Definitions :: "(string \<times> stype) list option"

definition Schema_UnmarshalJSON ::
    "(json \<Rightarrow> string + schema_file) \<Rightarrow> (json \<Rightarrow> string + (string \<times> stype) list option) \<Rightarrow> json \<Rightarrow> string + schema_file" where
  "Schema_UnmarshalJSON decode legacy j =
     (case decode j of
        Inl err \<Rightarrow> Inl (''failed to unmarshal schema: '' @ err)
      | Inr tmp \<Rightarrow>
          (let tmp1 = (if sf_ID tmp = [] then tmp\<lparr>sf_ID := sf_LegacyID tmp\<rparr> else tmp) in
           case legacy j of
             Inl err \<Rightarrow> Inl (''failed to unmarshal schema: '' @ err)
           | Inr old \<Rightarrow> Inr (if sf_Definitions tmp1 = None \<and> old \<noteq> None then tmp1\<lparr>sf_Definitions := old\<rparr> else tmp1)))"

section \<open>References and loaders\<close>

datatype ref_type = RefTypeFile | RefTypeHTTP | RefTypeHTTPS

definition GetRefType :: "(string \<Rightarrow> string + string) \<Rightarrow> string \<Rightarrow> string + ref_type" where
  "GetRefType parse ref =
     (case parse ref of
        Inl err \<Rightarrow> Inl (''cannot get $ref type: '' @ err)
      | Inr scheme \<Rightarrow>
          if scheme = ''http'' then Inr RefTypeHTTP
          else if scheme = ''https'' then Inr RefTypeHTTPS
          else if scheme = ''file'' \<or> scheme = [] then Inr RefTypeFile
          else Inl ''cannot get $ref type: unsupported $ref schema'')"

text \<open>\<open>strings.Index\<close>, minus one when there is no match.\<close>

fun strings_Index :: "string \<Rightarrow> string \<Rightarrow> int" where
  "strings_Index [] sub = (if sub = [] then 0 else -1)"
| "strings_Index (c # s) sub =
     (if HasPrefix (c # s) sub then 0 else (let i = strings_Index s sub in if i < 0 then -1 else i + 1))"

text \<open>The files: what \<open>os.Stat\<close> says (\<open>None\<close> for another error than a missing file), symbolic links, and contents.\<close>

record schema_fs =
  fs_stat :: "string \<Rightarrow> bool option"
  fs_EvalSymlinks :: "string \<Rightarrow> string + string"
  fs_open :: "string \<Rightarrow> string + string"
  fs_quote :: "string \<Rightarrow> string"

definition fileExists :: "schema_fs \<Rightarrow> string \<Rightarrow> bool" where
  "fileExists fs name \<longleftrightarrow> fs_stat fs name \<noteq> Some False"

definition filepath_Dir :: "string \<Rightarrow> string" where
  "filepath_Dir p = path_Clean (fst (path_Split p))"

definition filepath_IsAbs :: "string \<Rightarrow> bool" where
  "filepath_IsAbs p = HasPrefix p ''/''"

fun try_extensions :: "schema_fs \<Rightarrow> string \<Rightarrow> string list \<Rightarrow> string + string" where
  "try_extensions fs fileName [] = Inl (''cannot resolve schema '' @ fs_quote fs fileName)"
| "try_extensions fs fileName (ext # exts) =
     (let qualified = fileName @ ext in
      if \<not> fileExists fs qualified then try_extensions fs fileName exts
      else (case fs_EvalSymlinks fs qualified of
              Inl err \<Rightarrow> Inl (''error resolving symlinks in : '' @ err)
            | Inr q \<Rightarrow> Inr q))"

definition QualifiedFileName :: "(string \<Rightarrow> string + string) \<Rightarrow> schema_fs \<Rightarrow> string \<Rightarrow> string \<Rightarrow> string list \<Rightarrow> string + string" where
  "QualifiedFileName parse fs fileName parentFileName resolveExtensions =
     (case GetRefType parse fileName of
        Inl err \<Rightarrow> Inl err
      | Inr r \<Rightarrow>
          if r \<noteq> RefTypeFile then Inr (drop (nat (strings_Index fileName ''://'' + 3)) fileName)
          else
            (let name = TrimPrefix fileName ''file://'';
                 name' = (if \<not> filepath_IsAbs name then path_Join [filepath_Dir parentFileName, name] else name)
             in try_extensions fs name' ([] # resolveExtensions)))"

definition FromJSONReader :: "(string \<Rightarrow> string + 's) \<Rightarrow> string \<Rightarrow> string + 's" where
  "FromJSONReader decode content =
     (case decode content of Inl err \<Rightarrow> Inl (''failed to unmarshal JSON: '' @ err) | Inr s \<Rightarrow> Inr s)"

definition FromJSONFile :: "(string \<Rightarrow> string + 's) \<Rightarrow> schema_fs \<Rightarrow> string \<Rightarrow> string + 's" where
  "FromJSONFile decode fs fileName =
     (case fs_open fs fileName of
        Inl err \<Rightarrow> Inl (''failed to open file: '' @ err)
      | Inr content \<Rightarrow> FromJSONReader decode content)"

definition parseFile :: "(string \<Rightarrow> string + 's) \<Rightarrow> schema_fs \<Rightarrow> string \<Rightarrow> string + 's" where
  "parseFile decode fs fileName =
     (case FromJSONFile decode fs fileName of
        Inl err \<Rightarrow> Inl (''error parsing JSON file '' @ fileName @ '': '' @ err)
      | Inr s \<Rightarrow> Inr s)"

definition FileLoader_Load ::
    "(string \<Rightarrow> string + string) \<Rightarrow> (string \<Rightarrow> string + 's) \<Rightarrow> schema_fs \<Rightarrow> string list \<Rightarrow> string \<Rightarrow> string \<Rightarrow> string + 's" where
  "FileLoader_Load parse decode fs exts fileName parentFileName =
     (case QualifiedFileName parse fs fileName parentFileName exts of
        Inl err \<Rightarrow> Inl err
      | Inr qualified \<Rightarrow> parseFile decode fs qualified)"

text \<open>
  \<open>CachedLoader.Load\<close>: the cache and the calls of the nested loader so far, each with whether it gave a schema.
\<close>

record 's cached_loader =
  cl_cache :: "(string, 's) gomap"
  cl_calls :: "(string \<times> string \<times> bool) list"

definition NewCachedLoader :: "(string, 's) gomap \<Rightarrow> 's cached_loader" where
  "NewCachedLoader cache = \<lparr>cl_cache = cache, cl_calls = []\<rparr>"

definition NewDefaultCacheLoader :: "'s cached_loader" where
  "NewDefaultCacheLoader = NewCachedLoader []"

definition CachedLoader_Load ::
    "(string \<Rightarrow> string \<Rightarrow> string + 's) \<Rightarrow> string \<Rightarrow> string \<Rightarrow> 's cached_loader \<Rightarrow> 's cached_loader \<times> (string + 's)" where
  "CachedLoader_Load load uri parentURI l =
     (case map_of (cl_cache l) uri of
        Some s \<Rightarrow> (l, Inr s)
      | None \<Rightarrow>
          (case load uri parentURI of
             Inl err \<Rightarrow> (l\<lparr>cl_calls := cl_calls l @ [(uri, parentURI, False)]\<rparr>, Inl (''cannot load schema'' @ [CHR 0x0A] @ err))
           | Inr s \<Rightarrow>
               (l\<lparr>cl_cache := AList.update uri s (cl_cache l), cl_calls := cl_calls l @ [(uri, parentURI, True)]\<rparr>, Inr s)))"

definition toExtensionSet :: "string list \<Rightarrow> string set" where
  "toExtensionSet xs = fold (\<lambda>item. insert (if \<not> HasPrefix item ''.'' then CHR ''.'' # item else item)) xs {}"

section \<open>Merging\<close>

text \<open>The two transformers that \<open>mergo\<close> gets.\<close>

definition typeTransformer :: "(string \<times> stype) list \<Rightarrow> (string \<times> stype) list \<Rightarrow> (string \<times> stype) list" where
  "typeTransformer dst from = fold (\<lambda>(k, v). AList.update k v) from dst"

definition typeListTransformer :: "string list \<Rightarrow> string list \<Rightarrow> string list" where
  "typeListTransformer dst from = dst"

type_synonym merger = "stype \<Rightarrow> stype \<Rightarrow> string + stype"

fun merge_all :: "merger \<Rightarrow> stype \<Rightarrow> stype list \<Rightarrow> string + stype" where
  "merge_all merge r [] = Inr r"
| "merge_all merge r (t # ts) =
     (case merge r t of Inl err \<Rightarrow> Inl (''cannot merge types: '' @ err) | Inr r' \<Rightarrow> merge_all merge r' ts)"

definition MergeTypes :: "merger \<Rightarrow> stype list \<Rightarrow> string + stype" where
  "MergeTypes merge types =
     (if types = [] then Inl ''types list is empty''
      else if isPrimitiveTypeList types then Inr empty_type
      else merge_all merge empty_type types)"

definition extractDefNameFromRef :: "string \<Rightarrow> string" where
  "extractDefNameFromRef ref = last (Split ref (CHR ''/''))"

definition resolveRefs :: "stype list \<Rightarrow> (string, stype) gomap \<Rightarrow> stype list" where
  "resolveRefs types defs =
     map (\<lambda>t. if k_Ref (s_kw t) \<noteq> [] then (case map_of defs (extractDefNameFromRef (k_Ref (s_kw t))) of Some d \<Rightarrow> d | None \<Rightarrow> t) else t) types"

text \<open>\<open>AllOf\<close>; the mark \<open>subSchemaType\<close> that it sets is no keyword.\<close>

definition AllOf :: "merger \<Rightarrow> stype list \<Rightarrow> (string, stype) gomap \<Rightarrow> string + stype" where
  "AllOf merge types defs = MergeTypes merge (resolveRefs types defs)"

section \<open>Collecting definitions\<close>

definition resolved_allOf :: "merger \<Rightarrow> stype \<Rightarrow> stype list \<Rightarrow> (string, stype) gomap \<Rightarrow> stype" where
  "resolved_allOf merge t members out =
     (if members \<noteq> [] then (case AllOf merge members out of Inr m \<Rightarrow> m | Inl err \<Rightarrow> t) else t)"

definition opt_list :: "'a option \<Rightarrow> 'a list" where
  "opt_list x = (case x of None \<Rightarrow> [] | Some y \<Rightarrow> [y])"

definition subtypes :: "stype \<Rightarrow> stype list" where
  "subtypes t =
     map snd (s_Properties t) @ map snd (s_PatternProperties t) @ opt_list (s_Items t) @ opt_list (s_AdditionalItems t) @
     s_AllOf t @ s_AnyOf t @ s_OneOf t @ opt_list (s_Not t)"

text \<open>A loop whose body may run out of fuel.\<close>

fun loop_types :: "('a \<Rightarrow> 'b \<Rightarrow> 'b option) \<Rightarrow> 'a list \<Rightarrow> 'b \<Rightarrow> 'b option" where
  "loop_types f [] s = Some s"
| "loop_types f (x # xs) s = (case f x s of None \<Rightarrow> None | Some s' \<Rightarrow> loop_types f xs s')"

primrec collectFromType :: "nat \<Rightarrow> merger \<Rightarrow> stype \<Rightarrow> (string, stype) gomap \<Rightarrow> (string, stype) gomap option" where
  "collectFromType 0 = (\<lambda>merge t0 out. None)"
| "collectFromType (Suc n) = (\<lambda>merge t0 out.
     let t = resolved_allOf merge t0 (s_AllOf t0) out in
     case loop_types (collectFromType n merge) (subtypes t) out of
       None \<Rightarrow> None
     | Some out1 \<Rightarrow>
         loop_types (\<lambda>(name, d) out2.
                 let d' = resolved_allOf merge d (s_AllOf t) out2 in collectFromType n merge d' (AList.update name d' out2))
           (s_Definitions t) out1)"

definition CollectAllDefinitions :: "nat \<Rightarrow> merger \<Rightarrow> schema_doc \<Rightarrow> (string, stype) gomap option" where
  "CollectAllDefinitions n merge s =
     (let r = fold (\<lambda>(name, d). AList.update name d) (doc_Definitions s) [] in
      case doc_Root s of None \<Rightarrow> Some r | Some t \<Rightarrow> collectFromType n merge t r)"

section \<open>The cached loader\<close>

definition loader_step :: "(string \<Rightarrow> string \<Rightarrow> string + 's) \<Rightarrow> 's cached_loader \<Rightarrow> string \<times> string \<Rightarrow> 's cached_loader" where
  "loader_step load l req = fst (CachedLoader_Load load (fst req) (snd req) l)"

definition loaded :: "'s cached_loader \<Rightarrow> string list" where
  "loaded l = map fst (filter (\<lambda>(u, p, ok). ok) (cl_calls l))"

definition cached_inv :: "(string \<Rightarrow> string \<Rightarrow> string + 's) \<Rightarrow> 's cached_loader \<Rightarrow> bool" where
  "cached_inv load l \<longleftrightarrow> distinct (loaded l) \<and>
     (\<forall>u p. (u, p, True) \<in> set (cl_calls l) \<longrightarrow> (\<exists>s. load u p = Inr s \<and> map_of (cl_cache l) u = Some s))"

lemma cached_inv_step: "cached_inv load l \<Longrightarrow> cached_inv load (loader_step load l req)"
  unfolding cached_inv_def loader_step_def CachedLoader_Load_def loaded_def
  by (cases req; cases "map_of (cl_cache l) (fst req)"; cases "load (fst req) (snd req)") fastforce+

interpretation loads: step_system "loader_step load" "\<lambda>l req. True" "cached_inv load" for load
  by unfold_locales (rule cached_inv_step)

text \<open>
  A cached loader, whatever it was asked before, has loaded each reference with success at most once, and answers a
  reference that it has loaded with the schema of that load, without loading again.
\<close>

theorem CachedLoader_loads_once:
  assumes "l = run_ops (loader_step load) NewDefaultCacheLoader reqs"
    and "(u, p, True) \<in> set (cl_calls l)"
  shows "distinct (loaded l) \<and> (\<exists>s. load u p = Inr s \<and> CachedLoader_Load load u q l = (l, Inr s))"
proof -
  have "cached_inv load (NewDefaultCacheLoader :: 'a cached_loader)"
    by (simp add: cached_inv_def NewDefaultCacheLoader_def NewCachedLoader_def loaded_def)
  from loads.run_inv [OF this admissible_trivial] have "cached_inv load l" by (simp add: assms(1))
  with assms(2) show ?thesis by (fastforce simp: cached_inv_def CachedLoader_Load_def)
qed

theorem CachedLoader_loads_once_witness:
  "\<exists>s :: string. CachedLoader_Load (\<lambda>u p. Inr p) ''c.json'' ''/b'' (run_ops (loader_step (\<lambda>u p. Inr p)) NewDefaultCacheLoader [(''c.json'', ''/a'')]) =
     (run_ops (loader_step (\<lambda>u p. Inr p)) NewDefaultCacheLoader [(''c.json'', ''/a'')], Inr s)"
  using CachedLoader_loads_once [of "run_ops (loader_step (\<lambda>u p. Inr p)) NewDefaultCacheLoader [(''c.json'', ''/a'')]" "\<lambda>u p. Inr p"
      "[(''c.json'', ''/a'')]" "''c.json''" "''/a''" "''/b''"]
  by (simp add: loader_step_def CachedLoader_Load_def NewDefaultCacheLoader_def NewCachedLoader_def)

text \<open>The names of the references are resolved against the parent, but the cache is not: the second parent gets the file of the first.\<close>

definition two_dirs :: schema_fs where
  "two_dirs = \<lparr>fs_stat = (\<lambda>p. Some (p \<in> {''/a/c.json'', ''/b/c.json''})), fs_EvalSymlinks = Inr, fs_open = (\<lambda>p. Inr p), fs_quote = id\<rparr>"

theorem cached_loader_ignores_parent:
  "FileLoader_Load (\<lambda>r. Inr []) Inr two_dirs [] ''c.json'' ''/b/y.json'' = Inr ''/b/c.json''"
  "snd (CachedLoader_Load (FileLoader_Load (\<lambda>r. Inr []) Inr two_dirs []) ''c.json'' ''/b/y.json''
     (fst (CachedLoader_Load (FileLoader_Load (\<lambda>r. Inr []) Inr two_dirs []) ''c.json'' ''/a/x.json'' NewDefaultCacheLoader))) =
   Inr ''/a/c.json''"
  by (simp_all add: two_dirs_def CachedLoader_Load_def FileLoader_Load_def QualifiedFileName_def GetRefType_def TrimPrefix_def HasPrefix_def
      filepath_IsAbs_def filepath_Dir_def path_Split_def path_Clean_def path_Join_def fileExists_def parseFile_def FromJSONFile_def
      FromJSONReader_def NewDefaultCacheLoader_def NewCachedLoader_def Let_def)

text \<open>A reference by https is opened as a local file, with the scheme cut off.\<close>

theorem https_reference_read_locally:
  "FileLoader_Load (\<lambda>r. Inr ''https'') decode fs exts ''https://host/s.json'' parent = parseFile decode fs ''host/s.json''"
  by (simp add: FileLoader_Load_def QualifiedFileName_def GetRefType_def HasPrefix_def Let_def)

text \<open>The file that a reference names: the first of the name and its extensions that exists.\<close>

lemma try_extensions_find:
  "try_extensions fs name exts =
     (case find (fileExists fs) (map (\<lambda>e. name @ e) exts) of
        None \<Rightarrow> Inl (''cannot resolve schema '' @ fs_quote fs name)
      | Some q \<Rightarrow> (case fs_EvalSymlinks fs q of Inl err \<Rightarrow> Inl (''error resolving symlinks in : '' @ err) | Inr q' \<Rightarrow> Inr q'))"
  by (induction exts) (auto simp: Let_def)

section \<open>The merge of \<open>allOf\<close>\<close>

lemma map_of_typeTransformer: "map_of (typeTransformer dst from) = map_of dst ++ map_of (rev from)"
  unfolding typeTransformer_def
  by (induction "from" arbitrary: dst) (auto simp: map_add_def fun_eq_iff split: option.splits)

lemma merge_all_properties:
  assumes "\<forall>a b c. merge a b = Inr c \<longrightarrow> s_Properties c = typeTransformer (s_Properties a) (s_Properties b)"
    and "merge_all merge r ts = Inr t"
  shows "map_of (s_Properties t) = foldl (\<lambda>m d. m ++ map_of (rev (s_Properties d))) (map_of (s_Properties r)) ts"
  using assms(2)
proof (induction ts arbitrary: r)
  case (Cons d ts)
  then obtain r' where "merge r d = Inr r'" "merge_all merge r' ts = Inr t" by (auto split: sum.splits)
  with Cons.IH assms(1) show ?case by (simp add: map_of_typeTransformer)
qed simp

text \<open>
  Merging the members of an \<open>allOf\<close>, with references replaced by their definitions, gives the properties of all of them,
  those of a later member before those of an earlier one, provided that \<open>mergo\<close> applies the transformer it is given to the
  properties.
\<close>

theorem AllOf_properties:
  assumes "\<forall>a b c. merge a b = Inr c \<longrightarrow> s_Properties c = typeTransformer (s_Properties a) (s_Properties b)"
    and "AllOf merge types defs = Inr t" and "\<not> isPrimitiveTypeList (resolveRefs types defs)"
  shows "map_of (s_Properties t) = foldl (\<lambda>m d. m ++ map_of (rev (s_Properties d))) Map.empty (resolveRefs types defs)"
  using merge_all_properties [OF assms(1), of empty_type] assms(2,3)
  by (auto simp: AllOf_def MergeTypes_def empty_type_def plain_schema_def split: if_splits)

definition object_kw :: type_keywords where
  "object_kw = zero_keywords\<lparr>k_Type := [''object'']\<rparr>"

definition merge_properties :: merger where
  "merge_properties a b = Inr (plain_schema (s_kw a) (typeTransformer (s_Properties a) (s_Properties b)))"

definition reference_type :: stype where
  "reference_type = plain_schema object_kw [(''name'', empty_type)]"

definition selector_members :: "stype list" where
  "selector_members = [plain_schema (zero_keywords\<lparr>k_Ref := ''#/$defs/Reference''\<rparr>) [], plain_schema object_kw [(''key'', empty_type)]]"

theorem AllOf_properties_witness:
  "map_of (s_Properties (projr (AllOf merge_properties selector_members [(''Reference'', reference_type)]))) =
     [''name'' \<mapsto> empty_type, ''key'' \<mapsto> empty_type]"
proof -
  have l: "\<forall>a b c. merge_properties a b = Inr c \<longrightarrow> s_Properties c = typeTransformer (s_Properties a) (s_Properties b)"
    by (auto simp: merge_properties_def plain_schema_def)
  have r: "resolveRefs selector_members [(''Reference'', reference_type)] = [reference_type, plain_schema object_kw [(''key'', empty_type)]]"
    by (simp add: resolveRefs_def selector_members_def extractDefNameFromRef_def plain_schema_def zero_keywords_def object_kw_def)
  have p: "\<not> isPrimitiveTypeList [reference_type, plain_schema object_kw [(''key'', empty_type)]]"
    by (simp add: isPrimitiveTypeList_def reference_type_def plain_schema_def object_kw_def zero_keywords_def IsPrimitiveType_def)
  obtain t where "AllOf merge_properties selector_members [(''Reference'', reference_type)] = Inr t"
    using r p by (simp add: AllOf_def MergeTypes_def merge_properties_def)
  from AllOf_properties [OF l this] this r p show ?thesis
    by (simp add: reference_type_def plain_schema_def)
qed

text \<open>Members without a type count as primitive: merging them gives an empty type, whatever they declare.\<close>

theorem untyped_members_lost:
  "MergeTypes merge [plain_schema zero_keywords [(''name'', n)], plain_schema zero_keywords [(''key'', k)]] = Inr empty_type"
  by (simp add: MergeTypes_def isPrimitiveTypeList_def plain_schema_def zero_keywords_def)

section \<open>Where collecting definitions ends\<close>

text \<open>A tree without \<open>allOf\<close>.\<close>

inductive plain_tree :: "stype \<Rightarrow> bool" where
  plain: "s_AllOf t = [] \<Longrightarrow> (\<And>u. u \<in> set (subtypes t) \<Longrightarrow> plain_tree u) \<Longrightarrow> (\<And>k d. (k, d) \<in> set (s_Definitions t) \<Longrightarrow> plain_tree d) \<Longrightarrow> plain_tree t"

inductive_cases plain_treeE: "plain_tree t"

lemma size_subtypes: "u \<in> set (subtypes t) \<Longrightarrow> size u < size t"
  by (auto simp: subtypes_def opt_list_def size_subschema split: option.splits)

lemma loop_types_total: "(\<And>x s. x \<in> set xs \<Longrightarrow> \<exists>s'. f x s = Some s') \<Longrightarrow> \<exists>s'. loop_types f xs s = Some s'"
proof (induction xs arbitrary: s)
  case (Cons x xs)
  then obtain s1 where "f x s = Some s1" by fastforce
  with Cons show ?case by simp
qed simp

lemma collect_returns: "plain_tree t \<Longrightarrow> size t < n \<Longrightarrow> \<exists>out'. collectFromType n merge t out = Some out'"
proof (induction n arbitrary: t out)
  case (Suc n)
  from Suc.prems(1) have t: "s_AllOf t = []" "\<And>u. u \<in> set (subtypes t) \<Longrightarrow> plain_tree u" "\<And>k d. (k, d) \<in> set (s_Definitions t) \<Longrightarrow> plain_tree d"
    by (auto elim: plain_treeE)
  then have r: "resolved_allOf merge u (s_AllOf t) o' = u" for u o' by (simp add: resolved_allOf_def)
  have "\<exists>o1. loop_types (collectFromType n merge) (subtypes t) out = Some o1"
    using Suc.prems(2) size_subtypes by (intro loop_types_total Suc.IH t(2)) fastforce+
  then obtain o1 where o1: "loop_types (collectFromType n merge) (subtypes t) out = Some o1" ..
  have "\<exists>o2. loop_types (\<lambda>(name, d) out2. collectFromType n merge d (AList.update name d out2)) (s_Definitions t) o1 = Some o2"
    using Suc.prems(2) size_subschema(3) Suc.IH t(3) by (intro loop_types_total) fastforce
  with o1 show ?case by (simp add: r Let_def)
qed simp

text \<open>
  Collecting the definitions of a document without \<open>allOf\<close> returns: fuel of more than the size of its tree is enough.
\<close>

theorem CollectAllDefinitions_returns:
  assumes "doc_Root s = Some t" and "plain_tree t"
  shows "\<exists>out. CollectAllDefinitions (Suc (size t)) merge s = Some out"
  using collect_returns [OF assms(2), of "Suc (size t)"] assms(1)
  by (simp add: CollectAllDefinitions_def Let_def del: collectFromType.simps)

lemma plain_tree_empty: "plain_tree empty_type"
  by (rule plain) (auto simp: empty_type_def plain_schema_def subtypes_def opt_list_def)

theorem CollectAllDefinitions_returns_witness:
  "\<exists>out. CollectAllDefinitions (Suc (size reference_type)) merge_properties \<lparr>doc_Definitions = [], doc_Root = Some reference_type\<rparr> = Some out"
proof -
  have "plain_tree reference_type"
    by (rule plain) (auto simp: reference_type_def plain_schema_def subtypes_def opt_list_def plain_tree_empty)
  from CollectAllDefinitions_returns [OF _ this, of "\<lparr>doc_Definitions = [], doc_Root = Some reference_type\<rparr>" merge_properties] show ?thesis by simp
qed

text \<open>A definition with a property that extends the definition itself, as trees have: collecting never ends.\<close>

definition tree_child :: stype where
  "tree_child = SType zero_keywords [] [] None None None [plain_schema (zero_keywords\<lparr>k_Ref := ''#/$defs/Tree''\<rparr>) []] [] [] None [] [] None None None [] None None"

definition tree_type :: stype where
  "tree_type = plain_schema object_kw [(''child'', tree_child)]"

lemma tree_child_resolved:
  "resolved_allOf merge_properties tree_child (s_AllOf tree_child) [(''Tree'', tree_type)] = plain_schema zero_keywords [(''child'', tree_child)]"
  by (simp add: resolved_allOf_def AllOf_def MergeTypes_def resolveRefs_def extractDefNameFromRef_def isPrimitiveTypeList_def IsPrimitiveType_def
      tree_child_def tree_type_def plain_schema_def object_kw_def zero_keywords_def merge_properties_def typeTransformer_def empty_type_def)

theorem recursive_allOf_never_collected:
  "CollectAllDefinitions n merge_properties \<lparr>doc_Definitions = [(''Tree'', tree_type)], doc_Root = Some tree_child\<rparr> = None"
proof -
  have "collectFromType n merge_properties tree_child [(''Tree'', tree_type)] = None"
  proof (induction n)
    case (Suc n)
    then show ?case by (simp only: collectFromType.simps tree_child_resolved) (simp add: plain_schema_def subtypes_def Let_def)
  qed simp
  then show ?thesis by (simp add: CollectAllDefinitions_def)
qed

end
