(* ===== verification/Data_Convert.thy ===== *)
theory Data_Convert
  imports Go_Json "HOL-Library.List_Lexorder" "HOL-Library.Char_ord"
begin

text \<open>
  \<open>pgutil/url.go\<close>: the connection URL of a database; \<open>maps/convert.go\<close>: lists of maps as lists of structs and back.

  Escaping is that of \<open>net/url\<close>, by the characters that each part of a URL keeps.  \<open>json.Marshal\<close> and \<open>json.Unmarshal\<close>
  of the struct are arguments.

  Shown: a URL reads back as exactly the parts it was built from, whatever characters a password or a name has.
\<close>

section \<open>Escaping\<close>

definition unreserved :: "char \<Rightarrow> bool" where
  "unreserved c \<longleftrightarrow> is_upper c \<or> is_lower c \<or> is_digit c \<or> c \<in> set ''-_.~''"

definition user_safe :: "char \<Rightarrow> bool" where
  "user_safe c \<longleftrightarrow> unreserved c \<or> c \<in> set ''$&+,;=''"

definition host_safe :: "char \<Rightarrow> bool" where
  "host_safe c \<longleftrightarrow> unreserved c \<or> c \<in> set ''!$&()*+,;=:[]<>'' \<or> c \<in> {CHR 0x27, CHR 0x22}"

definition path_safe :: "char \<Rightarrow> bool" where
  "path_safe c \<longleftrightarrow> unreserved c \<or> c \<in> set ''$&+,/:;=@''"

definition hex_alphabet :: string where
  "hex_alphabet = ''0123456789ABCDEF''"

definition upper_hex :: "nat \<Rightarrow> char" where
  "upper_hex n = hex_alphabet ! n"

definition percent :: "char \<Rightarrow> string" where
  "percent c = [CHR 0x25, upper_hex (of_char c div 16), upper_hex (of_char c mod 16)]"

definition url_escape :: "(char \<Rightarrow> bool) \<Rightarrow> string \<Rightarrow> string" where
  "url_escape safe s = concat (map (\<lambda>c. if safe c then [c] else percent c) s)"

text \<open>\<open>url.QueryEscape\<close>: a blank is a plus sign.\<close>

definition QueryEscape :: "string \<Rightarrow> string" where
  "QueryEscape s = concat (map (\<lambda>c. if c = CHR '' '' then ''+'' else if unreserved c then [c] else percent c) s)"

section \<open>The connection URL\<close>

definition Values_Encode :: "(string, string) gomap \<Rightarrow> string" where
  "Values_Encode q = Join (map (\<lambda>(k, v). QueryEscape k @ ''='' @ QueryEscape v) (sort_key fst q)) ''&''"

definition ConnectionURL :: "string \<Rightarrow> string \<Rightarrow> string \<Rightarrow> int \<Rightarrow> string \<Rightarrow> (string, string) gomap \<Rightarrow> string" where
  "ConnectionURL username password host port dbname extraParams =
     ''postgres://'' @ url_escape user_safe username @ '':'' @ url_escape user_safe password @ ''@'' @
     url_escape host_safe (host @ '':'' @ Itoa port) @ url_escape path_safe (''/'' @ dbname) @
     (if extraParams \<noteq> [] then ''?'' @ Values_Encode extraParams else [])"

section \<open>Reading it back\<close>

fun url_unescape :: "bool \<Rightarrow> string \<Rightarrow> string option" where
  "url_unescape form [] = Some []"
| "url_unescape form (c # s) =
     (if c = CHR 0x25
      then (case s of
              a # b # r \<Rightarrow>
                (case (hex_value a, hex_value b) of
                   (Some x, Some y) \<Rightarrow> map_option (\<lambda>t. char_of (16 * x + y) # t) (url_unescape form r)
                 | _ \<Rightarrow> None)
            | _ \<Rightarrow> None)
      else map_option (\<lambda>t. (if form \<and> c = CHR ''+'' then CHR '' '' else c) # t) (url_unescape form s))"

lemma hex_value_upper: "n < 16 \<Longrightarrow> hex_value (upper_hex n) = Some n"
proof -
  have "list_all (\<lambda>n. hex_value (upper_hex n) = Some n) [0..<16]" by code_simp
  then show "n < 16 \<Longrightarrow> hex_value (upper_hex n) = Some n" by (simp add: list_all_iff)
qed

lemma unescape_percent: "url_unescape form (percent c @ s) = map_option (\<lambda>t. c # t) (url_unescape form s)"
proof -
  have "(of_char c :: nat) div 16 < 16" by simp
  then show ?thesis by (simp add: percent_def hex_value_upper)
qed

lemma unescape_escape: "\<not> safe CHR 0x25 \<Longrightarrow> url_unescape False (url_escape safe s) = Some s"
  unfolding url_escape_def by (induction s) (auto simp: unescape_percent)

lemma unescape_QueryEscape: "url_unescape True (QueryEscape s) = Some s"
  unfolding QueryEscape_def by (induction s) (auto simp: unescape_percent unreserved_def is_upper_def is_lower_def is_digit_def)

lemma not_safe_percent: "\<not> user_safe CHR 0x25" "\<not> host_safe CHR 0x25" "\<not> path_safe CHR 0x25"
  by (simp_all add: user_safe_def host_safe_def path_safe_def unreserved_def is_upper_def is_lower_def is_digit_def)

text \<open>The characters that separate the parts do not come out of an escaped part.\<close>

lemma percent_chars: "x \<in> set (percent c) \<Longrightarrow> x = CHR 0x25 \<or> x \<in> set hex_alphabet"
proof -
  have "upper_hex n \<in> set hex_alphabet" if "n < 16" for n
    unfolding upper_hex_def by (rule nth_mem) (use that in \<open>simp add: hex_alphabet_def\<close>)
  moreover have "(of_char c :: nat) div 16 < 16" "(of_char c :: nat) mod 16 < 16" by simp_all
  ultimately show "x \<in> set (percent c) \<Longrightarrow> x = CHR 0x25 \<or> x \<in> set hex_alphabet" by (auto simp: percent_def)
qed

lemma escape_avoids: "\<not> safe x \<Longrightarrow> x \<noteq> CHR 0x25 \<Longrightarrow> x \<notin> set hex_alphabet \<Longrightarrow> x \<notin> set (url_escape safe s)"
  using percent_chars unfolding url_escape_def by (auto split: if_splits)

lemma QueryEscape_avoids:
  "\<not> unreserved x \<Longrightarrow> x \<noteq> CHR 0x25 \<Longrightarrow> x \<noteq> CHR ''+'' \<Longrightarrow> x \<notin> set hex_alphabet \<Longrightarrow> x \<notin> set (QueryEscape s)"
  using percent_chars unfolding QueryEscape_def by (auto split: if_splits)

text \<open>A reader of such URLs: the text up to a separator, and what follows it.\<close>

definition cut_at :: "char \<Rightarrow> string \<Rightarrow> string \<times> string" where
  "cut_at c s = (takeWhile (\<lambda>x. x \<noteq> c) s, drop 1 (dropWhile (\<lambda>x. x \<noteq> c) s))"

lemma cut_at_app: "c \<notin> set p \<Longrightarrow> cut_at c (p @ c # s) = (p, s)"
  by (induction p) (auto simp: cut_at_def)

lemma cut_at_none: "c \<notin> set p \<Longrightarrow> cut_at c p = (p, [])"
  by (induction p) (auto simp: cut_at_def)

definition read_param :: "string \<Rightarrow> (string \<times> string) option" where
  "read_param p =
     (case cut_at (CHR ''='') p of
        (k, v) \<Rightarrow> (case (url_unescape True k, url_unescape True v) of (Some k', Some v') \<Rightarrow> Some (k', v') | _ \<Rightarrow> None))"

record connection =
  cn_User :: string
  cn_Password :: string
  cn_Host :: string
  cn_Database :: string
  cn_Params :: "(string \<times> string) list"

definition read_connection :: "string \<Rightarrow> connection option" where
  "read_connection s =
     (let (userinfo, rest) = cut_at (CHR ''@'') (TrimPrefix s ''postgres://'');
          (user, password) = cut_at (CHR '':'') userinfo;
          (host, rest2) = cut_at (CHR ''/'') rest;
          (db, query) = cut_at (CHR ''?'') rest2
      in case (url_unescape False user, url_unescape False password, url_unescape False host, url_unescape False db,
               if query = [] then Some [] else those (map read_param (Split query (CHR ''&'')))) of
           (Some u, Some p, Some h, Some d, Some ps) \<Rightarrow> Some \<lparr>cn_User = u, cn_Password = p, cn_Host = h, cn_Database = d, cn_Params = ps\<rparr>
         | _ \<Rightarrow> None)"

lemma read_param_text: "read_param (QueryEscape k @ ''='' @ QueryEscape v) = Some (k, v)"
proof -
  have "CHR ''='' \<notin> set (QueryEscape k)" by (rule QueryEscape_avoids) (simp_all add: unreserved_def is_upper_def is_lower_def is_digit_def hex_alphabet_def)
  then show ?thesis by (simp add: read_param_def cut_at_app unescape_QueryEscape)
qed

lemma Values_Encode_reads:
  assumes "q \<noteq> []"
  shows "those (map read_param (Split (Values_Encode q) (CHR ''&''))) = Some (sort_key fst q)" and "Values_Encode q \<noteq> []"
proof -
  let ?t = "\<lambda>(k, v). QueryEscape k @ ''='' @ QueryEscape v"
  have n: "CHR ''&'' \<notin> set (QueryEscape k)" for k
    by (rule QueryEscape_avoids) (simp_all add: unreserved_def is_upper_def is_lower_def is_digit_def hex_alphabet_def)
  have e: "sort_key fst q \<noteq> []" using assms by (metis length_0_conv length_sort)
  have "Split (Values_Encode q) (CHR ''&'') = map ?t (sort_key fst q)"
    unfolding Values_Encode_def by (rule Split_Join) (use e n in auto)
  moreover have "those (map read_param (map ?t xs)) = Some xs" for xs
    by (induction xs) (auto simp: read_param_text [simplified])
  ultimately show "those (map read_param (Split (Values_Encode q) (CHR ''&''))) = Some (sort_key fst q)" by simp
  show "Values_Encode q \<noteq> []" using e unfolding Values_Encode_def by (cases "sort_key fst q"; cases "tl (sort_key fst q)") auto
qed

lemma escape_append: "url_escape safe (s @ t) = url_escape safe s @ url_escape safe t"
  by (simp add: url_escape_def)

text \<open>
  C33: A connection URL reads back as the user, the password, the host with its port, the database and the parameters it was
  built from: no character of one part ends up in another.
\<close>

theorem ConnectionURL_reads_back:
  "read_connection (ConnectionURL username password host port dbname extraParams) =
     Some \<lparr>cn_User = username, cn_Password = password, cn_Host = host @ '':'' @ Itoa port, cn_Database = dbname,
           cn_Params = sort_key fst extraParams\<rparr>"
proof -
  note d = hex_alphabet_def user_safe_def host_safe_def path_safe_def unreserved_def is_upper_def is_lower_def is_digit_def
  have u: "CHR ''@'' \<notin> set (url_escape user_safe s)" "CHR '':'' \<notin> set (url_escape user_safe s)" for s
    by (rule escape_avoids; simp add: d)+
  have h: "CHR ''/'' \<notin> set (url_escape host_safe s)" for s by (rule escape_avoids) (simp_all add: d)
  have p: "CHR ''?'' \<notin> set (url_escape path_safe s)" for s by (rule escape_avoids) (simp_all add: d)
  have s: "url_escape path_safe (''/'' @ dbname) = CHR ''/'' # url_escape path_safe dbname" by (simp add: url_escape_def d)
  define rest where "rest = (if extraParams \<noteq> [] then ''?'' @ Values_Encode extraParams else [])"
  have r: "cut_at (CHR ''?'') (url_escape path_safe dbname @ rest) = (url_escape path_safe dbname, drop 1 rest)"
    using cut_at_none [OF p] cut_at_app [OF p] by (auto simp: rest_def)
  define query where "query = drop 1 rest"
  have q: "(if query = [] then Some [] else those (map read_param (Split query (CHR ''&'')))) = Some (sort_key fst extraParams)"
    using Values_Encode_reads [of extraParams] by (auto simp: rest_def query_def)
  have c1: "cut_at (CHR ''@'') ((url_escape user_safe username @ '':'' @ url_escape user_safe password) @ CHR ''@'' # t) =
      (url_escape user_safe username @ '':'' @ url_escape user_safe password, t)" for t
    by (rule cut_at_app) (simp add: u)
  have "TrimPrefix (ConnectionURL username password host port dbname extraParams) ''postgres://'' =
      (url_escape user_safe username @ '':'' @ url_escape user_safe password) @ CHR ''@'' #
      (url_escape host_safe (host @ '':'' @ Itoa port) @ CHR ''/'' # (url_escape path_safe dbname @ rest))"
    by (simp only: ConnectionURL_def s rest_def) (simp add: TrimPrefix_def HasPrefix_def)
  then show ?thesis
    using cut_at_app [OF h] cut_at_app [OF u(2)] q
    by (cases "query = []") (simp_all add: read_connection_def c1 [simplified] r [folded query_def] unescape_escape not_safe_percent Let_def split_beta)
qed

section \<open>Lists of maps and lists of structs\<close>

fun MapSliceToStructSlice :: "('m \<Rightarrow> string + string) \<Rightarrow> (string \<Rightarrow> string + 'a) \<Rightarrow> string \<Rightarrow> 'm list \<Rightarrow> string + 'a list" where
  "MapSliceToStructSlice marshal unmarshal tname [] = Inr []"
| "MapSliceToStructSlice marshal unmarshal tname (m # ms) =
     (case marshal m of
        Inl err \<Rightarrow> Inl (''failed to marshal map: '' @ err)
      | Inr bs \<Rightarrow>
          (case unmarshal bs of
             Inl err \<Rightarrow> Inl (''failed to unmarshal to '' @ tname @ '': '' @ err)
           | Inr x \<Rightarrow>
               (case MapSliceToStructSlice marshal unmarshal tname ms of Inl err \<Rightarrow> Inl err | Inr xs \<Rightarrow> Inr (x # xs))))"

fun StructSliceToMapSlice :: "('a \<Rightarrow> string + string) \<Rightarrow> (string \<Rightarrow> string + 'm) \<Rightarrow> string \<Rightarrow> 'a list \<Rightarrow> string + 'm list" where
  "StructSliceToMapSlice marshal unmarshal tname [] = Inr []"
| "StructSliceToMapSlice marshal unmarshal tname (r # rs) =
     (case marshal r of
        Inl err \<Rightarrow> Inl (''failed to marshal '' @ tname @ '': '' @ err)
      | Inr bs \<Rightarrow>
          (case unmarshal bs of
             Inl err \<Rightarrow> Inl (''failed to unmarshal '' @ tname @ '' into map: '' @ err)
           | Inr m \<Rightarrow>
               (case StructSliceToMapSlice marshal unmarshal tname rs of Inl err \<Rightarrow> Inl err | Inr ms \<Rightarrow> Inr (m # ms))))"

text \<open>When each struct survives the way through its text and a map, so does the list of them.\<close>

theorem struct_slice_roundtrip:
  assumes "\<And>x. x \<in> set xs \<Longrightarrow> \<exists>b m b'. marshal x = Inr b \<and> unmarshal b = Inr m \<and> marshal_map m = Inr b' \<and> unmarshal_struct b' = Inr x"
  shows "\<exists>ms. StructSliceToMapSlice marshal unmarshal tname xs = Inr ms \<and> MapSliceToStructSlice marshal_map unmarshal_struct tname ms = Inr xs"
  using assms
proof (induction xs)
  case (Cons x xs)
  from Cons.prems [of x] obtain b m b'
    where x: "marshal x = Inr b" "unmarshal b = Inr m" "marshal_map m = Inr b'" "unmarshal_struct b' = Inr x" by auto
  from Cons obtain ms where "StructSliceToMapSlice marshal unmarshal tname xs = Inr ms"
      "MapSliceToStructSlice marshal_map unmarshal_struct tname ms = Inr xs" by auto
  with x show ?case by (intro exI [of _ "m # ms"]) simp
qed simp

end
