(* ===== verification/Spec2Isabelle.thy ===== *)
theory Spec2Isabelle
  imports Ttl_Cache Plurals Json_Maps Kube_Objects Post_Render Helm_Config Helm_Client Helm_Reconcile
    Dep_Graph Crd_Schema Crd_Transpile Crd_Generate Jwt_Token Short_Id Kube_Names Endpoints Http_Types Server_Cors
    Server_Use Env_Vars Rbac_Authorizer Event_Bus Event_Recorder Retry_Wait Jq_Eval Chart_Getter Client_Certs Http_Request Kube_Clients
    Code_Printer Http_Tracer Schema_Loading Data_Convert
begin

text \<open>
  A verification library for the Go module \<open>plumbing\<close>, the shared library of the Krateo platform.
  The module is a flat collection of packages; the parts that carry its own logic are the Helm client
  with the apply-if-changed \<open>Reconcile\<close> engine (\<open>helm/v3\<close>, \<open>helm/utils\<close>, \<open>helm/helm.go\<close>), the
  generator of custom resource definitions (\<open>crdgen\<close>), the chain of HTTP middlewares that authenticates requests
  (\<open>server/use\<close> over \<open>jwtutil\<close>, \<open>endpoints\<close>, \<open>context\<close>, \<open>http/response\<close>), the cached authorizer
  (\<open>kubeutil/rbac\<close>), the event bus and the event recorders (\<open>eventbus\<close>, \<open>kubeutil/eventrecorder\<close>), retries and waiting
  (\<open>http/util\<close>, \<open>wait\<close>), requests to endpoints (\<open>http/request\<close>) and the sign-up of users (\<open>signup\<close>, \<open>certs\<close>, \<open>kubeconfig\<close>), the chart
  getters with their cache on disk (\<open>helm/getter\<close>), the binding to the jq interpreter (\<open>jqutil\<close>), identifiers and names (\<open>shortid\<close>, \<open>kubeutil\<close>), the nested-map accessors (\<open>maps\<close>), the TTL
  cache (\<open>cache\<close>) and its clients, and the dependency graph (\<open>deps\<close>).

  \<^bold>\<open>Conventions.\<close>  Go strings are byte strings; a Go map is an association list with distinct
  keys whose order has no meaning, and code that ranges over a map gets the order of the visit as an
  argument.  Instants and durations are integers.  A method with a pointer receiver takes the record of
  the receiver and returns the updated record.  An error return is a value of \<open>gerr\<close>, a message, or an
  option; a run-time panic is a value of its own.  Code outside the repository (the Kubernetes client
  libraries, the Helm SDK, YAML and JSON codecs, the API server) is an argument of the definitions
  that call it; what a theorem needs of it is a named hypothesis or a locale, and each such locale is
  interpreted on an executable implementation.

  \<^bold>\<open>Theories.\<close>

  \<^item> \<open>Go_Prelude\<close>: strings, association lists, sorting, and the locale \<open>step_system\<close> (invariants
    of operation sequences).  \<open>Kube_Types\<close>: group, version and kind.

  \<^item> \<open>Ttl_Cache\<close> (\<open>cache/cache.go\<close>): the record \<open>ttl_cache\<close> with map and recency list, one definition
    per method.  The representation invariant holds after every sequence of operations, the
    cache refines an abstract recency list, and the locale \<open>ttl_store\<close> states what clients rely on.

  \<^item> \<open>Plurals\<close> (\<open>kubeutil/plurals\<close>): \<open>Get\<close> and the default resolver; with a faithful cache the
    answer is the resolver's.  The proof is inside the contract \<open>ttl_store\<close>.

  \<^item> \<open>Json_Maps\<close> (\<open>maps\<close>): readers, writers, deep copies, leaf paths, reordering; get-after-set
    laws, round trip of printed paths, canonical deep copies, and the loss of slices by \<open>Reorder\<close>.

  \<^item> \<open>Kube_Objects\<close>: the pure helpers of \<open>helm/v3/reconcile.go\<close> on objects: keys, annotations,
    the stored form of Secrets, the comparison of objects without fields that never drift.

  \<^item> \<open>Post_Render\<close> (\<open>helm/v3/postrender_validation.go\<close>, \<open>helm/utils\<close>): chains of post-renderers,
    the rejection of duplicate resources, labels and trace annotations, the \<open>global\<close> values.

  \<^item> \<open>Helm_Config\<close> (\<open>helm/helm.go\<close>, \<open>helm/v3/config.go\<close>): configurations and their copy onto the
    SDK actions.

  \<^item> \<open>Helm_Client\<close> (\<open>helm/v3/client.go\<close>, \<open>chart.go\<close>, \<open>client_getter.go\<close>, \<open>crdinformer.go\<close>): the
    operations of the client over the record \<open>helm_env\<close> of the SDK and the cluster, threading an
    abstract world and the list of writes.  The install is retried once after a reset of the mapper.

  \<^item> \<open>Helm_Reconcile\<close> (\<open>helm/v3/reconcile.go\<close>): the engine, in the order of the steps of the source.
    Order and number of writes, the errors, the input of the merge, the exact condition for a change,
    and the repair of stored manifests whose kinds are no longer served.

  \<^item> \<open>Dep_Graph\<close> (\<open>deps/deps.go\<close>): the graph that refuses cycles; exactness of the refusal, the
    mirror invariant of the two edge maps, and the topological order.

  \<^item> \<open>Crd_Schema\<close>, \<open>Crd_Transpile\<close>, \<open>Crd_Generate\<close> (\<open>crdgen\<close>, \<open>crdgen/schemas/model.go\<close>): the
    JSON-Schema node, the table of references, the transpiler with all keywords and warnings, the
    assembly of the definition.  The output satisfies the node rules of a structural schema; the depth
    of the output is bounded although references are inlined; version names are legal.

  \<^item> \<open>Go_Encoding\<close>, \<open>Jwt_Keys\<close>, \<open>Jwt_Token\<close> (\<open>jwtutil\<close>): base64url and big-endian integers, the sources of public
    keys with the cached key set, issuing and validating tokens.  The locale \<open>key_source\<close> is what validation needs
    of a source, \<open>jwt_parser\<close> and \<open>jwt_library\<close> what the JWT library documents.  Validation refines its
    specification, issued tokens validate, fetches are spaced, known keys survive an outage.

  \<^item> \<open>Env_Vars\<close> (\<open>env/env.go\<close>), \<open>Kube_Names\<close> (\<open>kubeutil/*.go\<close>, \<open>hasher\<close>, \<open>secretref\<close>), \<open>Endpoints\<close> (\<open>endpoints\<close>, with the
    locale \<open>secrets_laws\<close> for the Secrets of a cluster), \<open>Short_Id\<close> (\<open>shortid\<close>, on 64-bit words).

  \<^item> \<open>Http_Types\<close> (\<open>context/context.go\<close>, \<open>http/response\<close>), \<open>Server_Cors\<close> (\<open>server/use/cors\<close>) and \<open>Server_Use\<close>
    (\<open>server/use\<close>, \<open>server/probes\<close>): handlers as functions on the state of a server, the middlewares and their
    chain.  The cross-origin decision is exact; authentication refines its specification for every key
    source and parser that satisfy their locales (\<open>authenticator\<close>).

  \<^item> \<open>Rbac_Authorizer\<close> (\<open>kubeutil/rbac\<close>): the authorizer over the contract \<open>ttl_store\<close> of the cache; its answers are
    the decisions of the API server.  The array shared by \<open>items\<close> and \<open>fallback\<close> is modelled.

  \<^item> \<open>Event_Bus\<close> (\<open>eventbus\<close>): subscriptions, and publications as a step relation over their goroutines; accounting and
    termination under every interleaving.  \<open>Event_Recorder\<close> (\<open>kubeutil/eventrecorder\<close>, \<open>kubeutil/event\<close>, \<open>ptr\<close>): the throttled
    recorder against the history of each stream.

  \<^item> \<open>Retry_Wait\<close> (\<open>http/util/retry.go\<close>, \<open>wait/until.go\<close>, \<open>pgutil/wait.go\<close>): the retrying client with its overflowing
    backoff, and polling.

  \<^item> \<open>Go_Json\<close>: UTF-8, JSON numbers and a JSON reader as \<open>encoding/json\<close> documents it.  \<open>Jq_Encoder\<close> (\<open>jqutil/encoder.go\<close>): what the encoder
    prints reads back as the value.  \<open>Jq_Eval\<close> (\<open>jqutil/jqutil.go\<close>, \<open>infer.go\<close>, \<open>modules.go\<close>): queries over the interpreter's results, the
    inference of types, the search of modules; \<open>Go_Path\<close> is \<open>path\<close> of Go's library.

  \<^item> \<open>Repo_Index\<close> (\<open>helm/getter/repo\<close>), \<open>Disk_Cache\<close> (\<open>helm/getter/cache\<close>) and \<open>Chart_Getter\<close> (\<open>helm/getter\<close>): repository indices and the
    choice of a version, the cache of files with its cleanup goroutine as interleaved steps against the history of
    the files, and the getters over both.  The locale \<open>chart_store\<close> is what a getter relies on in the cache.

  \<^item> \<open>Client_Certs\<close> (\<open>certs\<close>, \<open>signup\<close>, \<open>kubeconfig\<close>): signing requests and sign-up over the locale \<open>csr_laws\<close>, interpreted on a
    cluster with a signer.  \<open>Http_Request\<close> (\<open>http/request\<close>): round trippers, transports, the signature for AWS, and \<open>Do\<close> over the
    retrying client.

  \<^item> \<open>Kube_Clients\<close> (\<open>kubeutil/objectclient\<close>, \<open>kubeutil/dynamicwatch\<close>, \<open>kubeutil/rbacgen\<close>, \<open>kubeutil/discoveryevents\<close>): applying and
    removing objects with retries over the locale \<open>dyn_laws\<close> of the dynamic client, watches that start once, generated
    roles, and the events of discovery, which a client of the locale \<open>subscriber\<close> can follow.

  \<^item> \<open>Buffer_Pool\<close> (\<open>bufferpool\<close>) and \<open>Code_Printer\<close> (\<open>codegen\<close>): buffers and the pool they come from as sequences of operations;
    the nodes of Go source, their builders and their printing, with panics.  Brackets match, comments stay comments, and what
    \<open>String\<close> gives is what was printed whatever buffer the pool chose.

  \<^item> \<open>Schema_Loading\<close> (\<open>crdgen/schemas\<close>): references, loaders, legacy keywords, the merge of \<open>allOf\<close> and the collection of
    definitions.  \<open>Http_Tracer\<close> (\<open>helm/v3/tracer\<close>): the record of the objects that requests name.  \<open>Data_Convert\<close> (\<open>pgutil/url.go\<close>,
    \<open>maps/convert.go\<close>): connection URLs that read back, lists of structs as lists of maps.

  \<^bold>\<open>Termination and bounds.\<close>  The JSON reader has fuel, one more than the length of the text, which is enough because
  every step consumes a character; the redirects of a client are bounded by ten as in \<open>net/http\<close>.  The collection of definitions
  of \<open>Schema_Loading\<close> has fuel because the code may not end: more than the size of the tree is enough without \<open>allOf\<close>, and no
  fuel is enough for a recursive one.  No other definition uses
  fuel, except the reference cluster of \<open>Client_Certs\<close>, whose poller gives up after a hundred rounds.  The transpiler ends because a reference is
  followed only when its pointer is not on the stack, and the table of pointers is finite; the layering
  loop of the dependency graph removes a node in every round or stops; the discovery loop of
  \<open>buildTransitive\<close> adds a node of the graph in every round or stops; the loop of the retrying client counts attempts.
  Polling may run for ever and is a partial function; that it returns is proved.  Where a computation can
  reach the limits of its type it is done at its width: 64-bit words for identifiers, seeds, counters and hashes
  (\<open>Short_Id\<close>, \<open>Kube_Names\<close>, \<open>Event_Bus\<close>, \<open>Event_Recorder\<close>), wrapping 64-bit durations in \<open>Retry_Wait\<close>, saturating differences
  of instants.  Elsewhere integers count entries, nanoseconds and retries and are unbounded.

  \<^bold>\<open>Not modelled.\<close>  \<open>e2e\<close>, \<open>logger\<close>, the example and constants; construction of clients of the Kubernetes libraries
  (\<open>newSecretsRESTClient\<close>, \<open>NewCachedClients\<close>), which only fills their structs; listening and shutting down of servers;
  accessors and printers without state.  Log lines are left out except where they are the purpose of the code.  A mutex around every method of a
  package makes its methods atomic steps; where goroutines run inside a method, as in \<open>eventbus\<close>, they are
  modelled.
\<close>

section \<open>A guarded handler\<close>

text \<open>
  The middlewares composed as a server composes them: cross-origin headers, a trace identifier, authentication, and
  a handler that may ask the authorizer.
\<close>

lemma authorization_kept:
  "header_Get (header_Set h ''X-Krateo-TraceId'' t) ''Authorization'' = header_Get h ''Authorization''"
proof -
  have "CanonicalHeaderKey ''Authorization'' \<noteq> CanonicalHeaderKey ''X-Krateo-TraceId''" by code_simp
  then show ?thesis by (simp add: header_Get_def header_Set_def)
qed

lemmas context_readers = BuildContext_def WithAccessToken_def WithUserInfo_def WithUserConfig_def WithTraceId_def
  ctx_UserInfo_def ctx_AccessToken_def ctx_UserConfig_def

text \<open>
  A middleware has a single exit when it either passes one request and one state on to the handler or answers by
  itself, whatever the handler is.
\<close>

definition single_exit :: "('x handler \<Rightarrow> 'x server) \<Rightarrow> bool" where
  "single_exit F \<longleftrightarrow> (\<exists>r st. \<forall>h. F h = h r st) \<or> (\<exists>s. \<forall>h. F h = s)"

lemma single_exit_basic: "single_exit (\<lambda>h. s)" "single_exit (\<lambda>h. h r st)"
  by (auto simp: single_exit_def)

lemma single_exit_cases:
  "single_exit F \<Longrightarrow> single_exit G \<Longrightarrow> single_exit (\<lambda>h. if b then F h else G h)"
  "single_exit F \<Longrightarrow> (\<And>x. single_exit (H x)) \<Longrightarrow> single_exit (\<lambda>h. case opt of None \<Rightarrow> F h | Some x \<Rightarrow> H x h)"
  "(\<And>e. single_exit (E e)) \<Longrightarrow> (\<And>y. single_exit (K y)) \<Longrightarrow> single_exit (\<lambda>h. case sm of Inl e \<Rightarrow> E e h | Inr y \<Rightarrow> K y h)"
  "(\<And>u v. single_exit (L u v)) \<Longrightarrow> single_exit (\<lambda>h. case pr of (u, v) \<Rightarrow> L u v h)"
  "single_exit F \<Longrightarrow> (\<And>z zs. single_exit (M z zs)) \<Longrightarrow> single_exit (\<lambda>h. case xs of [] \<Rightarrow> F h | z # zs \<Rightarrow> M z zs h)"
  by (cases b, simp_all) (cases opt, simp_all, cases sm, simp_all, cases pr, simp_all, cases xs, simp_all)

lemma UserConfig_single_exit: "single_exit (\<lambda>h. UserConfig env pk ns h r st)"
  unfolding UserConfig_def Let_def by (intro single_exit_cases single_exit_basic)

lemma UserConfig_denies:
  assumes "authenticator (au_parse env) decoded verifies pk" and "rw_Status (sv_resp st) = None"
    and "auth_spec decoded verifies pk env ns (header_Get (rq_Header r) ''Authorization'') (sv_world st) = (w, Deny code)"
  shows "\<exists>s. refused st w code s \<and> (\<forall>h. UserConfig env (Some pk) ns h r st = s)"
proof -
  have denied: "refused st w code (UserConfig env (Some pk) ns h r st)" for h
    using authenticator.authenticate [OF assms(1) refl assms(2), of ns h r] assms(3) by simp
  show ?thesis
    using UserConfig_single_exit [of env "Some pk" ns r st, unfolded single_exit_def]
  proof
    assume "\<exists>r' st'. \<forall>h. UserConfig env (Some pk) ns h r st = h r' st'"
    then have "UserConfig env (Some pk) ns (\<lambda>r' st'. st) r st = st" by fast
    with denied [of "\<lambda>r' st'. st"] assms(2) show ?thesis by (simp add: refused_def)
  next
    assume "\<exists>s. \<forall>h. UserConfig env (Some pk) ns h r st = s"
    with denied show ?thesis by metis
  qed
qed

text \<open>The state in which the cross-origin middleware hands a request on.\<close>

definition after_cors :: "cors_options \<Rightarrow> request \<Rightarrow> 'x server \<Rightarrow> 'x server" where
  "after_cors opts r = on_header ((if is_preflight r then handlePreflight else handleActualRequest) (cors_New opts) r)"

text \<open>
  C3: behind the middlewares a handler acts for the authenticated user only.  A preflight request is answered by
  the cross-origin middleware with 200, without touching the world and whatever the handler is, unless the
  options pass preflights through.  For every other request, whose trace identifier is at hand, the
  chain of the cross-origin, trace and authentication middlewares runs the handler exactly when the specification
  of authentication admits the \<open>Authorization\<close> header, and then the handler finds in its context that token and
  that user, the trace identifier, and, through the authorizer's lookup, the endpoint stored for this user: as it is
  stored in test mode, and otherwise with the address of the cluster's API server; when authentication does not
  admit the header the answer has the code of the refusal and does not depend on the handler.
\<close>

theorem guarded_handler:
  assumes "authenticator (au_parse env) decoded verifies pk" and "rw_Status (sv_resp st) = None"
    and "ensure_trace gen r (sv_world st) = (w1, Some t)"
    and "serve = (\<lambda>h. chain_Then mux (NewChain [use_CORS opts, TraceId gen, UserConfig env (Some pk) ns]) (Some h) r st)"
  shows "if is_preflight r \<and> \<not> co_OptionsPassthrough opts
    then \<exists>s. (\<forall>h. serve h = s) \<and> rw_Status (sv_resp s) = Some 200 \<and> sv_world s = sv_world st
    else case auth_spec decoded verifies pk env ns (header_Get (rq_Header r) ''Authorization'') w1 of
        (w2, Admit tok u ep) \<Rightarrow>
          (\<exists>r' st'. (\<forall>h. serve h = h r' st') \<and> sv_world st' = w2 \<and> cx_traceId (rq_ctx r') = Some t \<and>
            ctx_AccessToken (rq_ctx r') = (tok, True) \<and> ctx_UserInfo (rq_ctx r') = Inr u \<and>
            (\<forall>testMode. resolveUserEndpoint testMode (rq_ctx r') =
               (if testMode then ep else ep\<lparr>ep_ServerURL := ''https://kubernetes.default.svc''\<rparr>, True)))
      | (w2, Deny code) \<Rightarrow> (\<exists>s. (\<forall>h. serve h = s) \<and> rw_Status (sv_resp s) = Some code \<and> sv_world s = w2)"
proof (cases "is_preflight r \<and> \<not> co_OptionsPassthrough opts")
  case True
  have "rw_Status (sv_resp (on_resp (WriteHeader 200) (on_header f st))) = Some 200" for f
    using assms(2) by (simp add: on_header_def on_resp_def WriteHeader_def)
  with True show ?thesis
    by (simp add: assms(4) chain_Then_foldr NewChain_def use_CORS_def cors_Handler_def cors_New_def Let_def split_beta)
       (simp add: on_header_def on_resp_def)
next
  case False
  define r1 where "r1 = r\<lparr>rq_Header := header_Set (rq_Header r) ''X-Krateo-TraceId'' t, rq_ctx := BuildContext (rq_ctx r) [WithTraceId t]\<rparr>"
  define st1 where "st1 = (after_cors opts r st)\<lparr>sv_world := w1\<rparr>"
  have traced: "ensure_trace gen r (sv_world (on_header f st)) = (w1, Some t)" for f
    using assms(3) by (simp add: on_header_def on_resp_def)
  have "cs_optionPassthrough (cors_New opts) = co_OptionsPassthrough opts" by (simp add: cors_New_def Let_def split_beta)
  with traced False have serve: "serve h = UserConfig env (Some pk) ns h r1 st1" for h
    by (auto simp: assms(4) chain_Then_foldr NewChain_def use_CORS_def cors_Handler_def TraceId_def r1_def st1_def after_cors_def)
  have fresh: "rw_Status (sv_resp st1) = None" using assms(2) by (simp add: st1_def after_cors_def on_header_def on_resp_def)
  have seen: "header_Get (rq_Header r1) ''Authorization'' = header_Get (rq_Header r) ''Authorization''" "sv_world st1 = w1"
    by (simp_all add: r1_def authorization_kept st1_def)
  obtain w2 v where v: "auth_spec decoded verifies pk env ns (header_Get (rq_Header r) ''Authorization'') w1 = (w2, v)"
    by (metis surj_pair)
  show ?thesis
  proof (cases v)
    case (Admit tok u ep)
    let ?r = "r1\<lparr>rq_ctx := BuildContext (rq_ctx r1) [WithAccessToken tok, WithUserInfo u, WithUserConfig ep]\<rparr>"
    have "serve h = h ?r (st1\<lparr>sv_world := w2\<rparr>)" for h
      using authenticator.authenticate [OF assms(1) refl fresh, of ns h r1] unfolding seen v Admit serve by simp
    then show ?thesis unfolding v Admit if_not_P [OF False] prod.case verdict.case
      by (intro exI [of _ ?r] exI [of _ "st1\<lparr>sv_world := w2\<rparr>"]) (simp add: r1_def context_readers resolveUserEndpoint_def)
  next
    case (Deny code)
    with False show ?thesis using UserConfig_denies [OF assms(1) fresh, of ns r1] unfolding seen v serve by (auto simp: refused_def)
  qed
qed

definition report_user :: "'x handler" where
  "report_user r = on_resp (\<lambda>w. w\<lparr>rw_Body := (case ctx_UserInfo (rq_ctx r) of Inl e \<Rightarrow> ''?'' | Inr u \<Rightarrow> ui_Username u)\<rparr>)"

theorem guarded_handler_witness:
  "rw_Body (sv_resp (chain_Then (\<lambda>r st. st)
     (NewChain [use_CORS \<lparr>co_AllowedOrigins = [], co_AllowOriginFunc = None, co_AllowedMethods = [], co_AllowedHeaders = [],
         co_ExposedHeaders = [], co_AllowCredentials = False, co_MaxAge = 0, co_OptionsPassthrough = False\<rparr>,
       TraceId (\<lambda>w. (w, Some ''id7'')), UserConfig auth_example_env (Some static_PublicKey) ''ns''])
     (Some report_user)
     (auth_request (''Bearer '' @ example_token)) (fresh_server (Some (Some \<lparr>rsa_N = 33, rsa_E = 3\<rparr>))))) = ''u''"
proof -
  let ?k = "Some (Some \<lparr>rsa_N = 33, rsa_E = 3\<rparr>)" and ?r = "auth_request (''Bearer '' @ example_token)"
  have env: "au_parse auth_example_env = ref_parse" by (simp add: auth_example_env_def)
  have resp: "rw_Status (sv_resp (fresh_server ?k)) = None" by (simp add: fresh_server_def)
  have pre: "\<not> is_preflight ?r" by (simp add: is_preflight_def auth_request_def)
  have "CanonicalHeaderKey ''X-Krateo-TraceId'' = ''X-Krateo-Traceid''" "CanonicalHeaderKey ''Authorization'' = ''Authorization''"
    by code_simp+
  then have hdr: "header_Get (rq_Header ?r) ''X-Krateo-TraceId'' = []" "header_Get (rq_Header ?r) ''Authorization'' = ''Bearer '' @ example_token"
    by (simp_all add: auth_request_def header_Get_def)
  have trace: "ensure_trace (\<lambda>w. (w, Some ''id7'')) ?r (sv_world (fresh_server ?k)) = (?k, Some ''id7'')"
    unfolding ensure_trace_def Let_def hdr by (simp add: fresh_server_def)
  let ?opts = "\<lparr>co_AllowedOrigins = [], co_AllowOriginFunc = None, co_AllowedMethods = [], co_AllowedHeaders = [],
         co_ExposedHeaders = [], co_AllowCredentials = False, co_MaxAge = 0, co_OptionsPassthrough = False\<rparr>"
  note g = guarded_handler [where pk = static_PublicKey and env = auth_example_env, unfolded env,
      OF static_auth.authenticator_axioms resp trace refl, where ns = "''ns''" and opts = ?opts and mux = "\<lambda>r st. st"]
  have "\<not> (is_preflight ?r \<and> \<not> co_OptionsPassthrough ?opts)" using pre by simp
  note g [unfolded if_not_P [OF this], unfolded hdr example_admitted prod.case verdict.case]
  then obtain r' st' where "ctx_UserInfo (rq_ctx r') = Inr \<lparr>ui_Username = ''u'', ui_Groups = [''g'']\<rparr>"
    "chain_Then (\<lambda>r st. st) (NewChain [use_CORS ?opts, TraceId (\<lambda>w. (w, Some ''id7'')),
       UserConfig auth_example_env (Some static_PublicKey) ''ns'']) (Some report_user) ?r (fresh_server ?k) = report_user r' st'"
    by (elim exE conjE) blast
  then show ?thesis by (simp only:) (simp add: report_user_def on_resp_def)
qed

section \<open>The client of a user who signed up\<close>

text \<open>
  C4: Sign-up, storage and transport fit together.  When \<open>signup.Do\<close> succeeded with the authority of the cluster, and
  nobody replaced the signing request of this sign-up meanwhile (\<open>undisturbed\<close>: the object that is read at the
  end has the UID of the one that was created), the Secret of the user leads to a transport that presents the certificate issued for this user, with its key, trusts exactly the
  cluster's authority and verifies the server.
\<close>

theorem signed_up_client:
  assumes "csr_laws (se_csr env) issued later" and "secrets_laws (se_secrets env)" and "signup_Do env opts w = (w', ep, None)"
    and alone: "undisturbed env (signup_cert_opts opts) w"
    and "so_CAData opts = []" and "CACrt (se_readNamespace env w) (se_configMaps env w) = Inr (b64_encode ca)" and "ca \<noteq> []"
    and pair: "\<And>w1 key w2 der crt. se_generateKey env w = (w1, Inr key) \<Longrightarrow>
      se_createRequest env (subject (so_Username opts) (so_UserGroups opts)) key w1 = (w2, Inr der) \<Longrightarrow>
      issued (pem_encode ''CERTIFICATE REQUEST'' der) crt \<Longrightarrow>
      nt_keyPair net crt (pem_encode ''RSA PRIVATE KEY'' (se_marshalKey env key)) = Inr (pair crt key)"
  shows "\<exists>ep crt key w1 w2 der. FromSecret (se_secrets env) w' (clientconfig_name (so_Username opts)) (so_Namespace opts) = Inr ep \<and>
    se_generateKey env w = (w1, Inr key) \<and> se_createRequest env (subject (so_Username opts) (so_UserGroups opts)) key w1 = (w2, Inr der) \<and>
    issued (pem_encode ''CERTIFICATE REQUEST'' der) crt \<and>
    tlsConfigFor net ep = Inr (defaultTransport\<lparr>tr_TLSClientConfig :=
      Some \<lparr>tls_InsecureSkipVerify = False, tls_RootCAs = Some [ca], tls_Certificates = [pair crt key]\<rparr>\<rparr>)"
proof -
  obtain w3 ca' url crt64 key64 where ca': "(if so_CAData opts = [] then CACrt (se_readNamespace env w) (se_configMaps env w) else Inr (so_CAData opts)) = Inr ca'"
    and stage: "generateClientCertAndKey env (signup_cert_opts opts) w = (w3, Inr (crt64, key64))"
    and ep: "ep = zero_endpoint\<lparr>ep_ServerURL := url, ep_CertificateAuthorityData := ca', ep_ClientCertificateData := crt64,
       ep_ClientKeyData := key64, ep_Username := so_Username opts\<rparr>"
    and store: "Store (se_secrets env) w3 (so_Namespace opts) ep = (w', None)"
    using signup_Do_stages [OF assms(3)] .
  obtain w1 key w2 der crt where own: "se_generateKey env w = (w1, Inr key)"
    "se_createRequest env (subject (so_Username opts) (so_UserGroups opts)) key w1 = (w2, Inr der)"
    "crt64 = b64_encode crt" "crt \<noteq> []" "issued (pem_encode ''CERTIFICATE REQUEST'' der) crt"
    "key64 = b64_encode (pem_encode ''RSA PRIVATE KEY'' (se_marshalKey env key))"
    using generated_pair [OF assms(1) stage alone] by (auto simp: own_credentials_def signup_cert_opts_def)
  have nonempty: "b64_encode s \<noteq> []" if "s \<noteq> []" for s using that b64_decode_encode [of s] by auto
  have "pem_encode ''RSA PRIVATE KEY'' k \<noteq> []" for k by (simp add: pem_encode_def)
  with own have cert: "HasCertAuth ep" by (simp add: HasCertAuth_def ep nonempty)
  have "ca' = b64_encode ca" using ca' assms(5,6) by simp
  then have "tlsConfigFor net ep = Inr (defaultTransport\<lparr>tr_TLSClientConfig :=
      Some \<lparr>tls_InsecureSkipVerify = False, tls_RootCAs = Some [ca], tls_Certificates = [pair crt key]\<rparr>\<rparr>)"
    using own by (intro tlsConfigFor_certificates [OF _ cert _ _ _ assms(7) pair [OF own(1,2,5)]]) (simp_all add: ep zero_endpoint_def)
  moreover have "FromSecret (se_secrets env) w' (clientconfig_name (so_Username opts)) (so_Namespace opts) = Inr ep"
    using signed_up_reads_back [OF assms(2) store] by (simp add: ep zero_endpoint_def)
  ultimately show ?thesis using own by blast
qed

theorem signed_up_client_witness:
  "\<exists>ep crt key w1 w2 der. FromSecret cluster_secrets (fst (signup_Do cluster_env ann old_cluster)) (clientconfig_name ''ann'') ''ns'' = Inr ep \<and>
    se_generateKey cluster_env old_cluster = (w1, Inr key) \<and> se_createRequest cluster_env (subject ''ann'' [''devs'']) key w1 = (w2, Inr der) \<and>
    crt = sign (pem_encode ''CERTIFICATE REQUEST'' der) \<and>
    tlsConfigFor example_net ep = Inr (defaultTransport\<lparr>tr_TLSClientConfig :=
      Some \<lparr>tls_InsecureSkipVerify = False, tls_RootCAs = Some [''CA''], tls_Certificates = [()]\<rparr>\<rparr>)"
proof -
  have env: "se_csr cluster_env = cluster_api" "se_secrets cluster_env = cluster_secrets" by (simp_all add: cluster_env_def)
  have run: "signup_Do cluster_env ann old_cluster =
      (fst (signup_Do cluster_env ann old_cluster), fst (snd (signup_Do cluster_env ann old_cluster)), None)"
    by (simp add: prod_eq_iff ann_signs_up)
  have opts: "so_CAData ann = []" "so_Username ann = ''ann''" "so_UserGroups ann = [''devs'']" "so_Namespace ann = ''ns''"
    by (simp_all add: ann_def)
  have "CACrt (se_readNamespace cluster_env w) (se_configMaps cluster_env w) = Inr (b64_encode ''CA'')" for w
    by (simp add: cluster_env_def CACrt_def ServiceAccountNamespace_def ConfigMapData_def)
  from signed_up_client [where net = example_net and pair = "\<lambda>c k. ()", OF _ _ run ann_undisturbed opts(1) this,
      where issued = "\<lambda>req crt. crt = sign req", unfolded env opts, OF cluster.csr_laws_axioms cluster_secrets.secrets_laws_axioms]
  show ?thesis by (simp add: example_net_def)
qed

end
